(* ===== verification/Prelude.thy ===== *)
theory Prelude
  imports Main "HOL-Library.Word"
begin

text \<open>
  Shared vocabulary of the development: the C data the sources handle (characters,
  NUL-terminated strings, decimal printing), the \<^theory_text>\<open>named_theorems\<close> collections the
  component proofs draw on, and the generic facts on lists that several components need.
\<close>

named_theorems lexer_simps \<open>how the scanner's primitives move the cursor\<close>
named_theorems chan_simps \<open>the atomic channel operations, unfolded\<close>
named_theorems mem_simps \<open>the object store's accessors and updates\<close>

section \<open>C characters and strings\<close>

text \<open>
  A C \<open>char\<close> is an 8-bit \<^typ>\<open>char\<close>; a source text is a \<^typ>\<open>string\<close>. The abbreviations
  name the characters whose Isabelle spelling is hexadecimal.
\<close>

abbreviation NUL :: char where "NUL \<equiv> CHR 0x00"
abbreviation NEWLINE :: char where "NEWLINE \<equiv> CHR 0x0A"
abbreviation TAB :: char where "TAB \<equiv> CHR 0x09"
abbreviation CRET :: char where "CRET \<equiv> CHR 0x0D"
abbreviation DQUOTE :: char where "DQUOTE \<equiv> CHR 0x22"
abbreviation SQUOTE :: char where "SQUOTE \<equiv> CHR 0x27"
abbreviation BACKTICK :: char where "BACKTICK \<equiv> CHR 0x60"
abbreviation BACKSLASH :: char where "BACKSLASH \<equiv> CHR 0x5C"

definition char_code :: "char \<Rightarrow> nat" where
  "char_code c = of_char c"

lemma char_code_less [simp]: "char_code c < 256"
  by (simp add: char_code_def)

text \<open>\<open>strlen\<close> sees a buffer up to its first NUL; \<open>c_string\<close> is that prefix.\<close>

definition c_string :: "string \<Rightarrow> string" where
  "c_string s = takeWhile (\<lambda>c. c \<noteq> NUL) s"

lemma NUL_notin_c_string [simp]: "NUL \<notin> set (c_string s)"
  by (auto simp: c_string_def dest: set_takeWhileD)

lemma c_string_id [simp]: "NUL \<notin> set s \<Longrightarrow> c_string s = s"
  by (auto simp: c_string_def takeWhile_eq_all_conv)

lemma length_c_string_le: "length (c_string s) \<le> length s"
  by (simp add: c_string_def length_takeWhile_le)

section \<open>Decimal printing\<close>

text \<open>The digits \<open>printf\<close> writes for \<open>%lld\<close>, \<open>%ld\<close>, \<open>%llu\<close> and \<open>%zu\<close>.\<close>

definition digit_char :: "nat \<Rightarrow> char" where
  "digit_char d = char_of (48 + d)"

fun nat_to_dec :: "nat \<Rightarrow> string" where
  "nat_to_dec n = (if n < 10 then [digit_char n] else nat_to_dec (n div 10) @ [digit_char (n mod 10)])"

declare nat_to_dec.simps [simp del]

definition int_to_dec :: "int \<Rightarrow> string" where
  "int_to_dec i = (if i < 0 then CHR ''-'' # nat_to_dec (nat (- i)) else nat_to_dec (nat i))"

lemma nat_to_dec_nonempty [simp]: "nat_to_dec n \<noteq> []"
  by (subst nat_to_dec.simps) simp

lemma nat_to_dec_bound: "n < 10 ^ k \<Longrightarrow> 0 < k \<Longrightarrow> length (nat_to_dec n) \<le> k"
proof (induction n arbitrary: k rule: nat_to_dec.induct)
  case (1 n)
  show ?case
  proof (cases "n < 10")
    case True
    then show ?thesis using "1.prems" by (subst nat_to_dec.simps) simp
  next
    case False
    then obtain j where j: "k = Suc j" "0 < j"
      using "1.prems" by (cases k; cases "k - 1") auto
    have "n div 10 < 10 ^ j"
      using "1.prems" j by (simp add: less_mult_imp_div_less mult.commute)
    then have "length (nat_to_dec (n div 10)) \<le> j"
      using "1.IH" False j by simp
    then show ?thesis
      using False j by (subst nat_to_dec.simps) simp
  qed
qed

section \<open>Machine words\<close>

lemma unat_of_nat_small: "n < 2 ^ 64 \<Longrightarrow> unat (of_nat n :: 64 word) = n"
  by (simp add: unat_of_nat take_bit_nat_eq_self)

section \<open>Lists\<close>

lemma take_Suc_nth_append: "i < length xs \<Longrightarrow> take (Suc i) xs = take i xs @ [xs ! i]"
  by (rule take_Suc_conv_app_nth)

lemma nth_takeWhile_eq: "i < length (takeWhile P xs) \<Longrightarrow> takeWhile P xs ! i = xs ! i"
  by (rule takeWhile_nth)

lemma list_all2_swap:
  assumes "list_all2 R xs ys" and "\<And>x y. x \<in> set xs \<Longrightarrow> R x y \<Longrightarrow> S y x"
  shows "list_all2 S ys xs"
  using assms by (induction rule: list_all2_induct) auto

lemma list_all2_through:
  assumes "list_all2 R xs ys" and "list_all2 R ys zs"
    and "\<And>x y z. x \<in> set xs \<Longrightarrow> R x y \<Longrightarrow> R y z \<Longrightarrow> R x z"
  shows "list_all2 R xs zs"
  using assms by (induction arbitrary: zs rule: list_all2_induct) (auto simp: list_all2_Cons1)

end
