(* ===== verification/Token.thy ===== *)
theory Token
  imports Prelude
begin

text \<open>
  Tokens of the Goo scanner, from \<open>include/token.h\<close> and \<open>src/lexer/token.c\<close>: the
  token type enumeration, source positions, the token record, the display names, the
  keyword table and its two linear searches.
\<close>

section \<open>Token types\<close>

text \<open>
  \<open>TokenType\<close> is a C enumeration, so a token type is an \<open>int\<close> and each enumerator is the
  number its place in the declaration gives it; \<open>TOKEN_COUNT\<close> is the number of them.
\<close>

type_synonym token_type = int

abbreviation (input) TOKEN_EOF :: token_type where "TOKEN_EOF \<equiv> 0"
abbreviation (input) TOKEN_IDENT :: token_type where "TOKEN_IDENT \<equiv> 1"
abbreviation (input) TOKEN_INT :: token_type where "TOKEN_INT \<equiv> 2"
abbreviation (input) TOKEN_FLOAT :: token_type where "TOKEN_FLOAT \<equiv> 3"
abbreviation (input) TOKEN_STRING :: token_type where "TOKEN_STRING \<equiv> 4"
abbreviation (input) TOKEN_CHAR :: token_type where "TOKEN_CHAR \<equiv> 5"
abbreviation (input) TOKEN_TRUE :: token_type where "TOKEN_TRUE \<equiv> 6"
abbreviation (input) TOKEN_FALSE :: token_type where "TOKEN_FALSE \<equiv> 7"
abbreviation (input) TOKEN_NIL :: token_type where "TOKEN_NIL \<equiv> 8"
abbreviation (input) TOKEN_BREAK :: token_type where "TOKEN_BREAK \<equiv> 9"
abbreviation (input) TOKEN_CASE :: token_type where "TOKEN_CASE \<equiv> 10"
abbreviation (input) TOKEN_CHAN :: token_type where "TOKEN_CHAN \<equiv> 11"
abbreviation (input) TOKEN_CONST :: token_type where "TOKEN_CONST \<equiv> 12"
abbreviation (input) TOKEN_CONTINUE :: token_type where "TOKEN_CONTINUE \<equiv> 13"
abbreviation (input) TOKEN_DEFAULT :: token_type where "TOKEN_DEFAULT \<equiv> 14"
abbreviation (input) TOKEN_DEFER :: token_type where "TOKEN_DEFER \<equiv> 15"
abbreviation (input) TOKEN_ELSE :: token_type where "TOKEN_ELSE \<equiv> 16"
abbreviation (input) TOKEN_FALLTHROUGH :: token_type where "TOKEN_FALLTHROUGH \<equiv> 17"
abbreviation (input) TOKEN_FOR :: token_type where "TOKEN_FOR \<equiv> 18"
abbreviation (input) TOKEN_FUNC :: token_type where "TOKEN_FUNC \<equiv> 19"
abbreviation (input) TOKEN_GO :: token_type where "TOKEN_GO \<equiv> 20"
abbreviation (input) TOKEN_GOTO :: token_type where "TOKEN_GOTO \<equiv> 21"
abbreviation (input) TOKEN_IF :: token_type where "TOKEN_IF \<equiv> 22"
abbreviation (input) TOKEN_IMPORT :: token_type where "TOKEN_IMPORT \<equiv> 23"
abbreviation (input) TOKEN_INTERFACE :: token_type where "TOKEN_INTERFACE \<equiv> 24"
abbreviation (input) TOKEN_MAP :: token_type where "TOKEN_MAP \<equiv> 25"
abbreviation (input) TOKEN_PACKAGE :: token_type where "TOKEN_PACKAGE \<equiv> 26"
abbreviation (input) TOKEN_RANGE :: token_type where "TOKEN_RANGE \<equiv> 27"
abbreviation (input) TOKEN_RETURN :: token_type where "TOKEN_RETURN \<equiv> 28"
abbreviation (input) TOKEN_SELECT :: token_type where "TOKEN_SELECT \<equiv> 29"
abbreviation (input) TOKEN_STRUCT :: token_type where "TOKEN_STRUCT \<equiv> 30"
abbreviation (input) TOKEN_ENUM :: token_type where "TOKEN_ENUM \<equiv> 31"
abbreviation (input) TOKEN_SWITCH :: token_type where "TOKEN_SWITCH \<equiv> 32"
abbreviation (input) TOKEN_TYPE :: token_type where "TOKEN_TYPE \<equiv> 33"
abbreviation (input) TOKEN_VAR :: token_type where "TOKEN_VAR \<equiv> 34"
abbreviation (input) TOKEN_COMPTIME :: token_type where "TOKEN_COMPTIME \<equiv> 35"
abbreviation (input) TOKEN_CONCEPT :: token_type where "TOKEN_CONCEPT \<equiv> 36"
abbreviation (input) TOKEN_PUB :: token_type where "TOKEN_PUB \<equiv> 37"
abbreviation (input) TOKEN_SUB :: token_type where "TOKEN_SUB \<equiv> 38"
abbreviation (input) TOKEN_REQ :: token_type where "TOKEN_REQ \<equiv> 39"
abbreviation (input) TOKEN_REP :: token_type where "TOKEN_REP \<equiv> 40"
abbreviation (input) TOKEN_PUSH :: token_type where "TOKEN_PUSH \<equiv> 41"
abbreviation (input) TOKEN_PULL :: token_type where "TOKEN_PULL \<equiv> 42"
abbreviation (input) TOKEN_TRY :: token_type where "TOKEN_TRY \<equiv> 43"
abbreviation (input) TOKEN_CATCH :: token_type where "TOKEN_CATCH \<equiv> 44"
abbreviation (input) TOKEN_UNSAFE :: token_type where "TOKEN_UNSAFE \<equiv> 45"
abbreviation (input) TOKEN_ASM :: token_type where "TOKEN_ASM \<equiv> 46"
abbreviation (input) TOKEN_EXTERN :: token_type where "TOKEN_EXTERN \<equiv> 47"
abbreviation (input) TOKEN_FROM :: token_type where "TOKEN_FROM \<equiv> 48"
abbreviation (input) TOKEN_VOLATILE :: token_type where "TOKEN_VOLATILE \<equiv> 49"
abbreviation (input) TOKEN_INLINE :: token_type where "TOKEN_INLINE \<equiv> 50"
abbreviation (input) TOKEN_NO_STD :: token_type where "TOKEN_NO_STD \<equiv> 51"
abbreviation (input) TOKEN_PARALLEL :: token_type where "TOKEN_PARALLEL \<equiv> 52"
abbreviation (input) TOKEN_REDUCE :: token_type where "TOKEN_REDUCE \<equiv> 53"
abbreviation (input) TOKEN_BARRIER :: token_type where "TOKEN_BARRIER \<equiv> 54"
abbreviation (input) TOKEN_ATOMIC :: token_type where "TOKEN_ATOMIC \<equiv> 55"
abbreviation (input) TOKEN_THREAD_LOCAL :: token_type where "TOKEN_THREAD_LOCAL \<equiv> 56"
abbreviation (input) TOKEN_OWNED :: token_type where "TOKEN_OWNED \<equiv> 57"
abbreviation (input) TOKEN_BORROWED :: token_type where "TOKEN_BORROWED \<equiv> 58"
abbreviation (input) TOKEN_SHARED :: token_type where "TOKEN_SHARED \<equiv> 59"
abbreviation (input) TOKEN_LET :: token_type where "TOKEN_LET \<equiv> 60"
abbreviation (input) TOKEN_MATCH :: token_type where "TOKEN_MATCH \<equiv> 61"
abbreviation (input) TOKEN_KERNEL :: token_type where "TOKEN_KERNEL \<equiv> 62"
abbreviation (input) TOKEN_DEVICE :: token_type where "TOKEN_DEVICE \<equiv> 63"
abbreviation (input) TOKEN_HOST :: token_type where "TOKEN_HOST \<equiv> 64"
abbreviation (input) TOKEN_GLOBAL :: token_type where "TOKEN_GLOBAL \<equiv> 65"
abbreviation (input) TOKEN_SHARED_MEM :: token_type where "TOKEN_SHARED_MEM \<equiv> 66"
abbreviation (input) TOKEN_CONSTANT :: token_type where "TOKEN_CONSTANT \<equiv> 67"
abbreviation (input) TOKEN_LOCAL :: token_type where "TOKEN_LOCAL \<equiv> 68"
abbreviation (input) TOKEN_WASM :: token_type where "TOKEN_WASM \<equiv> 69"
abbreviation (input) TOKEN_EXPORT :: token_type where "TOKEN_EXPORT \<equiv> 70"
abbreviation (input) TOKEN_MEMORY :: token_type where "TOKEN_MEMORY \<equiv> 71"
abbreviation (input) TOKEN_TABLE :: token_type where "TOKEN_TABLE \<equiv> 72"
abbreviation (input) TOKEN_GLOBAL_WASM :: token_type where "TOKEN_GLOBAL_WASM \<equiv> 73"
abbreviation (input) TOKEN_FUNC_WASM :: token_type where "TOKEN_FUNC_WASM \<equiv> 74"
abbreviation (input) TOKEN_TYPE_WASM :: token_type where "TOKEN_TYPE_WASM \<equiv> 75"
abbreviation (input) TOKEN_START :: token_type where "TOKEN_START \<equiv> 76"
abbreviation (input) TOKEN_ELEM :: token_type where "TOKEN_ELEM \<equiv> 77"
abbreviation (input) TOKEN_DATA :: token_type where "TOKEN_DATA \<equiv> 78"
abbreviation (input) TOKEN_PLUS :: token_type where "TOKEN_PLUS \<equiv> 79"
abbreviation (input) TOKEN_MINUS :: token_type where "TOKEN_MINUS \<equiv> 80"
abbreviation (input) TOKEN_MULTIPLY :: token_type where "TOKEN_MULTIPLY \<equiv> 81"
abbreviation (input) TOKEN_DIVIDE :: token_type where "TOKEN_DIVIDE \<equiv> 82"
abbreviation (input) TOKEN_MODULO :: token_type where "TOKEN_MODULO \<equiv> 83"
abbreviation (input) TOKEN_ASSIGN :: token_type where "TOKEN_ASSIGN \<equiv> 84"
abbreviation (input) TOKEN_SHORT_ASSIGN :: token_type where "TOKEN_SHORT_ASSIGN \<equiv> 85"
abbreviation (input) TOKEN_PLUS_ASSIGN :: token_type where "TOKEN_PLUS_ASSIGN \<equiv> 86"
abbreviation (input) TOKEN_MINUS_ASSIGN :: token_type where "TOKEN_MINUS_ASSIGN \<equiv> 87"
abbreviation (input) TOKEN_MUL_ASSIGN :: token_type where "TOKEN_MUL_ASSIGN \<equiv> 88"
abbreviation (input) TOKEN_DIV_ASSIGN :: token_type where "TOKEN_DIV_ASSIGN \<equiv> 89"
abbreviation (input) TOKEN_MOD_ASSIGN :: token_type where "TOKEN_MOD_ASSIGN \<equiv> 90"
abbreviation (input) TOKEN_AND_ASSIGN :: token_type where "TOKEN_AND_ASSIGN \<equiv> 91"
abbreviation (input) TOKEN_OR_ASSIGN :: token_type where "TOKEN_OR_ASSIGN \<equiv> 92"
abbreviation (input) TOKEN_XOR_ASSIGN :: token_type where "TOKEN_XOR_ASSIGN \<equiv> 93"
abbreviation (input) TOKEN_LSHIFT_ASSIGN :: token_type where "TOKEN_LSHIFT_ASSIGN \<equiv> 94"
abbreviation (input) TOKEN_RSHIFT_ASSIGN :: token_type where "TOKEN_RSHIFT_ASSIGN \<equiv> 95"
abbreviation (input) TOKEN_EQ :: token_type where "TOKEN_EQ \<equiv> 96"
abbreviation (input) TOKEN_NE :: token_type where "TOKEN_NE \<equiv> 97"
abbreviation (input) TOKEN_LT :: token_type where "TOKEN_LT \<equiv> 98"
abbreviation (input) TOKEN_LE :: token_type where "TOKEN_LE \<equiv> 99"
abbreviation (input) TOKEN_GT :: token_type where "TOKEN_GT \<equiv> 100"
abbreviation (input) TOKEN_GE :: token_type where "TOKEN_GE \<equiv> 101"
abbreviation (input) TOKEN_AND :: token_type where "TOKEN_AND \<equiv> 102"
abbreviation (input) TOKEN_OR :: token_type where "TOKEN_OR \<equiv> 103"
abbreviation (input) TOKEN_NOT :: token_type where "TOKEN_NOT \<equiv> 104"
abbreviation (input) TOKEN_BIT_AND :: token_type where "TOKEN_BIT_AND \<equiv> 105"
abbreviation (input) TOKEN_BIT_OR :: token_type where "TOKEN_BIT_OR \<equiv> 106"
abbreviation (input) TOKEN_BIT_XOR :: token_type where "TOKEN_BIT_XOR \<equiv> 107"
abbreviation (input) TOKEN_BIT_NOT :: token_type where "TOKEN_BIT_NOT \<equiv> 108"
abbreviation (input) TOKEN_LSHIFT :: token_type where "TOKEN_LSHIFT \<equiv> 109"
abbreviation (input) TOKEN_RSHIFT :: token_type where "TOKEN_RSHIFT \<equiv> 110"
abbreviation (input) TOKEN_INCREMENT :: token_type where "TOKEN_INCREMENT \<equiv> 111"
abbreviation (input) TOKEN_DECREMENT :: token_type where "TOKEN_DECREMENT \<equiv> 112"
abbreviation (input) TOKEN_ARROW :: token_type where "TOKEN_ARROW \<equiv> 113"
abbreviation (input) TOKEN_BANG :: token_type where "TOKEN_BANG \<equiv> 114"
abbreviation (input) TOKEN_QUESTION :: token_type where "TOKEN_QUESTION \<equiv> 115"
abbreviation (input) TOKEN_TRY_OP :: token_type where "TOKEN_TRY_OP \<equiv> 116"
abbreviation (input) TOKEN_CATCH_OP :: token_type where "TOKEN_CATCH_OP \<equiv> 117"
abbreviation (input) TOKEN_DEREF :: token_type where "TOKEN_DEREF \<equiv> 118"
abbreviation (input) TOKEN_ADDR_OF :: token_type where "TOKEN_ADDR_OF \<equiv> 119"
abbreviation (input) TOKEN_ATTRIBUTE :: token_type where "TOKEN_ATTRIBUTE \<equiv> 120"
abbreviation (input) TOKEN_LPAREN :: token_type where "TOKEN_LPAREN \<equiv> 121"
abbreviation (input) TOKEN_RPAREN :: token_type where "TOKEN_RPAREN \<equiv> 122"
abbreviation (input) TOKEN_LBRACE :: token_type where "TOKEN_LBRACE \<equiv> 123"
abbreviation (input) TOKEN_RBRACE :: token_type where "TOKEN_RBRACE \<equiv> 124"
abbreviation (input) TOKEN_LBRACKET :: token_type where "TOKEN_LBRACKET \<equiv> 125"
abbreviation (input) TOKEN_RBRACKET :: token_type where "TOKEN_RBRACKET \<equiv> 126"
abbreviation (input) TOKEN_SEMICOLON :: token_type where "TOKEN_SEMICOLON \<equiv> 127"
abbreviation (input) TOKEN_COMMA :: token_type where "TOKEN_COMMA \<equiv> 128"
abbreviation (input) TOKEN_DOT :: token_type where "TOKEN_DOT \<equiv> 129"
abbreviation (input) TOKEN_COLON :: token_type where "TOKEN_COLON \<equiv> 130"
abbreviation (input) TOKEN_ELLIPSIS :: token_type where "TOKEN_ELLIPSIS \<equiv> 131"
abbreviation (input) TOKEN_NEWLINE :: token_type where "TOKEN_NEWLINE \<equiv> 132"
abbreviation (input) TOKEN_ERROR :: token_type where "TOKEN_ERROR \<equiv> 133"
abbreviation (input) TOKEN_UNKNOWN :: token_type where "TOKEN_UNKNOWN \<equiv> 134"
abbreviation (input) TOKEN_AND_NOT :: token_type where "TOKEN_AND_NOT \<equiv> 135"
abbreviation (input) TOKEN_ARENA :: token_type where "TOKEN_ARENA \<equiv> 136"
abbreviation (input) TOKEN_FAT_ARROW :: token_type where "TOKEN_FAT_ARROW \<equiv> 137"
abbreviation (input) TOKEN_COUNT :: token_type where "TOKEN_COUNT \<equiv> 138"

section \<open>Positions and tokens\<close>

record position =
  pos_line :: nat
  pos_column :: nat
  pos_offset :: nat
  pos_filename :: "string option"

record token =
  tok_type :: token_type
  tok_literal :: "string option"
  tok_length :: nat
  tok_pos :: position

text \<open>
  \<open>token_new\<close> copies \<open>length\<close> bytes of the literal's storage, which ends in a NUL, and
  adds its own terminator; allocation failure aborts the process and has no value here.
\<close>

definition token_new :: "token_type \<Rightarrow> string option \<Rightarrow> nat \<Rightarrow> position \<Rightarrow> token" where
  "token_new ty lit len p =
     \<lparr>tok_type = ty, tok_literal = map_option (\<lambda>s. take len (s @ [NUL])) lit,
      tok_length = len, tok_pos = p\<rparr>"

definition token_copy :: "token \<Rightarrow> token" where
  "token_copy t = token_new (tok_type t) (tok_literal t) (tok_length t) (tok_pos t)"

section \<open>Keywords\<close>

definition keyword_table :: "(string \<times> token_type) list" where
  "keyword_table =
    [(''break'', TOKEN_BREAK), (''case'', TOKEN_CASE), (''chan'', TOKEN_CHAN),
     (''const'', TOKEN_CONST), (''continue'', TOKEN_CONTINUE), (''default'', TOKEN_DEFAULT),
     (''defer'', TOKEN_DEFER), (''else'', TOKEN_ELSE), (''enum'', TOKEN_ENUM),
     (''fallthrough'', TOKEN_FALLTHROUGH), (''false'', TOKEN_FALSE), (''for'', TOKEN_FOR),
     (''func'', TOKEN_FUNC), (''go'', TOKEN_GO), (''goto'', TOKEN_GOTO), (''if'', TOKEN_IF),
     (''import'', TOKEN_IMPORT), (''interface'', TOKEN_INTERFACE), (''map'', TOKEN_MAP),
     (''nil'', TOKEN_NIL), (''package'', TOKEN_PACKAGE), (''range'', TOKEN_RANGE),
     (''return'', TOKEN_RETURN), (''select'', TOKEN_SELECT), (''struct'', TOKEN_STRUCT),
     (''switch'', TOKEN_SWITCH), (''true'', TOKEN_TRUE), (''type'', TOKEN_TYPE),
     (''var'', TOKEN_VAR), (''comptime'', TOKEN_COMPTIME), (''concept'', TOKEN_CONCEPT),
     (''msg_pub'', TOKEN_PUB), (''msg_sub'', TOKEN_SUB), (''msg_req'', TOKEN_REQ),
     (''msg_rep'', TOKEN_REP), (''msg_push'', TOKEN_PUSH), (''msg_pull'', TOKEN_PULL),
     (''try'', TOKEN_TRY), (''catch'', TOKEN_CATCH), (''unsafe'', TOKEN_UNSAFE),
     (''arena'', TOKEN_ARENA), (''own_owned'', TOKEN_OWNED),
     (''own_borrowed'', TOKEN_BORROWED), (''own_shared'', TOKEN_SHARED), (''let'', TOKEN_LET),
     (''match'', TOKEN_MATCH)]"

text \<open>The two searches walk the table until the sentinel, comparing with \<open>strcmp\<close>.\<close>

fun keyword_search :: "(string \<times> token_type) list \<Rightarrow> string \<Rightarrow> token_type option" where
  "keyword_search [] s = None"
| "keyword_search ((k, t) # es) s = (if s = k then Some t else keyword_search es s)"

definition token_is_keyword :: "string \<Rightarrow> bool" where
  "token_is_keyword s = (keyword_search keyword_table s \<noteq> None)"

definition token_keyword_type :: "string \<Rightarrow> token_type" where
  "token_keyword_type s = (case keyword_search keyword_table s of Some t \<Rightarrow> t | None \<Rightarrow> TOKEN_IDENT)"

section \<open>Display names\<close>

text \<open>
  \<open>token_strings\<close> is an array with designated initialisers: slot \<open>t\<close> holds the name given
  for \<open>t\<close>, and a slot the initialiser does not mention is a null pointer.
\<close>

definition token_strings :: "string option list" where
  "token_strings =
    [Some ''EOF'', Some ''IDENT'', Some ''INT'', Some ''FLOAT'', Some ''STRING'',
     Some ''CHAR'', Some ''TRUE'', Some ''FALSE'', Some ''NIL'', Some ''BREAK'',
     Some ''CASE'', Some ''CHAN'', Some ''CONST'', Some ''CONTINUE'', Some ''DEFAULT'',
     Some ''DEFER'', Some ''ELSE'', Some ''FALLTHROUGH'', Some ''FOR'', Some ''FUNC'',
     Some ''GO'', Some ''GOTO'', Some ''IF'', Some ''IMPORT'', Some ''INTERFACE'',
     Some ''MAP'', Some ''PACKAGE'', Some ''RANGE'', Some ''RETURN'', Some ''SELECT'',
     Some ''STRUCT'', Some ''ENUM'', Some ''SWITCH'', Some ''TYPE'', Some ''VAR'',
     Some ''COMPTIME'', Some ''CONCEPT'', Some ''PUB'', Some ''SUB'', Some ''REQ'',
     Some ''REP'', Some ''PUSH'', Some ''PULL'', Some ''TRY'', Some ''CATCH'',
     Some ''UNSAFE'', Some ''ASM'', Some ''EXTERN'', Some ''FROM'', Some ''VOLATILE'',
     Some ''INLINE'', Some ''NO_STD'', Some ''PARALLEL'', Some ''REDUCE'', Some ''BARRIER'',
     Some ''ATOMIC'', Some ''THREAD_LOCAL'', Some ''OWNED'', Some ''BORROWED'',
     Some ''SHARED'', Some ''LET'', Some ''MATCH'', Some ''KERNEL'', Some ''DEVICE'',
     Some ''HOST'', Some ''GLOBAL'', Some ''SHARED_MEM'', Some ''CONSTANT'', Some ''LOCAL'',
     Some ''WASM'', Some ''EXPORT'', Some ''MEMORY'', Some ''TABLE'', Some ''GLOBAL_WASM'',
     Some ''FUNC_WASM'', Some ''TYPE_WASM'', Some ''START'', Some ''ELEM'', Some ''DATA'',
     Some ''PLUS'', Some ''MINUS'', Some ''MULTIPLY'', Some ''DIVIDE'', Some ''MODULO'',
     Some ''ASSIGN'', Some ''SHORT_ASSIGN'', Some ''PLUS_ASSIGN'', Some ''MINUS_ASSIGN'',
     Some ''MUL_ASSIGN'', Some ''DIV_ASSIGN'', Some ''MOD_ASSIGN'', Some ''AND_ASSIGN'',
     Some ''OR_ASSIGN'', Some ''XOR_ASSIGN'', Some ''LSHIFT_ASSIGN'', Some ''RSHIFT_ASSIGN'',
     Some ''EQ'', Some ''NE'', Some ''LT'', Some ''LE'', Some ''GT'', Some ''GE'',
     Some ''AND'', Some ''OR'', Some ''NOT'', Some ''BIT_AND'', Some ''BIT_OR'',
     Some ''BIT_XOR'', Some ''BIT_NOT'', Some ''LSHIFT'', Some ''RSHIFT'', Some ''INCREMENT'',
     Some ''DECREMENT'', Some ''ARROW'', Some ''BANG'', Some ''QUESTION'', Some ''TRY_OP'',
     Some ''CATCH_OP'', Some ''DEREF'', Some ''ADDR_OF'', Some ''ATTRIBUTE'', Some ''LPAREN'',
     Some ''RPAREN'', Some ''LBRACE'', Some ''RBRACE'', Some ''LBRACKET'', Some ''RBRACKET'',
     Some ''SEMICOLON'', Some ''COMMA'', Some ''DOT'', Some ''COLON'', Some ''ELLIPSIS'',
     Some ''NEWLINE'', Some ''ERROR'', Some ''UNKNOWN'', None, Some ''ARENA'', None]"

definition token_type_string :: "token_type \<Rightarrow> string option" where
  "token_type_string ty =
     (if 0 \<le> ty \<and> ty < TOKEN_COUNT then token_strings ! nat ty else Some ''INVALID'')"

section \<open>Facts\<close>

lemma tok_type_token_new [simp]: "tok_type (token_new ty lit len p) = ty"
  by (simp add: token_new_def)

lemma tok_pos_token_new [simp]: "tok_pos (token_new ty lit len p) = p"
  by (simp add: token_new_def)

lemma tok_length_token_new [simp]: "tok_length (token_new ty lit len p) = len"
  by (simp add: token_new_def)

lemma tok_literal_token_new:
  "tok_literal (token_new ty (Some s) len p) = Some (take len (s @ [NUL]))"
  by (simp add: token_new_def)

lemma tok_literal_token_new_exact [simp]:
  "len = length s \<Longrightarrow> tok_literal (token_new ty (Some s) len p) = Some s"
  by (simp add: token_new_def)

lemma keyword_search_map_of: "keyword_search es s = map_of es s"
  by (induction es s rule: keyword_search.induct) auto

lemma keywords_distinct: "distinct (map fst keyword_table)"
  by (simp add: keyword_table_def)

lemma keyword_types_not_ident: "\<forall>t \<in> snd ` set keyword_table. t \<noteq> TOKEN_IDENT \<and> 0 \<le> t \<and> t < TOKEN_COUNT"
  by (simp add: keyword_table_def)

lemma length_token_strings: "int (length token_strings) = TOKEN_COUNT"
  by (simp add: token_strings_def)

end
