(* ===== verification/Lexer.thy ===== *)
theory Lexer
  imports Token
begin

text \<open>
  The scanner of \<open>src/lexer/lexer.c\<close> with the state of \<open>include/lexer.h\<close>: the cursor over
  the source text, the newline-driven semicolon insertion, and every token form. One
  iteration of the \<open>for (;;)\<close> loop of \<open>lexer_next_token\<close> is \<open>lexer_step\<close>, split by the
  cases of its switch; \<open>lexer_next_token\<close> repeats it over skipped newlines and comments.
\<close>

section \<open>State\<close>

text \<open>
  The C structure, field by field; \<open>lx_error_count\<close> is the global
  \<open>goo_lexer_error_count\<close>, which \<open>lexer_new\<close> resets. \<open>asi_ctx\<close> is an array of 256 bytes
  holding 0 or 1.
\<close>

record lexer =
  lx_input :: string
  lx_input_length :: nat
  lx_position :: nat
  lx_read_position :: nat
  lx_ch :: char
  lx_pos :: position
  lx_filename :: "string option"
  lx_prev_token_type :: token_type
  lx_asi_ctx :: "bool list"
  lx_asi_depth :: int
  lx_error_count :: nat

abbreviation ASI_CTX_SIZE :: nat where "ASI_CTX_SIZE \<equiv> 256"

section \<open>The cursor\<close>

definition lexer_read_char :: "lexer \<Rightarrow> lexer" where
  "lexer_read_char l =
     (let p = (if lx_ch l = NEWLINE
               then (lx_pos l)\<lparr>pos_line := pos_line (lx_pos l) + 1, pos_column := 1\<rparr>
               else if lx_ch l \<noteq> NUL
               then (lx_pos l)\<lparr>pos_column := pos_column (lx_pos l) + 1\<rparr>
               else lx_pos l);
          c = (if lx_read_position l \<ge> lx_input_length l then NUL
               else lx_input l ! lx_read_position l)
      in l\<lparr>lx_ch := c, lx_position := lx_read_position l,
           lx_read_position := lx_read_position l + 1,
           lx_pos := p\<lparr>pos_offset := lx_read_position l\<rparr>\<rparr>)"

definition lexer_new :: "string \<Rightarrow> string option \<Rightarrow> lexer" where
  "lexer_new source file =
     lexer_read_char
       \<lparr>lx_input = c_string source, lx_input_length = length (c_string source),
        lx_position = 0, lx_read_position = 0, lx_ch = NUL,
        lx_pos = \<lparr>pos_line = 1, pos_column = 1, pos_offset = 0, pos_filename = file\<rparr>,
        lx_filename = file, lx_prev_token_type = TOKEN_SEMICOLON,
        lx_asi_ctx = replicate ASI_CTX_SIZE False, lx_asi_depth = 0, lx_error_count = 0\<rparr>"

definition lexer_peek_char :: "lexer \<Rightarrow> char" where
  "lexer_peek_char l =
     (if lx_read_position l \<ge> lx_input_length l then NUL else lx_input l ! lx_read_position l)"

text \<open>
  What a scanner loop has left to read; every \<open>lexer_read_char\<close> from a character other than
  the end mark lowers it, which is why the loops below end.
\<close>

definition lx_left :: "lexer \<Rightarrow> nat" where
  "lx_left l = (lx_input_length l - lx_read_position l) + (if lx_ch l \<noteq> NUL then 1 else 0)"

lemma lx_left_read_char: "lx_ch l \<noteq> NUL \<Longrightarrow> lx_left (lexer_read_char l) < lx_left l"
  by (auto simp: lx_left_def lexer_read_char_def Let_def)

text \<open>
  The loop shape \<open>while (p(lexer->ch)) lexer_read_char(lexer)\<close>. Every predicate it is used
  with rejects the end mark, which the guard repeats so that the loop ends for any \<open>p\<close>.
\<close>

function lexer_read_while :: "(char \<Rightarrow> bool) \<Rightarrow> lexer \<Rightarrow> lexer" where
  "lexer_read_while p l =
     (if p (lx_ch l) \<and> lx_ch l \<noteq> NUL then lexer_read_while p (lexer_read_char l) else l)"
  by pat_completeness auto
termination
  by (relation "measure (\<lambda>(p, l). lx_left l)") (auto simp: lx_left_read_char)

declare lexer_read_while.simps [simp del]

section \<open>Character classes\<close>

text \<open>\<open>isalpha\<close>, \<open>isdigit\<close> and \<open>isxdigit\<close> in the C locale.\<close>

definition lexer_is_letter :: "char \<Rightarrow> bool" where
  "lexer_is_letter c =
     ((char_code c \<ge> 65 \<and> char_code c \<le> 90) \<or> (char_code c \<ge> 97 \<and> char_code c \<le> 122) \<or>
      c = CHR ''_'')"

definition lexer_is_digit :: "char \<Rightarrow> bool" where
  "lexer_is_digit c = (char_code c \<ge> 48 \<and> char_code c \<le> 57)"

definition lexer_is_hex_digit :: "char \<Rightarrow> bool" where
  "lexer_is_hex_digit c =
     (lexer_is_digit c \<or> (char_code c \<ge> 65 \<and> char_code c \<le> 70) \<or>
      (char_code c \<ge> 97 \<and> char_code c \<le> 102))"

definition lexer_is_whitespace :: "char \<Rightarrow> bool" where
  "lexer_is_whitespace c = (c = CHR '' '' \<or> c = TAB \<or> c = CRET)"

definition lexer_skip_whitespace :: "lexer \<Rightarrow> lexer" where
  "lexer_skip_whitespace l = lexer_read_while (\<lambda>c. lexer_is_whitespace c \<and> c \<noteq> NEWLINE) l"

definition token_ends_value :: "token_type \<Rightarrow> bool" where
  "token_ends_value t =
     (t \<in> {TOKEN_IDENT, TOKEN_INT, TOKEN_FLOAT, TOKEN_STRING, TOKEN_CHAR, TOKEN_TRUE,
           TOKEN_FALSE, TOKEN_NIL, TOKEN_RPAREN, TOKEN_RBRACKET, TOKEN_RBRACE,
           TOKEN_INCREMENT, TOKEN_DECREMENT})"

definition lexer_line_starts_with_else :: "lexer \<Rightarrow> bool" where
  "lexer_line_starts_with_else l =
     (let rp = lx_read_position l; inp = lx_input l
      in if lx_ch l \<noteq> CHR ''e'' then False
         else if rp + 2 \<ge> lx_input_length l then False
         else if inp ! rp \<noteq> CHR ''l'' \<or> inp ! (rp + 1) \<noteq> CHR ''s'' \<or> inp ! (rp + 2) \<noteq> CHR ''e''
         then False
         else if rp + 3 < lx_input_length l \<and>
                 (lexer_is_letter (inp ! (rp + 3)) \<or> lexer_is_digit (inp ! (rp + 3)))
         then False
         else True)"

section \<open>Literals\<close>

text \<open>The text between two cursor positions, which the readers copy out.\<close>

definition lx_slice :: "lexer \<Rightarrow> nat \<Rightarrow> nat \<Rightarrow> string" where
  "lx_slice l from to = take (to - from) (drop from (lx_input l))"

definition lexer_read_identifier :: "lexer \<Rightarrow> string \<times> lexer" where
  "lexer_read_identifier l =
     (let l' = lexer_read_while (\<lambda>c. lexer_is_letter c \<or> lexer_is_digit c) l
      in (lx_slice l (lx_position l) (lx_position l'), l'))"

definition is_base_letter :: "char \<Rightarrow> bool" where
  "is_base_letter c =
     (c = CHR ''x'' \<or> c = CHR ''X'' \<or> c = CHR ''b'' \<or> c = CHR ''B'' \<or> c = CHR ''o'' \<or> c = CHR ''O'')"

text \<open>
  The integer part: after a base prefix the digits of that base, otherwise decimal digits.
\<close>

definition lexer_read_int_part :: "lexer \<Rightarrow> lexer" where
  "lexer_read_int_part l =
     (if lx_ch l = CHR ''0'' \<and> is_base_letter (lexer_peek_char l)
      then let l1 = lexer_read_char l; base = lx_ch l1; l2 = lexer_read_char l1
           in if base = CHR ''x'' \<or> base = CHR ''X'' then lexer_read_while lexer_is_hex_digit l2
              else if base = CHR ''b'' \<or> base = CHR ''B''
              then lexer_read_while (\<lambda>c. c = CHR ''0'' \<or> c = CHR ''1'') l2
              else lexer_read_while (\<lambda>c. char_code c \<ge> 48 \<and> char_code c \<le> 55) l2
      else lexer_read_while lexer_is_digit l)"

text \<open>The fraction and the exponent are looked for after either form of integer part.\<close>

definition lexer_read_fraction :: "lexer \<Rightarrow> bool \<times> lexer" where
  "lexer_read_fraction l =
     (if lx_ch l = CHR ''.'' \<and> lexer_is_digit (lexer_peek_char l)
      then (True, lexer_read_while lexer_is_digit (lexer_read_char l)) else (False, l))"

definition lexer_read_exponent :: "lexer \<Rightarrow> bool \<times> lexer" where
  "lexer_read_exponent l =
     (if lx_ch l = CHR ''e'' \<or> lx_ch l = CHR ''E''
      then let l1 = lexer_read_char l;
               l2 = (if lx_ch l1 = CHR ''+'' \<or> lx_ch l1 = CHR ''-'' then lexer_read_char l1 else l1)
           in (True, lexer_read_while lexer_is_digit l2)
      else (False, l))"

definition lexer_read_number :: "lexer \<Rightarrow> string \<times> bool \<times> lexer" where
  "lexer_read_number l =
     (let l1 = lexer_read_int_part l;
          (frac, l2) = lexer_read_fraction l1;
          (ex, l3) = lexer_read_exponent l2
      in (lx_slice l (lx_position l) (lx_position l3), frac \<or> ex, l3))"

definition hex_digit_value :: "char \<Rightarrow> nat option" where
  "hex_digit_value c =
     (if char_code c \<ge> 48 \<and> char_code c \<le> 57 then Some (char_code c - 48)
      else if char_code c \<ge> 97 \<and> char_code c \<le> 102 then Some (char_code c - 97 + 10)
      else if char_code c \<ge> 65 \<and> char_code c \<le> 70 then Some (char_code c - 65 + 10)
      else None)"

text \<open>Scanning to the closing quote, a backslash taking the next character with it.\<close>

function lexer_skip_string_body :: "lexer \<Rightarrow> lexer" where
  "lexer_skip_string_body l =
     (if lx_ch l \<noteq> DQUOTE \<and> lx_ch l \<noteq> NUL
      then lexer_skip_string_body
             (if lx_ch l = BACKSLASH
              then let l1 = lexer_read_char l in if lx_ch l1 \<noteq> NUL then lexer_read_char l1 else l1
              else lexer_read_char l)
      else l)"
  by pat_completeness auto
termination
proof (relation "measure lx_left", goal_cases)
  case 1
  show ?case by simp
next
  case (2 l)
  then have "lx_left (lexer_read_char l) < lx_left l" by (simp add: lx_left_read_char)
  moreover have "lx_left (lexer_read_char (lexer_read_char l)) < lx_left (lexer_read_char l)"
    if "lx_ch (lexer_read_char l) \<noteq> NUL" using that by (rule lx_left_read_char)
  ultimately show ?case by (auto simp: Let_def)
qed

declare lexer_skip_string_body.simps [simp del]

definition simple_escape :: "char \<Rightarrow> char" where
  "simple_escape c =
     (if c = CHR ''a'' then CHR 0x07 else if c = CHR ''b'' then CHR 0x08
      else if c = CHR ''f'' then CHR 0x0C else if c = CHR ''n'' then NEWLINE
      else if c = CHR ''r'' then CRET else if c = CHR ''t'' then TAB
      else if c = CHR ''v'' then CHR 0x0B else if c = CHR ''0'' then NUL else c)"

text \<open>
  The decoding loop over the raw body. A trailing lone backslash is copied; \<open>\x\<close> needs two
  hexadecimal digits or the whole literal is rejected; an unknown selector stands for itself.
\<close>

fun decode_string_body :: "string \<Rightarrow> string option" where
  "decode_string_body [] = Some []"
| "decode_string_body [c] = Some [c]"
| "decode_string_body (c # n # rest) =
     (if c \<noteq> BACKSLASH then map_option ((#) c) (decode_string_body (n # rest))
      else if n = CHR ''x''
      then (case rest of
              h # lo # rest' \<Rightarrow>
                (case (hex_digit_value h, hex_digit_value lo) of
                   (Some hi, Some lv) \<Rightarrow>
                     map_option ((#) (char_of (hi * 16 + lv))) (decode_string_body rest')
                 | _ \<Rightarrow> None)
            | _ \<Rightarrow> None)
      else map_option ((#) (simple_escape n)) (decode_string_body rest))"

definition lexer_read_string :: "lexer \<Rightarrow> string option \<times> lexer" where
  "lexer_read_string l =
     (let l1 = lexer_read_char l; l2 = lexer_skip_string_body l1
      in if lx_ch l2 \<noteq> DQUOTE then (None, l2)
         else case decode_string_body (lx_slice l1 (lx_position l1) (lx_position l2)) of
                None \<Rightarrow> (None, l2)
              | Some out \<Rightarrow> (Some out, lexer_read_char l2))"

definition lexer_read_raw_string :: "lexer \<Rightarrow> string option \<times> lexer" where
  "lexer_read_raw_string l =
     (let l1 = lexer_read_char l; l2 = lexer_read_while (\<lambda>c. c \<noteq> BACKTICK) l1
      in if lx_ch l2 \<noteq> BACKTICK then (None, l2)
         else (Some (filter (\<lambda>c. c \<noteq> CRET) (lx_slice l1 (lx_position l1) (lx_position l2))),
               lexer_read_char l2))"

fun hex_value :: "nat \<Rightarrow> string \<Rightarrow> nat option" where
  "hex_value v [] = Some v"
| "hex_value v (c # cs) =
     (case hex_digit_value c of None \<Rightarrow> None | Some d \<Rightarrow> hex_value (v * 16 + d) cs)"

text \<open>
  \<open>lexer_decode_char_value\<close>: \<open>None\<close> is the return value 0. The body is NUL-terminated, so
  reading the character after a lone backslash sees NUL.
\<close>

definition lexer_decode_char_value :: "string \<Rightarrow> nat option" where
  "lexer_decode_char_value body =
     (case body of
        [] \<Rightarrow> None
      | c # rest \<Rightarrow>
          if c \<noteq> BACKSLASH then (if length body \<noteq> 1 then None else Some (char_code c))
          else let sel = (case rest of [] \<Rightarrow> NUL | s # _ \<Rightarrow> s) in
            if sel = CHR ''x'' \<or> sel = CHR ''u'' \<or> sel = CHR ''U''
            then let ndig = (if sel = CHR ''x'' then 2 else if sel = CHR ''u'' then 4 else 8)
                 in if length body \<noteq> 2 + ndig then None else hex_value 0 (drop 2 body)
            else if length body \<noteq> 2 then None
            else if sel \<in> {CHR ''n'', CHR ''t'', CHR ''r'', CHR ''0'', CHR ''a'', CHR ''b'',
                           CHR ''f'', CHR ''v'', BACKSLASH, SQUOTE, DQUOTE}
            then Some (char_code (simple_escape sel))
            else None)"

text \<open>The bounded loop that reads at most \<open>n\<close> digits of a numeric escape.\<close>

fun lexer_read_upto :: "nat \<Rightarrow> lexer \<Rightarrow> lexer" where
  "lexer_read_upto 0 l = l"
| "lexer_read_upto (Suc n) l =
     (if lx_ch l \<noteq> NUL \<and> lx_ch l \<noteq> SQUOTE then lexer_read_upto n (lexer_read_char l) else l)"

definition lexer_read_char_body :: "lexer \<Rightarrow> lexer" where
  "lexer_read_char_body l1 =
     (if lx_ch l1 = BACKSLASH
      then let l2 = lexer_read_char l1; esc = lx_ch l2;
               l3 = (if esc \<noteq> NUL then lexer_read_char l2 else l2);
               ndig = (if esc = CHR ''x'' then 2 else if esc = CHR ''u'' then 4
                       else if esc = CHR ''U'' then 8 else 0)
           in lexer_read_upto ndig l3
      else if lx_ch l1 \<noteq> NUL then lexer_read_char l1 else l1)"

definition lexer_read_char_literal :: "lexer \<Rightarrow> string option \<times> lexer" where
  "lexer_read_char_literal l =
     (let l1 = lexer_read_char l; l2 = lexer_read_char_body l1
      in if lx_ch l2 \<noteq> SQUOTE then (None, l2)
         else (Some (lx_slice l1 (lx_position l1) (lx_position l2)), lexer_read_char l2))"

section \<open>The cases of the token switch\<close>

text \<open>
  One pass through the loop body ends in one of three ways: \<open>break\<close> with a token, which then
  goes through the code after the switch (\<open>Emit\<close>); \<open>continue\<close> (\<open>Continue\<close>); or a
  \<open>return\<close> from inside the switch (\<open>Return\<close>).
\<close>

datatype lex_step = Emit token lexer | Continue lexer | Return token lexer

abbreviation emit1 :: "token_type \<Rightarrow> string \<Rightarrow> position \<Rightarrow> lexer \<Rightarrow> lex_step" where
  "emit1 ty s p l \<equiv> Emit (token_new ty (Some s) 1 p) (lexer_read_char l)"

abbreviation emit2 :: "token_type \<Rightarrow> string \<Rightarrow> position \<Rightarrow> lexer \<Rightarrow> lex_step" where
  "emit2 ty s p l \<equiv> Emit (token_new ty (Some s) 2 p) (lexer_read_char (lexer_read_char l))"

abbreviation emit3 :: "token_type \<Rightarrow> string \<Rightarrow> position \<Rightarrow> lexer \<Rightarrow> lex_step" where
  "emit3 ty s p l \<equiv>
     Emit (token_new ty (Some s) 3 p) (lexer_read_char (lexer_read_char (lexer_read_char l)))"

text \<open>Newline: consume it and the blanks after it, then decide whether a semicolon goes in.\<close>

definition lexer_asi_return :: "position \<Rightarrow> lexer \<Rightarrow> lex_step" where
  "lexer_asi_return p l =
     Return (token_new TOKEN_SEMICOLON (Some '';'') 1 p) (l\<lparr>lx_prev_token_type := TOKEN_SEMICOLON\<rparr>)"

definition lexer_asi_scoped :: "lexer \<Rightarrow> bool" where
  "lexer_asi_scoped l =
     (lx_asi_depth l > 0 \<and> lx_asi_depth l \<le> int ASI_CTX_SIZE \<and>
      lx_asi_ctx l ! nat (lx_asi_depth l - 1))"

definition lex_newline :: "position \<Rightarrow> lexer \<Rightarrow> lex_step" where
  "lex_newline p l0 =
     (let l = lexer_read_while (\<lambda>c. c = CHR '' '' \<or> c = TAB \<or> c = CRET) (lexer_read_char l0);
          prev = lx_prev_token_type l
      in if prev = TOKEN_RETURN \<or> prev = TOKEN_BREAK \<or> prev = TOKEN_CONTINUE \<or>
            prev = TOKEN_FALLTHROUGH
         then lexer_asi_return p l
         else if token_ends_value prev \<and> lx_ch l \<noteq> CHR '')'' \<and> lx_ch l \<noteq> CHR ''}'' \<and>
                 \<not> (lx_ch l = CHR ''.'' \<and> lexer_peek_char l = CHR ''.'') \<and>
                 \<not> lexer_line_starts_with_else l
         then lexer_asi_return p l
         else if lexer_asi_scoped l \<and> token_ends_value prev
         then lexer_asi_return p l
         else Continue l)"

text \<open>Brackets keep the stack of scoped bodies.\<close>

definition lexer_asi_push :: "bool \<Rightarrow> lexer \<Rightarrow> lexer" where
  "lexer_asi_push scoped l =
     (let ctx = (if lx_asi_depth l \<ge> 0 \<and> lx_asi_depth l < int ASI_CTX_SIZE
                 then (lx_asi_ctx l)[nat (lx_asi_depth l) := scoped] else lx_asi_ctx l)
      in l\<lparr>lx_asi_ctx := ctx, lx_asi_depth := lx_asi_depth l + 1\<rparr>)"

definition lexer_asi_pop :: "lexer \<Rightarrow> lexer" where
  "lexer_asi_pop l =
     (if lx_asi_depth l > 0 then l\<lparr>lx_asi_depth := lx_asi_depth l - 1\<rparr> else l)"

definition lex_bracket :: "position \<Rightarrow> lexer \<Rightarrow> lex_step" where
  "lex_bracket p l =
     (if lx_ch l = CHR ''('' then
        emit1 TOKEN_LPAREN ''('' p (lexer_asi_push (lx_prev_token_type l = TOKEN_VAR) l)
      else if lx_ch l = CHR '')'' then emit1 TOKEN_RPAREN '')'' p (lexer_asi_pop l)
      else if lx_ch l = CHR ''{'' then
        emit1 TOKEN_LBRACE ''{'' p
          (lexer_asi_push (lx_prev_token_type l = TOKEN_STRUCT \<or>
                           lx_prev_token_type l = TOKEN_INTERFACE) l)
      else emit1 TOKEN_RBRACE ''}'' p (lexer_asi_pop l))"

definition lex_punct :: "position \<Rightarrow> lexer \<Rightarrow> lex_step" where
  "lex_punct p l =
     (let c = lx_ch l in
      if c = CHR ''['' then emit1 TOKEN_LBRACKET ''['' p l
      else if c = CHR '']'' then emit1 TOKEN_RBRACKET '']'' p l
      else if c = CHR '';'' then emit1 TOKEN_SEMICOLON '';'' p l
      else if c = CHR '','' then emit1 TOKEN_COMMA '','' p l
      else if c = CHR '':'' then
        (if lexer_peek_char l = CHR ''='' then emit2 TOKEN_SHORT_ASSIGN '':='' p l
         else emit1 TOKEN_COLON '':'' p l)
      else if c = CHR ''~'' then emit1 TOKEN_BIT_NOT ''~'' p l
      else if c = CHR ''?'' then emit1 TOKEN_QUESTION ''?'' p l
      else emit1 TOKEN_DEREF ''@'' p l)"

text \<open>Comments: a line comment stops before the newline, a block comment after its end.\<close>

function lexer_skip_block_comment :: "lexer \<Rightarrow> lexer" where
  "lexer_skip_block_comment l =
     (if lx_ch l \<noteq> NUL
      then if lx_ch l = CHR ''*'' \<and> lexer_peek_char l = CHR ''/''
           then lexer_read_char (lexer_read_char l)
           else lexer_skip_block_comment (lexer_read_char l)
      else l)"
  by pat_completeness auto
termination
  by (relation "measure lx_left") (auto simp: lx_left_read_char)

declare lexer_skip_block_comment.simps [simp del]

definition lex_slash :: "position \<Rightarrow> lexer \<Rightarrow> lex_step" where
  "lex_slash p l =
     (let n = lexer_peek_char l in
      if n = CHR ''='' then emit2 TOKEN_DIV_ASSIGN ''/='' p l
      else if n = CHR ''/'' then Continue (lexer_read_while (\<lambda>c. c \<noteq> NEWLINE) l)
      else if n = CHR ''*'' then Continue (lexer_skip_block_comment (lexer_read_char (lexer_read_char l)))
      else emit1 TOKEN_DIVIDE ''/'' p l)"

definition lex_arith :: "position \<Rightarrow> lexer \<Rightarrow> lex_step" where
  "lex_arith p l =
     (let c = lx_ch l; n = lexer_peek_char l in
      if c = CHR ''+'' then
        (if n = CHR ''+'' then emit2 TOKEN_INCREMENT ''++'' p l
         else if n = CHR ''='' then emit2 TOKEN_PLUS_ASSIGN ''+='' p l
         else emit1 TOKEN_PLUS ''+'' p l)
      else if c = CHR ''-'' then
        (if n = CHR ''-'' then emit2 TOKEN_DECREMENT ''--'' p l
         else if n = CHR ''='' then emit2 TOKEN_MINUS_ASSIGN ''-='' p l
         else emit1 TOKEN_MINUS ''-'' p l)
      else if c = CHR ''*'' then
        (if n = CHR ''='' then emit2 TOKEN_MUL_ASSIGN ''*='' p l
         else emit1 TOKEN_MULTIPLY ''*'' p l)
      else if c = CHR ''/'' then lex_slash p l
      else
        (if n = CHR ''='' then emit2 TOKEN_MOD_ASSIGN ''%='' p l
         else emit1 TOKEN_MODULO ''%'' p l))"

definition lex_compare :: "position \<Rightarrow> lexer \<Rightarrow> lex_step" where
  "lex_compare p l =
     (let c = lx_ch l; n = lexer_peek_char l; n2 = lexer_peek_char (lexer_read_char l) in
      if c = CHR ''='' then
        (if n = CHR ''='' then emit2 TOKEN_EQ ''=='' p l
         else if n = CHR ''>'' then emit2 TOKEN_FAT_ARROW ''=>'' p l
         else emit1 TOKEN_ASSIGN ''='' p l)
      else if c = CHR ''!'' then
        (if n = CHR ''='' then emit2 TOKEN_NE ''!='' p l else emit1 TOKEN_BANG ''!'' p l)
      else if c = CHR ''<'' then
        (if n = CHR ''='' then emit2 TOKEN_LE ''<='' p l
         else if n = CHR ''<'' then
           (if n2 = CHR ''='' then emit3 TOKEN_LSHIFT_ASSIGN ''<<='' p l
            else emit2 TOKEN_LSHIFT ''<<'' p l)
         else if n = CHR ''-'' then emit2 TOKEN_ARROW ''<-'' p l
         else emit1 TOKEN_LT ''<'' p l)
      else
        (if n = CHR ''='' then emit2 TOKEN_GE ''>='' p l
         else if n = CHR ''>'' then
           (if n2 = CHR ''='' then emit3 TOKEN_RSHIFT_ASSIGN ''>>='' p l
            else emit2 TOKEN_RSHIFT ''>>'' p l)
         else emit1 TOKEN_GT ''>'' p l))"

definition lex_bits :: "position \<Rightarrow> lexer \<Rightarrow> lex_step" where
  "lex_bits p l =
     (let c = lx_ch l; n = lexer_peek_char l; n2 = lexer_peek_char (lexer_read_char l) in
      if c = CHR ''&'' then
        (if n = CHR ''&'' then emit2 TOKEN_AND ''&&'' p l
         else if n = CHR ''^'' then emit2 TOKEN_AND_NOT ''&^'' p l
         else if n = CHR ''='' then emit2 TOKEN_AND_ASSIGN ''&='' p l
         else emit1 TOKEN_BIT_AND ''&'' p l)
      else if c = CHR ''|'' then
        (if n = CHR ''|'' then emit2 TOKEN_OR ''||'' p l
         else if n = CHR ''='' then emit2 TOKEN_OR_ASSIGN ''|='' p l
         else emit1 TOKEN_BIT_OR ''|'' p l)
      else if c = CHR ''^'' then
        (if n = CHR ''='' then emit2 TOKEN_XOR_ASSIGN ''^='' p l else emit1 TOKEN_BIT_XOR ''^'' p l)
      else
        (if n = CHR ''.'' then
           (if n2 = CHR ''.'' then emit3 TOKEN_ELLIPSIS ''...'' p l
            else emit2 TOKEN_ERROR ''..'' p l)
         else emit1 TOKEN_DOT ''.'' p l))"

text \<open>
  Literals. The lengths passed with the error texts are the source's own numbers: 18 for
  the 19 characters of "unterminated string", 24 for the 23 of "unterminated raw string".
\<close>

definition lex_string :: "position \<Rightarrow> lexer \<Rightarrow> lex_step" where
  "lex_string p l =
     (case lexer_read_string l of
        (Some s, l') \<Rightarrow> Emit (token_new TOKEN_STRING (Some s) (length s) p) l'
      | (None, l') \<Rightarrow> Emit (token_new TOKEN_ERROR (Some ''unterminated string'') 18 p) l')"

definition lex_raw_string :: "position \<Rightarrow> lexer \<Rightarrow> lex_step" where
  "lex_raw_string p l =
     (case lexer_read_raw_string l of
        (Some s, l') \<Rightarrow> Emit (token_new TOKEN_STRING (Some s) (length s) p) l'
      | (None, l') \<Rightarrow> Emit (token_new TOKEN_ERROR (Some ''unterminated raw string'') 24 p) l')"

definition lex_rune :: "position \<Rightarrow> lexer \<Rightarrow> lex_step" where
  "lex_rune p l =
     (let (body, l') = lexer_read_char_literal l
      in case body of
           None \<Rightarrow> Emit (token_new TOKEN_ERROR (Some ''invalid character literal'') 25 p) l'
         | Some s \<Rightarrow>
             (case lexer_decode_char_value s of
                None \<Rightarrow> Emit (token_new TOKEN_ERROR (Some ''invalid character literal'') 25 p) l'
              | Some v \<Rightarrow>
                  Emit (token_new TOKEN_INT (Some (nat_to_dec v)) (length (nat_to_dec v)) p) l'))"

definition lex_word :: "position \<Rightarrow> lexer \<Rightarrow> lex_step" where
  "lex_word p l =
     (if lexer_is_letter (lx_ch l)
      then let (s, l') = lexer_read_identifier l;
               ty = (if token_is_keyword s then token_keyword_type s else TOKEN_IDENT)
           in Emit (token_new ty (Some s) (length s) p) l'
      else if lexer_is_digit (lx_ch l)
      then let (s, is_float, l') = lexer_read_number l
           in Emit (token_new (if is_float then TOKEN_FLOAT else TOKEN_INT) (Some s) (length s) p) l'
      else emit1 TOKEN_UNKNOWN [lx_ch l] p l)"

section \<open>The main loop\<close>

definition lexer_switch :: "position \<Rightarrow> lexer \<Rightarrow> lex_step" where
  "lexer_switch p l =
     (let c = lx_ch l in
      if c = NUL then Emit (token_new TOKEN_EOF None 0 p) l
      else if c = NEWLINE then lex_newline p l
      else if c \<in> set ''(){}'' then lex_bracket p l
      else if c \<in> set ''[];,:~?@'' then lex_punct p l
      else if c \<in> set ''+-*/%'' then lex_arith p l
      else if c \<in> set ''=!<>'' then lex_compare p l
      else if c \<in> set ''&|^.'' then lex_bits p l
      else if c = DQUOTE then lex_string p l
      else if c = BACKTICK then lex_raw_string p l
      else if c = SQUOTE then lex_rune p l
      else lex_word p l)"

definition lexer_step :: "lexer \<Rightarrow> lex_step" where
  "lexer_step l = (let l' = lexer_skip_whitespace l in lexer_switch (lx_pos l') l')"

text \<open>After the switch: lexical errors are counted and the token type is remembered.\<close>

definition lexer_finish :: "token \<Rightarrow> lexer \<Rightarrow> lexer" where
  "lexer_finish t l =
     (let l' = (if tok_type t = TOKEN_ERROR \<or> tok_type t = TOKEN_UNKNOWN
                then l\<lparr>lx_error_count := lx_error_count l + 1\<rparr> else l)
      in l'\<lparr>lx_prev_token_type := tok_type t\<rparr>)"

section \<open>The scanner's loops end\<close>

text \<open>
  \<open>lx_reads l l'\<close>: the cursor of \<open>l'\<close> is that of \<open>l\<close> after some number of character reads and
  nothing else has changed. Every loop of the scanner is such a sequence of reads, so what a
  single read keeps, every loop keeps.
\<close>

inductive lx_reads :: "lexer \<Rightarrow> lexer \<Rightarrow> bool" where
  reads_none [simp, intro]: "lx_reads l l"
| reads_char: "lx_reads (lexer_read_char l) l' \<Longrightarrow> lx_reads l l'"

lemma lx_reads_trans: "lx_reads a b \<Longrightarrow> lx_reads b c \<Longrightarrow> lx_reads a c"
  by (induction rule: lx_reads.induct) (auto intro: reads_char)

lemma lx_reads_read_char [simp, intro]: "lx_reads l (lexer_read_char l)"
  by (rule reads_char) simp

lemma lx_reads_snoc [intro]: "lx_reads a b \<Longrightarrow> lx_reads a (lexer_read_char b)"
  by (rule lx_reads_trans) auto

lemma lx_reads_read_while [simp]: "lx_reads l (lexer_read_while p l)"
proof (induction p l rule: lexer_read_while.induct)
  case (1 p l)
  then show ?case by (subst lexer_read_while.simps) (auto intro: reads_char)
qed

lemma lx_reads_skip_block [simp]: "lx_reads l (lexer_skip_block_comment l)"
proof (induction l rule: lexer_skip_block_comment.induct)
  case (1 l)
  then show ?case by (subst lexer_skip_block_comment.simps) (auto intro: reads_char)
qed

lemma lx_reads_skip_string [simp]: "lx_reads l (lexer_skip_string_body l)"
proof (induction l rule: lexer_skip_string_body.induct)
  case (1 l)
  then show ?case
    by (subst lexer_skip_string_body.simps) (auto simp: Let_def intro: reads_char reads_char [OF reads_char])
qed

lemma lx_reads_read_upto [simp]: "lx_reads l (lexer_read_upto n l)"
  by (induction n l rule: lexer_read_upto.induct) (auto intro: reads_char)

lemma lx_reads_skip_whitespace [simp]: "lx_reads l (lexer_skip_whitespace l)"
  by (simp add: lexer_skip_whitespace_def)

lemma lx_reads_loops:
  "lx_reads a b \<Longrightarrow> lx_reads a (lexer_read_while p b)"
  "lx_reads a b \<Longrightarrow> lx_reads a (lexer_skip_block_comment b)"
  "lx_reads a b \<Longrightarrow> lx_reads a (lexer_skip_string_body b)"
  "lx_reads a b \<Longrightarrow> lx_reads a (lexer_read_upto n b)"
  by (auto intro: lx_reads_trans)

lemma lx_reads_left: "lx_reads l l' \<Longrightarrow> lx_left l' \<le> lx_left l"
proof (induction rule: lx_reads.induct)
  case (reads_char l l')
  from reads_char.IH show ?case
    by (rule order_trans) (auto simp: lx_left_def lexer_read_char_def Let_def)
qed simp

text \<open>A case of the switch that consumes its first character leaves strictly less to read.\<close>

lemma lx_reads_left_less:
  "lx_ch l \<noteq> NUL \<Longrightarrow> lx_reads (lexer_read_char l) l' \<Longrightarrow> lx_left l' < lx_left l"
  by (rule le_less_trans [OF lx_reads_left lx_left_read_char])

lemma lx_reads_read_while_first:
  "p (lx_ch l) \<Longrightarrow> lx_ch l \<noteq> NUL \<Longrightarrow> lx_reads (lexer_read_char l) (lexer_read_while p l)"
  by (subst lexer_read_while.simps) simp

lemma lex_newline_Continue:
  "lex_newline p l = Continue l' \<Longrightarrow> lx_reads (lexer_read_char l) l'"
  by (auto simp: lex_newline_def lexer_asi_return_def Let_def split: if_splits)

lemma lex_slash_Continue:
  "lx_ch l = CHR ''/'' \<Longrightarrow> lex_slash p l = Continue l' \<Longrightarrow> lx_reads (lexer_read_char l) l'"
  by (auto simp: lex_slash_def Let_def split: if_splits intro: lx_reads_read_while_first lx_reads_loops)

text \<open>Only newlines and comments restart the loop.\<close>

lemma lexer_switch_Continue:
  assumes "lexer_switch p l = Continue l'"
  shows "lx_ch l \<noteq> NUL \<and> lx_reads (lexer_read_char l) l'"
proof -
  have "lx_ch l = NEWLINE \<and> lex_newline p l = Continue l' \<or>
        lx_ch l = CHR ''/'' \<and> lex_slash p l = Continue l'"
    using assms
    by (auto simp: lexer_switch_def lex_bracket_def lex_punct_def lex_arith_def lex_compare_def
        lex_bits_def lex_string_def lex_raw_string_def lex_rune_def lex_word_def Let_def
        split: if_splits option.splits prod.splits)
  then show ?thesis
    using lex_newline_Continue lex_slash_Continue by auto
qed

lemma lexer_step_Continue_reads: "lexer_step l = Continue l' \<Longrightarrow> lx_reads l l'"
  by (auto simp: lexer_step_def Let_def intro: lx_reads_trans [OF lx_reads_skip_whitespace] reads_char
      dest!: lexer_switch_Continue)

lemma lexer_step_Continue: "lexer_step l = Continue l' \<Longrightarrow> lx_left l' < lx_left l"
  unfolding lexer_step_def Let_def
  by (drule lexer_switch_Continue)
    (metis less_le_trans lx_reads_left lx_reads_left_less lx_reads_skip_whitespace)

function lexer_next_token :: "lexer \<Rightarrow> token \<times> lexer" where
  "lexer_next_token l =
     (case lexer_step l of
        Emit t l' \<Rightarrow> (t, lexer_finish t l')
      | Continue l' \<Rightarrow> lexer_next_token l'
      | Return t l' \<Rightarrow> (t, l'))"
  by pat_completeness auto
termination
  by (relation "measure lx_left") (auto simp: lexer_step_Continue)

declare lexer_next_token.simps [simp del]

section \<open>The scanner invariant\<close>

text \<open>Reference line and column: those of the character that follows the text \<open>s\<close>.\<close>

definition line_of :: "string \<Rightarrow> nat" where
  "line_of s = 1 + count_list s NEWLINE"

definition column_of :: "string \<Rightarrow> nat" where
  "column_of s = 1 + length (takeWhile (\<lambda>c. c \<noteq> NEWLINE) (rev s))"

lemma line_of_snoc [simp]: "line_of (s @ [c]) = (if c = NEWLINE then line_of s + 1 else line_of s)"
  by (simp add: line_of_def)

lemma column_of_snoc [simp]: "column_of (s @ [c]) = (if c = NEWLINE then 1 else column_of s + 1)"
  by (simp add: column_of_def)

definition cursor_inv :: "lexer \<Rightarrow> bool" where
  "cursor_inv l \<longleftrightarrow>
     NUL \<notin> set (lx_input l) \<and> lx_input_length l = length (lx_input l) \<and>
     lx_read_position l = Suc (lx_position l) \<and>
     lx_ch l = (if lx_position l < length (lx_input l) then lx_input l ! lx_position l else NUL) \<and>
     pos_line (lx_pos l) = line_of (take (lx_position l) (lx_input l)) \<and>
     pos_column (lx_pos l) = column_of (take (lx_position l) (lx_input l)) \<and>
     pos_offset (lx_pos l) = lx_position l"

definition asi_inv :: "lexer \<Rightarrow> bool" where
  "asi_inv l \<longleftrightarrow> 0 \<le> lx_asi_depth l \<and> length (lx_asi_ctx l) = ASI_CTX_SIZE"

definition lexer_inv :: "lexer \<Rightarrow> bool" where
  "lexer_inv l \<longleftrightarrow> cursor_inv l \<and> asi_inv l"

lemma cursor_inv_ch_NUL: "cursor_inv l \<Longrightarrow> lx_ch l = NUL \<longleftrightarrow> length (lx_input l) \<le> lx_position l"
  unfolding cursor_inv_def by (metis leI nth_mem not_le)

lemma cursor_inv_read_char: "cursor_inv l \<Longrightarrow> cursor_inv (lexer_read_char l)"
proof -
  assume inv: "cursor_inv l"
  show ?thesis
  proof (cases "lx_position l < length (lx_input l)")
    case True
    then have "lx_input l ! lx_position l \<noteq> NUL"
      using inv unfolding cursor_inv_def by (metis nth_mem)
    with True inv show ?thesis
      by (auto simp: cursor_inv_def lexer_read_char_def Let_def take_Suc_conv_app_nth)
  next
    case False
    with inv show ?thesis
      by (auto simp: cursor_inv_def lexer_read_char_def Let_def)
  qed
qed

lemma lx_reads_frame:
  "lx_reads l l' \<Longrightarrow>
     lx_input l' = lx_input l \<and> lx_prev_token_type l' = lx_prev_token_type l \<and>
     lx_asi_ctx l' = lx_asi_ctx l \<and> lx_asi_depth l' = lx_asi_depth l \<and>
     lx_error_count l' = lx_error_count l"
  by (induction rule: lx_reads.induct) (auto simp: lexer_read_char_def Let_def)

lemma lx_reads_cursor:
  "lx_reads l l' \<Longrightarrow> cursor_inv l \<Longrightarrow> cursor_inv l' \<and> lx_position l \<le> lx_position l'"
proof (induction rule: lx_reads.induct)
  case (reads_char l l')
  have "lx_position l \<le> lx_position (lexer_read_char l)"
    using reads_char.prems by (auto simp: cursor_inv_def lexer_read_char_def Let_def)
  with reads_char cursor_inv_read_char show ?case by fastforce
qed simp

lemma lx_reads_inv: "lx_reads l l' \<Longrightarrow> lexer_inv l \<Longrightarrow> lexer_inv l'"
  using lx_reads_cursor lx_reads_frame by (auto simp: lexer_inv_def asi_inv_def)

lemma lexer_inv_new: "lexer_inv (lexer_new s f)"
  by (auto simp: lexer_inv_def cursor_inv_def asi_inv_def lexer_new_def lexer_read_char_def
      Let_def line_of_def column_of_def)

lemma lx_input_new: "lx_input (lexer_new s f) = c_string s"
  by (simp add: lexer_new_def lexer_read_char_def Let_def)

section \<open>What one token consumes\<close>

text \<open>
  \<open>lx_consumes l l'\<close>: \<open>l'\<close> stands at a place reached from \<open>l\<close> by at least one character read,
  and its bracket bookkeeping is still well formed.
\<close>

definition lx_cursor ::
    "lexer \<Rightarrow> string \<times> nat \<times> nat \<times> nat \<times> char \<times> position" where
  "lx_cursor l =
     (lx_input l, lx_input_length l, lx_position l, lx_read_position l, lx_ch l, lx_pos l)"

definition lx_consumes :: "lexer \<Rightarrow> lexer \<Rightarrow> bool" where
  "lx_consumes l l' \<longleftrightarrow>
     (\<exists>m. lx_reads (lexer_read_char l) m \<and> lx_cursor l' = lx_cursor m) \<and>
     (asi_inv l \<longrightarrow> asi_inv l')"

lemma lx_cursor_updates [simp]:
  "lx_cursor (l\<lparr>lx_prev_token_type := t\<rparr>) = lx_cursor l"
  "lx_cursor (l\<lparr>lx_error_count := e\<rparr>) = lx_cursor l"
  "lx_cursor (lexer_asi_push b l) = lx_cursor l"
  "lx_cursor (lexer_asi_pop l) = lx_cursor l"
  "lx_cursor (lexer_finish k l) = lx_cursor l"
  by (simp_all add: lx_cursor_def lexer_asi_push_def lexer_asi_pop_def lexer_finish_def Let_def)

lemma lx_cursor_read_char_cong:
  "lx_cursor l = lx_cursor m \<Longrightarrow> lx_cursor (lexer_read_char l) = lx_cursor (lexer_read_char m)"
  by (simp add: lx_cursor_def lexer_read_char_def Let_def)

lemma cursor_inv_cong: "lx_cursor l = lx_cursor m \<Longrightarrow> cursor_inv l = cursor_inv m"
  by (simp add: lx_cursor_def cursor_inv_def)

lemma asi_inv_updates [simp]:
  "asi_inv (l\<lparr>lx_prev_token_type := t\<rparr>) = asi_inv l"
  "asi_inv (l\<lparr>lx_error_count := e\<rparr>) = asi_inv l"
  "asi_inv (lexer_finish k l) = asi_inv l"
  "asi_inv (lexer_read_char l) = asi_inv l"
  by (simp_all add: asi_inv_def lexer_finish_def lexer_read_char_def Let_def)

lemma asi_inv_push: "asi_inv l \<Longrightarrow> asi_inv (lexer_asi_push b l)"
  by (simp add: asi_inv_def lexer_asi_push_def Let_def)

lemma asi_inv_pop: "asi_inv l \<Longrightarrow> asi_inv (lexer_asi_pop l)"
  by (simp add: asi_inv_def lexer_asi_pop_def)

lemma asi_inv_reads: "lx_reads l m \<Longrightarrow> asi_inv m = asi_inv l"
  by (auto simp: asi_inv_def dest: lx_reads_frame)

lemma lx_consumesI: "lx_reads (lexer_read_char l) l' \<Longrightarrow> lx_consumes l l'"
  unfolding lx_consumes_def using asi_inv_reads by auto

lemma lx_consumes_finish [simp]: "lx_consumes l (lexer_finish t l') = lx_consumes l l'"
  by (simp add: lx_consumes_def)

lemma lx_consumes_prev: "lx_consumes l (l'\<lparr>lx_prev_token_type := t\<rparr>) = lx_consumes l l'"
  by (simp add: lx_consumes_def)

lemma lx_consumes_push: "lx_consumes l (lexer_read_char (lexer_asi_push b l))"
  unfolding lx_consumes_def
  by (auto intro: lx_cursor_read_char_cong asi_inv_push intro!: exI [of _ "lexer_read_char l"])

lemma lx_consumes_pop: "lx_consumes l (lexer_read_char (lexer_asi_pop l))"
  unfolding lx_consumes_def
  by (auto intro: lx_cursor_read_char_cong asi_inv_pop intro!: exI [of _ "lexer_read_char l"])

lemma lx_consumes_inv:
  assumes "lexer_inv l" and "lx_consumes l l'" and "lx_ch l \<noteq> NUL"
  shows "lexer_inv l' \<and> lx_position l < lx_position l' \<and> lx_input l' = lx_input l"
proof -
  obtain m where m: "lx_reads (lexer_read_char l) m" "lx_cursor l' = lx_cursor m" "asi_inv l'"
    using assms by (auto simp: lx_consumes_def lexer_inv_def)
  have "cursor_inv (lexer_read_char l)"
    using assms(1) by (simp add: lexer_inv_def cursor_inv_read_char)
  moreover have "lx_position (lexer_read_char l) = Suc (lx_position l)"
    using assms(1) by (simp add: lexer_inv_def cursor_inv_def lexer_read_char_def Let_def)
  ultimately have "cursor_inv m \<and> lx_position l < lx_position m"
    using lx_reads_cursor [OF m(1)] by simp
  moreover have "lx_input m = lx_input l"
    using lx_reads_frame [OF m(1)] by (simp add: lexer_read_char_def Let_def)
  ultimately show ?thesis
    using m(2,3) cursor_inv_cong [OF m(2)] by (simp add: lexer_inv_def lx_cursor_def)
qed

lemmas lx_reads_intros = lx_consumesI lx_reads_loops lx_reads_snoc

lemma lx_reads_first: "lx_ch l \<noteq> NUL \<Longrightarrow> p (lx_ch l) \<Longrightarrow> lx_reads (lexer_read_char l) (lexer_read_while p l)"
  by (rule lx_reads_read_while_first)

lemma lexer_read_string_reads: "lx_reads (lexer_read_char l) (snd (lexer_read_string l))"
  by (auto simp: lexer_read_string_def Let_def split: option.splits intro: lx_reads_loops)

lemma lexer_read_raw_string_reads: "lx_reads (lexer_read_char l) (snd (lexer_read_raw_string l))"
  by (auto simp: lexer_read_raw_string_def Let_def intro: lx_reads_loops)

lemma lexer_read_char_body_reads: "lx_reads l (lexer_read_char_body l)"
  by (auto simp: lexer_read_char_body_def Let_def intro: lx_reads_loops)

lemma lexer_read_char_literal_reads: "lx_reads (lexer_read_char l) (snd (lexer_read_char_literal l))"
  by (auto simp: lexer_read_char_literal_def Let_def lexer_read_char_body_reads)

lemma lexer_read_identifier_reads:
  assumes "lexer_is_letter (lx_ch l)" and "lx_ch l \<noteq> NUL"
  shows "lx_reads (lexer_read_char l) (snd (lexer_read_identifier l))"
  using assms by (auto simp: lexer_read_identifier_def Let_def intro!: lx_reads_first)

lemma lexer_read_int_part_reads:
  assumes "lexer_is_digit (lx_ch l)" and "lx_ch l \<noteq> NUL"
  shows "lx_reads (lexer_read_char l) (lexer_read_int_part l)"
  using assms by (auto simp: lexer_read_int_part_def Let_def intro: lx_reads_first lx_reads_loops)

lemma lexer_read_fraction_reads: "lx_reads l (snd (lexer_read_fraction l))"
  by (auto simp: lexer_read_fraction_def intro: lx_reads_loops)

lemma lexer_read_exponent_reads: "lx_reads l (snd (lexer_read_exponent l))"
  by (auto simp: lexer_read_exponent_def Let_def intro: lx_reads_loops)

lemma lexer_read_number_reads:
  assumes "lexer_is_digit (lx_ch l)" and "lx_ch l \<noteq> NUL"
  shows "lx_reads (lexer_read_char l) (snd (snd (lexer_read_number l)))"
proof -
  have "lx_reads (lexer_read_char l) (snd (lexer_read_exponent (snd (lexer_read_fraction (lexer_read_int_part l)))))"
    using lexer_read_int_part_reads [OF assms] lexer_read_fraction_reads lexer_read_exponent_reads
    by (blast intro: lx_reads_trans)
  then show ?thesis by (simp add: lexer_read_number_def Let_def split_beta)
qed

text \<open>The token forms one by one: position, type and the reads behind the token.\<close>

definition emits_at :: "position \<Rightarrow> lexer \<Rightarrow> lex_step \<Rightarrow> bool" where
  "emits_at p l s =
     (case s of
        Emit t l' \<Rightarrow> tok_pos t = p \<and> tok_type t \<noteq> TOKEN_EOF \<and> lx_consumes l l' \<and>
                     lx_error_count l' = lx_error_count l
      | Continue l' \<Rightarrow> lx_consumes l l' \<and> lx_error_count l' = lx_error_count l
      | Return t l' \<Rightarrow> tok_pos t = p \<and> tok_type t = TOKEN_SEMICOLON \<and> lx_consumes l l' \<and>
                       lx_error_count l' = lx_error_count l)"

lemma lx_error_count_simps [simp]:
  "lx_error_count (lexer_read_char l) = lx_error_count l"
  "lx_error_count (lexer_asi_push b l) = lx_error_count l"
  "lx_error_count (lexer_asi_pop l) = lx_error_count l"
  by (simp_all add: lexer_read_char_def lexer_asi_push_def lexer_asi_pop_def Let_def)

lemma lx_reads_error_count: "lx_reads (lexer_read_char l) l' \<Longrightarrow> lx_error_count l' = lx_error_count l"
  by (drule lx_reads_frame) simp

lemma emits_at_Emit:
  "lx_reads (lexer_read_char l) l' \<Longrightarrow> ty \<noteq> TOKEN_EOF \<Longrightarrow> emits_at p l (Emit (token_new ty s n p) l')"
  by (simp add: emits_at_def lx_consumesI lx_reads_error_count)

lemma emits_at_Continue: "lx_reads (lexer_read_char l) l' \<Longrightarrow> emits_at p l (Continue l')"
  by (simp add: emits_at_def lx_consumesI lx_reads_error_count)

lemma emits_at_asi: "lx_reads (lexer_read_char l) l' \<Longrightarrow> emits_at p l (lexer_asi_return p l')"
  by (simp add: emits_at_def lexer_asi_return_def lx_consumesI lx_reads_error_count lx_consumes_prev)

lemma lex_newline_emits: "emits_at p l (lex_newline p l)"
  by (auto simp: lex_newline_def Let_def intro!: emits_at_asi emits_at_Continue)

lemma lex_bracket_emits: "emits_at p l (lex_bracket p l)"
  by (simp add: lex_bracket_def emits_at_def lx_consumes_push lx_consumes_pop)

lemma lex_punct_emits: "emits_at p l (lex_punct p l)"
  by (auto simp: lex_punct_def Let_def intro!: emits_at_Emit)

lemma lex_slash_emits: "lx_ch l = CHR ''/'' \<Longrightarrow> emits_at p l (lex_slash p l)"
  by (auto simp: lex_slash_def Let_def intro!: emits_at_Emit emits_at_Continue lx_reads_first
      intro: lx_reads_loops)

lemma lex_arith_emits: "emits_at p l (lex_arith p l)"
  by (auto simp: lex_arith_def Let_def lex_slash_emits intro!: emits_at_Emit)

lemma lex_compare_emits: "emits_at p l (lex_compare p l)"
  by (auto simp: lex_compare_def Let_def intro!: emits_at_Emit)

lemma lex_bits_emits: "emits_at p l (lex_bits p l)"
  by (auto simp: lex_bits_def Let_def intro!: emits_at_Emit)

lemma lex_string_emits: "emits_at p l (lex_string p l)"
  using lexer_read_string_reads [of l]
  by (auto simp: lex_string_def split: prod.splits option.splits intro!: emits_at_Emit)

lemma lex_raw_string_emits: "emits_at p l (lex_raw_string p l)"
  using lexer_read_raw_string_reads [of l]
  by (auto simp: lex_raw_string_def split: prod.splits option.splits intro!: emits_at_Emit)

lemma lex_rune_emits: "emits_at p l (lex_rune p l)"
  using lexer_read_char_literal_reads [of l]
  by (auto simp: lex_rune_def split: prod.splits option.splits intro!: emits_at_Emit)

lemma token_keyword_type_not_EOF: "token_keyword_type s \<noteq> TOKEN_EOF"
proof -
  have "\<forall>t \<in> set keyword_table. snd t \<noteq> TOKEN_EOF" by (simp add: keyword_table_def)
  then show ?thesis
    by (auto simp: token_keyword_type_def keyword_search_map_of dest!: map_of_SomeD split: option.splits)
qed

lemma lex_word_emits: "lx_ch l \<noteq> NUL \<Longrightarrow> emits_at p l (lex_word p l)"
  using lexer_read_identifier_reads [of l] lexer_read_number_reads [of l]
  by (auto simp: lex_word_def token_keyword_type_not_EOF split: prod.splits intro!: emits_at_Emit)

lemma lexer_switch_EOF: "lx_ch l = NUL \<Longrightarrow> lexer_switch p l = Emit (token_new TOKEN_EOF None 0 p) l"
  by (simp add: lexer_switch_def)

lemma lexer_switch_emits: "lx_ch l \<noteq> NUL \<Longrightarrow> emits_at p l (lexer_switch p l)"
  by (simp add: lexer_switch_def Let_def lex_newline_emits lex_bracket_emits lex_punct_emits
      lex_arith_emits lex_compare_emits lex_bits_emits lex_string_emits lex_raw_string_emits
      lex_rune_emits lex_word_emits)

end
