(* ===== verification/Lexer_Props.thy ===== *)
theory Lexer_Props
  imports Lexer
begin

text \<open>
  What the scanner guarantees: every call consumes input or reports the end, the error counter is
  exact, and the token forms (words, numbers, strings, runes) mean what they should.
\<close>

section \<open>One call\<close>

lemma lexer_next_token_spec:
  "lexer_next_token l = (t, l') \<Longrightarrow>
     \<exists>m. lx_reads l m \<and> tok_pos t = lx_pos m \<and>
       (if lx_ch m = NUL then tok_type t = TOKEN_EOF \<and> l' = lexer_finish t m
        else tok_type t \<noteq> TOKEN_EOF \<and> lx_consumes m l' \<and>
             lx_error_count l' = lx_error_count l +
               (if tok_type t = TOKEN_ERROR \<or> tok_type t = TOKEN_UNKNOWN then 1 else 0))"
proof (induction l rule: lexer_next_token.induct)
  case (1 l)
  let ?m = "lexer_skip_whitespace l"
  have step: "lexer_step l = lexer_switch (lx_pos ?m) ?m" by (simp add: lexer_step_def Let_def)
  have count: "lx_error_count ?m = lx_error_count l" using lx_reads_frame by simp
  show ?case
  proof (cases "lexer_step l")
    case (Continue l1)
    with "1.prems" have "lexer_next_token l1 = (t, l')" by (simp add: lexer_next_token.simps [of l])
    moreover have "lx_reads l l1" using Continue by (rule lexer_step_Continue_reads)
    moreover have "lx_error_count l1 = lx_error_count l" using \<open>lx_reads l l1\<close> lx_reads_frame by blast
    ultimately obtain m where "lx_reads l1 m" and "tok_pos t = lx_pos m \<and>
       (if lx_ch m = NUL then tok_type t = TOKEN_EOF \<and> l' = lexer_finish t m
        else tok_type t \<noteq> TOKEN_EOF \<and> lx_consumes m l' \<and>
             lx_error_count l' = lx_error_count l +
               (if tok_type t = TOKEN_ERROR \<or> tok_type t = TOKEN_UNKNOWN then 1 else 0))"
      using "1.IH" [OF Continue] by auto
    with \<open>lx_reads l l1\<close> show ?thesis using lx_reads_trans by blast
  next
    case (Emit t1 l1)
    with "1.prems" have t: "t = t1" "l' = lexer_finish t l1" by (auto simp: lexer_next_token.simps [of l])
    show ?thesis
    proof (cases "lx_ch ?m = NUL")
      case True
      with Emit step t show ?thesis by (intro exI [of _ ?m]) (auto simp: lexer_switch_EOF)
    next
      case False
      with lexer_switch_emits [OF False, of "lx_pos ?m"] Emit step t count show ?thesis
        by (intro exI [of _ ?m]) (auto simp: emits_at_def lexer_finish_def Let_def lx_consumes_def)
    qed
  next
    case (Return t1 l1)
    with "1.prems" have t: "t = t1" "l' = l1" by (auto simp: lexer_next_token.simps [of l])
    have ne: "lx_ch ?m \<noteq> NUL" using Return step by (auto simp: lexer_switch_EOF)
    with lexer_switch_emits [OF ne, of "lx_pos ?m"] Return step t count show ?thesis
      by (intro exI [of _ ?m]) (auto simp: emits_at_def)
  qed
qed

lemma lx_left_cursor: "lx_cursor l = lx_cursor m \<Longrightarrow> lx_left l = lx_left m"
  by (simp add: lx_cursor_def lx_left_def)

lemma lx_consumes_left: "lx_consumes l l' \<Longrightarrow> lx_ch l \<noteq> NUL \<Longrightarrow> lx_left l' < lx_left l"
  unfolding lx_consumes_def using lx_left_cursor lx_reads_left_less by metis

lemma lexer_next_token_left:
  "lexer_next_token l = (t, l') \<Longrightarrow> tok_type t \<noteq> TOKEN_EOF \<Longrightarrow> lx_left l' < lx_left l"
  by (drule lexer_next_token_spec) (metis less_le_trans lx_consumes_left lx_reads_left)

lemma lexer_inv_finish [simp]: "lexer_inv (lexer_finish t l) = lexer_inv l"
  by (simp add: lexer_inv_def cursor_inv_cong [of "lexer_finish t l" l])

lemma lx_input_finish [simp]: "lx_input (lexer_finish t l) = lx_input l"
  by (simp add: lexer_finish_def Let_def)

lemma lx_position_finish [simp]: "lx_position (lexer_finish t l) = lx_position l"
  by (simp add: lexer_finish_def Let_def)

lemma lx_error_count_finish:
  "lx_error_count (lexer_finish t l) =
     lx_error_count l + (if tok_type t = TOKEN_ERROR \<or> tok_type t = TOKEN_UNKNOWN then 1 else 0)"
  by (simp add: lexer_finish_def Let_def)

text \<open>The contract of one call, for a well-formed scanner.\<close>

definition token_at :: "string \<Rightarrow> token \<Rightarrow> bool" where
  "token_at src t \<longleftrightarrow>
     pos_line (tok_pos t) = line_of (take (pos_offset (tok_pos t)) src) \<and>
     pos_column (tok_pos t) = column_of (take (pos_offset (tok_pos t)) src)"

lemma lexer_next_token_contract:
  assumes "lexer_inv l" and "lexer_next_token l = (t, l')"
  shows "lexer_inv l'" and "lx_input l' = lx_input l" and "token_at (lx_input l) t"
    and "lx_position l \<le> pos_offset (tok_pos t)"
    and "tok_type t \<noteq> TOKEN_EOF \<Longrightarrow>
           pos_offset (tok_pos t) < length (lx_input l) \<and> pos_offset (tok_pos t) < lx_position l'"
    and "tok_type t = TOKEN_EOF \<Longrightarrow> length (lx_input l) \<le> pos_offset (tok_pos t)"
proof -
  obtain m where m: "lx_reads l m" "tok_pos t = lx_pos m"
    and c: "if lx_ch m = NUL then tok_type t = TOKEN_EOF \<and> l' = lexer_finish t m
            else tok_type t \<noteq> TOKEN_EOF \<and> lx_consumes m l'"
    using lexer_next_token_spec [OF assms(2)] by (auto split: if_splits)
  have inv: "lexer_inv m" using m(1) assms(1) by (rule lx_reads_inv)
  have inp: "lx_input m = lx_input l" using m(1) lx_reads_frame by simp
  have cur: "cursor_inv m" using inv by (simp add: lexer_inv_def)
  have off: "pos_offset (tok_pos t) = lx_position m" using cur m(2) by (simp add: cursor_inv_def)
  have con: "lexer_inv l' \<and> lx_input l' = lx_input l \<and> lx_position m < lx_position l'" if "lx_ch m \<noteq> NUL"
    using that c inv inp lx_consumes_inv [of m l'] by auto
  show "lexer_inv l'" and "lx_input l' = lx_input l"
    using c con inv inp by (cases "lx_ch m = NUL"; simp)+
  show "token_at (lx_input l) t"
    using cur m(2) inp by (simp add: token_at_def cursor_inv_def)
  show "lx_position l \<le> pos_offset (tok_pos t)"
    using lx_reads_cursor [OF m(1)] assms(1) off by (simp add: lexer_inv_def)
  show "pos_offset (tok_pos t) < length (lx_input l) \<and> pos_offset (tok_pos t) < lx_position l'"
    if "tok_type t \<noteq> TOKEN_EOF"
    using that c con off cursor_inv_ch_NUL [OF cur] inp by (cases "lx_ch m = NUL") auto
  show "length (lx_input l) \<le> pos_offset (tok_pos t)" if "tok_type t = TOKEN_EOF"
    using that c off cursor_inv_ch_NUL [OF cur] inp by (cases "lx_ch m = NUL") auto
qed

section \<open>The token stream\<close>

text \<open>A client calls \<open>lexer_next_token\<close> until it sees the end mark.\<close>

function lexer_tokens :: "lexer \<Rightarrow> token list \<times> lexer" where
  "lexer_tokens l =
     (let (t, l') = lexer_next_token l
      in if tok_type t = TOKEN_EOF then ([t], l')
         else let (ts, l'') = lexer_tokens l' in (t # ts, l''))"
  by pat_completeness auto
termination
  by (relation "measure lx_left") (simp, metis in_measure lexer_next_token_left)

declare lexer_tokens.simps [simp del]

definition is_lex_error :: "token \<Rightarrow> bool" where
  "is_lex_error t \<longleftrightarrow> tok_type t = TOKEN_ERROR \<or> tok_type t = TOKEN_UNKNOWN"

text \<open>
  What a token stream over the text \<open>src\<close> from offset \<open>lo\<close> on must look like: positions are
  right, offsets grow strictly, and exactly the last token is the end mark.
\<close>

fun stream_ok :: "string \<Rightarrow> nat \<Rightarrow> token list \<Rightarrow> bool" where
  "stream_ok src lo [] = False"
| "stream_ok src lo (t # ts) =
     (token_at src t \<and> lo \<le> pos_offset (tok_pos t) \<and>
      (if tok_type t = TOKEN_EOF then ts = [] \<and> length src \<le> pos_offset (tok_pos t)
       else pos_offset (tok_pos t) < length src \<and> stream_ok src (Suc (pos_offset (tok_pos t))) ts))"

lemma stream_ok_mono: "stream_ok src lo ts \<Longrightarrow> lo' \<le> lo \<Longrightarrow> stream_ok src lo' ts"
  by (cases ts) (auto split: if_splits)

lemma lexer_tokens_stream_ok:
  "lexer_inv l \<Longrightarrow> stream_ok (lx_input l) (lx_position l) (fst (lexer_tokens l))"
proof (induction l rule: lexer_tokens.induct)
  case (1 l)
  obtain t l' where n: "lexer_next_token l = (t, l')" by fastforce
  note c = lexer_next_token_contract [OF "1.prems" n]
  show ?case
  proof (cases "tok_type t = TOKEN_EOF")
    case True
    with n c show ?thesis by (simp add: lexer_tokens.simps [of l] split_beta)
  next
    case False
    have "stream_ok (lx_input l') (lx_position l') (fst (lexer_tokens l'))"
      using "1.IH" [OF n [symmetric] refl False c(1)] .
    then have "stream_ok (lx_input l) (Suc (pos_offset (tok_pos t))) (fst (lexer_tokens l'))"
      using c(2) c(5) [OF False] by (metis Suc_leI stream_ok_mono)
    then show ?thesis
      using n c False by (simp add: lexer_tokens.simps [of l] split_beta)
  qed
qed

lemma stream_ok_sorted:
  "stream_ok src lo ts \<Longrightarrow>
     sorted_wrt (<) (map (\<lambda>t. pos_offset (tok_pos t)) ts) \<and> (\<forall>t \<in> set ts. lo \<le> pos_offset (tok_pos t))"
proof (induction ts arbitrary: lo)
  case (Cons t ts)
  show ?case
  proof (cases "tok_type t = TOKEN_EOF")
    case False
    with Cons.prems have "stream_ok src (Suc (pos_offset (tok_pos t))) ts" by simp
    from Cons.IH [OF this] Cons.prems show ?thesis by (fastforce simp: Suc_le_eq)
  qed (use Cons.prems in simp)
qed simp

lemma stream_ok_ends:
  "stream_ok src lo ts \<Longrightarrow>
     ts \<noteq> [] \<and> tok_type (last ts) = TOKEN_EOF \<and> (\<forall>t \<in> set (butlast ts). tok_type t \<noteq> TOKEN_EOF)"
proof (induction ts arbitrary: lo)
  case (Cons t ts)
  then show ?case by (cases "tok_type t = TOKEN_EOF") force+
qed simp

lemma stream_ok_token_at: "stream_ok src lo ts \<Longrightarrow> t \<in> set ts \<Longrightarrow> token_at src t"
proof (induction ts arbitrary: lo)
  case (Cons u ts)
  then show ?case by (cases "tok_type u = TOKEN_EOF") auto
qed simp

lemma lexer_tokens_error_count:
  "lx_error_count (snd (lexer_tokens l)) =
     lx_error_count l + length (filter is_lex_error (fst (lexer_tokens l)))"
proof (induction l rule: lexer_tokens.induct)
  case (1 l)
  obtain t l' where n: "lexer_next_token l = (t, l')" by fastforce
  then obtain m where m: "lx_reads l m" and c: "if lx_ch m = NUL then tok_type t = TOKEN_EOF \<and> l' = lexer_finish t m
        else tok_type t \<noteq> TOKEN_EOF \<and> lx_consumes m l' \<and>
             lx_error_count l' = lx_error_count l + (if is_lex_error t then 1 else 0)"
    using lexer_next_token_spec unfolding is_lex_error_def by blast
  have e: "lx_error_count m = lx_error_count l" using m lx_reads_frame by simp
  show ?case
  proof (cases "tok_type t = TOKEN_EOF")
    case True
    with c have "lx_error_count l' = lx_error_count l" and "\<not> is_lex_error t"
      using e by (auto simp: lx_error_count_finish is_lex_error_def split: if_splits)
    with True n show ?thesis by (simp add: lexer_tokens.simps [of l] split_beta)
  next
    case False
    with c have "lx_error_count l' = lx_error_count l + (if is_lex_error t then 1 else 0)"
      by (auto split: if_splits)
    with "1.IH" [OF n [symmetric] refl False] False n show ?thesis
      by (simp add: lexer_tokens.simps [of l] split_beta)
  qed
qed

section \<open>The text still to be read\<close>

definition lx_rest :: "lexer \<Rightarrow> string" where
  "lx_rest l = drop (lx_position l) (lx_input l)"

lemma lx_rest_ch: "cursor_inv l \<Longrightarrow> lx_ch l = (case lx_rest l of [] \<Rightarrow> NUL | c # _ \<Rightarrow> c)"
proof (cases "lx_position l < length (lx_input l)")
  case True
  then have "lx_rest l = lx_input l ! lx_position l # drop (Suc (lx_position l)) (lx_input l)"
    by (simp add: lx_rest_def Cons_nth_drop_Suc)
  then show "cursor_inv l \<Longrightarrow> ?thesis" using True by (simp add: cursor_inv_def)
qed (simp add: cursor_inv_def lx_rest_def)

lemma lx_rest_peek: "cursor_inv l \<Longrightarrow> lexer_peek_char l = (case lx_rest l of _ # c # _ \<Rightarrow> c | _ \<Rightarrow> NUL)"
proof -
  assume inv: "cursor_inv l"
  let ?i = "lx_position l" and ?xs = "lx_input l"
  consider "Suc ?i < length ?xs" | "Suc ?i = length ?xs" | "length ?xs \<le> ?i" by linarith
  then show ?thesis
  proof cases
    case 1
    then have "lx_rest l = ?xs ! ?i # ?xs ! Suc ?i # drop (Suc (Suc ?i)) ?xs"
      by (simp add: lx_rest_def Cons_nth_drop_Suc)
    with 1 inv show ?thesis by (simp add: lexer_peek_char_def cursor_inv_def)
  next
    case 2
    then have "lx_rest l = [?xs ! ?i]" by (metis Cons_nth_drop_Suc drop_all le_refl lessI lx_rest_def)
    with 2 inv show ?thesis by (simp add: lexer_peek_char_def cursor_inv_def)
  next
    case 3
    with inv show ?thesis by (simp add: lexer_peek_char_def cursor_inv_def lx_rest_def)
  qed
qed

lemma lx_rest_NUL_free: "cursor_inv l \<Longrightarrow> NUL \<notin> set (lx_rest l)"
  by (auto simp: cursor_inv_def lx_rest_def dest: in_set_dropD)

lemma lx_rest_read_char: "cursor_inv l \<Longrightarrow> lx_rest (lexer_read_char l) = tl (lx_rest l)"
  by (simp add: cursor_inv_def lx_rest_def lexer_read_char_def Let_def drop_Suc drop_tl)

lemma lx_position_read_char: "cursor_inv l \<Longrightarrow> lx_position (lexer_read_char l) = Suc (lx_position l)"
  by (simp add: cursor_inv_def lexer_read_char_def Let_def)

lemma lx_input_read_char [simp]: "lx_input (lexer_read_char l) = lx_input l"
  by (simp add: lexer_read_char_def Let_def)

lemma lx_prev_read_char [simp]: "lx_prev_token_type (lexer_read_char l) = lx_prev_token_type l"
  by (simp add: lexer_read_char_def Let_def)

lemma lexer_read_while_spec:
  assumes "cursor_inv l"
  shows "lx_rest (lexer_read_while p l) = dropWhile p (lx_rest l)"
    and "lx_position (lexer_read_while p l) = lx_position l + length (takeWhile p (lx_rest l))"
    and "cursor_inv (lexer_read_while p l)"
proof -
  have "lx_rest (lexer_read_while p l) = dropWhile p (lx_rest l) \<and>
        lx_position (lexer_read_while p l) = lx_position l + length (takeWhile p (lx_rest l)) \<and>
        cursor_inv (lexer_read_while p l)"
    using assms
  proof (induction p l rule: lexer_read_while.induct)
    case (1 p l)
    note inv = "1.prems"
    show ?case
    proof (cases "lx_rest l")
      case Nil
      then have "lx_ch l = NUL" using lx_rest_ch [OF inv] by simp
      with Nil inv show ?thesis by (simp add: lexer_read_while.simps)
    next
      case (Cons c cs)
      then have ch: "lx_ch l = c" "c \<noteq> NUL"
        using lx_rest_ch [OF inv] lx_rest_NUL_free [OF inv] by auto
      show ?thesis
      proof (cases "p c")
        case True
        have "lx_rest (lexer_read_char l) = cs"
          using lx_rest_read_char [OF inv] Cons by simp
        with True ch Cons "1.IH" cursor_inv_read_char [OF inv] lx_position_read_char [OF inv]
        show ?thesis by (simp add: lexer_read_while.simps [of p l])
      qed (use ch Cons inv in \<open>simp add: lexer_read_while.simps [of p l]\<close>)
    qed
  qed
  then show "lx_rest (lexer_read_while p l) = dropWhile p (lx_rest l)"
    and "lx_position (lexer_read_while p l) = lx_position l + length (takeWhile p (lx_rest l))"
    and "cursor_inv (lexer_read_while p l)" by auto
qed

lemma lx_slice_takeWhile:
  "lx_slice l (lx_position l) (lx_position l + length (takeWhile p (lx_rest l))) = takeWhile p (lx_rest l)"
  by (simp add: lx_slice_def lx_rest_def [symmetric] takeWhile_eq_take [symmetric])

section \<open>Words\<close>

definition ident_char :: "char \<Rightarrow> bool" where
  "ident_char c \<longleftrightarrow> lexer_is_letter c \<or> lexer_is_digit c"

definition is_word :: "string \<Rightarrow> bool" where
  "is_word w \<longleftrightarrow> w \<noteq> [] \<and> lexer_is_letter (hd w) \<and> list_all ident_char w"

definition word_type :: "string \<Rightarrow> token_type" where
  "word_type w = (if token_is_keyword w then token_keyword_type w else TOKEN_IDENT)"

lemma lexer_read_identifier_spec:
  assumes "cursor_inv l"
  shows "fst (lexer_read_identifier l) = takeWhile ident_char (lx_rest l)"
    and "lx_rest (snd (lexer_read_identifier l)) = dropWhile ident_char (lx_rest l)"
    and "cursor_inv (snd (lexer_read_identifier l))"
  using lexer_read_while_spec [OF assms, of ident_char] lx_slice_takeWhile [of l ident_char]
  by (simp_all add: lexer_read_identifier_def Let_def ident_char_def [abs_def])

text \<open>A letter is none of the characters the other cases of the switch test for.\<close>

lemma letter_switch:
  assumes "lexer_is_letter (lx_ch l)"
  shows "lexer_switch p l = lex_word p l"
proof -
  have not: "lx_ch l \<noteq> c" if "\<not> lexer_is_letter c" for c using assms that by auto
  show ?thesis
    unfolding lexer_switch_def Let_def
    by (simp add: not lexer_is_letter_def char_code_def)
qed

lemma takeWhile_word: 
  "list_all P w \<Longrightarrow> rest = [] \<or> \<not> P (hd rest) \<Longrightarrow> takeWhile P (w @ rest) = w \<and> dropWhile P (w @ rest) = rest"
  by (induction w) (cases rest; auto)+

lemma dropWhile_blanks:
  "P b \<Longrightarrow> xs \<noteq> [] \<Longrightarrow> \<not> P (hd xs) \<Longrightarrow> dropWhile P (replicate k b @ xs) = xs"
  by (induction k) (cases xs; simp)+

lemma lexer_step_word:
  assumes inv: "cursor_inv l" and w: "is_word w"
    and rest: "lx_rest l = replicate k (CHR '' '') @ w @ rest" "rest = [] \<or> \<not> ident_char (hd rest)"
  shows "\<exists>t l'. lexer_step l = Emit t l' \<and> tok_type t = word_type w \<and> tok_literal t = Some w \<and>
           cursor_inv l' \<and> lx_rest l' = rest"
proof -
  let ?m = "lexer_skip_whitespace l"
  have not_blank: "\<not> lexer_is_whitespace (hd (w @ rest))"
    using w by (cases w) (auto simp: is_word_def lexer_is_whitespace_def lexer_is_letter_def char_code_def)
  have "dropWhile (\<lambda>c. lexer_is_whitespace c \<and> c \<noteq> NEWLINE) (lx_rest l) = w @ rest"
    unfolding rest(1) using not_blank w
    by (intro dropWhile_blanks) (auto simp: lexer_is_whitespace_def is_word_def)
  then have m: "cursor_inv ?m" "lx_rest ?m = w @ rest"
    unfolding lexer_skip_whitespace_def using lexer_read_while_spec [OF inv] by simp_all
  then have letter: "lexer_is_letter (lx_ch ?m)"
    using lx_rest_ch [OF m(1)] w by (cases w) (auto simp: is_word_def)
  have tw: "takeWhile ident_char (w @ rest) = w \<and> dropWhile ident_char (w @ rest) = rest"
    using takeWhile_word [of ident_char w rest] w rest(2) by (simp add: is_word_def)
  note rd = lexer_read_identifier_spec [OF m(1)]
  show ?thesis
    using letter tw rd m(2)
    by (auto simp: lexer_step_def Let_def letter_switch lex_word_def split_beta word_type_def)
qed

lemma cursor_inv_finish [simp]: "cursor_inv (lexer_finish t l) = cursor_inv l"
  by (rule cursor_inv_cong) simp

lemma lx_rest_finish [simp]: "lx_rest (lexer_finish t l) = lx_rest l"
  by (simp add: lx_rest_def)

definition token_view :: "token \<Rightarrow> token_type \<times> string option" where
  "token_view t = (tok_type t, tok_literal t)"

lemma lexer_tokens_Emit:
  "lexer_step l = Emit t l' \<Longrightarrow> tok_type t \<noteq> TOKEN_EOF \<Longrightarrow>
     fst (lexer_tokens l) = t # fst (lexer_tokens (lexer_finish t l'))"
  by (simp add: lexer_tokens.simps [of l] lexer_next_token.simps [of l] split_beta)

lemma lexer_tokens_EOF:
  assumes "cursor_inv l" and "lx_rest l = []"
  shows "map token_view (fst (lexer_tokens l)) = [(TOKEN_EOF, None)]"
proof -
  have "lx_ch l = NUL" using assms lx_rest_ch by simp
  then have "lexer_skip_whitespace l = l"
    by (simp add: lexer_skip_whitespace_def lexer_read_while.simps)
  with \<open>lx_ch l = NUL\<close> show ?thesis
    by (simp add: lexer_tokens.simps [of l] lexer_next_token.simps [of l] lexer_step_def Let_def
        lexer_switch_EOF token_view_def token_new_def)
qed

lemma word_type_not_EOF: "word_type w \<noteq> TOKEN_EOF"
  by (simp add: word_type_def token_keyword_type_not_EOF)

text \<open>Words laid out with one space between them.\<close>

definition spaced :: "string list \<Rightarrow> string" where
  "spaced ws = concat (map ((#) (CHR '' '')) ws)"

fun unwords :: "string list \<Rightarrow> string" where
  "unwords [] = []"
| "unwords (w # ws) = w @ spaced ws"

lemma spaced_hd: "spaced ws = [] \<or> \<not> ident_char (hd (spaced ws))"
  by (cases ws) (auto simp: spaced_def ident_char_def lexer_is_letter_def lexer_is_digit_def char_code_def)

lemma lexer_tokens_word:
  assumes "cursor_inv l" and "is_word w"
    and "lx_rest l = replicate k (CHR '' '') @ w @ rest" and "rest = [] \<or> \<not> ident_char (hd rest)"
  obtains l' where "cursor_inv l'" and "lx_rest l' = rest"
    and "map token_view (fst (lexer_tokens l)) = (word_type w, Some w) # map token_view (fst (lexer_tokens l'))"
proof -
  from lexer_step_word [OF assms] obtain t l' where
    "lexer_step l = Emit t l'" "tok_type t = word_type w" "tok_literal t = Some w" "cursor_inv l'" "lx_rest l' = rest"
    by blast
  then show ?thesis
    using that [of "lexer_finish t l'"] word_type_not_EOF by (simp add: lexer_tokens_Emit token_view_def)
qed

lemma lexer_tokens_spaced:
  "cursor_inv l \<Longrightarrow> list_all is_word ws \<Longrightarrow> lx_rest l = spaced ws \<Longrightarrow>
     map token_view (fst (lexer_tokens l)) = map (\<lambda>w. (word_type w, Some w)) ws @ [(TOKEN_EOF, None)]"
proof (induction ws arbitrary: l)
  case Nil
  then show ?case by (simp add: spaced_def lexer_tokens_EOF)
next
  case (Cons w ws)
  have "lx_rest l = replicate 1 (CHR '' '') @ w @ spaced ws"
    using Cons.prems by (simp add: spaced_def)
  then obtain l' where "cursor_inv l'" "lx_rest l' = spaced ws"
    "map token_view (fst (lexer_tokens l)) = (word_type w, Some w) # map token_view (fst (lexer_tokens l'))"
    using lexer_tokens_word Cons.prems spaced_hd by (metis list.pred_inject(2))
  with Cons.IH Cons.prems show ?case by simp
qed

lemma cursor_inv_new: "cursor_inv (lexer_new s f)"
  using lexer_inv_new by (simp add: lexer_inv_def)

lemma lx_rest_new: "lx_rest (lexer_new s f) = c_string s"
  by (simp add: lx_rest_def lexer_new_def lexer_read_char_def Let_def)

section \<open>String literals\<close>

definition hex_char :: "nat \<Rightarrow> char" where
  "hex_char d = (if d < 10 then char_of (48 + d) else char_of (87 + d))"

text \<open>A literal body for any byte string: the quote, the backslash and NUL as hex escapes.\<close>

definition escape_char :: "char \<Rightarrow> string" where
  "escape_char c =
     (if c = DQUOTE \<or> c = BACKSLASH \<or> c = NUL
      then [BACKSLASH, CHR ''x'', hex_char (char_code c div 16), hex_char (char_code c mod 16)]
      else [c])"

definition escape_string :: "string \<Rightarrow> string" where
  "escape_string s = concat (map escape_char s)"

lemma escape_string_simps [simp]:
  "escape_string [] = []" "escape_string (c # s) = escape_char c @ escape_string s"
  by (simp_all add: escape_string_def)

lemma decode_plain: "c \<noteq> BACKSLASH \<Longrightarrow> decode_string_body (c # r) = map_option ((#) c) (decode_string_body r)"
  by (cases r) auto

lemma char_of_specials:
  "char_of (34 :: nat) = DQUOTE" "char_of (92 :: nat) = BACKSLASH" "char_of (0 :: nat) = NUL"
  using char_of_char [where ?'a = nat, of DQUOTE] char_of_char [where ?'a = nat, of BACKSLASH]
    char_of_char [where ?'a = nat, of NUL] by simp_all

lemma decode_escape_char:
  "decode_string_body (escape_char c @ r) = map_option ((#) c) (decode_string_body r)"
  by (auto simp: escape_char_def decode_plain hex_char_def hex_digit_value_def char_code_def
      char_of_specials)

lemma decode_escape_string: "decode_string_body (escape_string s) = Some s"
  by (induction s) (simp_all add: decode_escape_char)

lemma decode_string_body_length: "decode_string_body raw = Some out \<Longrightarrow> length out \<le> length raw"
proof (induction raw arbitrary: out rule: decode_string_body.induct)
  case (3 c n rest)
  then show ?case
    by (fastforce split: if_splits list.splits option.splits)
qed auto


lemma hex_char_plain:
  "d < 16 \<Longrightarrow> hex_char d \<noteq> DQUOTE \<and> hex_char d \<noteq> BACKSLASH \<and> hex_char d \<noteq> NUL"
proof -
  assume d: "d < 16"
  have "char_code (hex_char d) = (if d < 10 then 48 + d else 87 + d)"
    using d by (simp add: char_code_def hex_char_def)
  then have "char_code (hex_char d) \<notin> {34, 92, 0}" using d by (auto split: if_splits)
  moreover have "char_code DQUOTE = 34" "char_code BACKSLASH = 92" "char_code NUL = 0"
    by (simp_all add: char_code_def)
  ultimately show ?thesis by auto
qed

lemma skip_string_plain:
  assumes "cursor_inv l" and "lx_rest l = c # r" and "c \<noteq> DQUOTE" and "c \<noteq> BACKSLASH"
  shows "lexer_skip_string_body l = lexer_skip_string_body (lexer_read_char l)"
proof -
  have "lx_ch l = c" "c \<noteq> NUL"
    using assms lx_rest_ch [OF assms(1)] lx_rest_NUL_free [OF assms(1)] by auto
  then show ?thesis using assms by (subst lexer_skip_string_body.simps) simp
qed

lemma skip_string_escape:
  assumes "cursor_inv l" and "lx_rest l = BACKSLASH # n # r"
  shows "lexer_skip_string_body l = lexer_skip_string_body (lexer_read_char (lexer_read_char l))"
proof -
  have "lx_ch l = BACKSLASH" using assms lx_rest_ch by simp
  moreover have "lx_ch (lexer_read_char l) = n"
    using lx_rest_ch [OF cursor_inv_read_char [OF assms(1)]] lx_rest_read_char [OF assms(1)] assms(2) by simp
  moreover have "n \<noteq> NUL" using lx_rest_NUL_free [OF assms(1)] assms(2) by auto
  ultimately show ?thesis by (subst lexer_skip_string_body.simps) (simp add: Let_def)
qed

lemma skip_string_escape_char:
  assumes inv: "cursor_inv l" and rest: "lx_rest l = escape_char c @ r"
  shows "\<exists>l'. lexer_skip_string_body l = lexer_skip_string_body l' \<and> cursor_inv l' \<and> lx_rest l' = r \<and>
           lx_position l' = lx_position l + length (escape_char c)"
proof (cases "c = DQUOTE \<or> c = BACKSLASH \<or> c = NUL")
  case False
  then have r: "lx_rest l = c # r" and len: "length (escape_char c) = 1" using rest by (auto simp: escape_char_def)
  show ?thesis
    using skip_string_plain [OF inv r] False lx_rest_read_char [OF inv] lx_position_read_char [OF inv]
      cursor_inv_read_char [OF inv] r len
    by (intro exI [of _ "lexer_read_char l"]) simp
next
  case True
  let ?h = "hex_char (char_code c div 16)" and ?o = "hex_char (char_code c mod 16)"
  have r: "lx_rest l = BACKSLASH # CHR ''x'' # ?h # ?o # r" and len: "length (escape_char c) = 4"
    using rest True by (auto simp: escape_char_def)
  have "char_code c div 16 < 16" using char_code_less [of c] by linarith
  then have ho: "?h \<noteq> DQUOTE \<and> ?h \<noteq> BACKSLASH \<and> ?o \<noteq> DQUOTE \<and> ?o \<noteq> BACKSLASH"
    using hex_char_plain [of "char_code c div 16"] hex_char_plain [of "char_code c mod 16"] by simp
  define l1 where "l1 = lexer_read_char l"
  define l2 where "l2 = lexer_read_char l1"
  define l3 where "l3 = lexer_read_char l2"
  define l4 where "l4 = lexer_read_char l3"
  have i: "cursor_inv l1" "cursor_inv l2" "cursor_inv l3" "cursor_inv l4"
    unfolding l1_def l2_def l3_def l4_def using inv by (simp_all add: cursor_inv_read_char)
  have rs: "lx_rest l2 = ?h # ?o # r" "lx_rest l3 = ?o # r" "lx_rest l4 = r"
    unfolding l1_def l2_def l3_def l4_def using inv i r
    by (simp_all add: lx_rest_read_char cursor_inv_read_char)
  have "lexer_skip_string_body l = lexer_skip_string_body l2"
    unfolding l1_def l2_def using skip_string_escape [OF inv r] .
  also have "\<dots> = lexer_skip_string_body l3"
    unfolding l3_def using skip_string_plain [OF i(2) rs(1)] ho by simp
  also have "\<dots> = lexer_skip_string_body l4"
    unfolding l4_def using skip_string_plain [OF i(3) rs(2)] ho by simp
  finally have "lexer_skip_string_body l = lexer_skip_string_body l4" .
  moreover have "lx_position l4 = lx_position l + 4"
    unfolding l1_def l2_def l3_def l4_def using inv by (simp add: lx_position_read_char cursor_inv_read_char)
  ultimately show ?thesis using i rs len by auto
qed

lemma skip_string_escape_string:
  "cursor_inv l \<Longrightarrow> lx_rest l = escape_string s @ DQUOTE # r \<Longrightarrow>
     cursor_inv (lexer_skip_string_body l) \<and> lx_rest (lexer_skip_string_body l) = DQUOTE # r \<and>
     lx_position (lexer_skip_string_body l) = lx_position l + length (escape_string s)"
proof (induction s arbitrary: l)
  case Nil
  then have "lx_ch l = DQUOTE" using lx_rest_ch by simp
  with Nil show ?case by (simp add: lexer_skip_string_body.simps)
next
  case (Cons c s)
  then obtain l' where "lexer_skip_string_body l = lexer_skip_string_body l'" "cursor_inv l'"
    "lx_rest l' = escape_string s @ DQUOTE # r" "lx_position l' = lx_position l + length (escape_char c)"
    using skip_string_escape_char [of l c "escape_string s @ DQUOTE # r"] by auto
  with Cons.IH [of l'] show ?case by simp
qed

lemma lexer_read_string_escape:
  assumes inv: "cursor_inv l" and rest: "lx_rest l = DQUOTE # escape_string s @ DQUOTE # r"
  shows "\<exists>l'. lexer_read_string l = (Some s, l') \<and> cursor_inv l' \<and> lx_rest l' = r"
proof -
  define l1 where "l1 = lexer_read_char l"
  have l1: "cursor_inv l1" "lx_rest l1 = escape_string s @ DQUOTE # r"
    unfolding l1_def using inv rest by (simp_all add: cursor_inv_read_char lx_rest_read_char)
  define l2 where "l2 = lexer_skip_string_body l1"
  have l2: "cursor_inv l2" "lx_rest l2 = DQUOTE # r" "lx_position l2 = lx_position l1 + length (escape_string s)"
    unfolding l2_def using skip_string_escape_string [OF l1] by auto
  have "lx_slice l1 (lx_position l1) (lx_position l2) = escape_string s"
    using l1(2) l2(3) by (simp add: lx_slice_def lx_rest_def)
  moreover have "lx_ch l2 = DQUOTE" using lx_rest_ch [OF l2(1)] l2(2) by simp
  ultimately have "lexer_read_string l = (Some s, lexer_read_char l2)"
    unfolding lexer_read_string_def Let_def l1_def [symmetric] l2_def [symmetric]
    by (simp add: decode_escape_string)
  then show ?thesis using l2 by (auto simp: cursor_inv_read_char lx_rest_read_char)
qed

section \<open>Numbers and runes\<close>

lemma digit_switch:
  assumes "lexer_is_digit (lx_ch l)"
  shows "lexer_switch p l = lex_word p l" and "\<not> lexer_is_letter (lx_ch l)"
proof -
  have not: "lx_ch l \<noteq> c" if "\<not> lexer_is_digit c" for c using assms that by auto
  show "lexer_switch p l = lex_word p l"
    unfolding lexer_switch_def Let_def by (simp add: not lexer_is_digit_def char_code_def)
  have "lx_ch l \<noteq> CHR ''_''" by (rule not) (simp add: lexer_is_digit_def char_code_def)
  then show "\<not> lexer_is_letter (lx_ch l)"
    using assms by (simp add: lexer_is_digit_def lexer_is_letter_def)
qed

lemma base_letter_not_digit: "is_base_letter c \<Longrightarrow> \<not> lexer_is_digit c"
  by (auto simp: is_base_letter_def lexer_is_digit_def char_code_def)

lemma lexer_read_number_digits:
  assumes inv: "cursor_inv l" and rest: "lx_rest l = ds" and ds: "ds \<noteq> []" "list_all lexer_is_digit ds"
  shows "\<exists>l'. lexer_read_number l = (ds, False, l') \<and> cursor_inv l' \<and> lx_rest l' = []"
proof -
  have "\<not> is_base_letter (lexer_peek_char l)"
  proof (cases "\<exists>a b r. ds = a # b # r")
    case True
    then show ?thesis
      using lx_rest_peek [OF inv] rest ds base_letter_not_digit by (auto simp: list_all_iff)
  next
    case False
    then have "lexer_peek_char l = NUL"
      using lx_rest_peek [OF inv] rest by (auto split: list.splits)
    then show ?thesis by (simp add: is_base_letter_def)
  qed
  then have int: "lexer_read_int_part l = lexer_read_while lexer_is_digit l"
    by (simp add: lexer_read_int_part_def)
  let ?m = "lexer_read_while lexer_is_digit l"
  have all: "takeWhile lexer_is_digit ds = ds" "dropWhile lexer_is_digit ds = []"
    using ds(2) takeWhile_word [of lexer_is_digit ds "[]"] by auto
  note m = lexer_read_while_spec [OF inv, of lexer_is_digit]
  have "lx_ch ?m = NUL" using lx_rest_ch [OF m(3)] m(1) all rest by simp
  then have "lexer_read_number l = (ds, False, ?m)"
    using int all rest lx_slice_takeWhile [of l lexer_is_digit] m(2)
    by (simp add: lexer_read_number_def Let_def lexer_read_fraction_def lexer_read_exponent_def)
  then show ?thesis using m all rest by simp
qed

lemma hex_digit_value_less: "hex_digit_value c = Some d \<Longrightarrow> d < 16"
  by (auto simp: hex_digit_value_def split: if_splits)

lemma hex_value_less: "hex_value v cs = Some r \<Longrightarrow> r < (v + 1) * 16 ^ length cs"
proof (induction v cs arbitrary: r rule: hex_value.induct)
  case (2 v c cs)
  then obtain d where d: "hex_digit_value c = Some d" "hex_value (v * 16 + d) cs = Some r"
    by (auto split: option.splits)
  then have "r < (v * 16 + d + 1) * 16 ^ length cs" using "2.IH" by simp
  also have "\<dots> \<le> ((v + 1) * 16) * 16 ^ length cs"
    using hex_digit_value_less [OF d(1)] by (intro mult_right_mono) auto
  finally show ?case by (simp add: algebra_simps)
qed simp

section \<open>Automatic semicolons\<close>

text \<open>
  The rule in one place: after a jump keyword a newline always ends the statement; after a
  value it does, unless the next line continues it, which inside a struct, interface or
  \<open>var\<close> group it never does.
\<close>

definition else_next :: "string \<Rightarrow> bool" where
  "else_next s \<longleftrightarrow> take 4 s = ''else'' \<and> (length s \<le> 4 \<or> \<not> ident_char (s ! 4))"

definition continues_line :: "string \<Rightarrow> bool" where
  "continues_line s \<longleftrightarrow>
     (s \<noteq> [] \<and> hd s \<in> {CHR '')'', CHR ''}''}) \<or> take 2 s = ''..'' \<or> else_next s"

definition asi_spec :: "token_type \<Rightarrow> bool \<Rightarrow> string \<Rightarrow> bool" where
  "asi_spec prev scoped s \<longleftrightarrow>
     prev \<in> {TOKEN_RETURN, TOKEN_BREAK, TOKEN_CONTINUE, TOKEN_FALLTHROUGH} \<or>
     token_ends_value prev \<and> (scoped \<or> \<not> continues_line s)"

lemma nth_lx_rest: "lx_position l + k < length (lx_input l) \<Longrightarrow> lx_rest l ! k = lx_input l ! (lx_position l + k)"
  by (simp add: lx_rest_def)

lemma take_4_conv: "take 4 s = [a, b, c, d] \<longleftrightarrow> 3 < length s \<and> s ! 0 = a \<and> s ! 1 = b \<and> s ! 2 = c \<and> s ! 3 = d"
  by (cases s; cases "tl s"; cases "tl (tl s)"; cases "tl (tl (tl s))") (auto simp: numeral_eq_Suc)

lemma lexer_line_starts_with_else_spec:
  assumes "cursor_inv l"
  shows "lexer_line_starts_with_else l = else_next (lx_rest l)"
proof -
  have len: "length (lx_rest l) = length (lx_input l) - lx_position l" by (simp add: lx_rest_def)
  have ch: "3 < length (lx_rest l) \<Longrightarrow> lx_ch l = lx_rest l ! 0"
    using lx_rest_ch [OF assms] by (cases "lx_rest l") auto
  have rd: "lx_read_position l = lx_position l + 1" "lx_input_length l = length (lx_input l)"
    using assms by (auto simp: cursor_inv_def)
  have nth: "lx_input l ! (lx_position l + k) = lx_rest l ! k" if "k < length (lx_rest l)" for k
    using that len nth_lx_rest [of l k] by simp
  show ?thesis
  proof (cases "3 < length (lx_rest l)")
    case True
    have at: "lx_input l ! (lx_position l + 1) = lx_rest l ! 1"
      "lx_input l ! (lx_position l + 1 + 1) = lx_rest l ! 2"
      "lx_input l ! (lx_position l + 1 + 2) = lx_rest l ! 3"
      using True nth [of 1] nth [of 2] nth [of 3] by (simp_all add: numeral_eq_Suc)
    have at4: "lx_position l + 1 + 3 < length (lx_input l) \<Longrightarrow>
        lx_input l ! (lx_position l + 1 + 3) = lx_rest l ! 4"
      "(lx_position l + 1 + 3 < length (lx_input l)) = (\<not> length (lx_rest l) \<le> 4)"
      "(length (lx_input l) \<le> lx_position l + 1 + 2) = False"
      using nth [of 4] len True by (auto simp: numeral_eq_Suc)
    show ?thesis
      unfolding lexer_line_starts_with_else_def else_next_def Let_def rd at at4(3) ch [OF True] take_4_conv
      using True at4 by (auto simp: ident_char_def)
  next
    case False
    with len rd show ?thesis
      by (auto simp: lexer_line_starts_with_else_def else_next_def Let_def take_4_conv)
  qed
qed

lemma lexer_skip_whitespace_newline: "lx_ch l = NEWLINE \<Longrightarrow> lexer_skip_whitespace l = l"
  by (simp add: lexer_skip_whitespace_def lexer_read_while.simps)

definition after_newline :: "lexer \<Rightarrow> lexer" where
  "after_newline l = lexer_read_while (\<lambda>c. c = CHR '' '' \<or> c = TAB \<or> c = CRET) (lexer_read_char l)"

lemma after_newline_spec:
  assumes "cursor_inv l"
  shows "cursor_inv (after_newline l)"
    and "lx_rest (after_newline l) = dropWhile (\<lambda>c. c = CHR '' '' \<or> c = TAB \<or> c = CRET) (tl (lx_rest l))"
    and "lx_prev_token_type (after_newline l) = lx_prev_token_type l"
    and "lexer_asi_scoped (after_newline l) = lexer_asi_scoped l"
proof -
  have r: "lx_reads l (after_newline l)" unfolding after_newline_def by (rule reads_char) simp
  show "lx_prev_token_type (after_newline l) = lx_prev_token_type l"
    and "lexer_asi_scoped (after_newline l) = lexer_asi_scoped l"
    using lx_reads_frame [OF r] by (simp_all add: lexer_asi_scoped_def)
  show "cursor_inv (after_newline l)"
    and "lx_rest (after_newline l) = dropWhile (\<lambda>c. c = CHR '' '' \<or> c = TAB \<or> c = CRET) (tl (lx_rest l))"
    unfolding after_newline_def
    using lexer_read_while_spec [OF cursor_inv_read_char [OF assms]] lx_rest_read_char [OF assms] by simp_all
qed

lemma take_2_conv: "take 2 s = [a, b] \<longleftrightarrow> (\<exists>r. s = a # b # r)"
  by (cases s; cases "tl s") (auto simp: numeral_eq_Suc)

lemma dots_spec:
  assumes "cursor_inv l"
  shows "(lx_ch l = CHR ''.'' \<and> lexer_peek_char l = CHR ''.'') = (take 2 (lx_rest l) = ''..'')"
  unfolding take_2_conv lx_rest_ch [OF assms] lx_rest_peek [OF assms]
  by (auto split: list.splits)

lemma lex_newline_spec:
  assumes "cursor_inv l"
  shows "lex_newline p l =
     (if asi_spec (lx_prev_token_type l) (lexer_asi_scoped l) (lx_rest (after_newline l))
      then lexer_asi_return p (after_newline l) else Continue (after_newline l))"
proof -
  let ?m = "after_newline l"
  note m = after_newline_spec [OF assms]
  have "lx_ch ?m \<noteq> CHR '')'' \<and> lx_ch ?m \<noteq> CHR ''}'' \<longleftrightarrow>
        \<not> (lx_rest ?m \<noteq> [] \<and> hd (lx_rest ?m) \<in> {CHR '')'', CHR ''}''})"
    using lx_rest_ch [OF m(1)] by (cases "lx_rest ?m") auto
  then have "\<not> continues_line (lx_rest ?m) \<longleftrightarrow>
      lx_ch ?m \<noteq> CHR '')'' \<and> lx_ch ?m \<noteq> CHR ''}'' \<and>
      \<not> (lx_ch ?m = CHR ''.'' \<and> lexer_peek_char ?m = CHR ''.'') \<and> \<not> lexer_line_starts_with_else ?m"
    unfolding continues_line_def dots_spec [OF m(1)] lexer_line_starts_with_else_spec [OF m(1)] by blast
  then show ?thesis
    unfolding lex_newline_def Let_def after_newline_def [symmetric] m(3,4) asi_spec_def by auto
qed


section \<open>Properties\<close>

text \<open>Every call of \<open>lexer_next_token\<close> on a well-formed scanner leaves it well formed
  (cursor, position record and bracket stack in bounds), keeps the source text, and either
  reports the end of input or moves the cursor strictly forward.\<close>

theorem lexer_next_token_progress:
  assumes "lexer_inv l" and "lexer_next_token l = (t, l')"
  shows "lexer_inv l' \<and> lx_input l' = lx_input l \<and>
         (tok_type t = TOKEN_EOF \<or> lx_position l < lx_position l')"
  using lexer_next_token_contract [OF assms] by force

theorem lexer_next_token_progress_witness:
  "lexer_inv (snd (lexer_next_token (lexer_new ''x + 1'' None)))"
  using lexer_next_token_progress [OF lexer_inv_new prod.collapse [symmetric], of "''x + 1''" None] by blast

text \<open>After lexing a whole text, the global error counter is the number of error and
  unknown tokens the stream contains, so the gate on it sees every malformed token.\<close>

theorem lexer_error_count_exact:
  "lx_error_count (snd (lexer_tokens (lexer_new src fname))) =
     length (filter (\<lambda>t. tok_type t = TOKEN_ERROR \<or> tok_type t = TOKEN_UNKNOWN)
              (fst (lexer_tokens (lexer_new src fname))))"
proof -
  have "lx_error_count (lexer_new src fname) = 0" by (simp add: lexer_new_def)
  then show ?thesis
    using lexer_tokens_error_count [of "lexer_new src fname"] by (simp add: is_lex_error_def [abs_def])
qed

text \<open>Words separated by spaces scan back to themselves: one token per word, in order, an
  identifier or the keyword the table gives, with the word as its text.\<close>

theorem lexer_words_roundtrip:
  assumes "list_all is_word ws"
  shows "map token_view (fst (lexer_tokens (lexer_new (unwords ws) fname))) =
         map (\<lambda>w. (word_type w, Some w)) ws @ [(TOKEN_EOF, None)]"
proof (cases ws)
  case Nil
  then show ?thesis by (simp add: lexer_tokens_EOF cursor_inv_new lx_rest_new c_string_def)
next
  case (Cons w vs)
  have nul: "NUL \<notin> set v" if "is_word v" for v
    using that by (auto simp: is_word_def list_all_iff ident_char_def lexer_is_letter_def
        lexer_is_digit_def char_code_def)
  have "NUL \<notin> set (unwords ws)"
    using assms Cons nul by (auto simp: spaced_def list_all_iff)
  then have rest: "lx_rest (lexer_new (unwords ws) fname) = replicate 0 (CHR '' '') @ w @ spaced vs"
    using Cons by (simp add: lx_rest_new)
  have w: "is_word w" "list_all is_word vs" using assms Cons by auto
  obtain l' where "cursor_inv l'" "lx_rest l' = spaced vs"
    "map token_view (fst (lexer_tokens (lexer_new (unwords ws) fname))) =
       (word_type w, Some w) # map token_view (fst (lexer_tokens l'))"
    using lexer_tokens_word [OF cursor_inv_new w(1) rest spaced_hd] by blast
  then show ?thesis using lexer_tokens_spaced [of l' vs] w Cons by simp
qed

theorem lexer_words_roundtrip_witness:
  "map token_view (fst (lexer_tokens (lexer_new ''return x1'' None))) =
     [(TOKEN_RETURN, Some ''return''), (TOKEN_IDENT, Some ''x1''), (TOKEN_EOF, None)]"
  using lexer_words_roundtrip [of "[''return'', ''x1'']" None]
  by (simp add: is_word_def ident_char_def lexer_is_letter_def lexer_is_digit_def char_code_def
      spaced_def word_type_def token_is_keyword_def token_keyword_type_def keyword_search_map_of
      keyword_table_def)

text \<open>C30. Every byte string has a string literal that scans back to exactly that string: quotes,
  backslashes and NUL bytes go through hexadecimal escapes.\<close>

theorem lexer_string_roundtrip:
  "map token_view (fst (lexer_tokens (lexer_new (DQUOTE # escape_string s @ [DQUOTE]) fname))) =
     [(TOKEN_STRING, Some s), (TOKEN_EOF, None)]"
proof -
  let ?l = "lexer_new (DQUOTE # escape_string s @ [DQUOTE]) fname"
  have "NUL \<notin> set (escape_char c)" for c
  proof -
    have "char_code c div 16 < 16" using char_code_less [of c] by linarith
    then have "hex_char (char_code c div 16) \<noteq> NUL" "hex_char (char_code c mod 16) \<noteq> NUL"
      using hex_char_plain by auto
    then show ?thesis by (auto simp: escape_char_def)
  qed
  then have "NUL \<notin> set (DQUOTE # escape_string s @ [DQUOTE])" by (auto simp: escape_string_def)
  then have rest: "lx_rest ?l = DQUOTE # escape_string s @ DQUOTE # []" by (simp add: lx_rest_new)
  then have ch: "lx_ch ?l = DQUOTE" using lx_rest_ch [OF cursor_inv_new] by simp
  obtain l' where l': "lexer_read_string ?l = (Some s, l')" "cursor_inv l'" "lx_rest l' = []"
    using lexer_read_string_escape [OF cursor_inv_new rest] by blast
  let ?t = "token_new TOKEN_STRING (Some s) (length s) (lx_pos ?l)"
  have "lexer_skip_whitespace ?l = ?l"
    using ch by (simp add: lexer_skip_whitespace_def lexer_read_while.simps lexer_is_whitespace_def)
  then have step: "lexer_step ?l = Emit ?t l'"
    using ch l'(1) by (simp add: lexer_step_def lexer_switch_def Let_def lex_string_def)
  have "map token_view (fst (lexer_tokens (lexer_finish ?t l'))) = [(TOKEN_EOF, None)]"
    using l' by (intro lexer_tokens_EOF) simp_all
  then show ?thesis
    using lexer_tokens_Emit [OF step] by (simp add: token_view_def)
qed

text \<open>Decoding a string body never needs more bytes than the body has, so the buffer of
  \<open>raw_len + 1\<close> bytes that \<open>lexer_read_string\<close> allocates also holds the terminator.\<close>

theorem decode_fits_buffer:
  "decode_string_body raw = Some out \<Longrightarrow> length out + 1 \<le> length raw + 1"
  using decode_string_body_length by simp

theorem decode_fits_buffer_witness:
  "decode_string_body [CHR ''a'', BACKSLASH, CHR ''x'', CHR ''4'', CHR ''1''] = Some ''aA'' \<and>
   length ''aA'' + 1 \<le> length [CHR ''a'', BACKSLASH, CHR ''x'', CHR ''4'', CHR ''1''] + 1"
proof -
  have "char_of (65 :: nat) = CHR ''A''" using char_of_char [where ?'a = nat, of "CHR ''A''"] by simp
  then have e: "decode_string_body [CHR ''a'', BACKSLASH, CHR ''x'', CHR ''4'', CHR ''1''] = Some ''aA''"
    by (simp add: hex_digit_value_def char_code_def)
  with decode_fits_buffer [OF e] show ?thesis by simp
qed

text \<open>A decoded character literal is below \<open>2^32\<close>, and its decimal text has at most ten
  digits: it fits the 16-byte buffer \<open>int_str\<close> with its terminator.\<close>

lemma rune_value_fits:
  assumes "lexer_decode_char_value body = Some v"
  shows "v < 2 ^ 32 \<and> length (nat_to_dec v) + 1 \<le> 16"
proof -
  have hex: "w < 2 ^ 32" if "hex_value 0 (drop 2 body) = Some w" and "length (drop 2 body) \<le> 8" for w
  proof -
    have "w < 16 ^ length (drop 2 body)" using hex_value_less [OF that(1)] by simp
    also have "\<dots> \<le> (16 :: nat) ^ 8" using that(2) by (intro power_increasing) auto
    finally show ?thesis by simp
  qed
  have byte: "char_code c < 2 ^ 32" for c
    by (rule less_trans [OF char_code_less]) simp
  have "v < 2 ^ 32"
    using assms hex byte
    by (auto simp: lexer_decode_char_value_def Let_def split: list.splits if_splits)
  moreover from this have "length (nat_to_dec v) \<le> 10"
    by (intro nat_to_dec_bound) simp_all
  ultimately show ?thesis by simp
qed

text \<open>The text of an unterminated string literal is reported one character short: the
  length passed with the message is 18, the message has 19 characters.\<close>

lemma unterminated_string_message:
  "map token_view (fst (lexer_tokens (lexer_new [DQUOTE, CHR ''a''] None))) =
     [(TOKEN_ERROR, Some ''unterminated strin''), (TOKEN_EOF, None)]"
  by code_simp

text \<open>A literal with a base prefix is not always an integer: the scanner goes on to look for
  a fraction and an exponent after the digits of the base, so \<open>0b1e5\<close> is a float token.\<close>

lemma prefixed_literal_float:
  "map token_view (fst (lexer_tokens (lexer_new ''0b1e5'' None))) =
     [(TOKEN_FLOAT, Some ''0b1e5''), (TOKEN_EOF, None)]"
  by code_simp

text \<open>Decimal digit strings scan to one integer token with the same digits.\<close>

lemma lexer_digits_roundtrip:
  assumes "ds \<noteq> []" and "list_all lexer_is_digit ds"
  shows "map token_view (fst (lexer_tokens (lexer_new ds fname))) = [(TOKEN_INT, Some ds), (TOKEN_EOF, None)]"
proof -
  let ?l = "lexer_new ds fname"
  have "\<not> lexer_is_digit NUL" by (simp add: lexer_is_digit_def char_code_def)
  then have "NUL \<notin> set ds" using assms(2) by (auto simp: list_all_iff)
  then have rest: "lx_rest ?l = ds" by (simp add: lx_rest_new)
  have digit: "lexer_is_digit (lx_ch ?l)"
    using lx_rest_ch [OF cursor_inv_new, of ds fname] rest assms by (cases ds) auto
  obtain l' where l': "lexer_read_number ?l = (ds, False, l')" "cursor_inv l'" "lx_rest l' = []"
    using lexer_read_number_digits [OF cursor_inv_new rest assms] by blast
  let ?t = "token_new TOKEN_INT (Some ds) (length ds) (lx_pos ?l)"
  have "\<not> lexer_is_whitespace (lx_ch ?l)"
    using digit by (auto simp: lexer_is_whitespace_def lexer_is_digit_def char_code_def)
  then have "lexer_skip_whitespace ?l = ?l"
    by (simp add: lexer_skip_whitespace_def lexer_read_while.simps)
  then have step: "lexer_step ?l = Emit ?t l'"
    using digit digit_switch [OF digit] l'(1) by (simp add: lexer_step_def Let_def lex_word_def)
  have "map token_view (fst (lexer_tokens (lexer_finish ?t l'))) = [(TOKEN_EOF, None)]"
    using l' by (intro lexer_tokens_EOF) simp_all
  then show ?thesis
    using lexer_tokens_Emit [OF step] by (simp add: token_view_def)
qed

end
