(* ===== verification/Lexer_Layout.thy ===== *)
theory Lexer_Layout
  imports Lexer_Props
begin

text \<open>
  Where tokens stand. The source text is a sequence of layout and token texts: blanks, newlines and
  comments between the tokens, and behind every token that the scanner returns the very characters
  it was read from. And where semicolons come from: the rule at a newline, with the groups that are
  open read off the tokens returned so far.
\<close>

section \<open>Layout\<close>

abbreviation blank :: "char \<Rightarrow> bool" where
  "blank c \<equiv> c = CHR '' '' \<or> c = TAB \<or> c = CRET"

text \<open>\<open>layout f s\<close>: the text \<open>s\<close> in front of \<open>f\<close> consists of blanks, newlines and whole comments.\<close>

inductive layout :: "string \<Rightarrow> string \<Rightarrow> bool" for f where
  layout_none: "layout f []"
| layout_blank: "layout f s \<Longrightarrow> blank c \<or> c = NEWLINE \<Longrightarrow> layout f (c # s)"
| layout_line: "layout f s \<Longrightarrow> NEWLINE \<notin> set b \<Longrightarrow> s @ f = [] \<or> hd (s @ f) = NEWLINE \<Longrightarrow> layout f (''//'' @ b @ s)"
| layout_block: "layout f s \<Longrightarrow> (\<And>u v. b @ ''*'' \<noteq> u @ ''*/'' @ v) \<Longrightarrow> layout f (''/*'' @ b @ ''*/'' @ s)"
| layout_open: "f = [] \<Longrightarrow> (\<And>u v. b \<noteq> u @ ''*/'' @ v) \<Longrightarrow> layout f (''/*'' @ b)"

text \<open>
  The text of a token: itself for words, numbers and operators; a string between its quotes; a
  character literal for an integer; a newline with the blanks after it for an inserted semicolon.
\<close>

definition lexeme_of :: "token \<Rightarrow> string \<Rightarrow> bool" where
  "lexeme_of t w \<longleftrightarrow> w \<noteq> [] \<and>
     (if tok_type t = TOKEN_STRING then
        2 \<le> length w \<and> last w = hd w \<and>
        (hd w = DQUOTE \<or> hd w = BACKTICK \<and> tok_literal t = Some (filter (\<lambda>c. c \<noteq> CRET) (butlast (tl w))))
      else if tok_type t = TOKEN_ERROR then hd w \<in> {DQUOTE, BACKTICK, SQUOTE} \<or> tok_literal t = Some w
      else if tok_type t = TOKEN_INT then
        hd w = SQUOTE \<and> last w = SQUOTE \<or> lexer_is_digit (hd w) \<and> tok_literal t = Some w
      else if tok_type t = TOKEN_SEMICOLON then w = '';'' \<or> hd w = NEWLINE \<and> (\<forall>c \<in> set (tl w). blank c)
      else tok_literal t = Some w)"

definition consumed :: "lexer \<Rightarrow> lexer \<Rightarrow> string" where
  "consumed l l' = lx_slice l (lx_position l) (lx_position l')"

lemma lx_rest_consumed: "cursor_inv l \<Longrightarrow> lx_reads l l' \<Longrightarrow> lx_rest l = consumed l l' @ lx_rest l'"
  using lx_reads_cursor [of l l'] lx_reads_frame [of l l']
  by (simp add: consumed_def lx_slice_def lx_rest_def append_take_drop_id [symmetric] drop_drop
      del: append_take_drop_id) (metis append_take_drop_id drop_drop le_add_diff_inverse2)

lemma consumed_eq: "cursor_inv l \<Longrightarrow> lx_reads l l' \<Longrightarrow> lx_rest l = w @ lx_rest l' \<Longrightarrow> consumed l l' = w"
  using lx_rest_consumed by fastforce

lemma lx_rest_cases:
  assumes "cursor_inv l" "lx_ch l \<noteq> NUL"
  obtains cs where "lx_rest l = lx_ch l # cs"
  using lx_rest_ch [OF assms(1)] assms(2) by (cases "lx_rest l") auto

lemma lx_rest_cases2:
  assumes "cursor_inv l" "lx_ch l \<noteq> NUL" "lexer_peek_char l \<noteq> NUL"
  obtains cs where "lx_rest l = lx_ch l # lexer_peek_char l # cs"
  using lx_rest_ch [OF assms(1)] lx_rest_peek [OF assms(1)] assms(2,3)
  by (cases "lx_rest l"; cases "tl (lx_rest l)") auto

lemma consumed1:
  assumes "cursor_inv l" "lx_ch l \<noteq> NUL"
  shows "consumed l (lexer_read_char l) = [lx_ch l]"
  using assms by (rule lx_rest_cases) (simp add: consumed_eq lx_rest_read_char assms)

lemma consumed2:
  assumes "cursor_inv l" "lx_ch l \<noteq> NUL" "lexer_peek_char l \<noteq> NUL"
  shows "consumed l (lexer_read_char (lexer_read_char l)) = [lx_ch l, lexer_peek_char l]"
  using assms by (rule lx_rest_cases2)
    (simp add: consumed_eq lx_reads_snoc lx_rest_read_char cursor_inv_read_char assms)

lemma consumed3:
  assumes "cursor_inv l" "lx_ch l \<noteq> NUL" "lexer_peek_char l \<noteq> NUL" "lexer_peek_char (lexer_read_char l) \<noteq> NUL"
  shows "consumed l (lexer_read_char (lexer_read_char (lexer_read_char l))) =
    [lx_ch l, lexer_peek_char l, lexer_peek_char (lexer_read_char l)]"
proof -
  note i1 = cursor_inv_read_char [OF assms(1)] and i2 = cursor_inv_read_char [OF cursor_inv_read_char [OF assms(1)]]
  obtain cs where r: "lx_rest l = lx_ch l # lexer_peek_char l # cs" using assms(1,2,3) by (rule lx_rest_cases2)
  then have r1: "lx_rest (lexer_read_char l) = lexer_peek_char l # cs" by (simp add: lx_rest_read_char assms(1))
  obtain ds where "cs = lexer_peek_char (lexer_read_char l) # ds"
    using lx_rest_peek [OF i1] r1 assms(4) by (cases cs) auto
  then show ?thesis using r r1 assms(1) i1 i2
    by (intro consumed_eq) (auto intro: lx_reads_snoc simp: lx_rest_read_char)
qed

section \<open>The text of one step\<close>

definition step_text :: "lexer \<Rightarrow> lex_step \<Rightarrow> bool" where
  "step_text l s =
     (case s of
        Emit t l' \<Rightarrow> lexeme_of t (consumed l l')
      | Continue l' \<Rightarrow> (\<forall>f g. layout f g \<longrightarrow> g @ f = lx_rest l' \<longrightarrow> layout f (consumed l l' @ g))
      | Return t l' \<Rightarrow> lexeme_of t (consumed l l'))"

lemma consumed_cong: "lx_cursor m = lx_cursor m' \<Longrightarrow> consumed l m = consumed l m'"
  by (simp add: lx_cursor_def consumed_def)

lemma step_text1:
  assumes "cursor_inv l" "lx_ch l = c" "c \<noteq> NUL" "ty \<notin> {TOKEN_STRING, TOKEN_INT}" "ty = TOKEN_SEMICOLON \<Longrightarrow> c = CHR '';''"
  shows "step_text l (emit1 ty [c] p l)"
  using assms by (auto simp: step_text_def lexeme_of_def consumed1)

lemma step_text2:
  assumes "cursor_inv l" "lx_ch l = c" "c \<noteq> NUL" "lexer_peek_char l = d" "d \<noteq> NUL" "ty \<notin> {TOKEN_STRING, TOKEN_INT, TOKEN_SEMICOLON}"
  shows "step_text l (emit2 ty [c, d] p l)"
  using assms by (auto simp: step_text_def lexeme_of_def consumed2)

lemma step_text3:
  assumes "cursor_inv l" "lx_ch l = c" "c \<noteq> NUL" "lexer_peek_char l = d" "d \<noteq> NUL"
    "lexer_peek_char (lexer_read_char l) = e" "e \<noteq> NUL" "ty \<notin> {TOKEN_STRING, TOKEN_INT, TOKEN_SEMICOLON}"
  shows "step_text l (emit3 ty [c, d, e] p l)"
  using assms by (auto simp: step_text_def lexeme_of_def consumed3)

lemmas step_texts = step_text1 step_text2 step_text3

lemma step_text_bracket:
  assumes "cursor_inv l" "lx_ch l = c" "c \<noteq> NUL" "ty \<notin> {TOKEN_STRING, TOKEN_INT, TOKEN_SEMICOLON}"
  shows "step_text l (emit1 ty [c] p (lexer_asi_push b l))" "step_text l (emit1 ty [c] p (lexer_asi_pop l))"
proof -
  have "consumed l (lexer_read_char (lexer_asi_push b l)) = consumed l (lexer_read_char l)"
    "consumed l (lexer_read_char (lexer_asi_pop l)) = consumed l (lexer_read_char l)"
    by (rule consumed_cong, rule lx_cursor_read_char_cong, simp)+
  then show "step_text l (emit1 ty [c] p (lexer_asi_push b l))" "step_text l (emit1 ty [c] p (lexer_asi_pop l))"
    using assms by (auto simp: step_text_def lexeme_of_def consumed1)
qed

lemma lex_bracket_text:
  assumes "cursor_inv l" "lx_ch l \<in> set ''(){}''"
  shows "step_text l (lex_bracket p l)"
  using assms by (auto simp: lex_bracket_def simp del: One_nat_def intro!: step_text_bracket)

lemma lex_punct_text:
  assumes "cursor_inv l" "lx_ch l \<in> set ''[];,:~?@''"
  shows "step_text l (lex_punct p l)"
  using assms by (auto simp: lex_punct_def Let_def simp del: One_nat_def intro!: step_texts)

lemma lex_arith_text:
  assumes "cursor_inv l" "lx_ch l \<in> set ''+-*%''"
  shows "step_text l (lex_arith p l)"
  using assms by (auto simp: lex_arith_def Let_def simp del: One_nat_def intro!: step_texts)

lemma lex_compare_text:
  assumes "cursor_inv l" "lx_ch l \<in> set ''=!<>''"
  shows "step_text l (lex_compare p l)"
  using assms by (auto simp: lex_compare_def Let_def simp del: One_nat_def intro!: step_texts)

lemma lex_bits_text:
  assumes "cursor_inv l" "lx_ch l \<in> set ''&|^.''"
  shows "step_text l (lex_bits p l)"
  using assms by (auto simp: lex_bits_def Let_def simp del: One_nat_def intro!: step_texts)

text \<open>Comments and newlines.\<close>

lemma lexer_skip_block_comment_spec:
  "cursor_inv l \<Longrightarrow> cursor_inv (lexer_skip_block_comment l) \<and>
     (\<exists>b. (\<forall>u v. b @ ''*'' \<noteq> u @ ''*/'' @ v) \<and>
        (lx_rest l = b @ ''*/'' @ lx_rest (lexer_skip_block_comment l)
         \<or> lx_rest l = b \<and> lx_rest (lexer_skip_block_comment l) = []))"
proof (induction l rule: lexer_skip_block_comment.induct)
  case (1 l)
  note inv = "1.prems"
  show ?case
  proof (cases "lx_ch l = NUL")
    case True
    then have "lx_rest l = []" using lx_rest_ch [OF inv] lx_rest_NUL_free [OF inv] by (cases "lx_rest l") auto
    with True inv show ?thesis by (subst (1 3) lexer_skip_block_comment.simps) simp
  next
    case False
    then obtain cs where r: "lx_rest l = lx_ch l # cs" by (rule lx_rest_cases [OF inv])
    show ?thesis
    proof (cases "lx_ch l = CHR ''*'' \<and> lexer_peek_char l = CHR ''/''")
      case True
      then obtain ds where "lx_rest l = CHR ''*'' # CHR ''/'' # ds" using lx_rest_cases2 [OF inv] by fastforce
      moreover have "lexer_skip_block_comment l = lexer_read_char (lexer_read_char l)"
        using True by (subst lexer_skip_block_comment.simps) simp
      ultimately show ?thesis using inv by (auto simp: lx_rest_read_char cursor_inv_read_char intro!: exI [of _ "[]"])
    next
      case no: False
      let ?l = "lexer_read_char l"
      have eq: "lexer_skip_block_comment l = lexer_skip_block_comment ?l"
        using False no by (subst lexer_skip_block_comment.simps) auto
      obtain b where b: "\<forall>u v. b @ ''*'' \<noteq> u @ ''*/'' @ v"
        "lx_rest ?l = b @ ''*/'' @ lx_rest (lexer_skip_block_comment ?l) \<or> lx_rest ?l = b \<and> lx_rest (lexer_skip_block_comment ?l) = []"
        "cursor_inv (lexer_skip_block_comment ?l)"
        using "1.IH" [OF False no cursor_inv_read_char [OF inv]] by blast
      have cs: "lx_rest ?l = cs" using r inv by (simp add: lx_rest_read_char)
      have "(lx_ch l # b) @ ''*'' \<noteq> u @ ''*/'' @ v" for u v
      proof (cases u)
        case Nil
        have "\<not> (lx_ch l = CHR ''*'' \<and> (\<exists>w. b @ ''*'' = CHR ''/'' # w))"
        proof
          assume h: "lx_ch l = CHR ''*'' \<and> (\<exists>w. b @ ''*'' = CHR ''/'' # w)"
          then have "\<exists>w. cs = CHR ''/'' # w" using b(2) cs by (cases b) auto
          then show False using h no lx_rest_peek [OF inv] r by auto
        qed
        with Nil show ?thesis by auto
      qed (use b(1) in auto)
      with b eq cs r show ?thesis by (intro conjI) (simp, rule exI [of _ "lx_ch l # b"], auto)
    qed
  qed
qed

lemma lex_slash_text:
  assumes "cursor_inv l" "lx_ch l = CHR ''/''"
  shows "step_text l (lex_slash p l)"
proof -
  let ?n = "lexer_peek_char l"
  consider "?n = CHR ''/''" | "?n = CHR ''*''" | "?n \<notin> {CHR ''/'', CHR ''*''}" by blast
  then show ?thesis
  proof cases
    case 1
    let ?m = "lexer_read_while (\<lambda>c. c \<noteq> NEWLINE) l"
    note m = lexer_read_while_spec [OF assms(1), of "\<lambda>c. c \<noteq> NEWLINE"]
    obtain cs where r: "lx_rest l = CHR ''/'' # CHR ''/'' # cs"
      using lx_rest_cases2 [OF assms(1)] assms(2) 1 by fastforce
    have c: "consumed l ?m = ''//'' @ takeWhile (\<lambda>c. c \<noteq> NEWLINE) cs"
      using m(1) r assms(1) by (intro consumed_eq) auto
    have hd: "lx_rest ?m = [] \<or> hd (lx_rest ?m) = NEWLINE"
      using m(1) hd_dropWhile [of "\<lambda>c. c \<noteq> NEWLINE" "lx_rest l"] by force
    have "layout f (consumed l ?m @ g)" if "layout f g" "g @ f = lx_rest ?m" for f g
      using layout_line [OF that(1), of "takeWhile (\<lambda>c. c \<noteq> NEWLINE) cs"] hd that(2) c
      by (auto dest: set_takeWhileD)
    then show ?thesis using 1 by (simp add: lex_slash_def step_text_def Let_def)
  next
    case 2
    let ?k = "lexer_read_char (lexer_read_char l)"
    let ?m = "lexer_skip_block_comment ?k"
    obtain cs where r: "lx_rest l = CHR ''/'' # CHR ''*'' # cs"
      using lx_rest_cases2 [OF assms(1)] assms(2) 2 by fastforce
    have k: "cursor_inv ?k" "lx_rest ?k = cs" using r assms(1) by (simp_all add: lx_rest_read_char cursor_inv_read_char)
    obtain b where b: "\<And>u v. b @ ''*'' \<noteq> u @ ''*/'' @ v"
      "cs = b @ ''*/'' @ lx_rest ?m \<or> cs = b \<and> lx_rest ?m = []"
      using lexer_skip_block_comment_spec [OF k(1)] k(2) by blast
    have open_b: "b \<noteq> u @ ''*/'' @ v" for u v using b(1) [of u "v @ ''*''"] by auto
    have reads: "lx_reads l ?m" by (intro lx_reads_loops lx_reads_snoc) simp
    have "layout f (consumed l ?m @ g)" if g: "layout f g" "g @ f = lx_rest ?m" for f g
      using b(2)
    proof
      assume "cs = b @ ''*/'' @ lx_rest ?m"
      then have "consumed l ?m = ''/*'' @ b @ ''*/''" using r reads assms(1) by (intro consumed_eq) auto
      then show ?thesis using layout_block [OF g(1) b(1)] by simp
    next
      assume cs: "cs = b \<and> lx_rest ?m = []"
      then have "consumed l ?m = ''/*'' @ b" using r reads assms(1) by (intro consumed_eq) auto
      then show ?thesis using layout_open [OF _ open_b] g cs by auto
    qed
    then show ?thesis using 2 by (simp add: lex_slash_def step_text_def Let_def)
  next
    case 3
    then show ?thesis using assms by (auto simp: lex_slash_def Let_def simp del: One_nat_def intro!: step_texts)
  qed
qed

lemma lex_newline_text:
  assumes "cursor_inv l" "lx_ch l = NEWLINE"
  shows "step_text l (lex_newline p l)"
proof -
  let ?m = "after_newline l"
  note m = after_newline_spec [OF assms(1)]
  have reads: "lx_reads l ?m" unfolding after_newline_def by (rule reads_char) simp
  obtain cs where r: "lx_rest l = NEWLINE # cs" using lx_rest_cases [OF assms(1)] assms(2) by fastforce
  have c: "consumed l ?m = NEWLINE # takeWhile blank cs"
    using m(2) r reads assms(1) by (intro consumed_eq) auto
  have blanks: "layout f (takeWhile blank xs @ g)" if "layout f g" for f g xs
    by (induction xs) (use that in \<open>auto intro: layout_blank\<close>)
  have "layout f (consumed l ?m @ g)" if "layout f g" for f g
    using blanks [OF that, of cs] c by (auto intro: layout_blank)
  moreover have "lexeme_of (token_new TOKEN_SEMICOLON (Some '';'') 1 p) (consumed l ?m)"
    using c by (auto simp: lexeme_of_def dest: set_takeWhileD)
  ultimately show ?thesis
    by (simp add: lex_newline_spec [OF assms(1)] step_text_def lexer_asi_return_def consumed_def)
qed

text \<open>Literals and words.\<close>

lemma consumed_read_char:
  assumes "cursor_inv l" "lx_reads l m" "lx_ch m \<noteq> NUL"
  shows "consumed l (lexer_read_char m) = consumed l m @ [lx_ch m]"
proof -
  have m: "cursor_inv m" using lx_reads_cursor [OF assms(2,1)] by simp
  show ?thesis
    using lx_rest_consumed [OF assms(1,2)] lx_rest_consumed [OF m lx_reads_read_char] consumed1 [OF m assms(3)] assms
    by (intro consumed_eq) (auto intro: lx_reads_snoc)
qed

lemma consumed_first:
  assumes "cursor_inv l" "lx_reads (lexer_read_char l) m" "lx_ch l \<noteq> NUL"
  shows "consumed l m = lx_ch l # consumed (lexer_read_char l) m"
proof -
  note i = cursor_inv_read_char [OF assms(1)]
  obtain cs where "lx_rest l = lx_ch l # cs" using assms(1,3) by (rule lx_rest_cases)
  then show ?thesis
    using lx_rest_consumed [OF i assms(2)] assms by (intro consumed_eq) (auto intro: reads_char simp: lx_rest_read_char)
qed

lemma consumed_quoted:
  assumes "cursor_inv l" "lx_reads (lexer_read_char l) m" "lx_ch l \<noteq> NUL" "lx_ch m = q" "q \<noteq> NUL"
  shows "consumed l (lexer_read_char m) = lx_ch l # consumed (lexer_read_char l) m @ [q]"
  using assms consumed_read_char [OF cursor_inv_read_char [OF assms(1)] assms(2)]
  by (simp add: consumed_first lx_reads_snoc)

lemma step_text_error:
  assumes "cursor_inv l" "lx_reads (lexer_read_char l) m" "lx_ch l \<in> {DQUOTE, BACKTICK, SQUOTE}"
  shows "step_text l (Emit (token_new TOKEN_ERROR s n p) m)"
proof -
  have "lx_ch l \<noteq> NUL" using assms(3) by auto
  then show ?thesis using consumed_first [OF assms(1,2)] assms(3) by (auto simp: step_text_def lexeme_of_def)
qed

lemma lex_string_text:
  assumes "cursor_inv l" "lx_ch l = DQUOTE"
  shows "step_text l (lex_string p l)"
proof -
  let ?m = "lexer_skip_string_body (lexer_read_char l)"
  have r: "lx_reads (lexer_read_char l) ?m" by simp
  show ?thesis
    using consumed_quoted [OF assms(1) r, of DQUOTE] step_text_error [OF assms(1) r] assms(2)
    by (auto simp: lex_string_def lexer_read_string_def Let_def step_text_def lexeme_of_def split: option.splits)
qed

lemma lex_raw_string_text:
  assumes "cursor_inv l" "lx_ch l = BACKTICK"
  shows "step_text l (lex_raw_string p l)"
proof -
  let ?m = "lexer_read_while (\<lambda>c. c \<noteq> BACKTICK) (lexer_read_char l)"
  have r: "lx_reads (lexer_read_char l) ?m" by simp
  show ?thesis
    using consumed_quoted [OF assms(1) r, of BACKTICK] step_text_error [OF assms(1) r] assms(2)
    by (auto simp: lex_raw_string_def lexer_read_raw_string_def Let_def step_text_def lexeme_of_def consumed_def [of "lexer_read_char l"])
qed

lemma lex_rune_text:
  assumes "cursor_inv l" "lx_ch l = SQUOTE"
  shows "step_text l (lex_rune p l)"
proof -
  let ?m = "lexer_read_char_body (lexer_read_char l)"
  have r: "lx_reads (lexer_read_char l) ?m" by (rule lexer_read_char_body_reads)
  have e: "consumed l ?m = SQUOTE # consumed (lexer_read_char l) ?m"
    "consumed l (lexer_read_char ?m) = SQUOTE # consumed (lexer_read_char l) (lexer_read_char ?m)"
    using consumed_first [OF assms(1)] r assms(2) lx_reads_snoc by simp_all
  show ?thesis
    using consumed_quoted [OF assms(1) r, of SQUOTE] assms(2)
    by (cases "lx_ch ?m = SQUOTE")
      (auto simp: lex_rune_def lexer_read_char_literal_def Let_def step_text_def lexeme_of_def e split: option.splits)
qed

lemma keyword_types: "token_keyword_type s \<notin> {TOKEN_STRING, TOKEN_ERROR, TOKEN_INT, TOKEN_SEMICOLON, TOKEN_EOF}"
proof -
  have "\<forall>t \<in> set keyword_table. snd t \<notin> {TOKEN_STRING, TOKEN_ERROR, TOKEN_INT, TOKEN_SEMICOLON, TOKEN_EOF}"
    by (simp add: keyword_table_def)
  then show ?thesis
    by (auto simp: token_keyword_type_def keyword_search_map_of dest!: map_of_SomeD split: option.splits)
qed

lemma lex_word_text:
  assumes "cursor_inv l" "lx_ch l \<noteq> NUL"
  shows "step_text l (lex_word p l)"
proof -
  have first: "consumed l m \<noteq> []" "hd (consumed l m) = lx_ch l" if "lx_reads (lexer_read_char l) m" for m
    using consumed_first [OF assms(1) that assms(2)] by simp_all
  consider (word) "lexer_is_letter (lx_ch l)" | (num) "\<not> lexer_is_letter (lx_ch l)" "lexer_is_digit (lx_ch l)"
    | (other) "\<not> lexer_is_letter (lx_ch l)" "\<not> lexer_is_digit (lx_ch l)" by blast
  then show ?thesis
  proof cases
    case word
    obtain s m where i: "lexer_read_identifier l = (s, m)" by fastforce
    then have "s = consumed l m" "lx_reads (lexer_read_char l) m"
      using lexer_read_identifier_reads [OF word assms(2)] by (auto simp: lexer_read_identifier_def Let_def consumed_def)
    then show ?thesis
      using word i keyword_types [of s] first [of m] by (auto simp: lex_word_def step_text_def lexeme_of_def Let_def)
  next
    case num
    obtain s fl m where i: "lexer_read_number l = (s, fl, m)" by (rule prod_cases3)
    then have "s = consumed l m" "lx_reads (lexer_read_char l) m"
      using lexer_read_number_reads [OF num(2) assms(2)]
      by (auto simp: lexer_read_number_def Let_def consumed_def split_beta)
    then show ?thesis
      using num i first [of m] by (auto simp: lex_word_def step_text_def lexeme_of_def Let_def)
  next
    case other
    then show ?thesis
      using step_text1 [OF assms(1) refl assms(2), of TOKEN_UNKNOWN] by (simp add: lex_word_def)
  qed
qed

lemma lexer_switch_text:
  assumes "cursor_inv l" "lx_ch l \<noteq> NUL"
  shows "step_text l (lexer_switch p l)"
proof -
  have arith: "step_text l (lex_arith p l)" if "lx_ch l \<in> set ''+-*/%''"
  proof (cases "lx_ch l = CHR ''/''")
    case True
    then show ?thesis using lex_slash_text [OF assms(1)] by (simp add: lex_arith_def)
  next
    case False
    then show ?thesis using that by (intro lex_arith_text [OF assms(1)]) auto
  qed
  show ?thesis
    unfolding lexer_switch_def Let_def if_split
    using assms arith lex_bracket_text lex_punct_text lex_compare_text lex_bits_text lex_string_text lex_raw_string_text
      lex_rune_text lex_word_text lex_newline_text by (simp only: if_split) blast
qed

section \<open>The text of one token\<close>

lemma lx_consumes_position:
  assumes "cursor_inv l" "lx_consumes l l'"
  shows "lx_position l \<le> lx_position l' \<and> lx_input l' = lx_input l"
proof -
  obtain k where k: "lx_reads (lexer_read_char l) k" "lx_cursor l' = lx_cursor k" using assms(2) by (auto simp: lx_consumes_def)
  then show ?thesis
    using lx_reads_cursor [OF reads_char [OF k(1)] assms(1)] lx_reads_frame [OF reads_char [OF k(1)]] by (simp add: lx_cursor_def)
qed

lemma lexeme_nonempty: "lexeme_of t w \<Longrightarrow> w \<noteq> []"
  by (simp add: lexeme_of_def)

lemma lx_consumesE:
  assumes "lx_consumes l l'"
  obtains k where "lx_reads (lexer_read_char l) k" "lx_cursor l' = lx_cursor k"
  using assms unfolding lx_consumes_def by blast

lemma layout_blanks: "layout f g \<Longrightarrow> layout f (takeWhile (\<lambda>c. lexer_is_whitespace c \<and> c \<noteq> NEWLINE) xs @ g)"
  by (induction xs) (auto simp: lexer_is_whitespace_def intro: layout_blank)

lemma lexer_next_token_text:
  assumes "cursor_inv l" "lexer_next_token l = (t, l')"
  shows "\<exists>g w. lx_rest l = g @ w @ lx_rest l' \<and> layout (w @ lx_rest l') g \<and>
     (if tok_type t = TOKEN_EOF then w = [] \<and> lx_rest l' = [] \<and> lx_position l + length g \<le> pos_offset (tok_pos t)
      else lexeme_of t w \<and> pos_offset (tok_pos t) = lx_position l + length g)"
  using assms
proof (induction l rule: lexer_next_token.induct)
  case (1 l)
  note inv = "1.prems"(1)
  let ?ws = "\<lambda>c. lexer_is_whitespace c \<and> c \<noteq> NEWLINE"
  let ?m = "lexer_skip_whitespace l"
  let ?b = "takeWhile ?ws (lx_rest l)"
  have m: "lx_rest l = ?b @ lx_rest ?m" "lx_position ?m = lx_position l + length ?b" "cursor_inv ?m"
    using lexer_read_while_spec [OF inv, of ?ws] by (simp_all add: lexer_skip_whitespace_def)
  have off: "pos_offset (lx_pos ?m) = lx_position ?m" using m(3) by (simp add: cursor_inv_def)
  have step: "lexer_step l = lexer_switch (lx_pos ?m) ?m" by (simp add: lexer_step_def Let_def)
  show ?case
  proof (cases "lx_ch ?m = NUL")
    case True
    then have "lx_rest ?m = []" using lx_rest_ch [OF m(3)] lx_rest_NUL_free [OF m(3)] by (cases "lx_rest ?m") auto
    moreover have "t = token_new TOKEN_EOF None 0 (lx_pos ?m)" "lx_rest l' = lx_rest ?m"
      using True step "1.prems"(2) by (auto simp: lexer_next_token.simps [of l] lexer_switch_EOF)
    ultimately show ?thesis
      using m off layout_blanks [OF layout_none, of "[]" "lx_rest l"] by (intro exI [of _ ?b] exI [of _ "[]"]) auto
  next
    case False
    note tx = lexer_switch_text [OF m(3) False, of "lx_pos ?m"]
    note emits = lexer_switch_emits [OF False, of "lx_pos ?m"]
    have split_rest: "lx_rest ?m = consumed ?m l1 @ lx_rest l1" if con: "lx_consumes ?m l1" for l1
    proof -
      obtain k where k: "lx_reads (lexer_read_char ?m) k" "lx_cursor l1 = lx_cursor k" using con by (rule lx_consumesE)
      then have "lx_rest ?m = consumed ?m k @ lx_rest k" using lx_rest_consumed [OF m(3)] reads_char by blast
      then show ?thesis using k(2) consumed_cong [of l1 k] by (simp add: lx_rest_def lx_cursor_def)
    qed
    have done_case: ?thesis if "lx_consumes ?m l1" "lexeme_of t (consumed ?m l1)" "lx_rest l' = lx_rest l1" "tok_pos t = lx_pos ?m"
      "tok_type t \<noteq> TOKEN_EOF" for l1
      using that split_rest [OF that(1)] m off layout_blanks [OF layout_none, of "consumed ?m l1 @ lx_rest l1" "lx_rest l"]
      by (intro exI [of _ ?b] exI [of _ "consumed ?m l1"]) auto
    show ?thesis
    proof (cases "lexer_step l")
      case (Emit t1 l1)
      then have "t = t1" "l' = lexer_finish t l1" using "1.prems"(2) by (auto simp: lexer_next_token.simps [of l])
      then show ?thesis using done_case [of l1] tx emits Emit step by (simp add: step_text_def emits_at_def)
    next
      case (Return t1 l1)
      then have "t = t1" "l' = l1" using "1.prems"(2) by (auto simp: lexer_next_token.simps [of l])
      then show ?thesis using done_case [of l1] tx emits Return step by (simp add: step_text_def emits_at_def)
    next
      case (Continue l1)
      then have n: "lexer_next_token l1 = (t, l')" using "1.prems"(2) by (simp add: lexer_next_token.simps [of l])
      have c: "lx_consumes ?m l1" using emits Continue step by (simp add: emits_at_def)
      have reads: "lx_reads l l1" using Continue by (rule lexer_step_Continue_reads)
      then have i1: "cursor_inv l1" using lx_reads_cursor inv by blast
      obtain g w where gw: "lx_rest l1 = g @ w @ lx_rest l'" "layout (w @ lx_rest l') g"
        "if tok_type t = TOKEN_EOF then w = [] \<and> lx_rest l' = [] \<and> lx_position l1 + length g \<le> pos_offset (tok_pos t)
         else lexeme_of t w \<and> pos_offset (tok_pos t) = lx_position l1 + length g"
        using "1.IH" [OF Continue i1 n] by blast
      have "layout (w @ lx_rest l') (consumed ?m l1 @ g)"
        using tx Continue step gw(1,2) by (simp add: step_text_def)
      then have "layout (w @ lx_rest l') (?b @ consumed ?m l1 @ g)" by (rule layout_blanks)
      moreover have "lx_rest l = (?b @ consumed ?m l1 @ g) @ w @ lx_rest l'" using m(1) split_rest [OF c] gw(1) by simp
      moreover have "lx_position ?m + length (consumed ?m l1) \<le> lx_position l1"
        "lx_rest l1 \<noteq> [] \<Longrightarrow> lx_position l1 = lx_position ?m + length (consumed ?m l1)"
        using lx_consumes_position [OF m(3) c] by (auto simp: consumed_def lx_slice_def lx_rest_def)
      moreover have "lx_rest l1 \<noteq> []" if "tok_type t \<noteq> TOKEN_EOF" using gw(1,3) that lexeme_nonempty by auto
      ultimately show ?thesis using gw(3) m(2)
        by (intro exI [of _ "?b @ consumed ?m l1 @ g"] exI [of _ w]) (auto split: if_splits)
    qed
  qed
qed

section \<open>The text of a stream\<close>

text \<open>
  \<open>token_stream at s ts\<close>: the text \<open>s\<close>, which stands at offset \<open>at\<close>, is layout, the text of the first
  token at its offset, layout, the text of the second one, and so on up to the end mark.
\<close>

inductive token_stream :: "nat \<Rightarrow> string \<Rightarrow> token list \<Rightarrow> bool" where
  stream_end: "layout [] g \<Longrightarrow> tok_type t = TOKEN_EOF \<Longrightarrow> at + length g \<le> pos_offset (tok_pos t) \<Longrightarrow> token_stream at g [t]"
| stream_token: "layout (w @ s) g \<Longrightarrow> tok_type t \<noteq> TOKEN_EOF \<Longrightarrow> lexeme_of t w \<Longrightarrow> pos_offset (tok_pos t) = at + length g
    \<Longrightarrow> token_stream (at + length g + length w) s ts \<Longrightarrow> token_stream at (g @ w @ s) (t # ts)"

lemma lexer_tokens_stream:
  "cursor_inv l \<Longrightarrow> at \<le> lx_position l \<Longrightarrow> (lx_rest l \<noteq> [] \<Longrightarrow> at = lx_position l) \<Longrightarrow>
     token_stream at (lx_rest l) (fst (lexer_tokens l))"
proof (induction l arbitrary: at rule: lexer_tokens.induct)
  case (1 l)
  obtain t l' where n: "lexer_next_token l = (t, l')" by fastforce
  obtain g w where gw: "lx_rest l = g @ w @ lx_rest l'" "layout (w @ lx_rest l') g"
    "if tok_type t = TOKEN_EOF then w = [] \<and> lx_rest l' = [] \<and> lx_position l + length g \<le> pos_offset (tok_pos t)
     else lexeme_of t w \<and> pos_offset (tok_pos t) = lx_position l + length g"
    using lexer_next_token_text [OF "1.prems"(1) n] by blast
  show ?case
  proof (cases "tok_type t = TOKEN_EOF")
    case True
    then show ?thesis
      using gw n "1.prems"(2) stream_end [of g t at] by (simp add: lexer_tokens.simps [of l])
  next
    case False
    then have w: "lexeme_of t w" "pos_offset (tok_pos t) = lx_position l + length g" "w \<noteq> []"
      using gw(3) lexeme_nonempty [of t w] by simp_all
    obtain m where m: "lx_reads l m" "lx_consumes m l'" "tok_pos t = lx_pos m" "lx_ch m \<noteq> NUL"
      using lexer_next_token_spec [OF n] False by (auto split: if_splits)
    have mi: "cursor_inv m" using lx_reads_cursor [OF m(1) "1.prems"(1)] by simp
    have at: "at = lx_position l" using "1.prems"(3) gw(1) w(3) by simp
    have pos: "pos_offset (tok_pos t) = lx_position m" using m(3) mi by (simp add: cursor_inv_def)
    obtain k where "lx_reads (lexer_read_char m) k" and k2: "lx_cursor l' = lx_cursor k" using m(2) by (rule lx_consumesE)
    then have k: "lx_reads m k" "lx_cursor l' = lx_cursor k" by (simp_all add: reads_char)
    have i': "cursor_inv l'" using lx_reads_cursor [OF k(1) mi] cursor_inv_cong [OF k(2)] by simp
    have le: "lx_position m \<le> lx_position l'" "lx_input l' = lx_input l"
      using lx_consumes_position [OF mi m(2)] lx_reads_frame [OF m(1)] by simp_all
    have len: "length (lx_input l) - lx_position l = length g + length w + (length (lx_input l) - lx_position l')"
      using arg_cong [OF gw(1), of length] le(2) by (simp add: lx_rest_def)
    have "token_stream (at + length g + length w) (lx_rest l') (fst (lexer_tokens l'))"
    proof (rule "1.IH" [OF n [symmetric] refl False i'])
      show "at + length g + length w \<le> lx_position l'" using len at pos w(2) le(1) by linarith
      show "at + length g + length w = lx_position l'" if "lx_rest l' \<noteq> []"
        using that len at pos w(2) le by (simp add: lx_rest_def)
    qed
    then show ?thesis
      using stream_token [OF gw(2) False w(1)] n False w(2) at gw(1) by (simp add: lexer_tokens.simps [of l] split_beta)
  qed
qed

text \<open>C2. The token stream of any source text is finite and ends in the end mark, which occurs nowhere else; the
  text is exactly the texts of the tokens, each at the offset of its token, with nothing but layout
  between them; offsets grow strictly, and line and column of every token are those of its first character.\<close>

theorem lexer_tokens_positions:
  fixes src :: string and fname :: "string option"
  defines "ts \<equiv> fst (lexer_tokens (lexer_new src fname))"
  shows "token_stream 0 (c_string src) ts \<and> ts \<noteq> [] \<and> tok_type (last ts) = TOKEN_EOF \<and>
         sorted_wrt (<) (map (\<lambda>t. pos_offset (tok_pos t)) ts) \<and>
         list_all (\<lambda>t. tok_type t \<noteq> TOKEN_EOF) (butlast ts) \<and>
         list_all (\<lambda>t. pos_line (tok_pos t) = line_of (take (pos_offset (tok_pos t)) (c_string src)) \<and>
                       pos_column (tok_pos t) = column_of (take (pos_offset (tok_pos t)) (c_string src))) ts"
proof -
  have "stream_ok (c_string src) (lx_position (lexer_new src fname)) ts"
    unfolding ts_def using lexer_tokens_stream_ok [OF lexer_inv_new, of src fname] by (simp add: lx_input_new)
  moreover have "lx_position (lexer_new src fname) = 0" by (simp add: lexer_new_def lexer_read_char_def Let_def)
  then have "token_stream 0 (c_string src) ts"
    unfolding ts_def using lexer_tokens_stream [OF cursor_inv_new, of 0 src fname] by (simp add: lx_rest_new)
  ultimately show ?thesis
    using stream_ok_sorted stream_ok_ends stream_ok_token_at
    by (auto simp: list_all_iff token_at_def)
qed

section \<open>Automatic semicolons\<close>

text \<open>
  The rule in terms of the tokens returned so far, newest first: the last one, and the brackets that
  are open, of which the bodies of structs and interfaces and the groups of \<open>var\<close> are special.
\<close>

definition last_token :: "token_type list \<Rightarrow> token_type" where
  "last_token h = (case h of [] \<Rightarrow> TOKEN_SEMICOLON | t # _ \<Rightarrow> t)"

fun open_groups :: "token_type list \<Rightarrow> bool list" where
  "open_groups [] = []"
| "open_groups (t # h) =
     (if t = TOKEN_LPAREN then (last_token h = TOKEN_VAR) # open_groups h
      else if t = TOKEN_LBRACE then (last_token h \<in> {TOKEN_STRUCT, TOKEN_INTERFACE}) # open_groups h
      else if t \<in> {TOKEN_RPAREN, TOKEN_RBRACE} then tl (open_groups h)
      else open_groups h)"

definition asi_due :: "token_type list \<Rightarrow> string \<Rightarrow> bool" where
  "asi_due h s \<longleftrightarrow>
     last_token h \<in> {TOKEN_RETURN, TOKEN_BREAK, TOKEN_CONTINUE, TOKEN_FALLTHROUGH} \<or>
     last_token h \<in> {TOKEN_IDENT, TOKEN_INT, TOKEN_FLOAT, TOKEN_STRING, TOKEN_CHAR, TOKEN_TRUE, TOKEN_FALSE, TOKEN_NIL,
       TOKEN_INCREMENT, TOKEN_DECREMENT, TOKEN_RPAREN, TOKEN_RBRACKET, TOKEN_RBRACE} \<and>
     ((open_groups h \<noteq> [] \<and> hd (open_groups h)) \<or> \<not> continues_line s)"

text \<open>The scanners a client of \<open>lexer_next_token\<close> sees, and those between its rounds.\<close>

inductive scanned :: "string \<Rightarrow> string option \<Rightarrow> token_type list \<Rightarrow> lexer \<Rightarrow> bool" for src fname where
  scanned_new: "scanned src fname [] (lexer_new src fname)"
| scanned_token: "scanned src fname h l \<Longrightarrow> lexer_next_token l = (t, l') \<Longrightarrow> scanned src fname (tok_type t # h) l'"
| scanned_skip: "scanned src fname h l \<Longrightarrow> lexer_step l = Continue l' \<Longrightarrow> scanned src fname h l'"

definition asi_hist :: "token_type list \<Rightarrow> lexer \<Rightarrow> bool" where
  "asi_hist h l \<longleftrightarrow>
     lx_prev_token_type l = last_token h \<and> lx_asi_depth l = int (length (open_groups h)) \<and> length (lx_asi_ctx l) = ASI_CTX_SIZE \<and>
     (\<forall>i < length (open_groups h). i < ASI_CTX_SIZE \<longrightarrow> lx_asi_ctx l ! i = rev (open_groups h) ! i)"

lemma asi_hist_push:
  assumes "asi_hist h l" "open_groups (t # h) = b # open_groups h"
  shows "asi_hist (t # h) ((lexer_asi_push b l)\<lparr>lx_prev_token_type := t\<rparr>)"
  using assms by (auto simp: asi_hist_def lexer_asi_push_def Let_def last_token_def nth_list_update nth_append less_Suc_eq)

lemma asi_hist_pop:
  assumes "asi_hist h l" "open_groups (t # h) = tl (open_groups h)"
  shows "asi_hist (t # h) ((lexer_asi_pop l)\<lparr>lx_prev_token_type := t\<rparr>)"
proof (cases "open_groups h")
  case Nil
  then show ?thesis using assms by (auto simp: asi_hist_def lexer_asi_pop_def last_token_def)
next
  case (Cons b bs)
  then show ?thesis using assms by (auto simp: asi_hist_def lexer_asi_pop_def last_token_def nth_append)
qed

lemma asi_hist_scoped:
  assumes "asi_hist h l" "length (open_groups h) \<le> 256"
  shows "lexer_asi_scoped l \<longleftrightarrow> open_groups h \<noteq> [] \<and> hd (open_groups h)"
proof (cases "open_groups h")
  case (Cons b bs)
  then have "lx_asi_ctx l ! length bs = b" using assms by (auto simp: asi_hist_def nth_append)
  then show ?thesis using Cons assms by (simp add: lexer_asi_scoped_def asi_hist_def)
qed (use assms in \<open>simp add: lexer_asi_scoped_def asi_hist_def\<close>)

text \<open>Only brackets touch the stack.\<close>

definition asi_frame :: "lexer \<Rightarrow> bool list \<times> int" where
  "asi_frame l = (lx_asi_ctx l, lx_asi_depth l)"

definition plain_step :: "lexer \<Rightarrow> lex_step \<Rightarrow> bool" where
  "plain_step l s =
     (case s of
        Emit t l' \<Rightarrow> tok_type t \<notin> {TOKEN_LPAREN, TOKEN_RPAREN, TOKEN_LBRACE, TOKEN_RBRACE} \<and> asi_frame l' = asi_frame l
      | Continue l' \<Rightarrow> True
      | Return t l' \<Rightarrow> tok_type t = TOKEN_SEMICOLON \<and> lx_prev_token_type l' = TOKEN_SEMICOLON \<and> asi_frame l' = asi_frame l)"

lemma asi_frame_reads: "lx_reads l l' \<Longrightarrow> asi_frame l' = asi_frame l"
  by (drule lx_reads_frame) (simp add: asi_frame_def)

lemma asi_frame_read_char [simp]: "asi_frame (lexer_read_char l) = asi_frame l"
  by (simp add: asi_frame_reads)

lemma plain_arms:
  "plain_step l (lex_punct p l)" "plain_step l (lex_slash p l)" "plain_step l (lex_compare p l)" "plain_step l (lex_bits p l)"
  by (simp_all add: lex_punct_def lex_slash_def lex_compare_def lex_bits_def plain_step_def Let_def)

lemma plain_arith: "plain_step l (lex_arith p l)"
  using plain_arms(2) [of l p] by (simp add: lex_arith_def plain_step_def Let_def)

lemma plain_newline: "plain_step l (lex_newline p l)"
  using asi_frame_reads [OF reads_char [OF lx_reads_read_while]]
  by (simp add: lex_newline_def lexer_asi_return_def plain_step_def Let_def asi_frame_def)

lemma plain_reads:
  "lx_reads (lexer_read_char l) l' \<Longrightarrow> tok_type t \<notin> {TOKEN_LPAREN, TOKEN_RPAREN, TOKEN_LBRACE, TOKEN_RBRACE} \<Longrightarrow> plain_step l (Emit t l')"
  by (simp add: plain_step_def asi_frame_reads reads_char)

lemma keyword_no_bracket: "token_keyword_type s \<notin> {TOKEN_LPAREN, TOKEN_RPAREN, TOKEN_LBRACE, TOKEN_RBRACE}"
proof -
  have "\<forall>t \<in> set keyword_table. snd t \<notin> {TOKEN_LPAREN, TOKEN_RPAREN, TOKEN_LBRACE, TOKEN_RBRACE}"
    by (simp add: keyword_table_def)
  then show ?thesis
    by (auto simp: token_keyword_type_def keyword_search_map_of dest!: map_of_SomeD split: option.splits)
qed

lemma plain_literals:
  "plain_step l (lex_string p l)" "plain_step l (lex_raw_string p l)" "plain_step l (lex_rune p l)"
  using lexer_read_string_reads [of l] lexer_read_raw_string_reads [of l] lexer_read_char_literal_reads [of l]
  by (auto simp: lex_string_def lex_raw_string_def lex_rune_def split: prod.splits option.splits intro!: plain_reads)

lemma plain_word: "lx_ch l \<noteq> NUL \<Longrightarrow> plain_step l (lex_word p l)"
  using lexer_read_identifier_reads [of l] lexer_read_number_reads [of l] keyword_no_bracket
  by (auto simp: lex_word_def split: prod.splits intro!: plain_reads)

lemma bracket_hist:
  assumes "asi_hist h l" "lx_ch l \<in> set ''(){}''" "lex_bracket p l = Emit t l'"
  shows "asi_hist (tok_type t # h) (l'\<lparr>lx_prev_token_type := tok_type t\<rparr>)"
proof -
  have swap: "asi_hist h' ((lexer_read_char m)\<lparr>lx_prev_token_type := x\<rparr>) = asi_hist h' (m\<lparr>lx_prev_token_type := x\<rparr>)" for h' m x
    by (simp add: asi_hist_def lexer_read_char_def Let_def)
  have prev: "lx_prev_token_type l = last_token h" using assms(1) by (simp add: asi_hist_def)
  show ?thesis
    using assms(2,3) by (auto simp: lex_bracket_def swap prev intro!: asi_hist_push asi_hist_pop assms(1))
qed

lemma asi_hist_reads: "lx_reads l l' \<Longrightarrow> asi_hist h l' = asi_hist h l"
  by (drule lx_reads_frame) (simp add: asi_hist_def)

lemma plain_hist:
  assumes "asi_hist h l" "asi_frame l' = asi_frame l" "t \<notin> {TOKEN_LPAREN, TOKEN_RPAREN, TOKEN_LBRACE, TOKEN_RBRACE}"
    "lx_prev_token_type l' = t"
  shows "asi_hist (t # h) l'"
  using assms by (auto simp: asi_hist_def asi_frame_def last_token_def)

lemma switch_hist:
  assumes "asi_hist h l"
  shows "lexer_switch p l = Emit t l' \<Longrightarrow> asi_hist (tok_type t # h) (l'\<lparr>lx_prev_token_type := tok_type t\<rparr>)"
    and "lexer_switch p l = Return t l' \<Longrightarrow> asi_hist (tok_type t # h) l'"
proof -
  have *: "(lx_ch l \<in> set ''(){}'' \<and> lexer_switch p l = lex_bracket p l) \<or> plain_step l (lexer_switch p l)"
  proof (cases "lx_ch l \<in> set ''(){}''")
    case True
    then show ?thesis by (auto simp: lexer_switch_def)
  next
    case False
    then show ?thesis
    proof (cases "lx_ch l = NUL")
      case True
      then show ?thesis by (simp add: lexer_switch_EOF plain_step_def)
    next
      case nz: False
      show ?thesis
        using False plain_arms plain_arith plain_newline plain_literals plain_word [OF nz]
        unfolding lexer_switch_def Let_def by (simp add: nz del: set_simps)
    qed
  qed
  have kept: "asi_hist (tok_type t # h) (l'\<lparr>lx_prev_token_type := tok_type t\<rparr>)"
    if "asi_frame l' = asi_frame l" "tok_type t \<notin> {TOKEN_LPAREN, TOKEN_RPAREN, TOKEN_LBRACE, TOKEN_RBRACE}"
    using that by (intro plain_hist [OF assms]) (auto simp: asi_frame_def)
  show "asi_hist (tok_type t # h) (l'\<lparr>lx_prev_token_type := tok_type t\<rparr>)" if "lexer_switch p l = Emit t l'"
    using * that bracket_hist [OF assms] kept by (auto simp: plain_step_def)
  show "asi_hist (tok_type t # h) l'" if "lexer_switch p l = Return t l'"
    using * that by (auto simp: plain_step_def lex_bracket_def split: if_splits intro!: plain_hist [OF assms])
qed

lemma next_hist:
  "asi_hist h l \<Longrightarrow> lexer_next_token l = (t, l') \<Longrightarrow> asi_hist (tok_type t # h) l'"
proof (induction l rule: lexer_next_token.induct)
  case (1 l)
  let ?m = "lexer_skip_whitespace l"
  have m: "asi_hist h ?m" using "1.prems"(1) asi_hist_reads [OF lx_reads_skip_whitespace, of h l] by blast
  have fin: "asi_hist x (lexer_finish t k) = asi_hist x (k\<lparr>lx_prev_token_type := tok_type t\<rparr>)" for x k
    by (simp add: lexer_finish_def asi_hist_def Let_def)
  show ?case
  proof (cases "lexer_step l")
    case (Emit t1 l1)
    then show ?thesis using switch_hist(1) [OF m] "1.prems"(2)
      by (auto simp: lexer_next_token.simps [of l] fin lexer_step_def Let_def)
  next
    case (Return t1 l1)
    then show ?thesis using switch_hist(2) [OF m] "1.prems"(2)
      by (auto simp: lexer_next_token.simps [of l] lexer_step_def Let_def)
  next
    case (Continue l1)
    then show ?thesis
      using "1.IH" [OF Continue] asi_hist_reads [OF lexer_step_Continue_reads [OF Continue]] "1.prems"
      by (simp add: lexer_next_token.simps [of l])
  qed
qed

lemma scanned_inv: "scanned src fname h l \<Longrightarrow> lexer_inv l \<and> asi_hist h l"
proof (induction rule: scanned.induct)
  case scanned_new
  have "asi_hist [] (lexer_new src fname)"
    by (simp add: asi_hist_def lexer_new_def lexer_read_char_def last_token_def Let_def)
  then show ?case using lexer_inv_new by simp
next
  case (scanned_token h l t l')
  then show ?case using lexer_next_token_contract(1) next_hist by blast
next
  case (scanned_skip h l l')
  then show ?case using lx_reads_inv asi_hist_reads lexer_step_Continue_reads by blast
qed



end
