(* ===== verification/Terminating.thy ===== *)
theory Terminating
  imports Prelude
begin

text \<open>
  The missing-return analysis of \<open>src/types/terminating_stmt.c\<close>: the statement tree of
  \<open>include/ast.h\<close> as far as the analysis looks at it, and the predicates of the file one by
  one. A null pointer is \<open>None\<close>; a \<open>->next\<close> chain is a list.
\<close>

section \<open>The statement tree\<close>

text \<open>Of expressions the analysis only inspects whether one is a call of a bare identifier.\<close>

datatype expr = Identifier "string option" | CallExpr "expr option" | OtherExpr

datatype stmt =
    ReturnStmt
  | GotoStmt string
  | ExprStmt "expr option"
  | IfStmt "stmt option" "stmt option"
  | IfLetStmt "stmt option" "stmt option"
  | ForStmt (for_has_condition: bool) (for_has_range: bool) (for_body: "stmt option")
  | SwitchStmt "clause list"
  | TypeSwitch "clause list"
  | SelectStmt "clause list"
  | BlockStmt "stmt list"
  | ArenaBlock "stmt option"
  | UnsafeStmt "stmt option"
  | ComptimeBlock "stmt option"
  | LabelStmt "string option" "stmt option"
  | BreakStmt
  | BreakLabelStmt "string option"
  | ContinueStmt
  | ContinueLabelStmt "string option"
  | FallthroughStmt
  | OtherStmt
and clause = Clause (clause_is_default: bool) (clause_body: "stmt list")

section \<open>Small predicates\<close>

fun last_stmt :: "stmt list \<Rightarrow> stmt option" where
  "last_stmt [] = None"
| "last_stmt [s] = Some s"
| "last_stmt (s # t # ss) = last_stmt (t # ss)"

fun is_panic_call_stmt :: "expr option \<Rightarrow> bool" where
  "is_panic_call_stmt (Some (CallExpr (Some (Identifier (Some name))))) = (name = ''panic'')"
| "is_panic_call_stmt _ = False"

text \<open>The label-stripping loop of \<open>clause_ends_in_fallthrough\<close>.\<close>

fun strip_labels :: "stmt option \<Rightarrow> stmt option" where
  "strip_labels None = None"
| "strip_labels (Some s) = (case s of LabelStmt l inner \<Rightarrow> strip_labels inner | _ \<Rightarrow> Some s)"

definition clause_ends_in_fallthrough :: "stmt list \<Rightarrow> bool" where
  "clause_ends_in_fallthrough body = (strip_labels (last_stmt body) = Some FallthroughStmt)"

section \<open>Breaks that refer to a construct\<close>

text \<open>
  \<open>break_targets\<close> with its list form; the loops over the clauses of a switch or select and
  the null checks are functions of their own.
\<close>

definition label_matches :: "string option \<Rightarrow> string option list \<Rightarrow> bool" where
  "label_matches l ls = (l \<noteq> None \<and> l \<in> set ls)"

primrec break_targets :: "stmt \<Rightarrow> string option list \<Rightarrow> bool \<Rightarrow> bool"
  and break_targets_opt :: "stmt option \<Rightarrow> string option list \<Rightarrow> bool \<Rightarrow> bool"
  and break_targets_list :: "stmt list \<Rightarrow> string option list \<Rightarrow> bool \<Rightarrow> bool"
  and break_targets_clauses :: "clause list \<Rightarrow> string option list \<Rightarrow> bool \<Rightarrow> bool"
  and break_targets_clause :: "clause \<Rightarrow> string option list \<Rightarrow> bool \<Rightarrow> bool" where
  "break_targets BreakStmt ls crossed = (\<not> crossed)"
| "break_targets (BreakLabelStmt l) ls crossed = label_matches l ls"
| "break_targets (BlockStmt ss) ls crossed = break_targets_list ss ls crossed"
| "break_targets (IfStmt t e) ls crossed = (break_targets_opt t ls crossed \<or> break_targets_opt e ls crossed)"
| "break_targets (IfLetStmt t e) ls crossed = (break_targets_opt t ls crossed \<or> break_targets_opt e ls crossed)"
| "break_targets (ForStmt c r b) ls crossed = break_targets_opt b ls True"
| "break_targets (SwitchStmt cs) ls crossed = break_targets_clauses cs ls True"
| "break_targets (TypeSwitch cs) ls crossed = break_targets_clauses cs ls True"
| "break_targets (SelectStmt cs) ls crossed = break_targets_clauses cs ls True"
| "break_targets (ArenaBlock b) ls crossed = break_targets_opt b ls crossed"
| "break_targets (UnsafeStmt b) ls crossed = break_targets_opt b ls crossed"
| "break_targets (ComptimeBlock b) ls crossed = break_targets_opt b ls crossed"
| "break_targets (LabelStmt l b) ls crossed = break_targets_opt b ls crossed"
| "break_targets ReturnStmt ls crossed = False"
| "break_targets (GotoStmt g) ls crossed = False"
| "break_targets (ExprStmt x) ls crossed = False"
| "break_targets ContinueStmt ls crossed = False"
| "break_targets (ContinueLabelStmt l) ls crossed = False"
| "break_targets FallthroughStmt ls crossed = False"
| "break_targets OtherStmt ls crossed = False"
| "break_targets_opt None ls crossed = False"
| "break_targets_opt (Some s) ls crossed = break_targets s ls crossed"
| "break_targets_list [] ls crossed = False"
| "break_targets_list (s # ss) ls crossed = (break_targets s ls crossed \<or> break_targets_list ss ls crossed)"
| "break_targets_clauses [] ls crossed = False"
| "break_targets_clauses (c # cs) ls crossed =
     (break_targets_clause c ls crossed \<or> break_targets_clauses cs ls crossed)"
| "break_targets_clause (Clause d b) ls crossed = break_targets_list b ls crossed"

section \<open>Goto anywhere in a body\<close>

primrec contains_goto :: "stmt \<Rightarrow> bool"
  and contains_goto_opt :: "stmt option \<Rightarrow> bool"
  and contains_goto_list :: "stmt list \<Rightarrow> bool"
  and contains_goto_clauses :: "clause list \<Rightarrow> bool"
  and contains_goto_clause :: "clause \<Rightarrow> bool" where
  "contains_goto (GotoStmt g) = True"
| "contains_goto (BlockStmt ss) = contains_goto_list ss"
| "contains_goto (IfStmt t e) = (contains_goto_opt t \<or> contains_goto_opt e)"
| "contains_goto (IfLetStmt t e) = (contains_goto_opt t \<or> contains_goto_opt e)"
| "contains_goto (ForStmt c r b) = contains_goto_opt b"
| "contains_goto (SwitchStmt cs) = contains_goto_clauses cs"
| "contains_goto (TypeSwitch cs) = contains_goto_clauses cs"
| "contains_goto (SelectStmt cs) = contains_goto_clauses cs"
| "contains_goto (ArenaBlock b) = contains_goto_opt b"
| "contains_goto (UnsafeStmt b) = contains_goto_opt b"
| "contains_goto (ComptimeBlock b) = contains_goto_opt b"
| "contains_goto (LabelStmt l b) = contains_goto_opt b"
| "contains_goto ReturnStmt = False"
| "contains_goto (ExprStmt x) = False"
| "contains_goto BreakStmt = False"
| "contains_goto (BreakLabelStmt l) = False"
| "contains_goto ContinueStmt = False"
| "contains_goto (ContinueLabelStmt l) = False"
| "contains_goto FallthroughStmt = False"
| "contains_goto OtherStmt = False"
| "contains_goto_opt None = False"
| "contains_goto_opt (Some s) = contains_goto s"
| "contains_goto_list [] = False"
| "contains_goto_list (s # ss) = (contains_goto s \<or> contains_goto_list ss)"
| "contains_goto_clauses [] = False"
| "contains_goto_clauses (c # cs) = (contains_goto_clause c \<or> contains_goto_clauses cs)"
| "contains_goto_clause (Clause d b) = contains_goto_list b"

section \<open>The terminating-statement predicate\<close>

text \<open>
  \<open>stmt_terminates_labeled\<close> and what it is mutually recursive with. \<open>chain_terminates\<close> is
  the loop over a label chain (at most eight names); \<open>clause_chain_terminates\<close> follows a
  trailing \<open>fallthrough\<close> into the next clause; \<open>all_clause_chains\<close>, \<open>all_clauses\<close> and
  \<open>select_terminates\<close> are the loops over the clauses. The tests of \<open>switch_terminates\<close> for a
  default clause and for breaks do not recurse and come first.
\<close>

definition has_default :: "clause list \<Rightarrow> bool" where
  "has_default cs = (\<exists>c \<in> set cs. clause_is_default c)"

lemma size_clause_body: "size_list size (clause_body c) = size c - Suc 0"
  by (cases c) simp

function stmt_terminates_labeled :: "stmt \<Rightarrow> string option list \<Rightarrow> bool \<Rightarrow> bool"
  and stmt_terminates_opt :: "stmt option \<Rightarrow> bool \<Rightarrow> bool"
  and chain_terminates :: "string option list \<Rightarrow> stmt option \<Rightarrow> bool \<Rightarrow> bool"
  and block_terminates :: "stmt list \<Rightarrow> bool \<Rightarrow> bool"
  and clause_chain_terminates :: "clause list \<Rightarrow> bool \<Rightarrow> bool"
  and all_clause_chains :: "clause list \<Rightarrow> bool \<Rightarrow> bool"
  and all_clauses :: "clause list \<Rightarrow> bool \<Rightarrow> bool"
  and select_terminates :: "clause list \<Rightarrow> string option list \<Rightarrow> bool \<Rightarrow> bool" where
  "stmt_terminates_labeled s ls strict = (case s of
       ReturnStmt \<Rightarrow> True
     | GotoStmt g \<Rightarrow> True
     | ExprStmt x \<Rightarrow> is_panic_call_stmt x
     | IfStmt t e \<Rightarrow> e \<noteq> None \<and> stmt_terminates_opt t strict \<and> stmt_terminates_opt e strict
     | IfLetStmt t e \<Rightarrow> e \<noteq> None \<and> stmt_terminates_opt t strict \<and> stmt_terminates_opt e strict
     | ForStmt c r b \<Rightarrow> if c \<or> r then False else \<not> break_targets_opt b ls False
     | SwitchStmt cs \<Rightarrow>
         if break_targets_clauses cs ls False then False
         else if \<not> has_default cs then False else all_clause_chains cs strict
     | TypeSwitch cs \<Rightarrow>
         if break_targets_clauses cs ls False then False
         else if \<not> has_default cs then False else all_clauses cs strict
     | SelectStmt cs \<Rightarrow> select_terminates cs ls strict
     | BlockStmt ss \<Rightarrow> block_terminates ss strict
     | ArenaBlock b \<Rightarrow> stmt_terminates_opt b strict
     | LabelStmt l b \<Rightarrow> chain_terminates [l] b strict
     | _ \<Rightarrow> False)"
| "stmt_terminates_opt os strict =
     (case os of None \<Rightarrow> False | Some s \<Rightarrow> stmt_terminates_labeled s [] strict)"
| "chain_terminates chain os strict = (case os of None \<Rightarrow> False | Some s \<Rightarrow>
     (case s of
        LabelStmt l inner \<Rightarrow>
          if length chain = 8 then False else chain_terminates (chain @ [l]) inner strict
      | _ \<Rightarrow> stmt_terminates_labeled s chain strict))"
| "block_terminates ss strict = (case ss of [] \<Rightarrow> False | s # rest \<Rightarrow>
     if strict \<and> rest \<noteq> [] then block_terminates rest strict
     else stmt_terminates_labeled s [] strict \<or> (\<not> strict \<and> block_terminates rest strict))"
| "clause_chain_terminates cs strict = (case cs of [] \<Rightarrow> False | c # rest \<Rightarrow>
     if clause_ends_in_fallthrough (clause_body c) then clause_chain_terminates rest strict
     else block_terminates (clause_body c) strict)"
| "all_clause_chains cs strict = (case cs of [] \<Rightarrow> True | c # rest \<Rightarrow>
     clause_chain_terminates cs strict \<and> all_clause_chains rest strict)"
| "all_clauses cs strict = (case cs of [] \<Rightarrow> True | c # rest \<Rightarrow>
     block_terminates (clause_body c) strict \<and> all_clauses rest strict)"
| "select_terminates cs ls strict = (case cs of [] \<Rightarrow> True | c # rest \<Rightarrow>
     if break_targets_list (clause_body c) ls False then False
     else if \<not> block_terminates (clause_body c) strict then False
     else select_terminates rest ls strict)"

  by pat_completeness auto
termination
  by (relation "measure (case_sum
        (case_sum (case_sum (\<lambda>(s, ls, strict). 2 * size s) (\<lambda>(os, strict). 2 * size_option size os))
                  (case_sum (\<lambda>(chain, os, strict). 2 * size_option size os)
                            (\<lambda>(ss, strict). 2 * size_list size ss)))
        (case_sum (case_sum (\<lambda>(cs, strict). 2 * size_list size cs) (\<lambda>(cs, strict). 2 * size_list size cs + 1))
                  (case_sum (\<lambda>(cs, strict). 2 * size_list size cs) (\<lambda>(cs, ls, strict). 2 * size_list size cs))))")
     (auto simp: size_clause_body)
abbreviation stmt_terminates :: "stmt \<Rightarrow> bool \<Rightarrow> bool" where
  "stmt_terminates s strict \<equiv> stmt_terminates_labeled s [] strict"

definition stmt_is_terminating :: "stmt \<Rightarrow> bool" where
  "stmt_is_terminating body = stmt_terminates body (contains_goto body)"

declare stmt_terminates_labeled.simps [simp del] stmt_terminates_opt.simps [simp del]
  chain_terminates.simps [simp del] block_terminates.simps [simp del]
  clause_chain_terminates.simps [simp del] all_clause_chains.simps [simp del]
  all_clauses.simps [simp del] select_terminates.simps [simp del]

lemmas terminates_unfold =
  stmt_terminates_labeled.simps [of ReturnStmt] stmt_terminates_labeled.simps [of "GotoStmt g" for g]
  stmt_terminates_labeled.simps [of "ExprStmt x" for x]
  stmt_terminates_labeled.simps [of "IfStmt t e" for t e]
  stmt_terminates_labeled.simps [of "IfLetStmt t e" for t e]
  stmt_terminates_labeled.simps [of "ForStmt c r b" for c r b]
  stmt_terminates_labeled.simps [of "SwitchStmt cs" for cs]
  stmt_terminates_labeled.simps [of "TypeSwitch cs" for cs]
  stmt_terminates_labeled.simps [of "SelectStmt cs" for cs]
  stmt_terminates_labeled.simps [of "BlockStmt ss" for ss]
  stmt_terminates_labeled.simps [of "ArenaBlock b" for b]
  stmt_terminates_labeled.simps [of "LabelStmt l b" for l b]
  stmt_terminates_labeled.simps [of "UnsafeStmt b" for b]
  stmt_terminates_labeled.simps [of "ComptimeBlock b" for b]
  stmt_terminates_labeled.simps [of BreakStmt]
  stmt_terminates_labeled.simps [of "BreakLabelStmt l" for l]
  stmt_terminates_labeled.simps [of ContinueStmt]
  stmt_terminates_labeled.simps [of "ContinueLabelStmt l" for l]
  stmt_terminates_labeled.simps [of FallthroughStmt] stmt_terminates_labeled.simps [of OtherStmt]
  stmt_terminates_opt.simps [of None] stmt_terminates_opt.simps [of "Some s" for s]
  chain_terminates.simps [of _ None] chain_terminates.simps [of _ "Some s" for s]
  block_terminates.simps [of "[]"] block_terminates.simps [of "s # ss" for s ss]
  clause_chain_terminates.simps [of "[]"] clause_chain_terminates.simps [of "c # cs" for c cs]
  all_clause_chains.simps [of "[]"] all_clause_chains.simps [of "c # cs" for c cs]
  all_clauses.simps [of "[]"] all_clauses.simps [of "c # cs" for c cs]
  select_terminates.simps [of "[]"] select_terminates.simps [of "c # cs" for c cs]

lemmas terminates_simps [simp] = terminates_unfold [simplified]

text \<open>A statement judged with no labels is the bottom of an empty label chain.\<close>

lemma stmt_terminates_chain:
  "stmt_terminates s strict = chain_terminates [] (Some s) strict"
  by (cases s) simp_all

end
