(* ===== verification/Terminating_Sound.thy ===== *)
theory Terminating_Sound
  imports Terminating
begin

text \<open>
  Soundness of the missing-return analysis. The control flow of statements is given as a
  nondeterministic big-step relation: conditions, case tags and channel readiness are chosen
  freely, only the way control leaves a statement is tracked. A statement is entered at its
  beginning (entry \<open>None\<close>) or, as the target of a \<open>goto\<close>, at a label inside it (entry
  \<open>Some l\<close>). A body that the analysis accepts never leaves by falling off its end.
\<close>

section \<open>Control flow of statements\<close>

datatype outcome =
    Normal
  | Returned
  | Panicked
  | Broke "string option"
  | Continued "string option"
  | Fell
  | Jumped string

text \<open>
  A loop, switch or select that carries the label chain \<open>ls\<close> is the target of a bare
  \<open>break\<close> and of a \<open>break\<close> with one of its labels; a loop likewise for \<open>continue\<close>.
\<close>

definition breaks_to :: "string option list \<Rightarrow> outcome \<Rightarrow> bool" where
  "breaks_to ls out = (out = Broke None \<or> (\<exists>l. out = Broke (Some l) \<and> Some l \<in> set ls))"

definition continues_to :: "string option list \<Rightarrow> outcome \<Rightarrow> bool" where
  "continues_to ls out =
     (out = Normal \<or> out = Continued None \<or> (\<exists>l. out = Continued (Some l) \<and> Some l \<in> set ls))"

inductive exec :: "string option list \<Rightarrow> string option \<Rightarrow> stmt \<Rightarrow> outcome \<Rightarrow> bool"
  and exec_opt :: "string option list \<Rightarrow> string option \<Rightarrow> stmt option \<Rightarrow> outcome \<Rightarrow> bool"
  and execs :: "string option \<Rightarrow> stmt list \<Rightarrow> outcome \<Rightarrow> bool"
  and exec_clauses :: "string option \<Rightarrow> clause list \<Rightarrow> outcome \<Rightarrow> bool" where
  ReturnE: "exec ls None ReturnStmt Returned"
| GotoE: "exec ls None (GotoStmt g) (Jumped g)"
| PanicE: "is_panic_call_stmt x \<Longrightarrow> exec ls None (ExprStmt x) Panicked"
| ExprE: "\<not> is_panic_call_stmt x \<Longrightarrow> out \<in> {Normal, Returned, Panicked} \<Longrightarrow> exec ls None (ExprStmt x) out"
| OtherE: "out \<in> {Normal, Returned, Panicked} \<Longrightarrow> exec ls None OtherStmt out"
| BreakE: "exec ls None BreakStmt (Broke None)"
| BreakLabelE: "exec ls None (BreakLabelStmt (Some l)) (Broke (Some l))"
| ContinueE: "exec ls None ContinueStmt (Continued None)"
| ContinueLabelE: "exec ls None (ContinueLabelStmt (Some l)) (Continued (Some l))"
| FallthroughE: "exec ls None FallthroughStmt Fell"
| IfThenE: "exec_opt [] entry t out \<Longrightarrow> exec ls entry (IfStmt t e) out"
| IfElseE: "exec_opt [] entry e out \<Longrightarrow> exec ls entry (IfStmt t e) out"
| IfLetThenE: "exec_opt [] entry t out \<Longrightarrow> exec ls entry (IfLetStmt t e) out"
| IfLetElseE: "exec_opt [] entry e out \<Longrightarrow> exec ls entry (IfLetStmt t e) out"
| ForExitE: "c \<or> r \<Longrightarrow> exec ls None (ForStmt c r b) Normal"
| ForNextE: "exec_opt [] entry b out1 \<Longrightarrow> continues_to ls out1 \<Longrightarrow> exec ls None (ForStmt c r b) out
    \<Longrightarrow> exec ls entry (ForStmt c r b) out"
| ForBreakE: "exec_opt [] entry b out1 \<Longrightarrow> breaks_to ls out1 \<Longrightarrow> exec ls entry (ForStmt c r b) Normal"
| ForLeaveE: "exec_opt [] entry b out \<Longrightarrow> \<not> continues_to ls out \<Longrightarrow> \<not> breaks_to ls out
    \<Longrightarrow> exec ls entry (ForStmt c r b) out"
| SwitchNoneE: "\<not> has_default cs \<Longrightarrow> exec ls None (SwitchStmt cs) Normal"
| SwitchBreakE: "exec_clauses entry suffix out \<Longrightarrow> cs = prefix @ suffix \<Longrightarrow> breaks_to ls out
    \<Longrightarrow> exec ls entry (SwitchStmt cs) Normal"
| SwitchE: "exec_clauses entry suffix out \<Longrightarrow> cs = prefix @ suffix \<Longrightarrow> \<not> breaks_to ls out
    \<Longrightarrow> exec ls entry (SwitchStmt cs) out"
| TypeSwitchNoneE: "\<not> has_default cs \<Longrightarrow> exec ls None (TypeSwitch cs) Normal"
| TypeSwitchBreakE: "execs entry (clause_body c) out \<Longrightarrow> c \<in> set cs \<Longrightarrow> breaks_to ls out
    \<Longrightarrow> exec ls entry (TypeSwitch cs) Normal"
| TypeSwitchE: "execs entry (clause_body c) out \<Longrightarrow> c \<in> set cs \<Longrightarrow> \<not> breaks_to ls out
    \<Longrightarrow> exec ls entry (TypeSwitch cs) out"
| SelectBreakE: "execs entry (clause_body c) out \<Longrightarrow> c \<in> set cs \<Longrightarrow> breaks_to ls out
    \<Longrightarrow> exec ls entry (SelectStmt cs) Normal"
| SelectE: "execs entry (clause_body c) out \<Longrightarrow> c \<in> set cs \<Longrightarrow> \<not> breaks_to ls out
    \<Longrightarrow> exec ls entry (SelectStmt cs) out"
| BlockE: "execs entry ss out \<Longrightarrow> exec ls entry (BlockStmt ss) out"
| ArenaE: "exec_opt [] entry b out \<Longrightarrow> exec ls entry (ArenaBlock b) out"
| UnsafeE: "exec_opt [] entry b out \<Longrightarrow> exec ls entry (UnsafeStmt b) out"
| ComptimeE: "exec_opt [] entry b out \<Longrightarrow> exec ls entry (ComptimeBlock b) out"
| LabelE: "exec_opt (l # ls) entry b out \<Longrightarrow> exec ls entry (LabelStmt l b) out"
| LabelTargetE: "exec_opt (l # ls) None b out \<Longrightarrow> exec ls l (LabelStmt l b) out"
| NoStmtE: "exec_opt ls None None Normal"
| SomeStmtE: "exec ls entry s out \<Longrightarrow> exec_opt ls entry (Some s) out"
| NilE: "execs None [] Normal"
| ConsE: "exec [] entry s Normal \<Longrightarrow> execs None ss out \<Longrightarrow> execs entry (s # ss) out"
| ConsStopE: "exec [] entry s out \<Longrightarrow> out \<noteq> Normal \<Longrightarrow> execs entry (s # ss) out"
| ConsSkipE: "execs (Some l) ss out \<Longrightarrow> execs (Some l) (s # ss) out"
| ClauseE: "execs entry (clause_body c) out \<Longrightarrow> out \<noteq> Fell \<or> cs = [] \<Longrightarrow> exec_clauses entry (c # cs) out"
| ClauseFallE: "execs entry (clause_body c) Fell \<Longrightarrow> exec_clauses None cs out \<Longrightarrow> exec_clauses entry (c # cs) out"

text \<open>A function body restarts at the label of every \<open>goto\<close> it leaves with.\<close>

inductive func_run :: "string option \<Rightarrow> stmt \<Rightarrow> outcome \<Rightarrow> bool" where
  RunE: "exec [] entry body out \<Longrightarrow> \<forall>l. out \<noteq> Jumped l \<Longrightarrow> func_run entry body out"
| RunJumpE: "exec [] entry body (Jumped l) \<Longrightarrow> func_run (Some l) body out \<Longrightarrow> func_run entry body out"

text \<open>The example of the comment at \<open>block_terminates\<close>.\<close>

definition goto_skip_body :: stmt where
  "goto_skip_body = BlockStmt [GotoStmt ''skip'', ReturnStmt, LabelStmt (Some ''skip'') (Some OtherStmt)]"

section \<open>Lists of clauses\<close>

lemma contains_goto_clause_body [simp]: "contains_goto_clause c = contains_goto_list (clause_body c)"
  by (cases c) simp

lemma break_targets_clause_body [simp]:
  "break_targets_clause c ls crossed = break_targets_list (clause_body c) ls crossed"
  by (cases c) simp

lemma contains_goto_clauses_iff:
  "contains_goto_clauses cs = (\<exists>c \<in> set cs. contains_goto_list (clause_body c))"
  by (induction cs) auto

lemma break_targets_clauses_iff:
  "break_targets_clauses cs ls crossed = (\<exists>c \<in> set cs. break_targets_list (clause_body c) ls crossed)"
  by (induction cs) auto

lemma all_clauses_iff: "all_clauses cs strict = (\<forall>c \<in> set cs. block_terminates (clause_body c) strict)"
  by (induction cs) auto

lemma select_terminates_iff:
  "select_terminates cs ls strict =
     (\<forall>c \<in> set cs. \<not> break_targets_list (clause_body c) ls False \<and> block_terminates (clause_body c) strict)"
  by (induction cs) auto

lemma all_clause_chains_suffix: "all_clause_chains (cs @ ds) strict \<Longrightarrow> all_clause_chains ds strict"
  by (induction cs) auto

lemma stmt_terminates_opt_chain: "stmt_terminates_opt os strict = chain_terminates [] os strict"
  using stmt_terminates_chain by (cases os) simp_all

lemmas clause_iffs = contains_goto_clauses_iff break_targets_clauses_iff all_clauses_iff select_terminates_iff

inductive_cases execs_NilE: "execs entry [] out"
inductive_cases exec_FallthroughE: "exec ls entry FallthroughStmt out"

section \<open>No goto, no jump\<close>

lemma exec_no_jump:
  "exec ls entry s out \<Longrightarrow> \<not> contains_goto s \<Longrightarrow> out \<noteq> Jumped l"
  "exec_opt ls entry os out \<Longrightarrow> \<not> contains_goto_opt os \<Longrightarrow> out \<noteq> Jumped l"
  "execs entry ss out \<Longrightarrow> \<not> contains_goto_list ss \<Longrightarrow> out \<noteq> Jumped l"
  "exec_clauses entry cs out \<Longrightarrow> \<not> contains_goto_clauses cs \<Longrightarrow> out \<noteq> Jumped l"
  by (induction rule: exec_exec_opt_execs_exec_clauses.inducts) (auto simp: clause_iffs)

section \<open>Breaks that leave a construct are seen\<close>

definition hits :: "string option list \<Rightarrow> bool \<Rightarrow> outcome \<Rightarrow> bool" where
  "hits ls crossed out = ((\<exists>l. out = Broke (Some l) \<and> Some l \<in> set ls) \<or> (\<not> crossed \<and> out = Broke None))"

lemma hits_simps [simp]:
  "\<not> hits ls crossed Normal" "\<not> hits ls crossed Returned" "\<not> hits ls crossed Panicked"
  "\<not> hits ls crossed Fell" "\<not> hits ls crossed (Jumped g)" "\<not> hits ls crossed (Continued c)"
  "hits ls crossed (Broke None) = (\<not> crossed)" "hits ls crossed (Broke (Some l)) = (Some l \<in> set ls)"
  by (auto simp: hits_def)

lemma hits_breaks_to: "hits ls False out = breaks_to ls out"
  by (auto simp: hits_def breaks_to_def)

lemma hits_crossed: "hits ls crossed out \<Longrightarrow> \<not> breaks_to ms out \<Longrightarrow> hits ls True out"
  by (auto simp: hits_def breaks_to_def)

lemma exec_breaks_seen:
  "exec ls entry s out \<Longrightarrow> hits ms crossed out \<Longrightarrow> break_targets s ms crossed"
  "exec_opt ls entry os out \<Longrightarrow> hits ms crossed out \<Longrightarrow> break_targets_opt os ms crossed"
  "execs entry ss out \<Longrightarrow> hits ms crossed out \<Longrightarrow> break_targets_list ss ms crossed"
  "exec_clauses entry cs out \<Longrightarrow> hits ms crossed out \<Longrightarrow> break_targets_clauses cs ms crossed"
  by (induction arbitrary: crossed and crossed and crossed and crossed
        rule: exec_exec_opt_execs_exec_clauses.inducts)
     (auto simp: clause_iffs label_matches_def dest: hits_crossed)

section \<open>A trailing fallthrough is not the end of a clause\<close>

lemma exec_fallthrough_end:
  "exec ls entry s out \<Longrightarrow> strip_labels (Some s) = Some FallthroughStmt \<Longrightarrow> out = Fell"
  "exec_opt ls entry os out \<Longrightarrow> strip_labels os = Some FallthroughStmt \<Longrightarrow> out = Fell"
  "execs entry ss out \<Longrightarrow> clause_ends_in_fallthrough ss \<Longrightarrow> out \<noteq> Normal"
  "exec_clauses entry cs out \<Longrightarrow> True"
proof (induction rule: exec_exec_opt_execs_exec_clauses.inducts)
  case (ConsE entry s ss out)
  then show ?case
    by (cases ss) (auto simp: clause_ends_in_fallthrough_def elim: execs_NilE)
next
  case (ConsSkipE l ss out s)
  then show ?case
    by (cases ss) (auto simp: clause_ends_in_fallthrough_def elim: execs_NilE)
qed (auto simp: clause_ends_in_fallthrough_def)

section \<open>A terminating statement does not complete\<close>

text \<open>What a construct catches as its own break was seen by the walk over its body.\<close>

lemma breaks_to_seen:
  assumes "breaks_to ls out" and "set ls \<subseteq> set chain"
  shows "exec_opt ms entry os out \<Longrightarrow> break_targets_opt os chain False"
    and "execs entry ss out \<Longrightarrow> break_targets_list ss chain False"
    and "exec_clauses entry cs out \<Longrightarrow> break_targets_clauses cs chain False"
proof -
  have "hits chain False out"
    using assms by (auto simp: hits_breaks_to breaks_to_def)
  then show "exec_opt ms entry os out \<Longrightarrow> break_targets_opt os chain False"
    "execs entry ss out \<Longrightarrow> break_targets_list ss chain False"
    "exec_clauses entry cs out \<Longrightarrow> break_targets_clauses cs chain False"
    by (auto dest: exec_breaks_seen(2-4))
qed

lemma not_completed [simp]: "continues_to ls Normal" "\<not> breaks_to ls Normal"
  by (simp_all add: continues_to_def breaks_to_def)

lemmas sound_simps = clause_iffs stmt_terminates_opt_chain

lemma exec_sound:
  "exec ls entry s out \<Longrightarrow> set ls \<subseteq> set chain \<Longrightarrow> strict \<or> entry = None
     \<Longrightarrow> chain_terminates chain (Some s) strict \<Longrightarrow> out \<noteq> Normal"
  "exec_opt ls entry os out \<Longrightarrow> set ls \<subseteq> set chain \<Longrightarrow> strict \<or> entry = None
     \<Longrightarrow> chain_terminates chain os strict \<Longrightarrow> out \<noteq> Normal"
  "execs entry ss out \<Longrightarrow> strict \<or> entry = None \<Longrightarrow> block_terminates ss strict \<Longrightarrow> out \<noteq> Normal"
  "exec_clauses entry cs out \<Longrightarrow> strict \<or> entry = None \<Longrightarrow> all_clause_chains cs strict \<Longrightarrow> out \<noteq> Normal"
proof (induction arbitrary: chain and chain rule: exec_exec_opt_execs_exec_clauses.inducts)
  case (ForBreakE entry b out1 ls c r)
  then show ?case using breaks_to_seen(1) by (auto split: if_splits)
next
  case (SwitchBreakE entry suffix out cs prefix ls)
  have seen: "break_targets_clauses suffix chain False"
    using breaks_to_seen(3) [OF SwitchBreakE.hyps(3) SwitchBreakE.prems(1) SwitchBreakE.hyps(1)] .
  then show ?case using SwitchBreakE.hyps(2) SwitchBreakE.prems(3) by (auto simp: clause_iffs split: if_splits)
next
  case (SwitchE entry suffix out cs prefix ls)
  then show ?case using all_clause_chains_suffix [of prefix suffix] by (auto split: if_splits)
next
  case (TypeSwitchBreakE entry c out cs ls)
  have seen: "break_targets_list (clause_body c) chain False"
    using breaks_to_seen(2) [OF TypeSwitchBreakE.hyps(3) TypeSwitchBreakE.prems(1) TypeSwitchBreakE.hyps(1)] .
  then show ?case using TypeSwitchBreakE.hyps(2) TypeSwitchBreakE.prems(3) by (auto simp: clause_iffs split: if_splits)
next
  case (SelectBreakE entry c out cs ls)
  have seen: "break_targets_list (clause_body c) chain False"
    using breaks_to_seen(2) [OF SelectBreakE.hyps(3) SelectBreakE.prems(1) SelectBreakE.hyps(1)] .
  then show ?case using SelectBreakE.hyps(2) SelectBreakE.prems(3) by (auto simp: clause_iffs split: if_splits)
next
  case (ConsE entry s ss out)
  have "\<not> stmt_terminates s strict"
    using ConsE.IH(1) [of "[]"] ConsE.prems(1) by (auto simp: stmt_terminates_chain simp del: terminates_simps)
  then show ?case
    using ConsE.IH(2) ConsE.prems(2) by (cases ss) (auto split: if_splits)
next
  case (ConsSkipE l ss out s)
  then show ?case by (cases ss) (auto elim: execs_NilE)
next
  case (ClauseE entry c out cs)
  then show ?case using exec_fallthrough_end(3) by (auto split: if_splits)
next
  case (SomeStmtE ls entry s out)
  then show ?case by blast
next
  case (LabelE l ls entry b out)
  then show ?case using LabelE.IH [of "chain @ [l]"] by (fastforce split: if_splits)
next
  case (LabelTargetE l ls b out)
  then show ?case using LabelTargetE.IH [of "chain @ [l]"] by (fastforce split: if_splits)
qed (auto simp: clause_iffs stmt_terminates_opt_chain split: if_splits)

lemma stmt_terminates_sound:
  "exec [] entry s out \<Longrightarrow> strict \<or> entry = None \<Longrightarrow> stmt_terminates s strict \<Longrightarrow> out \<noteq> Normal"
  using exec_sound(1) [of "[]" entry s out "[]" strict] stmt_terminates_chain by simp

section \<open>The public entry point\<close>

lemma func_run_strict: "func_run entry body out \<Longrightarrow> stmt_terminates body True \<Longrightarrow> out \<noteq> Normal"
  by (induction rule: func_run.induct) (auto dest: stmt_terminates_sound [where strict = True])



lemma strict_relaxed:
  "stmt_terminates_labeled s ls True \<Longrightarrow> stmt_terminates_labeled s ls False"
  "stmt_terminates_opt os True \<Longrightarrow> stmt_terminates_opt os False"
  "chain_terminates chain os True \<Longrightarrow> chain_terminates chain os False"
  "block_terminates ss True \<Longrightarrow> block_terminates ss False"
  "clause_chain_terminates cs True \<Longrightarrow> clause_chain_terminates cs False"
  "all_clause_chains cs True \<Longrightarrow> all_clause_chains cs False"
  "all_clauses cs True \<Longrightarrow> all_clauses cs False"
  "select_terminates cs ls True \<Longrightarrow> select_terminates cs ls False"
proof (induction s ls True and os True and chain os True and ss True and cs True and cs True and cs True
    and cs ls True
    rule: stmt_terminates_labeled_stmt_terminates_opt_chain_terminates_block_terminates_clause_chain_terminates_all_clause_chains_all_clauses_select_terminates.induct)
  case (1 s ls)
  then show ?case by (cases s) (auto split: if_splits)
next
  case (2 os)
  then show ?case by (cases os) auto
next
  case (3 chain os)
  then show ?case by (auto simp: chain_terminates.simps [of chain os] split: option.splits stmt.splits if_splits)
next
  case (4 ss)
  then show ?case by (cases ss) (auto split: if_splits)
next
  case (5 cs)
  then show ?case by (cases cs) (auto split: if_splits)
next
  case (6 cs)
  then show ?case by (cases cs) (auto split: if_splits)
next
  case (7 cs)
  then show ?case by (cases cs) (auto split: if_splits)
next
  case (8 cs ls)
  then show ?case by (cases cs) (auto split: if_splits)
qed

text \<open>
  Strict mode is the conservative one: what Go's last-statement rule accepts, the relaxed
  any-statement rule accepts too.
\<close>

theorem strict_implies_relaxed: "stmt_terminates s True \<Longrightarrow> stmt_terminates s False"
  by (rule strict_relaxed(1))

theorem strict_implies_relaxed_witness:
  "stmt_terminates (BlockStmt [OtherStmt, ReturnStmt]) True \<and> stmt_terminates (BlockStmt [OtherStmt, ReturnStmt]) False"
  using strict_implies_relaxed [of "BlockStmt [OtherStmt, ReturnStmt]"] by simp

text \<open>
  The goto pre-scan is needed. The relaxed rule alone accepts the body
  \<open>goto skip; return; skip: x\<close>, which falls off its end; the entry point rejects it.
\<close>

theorem relaxed_rule_unsound_with_goto:
  "stmt_terminates goto_skip_body False \<and> func_run None goto_skip_body Normal
   \<and> \<not> stmt_is_terminating goto_skip_body"
proof -
  have "exec [] None goto_skip_body (Jumped ''skip'')"
    unfolding goto_skip_body_def by (auto intro!: BlockE ConsStopE GotoE)
  moreover have "exec [] (Some ''skip'') goto_skip_body Normal"
    unfolding goto_skip_body_def
    by (rule BlockE, rule ConsSkipE, rule ConsSkipE, rule ConsE [OF LabelTargetE NilE])
       (auto intro: SomeStmtE OtherE)
  ultimately have "func_run None goto_skip_body Normal"
    by (auto intro: RunE RunJumpE)
  then show ?thesis
    by (simp add: goto_skip_body_def stmt_is_terminating_def)
qed

end
