(* ===== verification/Types.thy ===== *)
theory Types
  imports Prelude
begin

text \<open>
  The type representation of \<open>include/types.h\<close> and the operations of \<open>src/types/types.c\<close>:
  constructors with their sizes and printed names, structural equality, substitution and
  unification for generic calls, implicit compatibility, the classification predicates and
  method-name mangling. A \<open>Type*\<close> is a value of \<open>ty option\<close>, \<open>None\<close> for the null pointer.
  Types are finite trees: a self-referential struct is cut at its inner occurrence, whose
  fields no operation of the file looks at (none follows a pointer into a struct's fields).
\<close>

section \<open>The Type structure\<close>

type_synonym size_t = "64 word"

datatype basic_kind =
    TYPE_VOID | TYPE_BOOL
  | TYPE_INT8 | TYPE_INT16 | TYPE_INT32 | TYPE_INT64
  | TYPE_UINT8 | TYPE_UINT16 | TYPE_UINT32 | TYPE_UINT64
  | TYPE_FLOAT32 | TYPE_FLOAT64 | TYPE_STRING | TYPE_CHAR
  | TYPE_PACKAGE | TYPE_UNKNOWN | TYPE_POISON

datatype mutability_kind = MUTABILITY_IMMUTABLE | MUTABILITY_MUTABLE

datatype ownership_kind = OWNERSHIP_NONE | OWNERSHIP_OWNED | OWNERSHIP_BORROWED | OWNERSHIP_SHARED

datatype channel_pattern =
    CHAN_PATTERN_BASIC | CHAN_PATTERN_PUB | CHAN_PATTERN_SUB | CHAN_PATTERN_REQ
  | CHAN_PATTERN_REP | CHAN_PATTERN_PUSH | CHAN_PATTERN_PULL

text \<open>
  The kind and the union member it selects are one constructor of \<open>ty_data\<close>; the kinds that
  carry no data are \<open>DBasic\<close>.
\<close>

datatype ty = Type (ty_data: ty_data) (ty_size: size_t) (ty_align: size_t)
    (ty_name: "string option") (ty_owner: "string option")
and ty_data =
    DBasic basic_kind
  | DArray ty size_t bool
  | DSlice ty
  | DMap ty ty
  | DChannel ty channel_pattern "string option"
  | DFunction "ty option list" "ty option" bool bool
  | DPointer ty
  | DReference ty bool
  | DStruct "struct_field list" "string option"
  | DEnum "string option"
  | DInterface "string option"
  | DErrorUnion ty "ty option"
  | DNullable ty
  | DQualified ty ownership_kind mutability_kind
  | DConcept string
  | DParam string int "ty option"
  | DParamHkt string int size_t string "ty option"
  | DConstructor string size_t string
  | DApplication ty "ty list"
and struct_field = StructField (sf_name: string) (sf_type: "ty option") (sf_offset: size_t)
    (sf_embedded: bool)

section \<open>Constructors\<close>

definition type_to_string :: "ty option \<Rightarrow> string" where
  "type_to_string t = (case t of None \<Rightarrow> ''null'' | Some x \<Rightarrow>
     (case ty_data x of
        DStruct fs nm \<Rightarrow> (case nm of Some n \<Rightarrow> n | None \<Rightarrow> ''struct'')
      | _ \<Rightarrow> (case ty_name x of Some n \<Rightarrow> n | None \<Rightarrow> ''?'')))"

text \<open>The bare name field with its fallback glyph, and \<open>snprintf\<close> into an \<open>n\<close>-byte buffer.\<close>

definition name_or_q :: "ty \<Rightarrow> string" where
  "name_or_q t = (case ty_name t of Some n \<Rightarrow> n | None \<Rightarrow> ''?'')"

definition snprintf :: "nat \<Rightarrow> string \<Rightarrow> string" where
  "snprintf n s = take (n - 1) s"

definition type_void :: ty where "type_void = Type (DBasic TYPE_VOID) 0 1 (Some ''void'') None"
definition type_bool :: ty where "type_bool = Type (DBasic TYPE_BOOL) 1 1 (Some ''bool'') None"
definition type_poison :: ty where "type_poison = Type (DBasic TYPE_POISON) 0 1 (Some ''<poisoned>'') None"
definition type_string_type :: ty where "type_string_type = Type (DBasic TYPE_STRING) 8 8 (Some ''string'') None"
definition type_char :: ty where "type_char = Type (DBasic TYPE_CHAR) 1 1 (Some ''char'') None"

definition type_int :: "int \<Rightarrow> bool \<Rightarrow> ty option" where
  "type_int bits is_signed =
     (if bits = 8 then Some (Type (DBasic (if is_signed then TYPE_INT8 else TYPE_UINT8)) 1 1
        (Some (if is_signed then ''int8'' else ''uint8'')) None)
      else if bits = 16 then Some (Type (DBasic (if is_signed then TYPE_INT16 else TYPE_UINT16)) 2 2
        (Some (if is_signed then ''int16'' else ''uint16'')) None)
      else if bits = 32 then Some (Type (DBasic (if is_signed then TYPE_INT32 else TYPE_UINT32)) 4 4
        (Some (if is_signed then ''int32'' else ''uint32'')) None)
      else if bits = 64 then Some (Type (DBasic (if is_signed then TYPE_INT64 else TYPE_UINT64)) 8 8
        (Some (if is_signed then ''int64'' else ''uint64'')) None)
      else None)"

definition type_float :: "int \<Rightarrow> ty option" where
  "type_float bits =
     (if bits = 32 then Some (Type (DBasic TYPE_FLOAT32) 4 4 (Some ''float32'') None)
      else if bits = 64 then Some (Type (DBasic TYPE_FLOAT64) 8 8 (Some ''float64'') None)
      else None)"

definition type_array :: "ty option \<Rightarrow> size_t \<Rightarrow> ty option" where
  "type_array elem len = (case elem of None \<Rightarrow> None | Some e \<Rightarrow>
     Some (Type (DArray e len False) (ty_size e * len) (ty_align e)
       (Some (snprintf 64 (''['' @ nat_to_dec (unat len) @ '']'' @ name_or_q e))) None))"

text \<open>
  \<open>type_array_mark_comptime\<close> names the dimension after the length expression when that is a
  plain identifier; \<open>dim\<close> is its name, \<open>None\<close> for any other expression.
\<close>

definition type_array_mark_comptime :: "ty option \<Rightarrow> string option \<Rightarrow> ty option" where
  "type_array_mark_comptime t dim = (case t of None \<Rightarrow> None | Some x \<Rightarrow>
     (case ty_data x of
        DArray e len c \<Rightarrow>
          Some (Type (DArray e len True) (ty_size x) (ty_align x)
            (Some (''['' @ (case dim of Some d \<Rightarrow> d | None \<Rightarrow> ''comptime'') @ '']'' @ name_or_q e))
            (ty_owner x))
      | _ \<Rightarrow> Some x))"

definition type_slice :: "ty option \<Rightarrow> ty option" where
  "type_slice elem = (case elem of None \<Rightarrow> None | Some e \<Rightarrow>
     Some (Type (DSlice e) (8 + 8 + 8) 8 (Some (snprintf 64 (''[]'' @ type_to_string elem))) None))"

definition type_map :: "ty option \<Rightarrow> ty option \<Rightarrow> ty option" where
  "type_map key val = (case key of None \<Rightarrow> None | Some k \<Rightarrow> (case val of None \<Rightarrow> None | Some v \<Rightarrow>
     Some (Type (DMap k v) 8 8
       (Some (snprintf 128 (''map['' @ type_to_string key @ '']'' @ type_to_string val))) None)))"

fun pattern_str :: "channel_pattern \<Rightarrow> string" where
  "pattern_str CHAN_PATTERN_PUB = ''pub ''"
| "pattern_str CHAN_PATTERN_SUB = ''sub ''"
| "pattern_str CHAN_PATTERN_REQ = ''req ''"
| "pattern_str CHAN_PATTERN_REP = ''rep ''"
| "pattern_str CHAN_PATTERN_PUSH = ''push ''"
| "pattern_str CHAN_PATTERN_PULL = ''pull ''"
| "pattern_str CHAN_PATTERN_BASIC = ''''"

definition type_channel :: "ty option \<Rightarrow> channel_pattern \<Rightarrow> ty option" where
  "type_channel elem pat = (case elem of None \<Rightarrow> None | Some e \<Rightarrow>
     Some (Type (DChannel e pat None) 8 8
       (Some (snprintf 128 (pattern_str pat @ ''chan '' @ name_or_q e))) None))"

text \<open>
  The two passes of \<open>type_function\<close>: the size of the name, and the name written with
  \<open>strcpy\<close> and \<open>strcat\<close>. A null parameter prints as a question mark.
\<close>

definition param_string :: "ty option \<Rightarrow> string" where
  "param_string p = (case p of None \<Rightarrow> ''?'' | Some _ \<Rightarrow> type_to_string p)"

fun comma_join :: "string list \<Rightarrow> string" where
  "comma_join [] = ''''"
| "comma_join [s] = s"
| "comma_join (s # t # ss) = s @ '', '' @ comma_join (t # ss)"

definition has_return :: "ty option \<Rightarrow> bool" where
  "has_return r = (case r of None \<Rightarrow> False | Some t \<Rightarrow> ty_data t \<noteq> DBasic TYPE_VOID)"

fun params_name_size :: "nat \<Rightarrow> ty option list \<Rightarrow> nat" where
  "params_name_size i [] = 0"
| "params_name_size i (p # ps) =
     (if i > 0 then 2 else 0) + length (param_string p) + params_name_size (Suc i) ps"

definition function_name_size :: "ty option list \<Rightarrow> ty option \<Rightarrow> nat" where
  "function_name_size ps r = length ''func()'' + 1 + params_name_size 0 ps +
     (if has_return r then 1 + length (type_to_string r) else 0)"

definition function_name :: "ty option list \<Rightarrow> ty option \<Rightarrow> string" where
  "function_name ps r = ''func('' @ comma_join (map param_string ps) @ '')'' @
     (if has_return r then '' '' @ type_to_string r else '''')"

definition type_function :: "ty option list \<Rightarrow> ty option \<Rightarrow> ty" where
  "type_function ps r = Type (DFunction ps r False False) 8 8 (Some (function_name ps r)) None"

definition set_variadic :: "ty \<Rightarrow> bool \<Rightarrow> ty" where
  "set_variadic t v = (case ty_data t of
     DFunction ps r v0 c \<Rightarrow> Type (DFunction ps r v c) (ty_size t) (ty_align t) (ty_name t) (ty_owner t)
   | _ \<Rightarrow> t)"

definition type_strip_receiver :: "ty option \<Rightarrow> ty option" where
  "type_strip_receiver m = (case m of None \<Rightarrow> None | Some t \<Rightarrow>
     (case ty_data t of
        DFunction ps r v c \<Rightarrow>
          (case ps of [] \<Rightarrow> None | p # rest \<Rightarrow> Some (set_variadic (type_function rest r) v))
      | _ \<Rightarrow> None))"

definition type_pointer :: "ty option \<Rightarrow> ty option" where
  "type_pointer pointee = (case pointee of None \<Rightarrow> None | Some p \<Rightarrow>
     Some (Type (DPointer p) 8 8 (Some (snprintf 64 (''*'' @ type_to_string pointee))) None))"

definition type_reference :: "ty option \<Rightarrow> bool \<Rightarrow> ty option" where
  "type_reference rt is_mutable = (case rt of None \<Rightarrow> None | Some r \<Rightarrow>
     Some (Type (DReference r is_mutable) 8 8
       (Some (snprintf 80 ((if is_mutable then ''mut &'' else ''&'') @ type_to_string rt))) None))"

definition type_error_union :: "ty option \<Rightarrow> ty option \<Rightarrow> ty option" where
  "type_error_union val err = (case val of None \<Rightarrow> None | Some v \<Rightarrow>
     Some (Type (DErrorUnion v err) (ty_size v + 4) (if ty_align v > 4 then ty_align v else 4)
       (Some (snprintf 64 (''!'' @ type_to_string val))) None))"

definition type_nullable :: "ty option \<Rightarrow> ty option" where
  "type_nullable base = (case base of None \<Rightarrow> None | Some b \<Rightarrow>
     Some (Type (DNullable b) (ty_size b + 1) (ty_align b)
       (Some (snprintf 64 (''?'' @ type_to_string base))) None))"

fun ownership_str :: "ownership_kind \<Rightarrow> string" where
  "ownership_str OWNERSHIP_OWNED = ''owned ''"
| "ownership_str OWNERSHIP_BORROWED = ''borrowed ''"
| "ownership_str OWNERSHIP_SHARED = ''shared ''"
| "ownership_str OWNERSHIP_NONE = ''''"

definition type_qualified :: "ty option \<Rightarrow> ownership_kind \<Rightarrow> mutability_kind \<Rightarrow> ty option" where
  "type_qualified base own mut = (case base of None \<Rightarrow> None | Some b \<Rightarrow>
     Some (Type (DQualified b own mut) (ty_size b) (ty_align b)
       (Some (snprintf 128 (ownership_str own @ (if mut = MUTABILITY_MUTABLE then ''mut '' else '''')
          @ name_or_q b))) None))"

definition type_concept :: "string option \<Rightarrow> ty option" where
  "type_concept name = (case name of None \<Rightarrow> None | Some n \<Rightarrow> Some (Type (DConcept n) 0 0 (Some n) None))"

definition type_param :: "string option \<Rightarrow> int \<Rightarrow> ty option \<Rightarrow> ty option" where
  "type_param name index constraint = (case name of None \<Rightarrow> None | Some n \<Rightarrow>
     Some (Type (DParam n index constraint) 0 0 (Some n) None))"

definition type_param_hkt :: "string option \<Rightarrow> int \<Rightarrow> size_t \<Rightarrow> string option \<Rightarrow> ty option \<Rightarrow> ty option" where
  "type_param_hkt name index arity sig constraint = (case name of None \<Rightarrow> None | Some n \<Rightarrow>
     Some (Type (DParamHkt n index arity (case sig of Some k \<Rightarrow> k | None \<Rightarrow> ''* -> *'') constraint) 0 0
       (Some (snprintf (length n + 10) (n @ ''<_>''))) None))"

definition type_constructor_new :: "string option \<Rightarrow> size_t \<Rightarrow> string option \<Rightarrow> ty option" where
  "type_constructor_new name arity sig = (case name of None \<Rightarrow> None | Some n \<Rightarrow>
     Some (Type (DConstructor n arity (case sig of Some k \<Rightarrow> k | None \<Rightarrow> ''*'')) 0 0 (Some n) None))"

text \<open>
  \<open>type_application\<close> allocates \<open>application_name_size\<close> bytes and then writes
  \<open>application_name\<close> and its terminator into them.
\<close>

definition application_name_size :: "string \<Rightarrow> ty list \<Rightarrow> nat" where
  "application_name_size cname args = length cname + 3 +
     sum_list (map (\<lambda>a. case ty_name a of Some n \<Rightarrow> length n + 2 | None \<Rightarrow> 0) args)"

definition application_name :: "string \<Rightarrow> ty list \<Rightarrow> string" where
  "application_name cname args = cname @ ''<'' @ comma_join (map name_or_q args) @ ''>''"

definition type_application :: "ty option \<Rightarrow> ty list \<Rightarrow> ty option" where
  "type_application ctor args = (case ctor of None \<Rightarrow> None | Some c \<Rightarrow>
     if args = [] then None
     else Some (Type (DApplication c args) 0 0
       (case ty_name c of None \<Rightarrow> None | Some n \<Rightarrow> Some (application_name n args)) None))"

section \<open>Classification\<close>

definition basic :: "basic_kind set \<Rightarrow> ty option \<Rightarrow> bool" where
  "basic ks t = (case t of None \<Rightarrow> False | Some x \<Rightarrow>
     (case ty_data x of DBasic k \<Rightarrow> k \<in> ks | _ \<Rightarrow> False))"

definition type_is_integer :: "ty option \<Rightarrow> bool" where
  "type_is_integer = basic {TYPE_INT8, TYPE_INT16, TYPE_INT32, TYPE_INT64,
     TYPE_UINT8, TYPE_UINT16, TYPE_UINT32, TYPE_UINT64}"

definition type_is_float :: "ty option \<Rightarrow> bool" where
  "type_is_float = basic {TYPE_FLOAT32, TYPE_FLOAT64}"

definition type_is_numeric :: "ty option \<Rightarrow> bool" where
  "type_is_numeric t = (type_is_integer t \<or> type_is_float t)"

definition type_is_signed :: "ty option \<Rightarrow> bool" where
  "type_is_signed = basic {TYPE_INT8, TYPE_INT16, TYPE_INT32, TYPE_INT64, TYPE_FLOAT32, TYPE_FLOAT64}"

definition type_is_pointer_like :: "ty option \<Rightarrow> bool" where
  "type_is_pointer_like t = (case t of None \<Rightarrow> False | Some x \<Rightarrow>
     (case ty_data x of
        DPointer _ \<Rightarrow> True | DSlice _ \<Rightarrow> True | DMap _ _ \<Rightarrow> True | DChannel _ _ _ \<Rightarrow> True
      | DBasic k \<Rightarrow> k = TYPE_STRING | _ \<Rightarrow> False))"

definition type_is_nilable_ref_kind :: "ty option \<Rightarrow> bool" where
  "type_is_nilable_ref_kind t = (case t of None \<Rightarrow> False | Some x \<Rightarrow>
     (case ty_data x of
        DPointer _ \<Rightarrow> True | DSlice _ \<Rightarrow> True | DMap _ _ \<Rightarrow> True | DChannel _ _ _ \<Rightarrow> True
      | DFunction _ _ _ _ \<Rightarrow> True | _ \<Rightarrow> False))"

definition type_is_nullable :: "ty option \<Rightarrow> bool" where
  "type_is_nullable t = (case t of None \<Rightarrow> False | Some x \<Rightarrow> (case ty_data x of DNullable _ \<Rightarrow> True | _ \<Rightarrow> False))"

definition type_is_error_union :: "ty option \<Rightarrow> bool" where
  "type_is_error_union t =
     (case t of None \<Rightarrow> False | Some x \<Rightarrow> (case ty_data x of DErrorUnion _ _ \<Rightarrow> True | _ \<Rightarrow> False))"

definition type_is_error :: "ty option \<Rightarrow> bool" where
  "type_is_error t = (case t of None \<Rightarrow> False | Some x \<Rightarrow> ty_name x = Some ''error'')"

definition type_is_poison :: "ty option \<Rightarrow> bool" where
  "type_is_poison = basic {TYPE_POISON}"

definition type_is_error_result_tuple :: "ty option \<Rightarrow> bool" where
  "type_is_error_result_tuple t = (case t of None \<Rightarrow> False | Some x \<Rightarrow>
     (case ty_data x of
        DStruct fs nm \<Rightarrow> length fs = 2 \<and> type_is_error (sf_type (fs ! 1))
      | _ \<Rightarrow> False))"

definition type_size :: "ty option \<Rightarrow> size_t" where
  "type_size t = (case t of None \<Rightarrow> 0 | Some x \<Rightarrow> ty_size x)"

definition type_align :: "ty option \<Rightarrow> size_t" where
  "type_align t = (case t of None \<Rightarrow> 1 | Some x \<Rightarrow> ty_align x)"

text \<open>
  \<open>type_struct_fields_comparable\<close>, its loop over the fields, and the test of one field type.
\<close>

lemma size_ty_data: "size (ty_data t) = size t - Suc 0"
  by (cases t) simp

lemma size_sf_type: "size_option size (sf_type f) = size f - Suc 0"
  by (cases f) simp

lemma size_ty_pos [simp]: "0 < size (t :: ty)" "0 < size (f :: struct_field)"
  by (cases t, simp, cases f, simp)

lemma struct_fields_smaller [termination_simp]:
  "ty_data t = DStruct fs nm \<Longrightarrow> size_list size fs < size t"
  using size_ty_data [of t] by simp

lemma sf_type_smaller [termination_simp]: "sf_type f = Some t \<Longrightarrow> size t < Suc (size f + n)"
  using size_sf_type [of f] by auto

fun type_struct_fields_comparable :: "ty \<Rightarrow> bool"
  and fields_comparable :: "struct_field list \<Rightarrow> bool" where
  "type_struct_fields_comparable t = (case ty_data t of
     DStruct fs nm \<Rightarrow> fields_comparable fs | _ \<Rightarrow> False)"
| "fields_comparable fs = (case fs of [] \<Rightarrow> True | f # rest \<Rightarrow>
     (case sf_type f of None \<Rightarrow> False | Some t \<Rightarrow>
       (case ty_data t of
          DPointer _ \<Rightarrow> True
        | DStruct _ _ \<Rightarrow> type_struct_fields_comparable t
        | DBasic k \<Rightarrow> k \<in> {TYPE_STRING, TYPE_BOOL, TYPE_CHAR, TYPE_FLOAT32, TYPE_FLOAT64} \<or> type_is_integer (Some t)
        | _ \<Rightarrow> False) \<and> fields_comparable rest))"

section \<open>Structural equality\<close>

text \<open>
  \<open>type_equals\<close> on pointers; \<open>data_equals\<close> is its switch on two types of one kind, and the
  two list functions are its loops over the parameters and over the type arguments.
\<close>

function type_equals :: "ty option \<Rightarrow> ty option \<Rightarrow> bool"
  and data_equals :: "ty_data \<Rightarrow> ty_data \<Rightarrow> bool"
  and params_equal :: "ty option list \<Rightarrow> ty option list \<Rightarrow> bool"
  and args_equal :: "ty list \<Rightarrow> ty list \<Rightarrow> bool" where
  "type_equals a b = (case a of None \<Rightarrow> b = None | Some x \<Rightarrow>
     (case b of None \<Rightarrow> False | Some y \<Rightarrow> data_equals (ty_data x) (ty_data y)))"
| "data_equals d1 d2 = (case d1 of
     DBasic k \<Rightarrow> (case d2 of DBasic k' \<Rightarrow> k = k' | _ \<Rightarrow> False)
   | DArray e n _ \<Rightarrow> (case d2 of DArray e' n' _ \<Rightarrow> n = n' \<and> type_equals (Some e) (Some e') | _ \<Rightarrow> False)
   | DSlice e \<Rightarrow> (case d2 of DSlice e' \<Rightarrow> type_equals (Some e) (Some e') | _ \<Rightarrow> False)
   | DMap k v \<Rightarrow> (case d2 of DMap k' v' \<Rightarrow> type_equals (Some k) (Some k') \<and> type_equals (Some v) (Some v')
                   | _ \<Rightarrow> False)
   | DChannel e p _ \<Rightarrow> (case d2 of DChannel e' p' _ \<Rightarrow> p = p' \<and> type_equals (Some e) (Some e') | _ \<Rightarrow> False)
   | DFunction ps r v _ \<Rightarrow> (case d2 of DFunction ps' r' v' _ \<Rightarrow>
        v = v' \<and> length ps = length ps' \<and> params_equal ps ps' \<and> type_equals r r' | _ \<Rightarrow> False)
   | DPointer e \<Rightarrow> (case d2 of DPointer e' \<Rightarrow> type_equals (Some e) (Some e') | _ \<Rightarrow> False)
   | DReference e m \<Rightarrow> (case d2 of DReference e' m' \<Rightarrow> m = m' \<and> type_equals (Some e) (Some e') | _ \<Rightarrow> False)
   | DStruct _ _ \<Rightarrow> (case d2 of DStruct _ _ \<Rightarrow> True | _ \<Rightarrow> False)
   | DEnum _ \<Rightarrow> (case d2 of DEnum _ \<Rightarrow> True | _ \<Rightarrow> False)
   | DInterface _ \<Rightarrow> (case d2 of DInterface _ \<Rightarrow> True | _ \<Rightarrow> False)
   | DErrorUnion v e \<Rightarrow> (case d2 of DErrorUnion v' e' \<Rightarrow>
        type_equals (Some v) (Some v') \<and> type_equals e e' | _ \<Rightarrow> False)
   | DNullable e \<Rightarrow> (case d2 of DNullable e' \<Rightarrow> type_equals (Some e) (Some e') | _ \<Rightarrow> False)
   | DQualified e own mut \<Rightarrow> (case d2 of DQualified e' own' mut' \<Rightarrow>
        own = own' \<and> mut = mut' \<and> type_equals (Some e) (Some e') | _ \<Rightarrow> False)
   | DConcept _ \<Rightarrow> (case d2 of DConcept _ \<Rightarrow> True | _ \<Rightarrow> False)
   | DParam n i _ \<Rightarrow> (case d2 of DParam n' i' _ \<Rightarrow> n = n' \<and> i = i' | _ \<Rightarrow> False)
   | DParamHkt n i ar _ _ \<Rightarrow> (case d2 of DParamHkt n' i' ar' _ _ \<Rightarrow> n = n' \<and> i = i' \<and> ar = ar' | _ \<Rightarrow> False)
   | DConstructor n ar _ \<Rightarrow> (case d2 of DConstructor n' ar' _ \<Rightarrow> n = n' \<and> ar = ar' | _ \<Rightarrow> False)
   | DApplication c as \<Rightarrow> (case d2 of DApplication c' as' \<Rightarrow>
        type_equals (Some c) (Some c') \<and> length as = length as' \<and> args_equal as as' | _ \<Rightarrow> False))"
| "params_equal ps qs = (case ps of [] \<Rightarrow> True | p # ps' \<Rightarrow>
     (case qs of [] \<Rightarrow> True | q # qs' \<Rightarrow> type_equals p q \<and> params_equal ps' qs'))"
| "args_equal as bs = (case as of [] \<Rightarrow> True | a # as' \<Rightarrow>
     (case bs of [] \<Rightarrow> True | b # bs' \<Rightarrow> type_equals (Some a) (Some b) \<and> args_equal as' bs'))"
  by pat_completeness auto
termination
  by (relation "measure (case_sum
        (case_sum (\<lambda>(a, b). 2 * size_option size a) (\<lambda>(d, e). 2 * size d + 1))
        (case_sum (\<lambda>(ps, qs). 2 * size_list (size_option size) ps) (\<lambda>(as, bs). 2 * size_list size as + 1)))")
     (auto simp: size_ty_data)

declare type_equals.simps [simp del] data_equals.simps [simp del] params_equal.simps [simp del]
  args_equal.simps [simp del]

lemmas equals_unfold =
  type_equals.simps [of None] type_equals.simps [of "Some x" None for x]
  type_equals.simps [of "Some x" "Some y" for x y]
  params_equal.simps [of "[]"] params_equal.simps [of "p # ps" "[]" for p ps]
  params_equal.simps [of "p # ps" "q # qs" for p ps q qs]
  args_equal.simps [of "[]"] args_equal.simps [of "a # as" "[]" for a as]
  args_equal.simps [of "a # as" "b # bs" for a as b bs]

lemmas equals_simps [simp] = equals_unfold [simplified]

lemma equals_None_right [simp]: "type_equals a None = (a = None)"
  by (cases a) auto

lemma params_equal_all2: "length ps = length qs \<Longrightarrow> params_equal ps qs = list_all2 type_equals ps qs"
  by (induction ps qs rule: list_induct2) auto

lemma args_equal_all2:
  "length as = length bs \<Longrightarrow> args_equal as bs = list_all2 (\<lambda>a b. type_equals (Some a) (Some b)) as bs"
  by (induction as bs rule: list_induct2) auto

lemma all2_params_equal:
  "list_all2 type_equals ps qs \<Longrightarrow> params_equal ps qs"
  "list_all2 (\<lambda>a b. type_equals (Some a) (Some b)) as bs \<Longrightarrow> args_equal as bs"
  by (simp_all add: params_equal_all2 args_equal_all2 list_all2_lengthD)

lemma data_equals_cases:
  "data_equals (DBasic bk) d = (d = DBasic bk)"
  "data_equals (DArray e n c) d = (\<exists>e' c'. d = DArray e' n c' \<and> type_equals (Some e) (Some e'))"
  "data_equals (DSlice e) d = (\<exists>e'. d = DSlice e' \<and> type_equals (Some e) (Some e'))"
  "data_equals (DMap kt vt) d =
     (\<exists>k' v'. d = DMap k' v' \<and> type_equals (Some kt) (Some k') \<and> type_equals (Some vt) (Some v'))"
  "data_equals (DChannel e p x) d = (\<exists>e' x'. d = DChannel e' p x' \<and> type_equals (Some e) (Some e'))"
  "data_equals (DFunction ps r v hc) d =
     (\<exists>ps' r' hc'. d = DFunction ps' r' v hc' \<and> list_all2 type_equals ps ps' \<and> type_equals r r')"
  "data_equals (DPointer e) d = (\<exists>e'. d = DPointer e' \<and> type_equals (Some e) (Some e'))"
  "data_equals (DReference e m) d = (\<exists>e'. d = DReference e' m \<and> type_equals (Some e) (Some e'))"
  "data_equals (DStruct fs nm) d = (\<exists>fs' nm'. d = DStruct fs' nm')"
  "data_equals (DEnum nm) d = (\<exists>nm'. d = DEnum nm')"
  "data_equals (DInterface nm) d = (\<exists>nm'. d = DInterface nm')"
  "data_equals (DErrorUnion e er) d =
     (\<exists>e' er'. d = DErrorUnion e' er' \<and> type_equals (Some e) (Some e') \<and> type_equals er er')"
  "data_equals (DNullable e) d = (\<exists>e'. d = DNullable e' \<and> type_equals (Some e) (Some e'))"
  "data_equals (DQualified e own mut) d = (\<exists>e'. d = DQualified e' own mut \<and> type_equals (Some e) (Some e'))"
  "data_equals (DConcept s) d = (\<exists>s'. d = DConcept s')"
  "data_equals (DParam s i cn) d = (\<exists>c'. d = DParam s i c')"
  "data_equals (DParamHkt s i ar sg cn) d = (\<exists>sg' c'. d = DParamHkt s i ar sg' c')"
  "data_equals (DConstructor s ar sg) d = (\<exists>sg'. d = DConstructor s ar sg')"
  "data_equals (DApplication t as) d = (\<exists>t' as'. d = DApplication t' as' \<and>
     type_equals (Some t) (Some t') \<and> list_all2 (\<lambda>a b. type_equals (Some a) (Some b)) as as')"
  by (auto simp: data_equals.simps params_equal_all2 args_equal_all2
        intro: all2_params_equal dest: list_all2_lengthD simp del: equals_simps split: ty_data.split)

section \<open>Structural equality is an equivalence\<close>

text \<open>Facts on the types below an optional pointer, for the three induction proofs.\<close>

lemma opt_refl: "(\<And>t. x = Some t \<Longrightarrow> type_equals (Some t) (Some t)) \<Longrightarrow> type_equals x x"
  by (cases x) auto

lemma opt_sym:
  "type_equals x y \<Longrightarrow>
   (\<And>t u. x = Some t \<Longrightarrow> type_equals (Some t) (Some u) \<Longrightarrow> type_equals (Some u) (Some t))
    \<Longrightarrow> type_equals y x"
  by (cases x; cases y) auto

lemma opt_trans:
  "type_equals x y \<Longrightarrow> type_equals y z \<Longrightarrow>
   (\<And>t u v. x = Some t \<Longrightarrow> type_equals (Some t) (Some u) \<Longrightarrow> type_equals (Some u) (Some v)
      \<Longrightarrow> type_equals (Some t) (Some v)) \<Longrightarrow> type_equals x z"
  by (cases x; cases y; cases z) auto

lemma type_equals_refl_aux:
  fixes t :: ty and d :: ty_data and f :: struct_field
  shows "type_equals (Some t) (Some t)" "data_equals d d" "f = f"
proof (induction t and d and f rule: ty.induct ty_data.induct struct_field.induct)
  case (DFunction ps r v hc)
  have "list_all2 type_equals ps ps"
    using DFunction.IH(1) by (auto simp: list_all2_same intro: opt_refl simp del: equals_simps)
  moreover have "type_equals r r"
    by (rule opt_refl) (use DFunction.IH(2) in auto)
  ultimately show ?case by (simp add: data_equals_cases)
next
  case (DErrorUnion v er)
  have "type_equals er er"
    by (rule opt_refl) (use DErrorUnion.IH(2) in auto)
  then show ?case using DErrorUnion.IH(1) by (simp add: data_equals_cases)
qed (auto simp: data_equals_cases list_all2_same)

lemma type_equals_sym_aux:
  fixes t :: ty and d :: ty_data and f :: struct_field
  shows "type_equals (Some t) (Some u) \<Longrightarrow> type_equals (Some u) (Some t)"
    "data_equals d e \<Longrightarrow> data_equals e d" "f = f"
proof (induction t and d and f arbitrary: u and e rule: ty.induct ty_data.induct struct_field.induct)
  case (DFunction ps r v hc)
  from DFunction.prems obtain ps' r' hc' where e: "e = DFunction ps' r' v hc'"
    and ps: "list_all2 type_equals ps ps'" and r: "type_equals r r'"
    by (auto simp: data_equals_cases)
  have "list_all2 type_equals ps' ps"
    by (rule list_all2_swap [OF ps], erule opt_sym) (use DFunction.IH(1) in auto)
  moreover have "type_equals r' r"
    by (rule opt_sym [OF r]) (use DFunction.IH(2) in auto)
  ultimately show ?case using e by (auto simp: data_equals_cases)
next
  case (DErrorUnion v er)
  from DErrorUnion.prems obtain v' er' where e: "e = DErrorUnion v' er'"
    and v: "type_equals (Some v) (Some v')" and er: "type_equals er er'"
    by (auto simp: data_equals_cases)
  have "type_equals er' er"
    by (rule opt_sym [OF er]) (use DErrorUnion.IH(2) in auto)
  then show ?case using e DErrorUnion.IH(1) [OF v] by (auto simp: data_equals_cases)
qed (auto simp: data_equals_cases elim!: list_all2_swap)

lemma type_equals_trans_aux:
  fixes t :: ty and d :: ty_data and f :: struct_field
  shows "type_equals (Some t) (Some u) \<Longrightarrow> type_equals (Some u) (Some w) \<Longrightarrow> type_equals (Some t) (Some w)"
    "data_equals d e \<Longrightarrow> data_equals e g \<Longrightarrow> data_equals d g" "f = f"
proof (induction t and d and f arbitrary: u w and e g rule: ty.induct ty_data.induct struct_field.induct)
  case (DFunction ps r v hc)
  from DFunction.prems obtain ps' r' hc' ps'' r'' hc''
    where g: "g = DFunction ps'' r'' v hc''"
    and ps: "list_all2 type_equals ps ps'" "list_all2 type_equals ps' ps''"
    and r: "type_equals r r'" "type_equals r' r''"
    by (auto simp: data_equals_cases)
  have "list_all2 type_equals ps ps''"
    by (rule list_all2_through [OF ps], erule (1) opt_trans) (rule DFunction.IH(1), simp_all del: equals_simps)
  moreover have "type_equals r r''"
    by (rule opt_trans [OF r]) (rule DFunction.IH(2), simp_all del: equals_simps)
  ultimately show ?case using g by (auto simp: data_equals_cases)
next
  case (DErrorUnion v er)
  from DErrorUnion.prems obtain v' er' v'' er'' where g: "g = DErrorUnion v'' er''"
    and v: "type_equals (Some v) (Some v')" "type_equals (Some v') (Some v'')"
    and er: "type_equals er er'" "type_equals er' er''"
    by (auto simp: data_equals_cases)
  have "type_equals er er''"
    by (rule opt_trans [OF er]) (rule DErrorUnion.IH(2), simp_all del: equals_simps)
  then show ?case using g DErrorUnion.IH(1) [OF v] by (auto simp: data_equals_cases)
next
  case (DApplication c as)
  then show ?case
    by (auto simp: data_equals_cases elim!: list_all2_through)
qed (auto simp: data_equals_cases)

section \<open>Substitution and unification\<close>

text \<open>The binding array has \<open>n\<close> slots, \<open>None\<close> for an unbound parameter.\<close>

type_synonym bindings = "ty option list"

function type_substitute :: "ty option \<Rightarrow> bindings \<Rightarrow> ty option" where
  "type_substitute t bs = (case t of None \<Rightarrow> None | Some x \<Rightarrow>
     (case ty_data x of
        DParam nm i c \<Rightarrow> if i \<ge> 0 \<and> nat i < length bs \<and> bs ! nat i \<noteq> None then bs ! nat i else t
      | DSlice e \<Rightarrow> type_slice (type_substitute (Some e) bs)
      | DPointer e \<Rightarrow> type_pointer (type_substitute (Some e) bs)
      | DFunction ps r v hc \<Rightarrow>
          Some (set_variadic (type_function (map (\<lambda>p. type_substitute p bs) ps) (type_substitute r bs)) v)
      | _ \<Rightarrow> t))"
  by pat_completeness auto

lemma ty_data_size_le: "ty_data x = d \<Longrightarrow> size d < size x"
  by (cases x) auto

lemma param_size_less:
  assumes "ty_data x = DFunction ps r v hc" and "p \<in> set ps"
  shows "size_option size p < size x"
proof -
  have "size_option size p \<le> size_list (size_option size) ps"
    using assms(2) by (rule size_list_estimation') simp
  then show ?thesis using ty_data_size_le [OF assms(1)] by simp
qed

termination type_substitute
  by (relation "measure (\<lambda>(t, bs). size_option size t)")
     (auto dest: ty_data_size_le param_size_less intro: less_SucI)

text \<open>
  \<open>unify_types\<close> returns its verdict and the binding array as it left it; the bindings written
  before a mismatch stay. For the kinds without an arm of their own the test of the kinds is
  part of \<open>type_equals\<close>.
\<close>

function unify_types :: "ty option \<Rightarrow> ty option \<Rightarrow> bindings \<Rightarrow> bool \<times> bindings"
  and unify_params :: "ty option list \<Rightarrow> ty option list \<Rightarrow> bindings \<Rightarrow> bool \<times> bindings" where
  "unify_types p a bs = (case p of None \<Rightarrow> (False, bs) | Some x \<Rightarrow> (case a of None \<Rightarrow> (False, bs) | Some y \<Rightarrow>
     (case ty_data x of
        DParam nm i c \<Rightarrow>
          if i < 0 \<or> nat i \<ge> length bs then (False, bs)
          else (case bs ! nat i of
                  Some b \<Rightarrow> (type_equals (Some b) a, bs)
                | None \<Rightarrow> (True, bs[nat i := a]))
      | DSlice e \<Rightarrow> (case ty_data y of DSlice e' \<Rightarrow> unify_types (Some e) (Some e') bs | _ \<Rightarrow> (False, bs))
      | DPointer e \<Rightarrow> (case ty_data y of DPointer e' \<Rightarrow> unify_types (Some e) (Some e') bs | _ \<Rightarrow> (False, bs))
      | DFunction ps r v hc \<Rightarrow> (case ty_data y of
            DFunction ps' r' v' hc' \<Rightarrow>
              if length ps \<noteq> length ps' then (False, bs)
              else (case unify_params ps ps' bs of (ok, bs1) \<Rightarrow>
                      if \<not> ok then (False, bs1) else unify_types r r' bs1)
          | _ \<Rightarrow> (False, bs))
      | _ \<Rightarrow> (type_equals p a, bs))))"
| "unify_params ps qs bs = (case ps of [] \<Rightarrow> (True, bs) | p # ps' \<Rightarrow> (case qs of [] \<Rightarrow> (True, bs) | q # qs' \<Rightarrow>
     (case unify_types p q bs of (ok, bs1) \<Rightarrow>
        if \<not> ok then (False, bs1) else unify_params ps' qs' bs1)))"
  by pat_completeness auto
termination
  by (relation "measure (case_sum (\<lambda>(p, a, bs). 2 * size_option size p)
                                  (\<lambda>(ps, qs, bs). 2 * size_list (size_option size) ps + 1))")
     (auto dest: ty_data_size_le)

declare type_substitute.simps [simp del] unify_types.simps [simp del] unify_params.simps [simp del]

section \<open>Implicit compatibility\<close>

text \<open>\<open>type_compatible\<close> reads both kinds, so neither pointer is null.\<close>

function type_compatible :: "ty \<Rightarrow> ty \<Rightarrow> bool" where
  "type_compatible from to =
     (if type_equals (Some from) (Some to) then True
      else if type_is_numeric (Some from) \<and> type_is_numeric (Some to) then
        (if type_is_float (Some from) \<and> type_is_integer (Some to) then False else True)
      else (case ty_data to of
          DNullable b \<Rightarrow> if ty_data from = DBasic TYPE_UNKNOWN then True else type_compatible from b
        | _ \<Rightarrow>
            if ty_data from = DBasic TYPE_UNKNOWN \<and> type_is_nilable_ref_kind (Some to) then True
            else (case ty_data from of
                DQualified fb _ _ \<Rightarrow> (case ty_data to of DQualified tb _ _ \<Rightarrow> type_compatible fb tb | _ \<Rightarrow> False)
              | _ \<Rightarrow> False)))"
  by pat_completeness auto
termination
  by (relation "measure (\<lambda>(from, to). size from + size to)") (auto dest!: ty_data_size_le)

declare type_compatible.simps [simp del]

section \<open>Method names\<close>

definition type_method_mangled_name :: "string option \<Rightarrow> string option \<Rightarrow> string option" where
  "type_method_mangled_name tn mn =
     (case tn of None \<Rightarrow> None | Some t \<Rightarrow> (case mn of None \<Rightarrow> None | Some m \<Rightarrow> Some (t @ ''__'' @ m)))"

definition receiver_base :: "ty \<Rightarrow> ty" where
  "receiver_base t = (case ty_data t of DPointer p \<Rightarrow> p | _ \<Rightarrow> t)"

definition type_receiver_name :: "ty option \<Rightarrow> string option" where
  "type_receiver_name t = (case t of None \<Rightarrow> None | Some x \<Rightarrow>
     (case ty_data (receiver_base x) of
        DStruct fs (Some n) \<Rightarrow> Some n
      | _ \<Rightarrow> ty_name (receiver_base x)))"

definition type_receiver_owner_package :: "ty option \<Rightarrow> string option" where
  "type_receiver_owner_package t = (case t of None \<Rightarrow> None | Some x \<Rightarrow> ty_owner (receiver_base x))"

end
