(* ===== verification/Types_Props.thy ===== *)
theory Types_Props
  imports Types
begin

text \<open>
  Correctness of the type operations: structural equality is an equivalence (and conflates
  the named kinds), unification infers bindings that make the parameter equal to the argument,
  implicit compatibility never narrows a float, the name buffers are large enough, and method
  mangling is injective on names without underscore pairs.
\<close>

section \<open>Equality\<close>

text \<open>
  \<open>type_equals\<close> is an equivalence relation on type pointers, null included.
\<close>

theorem type_equals_equivalence: "equivp type_equals"
proof (rule equivpI)
  show "reflp type_equals"
    by (rule reflpI, rule opt_refl, rule type_equals_refl_aux(1))
  show "symp type_equals"
    by (rule sympI, erule opt_sym, erule type_equals_sym_aux(1))
  show "transp type_equals"
    by (rule transpI, erule (1) opt_trans, erule (1) type_equals_trans_aux(1))
qed

lemma type_equals_refl [simp]: "type_equals t t"
  by (rule opt_refl, rule type_equals_refl_aux(1))

lemma type_equals_sym: "type_equals a b \<Longrightarrow> type_equals b a"
  by (erule opt_sym, erule type_equals_sym_aux(1))

text \<open>
  The default arm of \<open>type_equals\<close> is reached by the named kinds too: any two structs are
  equal whatever their names and fields, and so are any two enums and any two interfaces.
\<close>

theorem named_kinds_conflated:
  "type_equals (Some (Type (DStruct fs nm) sz al n ow)) (Some (Type (DStruct fs' nm') sz' al' n' ow'))
   \<and> type_compatible (Type (DStruct fs nm) sz al n ow) (Type (DStruct fs' nm') sz' al' n' ow')
   \<and> type_equals (Some (Type (DInterface i) sz al n ow)) (Some (Type (DInterface i') sz' al' n' ow'))
   \<and> type_equals (Some (Type (DEnum i) sz al n ow)) (Some (Type (DEnum i') sz' al' n' ow'))"
  by (simp add: data_equals_cases type_compatible.simps)

section \<open>Unification\<close>

text \<open>\<open>extends bs cs\<close>: every binding of \<open>bs\<close> is still there in \<open>cs\<close>.\<close>

definition extends :: "bindings \<Rightarrow> bindings \<Rightarrow> bool" where
  "extends bs cs = (length bs = length cs \<and> (\<forall>i < length bs. bs ! i \<noteq> None \<longrightarrow> cs ! i = bs ! i))"

lemma extends_refl [simp]: "extends bs bs"
  by (simp add: extends_def)

lemma extends_trans: "extends bs cs \<Longrightarrow> extends cs ds \<Longrightarrow> extends bs ds"
  by (auto simp: extends_def)

lemma extends_bind: "i < length bs \<Longrightarrow> bs ! i = None \<Longrightarrow> extends bs (bs[i := a])"
  by (auto simp: extends_def nth_list_update)

lemma extendsD: "extends bs cs \<Longrightarrow> i < length bs \<Longrightarrow> bs ! i = Some b \<Longrightarrow> i < length cs \<and> cs ! i = Some b"
  by (auto simp: extends_def)

text \<open>
  The variadic flags of function types that unification compares pairwise agree; \<open>unify_types\<close>
  itself does not look at them.
\<close>

function same_variadic :: "ty option \<Rightarrow> ty option \<Rightarrow> bool" where
  "same_variadic p a = (case (p, a) of (Some x, Some y) \<Rightarrow>
     (case ty_data x of
        DSlice e \<Rightarrow> (case ty_data y of DSlice e' \<Rightarrow> same_variadic (Some e) (Some e') | _ \<Rightarrow> True)
      | DPointer e \<Rightarrow> (case ty_data y of DPointer e' \<Rightarrow> same_variadic (Some e) (Some e') | _ \<Rightarrow> True)
      | DFunction ps r v hc \<Rightarrow> (case ty_data y of
            DFunction ps' r' v' hc' \<Rightarrow> v = v' \<and> (\<forall>q \<in> set (zip ps ps'). same_variadic (fst q) (snd q))
              \<and> same_variadic r r'
          | _ \<Rightarrow> True)
      | _ \<Rightarrow> True)
   | _ \<Rightarrow> True)"
  by pat_completeness auto
termination
  by (relation "measure (\<lambda>(p, a). size_option size p)")
     (auto dest: ty_data_size_le param_size_less set_zip_leftD intro: less_SucI)

declare same_variadic.simps [simp del]

text \<open>
  What a successful unification is, as rules: each one is an arm of \<open>unify_types\<close> on the path
  that returns 1.
\<close>

inductive unified :: "ty option \<Rightarrow> ty option \<Rightarrow> bindings \<Rightarrow> bindings \<Rightarrow> bool"
  and unified_params :: "ty option list \<Rightarrow> ty option list \<Rightarrow> bindings \<Rightarrow> bindings \<Rightarrow> bool" where
  UBind: "ty_data x = DParam nm i c \<Longrightarrow> 0 \<le> i \<Longrightarrow> nat i < length bs \<Longrightarrow> bs ! nat i = None
    \<Longrightarrow> unified (Some x) (Some y) bs (bs[nat i := Some y])"
| UBound: "ty_data x = DParam nm i c \<Longrightarrow> 0 \<le> i \<Longrightarrow> nat i < length bs \<Longrightarrow> bs ! nat i = Some b
    \<Longrightarrow> type_equals (Some b) (Some y) \<Longrightarrow> unified (Some x) (Some y) bs bs"
| USlice: "ty_data x = DSlice e \<Longrightarrow> ty_data y = DSlice e' \<Longrightarrow> unified (Some e) (Some e') bs cs
    \<Longrightarrow> unified (Some x) (Some y) bs cs"
| UPointer: "ty_data x = DPointer e \<Longrightarrow> ty_data y = DPointer e' \<Longrightarrow> unified (Some e) (Some e') bs cs
    \<Longrightarrow> unified (Some x) (Some y) bs cs"
| UFunction: "ty_data x = DFunction ps r v hc \<Longrightarrow> ty_data y = DFunction ps' r' v' hc'
    \<Longrightarrow> unified_params ps ps' bs cs \<Longrightarrow> unified r r' cs ds \<Longrightarrow> unified (Some x) (Some y) bs ds"
| UOther: "(\<forall>nm i c. ty_data x \<noteq> DParam nm i c) \<Longrightarrow> (\<forall>e. ty_data x \<noteq> DSlice e \<and> ty_data x \<noteq> DPointer e)
    \<Longrightarrow> (\<forall>ps r v hc. ty_data x \<noteq> DFunction ps r v hc) \<Longrightarrow> type_equals (Some x) (Some y)
    \<Longrightarrow> unified (Some x) (Some y) bs bs"
| UNil: "unified_params [] [] bs bs"
| UCons: "unified p q bs cs \<Longrightarrow> unified_params ps qs cs ds \<Longrightarrow> unified_params (p # ps) (q # qs) bs ds"

lemma unify_function:
  "ty_data x = DFunction ps r v hc \<Longrightarrow> ty_data y = DFunction ps' r' v' hc'
   \<Longrightarrow> unify_types (Some x) (Some y) bs = (True, ds)
   \<Longrightarrow> length ps = length ps' \<and> (\<exists>cs. unify_params ps ps' bs = (True, cs) \<and> unify_types r r' cs = (True, ds))"
  by (auto simp: unify_types.simps [of "Some x"] split: if_splits prod.splits)

lemma unify_unified:
  "unify_types p a bs = (True, cs) \<Longrightarrow> unified p a bs cs"
  "unify_params ps qs bs = (True, cs) \<Longrightarrow> length ps = length qs \<Longrightarrow> unified_params ps qs bs cs"
proof (induction p a bs and ps qs bs arbitrary: cs and cs rule: unify_types_unify_params.induct)
  case (1 p a bs)
  from "1.prems" obtain x y where xy: "p = Some x" "a = Some y"
    by (auto simp: unify_types.simps split: option.splits)
  show ?case
  proof (cases "\<exists>ps r v hc. ty_data x = DFunction ps r v hc")
    case True
    then obtain ps r v hc where x: "ty_data x = DFunction ps r v hc" by blast
    with "1.prems" xy obtain ps' r' v' hc' where y: "ty_data y = DFunction ps' r' v' hc'"
      by (auto simp: unify_types.simps split: ty_data.splits)
    from unify_function [OF x y "1.prems" [unfolded xy]] obtain ds
      where l: "length ps = length ps'" and u: "unify_params ps ps' bs = (True, ds)"
        "unify_types r r' ds = (True, cs)" by blast
    have "unified_params ps ps' bs ds"
      using "1.IH"(2) [OF xy x y] l u(1) by simp
    moreover have "unified r r' ds cs"
      using "1.IH"(3) [OF xy x y _ u(1) [symmetric]] l u(2) by simp
    ultimately show ?thesis using xy x y by (auto intro: UFunction)
  next
    case False
    then show ?thesis
      using "1.prems" "1.IH"(1,4) xy
      by (auto simp: unify_types.simps [of "Some x"] intro: unified_unified_params.intros
          split: ty_data.splits option.splits if_splits)
  qed
next
  case (2 ps qs bs)
  then show ?case
  proof (cases ps)
    case Nil
    then show ?thesis using "2.prems" by (auto simp: unify_params.simps intro: UNil)
  next
    case (Cons p ps')
    with "2.prems" obtain q qs' where qs: "qs = q # qs'" by (cases qs) auto
    with "2.prems" Cons obtain ds where u: "unify_types p q bs = (True, ds)" "unify_params ps' qs' ds = (True, cs)"
      by (auto simp: unify_params.simps [of "p # ps'"] split: prod.splits if_splits)
    show ?thesis
      using "2.IH"(1) [OF Cons qs u(1)] "2.IH"(2) [OF Cons qs u(1) [symmetric]] u(2) "2.prems"(2) Cons qs
      by (auto intro: UCons)
  qed
qed

lemma unified_extends:
  "unified p a bs cs \<Longrightarrow> extends bs cs"
  "unified_params ps qs bs cs \<Longrightarrow> extends bs cs"
  by (induction rule: unified_unified_params.inducts) (auto intro: extends_bind extends_trans)

lemma substitute_shapes:
  "ty_data x = DParam nm i c \<Longrightarrow> 0 \<le> i \<Longrightarrow> nat i < length bs \<Longrightarrow> bs ! nat i = Some b
    \<Longrightarrow> type_substitute (Some x) bs = Some b"
  "ty_data x = DSlice e \<Longrightarrow> type_substitute (Some x) bs = type_slice (type_substitute (Some e) bs)"
  "ty_data x = DPointer e \<Longrightarrow> type_substitute (Some x) bs = type_pointer (type_substitute (Some e) bs)"
  "ty_data x = DFunction ps r v hc \<Longrightarrow> type_substitute (Some x) bs =
     Some (set_variadic (type_function (map (\<lambda>p. type_substitute p bs) ps) (type_substitute r bs)) v)"
  by (simp_all add: type_substitute.simps [of "Some x"])

lemma slice_equals: "ty_data y = DSlice e \<Longrightarrow> type_equals t (Some e) \<Longrightarrow> type_equals (type_slice t) (Some y)"
  by (cases t) (auto simp: type_slice_def data_equals_cases)

lemma pointer_equals: "ty_data y = DPointer e \<Longrightarrow> type_equals t (Some e) \<Longrightarrow> type_equals (type_pointer t) (Some y)"
  by (cases t) (auto simp: type_pointer_def data_equals_cases)

lemma function_equals:
  "ty_data y = DFunction ps r v hc \<Longrightarrow> list_all2 type_equals qs ps \<Longrightarrow> type_equals t r
    \<Longrightarrow> type_equals (Some (set_variadic (type_function qs t) v)) (Some y)"
  by (auto simp: type_function_def set_variadic_def data_equals_cases)

lemma same_variadic_shapes:
  "ty_data x = DSlice e \<Longrightarrow> ty_data y = DSlice e' \<Longrightarrow> same_variadic (Some x) (Some y) = same_variadic (Some e) (Some e')"
  "ty_data x = DPointer e \<Longrightarrow> ty_data y = DPointer e' \<Longrightarrow> same_variadic (Some x) (Some y) = same_variadic (Some e) (Some e')"
  "ty_data x = DFunction ps r v hc \<Longrightarrow> ty_data y = DFunction ps' r' v' hc' \<Longrightarrow>
     same_variadic (Some x) (Some y) = (v = v' \<and> (\<forall>q \<in> set (zip ps ps'). same_variadic (fst q) (snd q))
        \<and> same_variadic r r')"
  by (simp_all add: same_variadic.simps [of "Some x"])

lemma unified_sound:
  "unified p a bs cs \<Longrightarrow> same_variadic p a \<Longrightarrow> extends cs ds \<Longrightarrow> type_equals (type_substitute p ds) a"
  "unified_params ps qs bs cs \<Longrightarrow> \<forall>q \<in> set (zip ps qs). same_variadic (fst q) (snd q) \<Longrightarrow> extends cs ds
    \<Longrightarrow> list_all2 type_equals (map (\<lambda>p. type_substitute p ds) ps) qs"
proof (induction arbitrary: ds and ds rule: unified_unified_params.inducts)
  case (UBind x nm i c bs y)
  then have "nat i < length ds \<and> ds ! nat i = Some y"
    using extendsD [of "bs[nat i := Some y]" ds "nat i" y] by simp
  then show ?case using UBind by (simp only: substitute_shapes(1) type_equals_refl)
next
  case (UBound x nm i c bs b y)
  then have "nat i < length ds \<and> ds ! nat i = Some b"
    using extendsD [of bs ds "nat i" b] by simp
  then show ?case using UBound by (simp only: substitute_shapes(1))
next
  case (USlice x e y e' bs cs)
  then show ?case by (simp only: substitute_shapes same_variadic_shapes slice_equals)
next
  case (UPointer x e y e' bs cs)
  then show ?case by (simp only: substitute_shapes same_variadic_shapes pointer_equals)
next
  case (UFunction x ps r v hc y ps' r' v' hc' bs cs es)
  have "extends cs ds"
    using UFunction unified_extends(1) extends_trans by blast
  moreover have "v = v'" "\<forall>q \<in> set (zip ps ps'). same_variadic (fst q) (snd q)" "same_variadic r r'"
    using UFunction.prems(1) same_variadic_shapes(3) [OF UFunction.hyps(1,2)] by auto
  ultimately show ?case
    using UFunction by (auto simp only: substitute_shapes(4) intro!: function_equals)
next
  case (UOther x y bs)
  then have "type_substitute (Some x) ds = Some x"
    by (auto simp: type_substitute.simps split: ty_data.splits)
  then show ?case using UOther by simp
next
  case (UCons p q bs cs ps qs es)
  then show ?case using unified_extends(2) [of ps qs cs es] extends_trans [of cs es ds] by auto
qed simp_all

text \<open>
  C11. Inference is sound: when \<open>unify_types\<close> succeeds, substituting the inferred bindings into
  the parameter type gives a type equal to the argument type, and no binding made earlier is
  overwritten. The variadic flags have to agree, which the routine does not test.
\<close>

theorem unify_types_sound:
  assumes "unify_types p a bs = (True, cs)" and "same_variadic p a"
  shows "type_equals (type_substitute p cs) a \<and> extends bs cs"
  using assms unified_sound(1) unified_extends(1) unify_unified(1) extends_refl by blast

definition int64_t :: ty where
  "int64_t = Type (DBasic TYPE_INT64) 8 8 (Some ''int64'') None"

definition param_T :: ty where
  "param_T = Type (DParam ''T'' 0 None) 0 0 (Some ''T'') None"

definition slice_of :: "ty \<Rightarrow> ty" where
  "slice_of t = Type (DSlice t) 24 8 (Some (''[]'' @ type_to_string (Some t))) None"

lemma unify_slice_example:
  "unify_types (Some (slice_of param_T)) (Some (slice_of int64_t)) [None] = (True, [Some int64_t])"
  by (simp add: unify_types.simps slice_of_def param_T_def int64_t_def)

theorem unify_types_sound_witness:
  "unify_types (Some (slice_of param_T)) (Some (slice_of int64_t)) [None] = (True, [Some int64_t])
   \<and> same_variadic (Some (slice_of param_T)) (Some (slice_of int64_t))
   \<and> type_equals (type_substitute (Some (slice_of param_T)) [Some int64_t]) (Some (slice_of int64_t))"
proof -
  have "same_variadic (Some (slice_of param_T)) (Some (slice_of int64_t))"
    by (simp add: same_variadic.simps slice_of_def param_T_def)
  then show ?thesis
    using unify_types_sound [OF unify_slice_example] unify_slice_example by simp
qed

text \<open>
  Unification accepts a variadic function where a plain one is declared: the verdict is 1
  and the two signatures are not equal.
\<close>

theorem unify_ignores_variadic:
  "unify_types (Some (type_function [Some (slice_of param_T)] (Some type_void)))
       (Some (set_variadic (type_function [Some (slice_of int64_t)] (Some type_void)) True)) [None]
     = (True, [Some int64_t])
   \<and> \<not> type_equals
       (type_substitute (Some (type_function [Some (slice_of param_T)] (Some type_void))) [Some int64_t])
       (Some (set_variadic (type_function [Some (slice_of int64_t)] (Some type_void)) True))"
  by (simp add: unify_types.simps unify_params.simps type_substitute.simps type_function_def set_variadic_def
      type_void_def data_equals_cases slice_of_def param_T_def int64_t_def)

section \<open>Compatibility\<close>

text \<open>The type under any number of nullable wrappers.\<close>

function strip_nullable :: "ty \<Rightarrow> ty" where
  "strip_nullable t = (case ty_data t of DNullable b \<Rightarrow> strip_nullable b | _ \<Rightarrow> t)"
  by pat_completeness auto
termination
  by (relation "measure size") (auto dest: ty_data_size_le)

declare strip_nullable.simps [simp del]

lemma basic_data: "basic ks (Some t) = (\<exists>k \<in> ks. ty_data t = DBasic k)"
  by (auto simp: basic_def split: ty_data.splits)

lemma float_not_int: "type_is_float (Some t) \<Longrightarrow> \<not> type_is_integer (Some t)"
  by (auto simp: type_is_float_def type_is_integer_def basic_data)

text \<open>
  No implicit narrowing: a float type is never compatible with an integer type, nor with
  an integer under any number of nullable wrappers.
\<close>

theorem float_never_narrows:
  "type_is_float (Some from) \<Longrightarrow> type_is_integer (Some (strip_nullable to)) \<Longrightarrow> \<not> type_compatible from to"
proof (induction to rule: strip_nullable.induct)
  case (1 to)
  obtain fk where fd: "ty_data from = DBasic fk" and fk: "fk = TYPE_FLOAT32 \<or> fk = TYPE_FLOAT64"
    using "1.prems"(1) by (auto simp: type_is_float_def basic_data)
  show ?case
  proof (cases "\<exists>b. ty_data to = DNullable b")
    case True
    then obtain b where b: "ty_data to = DNullable b" by blast
    then have "\<not> type_compatible from b"
      using "1.IH" [OF b "1.prems"(1)] "1.prems"(2) by (simp add: strip_nullable.simps [of to])
    moreover have "\<not> type_is_numeric (Some to)"
      using b by (auto simp: type_is_numeric_def type_is_integer_def type_is_float_def basic_data)
    ultimately show ?thesis
      using fd fk b by (auto simp: type_compatible.simps [of "from" to] data_equals_cases)
  next
    case False
    then have "type_is_integer (Some to)"
      using "1.prems"(2) by (auto simp: strip_nullable.simps [of to] split: ty_data.splits)
    then show ?thesis
      using "1.prems"(1) fd fk
      by (auto simp: type_compatible.simps [of "from" to] type_is_numeric_def type_is_integer_def
          basic_data data_equals_cases)
  qed
qed

definition float64_t :: ty where
  "float64_t = Type (DBasic TYPE_FLOAT64) 8 8 (Some ''float64'') None"

definition nullable_of :: "ty \<Rightarrow> ty" where
  "nullable_of t = Type (DNullable t) (ty_size t + 1) (ty_align t) None None"

theorem float_never_narrows_witness: "\<not> type_compatible float64_t (nullable_of int64_t)"
  using float_never_narrows [of float64_t "nullable_of int64_t"]
  by (simp add: type_is_float_def type_is_integer_def basic_data float64_t_def nullable_of_def int64_t_def
      strip_nullable.simps)

text \<open>
  The nil literal is compatible exactly with the kinds that have a nil value (pointer,
  slice, map, channel, function), with nullable types, and with the untyped-nil type itself.
\<close>

theorem nil_compatible_iff:
  "type_compatible (Type (DBasic TYPE_UNKNOWN) sz al nm ow) to \<longleftrightarrow>
     type_is_nilable_ref_kind (Some to) \<or> type_is_nullable (Some to) \<or> ty_data to = DBasic TYPE_UNKNOWN"
  by (auto simp: type_compatible.simps [of _ to] type_is_nilable_ref_kind_def type_is_nullable_def
      type_is_numeric_def type_is_integer_def type_is_float_def basic_data data_equals_cases
      split: ty_data.splits)

section \<open>Printed names\<close>

lemma length_comma_join:
  "length (comma_join ss) = sum_list (map length ss) + 2 * (length ss - 1)"
  by (induction ss rule: comma_join.induct) auto

lemma params_name_size_Suc:
  "params_name_size (Suc i) ps = sum_list (map (length \<circ> param_string) ps) + 2 * length ps"
  by (induction ps arbitrary: i) auto

lemma params_name_size_0:
  "params_name_size 0 ps = sum_list (map (length \<circ> param_string) ps) + 2 * (length ps - 1)"
  by (cases ps) (auto simp: params_name_size_Suc)

text \<open>
  The buffer \<open>type_function\<close> allocates for the signature's name holds exactly the
  characters it then writes and their terminator.
\<close>

lemma function_name_fits: "length (function_name ps r) + 1 = function_name_size ps r"
  by (simp add: function_name_def function_name_size_def length_comma_join params_name_size_0 comp_def)

text \<open>
  The buffer of \<open>type_application\<close> is large enough when every argument has a name, and one
  byte too small for a single argument without one (every struct type: its declared name is
  not in the name field).
\<close>

theorem application_name_buffer:
  "(list_all (\<lambda>a. ty_name a \<noteq> None) args \<longrightarrow> length (application_name c args) + 1 \<le> application_name_size c args)
   \<and> (ty_name a = None \<longrightarrow> length (application_name c [a]) + 1 = application_name_size c [a] + 1)"
proof -
  have "list_all (\<lambda>a. ty_name a \<noteq> None) args \<Longrightarrow>
     sum_list (map (\<lambda>a. case ty_name a of Some n \<Rightarrow> length n + 2 | None \<Rightarrow> 0) args)
       = sum_list (map (\<lambda>a. length (name_or_q a)) args) + 2 * length args"
    by (induction args) (auto simp: name_or_q_def)
  then show ?thesis
    by (auto simp: application_name_def application_name_size_def length_comma_join comp_def name_or_q_def)
qed

theorem application_name_buffer_witness:
  "length (application_name ''Vec'' [int64_t]) + 1 \<le> application_name_size ''Vec'' [int64_t]
   \<and> length (application_name ''Vec'' [Type (DStruct [] (Some ''P'')) 0 1 None None]) + 1
     = application_name_size ''Vec'' [Type (DStruct [] (Some ''P'')) 0 1 None None] + 1"
  using application_name_buffer [of "[int64_t]" "''Vec''" "Type (DStruct [] (Some ''P'')) 0 1 None None"]
  by (simp add: int64_t_def)

section \<open>Method mangling\<close>

text \<open>A type name that contains no underscore pair and does not end in an underscore.\<close>

fun no_underscore_pair :: "string \<Rightarrow> bool" where
  "no_underscore_pair [] = True"
| "no_underscore_pair [c] = (c \<noteq> CHR ''_'')"
| "no_underscore_pair (c # d # s) = (\<not> (c = CHR ''_'' \<and> d = CHR ''_'') \<and> no_underscore_pair (d # s))"

lemma no_underscore_pair_tail: "no_underscore_pair (c # s) \<Longrightarrow> no_underscore_pair s"
  by (cases s) auto

lemma no_underscore_pair_start: "no_underscore_pair t \<Longrightarrow> t @ ''__'' @ m \<noteq> ''__'' @ n \<or> t = []"
  by (cases t rule: no_underscore_pair.cases) auto

lemma mangle_split:
  "no_underscore_pair t \<Longrightarrow> no_underscore_pair u \<Longrightarrow> t @ ''__'' @ m = u @ ''__'' @ n \<Longrightarrow> t = u \<and> m = n"
proof (induction t arbitrary: u)
  case Nil
  then show ?case using no_underscore_pair_start [of u n m] by auto
next
  case (Cons c s)
  show ?case
  proof (cases u)
    case Nil
    then show ?thesis using Cons.prems no_underscore_pair_start [of "c # s" m n] by auto
  next
    case u: (Cons d v)
    then show ?thesis
      using Cons.prems Cons.IH [of v] no_underscore_pair_tail [of c s] no_underscore_pair_tail [of d v] by auto
  qed
qed

text \<open>
  Mangled method names identify the receiver and the method, provided the type names have
  no underscore pair and no trailing underscore; without that proviso two methods can share a
  symbol.
\<close>

theorem mangled_name_injective:
  "(no_underscore_pair t \<longrightarrow> no_underscore_pair u \<longrightarrow>
      type_method_mangled_name (Some t) (Some m) = type_method_mangled_name (Some u) (Some n) \<longrightarrow> t = u \<and> m = n)
   \<and> type_method_mangled_name (Some ''A__b'') (Some ''c'') = type_method_mangled_name (Some ''A'') (Some ''b__c'')"
  using mangle_split [of t u m n] by (auto simp: type_method_mangled_name_def)

theorem mangled_name_injective_witness:
  "type_method_mangled_name (Some ''Point'') (Some ''add'') \<noteq> type_method_mangled_name (Some ''Line'') (Some ''add'')"
  using mangled_name_injective [of "''Point''" "''Line''" "''add''" "''add''"] by auto

end
