(* ===== verification/Scope.thy ===== *)
theory Scope
  imports Types Token
begin

text \<open>
  Variables, scopes and the part of the type checker's state that handles them:
  \<open>variable_new\<close>, \<open>scope_new\<close>, \<open>scope_add_variable\<close>, \<open>scope_lookup_variable\<close> and the diagnostic
  counters of \<open>src/types/types.c\<close>, \<open>scope_push\<close>, \<open>scope_pop\<close> and
  \<open>type_checker_lookup_variable\<close> of \<open>src/types/type_checker.c\<close>, and the move tracking of
  \<open>src/types/ownership_checker.c\<close>. A \<open>Scope*\<close> is the list of frames from the scope outwards
  along \<open>parent\<close>, empty for null. The locale \<open>environment\<close> is the contract of a scoped symbol
  table; the checker is its interpretation.
\<close>

section \<open>Variables and scopes\<close>

text \<open>Of the package a marker variable points at, \<open>var_package\<close> is the import path.\<close>

record variable =
  var_name :: string
  var_type :: "ty option"
  var_ownership :: ownership_kind
  var_mutability :: mutability_kind
  var_is_moved :: bool
  var_is_borrowed :: bool
  var_borrow_count :: int
  var_is_initialized :: bool
  var_is_builtin :: bool
  var_declared_pos :: position
  var_package :: "string option"

record frame =
  fr_variables :: "variable list"
  fr_scope_id :: int
  fr_is_function_boundary :: bool

type_synonym scope = "frame list"

definition variable_new :: "string \<Rightarrow> ty option \<Rightarrow> position \<Rightarrow> variable" where
  "variable_new name t pos = \<lparr> var_name = name, var_type = t, var_ownership = OWNERSHIP_OWNED,
     var_mutability = MUTABILITY_IMMUTABLE, var_is_moved = False, var_is_borrowed = False,
     var_borrow_count = 0, var_is_initialized = False, var_is_builtin = False, var_declared_pos = pos,
     var_package = None \<rparr>"

definition scope_new :: "scope \<Rightarrow> scope" where
  "scope_new parent = \<lparr> fr_variables = [],
     fr_scope_id = (case parent of [] \<Rightarrow> 0 | p # _ \<Rightarrow> fr_scope_id p + 1),
     fr_is_function_boundary = False \<rparr> # parent"

fun find_variable :: "string \<Rightarrow> variable list \<Rightarrow> variable option" where
  "find_variable name [] = None"
| "find_variable name (v # vs) = (if var_name v = name then Some v else find_variable name vs)"

definition scope_add_variable :: "scope \<Rightarrow> variable \<Rightarrow> bool \<times> scope" where
  "scope_add_variable sc var = (case sc of [] \<Rightarrow> (False, sc) | f # parents \<Rightarrow>
     if find_variable (var_name var) (fr_variables f) \<noteq> None then (False, sc)
     else (True, f\<lparr>fr_variables := var # fr_variables f\<rparr> # parents))"

fun scope_lookup_variable :: "scope \<Rightarrow> string \<Rightarrow> variable option" where
  "scope_lookup_variable [] name = None"
| "scope_lookup_variable (f # parents) name = (case find_variable name (fr_variables f) of
     Some v \<Rightarrow> Some v | None \<Rightarrow> scope_lookup_variable parents name)"

section \<open>The checker\<close>

record tchecker =
  tc_scope :: scope
  tc_next_scope_id :: int
  tc_error_count :: int
  tc_warning_count :: int

definition type_error :: "tchecker \<Rightarrow> tchecker" where
  "type_error c = c\<lparr>tc_error_count := tc_error_count c + 1\<rparr>"

definition type_warning :: "tchecker \<Rightarrow> tchecker" where
  "type_warning c = c\<lparr>tc_warning_count := tc_warning_count c + 1\<rparr>"

definition scope_push :: "tchecker \<Rightarrow> tchecker" where
  "scope_push c = (case scope_new (tc_scope c) of [] \<Rightarrow> c | f # parents \<Rightarrow>
     c\<lparr>tc_scope := f\<lparr>fr_scope_id := tc_next_scope_id c\<rparr> # parents, tc_next_scope_id := tc_next_scope_id c + 1\<rparr>)"

definition scope_pop :: "tchecker \<Rightarrow> tchecker" where
  "scope_pop c = (case tc_scope c of [] \<Rightarrow> c | f # parents \<Rightarrow> c\<lparr>tc_scope := parents\<rparr>)"

definition type_checker_lookup_variable :: "tchecker \<Rightarrow> string \<Rightarrow> variable option" where
  "type_checker_lookup_variable c name = scope_lookup_variable (tc_scope c) name"

text \<open>A declaration in the current scope, as the checker's registration sites make it.\<close>

definition declare_variable :: "tchecker \<Rightarrow> variable \<Rightarrow> tchecker option" where
  "declare_variable c v = (case scope_add_variable (tc_scope c) v of
     (ok, sc) \<Rightarrow> if ok then Some (c\<lparr>tc_scope := sc\<rparr>) else None)"

section \<open>The contract of a scoped symbol table\<close>

locale environment =
  fixes lookup :: "'env \<Rightarrow> string \<Rightarrow> 'v option"
    and add :: "'env \<Rightarrow> 'v \<Rightarrow> 'env option"
    and push :: "'env \<Rightarrow> 'env"
    and pop :: "'env \<Rightarrow> 'env"
    and name_of :: "'v \<Rightarrow> string"
    and same :: "'env \<Rightarrow> 'env \<Rightarrow> bool"
  assumes lookup_add: "add e v = Some e' \<Longrightarrow> lookup e' x = (if x = name_of v then Some v else lookup e x)"
    and lookup_push: "lookup (push e) x = lookup e x"
    and add_fresh: "add (push e) v \<noteq> None"
    and add_again: "add e v = Some e' \<Longrightarrow> (add e' w = None) = (add e w = None \<or> name_of w = name_of v)"
    and pop_push: "same (pop (push e)) e"
    and pop_add: "add e v = Some e' \<Longrightarrow> pop e' = pop e"
    and same_lookup: "same e e' \<Longrightarrow> lookup e x = lookup e' x"
begin

text \<open>A sequence of declarations, all of which have to succeed.\<close>

primrec add_all :: "'env \<Rightarrow> 'v list \<Rightarrow> 'env option" where
  "add_all e [] = Some e"
| "add_all e (v # vs) = (case add e v of None \<Rightarrow> None | Some e' \<Rightarrow> add_all e' vs)"

lemma pop_add_all: "add_all e vs = Some e' \<Longrightarrow> pop e' = pop e"
  by (induction vs arbitrary: e) (auto split: option.splits dest: pop_add)

lemma block_restores:
  assumes "add_all (push e) vs = Some e'"
  shows "lookup (pop e') x = lookup e x"
  using pop_add_all [OF assms] same_lookup [OF pop_push] by simp

lemma lookup_add_all_other:
  "add_all e vs = Some e' \<Longrightarrow> x \<notin> name_of ` set vs \<Longrightarrow> lookup e' x = lookup e x"
  by (induction vs arbitrary: e) (auto split: option.splits simp: lookup_add)

lemma add_all_refused: "add_all e vs = Some e' \<Longrightarrow> add e w = None \<Longrightarrow> w \<notin> set vs"
  by (induction vs arbitrary: e) (auto split: option.splits simp: add_again)

lemma add_all_distinct: "add_all e vs = Some e' \<Longrightarrow> distinct (map name_of vs)"
proof (induction vs arbitrary: e)
  case (Cons u us)
  then obtain e1 where e1: "add e u = Some e1" "add_all e1 us = Some e'"
    by (auto split: option.splits)
  then have "\<forall>w \<in> set us. name_of w \<noteq> name_of u"
    using add_all_refused add_again by blast
  then show ?case using Cons.IH [OF e1(2)] by force
qed simp

lemma add_all_names:
  "add_all e vs = Some e' \<Longrightarrow> v \<in> set vs \<Longrightarrow> lookup e' (name_of v) = Some v"
proof (induction vs arbitrary: e)
  case (Cons u us)
  then obtain e1 where e1: "add e u = Some e1" "add_all e1 us = Some e'"
    by (auto split: option.splits)
  show ?case
  proof (cases "v \<in> set us")
    case True
    then show ?thesis using Cons.IH e1(2) by blast
  next
    case False
    then have "v = u" and "name_of u \<notin> name_of ` set us"
      using Cons.prems add_all_distinct [OF Cons.prems(1)] by auto
    then show ?thesis using lookup_add_all_other [OF e1(2)] lookup_add [OF e1(1)] by simp
  qed
qed simp

end

section \<open>The checker's scopes are an environment\<close>

lemma declare_variable_cases:
  "declare_variable c v = Some c' \<longleftrightarrow> (\<exists>f fs. tc_scope c = f # fs \<and>
     find_variable (var_name v) (fr_variables f) = None \<and>
     c' = c\<lparr>tc_scope := f\<lparr>fr_variables := v # fr_variables f\<rparr> # fs\<rparr>)"
  "declare_variable c v = None \<longleftrightarrow> (\<forall>f fs. tc_scope c = f # fs \<longrightarrow>
     find_variable (var_name v) (fr_variables f) \<noteq> None)"
  by (auto simp: declare_variable_def scope_add_variable_def split: list.splits if_splits)

lemma find_variable_name: "find_variable n vs = Some v \<Longrightarrow> var_name v = n"
  by (induction vs) (auto split: if_splits)

interpretation checker_env: environment type_checker_lookup_variable declare_variable scope_push scope_pop
    var_name "\<lambda>c d. tc_scope c = tc_scope d"
proof unfold_locales
  show "declare_variable e v = Some e' \<Longrightarrow> type_checker_lookup_variable e' x =
      (if x = var_name v then Some v else type_checker_lookup_variable e x)" for e v e' x
    by (auto simp: declare_variable_cases type_checker_lookup_variable_def)
  show "type_checker_lookup_variable (scope_push e) x = type_checker_lookup_variable e x" for e x
    by (simp add: type_checker_lookup_variable_def scope_push_def scope_new_def)
  show "declare_variable (scope_push e) v \<noteq> None" for e v
    by (simp add: declare_variable_cases scope_push_def scope_new_def)
  show "declare_variable e v = Some e' \<Longrightarrow>
      (declare_variable e' w = None) = (declare_variable e w = None \<or> var_name w = var_name v)" for e v e' w
    by (auto simp: declare_variable_cases)
  show "tc_scope (scope_pop (scope_push e)) = tc_scope e" for e
    by (simp add: scope_pop_def scope_push_def scope_new_def)
  show "declare_variable e v = Some e' \<Longrightarrow> scope_pop e' = scope_pop e" for e v e'
    by (auto simp: declare_variable_cases scope_pop_def)
  show "tc_scope e = tc_scope e' \<Longrightarrow> type_checker_lookup_variable e x = type_checker_lookup_variable e' x" for e e' x
    by (simp add: type_checker_lookup_variable_def)
qed

section \<open>Move tracking\<close>

text \<open>
  \<open>mark_variable_moved\<close> writes through the pointer a lookup returned: the first match of the
  nearest frame that has one. \<open>scope_update\<close> is that write.
\<close>

fun update_variable :: "string \<Rightarrow> (variable \<Rightarrow> variable) \<Rightarrow> variable list \<Rightarrow> variable list" where
  "update_variable name f [] = []"
| "update_variable name f (v # vs) = (if var_name v = name then f v # vs else v # update_variable name f vs)"

fun scope_update :: "scope \<Rightarrow> string \<Rightarrow> (variable \<Rightarrow> variable) \<Rightarrow> scope" where
  "scope_update [] name f = []"
| "scope_update (fr # parents) name f = (case find_variable name (fr_variables fr) of
     Some v \<Rightarrow> fr\<lparr>fr_variables := update_variable name f (fr_variables fr)\<rparr> # parents
   | None \<Rightarrow> fr # scope_update parents name f)"

definition mark_variable_moved :: "tchecker \<Rightarrow> string \<Rightarrow> position \<Rightarrow> tchecker" where
  "mark_variable_moved c name pos =
     c\<lparr>tc_scope := scope_update (tc_scope c) name (\<lambda>v. v\<lparr>var_is_moved := True, var_declared_pos := pos\<rparr>)\<rparr>"

text \<open>Of an expression the move rules look at identifiers, operators and calls only.\<close>

datatype oexpr =
    OIdentifier string
  | OLiteral
  | OBinary bool oexpr oexpr
  | OUnary oexpr
  | OIndex oexpr oexpr
  | OSelector oexpr
  | OCall "oexpr list"
  | OOther

definition is_move_operation :: "tchecker \<Rightarrow> oexpr \<Rightarrow> bool" where
  "is_move_operation c e = (case e of
     OIdentifier n \<Rightarrow> (case type_checker_lookup_variable c n of
        Some v \<Rightarrow> var_ownership v = OWNERSHIP_OWNED | None \<Rightarrow> False)
   | _ \<Rightarrow> False)"

definition check_ownership_assignment :: "tchecker \<Rightarrow> oexpr \<Rightarrow> position \<Rightarrow> bool \<times> tchecker" where
  "check_ownership_assignment c rvalue pos = (case rvalue of
     OIdentifier n \<Rightarrow>
       if is_move_operation c rvalue then
         (case type_checker_lookup_variable c n of
            Some v \<Rightarrow> if var_is_moved v then (False, type_error c) else (True, mark_variable_moved c n pos)
          | None \<Rightarrow> (True, c))
       else (True, c)
   | _ \<Rightarrow> (True, c))"

text \<open>
  \<open>is_expression_safe_to_use\<close>; \<open>type_of\<close> stands for \<open>type_check_expression\<close>, whose result is
  only tested for a nullable type.
\<close>

fun is_expression_safe_to_use :: "(oexpr \<Rightarrow> ty option) \<Rightarrow> tchecker \<Rightarrow> oexpr \<Rightarrow> bool" where
  "is_expression_safe_to_use type_of c (OIdentifier n) = (case type_checker_lookup_variable c n of
     None \<Rightarrow> False
   | Some v \<Rightarrow> if var_is_moved v then False else if \<not> var_is_initialized v then False else True)"
| "is_expression_safe_to_use type_of c OLiteral = True"
| "is_expression_safe_to_use type_of c (OBinary asg l r) =
     (is_expression_safe_to_use type_of c l \<and> is_expression_safe_to_use type_of c r)"
| "is_expression_safe_to_use type_of c (OUnary e) = is_expression_safe_to_use type_of c e"
| "is_expression_safe_to_use type_of c (OIndex e i) =
     (if \<not> is_expression_safe_to_use type_of c e \<or> \<not> is_expression_safe_to_use type_of c i then False
      else \<not> type_is_nullable (type_of e))"
| "is_expression_safe_to_use type_of c (OSelector e) =
     (if \<not> is_expression_safe_to_use type_of c e then False else \<not> type_is_nullable (type_of e))"
| "is_expression_safe_to_use type_of c (OCall args) = True"
| "is_expression_safe_to_use type_of c OOther = True"

fun check_function_call_ownership ::
    "(oexpr \<Rightarrow> ty option) \<Rightarrow> tchecker \<Rightarrow> oexpr list \<Rightarrow> position \<Rightarrow> bool \<times> tchecker" where
  "check_function_call_ownership type_of c [] pos = (True, c)"
| "check_function_call_ownership type_of c (a # as) pos =
     (if \<not> is_expression_safe_to_use type_of c a then (False, type_error c)
      else check_function_call_ownership type_of
        (case a of OIdentifier n \<Rightarrow>
           (case type_checker_lookup_variable c n of
              Some v \<Rightarrow> if var_ownership v = OWNERSHIP_OWNED then mark_variable_moved c n pos else c
            | None \<Rightarrow> c)
         | _ \<Rightarrow> c) as pos)"

definition check_variable_lifetime :: "tchecker \<Rightarrow> string \<Rightarrow> bool \<times> tchecker" where
  "check_variable_lifetime c name = (case type_checker_lookup_variable c name of
     None \<Rightarrow> (False, type_error c)
   | Some v \<Rightarrow> if var_is_moved v then (False, type_error c)
               else if \<not> var_is_initialized v then (False, type_error c) else (True, c))"

fun check_borrow_rules :: "(oexpr \<Rightarrow> ty option) \<Rightarrow> tchecker \<Rightarrow> oexpr \<Rightarrow> position \<Rightarrow> bool \<times> tchecker" where
  "check_borrow_rules type_of c (OIdentifier n) pos = check_variable_lifetime c n"
| "check_borrow_rules type_of c (OBinary is_assign l r) pos =
     (if is_assign then check_ownership_assignment c r pos
      else (case check_borrow_rules type_of c l pos of (ok, c1) \<Rightarrow>
              if ok then check_borrow_rules type_of c1 r pos else (False, c1)))"
| "check_borrow_rules type_of c (OUnary e) pos = check_borrow_rules type_of c e pos"
| "check_borrow_rules type_of c (OCall args) pos = check_function_call_ownership type_of c args pos"
| "check_borrow_rules type_of c OLiteral pos = (True, c)"
| "check_borrow_rules type_of c (OIndex e i) pos = (True, c)"
| "check_borrow_rules type_of c (OSelector e) pos = (True, c)"
| "check_borrow_rules type_of c OOther pos = (True, c)"

section \<open>Scoping and moves\<close>

text \<open>
  Blocks scope their declarations: in a pushed scope a list of declarations that all
  succeed has distinct names, each of which then resolves to its own variable, every other
  name resolves as before, and popping the scope restores every lookup.
\<close>

theorem block_scoping:
  assumes "checker_env.add_all (scope_push c) vs = Some c'"
  shows "distinct (map var_name vs)
    \<and> list_all (\<lambda>v. type_checker_lookup_variable c' (var_name v) = Some v) vs
    \<and> (x \<notin> var_name ` set vs \<longrightarrow> type_checker_lookup_variable c' x = type_checker_lookup_variable c x)
    \<and> type_checker_lookup_variable (scope_pop c') x = type_checker_lookup_variable c x"
  using checker_env.add_all_distinct [OF assms] checker_env.add_all_names [OF assms]
    checker_env.lookup_add_all_other [OF assms] checker_env.block_restores [OF assms]
    checker_env.lookup_push by (auto simp: list_all_iff)

definition empty_checker :: tchecker where
  "empty_checker = \<lparr> tc_scope = [], tc_next_scope_id = 0, tc_error_count = 0, tc_warning_count = 0 \<rparr>"

definition origin :: position where
  "origin = \<lparr> pos_line = 1, pos_column = 1, pos_offset = 0, pos_filename = Some ''a.goo'' \<rparr>"

theorem block_scoping_witness:
  "\<exists>c'. checker_env.add_all (scope_push empty_checker) [variable_new ''x'' None origin] = Some c'
     \<and> type_checker_lookup_variable c' ''x'' = Some (variable_new ''x'' None origin)
     \<and> type_checker_lookup_variable (scope_pop c') ''x'' = None"
proof -
  obtain c' where c': "checker_env.add_all (scope_push empty_checker) [variable_new ''x'' None origin] = Some c'"
    using checker_env.add_fresh [of empty_checker "variable_new ''x'' None origin"] by auto
  have "type_checker_lookup_variable empty_checker ''x'' = None"
    by (simp add: empty_checker_def type_checker_lookup_variable_def)
  then show ?thesis
    using c' block_scoping [OF c', of "''x''"] by (auto simp: variable_new_def)
qed

lemma lookup_update_same:
  assumes "\<And>v. var_name (f v) = var_name v"
  shows "scope_lookup_variable (scope_update sc name f) name = map_option f (scope_lookup_variable sc name)"
proof (induction sc)
  case (Cons fr parents)
  have "find_variable name (update_variable name f vs) = map_option f (find_variable name vs)" for vs
    using assms by (induction vs) auto
  then show ?case using Cons by (auto split: option.splits)
qed simp

lemma find_update_other:
  assumes "\<And>v. var_name (f v) = var_name v" and "n \<noteq> name"
  shows "find_variable n (update_variable name f vs) = find_variable n vs"
  using assms by (induction vs) auto

lemma lookup_update_other:
  assumes "\<And>v. var_name (f v) = var_name v" and "n \<noteq> name"
  shows "scope_lookup_variable (scope_update sc name f) n = scope_lookup_variable sc n"
  by (induction sc) (auto simp: find_update_other [OF assms] split: option.splits)

lemma lookup_marked:
  "type_checker_lookup_variable (mark_variable_moved c name pos) n =
     (if n = name then map_option (\<lambda>v. v\<lparr>var_is_moved := True, var_declared_pos := pos\<rparr>)
        (type_checker_lookup_variable c n)
      else type_checker_lookup_variable c n)"
  by (simp add: type_checker_lookup_variable_def mark_variable_moved_def lookup_update_same lookup_update_other)

text \<open>
  Use after move is caught: once an owned variable has been moved by an assignment, every
  later read of it and every second move of it is rejected with exactly one more diagnostic,
  while all other variables are as before.
\<close>

theorem use_after_move_rejected:
  assumes "type_checker_lookup_variable c n = Some v" and "var_ownership v = OWNERSHIP_OWNED"
    and "check_ownership_assignment c (OIdentifier n) pos = (True, c')"
  shows "check_variable_lifetime c' n = (False, type_error c')
    \<and> check_ownership_assignment c' (OIdentifier n) pos' = (False, type_error c')
    \<and> \<not> is_expression_safe_to_use type_of c' (OIdentifier n)
    \<and> tc_error_count c' = tc_error_count c
    \<and> (m \<noteq> n \<longrightarrow> type_checker_lookup_variable c' m = type_checker_lookup_variable c m)"
proof -
  have c': "c' = mark_variable_moved c n pos" and "\<not> var_is_moved v"
    using assms by (auto simp: check_ownership_assignment_def is_move_operation_def split: if_splits)
  then show ?thesis
    using assms by (auto simp: check_variable_lifetime_def check_ownership_assignment_def is_move_operation_def
        lookup_marked) (simp add: mark_variable_moved_def)
qed

definition owner_checker :: tchecker where
  "owner_checker = empty_checker\<lparr>tc_scope := [\<lparr> fr_variables = [variable_new ''x'' None origin],
     fr_scope_id = 0, fr_is_function_boundary = False \<rparr>]\<rparr>"

theorem use_after_move_rejected_witness:
  "\<exists>c'. check_ownership_assignment owner_checker (OIdentifier ''x'') origin = (True, c')
     \<and> check_variable_lifetime c' ''x'' = (False, type_error c')"
proof -
  have lk: "type_checker_lookup_variable owner_checker ''x'' = Some (variable_new ''x'' None origin)"
    by (simp add: owner_checker_def type_checker_lookup_variable_def variable_new_def)
  have own: "var_ownership (variable_new ''x'' None origin) = OWNERSHIP_OWNED"
    by (simp add: variable_new_def)
  have run: "check_ownership_assignment owner_checker (OIdentifier ''x'') origin =
      (True, mark_variable_moved owner_checker ''x'' origin)"
    using lk own by (simp add: check_ownership_assignment_def is_move_operation_def variable_new_def)
  show ?thesis
    using use_after_move_rejected [OF lk own run] run by blast
qed

end
