(* ===== verification/Channels.thy ===== *)
theory Channels
  imports Prelude
begin

text \<open>
  The channels of \<open>src/runtime/channels.c\<close>. A channel is the record of \<open>goo_channel\<close>; the
  functions below are the sections the source runs under the channel's mutex, from the lock
  (or the return of a condition wait, which re-tests its predicate) to the unlock or the next
  wait. A section that has to wait leaves the channel unchanged and is \<open>Blocked\<close>; a call of
  \<open>goo_panic\<close> is \<open>Panic\<close>. Elements are byte strings of \<open>elem_size\<close> bytes; indices are natural
  numbers, which \<open>chan_inv\<close> keeps below the capacity.
\<close>

section \<open>The channel structure\<close>

type_synonym elem = "8 word list"
type_synonym chan_id = nat

datatype chan_pattern =
    GOO_CHANNEL_BASIC | GOO_CHANNEL_PUB | GOO_CHANNEL_SUB | GOO_CHANNEL_REQ
  | GOO_CHANNEL_REP | GOO_CHANNEL_PUSH | GOO_CHANNEL_PULL

record subscriber =
  sub_channel :: chan_id
  sub_active :: bool

text \<open>The union \<open>pattern_data\<close>.\<close>

datatype pattern_data =
    NoData
  | PubData "subscriber list" nat
  | SubData "chan_id option"
  | ReqRepData "chan_id option" nat
  | PushPullData "chan_id list" nat nat

record chan =
  ch_buffer :: "elem list"
  ch_elem_size :: nat
  ch_capacity :: nat
  ch_length :: nat
  ch_head :: nat
  ch_tail :: nat
  ch_pattern :: chan_pattern
  ch_endpoint :: "string option"
  ch_closed :: bool
  ch_rv_slot :: elem
  ch_rv_full :: bool
  ch_data :: pattern_data

datatype 'r attempt = Done 'r | Blocked | Panic string

definition zero_elem :: "chan \<Rightarrow> elem" where
  "zero_elem ch = replicate (ch_elem_size ch) 0"

section \<open>Creation and closing\<close>

definition goo_make_chan :: "nat \<Rightarrow> nat \<Rightarrow> chan" where
  "goo_make_chan elem_size buffer_size = \<lparr> ch_buffer = replicate buffer_size (replicate elem_size 0),
     ch_elem_size = elem_size, ch_capacity = buffer_size, ch_length = 0, ch_head = 0, ch_tail = 0,
     ch_pattern = GOO_CHANNEL_BASIC, ch_endpoint = None, ch_closed = False,
     ch_rv_slot = [], ch_rv_full = False, ch_data = NoData \<rparr>"

definition goo_make_pattern_chan :: "chan_pattern \<Rightarrow> nat \<Rightarrow> string option \<Rightarrow> chan" where
  "goo_make_pattern_chan pattern elem_size endpoint =
     (goo_make_chan elem_size 0)\<lparr>ch_pattern := pattern, ch_endpoint := endpoint,
       ch_data := (case pattern of
           GOO_CHANNEL_PUB \<Rightarrow> PubData [] 0
         | GOO_CHANNEL_SUB \<Rightarrow> SubData None
         | GOO_CHANNEL_REQ \<Rightarrow> ReqRepData None 0
         | GOO_CHANNEL_REP \<Rightarrow> ReqRepData None 0
         | GOO_CHANNEL_PUSH \<Rightarrow> PushPullData [] 0 0
         | GOO_CHANNEL_PULL \<Rightarrow> PushPullData [] 0 0
         | GOO_CHANNEL_BASIC \<Rightarrow> NoData)\<rparr>"

text \<open>\<open>close(nil)\<close> and a second close panic.\<close>

definition goo_chan_close :: "chan option \<Rightarrow> unit attempt \<times> chan option" where
  "goo_chan_close c = (case c of
     None \<Rightarrow> (Panic ''close of nil channel'', c)
   | Some ch \<Rightarrow> if ch_closed ch then (Panic ''close of closed channel'', c)
                else (Done (), Some (ch\<lparr>ch_closed := True\<rparr>)))"

section \<open>The ring buffer\<close>

definition buffer_put :: "chan \<Rightarrow> elem \<Rightarrow> chan" where
  "buffer_put ch data = ch\<lparr>ch_buffer := (ch_buffer ch)[ch_tail ch := take (ch_elem_size ch) data],
     ch_tail := (ch_tail ch + 1) mod ch_capacity ch, ch_length := ch_length ch + 1\<rparr>"

definition buffer_get :: "chan \<Rightarrow> elem \<times> chan" where
  "buffer_get ch = (ch_buffer ch ! ch_head ch,
     ch\<lparr>ch_head := (ch_head ch + 1) mod ch_capacity ch, ch_length := ch_length ch - 1\<rparr>)"

section \<open>Blocking send and receive\<close>

text \<open>
  The patterns whose send is the plain one: after the dispatch of \<open>goo_chan_send\<close> every other
  pattern has returned (see \<open>goo_chan_send\<close> below). \<open>send_section\<close> is the rest of the function up to
  its end on a buffered channel, and up to the second wait on an unbuffered one, where the
  value has been parked; \<open>taken_section\<close> is what follows that wait.
\<close>

datatype sent = Delivered | Parked

definition send_section :: "chan \<Rightarrow> elem \<Rightarrow> sent attempt \<times> chan" where
  "send_section ch data =
     (if ch_closed ch then (Panic ''send on closed channel'', ch)
      else if ch_capacity ch > 0 then
        (if ch_length ch \<ge> ch_capacity ch then (Blocked, ch) else (Done Delivered, buffer_put ch data))
      else if ch_rv_full ch then (Blocked, ch)
      else (Done Parked, ch\<lparr>ch_rv_slot := take (ch_elem_size ch) data, ch_rv_full := True\<rparr>))"

definition taken_section :: "chan \<Rightarrow> unit attempt" where
  "taken_section ch =
     (if ch_rv_full ch \<and> \<not> ch_closed ch then Blocked
      else if ch_rv_full ch then Panic ''send on closed channel'' else Done ())"

text \<open>
  \<open>goo_chan_recv\<close> returns its status and the bytes it stored through \<open>data\<close>; the publishing,
  requesting and pushing patterns cannot be received from and leave the bytes alone.
\<close>

datatype recv_result = Received elem | ClosedZero elem | Unsupported

definition recv_pattern_ok :: "chan_pattern \<Rightarrow> bool" where
  "recv_pattern_ok p = (p \<in> {GOO_CHANNEL_BASIC, GOO_CHANNEL_SUB, GOO_CHANNEL_REP, GOO_CHANNEL_PULL})"

definition goo_chan_recv :: "chan \<Rightarrow> recv_result attempt \<times> chan" where
  "goo_chan_recv ch =
     (if \<not> recv_pattern_ok (ch_pattern ch) then (Done Unsupported, ch)
      else if ch_capacity ch > 0 then
        (if ch_length ch = 0 then
           (if ch_closed ch then (Done (ClosedZero (zero_elem ch)), ch) else (Blocked, ch))
         else (case buffer_get ch of (v, ch') \<Rightarrow> (Done (Received v), ch')))
      else if \<not> ch_rv_full ch then
        (if ch_closed ch then (Done (ClosedZero (zero_elem ch)), ch) else (Blocked, ch))
      else (Done (Received (ch_rv_slot ch)), ch\<lparr>ch_rv_full := False\<rparr>))"

section \<open>Non-blocking operations and queries\<close>

text \<open>
  \<open>lock_ok\<close> is the answer of \<open>goo_mutex_try_lock\<close>. A null channel is \<open>None\<close>. The receive also
  returns the bytes it stored, \<open>None\<close> when it stored nothing.
\<close>

definition goo_chan_try_send :: "bool \<Rightarrow> chan option \<Rightarrow> elem \<Rightarrow> bool attempt \<times> chan option" where
  "goo_chan_try_send lock_ok c data = (case c of None \<Rightarrow> (Done False, c) | Some ch \<Rightarrow>
     if \<not> lock_ok then (Done False, c)
     else if ch_closed ch then (Panic ''send on closed channel'', c)
     else if ch_capacity ch > 0 \<and> ch_length ch < ch_capacity ch then (Done True, Some (buffer_put ch data))
     else (Done False, c))"

definition goo_chan_try_recv :: "bool \<Rightarrow> chan option \<Rightarrow> (bool \<times> elem option) \<times> chan option" where
  "goo_chan_try_recv lock_ok c = (case c of None \<Rightarrow> ((False, None), c) | Some ch \<Rightarrow>
     if \<not> lock_ok then ((False, None), c)
     else if ch_capacity ch > 0 \<and> ch_length ch > 0 then
       (case buffer_get ch of (v, ch') \<Rightarrow> ((True, Some v), Some ch'))
     else if ch_closed ch then ((True, Some (zero_elem ch)), c)
     else ((False, Some (zero_elem ch)), c))"

definition goo_chan_is_closed :: "chan option \<Rightarrow> bool" where
  "goo_chan_is_closed c = (case c of None \<Rightarrow> True | Some ch \<Rightarrow> ch_closed ch)"

definition goo_chan_len :: "chan option \<Rightarrow> nat" where
  "goo_chan_len c = (case c of None \<Rightarrow> 0 | Some ch \<Rightarrow> ch_length ch)"

definition goo_chan_cap :: "chan option \<Rightarrow> nat" where
  "goo_chan_cap c = (case c of None \<Rightarrow> 0 | Some ch \<Rightarrow> ch_capacity ch)"

definition goo_chan_send_timeout :: "bool \<Rightarrow> chan option \<Rightarrow> elem \<Rightarrow> 64 word \<Rightarrow> bool attempt \<times> chan option" where
  "goo_chan_send_timeout lock_ok c data timeout_ns = goo_chan_try_send lock_ok c data"

definition goo_chan_recv_timeout :: "bool \<Rightarrow> chan option \<Rightarrow> 64 word \<Rightarrow> (bool \<times> elem option) \<times> chan option" where
  "goo_chan_recv_timeout lock_ok c timeout_ns = goo_chan_try_recv lock_ok c"

section \<open>The heap of channels\<close>

text \<open>
  The pattern operations and \<open>goo_select\<close> go from one channel to others; a heap maps a
  channel's address to its record. Address \<open>None\<close> is the null pointer.
\<close>

type_synonym heap = "chan_id \<Rightarrow> chan option"

definition get_chan :: "heap \<Rightarrow> chan_id option \<Rightarrow> chan option" where
  "get_chan h a = (case a of None \<Rightarrow> None | Some i \<Rightarrow> h i)"

definition put_chan :: "heap \<Rightarrow> chan_id option \<Rightarrow> chan option \<Rightarrow> heap" where
  "put_chan h a c = (case a of None \<Rightarrow> h | Some i \<Rightarrow> h(i := c))"

definition try_send_at :: "heap \<Rightarrow> chan_id option \<Rightarrow> elem \<Rightarrow> bool attempt \<times> heap" where
  "try_send_at h a data = (case goo_chan_try_send True (get_chan h a) data of
     (r, c) \<Rightarrow> (r, put_chan h a c))"

definition try_recv_at :: "heap \<Rightarrow> chan_id option \<Rightarrow> (bool \<times> elem option) \<times> heap" where
  "try_recv_at h a = (case goo_chan_try_recv True (get_chan h a) of (r, c) \<Rightarrow> (r, put_chan h a c))"

text \<open>The broadcast loop of a publishing channel; it stops early only when a try-send panics.\<close>

fun publish :: "heap \<Rightarrow> subscriber list \<Rightarrow> elem \<Rightarrow> nat \<Rightarrow> nat attempt \<times> heap" where
  "publish h [] data sent_count = (Done sent_count, h)"
| "publish h (s # ss) data sent_count =
     (if sub_active s \<and> h (sub_channel s) \<noteq> None \<and> \<not> goo_chan_is_closed (h (sub_channel s)) then
        (case try_send_at h (Some (sub_channel s)) data of
           (Done ok, h') \<Rightarrow> publish h' ss data (if ok then sent_count + 1 else sent_count)
         | (Panic m, h') \<Rightarrow> (Panic m, h')
         | (Blocked, h') \<Rightarrow> (Blocked, h'))
      else publish h ss data sent_count)"

text \<open>The members of \<open>pattern_data\<close> as the functions read them.\<close>

definition subscribers_of :: "chan \<Rightarrow> subscriber list" where
  "subscribers_of ch = (case ch_data ch of PubData subs n \<Rightarrow> subs | _ \<Rightarrow> [])"

definition paired_of :: "chan \<Rightarrow> chan_id option" where
  "paired_of ch = (case ch_data ch of ReqRepData p n \<Rightarrow> p | _ \<Rightarrow> None)"

definition workers_of :: "chan \<Rightarrow> chan_id list \<times> nat \<times> nat" where
  "workers_of ch = (case ch_data ch of PushPullData ws n i \<Rightarrow> (ws, n, i) | _ \<Rightarrow> ([], 0, 0))"

text \<open>
  \<open>goo_chan_send\<close>: the closed test, the dispatch on the pattern, and for the plain patterns the
  send itself. \<open>SendStatus\<close> is a return value, \<open>SendParked\<close> the wait of an unbuffered send. The
  request pattern forwards to the paired channel; \<open>fuel\<close> bounds that forwarding, one step per
  channel of the chain (a paired channel is a reply channel, so two steps are enough).
\<close>

datatype send_result = SendStatus bool | SendParked

definition plain_send :: "heap \<Rightarrow> chan_id \<Rightarrow> chan \<Rightarrow> elem \<Rightarrow> send_result attempt \<times> heap" where
  "plain_send h a ch data = (case send_section ch data of
     (Done Delivered, ch') \<Rightarrow> (Done (SendStatus True), h(a := Some ch'))
   | (Done Parked, ch') \<Rightarrow> (Done SendParked, h(a := Some ch'))
   | (Panic m, ch') \<Rightarrow> (Panic m, h)
   | (Blocked, ch') \<Rightarrow> (Blocked, h))"

definition push_send :: "heap \<Rightarrow> chan_id \<Rightarrow> chan \<Rightarrow> elem \<Rightarrow> send_result attempt \<times> heap" where
  "push_send h a ch data = (case workers_of ch of (workers, count, nxt) \<Rightarrow>
     if count = 0 then (Done (SendStatus False), h)
     else (case try_send_at
             (h(a := Some (ch\<lparr>ch_data := PushPullData workers count ((nxt + 1) mod count)\<rparr>)))
             (Some (workers ! nxt)) data of
             (Done ok, h') \<Rightarrow> (Done (SendStatus ok), h')
           | (Panic m, h') \<Rightarrow> (Panic m, h')
           | (Blocked, h') \<Rightarrow> (Blocked, h')))"

definition pub_send :: "heap \<Rightarrow> chan \<Rightarrow> elem \<Rightarrow> send_result attempt \<times> heap" where
  "pub_send h ch data = (case publish h (subscribers_of ch) data 0 of
     (Done k, h') \<Rightarrow> (Done (SendStatus (k > 0)), h')
   | (Panic m, h') \<Rightarrow> (Panic m, h')
   | (Blocked, h') \<Rightarrow> (Blocked, h'))"

fun goo_chan_send :: "nat \<Rightarrow> heap \<Rightarrow> chan_id option \<Rightarrow> elem \<Rightarrow> send_result attempt \<times> heap" where
  "goo_chan_send 0 h a data = (Blocked, h)"
| "goo_chan_send (Suc fuel) h a data = (case a of None \<Rightarrow> (Blocked, h) | Some i \<Rightarrow>
     (case h i of None \<Rightarrow> (Blocked, h) | Some ch \<Rightarrow>
        if ch_closed ch then (Panic ''send on closed channel'', h)
        else (case ch_pattern ch of
            GOO_CHANNEL_PUB \<Rightarrow> pub_send h ch data
          | GOO_CHANNEL_REQ \<Rightarrow>
              (case paired_of ch of None \<Rightarrow> (Done (SendStatus False), h)
               | Some p \<Rightarrow> goo_chan_send fuel h (Some p) data)
          | GOO_CHANNEL_PUSH \<Rightarrow> push_send h i ch data
          | _ \<Rightarrow> plain_send h i ch data)))"

section \<open>Select\<close>

record select_case =
  sc_channel :: "chan_id option"
  sc_data :: elem
  sc_is_send :: bool
  sc_ready :: bool

text \<open>
  One pass of \<open>goo_select\<close> over the cases: the index of the first ready case, the cases with
  their \<open>ready\<close> flags and received bytes, and the heap. \<open>SelNone\<close> is the end of the pass.
\<close>

datatype sel_pass = SelReady nat | SelNone | SelPanic string

fun select_pass :: "heap \<Rightarrow> nat \<Rightarrow> select_case list \<Rightarrow> sel_pass \<times> select_case list \<times> heap" where
  "select_pass h i [] = (SelNone, [], h)"
| "select_pass h i (c # cs) =
     (if sc_channel c = None then
        (case select_pass h (Suc i) cs of (r, cs', h') \<Rightarrow> (r, c\<lparr>sc_ready := False\<rparr> # cs', h'))
      else if sc_is_send c then
        (case try_send_at h (sc_channel c) (sc_data c) of
           (Panic m, h1) \<Rightarrow> (SelPanic m, c\<lparr>sc_ready := False\<rparr> # cs, h1)
         | (Done True, h1) \<Rightarrow> (SelReady i, c\<lparr>sc_ready := True\<rparr> # cs, h1)
         | (_, h1) \<Rightarrow> (case select_pass h1 (Suc i) cs of (r, cs', h') \<Rightarrow> (r, c\<lparr>sc_ready := False\<rparr> # cs', h')))
      else
        (case try_recv_at h (sc_channel c) of
           ((ok, out), h1) \<Rightarrow>
             (let c1 = (case out of None \<Rightarrow> c | Some v \<Rightarrow> c\<lparr>sc_data := v\<rparr>) in
              if ok then (SelReady i, c1\<lparr>sc_ready := True\<rparr> # cs, h1)
              else (case select_pass h1 (Suc i) cs of
                      (r, cs', h') \<Rightarrow> (r, c1\<lparr>sc_ready := False\<rparr> # cs', h')))))"

text \<open>
  \<open>goo_select\<close> polls. \<open>clock\<close> gives the deadline test after each pass (whether the time is
  past the deadline) and \<open>env\<close> what other goroutines did to the heap during the sleep; \<open>fuel\<close>
  bounds the number of passes, \<open>None\<close> is a select that is still waiting.
\<close>

fun goo_select :: "nat \<Rightarrow> (nat \<Rightarrow> bool) \<Rightarrow> (nat \<Rightarrow> heap \<Rightarrow> heap) \<Rightarrow> heap \<Rightarrow> select_case list \<Rightarrow> int
    \<Rightarrow> (sel_pass \<times> select_case list \<times> heap) option" where
  "goo_select 0 past env h cases timeout_ns =
     (if cases = [] then Some (SelNone, cases, h) else None)"
| "goo_select (Suc fuel) past env h cases timeout_ns =
     (if cases = [] then Some (SelNone, cases, h)
      else (case select_pass h 0 cases of
          (SelNone, cs, h') \<Rightarrow>
            if timeout_ns = 0 then Some (SelNone, cs, h')
            else if timeout_ns > 0 \<and> past fuel then Some (SelNone, cs, h')
            else goo_select fuel past env (env fuel h') cs timeout_ns
        | r \<Rightarrow> Some r))"

section \<open>Pattern management\<close>

fun reactivate :: "chan_id \<Rightarrow> subscriber list \<Rightarrow> subscriber list option" where
  "reactivate s [] = None"
| "reactivate s (x # xs) =
     (if sub_channel x = s then Some (x\<lparr>sub_active := True\<rparr> # xs)
      else map_option ((#) x) (reactivate s xs))"

definition goo_chan_subscribe :: "heap \<Rightarrow> chan_id option \<Rightarrow> chan_id option \<Rightarrow> bool \<times> heap" where
  "goo_chan_subscribe h p s = (case (p, s) of (Some pi, Some si) \<Rightarrow>
     (case (h pi, h si) of (Some pc, Some sc) \<Rightarrow>
        if ch_pattern pc \<noteq> GOO_CHANNEL_PUB \<or> ch_pattern sc \<noteq> GOO_CHANNEL_SUB then (False, h)
        else (case ch_data pc of
            PubData subs n \<Rightarrow>
              (case reactivate si subs of
                 Some subs' \<Rightarrow> (True, h(pi := Some (pc\<lparr>ch_data := PubData subs' n\<rparr>)))
               | None \<Rightarrow> (True, h(pi := Some (pc\<lparr>ch_data :=
                     PubData (\<lparr> sub_channel = si, sub_active = True \<rparr> # subs) (n + 1)\<rparr>),
                   si := Some (sc\<lparr>ch_data := SubData (Some pi)\<rparr>))))
          | _ \<Rightarrow> (False, h))
      | _ \<Rightarrow> (False, h))
   | _ \<Rightarrow> (False, h))"

fun remove_subscriber :: "chan_id \<Rightarrow> subscriber list \<Rightarrow> subscriber list option" where
  "remove_subscriber s [] = None"
| "remove_subscriber s (x # xs) =
     (if sub_channel x = s then Some xs else map_option ((#) x) (remove_subscriber s xs))"

definition goo_chan_unsubscribe :: "heap \<Rightarrow> chan_id option \<Rightarrow> chan_id option \<Rightarrow> bool \<times> heap" where
  "goo_chan_unsubscribe h p s = (case (p, s) of (Some pi, Some si) \<Rightarrow>
     (case (h pi, h si) of (Some pc, Some sc) \<Rightarrow>
        if ch_pattern pc \<noteq> GOO_CHANNEL_PUB \<or> ch_pattern sc \<noteq> GOO_CHANNEL_SUB then (False, h)
        else (case ch_data pc of
            PubData subs n \<Rightarrow>
              (case remove_subscriber si subs of
                 Some subs' \<Rightarrow> (True, h(pi := Some (pc\<lparr>ch_data := PubData subs' (n - 1)\<rparr>),
                   si := Some (sc\<lparr>ch_data := SubData None\<rparr>)))
               | None \<Rightarrow> (False, h))
          | _ \<Rightarrow> (False, h))
      | _ \<Rightarrow> (False, h))
   | _ \<Rightarrow> (False, h))"

definition goo_chan_pair_req_rep :: "heap \<Rightarrow> chan_id option \<Rightarrow> chan_id option \<Rightarrow> bool \<times> heap" where
  "goo_chan_pair_req_rep h q r = (case (q, r) of (Some qi, Some ri) \<Rightarrow>
     (case (h qi, h ri) of (Some qc, Some rc) \<Rightarrow>
        if ch_pattern qc \<noteq> GOO_CHANNEL_REQ \<or> ch_pattern rc \<noteq> GOO_CHANNEL_REP then (False, h)
        else (True, h(qi := Some (qc\<lparr>ch_data := ReqRepData (Some ri) 0\<rparr>),
                      ri := Some (rc\<lparr>ch_data := ReqRepData (Some qi) 0\<rparr>)))
      | _ \<Rightarrow> (False, h))
   | _ \<Rightarrow> (False, h))"

text \<open>
  \<open>goo_chan_add_worker\<close> also stores the address of its own parameter in the pull channel; the
  model records the push channel that parameter held at that time.
\<close>

definition goo_chan_add_worker :: "heap \<Rightarrow> chan_id option \<Rightarrow> chan_id option \<Rightarrow> bool \<times> heap" where
  "goo_chan_add_worker h p w = (case (p, w) of (Some pi, Some wi) \<Rightarrow>
     (case (h pi, h wi) of (Some pc, Some wc) \<Rightarrow>
        if ch_pattern pc \<noteq> GOO_CHANNEL_PUSH \<or> ch_pattern wc \<noteq> GOO_CHANNEL_PULL then (False, h)
        else (case (workers_of pc, workers_of wc) of ((ws, n, i), (_, _, j)) \<Rightarrow>
            (True, h(pi := Some (pc\<lparr>ch_data := PushPullData (ws @ [wi]) (n + 1) i\<rparr>),
                     wi := Some (wc\<lparr>ch_data := PushPullData [pi] 1 j\<rparr>))))
      | _ \<Rightarrow> (False, h))
   | _ \<Rightarrow> (False, h))"

end
