(* ===== verification/Channels_Props.thy ===== *)
theory Channels_Props
  imports Channels
begin

text \<open>
  What the channel operations promise. The ring buffer is a bounded queue (locale
  \<open>bounded_fifo\<close>, interpreted on \<open>buffer_put\<close> and \<open>buffer_get\<close>), so a buffered channel delivers
  every accepted value once and in order, whatever the interleaving of its sections. The
  rendezvous of unbuffered channels is a step relation over goroutines. The last sections are
  about closing, select and the pattern channels.
\<close>

section \<open>Bounded queues\<close>

locale bounded_fifo =
  fixes put :: "'q \<Rightarrow> 'a \<Rightarrow> 'q"
    and get :: "'q \<Rightarrow> 'a \<times> 'q"
    and items :: "'q \<Rightarrow> 'a list"
    and inv :: "'q \<Rightarrow> bool"
    and room :: "'q \<Rightarrow> nat"
    and fits :: "'q \<Rightarrow> 'a \<Rightarrow> bool"
  assumes put_inv: "inv q \<Longrightarrow> room q > 0 \<Longrightarrow> inv (put q x)"
    and put_items: "inv q \<Longrightarrow> room q > 0 \<Longrightarrow> fits q x \<Longrightarrow> items (put q x) = items q @ [x]"
    and put_fits: "fits (put q x) y = fits q y"
    and get_inv: "inv q \<Longrightarrow> items q \<noteq> [] \<Longrightarrow> inv (snd (get q))"
    and get_items: "inv q \<Longrightarrow> items q \<noteq> [] \<Longrightarrow> items q = fst (get q) # items (snd (get q))"
    and get_fits: "fits (snd (get q)) y = fits q y"
begin

text \<open>
  \<open>trace q ins outs q'\<close>: from \<open>q\<close> the values \<open>ins\<close> were put and \<open>outs\<close> were got, in these
  orders, interleaved in any way; steps that touch neither contents nor invariant may occur.
\<close>

inductive trace :: "'q \<Rightarrow> 'a list \<Rightarrow> 'a list \<Rightarrow> 'q \<Rightarrow> bool" where
  start: "trace q [] [] q"
| put_step: "trace q ins outs q' \<Longrightarrow> room q' > 0 \<Longrightarrow> fits q' x \<Longrightarrow> trace q (ins @ [x]) outs (put q' x)"
| get_step: "trace q ins outs q' \<Longrightarrow> items q' \<noteq> [] \<Longrightarrow> trace q ins (outs @ [fst (get q')]) (snd (get q'))"
| other_step: "trace q ins outs q' \<Longrightarrow> items q'' = items q' \<Longrightarrow> inv q' = inv q'' \<Longrightarrow> trace q ins outs q''"

lemma trace_conserves:
  "trace q ins outs q' \<Longrightarrow> inv q \<Longrightarrow> inv q' \<and> items q @ ins = outs @ items q'"
proof (induction rule: trace.induct)
  case (put_step q ins outs q' x)
  then show ?case using put_inv put_items by simp
next
  case (get_step q ins outs q')
  then show ?case using get_inv get_items by simp
qed auto

lemma outs_prefix: "trace q ins outs q' \<Longrightarrow> inv q \<Longrightarrow> items q = [] \<Longrightarrow> outs = take (length outs) ins"
  using trace_conserves [of q ins outs q'] by auto

end

section \<open>The ring buffer is a bounded queue\<close>

definition chan_inv :: "chan \<Rightarrow> bool" where
  "chan_inv ch = (ch_capacity ch > 0 \<and> length (ch_buffer ch) = ch_capacity ch \<and> ch_length ch \<le> ch_capacity ch
     \<and> ch_head ch < ch_capacity ch \<and> ch_tail ch = (ch_head ch + ch_length ch) mod ch_capacity ch)"

definition chan_items :: "chan \<Rightarrow> elem list" where
  "chan_items ch = map (\<lambda>i. ch_buffer ch ! ((ch_head ch + i) mod ch_capacity ch)) [0..<ch_length ch]"

lemma length_chan_items [simp]: "length (chan_items ch) = ch_length ch"
  by (simp add: chan_items_def)

lemma chan_items_nonempty: "chan_items ch \<noteq> [] \<longleftrightarrow> 0 < ch_length ch"
  by (simp add: chan_items_def)

lemma slot_distinct:
  assumes "h < c" and "i < l" and "l < c"
  shows "(h + l) mod c \<noteq> (h + i) mod (c :: nat)"
proof
  assume eq: "(h + l) mod c = (h + i) mod c"
  then have "(l - i) mod c = 0"
    using assms mod_eq_dvd_iff_nat [of "h + i" "h + l" c] by auto
  then show False using assms by auto
qed

lemma buffer_put_inv: "chan_inv ch \<Longrightarrow> ch_length ch < ch_capacity ch \<Longrightarrow> chan_inv (buffer_put ch x)"
  by (simp add: chan_inv_def buffer_put_def mod_Suc_eq)

lemma buffer_put_items:
  assumes "chan_inv ch" and "ch_length ch < ch_capacity ch" and "length x = ch_elem_size ch"
  shows "chan_items (buffer_put ch x) = chan_items ch @ [x]"
proof -
  have tl: "ch_tail ch < length (ch_buffer ch)"
    using assms by (simp add: chan_inv_def)
  have "map (\<lambda>i. (ch_buffer ch)[ch_tail ch := x] ! ((ch_head ch + i) mod ch_capacity ch)) [0..<ch_length ch]
      = map (\<lambda>i. ch_buffer ch ! ((ch_head ch + i) mod ch_capacity ch)) [0..<ch_length ch]"
    using assms slot_distinct [of "ch_head ch" "ch_capacity ch" _ "ch_length ch"]
    by (auto simp: chan_inv_def)
  then show ?thesis
    using assms tl by (simp add: chan_items_def buffer_put_def chan_inv_def)
qed

lemma buffer_get_inv:
  assumes "chan_inv ch" and "0 < ch_length ch"
  shows "chan_inv (snd (buffer_get ch))"
proof -
  obtain n where "ch_length ch = Suc n" using assms(2) by (cases "ch_length ch") auto
  then show ?thesis using assms(1) by (auto simp: chan_inv_def buffer_get_def mod_simps)
qed

lemma buffer_get_items:
  assumes "chan_inv ch" and "0 < ch_length ch"
  shows "chan_items ch = fst (buffer_get ch) # chan_items (snd (buffer_get ch))"
proof -
  obtain n where n: "ch_length ch = Suc n" using assms(2) by (cases "ch_length ch") auto
  have "[0..<Suc n] = 0 # map Suc [0..<n]"
    by (simp add: map_Suc_upt upt_conv_Cons del: upt_Suc)
  then show ?thesis
    using assms(1) n by (simp add: chan_items_def buffer_get_def chan_inv_def comp_def mod_simps del: upt_Suc)
qed

interpretation ring: bounded_fifo buffer_put buffer_get chan_items chan_inv
    "\<lambda>ch. ch_capacity ch - ch_length ch" "\<lambda>ch x. length x = ch_elem_size ch"
proof unfold_locales
  fix q :: chan and x y :: elem
  show "chan_inv q \<Longrightarrow> 0 < ch_capacity q - ch_length q \<Longrightarrow> chan_inv (buffer_put q x)"
    by (simp add: buffer_put_inv)
  show "chan_inv q \<Longrightarrow> 0 < ch_capacity q - ch_length q \<Longrightarrow> length x = ch_elem_size q
      \<Longrightarrow> chan_items (buffer_put q x) = chan_items q @ [x]"
    by (simp add: buffer_put_items)
  show "(length y = ch_elem_size (buffer_put q x)) = (length y = ch_elem_size q)"
    by (simp add: buffer_put_def)
  show "chan_inv q \<Longrightarrow> chan_items q \<noteq> [] \<Longrightarrow> chan_inv (snd (buffer_get q))"
    by (simp add: buffer_get_inv chan_items_nonempty)
  show "chan_inv q \<Longrightarrow> chan_items q \<noteq> [] \<Longrightarrow>
      chan_items q = fst (buffer_get q) # chan_items (snd (buffer_get q))"
    by (simp add: buffer_get_items chan_items_nonempty)
  show "(length y = ch_elem_size (snd (buffer_get q))) = (length y = ch_elem_size q)"
    by (simp add: buffer_get_def)
qed

section \<open>Buffered channels deliver in order\<close>

text \<open>
  An execution of a channel is a sequence of sections by any goroutines: a send attempt, a
  receive attempt, a close. A section that blocks or panics changes nothing and the sequence
  goes on with another goroutine's section. \<open>chan_run\<close> collects the values whose send returned
  and the values that were received.
\<close>

datatype chan_event = ESend elem | ERecv | EClose

definition chan_event_step :: "chan \<Rightarrow> chan_event \<Rightarrow> chan \<times> elem list \<times> elem list" where
  "chan_event_step ch e = (case e of
     ESend x \<Rightarrow> (case send_section ch x of (Done _, ch') \<Rightarrow> (ch', [x], []) | _ \<Rightarrow> (ch, [], []))
   | ERecv \<Rightarrow> (case goo_chan_recv ch of (Done (Received v), ch') \<Rightarrow> (ch', [], [v]) | _ \<Rightarrow> (ch, [], []))
   | EClose \<Rightarrow> (case goo_chan_close (Some ch) of (Done _, Some ch') \<Rightarrow> (ch', [], []) | _ \<Rightarrow> (ch, [], [])))"

fun chan_run :: "chan \<Rightarrow> chan_event list \<Rightarrow> chan \<times> elem list \<times> elem list" where
  "chan_run ch [] = (ch, [], [])"
| "chan_run ch (e # es) = (case chan_event_step ch e of (ch1, in1, out1) \<Rightarrow>
     (case chan_run ch1 es of (ch2, in2, out2) \<Rightarrow> (ch2, in1 @ in2, out1 @ out2)))"

text \<open>The three kinds of section on a buffered channel.\<close>

lemma event_step_simps:
  assumes "0 < ch_capacity ch"
  shows "chan_event_step ch (ESend x) =
      (if ch_closed ch \<or> ch_capacity ch \<le> ch_length ch then (ch, [], []) else (buffer_put ch x, [x], []))"
    and "chan_event_step ch ERecv =
      (if \<not> recv_pattern_ok (ch_pattern ch) \<or> ch_length ch = 0 then (ch, [], [])
       else (snd (buffer_get ch), [], [fst (buffer_get ch)]))"
    and "chan_event_step ch EClose = (if ch_closed ch then ch else ch\<lparr>ch_closed := True\<rparr>, [], [])"
  using assms by (auto simp: chan_event_step_def send_section_def goo_chan_recv_def goo_chan_close_def
      split: prod.splits)

definition event_sized :: "nat \<Rightarrow> chan_event \<Rightarrow> bool" where
  "event_sized n e = (case e of ESend x \<Rightarrow> length x = n | _ \<Rightarrow> True)"

lemma chan_event_step_trace:
  assumes tr: "ring.trace q ins outs ch" and inv: "chan_inv ch"
    and size: "event_sized (ch_elem_size ch) e" and st: "chan_event_step ch e = (ch1, i1, o1)"
  shows "ring.trace q (ins @ i1) (outs @ o1) ch1 \<and> chan_inv ch1 \<and> ch_elem_size ch1 = ch_elem_size ch
    \<and> ch_capacity ch1 = ch_capacity ch"
proof -
  have cap: "0 < ch_capacity ch" using inv by (simp add: chan_inv_def)
  show ?thesis
  proof (cases e)
    case (ESend x)
    then show ?thesis
      using st tr inv size ring.put_step [OF tr, of x] buffer_put_inv [of ch x]
      by (auto simp: event_step_simps [OF cap] event_sized_def buffer_put_def split: if_splits)
  next
    case ERecv
    then show ?thesis
      using st tr inv ring.get_step [OF tr] buffer_get_inv [of ch]
      by (auto simp: event_step_simps [OF cap] chan_items_nonempty buffer_get_def split: if_splits)
  next
    case EClose
    have "ring.trace q ins outs (ch\<lparr>ch_closed := True\<rparr>)" "chan_inv (ch\<lparr>ch_closed := True\<rparr>)"
      by (rule ring.other_step [OF tr]) (use inv in \<open>simp_all add: chan_items_def chan_inv_def\<close>)
    then show ?thesis
      using st tr inv EClose by (auto simp: event_step_simps [OF cap] split: if_splits)
  qed
qed

lemma chan_run_trace:
  "ring.trace q ins outs ch \<Longrightarrow> chan_inv ch \<Longrightarrow> list_all (event_sized (ch_elem_size ch)) es
    \<Longrightarrow> chan_run ch es = (ch', i1, o1) \<Longrightarrow>
    ring.trace q (ins @ i1) (outs @ o1) ch' \<and> chan_inv ch' \<and> ch_capacity ch' = ch_capacity ch"
proof (induction es arbitrary: ins outs ch i1 o1)
  case (Cons e es)
  obtain ch1 ia oa where st: "chan_event_step ch e = (ch1, ia, oa)" by (metis prod_cases3)
  obtain ib ob where rn: "chan_run ch1 es = (ch', ib, ob)" and io: "i1 = ia @ ib" "o1 = oa @ ob"
    using Cons.prems(4) st by (auto split: prod.splits)
  have "ring.trace q (ins @ ia) (outs @ oa) ch1 \<and> chan_inv ch1 \<and> ch_elem_size ch1 = ch_elem_size ch
      \<and> ch_capacity ch1 = ch_capacity ch"
    using chan_event_step_trace [OF Cons.prems(1,2) _ st] Cons.prems(3) by simp
  then show ?case
    using Cons.IH [OF _ _ _ rn, of "ins @ ia" "outs @ oa"] Cons.prems(3) io by simp
qed simp



section \<open>Closing\<close>

text \<open>
  A closed buffered channel drains: receives return the remaining values in order with
  status 1, after that every receive returns the zero value with status 0 and changes nothing,
  and every send panics.
\<close>

theorem closed_channel_drains:
  assumes "chan_inv ch" and "ch_closed ch" and "recv_pattern_ok (ch_pattern ch)"
  shows "send_section ch x = (Panic ''send on closed channel'', ch)
    \<and> (case chan_items ch of
         [] \<Rightarrow> goo_chan_recv ch = (Done (ClosedZero (replicate (ch_elem_size ch) 0)), ch)
       | v # vs \<Rightarrow> \<exists>ch'. goo_chan_recv ch = (Done (Received v), ch') \<and> chan_items ch' = vs
           \<and> ch_closed ch' \<and> chan_inv ch')"
proof -
  have "send_section ch x = (Panic ''send on closed channel'', ch)"
    using assms(2) by (simp add: send_section_def)
  moreover have "case chan_items ch of
         [] \<Rightarrow> goo_chan_recv ch = (Done (ClosedZero (replicate (ch_elem_size ch) 0)), ch)
       | v # vs \<Rightarrow> \<exists>ch'. goo_chan_recv ch = (Done (Received v), ch') \<and> chan_items ch' = vs
           \<and> ch_closed ch' \<and> chan_inv ch'"
  proof (cases "ch_length ch = 0")
    case True
    then show ?thesis
      using assms by (simp add: goo_chan_recv_def chan_items_def chan_inv_def zero_elem_def)
  next
    case False
    then have "goo_chan_recv ch = (Done (Received (fst (buffer_get ch))), snd (buffer_get ch))"
      using assms by (simp add: goo_chan_recv_def chan_inv_def split: prod.splits)
    moreover have "ch_closed (snd (buffer_get ch))"
      using assms(2) by (simp add: buffer_get_def)
    ultimately show ?thesis
      using buffer_get_items [OF assms(1)] buffer_get_inv [OF assms(1)] False by simp
  qed
  ultimately show ?thesis ..
qed

theorem closed_channel_drains_witness:
  "\<exists>ch. chan_inv ch \<and> ch_closed ch \<and> chan_items ch = [[5]]
     \<and> (\<exists>ch'. goo_chan_recv ch = (Done (Received [5]), ch') \<and> chan_items ch' = [])"
proof -
  define ch where "ch = (buffer_put (goo_make_chan 1 1) [5])\<lparr>ch_closed := True\<rparr>"
  have "chan_inv ch" "ch_closed ch" "recv_pattern_ok (ch_pattern ch)" "chan_items ch = [[5]]"
    by (simp_all add: ch_def goo_make_chan_def buffer_put_def chan_inv_def recv_pattern_ok_def chan_items_def)
  then show ?thesis
    using closed_channel_drains [of ch "[]"] by auto
qed

section \<open>Select and patterns on unbuffered channels\<close>

text \<open>
  The non-blocking operations ignore the rendezvous slot: on an open unbuffered channel
  both report not ready and change nothing, even while a sender is parked there with a value.
\<close>

lemma try_ops_ignore_rendezvous:
  assumes "ch_capacity ch = 0" and "\<not> ch_closed ch"
  shows "goo_chan_try_send lock (Some ch) x = (Done False, Some ch)
    \<and> fst (fst (goo_chan_try_recv lock (Some ch))) = False \<and> snd (goo_chan_try_recv lock (Some ch)) = Some ch"
  using assms by (simp add: goo_chan_try_send_def goo_chan_try_recv_def)

text \<open>Every channel of the heap that a case or a subscriber list names is open and unbuffered.\<close>

definition unbuffered_open :: "heap \<Rightarrow> chan_id \<Rightarrow> bool" where
  "unbuffered_open h i = (case h i of None \<Rightarrow> False | Some ch \<Rightarrow> ch_capacity ch = 0 \<and> \<not> ch_closed ch)"

lemma try_at_unbuffered:
  assumes "unbuffered_open h i"
  shows "try_send_at h (Some i) x = (Done False, h)"
    and "fst (fst (try_recv_at h (Some i))) = False" and "snd (try_recv_at h (Some i)) = h"
  using assms by (auto simp: unbuffered_open_def try_send_at_def try_recv_at_def goo_chan_try_send_def
      goo_chan_try_recv_def get_chan_def put_chan_def fun_upd_idem split: option.splits)

lemma publish_unbuffered:
  "list_all (\<lambda>s. unbuffered_open h (sub_channel s)) subs \<Longrightarrow> publish h subs x n = (Done n, h)"
  by (induction subs) (auto simp: try_at_unbuffered)

text \<open>
  Publishing reaches nobody: pattern channels are created unbuffered, and the broadcast
  uses the non-blocking send, so sending on a publisher whose subscribers are all open channels
  from \<open>goo_make_pattern_chan\<close> delivers to none of them and returns 0.
\<close>

theorem pattern_send_never_delivers:
  assumes "h i = Some ch" and "\<not> ch_closed ch"
    and "list_all (\<lambda>s. unbuffered_open h (sub_channel s)) (subscribers_of ch)"
    and "ch_pattern ch = GOO_CHANNEL_PUB"
  shows "goo_chan_send (Suc fuel) h (Some i) x = (Done (SendStatus False), h)"
  using assms by (simp add: pub_send_def publish_unbuffered)

definition pub_heap :: heap where
  "pub_heap = (\<lambda>_. None)(0 := Some ((goo_make_pattern_chan GOO_CHANNEL_PUB 1 None)
       \<lparr>ch_data := PubData [\<lparr> sub_channel = 1, sub_active = True \<rparr>] 1\<rparr>),
     1 := Some ((goo_make_pattern_chan GOO_CHANNEL_SUB 1 None)\<lparr>ch_data := SubData (Some 0)\<rparr>))"

lemma pub_heap_subscribe:
  "goo_chan_subscribe ((\<lambda>_. None)(0 := Some (goo_make_pattern_chan GOO_CHANNEL_PUB 1 None),
      1 := Some (goo_make_pattern_chan GOO_CHANNEL_SUB 1 None))) (Some 0) (Some 1) = (True, pub_heap)"
  by (simp add: goo_chan_subscribe_def goo_make_pattern_chan_def goo_make_chan_def pub_heap_def fun_eq_iff)

theorem pattern_send_never_delivers_witness:
  "goo_chan_send 2 pub_heap (Some 0) [5] = (Done (SendStatus False), pub_heap)"
  using pattern_send_never_delivers [of pub_heap 0 "the (pub_heap 0)" 1 "[5]"]
  by (simp add: pub_heap_def goo_make_pattern_chan_def goo_make_chan_def subscribers_of_def unbuffered_open_def
      numeral_2_eq_2)

definition cases_unbuffered :: "heap \<Rightarrow> select_case list \<Rightarrow> bool" where
  "cases_unbuffered h cs = list_all (\<lambda>c. case sc_channel c of None \<Rightarrow> True | Some i \<Rightarrow> unbuffered_open h i) cs"

lemma select_pass_unbuffered:
  "cases_unbuffered h cs \<Longrightarrow> \<exists>cs'. select_pass h i cs = (SelNone, cs', h) \<and> map sc_channel cs' = map sc_channel cs"
proof (induction cs arbitrary: i)
  case (Cons c cs)
  then obtain cs' where cs': "select_pass h (Suc i) cs = (SelNone, cs', h)" "map sc_channel cs' = map sc_channel cs"
    by (fastforce simp: cases_unbuffered_def)
  show ?case
  proof (cases "sc_channel c")
    case None
    then show ?thesis using cs' by auto
  next
    case (Some a)
    then have "unbuffered_open h a" using Cons.prems by (simp add: cases_unbuffered_def)
    note tr = try_at_unbuffered [OF this]
    obtain r where "try_recv_at h (Some a) = ((False, r), h)"
      using tr(2,3) by (metis prod.collapse)
    then show ?thesis using Some cs' tr(1) by (auto simp: Let_def split: option.splits)
  qed
qed simp

lemma cases_unbuffered_channels:
  assumes "map sc_channel cs = map sc_channel ds"
  shows "cases_unbuffered h cs = cases_unbuffered h ds"
proof -
  have "cases_unbuffered h es = list_all (\<lambda>c. case c of None \<Rightarrow> True | Some i \<Rightarrow> unbuffered_open h i) (map sc_channel es)"
    for es by (simp add: cases_unbuffered_def list_all_iff)
  then show ?thesis using assms by simp
qed

text \<open>
  A select without default whose channels are all unbuffered never returns, whatever other
  goroutines park in them, as long as they stay open: after any number of polls it is still
  waiting.
\<close>

theorem select_unbuffered_waits:
  assumes "cases \<noteq> []" and "timeout_ns < 0" and "cases_unbuffered h cases"
    and "\<And>k g. cases_unbuffered g cases \<Longrightarrow> cases_unbuffered (env k g) cases"
  shows "goo_select fuel past env h cases timeout_ns = None"
  using assms
proof (induction fuel arbitrary: h cases)
  case (Suc fuel)
  obtain cs' where cs': "select_pass h 0 cases = (SelNone, cs', h)" "map sc_channel cs' = map sc_channel cases"
    using select_pass_unbuffered [OF Suc.prems(3)] by blast
  have "cs' \<noteq> []" using cs'(2) Suc.prems(1) by auto
  moreover have "cases_unbuffered (env fuel h) cs'"
    using Suc.prems(3,4) cases_unbuffered_channels [OF cs'(2)] by simp
  moreover have "cases_unbuffered (env k g) cs'" if "cases_unbuffered g cs'" for k g
    using that Suc.prems(4) cases_unbuffered_channels [OF cs'(2)] by simp
  ultimately have "goo_select fuel past env (env fuel h) cs' timeout_ns = None"
    using Suc.IH Suc.prems(2) by blast
  then show ?case using cs'(1) Suc.prems(1,2) by simp
qed simp

definition parked_heap :: heap where
  "parked_heap = (\<lambda>_. None)(0 := Some ((goo_make_chan 1 0)\<lparr>ch_rv_slot := [5], ch_rv_full := True\<rparr>))"

theorem select_unbuffered_waits_witness:
  "goo_select 1000 (\<lambda>_. False) (\<lambda>_ h. h) parked_heap
     [\<lparr> sc_channel = Some 0, sc_data = [], sc_is_send = False, sc_ready = False \<rparr>] (- 1) = None"
  by (rule select_unbuffered_waits)
     (simp_all add: cases_unbuffered_def unbuffered_open_def parked_heap_def goo_make_chan_def)

section \<open>The rendezvous\<close>

text \<open>
  Goroutines on one unbuffered channel. A sender goes from \<open>WantSend\<close> over \<open>WaitTaken\<close> (its value
  is parked) to \<open>SendDone\<close> or \<open>SendPanicked\<close>; a receiver from \<open>WantRecv\<close> to \<open>RecvDone\<close>. Each step is
  one section under the mutex. \<open>rz_owner\<close> and \<open>rz_delivered\<close> are history: which sender parked the
  value now in the slot, and which senders' values were received, in order.
\<close>

datatype gpc =
    WantSend elem | WaitTaken elem | SendDone elem | SendPanicked elem
  | WantRecv | RecvDone elem | RecvClosed | WantClose | CloseDone

record rz_state =
  rz_chan :: chan
  rz_pc :: "nat \<Rightarrow> gpc"
  rz_owner :: nat
  rz_delivered :: "(nat \<times> elem) list"
  rz_received :: "elem list"

inductive rz_step :: "rz_state \<Rightarrow> rz_state \<Rightarrow> bool" where
  park: "rz_pc s t = WantSend d \<Longrightarrow> send_section (rz_chan s) d = (Done Parked, ch') \<Longrightarrow>
    rz_step s (s\<lparr>rz_chan := ch', rz_pc := (rz_pc s)(t := WaitTaken d), rz_owner := t\<rparr>)"
| send_panic: "rz_pc s t = WantSend d \<Longrightarrow> send_section (rz_chan s) d = (Panic m, ch') \<Longrightarrow>
    rz_step s (s\<lparr>rz_pc := (rz_pc s)(t := SendPanicked d)\<rparr>)"
| taken: "rz_pc s t = WaitTaken d \<Longrightarrow> taken_section (rz_chan s) = Done () \<Longrightarrow>
    rz_step s (s\<lparr>rz_pc := (rz_pc s)(t := SendDone d)\<rparr>)"
| taken_panic: "rz_pc s t = WaitTaken d \<Longrightarrow> taken_section (rz_chan s) = Panic m \<Longrightarrow>
    rz_step s (s\<lparr>rz_pc := (rz_pc s)(t := SendPanicked d)\<rparr>)"
| recv: "rz_pc s t = WantRecv \<Longrightarrow> goo_chan_recv (rz_chan s) = (Done (Received v), ch') \<Longrightarrow>
    rz_step s (s\<lparr>rz_chan := ch', rz_pc := (rz_pc s)(t := RecvDone v),
      rz_delivered := rz_delivered s @ [(rz_owner s, v)], rz_received := rz_received s @ [v]\<rparr>)"
| recv_closed: "rz_pc s t = WantRecv \<Longrightarrow> goo_chan_recv (rz_chan s) = (Done (ClosedZero v), ch') \<Longrightarrow>
    rz_step s (s\<lparr>rz_pc := (rz_pc s)(t := RecvClosed)\<rparr>)"
| close: "rz_pc s t = WantClose \<Longrightarrow> goo_chan_close (Some (rz_chan s)) = (Done (), Some ch') \<Longrightarrow>
    rz_step s (s\<lparr>rz_chan := ch', rz_pc := (rz_pc s)(t := CloseDone)\<rparr>)"

text \<open>The initial states: a fresh unbuffered channel and goroutines that have not started.\<close>

definition rz_init :: "nat \<Rightarrow> rz_state \<Rightarrow> bool" where
  "rz_init elem_size s = (rz_chan s = goo_make_chan elem_size 0 \<and> rz_delivered s = [] \<and> rz_received s = [] \<and>
     (\<forall>t. case rz_pc s t of WantSend d \<Rightarrow> length d = elem_size | WantRecv \<Rightarrow> True | WantClose \<Rightarrow> True | _ \<Rightarrow> False))"

text \<open>
  What holds of one goroutine: \<open>mine\<close> says that the slot is full with its value, \<open>dl\<close> are the
  deliveries so far.
\<close>

definition gpc_ok :: "nat \<Rightarrow> bool \<Rightarrow> elem \<Rightarrow> (nat \<times> elem) set \<Rightarrow> nat \<Rightarrow> gpc \<Rightarrow> bool" where
  "gpc_ok n mine slot dl t p = (case p of
     WantSend d \<Rightarrow> length d = n \<and> t \<notin> fst ` dl \<and> \<not> mine
   | WaitTaken d \<Rightarrow> ((t, d) \<in> dl \<and> \<not> mine) \<or> (mine \<and> slot = d \<and> t \<notin> fst ` dl)
   | SendDone d \<Rightarrow> (t, d) \<in> dl \<and> \<not> mine
   | SendPanicked d \<Rightarrow> mine \<longrightarrow> t \<notin> fst ` dl
   | _ \<Rightarrow> t \<notin> fst ` dl \<and> \<not> mine)"

definition rz_mine :: "rz_state \<Rightarrow> nat \<Rightarrow> bool" where
  "rz_mine s t = (ch_rv_full (rz_chan s) \<and> rz_owner s = t)"

definition rz_inv :: "nat \<Rightarrow> rz_state \<Rightarrow> bool" where
  "rz_inv n s = (
     ch_capacity (rz_chan s) = 0 \<and> ch_elem_size (rz_chan s) = n \<and> ch_pattern (rz_chan s) = GOO_CHANNEL_BASIC
     \<and> map snd (rz_delivered s) = rz_received s \<and> distinct (map fst (rz_delivered s))
     \<and> (\<forall>t. gpc_ok n (rz_mine s t) (ch_rv_slot (rz_chan s)) (set (rz_delivered s)) t (rz_pc s t)))"

lemma rz_inv_init: "rz_init n s \<Longrightarrow> rz_inv n s"
  unfolding rz_init_def rz_inv_def rz_mine_def gpc_ok_def
  by (auto simp: goo_make_chan_def split: gpc.splits)

lemma rz_sections:
  assumes "rz_inv n s"
  shows "send_section (rz_chan s) d = (Done Parked, ch') \<longleftrightarrow> \<not> ch_closed (rz_chan s) \<and> \<not> ch_rv_full (rz_chan s)
      \<and> ch' = (rz_chan s)\<lparr>ch_rv_slot := take n d, ch_rv_full := True\<rparr>"
    and "taken_section (rz_chan s) = Done () \<longleftrightarrow> \<not> ch_rv_full (rz_chan s)"
    and "goo_chan_recv (rz_chan s) = (Done (Received v), ch') \<longleftrightarrow> ch_rv_full (rz_chan s)
      \<and> v = ch_rv_slot (rz_chan s) \<and> ch' = (rz_chan s)\<lparr>ch_rv_full := False\<rparr>"
    and "goo_chan_close (Some (rz_chan s)) = (Done (), Some ch') \<longleftrightarrow> \<not> ch_closed (rz_chan s)
      \<and> ch' = (rz_chan s)\<lparr>ch_closed := True\<rparr>"
  using assms by (auto simp: rz_inv_def send_section_def taken_section_def goo_chan_recv_def recv_pattern_ok_def
      goo_chan_close_def)

text \<open>The slot's owner has not been delivered yet.\<close>

lemma gpc_ok_mine: "gpc_ok n True slot dl t p \<Longrightarrow> t \<notin> fst ` dl"
  by (auto simp: gpc_ok_def split: gpc.splits)

text \<open>Preservation for the goroutines that do not move: the slot fills, or is emptied.\<close>

lemma gpc_ok_fill: "gpc_ok n False slot dl u p \<Longrightarrow> gpc_ok n False slot' dl u p"
  by (auto simp: gpc_ok_def split: gpc.splits)

lemma gpc_ok_drain:
  "gpc_ok n mine slot dl u p \<Longrightarrow> (mine \<longrightarrow> w = u) \<Longrightarrow> (\<not> mine \<longrightarrow> w \<noteq> u) \<Longrightarrow>
    gpc_ok n False slot (insert (w, slot) dl) u p"
  by (auto simp: gpc_ok_def split: gpc.splits)

lemma rz_invD:
  "rz_inv n s \<Longrightarrow> rz_pc s t = p \<Longrightarrow> gpc_ok n (rz_mine s t) (ch_rv_slot (rz_chan s)) (set (rz_delivered s)) t p"
  unfolding rz_inv_def by blast

lemma rz_inv_set_pc:
  "rz_inv n s \<Longrightarrow> gpc_ok n (rz_mine s t) (ch_rv_slot (rz_chan s)) (set (rz_delivered s)) t p
    \<Longrightarrow> rz_inv n (s\<lparr>rz_pc := (rz_pc s)(t := p)\<rparr>)"
  by (simp add: rz_inv_def rz_mine_def)

lemma rz_inv_step: "rz_step s s' \<Longrightarrow> rz_inv n s \<Longrightarrow> rz_inv n s'"
proof (induction rule: rz_step.induct)
  case (park s t d ch')
  have f: "\<not> ch_rv_full (rz_chan s)" "ch' = (rz_chan s)\<lparr>ch_rv_slot := take n d, ch_rv_full := True\<rparr>"
    using park rz_sections(1) by auto
  have ok: "gpc_ok n False (ch_rv_slot (rz_chan s)) (set (rz_delivered s)) u (rz_pc s u)" for u
    using park.prems f(1) by (auto simp: rz_inv_def rz_mine_def)
  have "gpc_ok n True (take n d) (set (rz_delivered s)) t (WaitTaken d)"
    using ok [of t] park.hyps(1) by (auto simp: gpc_ok_def)
  then show ?case using park.prems f gpc_ok_fill [OF ok] by (auto simp: rz_inv_def rz_mine_def)
next
  case (send_panic s t d m ch')
  have "gpc_ok n (rz_mine s t) (ch_rv_slot (rz_chan s)) (set (rz_delivered s)) t (SendPanicked d)"
    using rz_invD [OF send_panic.prems send_panic.hyps(1)] by (auto simp: gpc_ok_def)
  then show ?case by (rule rz_inv_set_pc [OF send_panic.prems])
next
  case (taken s t d)
  then have "\<not> rz_mine s t" using rz_sections(2) by (auto simp: rz_mine_def)
  then have "gpc_ok n (rz_mine s t) (ch_rv_slot (rz_chan s)) (set (rz_delivered s)) t (SendDone d)"
    using rz_invD [OF taken.prems taken.hyps(1)] by (auto simp: gpc_ok_def)
  then show ?case by (rule rz_inv_set_pc [OF taken.prems])
next
  case (taken_panic s t d m)
  have "gpc_ok n (rz_mine s t) (ch_rv_slot (rz_chan s)) (set (rz_delivered s)) t (SendPanicked d)"
    using rz_invD [OF taken_panic.prems taken_panic.hyps(1)] by (auto simp: gpc_ok_def)
  then show ?case by (rule rz_inv_set_pc [OF taken_panic.prems])
next
  case (recv s t v ch')
  have f: "ch_rv_full (rz_chan s)" "v = ch_rv_slot (rz_chan s)" "ch' = (rz_chan s)\<lparr>ch_rv_full := False\<rparr>"
    using recv rz_sections(3) by auto
  have ok: "gpc_ok n (rz_owner s = u) v (set (rz_delivered s)) u (rz_pc s u)" for u
    using recv.prems f by (auto simp: rz_inv_def rz_mine_def)
  have new: "rz_owner s \<notin> fst ` set (rz_delivered s)"
    using ok [of "rz_owner s"] gpc_ok_mine by auto
  have "t \<notin> fst ` set (rz_delivered s)" "rz_owner s \<noteq> t"
    using ok [of t] recv.hyps(1) by (auto simp: gpc_ok_def)
  then have "gpc_ok n False v (insert (rz_owner s, v) (set (rz_delivered s))) t (RecvDone v)"
    by (auto simp: gpc_ok_def)
  moreover have "gpc_ok n False v (insert (rz_owner s, v) (set (rz_delivered s))) u (rz_pc s u)" for u
    by (rule gpc_ok_drain [OF ok]) auto
  ultimately show ?case using recv.prems f new by (auto simp: rz_inv_def rz_mine_def)
next
  case (recv_closed s t v ch')
  have "gpc_ok n (rz_mine s t) (ch_rv_slot (rz_chan s)) (set (rz_delivered s)) t RecvClosed"
    using rz_invD [OF recv_closed.prems recv_closed.hyps(1)] by (simp add: gpc_ok_def)
  then show ?case by (rule rz_inv_set_pc [OF recv_closed.prems])
next
  case (close s t ch')
  have "gpc_ok n (rz_mine s t) (ch_rv_slot (rz_chan s)) (set (rz_delivered s)) t CloseDone"
    using rz_invD [OF close.prems close.hyps(1)] by (simp add: gpc_ok_def)
  then have "rz_inv n (s\<lparr>rz_pc := (rz_pc s)(t := CloseDone)\<rparr>)" by (rule rz_inv_set_pc [OF close.prems])
  moreover have "ch' = (rz_chan s)\<lparr>ch_closed := True\<rparr>" using close rz_sections(4) by blast
  ultimately show ?case by (simp add: rz_inv_def rz_mine_def)
qed

lemma rz_inv_reachable: "rz_step\<^sup>*\<^sup>* s s' \<Longrightarrow> rz_inv n s \<Longrightarrow> rz_inv n s'"
  by (induction rule: rtranclp_induct) (auto intro: rz_inv_step)

text \<open>
  C16. The rendezvous hands every value over exactly once: in every reachable state the values
  received are the values of the senders in the order they were taken, no sender's value was
  taken twice, and a send that returned had its value received.
\<close>

theorem rendezvous_delivers:
  assumes "rz_init n s" and "rz_step\<^sup>*\<^sup>* s s'"
  shows "rz_received s' = map snd (rz_delivered s') \<and> distinct (map fst (rz_delivered s'))
    \<and> (rz_pc s' t = SendDone d \<longrightarrow> (t, d) \<in> set (rz_delivered s'))"
proof -
  have inv: "rz_inv n s'"
    using rz_inv_reachable [OF assms(2) rz_inv_init [OF assms(1)]] .
  have "(t, d) \<in> set (rz_delivered s')" if "rz_pc s' t = SendDone d"
    using rz_invD [OF inv that] by (simp add: gpc_ok_def)
  then show ?thesis using inv by (simp add: rz_inv_def)
qed

definition rz_two_senders :: rz_state where
  "rz_two_senders = \<lparr> rz_chan = goo_make_chan 1 0,
     rz_pc = (\<lambda>t. if t = 0 then WantSend [5] else if t = 1 then WantSend [6] else if t = 2 then WantRecv else WantClose),
     rz_owner = 0, rz_delivered = [], rz_received = [] \<rparr>"

lemma rz_two_senders_init: "rz_init 1 rz_two_senders"
  by (simp add: rz_init_def rz_two_senders_def)

text \<open>The first sender parks its value, the receiver takes it, and the send returns.\<close>

definition rz_handed_over :: rz_state where
  "rz_handed_over = rz_two_senders\<lparr>rz_chan := (goo_make_chan 1 0)\<lparr>ch_rv_slot := [5]\<rparr>,
     rz_pc := (rz_pc rz_two_senders)(0 := SendDone [5], 2 := RecvDone [5]),
     rz_delivered := [(0, [5])], rz_received := [[5]]\<rparr>"

lemma rz_handed_over_reached: "rz_step\<^sup>*\<^sup>* rz_two_senders rz_handed_over"
proof -
  let ?s0 = rz_two_senders
  define s1 where "s1 = ?s0\<lparr>rz_chan := (goo_make_chan 1 0)\<lparr>ch_rv_slot := [5], ch_rv_full := True\<rparr>,
    rz_pc := (rz_pc ?s0)(0 := WaitTaken [5]), rz_owner := 0\<rparr>"
  define s2 where "s2 = s1\<lparr>rz_chan := (goo_make_chan 1 0)\<lparr>ch_rv_slot := [5]\<rparr>, rz_pc := (rz_pc s1)(2 := RecvDone [5]),
    rz_delivered := [(0, [5])], rz_received := [[5]]\<rparr>"
  have "rz_step ?s0 s1"
    unfolding s1_def by (rule rz_step.park) (simp_all add: rz_two_senders_def goo_make_chan_def send_section_def)
  moreover have "rz_step s1 s2"
    using rz_step.recv [of s1 2 "[5]" "rz_chan s2"]
    by (simp add: s1_def s2_def rz_two_senders_def goo_make_chan_def goo_chan_recv_def recv_pattern_ok_def)
  moreover have "rz_step s2 (s2\<lparr>rz_pc := (rz_pc s2)(0 := SendDone [5])\<rparr>)"
    by (rule rz_step.taken) (simp_all add: s1_def s2_def rz_two_senders_def goo_make_chan_def taken_section_def)
  moreover have "s2\<lparr>rz_pc := (rz_pc s2)(0 := SendDone [5])\<rparr> = rz_handed_over"
    by (auto simp: s1_def s2_def rz_handed_over_def rz_two_senders_def fun_eq_iff)
  ultimately show ?thesis by (metis converse_rtranclp_into_rtranclp r_into_rtranclp)
qed

theorem rendezvous_delivers_witness:
  "rz_received rz_handed_over = map snd (rz_delivered rz_handed_over) \<and> (0, [5]) \<in> set (rz_delivered rz_handed_over)"
  using rendezvous_delivers [OF rz_two_senders_init rz_handed_over_reached, of 0 "[5]"]
  by (simp add: rz_handed_over_def)

text \<open>
  The converse fails: a sender whose value was received can still panic. It waits for the
  slot to be empty, not for its own value to be taken, so when another sender parks a value
  before it wakes up and the channel is then closed, it reports a send on a closed channel.
\<close>

theorem delivered_sender_panics:
  "\<exists>s. rz_step\<^sup>*\<^sup>* rz_two_senders s \<and> (0, [5]) \<in> set (rz_delivered s) \<and> rz_pc s 0 = SendPanicked [5]"
proof -
  let ?c0 = "goo_make_chan 1 0"
  let ?s0 = rz_two_senders
  define s1 where "s1 = ?s0\<lparr>rz_chan := ?c0\<lparr>ch_rv_slot := [5], ch_rv_full := True\<rparr>,
    rz_pc := (rz_pc ?s0)(0 := WaitTaken [5]), rz_owner := 0\<rparr>"
  define s2 where "s2 = s1\<lparr>rz_chan := (rz_chan s1)\<lparr>ch_rv_full := False\<rparr>, rz_pc := (rz_pc s1)(2 := RecvDone [5]),
    rz_delivered := [(0, [5])], rz_received := [[5]]\<rparr>"
  define s3 where "s3 = s2\<lparr>rz_chan := (rz_chan s2)\<lparr>ch_rv_slot := [6], ch_rv_full := True\<rparr>,
    rz_pc := (rz_pc s2)(1 := WaitTaken [6]), rz_owner := 1\<rparr>"
  define s4 where "s4 = s3\<lparr>rz_chan := (rz_chan s3)\<lparr>ch_closed := True\<rparr>, rz_pc := (rz_pc s3)(3 := CloseDone)\<rparr>"
  define s5 where "s5 = s4\<lparr>rz_pc := (rz_pc s4)(0 := SendPanicked [5])\<rparr>"
  note defs = s1_def s2_def s3_def s4_def s5_def rz_two_senders_def goo_make_chan_def
  have st1: "rz_step ?s0 s1"
    unfolding s1_def by (rule rz_step.park) (simp_all add: rz_two_senders_def goo_make_chan_def send_section_def)
  have st2: "rz_step s1 s2"
    using rz_step.recv [of s1 2 "[5]" "(rz_chan s1)\<lparr>ch_rv_full := False\<rparr>"]
    by (simp add: defs goo_chan_recv_def recv_pattern_ok_def)
  have st3: "rz_step s2 s3"
    using rz_step.park [of s2 1 "[6]" "(rz_chan s2)\<lparr>ch_rv_slot := [6], ch_rv_full := True\<rparr>"]
    by (simp add: defs send_section_def)
  have st4: "rz_step s3 s4"
    using rz_step.close [of s3 3 "(rz_chan s3)\<lparr>ch_closed := True\<rparr>"] by (simp add: defs goo_chan_close_def)
  have st5: "rz_step s4 s5"
    using rz_step.taken_panic [of s4 0 "[5]"] by (simp add: defs taken_section_def)
  have "rz_step\<^sup>*\<^sup>* ?s0 s5"
    using st1 st2 st3 st4 st5 by (meson converse_rtranclp_into_rtranclp r_into_rtranclp)
  moreover have "(0, [5]) \<in> set (rz_delivered s5) \<and> rz_pc s5 0 = SendPanicked [5]"
    by (simp add: defs)
  ultimately show ?thesis by blast
qed

end
