(* ===== verification/Memory.thy ===== *)
theory Memory
  imports Prelude
begin

text \<open>
  The reference-counted objects of \<open>src/runtime/runtime.c\<close>: allocation with the 16-byte
  header, retain, release with a destructor, immortal objects, and the concurrent protocol
  of the count. Object memory is a store from object numbers to headers and payloads; an
  object that is not in the store has been freed. A call that reads or writes the header of a
  freed object is \<open>Stuck\<close>.
\<close>

section \<open>Objects\<close>

datatype ptr = NullPtr | Zerobase | ObjPtr nat

record obj =
  ob_rc :: "64 word"
  ob_payload :: "8 word list"

record store =
  st_objs :: "nat \<Rightarrow> obj option"
  st_next :: nat
  st_junk :: "nat \<Rightarrow> nat \<Rightarrow> 8 word"

datatype 'a run = Ok 'a | Panicked string | Stuck

abbreviation GOO_OBJ_HEADER_SIZE :: nat where "GOO_OBJ_HEADER_SIZE \<equiv> 16"
abbreviation SIZE_MAX :: nat where "SIZE_MAX \<equiv> 2 ^ 64 - 1"

definition GOO_RC_IMMORTAL :: "64 word" where
  "GOO_RC_IMMORTAL = - 1"

definition goo_obj_headerless :: "ptr \<Rightarrow> bool" where
  "goo_obj_headerless p = (p = NullPtr \<or> p = Zerobase)"

text \<open>
  The object a payload pointer belongs to. \<open>malloc\<close> is taken to succeed and to return fresh
  memory; \<open>st_next\<close> numbers the objects, and \<open>st_junk i k\<close> is what byte \<open>k\<close> of the block for object
  \<open>i\<close> happens to hold, since nothing clears it.
\<close>

definition goo_alloc :: "store \<Rightarrow> nat \<Rightarrow> (ptr \<times> store) run" where
  "goo_alloc st sz =
     (if sz = 0 then Ok (Zerobase, st)
      else if sz > SIZE_MAX - GOO_OBJ_HEADER_SIZE then Panicked ''Out of memory''
      else Ok (ObjPtr (st_next st),
        st\<lparr>st_objs := (st_objs st)(st_next st \<mapsto> \<lparr> ob_rc = 1, ob_payload = map (st_junk st (st_next st)) [0..<sz] \<rparr>),
           st_next := st_next st + 1\<rparr>))"

definition goo_obj_refcount :: "store \<Rightarrow> ptr \<Rightarrow> (64 word) run" where
  "goo_obj_refcount st p = (case p of ObjPtr i \<Rightarrow>
     (case st_objs st i of None \<Rightarrow> Stuck | Some ob \<Rightarrow> Ok (ob_rc ob)) | _ \<Rightarrow> Ok 0)"

definition goo_free :: "store \<Rightarrow> ptr \<Rightarrow> store run" where
  "goo_free st p = (case p of ObjPtr i \<Rightarrow>
     (case st_objs st i of None \<Rightarrow> Stuck | Some ob \<Rightarrow>
        if ob_rc ob = GOO_RC_IMMORTAL then Ok st
        else Ok (st\<lparr>st_objs := (st_objs st)(i := None)\<rparr>)) | _ \<Rightarrow> Ok st)"

text \<open>\<open>realloc\<close> moves the block: the header and the common prefix of the payload survive.\<close>

definition resize :: "(nat \<Rightarrow> 8 word) \<Rightarrow> nat \<Rightarrow> 8 word list \<Rightarrow> 8 word list" where
  "resize junk n xs = take n xs @ map junk [length xs..<n]"

definition goo_realloc :: "store \<Rightarrow> ptr \<Rightarrow> nat \<Rightarrow> (ptr \<times> store) run" where
  "goo_realloc st p sz =
     (let p = (if p = Zerobase then NullPtr else p) in
      if sz = 0 then (case goo_free st p of Ok st' \<Rightarrow> Ok (NullPtr, st') | Panicked m \<Rightarrow> Panicked m | Stuck \<Rightarrow> Stuck)
      else if sz > SIZE_MAX - GOO_OBJ_HEADER_SIZE then Panicked ''Out of memory''
      else (case p of
          ObjPtr i \<Rightarrow> (case st_objs st i of None \<Rightarrow> Stuck | Some ob \<Rightarrow>
            Ok (ObjPtr (st_next st),
              st\<lparr>st_objs := (st_objs st)(i := None,
                     st_next st \<mapsto> \<lparr> ob_rc = ob_rc ob, ob_payload = resize (st_junk st (st_next st)) sz (ob_payload ob) \<rparr>),
                 st_next := st_next st + 1\<rparr>))
        | _ \<Rightarrow> goo_alloc st sz))"

section \<open>Counting\<close>

definition set_rc :: "store \<Rightarrow> nat \<Rightarrow> obj \<Rightarrow> 64 word \<Rightarrow> store" where
  "set_rc st i ob n = st\<lparr>st_objs := (st_objs st)(i \<mapsto> ob\<lparr>ob_rc := n\<rparr>)\<rparr>"

definition goo_retain :: "store \<Rightarrow> ptr \<Rightarrow> store run" where
  "goo_retain st p = (case p of ObjPtr i \<Rightarrow>
     (case st_objs st i of None \<Rightarrow> Stuck | Some ob \<Rightarrow>
        if ob_rc ob = GOO_RC_IMMORTAL then Ok st else Ok (set_rc st i ob (ob_rc ob + 1))) | _ \<Rightarrow> Ok st)"

text \<open>
  The load of the sentinel and the \<open>fetch_sub\<close>: \<open>None\<close> for an immortal object, otherwise the count
  before the decrement. The sentinel never changes once it is set, so the two reads are one step.
\<close>

definition release_dec :: "store \<Rightarrow> nat \<Rightarrow> (64 word option \<times> store) run" where
  "release_dec st i = (case st_objs st i of None \<Rightarrow> Stuck | Some ob \<Rightarrow>
     if ob_rc ob = GOO_RC_IMMORTAL then Ok (None, st)
     else Ok (Some (ob_rc ob), set_rc st i ob (ob_rc ob - 1)))"

text \<open>The destructor is an argument, the identity for a null one.\<close>

definition goo_release_with :: "store \<Rightarrow> ptr \<Rightarrow> (store \<Rightarrow> ptr \<Rightarrow> store run) \<Rightarrow> store run" where
  "goo_release_with st p dtor = (case p of
     ObjPtr i \<Rightarrow> (case release_dec st i of
         Ok (None, st1) \<Rightarrow> Ok st1
       | Ok (Some prev, st1) \<Rightarrow>
           if prev = 0 then Panicked ''release of an object with reference count 0''
           else if prev = 1 then
             (case dtor st1 p of Ok st2 \<Rightarrow> goo_free st2 p | Panicked m \<Rightarrow> Panicked m | Stuck \<Rightarrow> Stuck)
           else Ok st1
       | Panicked m \<Rightarrow> Panicked m
       | Stuck \<Rightarrow> Stuck)
   | _ \<Rightarrow> Ok st)"

definition goo_release :: "store \<Rightarrow> ptr \<Rightarrow> store run" where
  "goo_release st p = goo_release_with st p (\<lambda>st p. Ok st)"

definition goo_make_immortal :: "store \<Rightarrow> ptr \<Rightarrow> store run" where
  "goo_make_immortal st p = (case p of ObjPtr i \<Rightarrow>
     (case st_objs st i of None \<Rightarrow> Stuck | Some ob \<Rightarrow>
        if ob_rc ob = GOO_RC_IMMORTAL then Ok st else Ok (set_rc st i ob GOO_RC_IMMORTAL)) | _ \<Rightarrow> Ok st)"

text \<open>
  \<open>goo_slice_release_elems\<close> over the element pointers it reads from the buffer, one per
  element below \<open>len\<close>.
\<close>

fun release_elems_loop :: "store \<Rightarrow> ptr list \<Rightarrow> store run" where
  "release_elems_loop st [] = Ok st"
| "release_elems_loop st (e # es) = (case goo_release st e of
     Ok st' \<Rightarrow> release_elems_loop st' es | Panicked m \<Rightarrow> Panicked m | Stuck \<Rightarrow> Stuck)"

definition goo_slice_release_elems :: "store \<Rightarrow> (int \<Rightarrow> ptr) option \<Rightarrow> int \<Rightarrow> int \<Rightarrow> store run" where
  "goo_slice_release_elems st buf len stride = (case buf of None \<Rightarrow> Ok st | Some elem_at \<Rightarrow>
     if len \<le> 0 \<or> stride \<le> 0 then Ok st
     else release_elems_loop st (map (\<lambda>i. elem_at (int i * stride)) [0..<nat len]))"

section \<open>Balanced use\<close>

fun retain_n :: "nat \<Rightarrow> store \<Rightarrow> ptr \<Rightarrow> store run" where
  "retain_n 0 st p = Ok st"
| "retain_n (Suc n) st p = (case goo_retain st p of Ok st' \<Rightarrow> retain_n n st' p | Panicked m \<Rightarrow> Panicked m | Stuck \<Rightarrow> Stuck)"

fun release_n :: "nat \<Rightarrow> store \<Rightarrow> ptr \<Rightarrow> store run" where
  "release_n 0 st p = Ok st"
| "release_n (Suc n) st p = (case goo_release st p of Ok st' \<Rightarrow> release_n n st' p | Panicked m \<Rightarrow> Panicked m | Stuck \<Rightarrow> Stuck)"

lemma of_nat_not_immortal: "n < 2 ^ 64 - 1 \<Longrightarrow> (of_nat n :: 64 word) \<noteq> GOO_RC_IMMORTAL"
proof
  assume n: "n < 2 ^ 64 - 1" and eq: "(of_nat n :: 64 word) = GOO_RC_IMMORTAL"
  have "unat (of_nat n :: 64 word) = n" using n by (simp add: unat_of_nat_small)
  moreover have "unat GOO_RC_IMMORTAL = 2 ^ 64 - 1" by (simp add: GOO_RC_IMMORTAL_def unsigned_minus_1_eq_mask mask_eq_exp_minus_1)
  ultimately show False using n eq by simp
qed

lemma set_rc_objs [simp]: "st_objs (set_rc st i ob n) = (st_objs st)(i \<mapsto> ob\<lparr>ob_rc := n\<rparr>)"
  by (simp add: set_rc_def)

lemma set_rc_twice [simp]: "set_rc (set_rc st i ob n) i (ob\<lparr>ob_rc := n\<rparr>) m = set_rc st i ob m"
  by (simp add: set_rc_def)

lemma retain_n_count:
  "st_objs st i = Some ob \<Longrightarrow> ob_rc ob = of_nat k \<Longrightarrow> k + n < 2 ^ 64 - 1 \<Longrightarrow>
    retain_n n st (ObjPtr i) = Ok (if n = 0 then st else set_rc st i ob (of_nat (k + n)))"
proof (induction n arbitrary: st ob k)
  case (Suc n)
  have step: "goo_retain st (ObjPtr i) = Ok (set_rc st i ob (of_nat (Suc k)))"
    using Suc.prems of_nat_not_immortal [of k] by (simp add: goo_retain_def add.commute)
  have "retain_n n (set_rc st i ob (of_nat (Suc k))) (ObjPtr i) =
      Ok (if n = 0 then set_rc st i ob (of_nat (Suc k))
          else set_rc (set_rc st i ob (of_nat (Suc k))) i (ob\<lparr>ob_rc := of_nat (Suc k)\<rparr>) (of_nat (Suc k + n)))"
    by (rule Suc.IH) (use Suc.prems in auto)
  then show ?case using step by simp
qed simp

lemma release_n_count:
  "st_objs st i = Some ob \<Longrightarrow> ob_rc ob = of_nat k \<Longrightarrow> n < k \<Longrightarrow> k < 2 ^ 64 - 1 \<Longrightarrow>
    release_n n st (ObjPtr i) = Ok (if n = 0 then st else set_rc st i ob (of_nat (k - n)))"
proof (induction n arbitrary: st ob k)
  case (Suc n)
  have k: "(of_nat k :: 64 word) \<noteq> 0" "(of_nat k :: 64 word) \<noteq> 1"
    using Suc.prems unat_of_nat_small [of k] by auto
  have step: "goo_release st (ObjPtr i) = Ok (set_rc st i ob (of_nat (k - 1)))"
    using Suc.prems of_nat_not_immortal [of k] k by (simp add: goo_release_def goo_release_with_def release_dec_def of_nat_diff)
  have "release_n n (set_rc st i ob (of_nat (k - 1))) (ObjPtr i) =
      Ok (if n = 0 then set_rc st i ob (of_nat (k - 1))
          else set_rc (set_rc st i ob (of_nat (k - 1))) i (ob\<lparr>ob_rc := of_nat (k - 1)\<rparr>) (of_nat (k - 1 - n)))"
    by (rule Suc.IH) (use Suc.prems in auto)
  then show ?case using step by simp
qed simp

lemma release_n_last:
  "release_n n st p = Ok st' \<Longrightarrow> release_n (Suc n) st p = goo_release st' p"
proof (induction n arbitrary: st)
  case 0
  then show ?case by (auto split: run.splits)
next
  case (Suc n)
  then obtain st1 where "goo_release st p = Ok st1" "release_n n st1 p = Ok st'"
    by (auto split: run.splits)
  then show ?case using Suc.IH [of st1] release_n.simps(2) [of "Suc n" st p] by simp
qed

lemma release_to_zero:
  assumes "st_objs st i = Some ob" and "ob_rc ob = 1"
  shows "\<exists>st'. goo_release st (ObjPtr i) = Ok st' \<and> st_objs st' = (st_objs st)(i := None)"
  using assms by (simp add: goo_release_def goo_release_with_def release_dec_def goo_free_def GOO_RC_IMMORTAL_def)

text \<open>
  Balanced counting frees once and in time: after an allocation and any number of retains
  below the sentinel, every release but the last leaves the object and its payload alive, the
  last one frees exactly this object, and none of the calls touches freed memory or panics.
\<close>

theorem arc_balanced:
  assumes "0 < sz" and "sz \<le> SIZE_MAX - GOO_OBJ_HEADER_SIZE" and "n < 2 ^ 64 - 2" and "m \<le> n"
  shows "\<exists>st1 st2. goo_alloc st sz = Ok (ObjPtr (st_next st), st1)
    \<and> retain_n n st1 (ObjPtr (st_next st)) = Ok st2
    \<and> (\<exists>st3 ob. release_n m st2 (ObjPtr (st_next st)) = Ok st3
         \<and> st_objs st3 (st_next st) = Some ob \<and> ob_rc ob = of_nat (n + 1 - m) \<and> length (ob_payload ob) = sz)
    \<and> (\<exists>st4. release_n (n + 1) st2 (ObjPtr (st_next st)) = Ok st4
         \<and> st_objs st4 = (st_objs st)(st_next st := None))"
proof -
  define i where "i = st_next st"
  define ob1 where "ob1 = \<lparr> ob_rc = 1, ob_payload = map (st_junk st i) [0..<sz] \<rparr>"
  define st1 where "st1 = st\<lparr>st_objs := (st_objs st)(i \<mapsto> ob1), st_next := i + 1\<rparr>"
  have al: "goo_alloc st sz = Ok (ObjPtr i, st1)"
    using assms(1,2) by (simp add: goo_alloc_def st1_def ob1_def i_def)
  define st2 where "st2 = (if n = 0 then st1 else set_rc st1 i ob1 (of_nat (1 + n)))"
  have rt: "retain_n n st1 (ObjPtr i) = Ok st2"
    unfolding st2_def by (rule retain_n_count) (use assms(3) in \<open>simp_all add: st1_def ob1_def\<close>)
  define ob2 where "ob2 = ob1\<lparr>ob_rc := of_nat (1 + n)\<rparr>"
  have ob2: "st_objs st2 i = Some ob2" "(st_objs st2)(i := None) = (st_objs st)(i := None)"
    by (auto simp: st2_def ob2_def st1_def ob1_def)
  have rl: "release_n k st2 (ObjPtr i) = Ok (if k = 0 then st2 else set_rc st2 i ob2 (of_nat (1 + n - k)))"
    if "k \<le> n" for k
    by (rule release_n_count [OF ob2(1)]) (use that assms(3) in \<open>simp_all add: ob2_def\<close>)
  have "\<exists>st3 ob. release_n m st2 (ObjPtr i) = Ok st3 \<and> st_objs st3 i = Some ob
      \<and> ob_rc ob = of_nat (n + 1 - m) \<and> length (ob_payload ob) = sz"
    using rl [OF assms(4)] ob2(1) by (auto simp: ob2_def ob1_def)
  moreover have "\<exists>st4. release_n (n + 1) st2 (ObjPtr i) = Ok st4 \<and> st_objs st4 = (st_objs st)(i := None)"
  proof -
    define st3 where "st3 = (if n = 0 then st2 else set_rc st2 i ob2 1)"
    have "release_n n st2 (ObjPtr i) = Ok st3" using rl [of n] by (simp add: st3_def)
    moreover have "\<exists>ob. st_objs st3 i = Some ob \<and> ob_rc ob = 1 \<and> (st_objs st3)(i := None) = (st_objs st)(i := None)"
      using ob2 by (auto simp: st3_def ob2_def)
    ultimately show ?thesis using release_n_last release_to_zero by fastforce
  qed
  ultimately show ?thesis using al rt unfolding i_def by blast
qed

definition empty_store :: store where
  "empty_store = \<lparr> st_objs = (\<lambda>_. None), st_next = 0, st_junk = (\<lambda>_ _. 0) \<rparr>"

theorem arc_balanced_witness:
  "\<exists>st1 st2 st4. goo_alloc empty_store 8 = Ok (ObjPtr 0, st1) \<and> retain_n 3 st1 (ObjPtr 0) = Ok st2
     \<and> release_n 4 st2 (ObjPtr 0) = Ok st4 \<and> st_objs st4 0 = None"
  using arc_balanced [of 8 3 2 empty_store] by (auto simp: empty_store_def)

section \<open>The concurrent protocol\<close>

text \<open>
  One counted object \<open>obj\<close> shared by several goroutines. \<open>rf_held ! t\<close> is the number of references
  goroutine \<open>t\<close> holds, \<open>rf_dying\<close> the goroutines that took the count to zero and have not yet
  called \<open>goo_free\<close>, \<open>rf_freed\<close> how often it was called. A step is one atomic access of one
  goroutine; a release is the decrement, and later the free by the goroutine that saw 1. A
  reference may also be handed to another goroutine. A goroutine retains and releases only
  while it holds a reference.
\<close>

record rf_state =
  rf_store :: store
  rf_held :: "nat list"
  rf_dying :: "nat list"
  rf_freed :: nat

inductive rf_step :: "nat \<Rightarrow> rf_state \<Rightarrow> rf_state \<Rightarrow> bool" for obj where
  retain: "t < length (rf_held s) \<Longrightarrow> rf_held s ! t > 0 \<Longrightarrow> sum_list (rf_held s) < 2 ^ 64 - 2 \<Longrightarrow>
    goo_retain (rf_store s) (ObjPtr obj) = Ok st' \<Longrightarrow>
    rf_step obj s (s\<lparr>rf_store := st', rf_held := (rf_held s)[t := rf_held s ! t + 1]\<rparr>)"
| release: "t < length (rf_held s) \<Longrightarrow> rf_held s ! t > 0 \<Longrightarrow>
    release_dec (rf_store s) obj = Ok (prev, st') \<Longrightarrow>
    rf_step obj s (s\<lparr>rf_store := st', rf_held := (rf_held s)[t := rf_held s ! t - 1],
      rf_dying := (if prev = Some 1 then t # rf_dying s else rf_dying s)\<rparr>)"
| destroy: "rf_dying s = t # ts \<Longrightarrow> goo_free (rf_store s) (ObjPtr obj) = Ok st' \<Longrightarrow>
    rf_step obj s (s\<lparr>rf_store := st', rf_dying := ts, rf_freed := rf_freed s + 1\<rparr>)"
| hand_over: "t < length (rf_held s) \<Longrightarrow> u < length (rf_held s) \<Longrightarrow> t \<noteq> u \<Longrightarrow> rf_held s ! t > 0 \<Longrightarrow>
    rf_step obj s (s\<lparr>rf_held := (rf_held s)[t := rf_held s ! t - 1, u := rf_held s ! u + 1]\<rparr>)"

definition rf_init :: "nat \<Rightarrow> rf_state \<Rightarrow> bool" where
  "rf_init i s = (map_option ob_rc (st_objs (rf_store s) i) = Some 1 \<and> sum_list (rf_held s) = 1
     \<and> rf_dying s = [] \<and> rf_freed s = 0)"

definition rf_inv :: "nat \<Rightarrow> rf_state \<Rightarrow> bool" where
  "rf_inv i s = (sum_list (rf_held s) < 2 ^ 64 - 1
     \<and> length (rf_dying s) + rf_freed s = (if sum_list (rf_held s) = 0 then 1 else 0)
     \<and> map_option ob_rc (st_objs (rf_store s) i) =
         (if rf_freed s = 0 then Some (of_nat (sum_list (rf_held s))) else None))"

lemma rf_inv_alive:
  "rf_inv i s \<Longrightarrow> 0 < sum_list (rf_held s) \<Longrightarrow> \<exists>ob. st_objs (rf_store s) i = Some ob
     \<and> ob_rc ob = of_nat (sum_list (rf_held s)) \<and> ob_rc ob \<noteq> GOO_RC_IMMORTAL \<and> rf_dying s = [] \<and> rf_freed s = 0"
  using of_nat_not_immortal [of "sum_list (rf_held s)"] by (auto simp: rf_inv_def simp del: sum_list_eq_0_iff)

lemma sum_list_inc: "t < length xs \<Longrightarrow> sum_list (xs[t := xs ! t + 1]) = sum_list xs + (1 :: nat)"
  by (induction xs arbitrary: t) (auto split: nat.split)

lemma sum_list_dec: "t < length xs \<Longrightarrow> 0 < xs ! t \<Longrightarrow> sum_list (xs[t := xs ! t - 1]) = sum_list xs - (1 :: nat)"
proof (induction xs arbitrary: t)
  case (Cons x xs)
  then show ?case
  proof (cases t)
    case (Suc k)
    then have "0 < sum_list xs" using Cons.prems by (auto intro: order_less_le_trans elem_le_sum_list)
    then show ?thesis using Cons Suc by simp
  qed simp
qed simp

lemma sum_list_pos: "t < length xs \<Longrightarrow> 0 < xs ! t \<Longrightarrow> 0 < sum_list (xs :: nat list)"
  using elem_le_sum_list [of t xs] by simp

lemma rf_inv_step: "rf_step i s s' \<Longrightarrow> rf_inv i s \<Longrightarrow> rf_inv i s'"
proof (induction rule: rf_step.induct)
  case (retain t s st')
  have sum: "sum_list ((rf_held s)[t := rf_held s ! t + 1]) = sum_list (rf_held s) + 1"
    using retain.hyps(1) by (rule sum_list_inc)
  obtain ob where ob: "st_objs (rf_store s) i = Some ob" "ob_rc ob = of_nat (sum_list (rf_held s))"
      "ob_rc ob \<noteq> GOO_RC_IMMORTAL" "rf_dying s = []" "rf_freed s = 0"
    using rf_inv_alive [OF retain.prems sum_list_pos [OF retain.hyps(1,2)]] by blast
  have "st' = set_rc (rf_store s) i ob (ob_rc ob + 1)" using retain.hyps(4) ob by (simp add: goo_retain_def)
  then show ?case using retain.hyps(3) ob sum by (simp add: rf_inv_def add.commute del: sum_list_eq_0_iff)
next
  case (release t s prev st')
  have pos: "0 < sum_list (rf_held s)" using release.hyps(1,2) by (rule sum_list_pos)
  have sum: "sum_list ((rf_held s)[t := rf_held s ! t - 1]) = sum_list (rf_held s) - 1"
    using release.hyps(1,2) by (rule sum_list_dec)
  obtain ob where ob: "st_objs (rf_store s) i = Some ob" "ob_rc ob = of_nat (sum_list (rf_held s))"
      "ob_rc ob \<noteq> GOO_RC_IMMORTAL" "rf_dying s = []" "rf_freed s = 0"
    using rf_inv_alive [OF release.prems pos] by blast
  have st': "prev = Some (ob_rc ob)" "st' = set_rc (rf_store s) i ob (ob_rc ob - 1)"
    using release.hyps(3) ob by (auto simp: release_dec_def)
  have lt: "sum_list (rf_held s) < 2 ^ 64 - 1" using release.prems by (simp add: rf_inv_def)
  have "ob_rc ob = 1 \<longleftrightarrow> sum_list (rf_held s) = 1"
    using lt unat_of_nat_small [of "sum_list (rf_held s)"] ob(2) by auto
  then show ?case
    using lt pos ob sum st' by (auto simp: rf_inv_def of_nat_diff simp del: sum_list_eq_0_iff)
next
  case (destroy s t ts st')
  have z: "sum_list (rf_held s) = 0" "ts = []" "rf_freed s = 0"
    using destroy.hyps(1) destroy.prems by (auto simp: rf_inv_def simp del: sum_list_eq_0_iff split: if_splits)
  then obtain ob where ob: "st_objs (rf_store s) i = Some ob" "ob_rc ob = 0"
    using destroy.prems by (auto simp: rf_inv_def simp del: sum_list_eq_0_iff)
  then have "st' = (rf_store s)\<lparr>st_objs := (st_objs (rf_store s))(i := None)\<rparr>"
    using destroy.hyps(2) by (simp add: goo_free_def GOO_RC_IMMORTAL_def)
  then show ?case using z by (simp add: rf_inv_def del: sum_list_eq_0_iff)
next
  case (hand_over t s u)
  have "sum_list ((rf_held s)[t := rf_held s ! t - 1, u := rf_held s ! u + 1]) = sum_list (rf_held s)"
    using hand_over sum_list_inc [of u "(rf_held s)[t := rf_held s ! t - 1]"] sum_list_dec [of t "rf_held s"]
      sum_list_pos [of t "rf_held s"] by simp
  then show ?case using hand_over.prems by (simp add: rf_inv_def)
qed

lemma rf_inv_reachable: "(rf_step i)\<^sup>*\<^sup>* s s' \<Longrightarrow> rf_inv i s \<Longrightarrow> rf_inv i s'"
  by (induction rule: rtranclp_induct) (auto intro: rf_inv_step)

text \<open>
  C10. The count is exact, the object lives as long as it is referenced and is freed once: in
  every state reachable by concurrent retains, releases and hand-overs, the count of an object
  that somebody holds is the number of references held, so no retain or release by a holder
  touches freed memory and no release meets a zero count; the free runs at most once; and when
  nobody holds a reference the object is either freed or one goroutine is about to free it.
\<close>

theorem arc_concurrent_safe:
  assumes "rf_init i s" and "(rf_step i)\<^sup>*\<^sup>* s s'"
  shows "(0 < sum_list (rf_held s') \<longrightarrow>
        (\<exists>st1 st2 prev. goo_obj_refcount (rf_store s') (ObjPtr i) = Ok (of_nat (sum_list (rf_held s')))
          \<and> goo_retain (rf_store s') (ObjPtr i) = Ok st1
          \<and> release_dec (rf_store s') i = Ok (Some prev, st2) \<and> unat prev = sum_list (rf_held s')
          \<and> rf_freed s' = 0 \<and> rf_dying s' = []))
    \<and> (sum_list (rf_held s') = 0 \<longrightarrow>
        (\<exists>t st1. rf_dying s' = [t] \<and> rf_freed s' = 0 \<and> goo_free (rf_store s') (ObjPtr i) = Ok st1)
        \<or> (rf_dying s' = [] \<and> rf_freed s' = 1 \<and> st_objs (rf_store s') i = None))"
proof -
  have "rf_inv i s" using assms(1) by (simp add: rf_init_def rf_inv_def)
  then have inv: "rf_inv i s'" using rf_inv_reachable [OF assms(2)] by blast
  have "\<exists>st1 st2 prev. goo_obj_refcount (rf_store s') (ObjPtr i) = Ok (of_nat (sum_list (rf_held s')))
          \<and> goo_retain (rf_store s') (ObjPtr i) = Ok st1
          \<and> release_dec (rf_store s') i = Ok (Some prev, st2) \<and> unat prev = sum_list (rf_held s')
          \<and> rf_freed s' = 0 \<and> rf_dying s' = []" if pos: "0 < sum_list (rf_held s')"
  proof -
    have "unat (of_nat (sum_list (rf_held s')) :: 64 word) = sum_list (rf_held s')"
      using inv by (intro unat_of_nat_small) (simp add: rf_inv_def)
    then show ?thesis
      using rf_inv_alive [OF inv pos] by (auto simp: goo_obj_refcount_def goo_retain_def release_dec_def)
  qed
  moreover have "(\<exists>t st1. rf_dying s' = [t] \<and> rf_freed s' = 0 \<and> goo_free (rf_store s') (ObjPtr i) = Ok st1)
        \<or> (rf_dying s' = [] \<and> rf_freed s' = 1 \<and> st_objs (rf_store s') i = None)" if z: "sum_list (rf_held s') = 0"
    using inv z by (cases "rf_dying s'")
      (auto simp: rf_inv_def goo_free_def simp del: sum_list_eq_0_iff split: if_splits)
  ultimately show ?thesis by blast
qed

definition rf_pair :: rf_state where
  "rf_pair = \<lparr> rf_store = \<lparr> st_objs = [0 \<mapsto> \<lparr> ob_rc = 1, ob_payload = [7] \<rparr>], st_next = 1, st_junk = (\<lambda>_ _. 0) \<rparr>,
     rf_held = [1, 0], rf_dying = [], rf_freed = 0 \<rparr>"

theorem arc_concurrent_safe_witness:
  "\<exists>s'. (rf_step 0)\<^sup>*\<^sup>* rf_pair s' \<and> rf_held s' = [0, 0]
     \<and> (\<exists>t st1. rf_dying s' = [t] \<and> rf_freed s' = 0 \<and> goo_free (rf_store s') (ObjPtr 0) = Ok st1)"
proof -
  let ?ob = "\<lparr> ob_rc = 1, ob_payload = [7] \<rparr>"
  let ?s = "rf_pair\<lparr>rf_store := set_rc (rf_store rf_pair) 0 ?ob 0, rf_held := [0, 0], rf_dying := [0]\<rparr>"
  have "rf_step 0 rf_pair ?s"
    using rf_step.release [of 0 rf_pair 0 "Some 1" "set_rc (rf_store rf_pair) 0 ?ob 0"]
    by (simp add: rf_pair_def release_dec_def GOO_RC_IMMORTAL_def)
  then have run: "(rf_step 0)\<^sup>*\<^sup>* rf_pair ?s" by simp
  moreover have "rf_init 0 rf_pair" by (simp add: rf_init_def rf_pair_def)
  ultimately show ?thesis
    using arc_concurrent_safe [of 0 rf_pair ?s] by (intro exI [of _ ?s]) auto
qed

end
