(* ===== verification/Arena.thy ===== *)
theory Arena
  imports Prelude
begin

text \<open>
  The bump allocator of \<open>src/runtime/arena.c\<close>. The block list is split at the current block:
  \<open>ar_full\<close> are the blocks before it (nearest first), \<open>ar_rest\<close> those after it. Addresses and sizes
  are natural numbers; where the source adds machine words the sum is reduced modulo
  \<open>2 ^ 64\<close>. The address \<open>malloc\<close> returns for a new block is an argument.
\<close>

section \<open>The arena\<close>

abbreviation GOO_ARENA_DEFAULT_BLOCK_SIZE :: nat where "GOO_ARENA_DEFAULT_BLOCK_SIZE \<equiv> 64 * 1024"
abbreviation GOO_ARENA_ALIGNMENT :: nat where "GOO_ARENA_ALIGNMENT \<equiv> 16"

record block =
  bk_data :: nat
  bk_capacity :: nat
  bk_used :: nat

record arena =
  ar_full :: "block list"
  ar_current :: block
  ar_rest :: "block list"
  ar_default_block_size :: nat

definition arena_blocks :: "arena \<Rightarrow> block list" where
  "arena_blocks a = rev (ar_full a) @ ar_current a # ar_rest a"

datatype aptr = ANull | AZerobase | AAddr nat

definition word_add :: "nat \<Rightarrow> nat \<Rightarrow> nat" where
  "word_add x y = (x + y) mod 2 ^ 64"

definition goo_arena_block_new :: "nat \<Rightarrow> nat \<Rightarrow> block" where
  "goo_arena_block_new data capacity = \<lparr> bk_data = data, bk_capacity = capacity, bk_used = 0 \<rparr>"

definition goo_arena_new :: "nat \<Rightarrow> nat \<Rightarrow> arena" where
  "goo_arena_new data initial_size =
     (let block_size = (if initial_size < GOO_ARENA_DEFAULT_BLOCK_SIZE then GOO_ARENA_DEFAULT_BLOCK_SIZE
                        else initial_size);
          block_size = word_add block_size GOO_ARENA_ALIGNMENT in
      \<lparr> ar_full = [], ar_current = goo_arena_block_new data block_size, ar_rest = [],
        ar_default_block_size = GOO_ARENA_DEFAULT_BLOCK_SIZE \<rparr>)"

text \<open>Rounding a cursor up to the alignment, as the mask does it on machine words.\<close>

definition align_up :: "nat \<Rightarrow> nat" where
  "align_up cursor = word_add cursor (GOO_ARENA_ALIGNMENT - 1) div GOO_ARENA_ALIGNMENT * GOO_ARENA_ALIGNMENT"

definition block_padding :: "block \<Rightarrow> nat" where
  "block_padding b = (align_up (word_add (bk_data b) (bk_used b)) + 2 ^ 64 - word_add (bk_data b) (bk_used b)) mod 2 ^ 64"

definition block_fits :: "block \<Rightarrow> nat \<Rightarrow> bool" where
  "block_fits b sz = (word_add (block_padding b) sz \<le> bk_capacity b - bk_used b)"

text \<open>The growth step: reuse the next block when it is large enough, otherwise insert a new one.\<close>

definition arena_grow :: "nat \<Rightarrow> arena \<Rightarrow> nat \<Rightarrow> arena" where
  "arena_grow data a sz =
     (let needed = word_add sz GOO_ARENA_ALIGNMENT;
          fresh = goo_arena_block_new data
            (if needed > ar_default_block_size a then needed else ar_default_block_size a) in
      case ar_rest a of
        [] \<Rightarrow> a\<lparr>ar_full := ar_current a # ar_full a, ar_current := fresh\<rparr>
      | next # rest \<Rightarrow>
          if bk_capacity next < needed
          then a\<lparr>ar_full := ar_current a # ar_full a, ar_current := fresh\<rparr>
          else a\<lparr>ar_full := ar_current a # ar_full a, ar_current := next, ar_rest := rest\<rparr>)"

text \<open>
  \<open>goo_arena_alloc\<close> calls itself after growing; \<open>fuel\<close> bounds the calls, \<open>malloc\<close> gives the
  address of the block a call may create. A null arena is \<open>None\<close>.
\<close>

fun goo_arena_alloc ::
  "nat \<Rightarrow> (nat \<Rightarrow> nat) \<Rightarrow> arena option \<Rightarrow> nat \<Rightarrow> (aptr \<times> arena option) option" where
  "goo_arena_alloc 0 malloc ar sz = None"
| "goo_arena_alloc (Suc fuel) malloc ar sz = (case ar of None \<Rightarrow> Some (ANull, None) | Some a \<Rightarrow>
     (if sz = 0 then Some (AZerobase, Some a)
      else
        (let b = ar_current a in
         if block_fits b sz then
           Some (AAddr (align_up (word_add (bk_data b) (bk_used b))),
             Some (a\<lparr>ar_current := b\<lparr>bk_used := word_add (bk_used b) (word_add (block_padding b) sz)\<rparr>\<rparr>))
         else goo_arena_alloc fuel malloc (Some (arena_grow (malloc fuel) a sz)) sz)))"

definition goo_arena_reset :: "arena option \<Rightarrow> arena option" where
  "goo_arena_reset ar = (case ar of None \<Rightarrow> None | Some a \<Rightarrow>
     (case map (\<lambda>b. b\<lparr>bk_used := 0\<rparr>) (arena_blocks a) of
        [] \<Rightarrow> Some a | f # rest \<Rightarrow> Some (a\<lparr>ar_full := [], ar_current := f, ar_rest := rest\<rparr>)))"

text \<open>Freeing an arena hands the data of its blocks back, in the order of the list.\<close>

fun free_blocks :: "block list \<Rightarrow> nat list" where
  "free_blocks [] = []"
| "free_blocks (b # bs) = bk_data b # free_blocks bs"

definition goo_arena_free :: "arena option \<Rightarrow> nat list" where
  "goo_arena_free ar = (case ar of None \<Rightarrow> [] | Some a \<Rightarrow> free_blocks (arena_blocks a))"

section \<open>Invariant\<close>

text \<open>Blocks lie in the lower half of the address space, as \<open>malloc\<close> returns them.\<close>

definition block_ok :: "block \<Rightarrow> bool" where
  "block_ok b = (bk_used b \<le> bk_capacity b \<and> bk_data b + bk_capacity b \<le> 2 ^ 63)"

definition apart :: "block \<Rightarrow> block \<Rightarrow> bool" where
  "apart b c = (bk_data b + bk_capacity b \<le> bk_data c \<or> bk_data c + bk_capacity c \<le> bk_data b)"

fun pairwise_apart :: "block list \<Rightarrow> bool" where
  "pairwise_apart [] = True"
| "pairwise_apart (b # bs) = (list_all (apart b) bs \<and> pairwise_apart bs)"

definition arena_inv :: "arena \<Rightarrow> bool" where
  "arena_inv a = (list_all block_ok (arena_blocks a) \<and> pairwise_apart (arena_blocks a)
     \<and> list_all (\<lambda>b. bk_used b = 0) (ar_rest a))"

lemma apart_sym: "apart b c = apart c b"
  by (auto simp: apart_def)

lemma pairwise_apart_append:
  "pairwise_apart (bs @ cs) = (pairwise_apart bs \<and> pairwise_apart cs \<and> list_all (\<lambda>b. list_all (apart b) cs) bs)"
  by (induction bs) auto

section \<open>One block\<close>

lemma align_up_bounds:
  assumes "cursor \<le> 2 ^ 63"
  shows "cursor \<le> align_up cursor" and "align_up cursor < cursor + 16" and "align_up cursor mod 16 = 0"
proof -
  have eq: "align_up cursor = (cursor + 15) div 16 * 16"
    using assms by (simp add: align_up_def word_add_def)
  have "(cursor + 15) div 16 * 16 + (cursor + 15) mod 16 = cursor + 15" by (rule div_mult_mod_eq)
  moreover have "(cursor + 15) mod 16 < 16" by simp
  ultimately show "cursor \<le> align_up cursor" and "align_up cursor < cursor + 16" and "align_up cursor mod 16 = 0"
    unfolding eq by linarith+ simp
qed

lemma word_add_small: "x + y < 2 ^ 64 \<Longrightarrow> word_add x y = x + y"
  by (simp add: word_add_def)

lemma block_cursor: "block_ok b \<Longrightarrow> word_add (bk_data b) (bk_used b) = bk_data b + bk_used b"
  by (simp add: block_ok_def word_add_def)

lemma block_padding_eq:
  assumes "block_ok b"
  shows "bk_data b + bk_used b + block_padding b = align_up (bk_data b + bk_used b)" and "block_padding b < 16"
proof -
  let ?c = "bk_data b + bk_used b"
  have c: "?c \<le> 2 ^ 63" using assms by (simp add: block_ok_def)
  have p: "block_padding b = align_up ?c - ?c"
    using align_up_bounds(1,2) [OF c] c by (simp add: block_padding_def block_cursor [OF assms] mod_if)
  show "?c + block_padding b = align_up ?c" "block_padding b < 16"
    using p align_up_bounds(1,2) [OF c] by simp_all
qed

lemma block_fits_iff:
  "block_ok b \<Longrightarrow> sz \<le> 2 ^ 62 \<Longrightarrow> block_fits b sz = (block_padding b + sz \<le> bk_capacity b - bk_used b)"
  using block_padding_eq(2) [of b] by (simp add: block_fits_def word_add_def)

text \<open>What a successful bump does to the current block.\<close>

lemma bump_block:
  assumes ok: "block_ok b" and sz: "sz \<le> 2 ^ 62" and fits: "block_fits b sz"
  defines "b' \<equiv> b\<lparr>bk_used := word_add (bk_used b) (word_add (block_padding b) sz)\<rparr>"
    and "p \<equiv> align_up (word_add (bk_data b) (bk_used b))"
  shows "block_ok b'" and "bk_data b + bk_used b \<le> p" and "p + sz = bk_data b + bk_used b'"
    and "p mod 16 = 0" and "bk_data b' = bk_data b" and "bk_capacity b' = bk_capacity b"
proof -
  have c: "bk_data b + bk_used b \<le> 2 ^ 63" using ok by (simp add: block_ok_def)
  have room: "block_padding b + sz \<le> bk_capacity b - bk_used b" using block_fits_iff [OF ok sz] fits by simp
  have used: "bk_used b' = bk_used b + block_padding b + sz"
  proof -
    have cap: "bk_used b \<le> bk_capacity b" "bk_capacity b < 2 ^ 64" using ok by (auto simp: block_ok_def)
    have "word_add (block_padding b) sz = block_padding b + sz"
      by (rule word_add_small) (use room cap in linarith)
    moreover have "word_add (bk_used b) (block_padding b + sz) = bk_used b + (block_padding b + sz)"
      by (rule word_add_small) (use room cap in linarith)
    ultimately show ?thesis by (simp add: b'_def)
  qed
  show "block_ok b'" using ok room used by (auto simp: block_ok_def b'_def)
  show "bk_data b + bk_used b \<le> p" "p mod 16 = 0"
    using align_up_bounds [OF c] by (simp_all add: p_def block_cursor [OF ok])
  show "p + sz = bk_data b + bk_used b'"
    using block_padding_eq(1) [OF ok] used by (simp add: p_def block_cursor [OF ok])
  show "bk_data b' = bk_data b" "bk_capacity b' = bk_capacity b" by (simp_all add: b'_def)
qed

section \<open>Growing\<close>

text \<open>What the program needs of \<open>malloc\<close>: a region away from the arena's blocks.\<close>

definition fresh_region :: "arena \<Rightarrow> nat \<Rightarrow> nat \<Rightarrow> bool" where
  "fresh_region a data sz = (let cap = max (sz + 16) (ar_default_block_size a) in
     data + cap \<le> 2 ^ 63 \<and> list_all (apart (goo_arena_block_new data cap)) (arena_blocks a))"

lemma arena_grow_ok:
  assumes inv: "arena_inv a" and sz: "sz \<le> 2 ^ 62" and fresh: "fresh_region a data sz"
  shows "arena_inv (arena_grow data a sz)" and "block_fits (ar_current (arena_grow data a sz)) sz"
    and "set (arena_blocks a) \<subseteq> set (arena_blocks (arena_grow data a sz))"
    and "bk_used (ar_current (arena_grow data a sz)) = 0"
proof -
  define cap where "cap = max (sz + 16) (ar_default_block_size a)"
  define nb where "nb = goo_arena_block_new data cap"
  define reuse where "reuse = (\<exists>n rest. ar_rest a = n # rest \<and> sz + 16 \<le> bk_capacity n)"
  have needed: "word_add sz GOO_ARENA_ALIGNMENT = sz + 16" using sz by (simp add: word_add_def)
  have nb: "block_ok nb" "list_all (apart nb) (arena_blocks a)" "bk_used nb = 0" "sz + 16 \<le> bk_capacity nb"
    using fresh by (simp_all add: fresh_region_def nb_def cap_def block_ok_def goo_arena_block_new_def Let_def)
  have g: "arena_grow data a sz = (if reuse
      then a\<lparr>ar_full := ar_current a # ar_full a, ar_current := hd (ar_rest a), ar_rest := tl (ar_rest a)\<rparr>
      else a\<lparr>ar_full := ar_current a # ar_full a, ar_current := nb\<rparr>)"
    using needed by (auto simp: arena_grow_def Let_def nb_def cap_def reuse_def max_def split: list.splits)
  have fits: "block_fits b sz" if "block_ok b" "bk_used b = 0" "sz + 16 \<le> bk_capacity b" for b
    using block_fits_iff [OF that(1) sz] block_padding_eq(2) [OF that(1)] that(2,3) by simp
  have "arena_inv (arena_grow data a sz) \<and> block_fits (ar_current (arena_grow data a sz)) sz
      \<and> set (arena_blocks a) \<subseteq> set (arena_blocks (arena_grow data a sz))
      \<and> bk_used (ar_current (arena_grow data a sz)) = 0"
  proof (cases reuse)
    case True
    then obtain n rest where r: "ar_rest a = n # rest" "sz + 16 \<le> bk_capacity n" by (auto simp: reuse_def)
    then have same: "arena_blocks (arena_grow data a sz) = arena_blocks a"
      using True g by (simp add: arena_blocks_def)
    have "block_ok n" "bk_used n = 0" using inv r by (simp_all add: arena_inv_def arena_blocks_def)
    then show ?thesis using True g r inv same fits by (auto simp: arena_inv_def)
  next
    case False
    then have bl: "arena_blocks (arena_grow data a sz) = rev (ar_full a) @ ar_current a # nb # ar_rest a"
      using g by (simp add: arena_blocks_def)
    have "pairwise_apart (arena_blocks (arena_grow data a sz))"
      using inv nb(2) unfolding bl by (auto simp: arena_inv_def arena_blocks_def pairwise_apart_append
          list_all_iff apart_sym)
    then show ?thesis
      using False g inv nb bl fits [OF nb(1,3,4)] by (auto simp: arena_inv_def arena_blocks_def)
  qed
  then show "arena_inv (arena_grow data a sz)" and "block_fits (ar_current (arena_grow data a sz)) sz"
    and "set (arena_blocks a) \<subseteq> set (arena_blocks (arena_grow data a sz))"
    and "bk_used (ar_current (arena_grow data a sz)) = 0" by blast+
qed

section \<open>Allocation\<close>

text \<open>
  What the client gets: an aligned address, with room for the request inside one block, away
  from everything that was in use.
\<close>

definition alloc_ok :: "arena \<Rightarrow> nat \<Rightarrow> nat \<Rightarrow> arena \<Rightarrow> bool" where
  "alloc_ok a sz p a' = (p mod 16 = 0 \<and> arena_inv a'
     \<and> (\<exists>b \<in> set (arena_blocks a'). bk_data b \<le> p \<and> p + sz \<le> bk_data b + bk_used b)
     \<and> (\<forall>b \<in> set (arena_blocks a). p + sz \<le> bk_data b \<or> bk_data b + bk_used b \<le> p)
     \<and> (\<forall>b \<in> set (arena_blocks a). \<exists>b' \<in> set (arena_blocks a'). bk_data b' = bk_data b
          \<and> bk_capacity b' = bk_capacity b \<and> bk_used b \<le> bk_used b'))"

lemma bump_alloc_ok:
  assumes inv: "arena_inv a" and sz: "sz \<le> 2 ^ 62" and fits: "block_fits (ar_current a) sz"
  shows "alloc_ok a sz (align_up (word_add (bk_data (ar_current a)) (bk_used (ar_current a))))
    (a\<lparr>ar_current := (ar_current a)\<lparr>bk_used := word_add (bk_used (ar_current a))
        (word_add (block_padding (ar_current a)) sz)\<rparr>\<rparr>)"
proof -
  let ?b = "ar_current a"
  let ?b' = "?b\<lparr>bk_used := word_add (bk_used ?b) (word_add (block_padding ?b) sz)\<rparr>"
  let ?p = "align_up (word_add (bk_data ?b) (bk_used ?b))"
  let ?a' = "a\<lparr>ar_current := ?b'\<rparr>"
  have ok: "block_ok ?b" using inv by (simp add: arena_inv_def arena_blocks_def)
  note bump = bump_block [OF ok sz fits]
  have ap: "apart ?b c = apart ?b' c" for c by (simp add: apart_def)
  have inv': "arena_inv ?a'"
    using inv bump(1) ap apart_sym by (simp add: arena_inv_def arena_blocks_def pairwise_apart_append list_all_iff)
  have "?p + sz \<le> bk_data c \<or> bk_data c + bk_used c \<le> ?p" if "c \<in> set (arena_blocks a)" "c \<noteq> ?b" for c
  proof -
    have "apart ?b c" and "block_ok c"
      using inv that by (auto simp: arena_inv_def arena_blocks_def pairwise_apart_append list_all_iff apart_sym)
    moreover have "?p + sz \<le> bk_data ?b + bk_capacity ?b" using bump(1,3) by (simp add: block_ok_def)
    ultimately show ?thesis using bump(2) by (auto simp: apart_def block_ok_def)
  qed
  moreover have "bk_used ?b \<le> bk_used ?b'" using bump(2,3) by linarith
  ultimately show ?thesis
    using bump inv' unfolding alloc_ok_def by (auto simp: arena_blocks_def)
qed

lemma alloc_ok_mono:
  assumes "alloc_ok g sz p a'" and "set (arena_blocks a) \<subseteq> set (arena_blocks g)"
  shows "alloc_ok a sz p a'"
  using assms(1) assms(2) [THEN subsetD] unfolding alloc_ok_def by blast

text \<open>
  C34. Arena allocation returns within two calls, and the address is 16-byte aligned, lies with
  the whole request inside one block, and overlaps nothing that was in use; blocks never move
  or shrink, so earlier addresses stay valid.
\<close>

theorem arena_alloc_correct:
  assumes "arena_inv a" and "0 < sz" and "sz \<le> 2 ^ 62" and "fresh_region a (malloc 1) sz"
  shows "\<exists>p a'. goo_arena_alloc 2 malloc (Some a) sz = Some (AAddr p, Some a') \<and> alloc_ok a sz p a'"
proof (cases "block_fits (ar_current a) sz")
  case True
  then show ?thesis
    using bump_alloc_ok [OF assms(1,3) True] assms(2) by (simp add: numeral_2_eq_2 Let_def)
next
  case False
  define g where "g = arena_grow (malloc 1) a sz"
  note grow = arena_grow_ok [OF assms(1,3,4), folded g_def]
  have run: "goo_arena_alloc 2 malloc (Some a) sz =
      Some (AAddr (align_up (word_add (bk_data (ar_current g)) (bk_used (ar_current g)))),
        Some (g\<lparr>ar_current := (ar_current g)\<lparr>bk_used := word_add (bk_used (ar_current g))
          (word_add (block_padding (ar_current g)) sz)\<rparr>\<rparr>))"
    using False grow(2) assms(2) by (simp add: numeral_2_eq_2 Let_def g_def)
  have "alloc_ok g sz (align_up (word_add (bk_data (ar_current g)) (bk_used (ar_current g))))
      (g\<lparr>ar_current := (ar_current g)\<lparr>bk_used := word_add (bk_used (ar_current g))
        (word_add (block_padding (ar_current g)) sz)\<rparr>\<rparr>)"
    by (rule bump_alloc_ok [OF grow(1) assms(3) grow(2)])
  then show ?thesis
    unfolding run using alloc_ok_mono [OF _ grow(3)] by blast
qed

theorem arena_alloc_correct_witness:
  "\<exists>p a'. goo_arena_alloc 2 (\<lambda>_. 2 ^ 20) (Some (goo_arena_new 4096 0)) 24 = Some (AAddr p, Some a') \<and> p mod 16 = 0"
proof -
  have "arena_inv (goo_arena_new 4096 0)"
    by (simp add: goo_arena_new_def goo_arena_block_new_def arena_inv_def arena_blocks_def block_ok_def word_add_def)
  moreover have "fresh_region (goo_arena_new 4096 0) (2 ^ 20) 24"
    by (simp add: fresh_region_def goo_arena_new_def goo_arena_block_new_def arena_blocks_def apart_def word_add_def)
  ultimately show ?thesis
    using arena_alloc_correct [of "goo_arena_new 4096 0" 24 "\<lambda>_. 2 ^ 20"] by (auto simp: alloc_ok_def)
qed

text \<open>
  The size test has no overflow check: for a request close to \<open>2 ^ 64\<close> the sum with the
  padding wraps, the request is taken to fit, and the block's use count moves by a few bytes
  only, so the next allocation can overlap.
\<close>

theorem arena_alloc_wraps:
  fixes a :: arena
  assumes "ar_current a = \<lparr> bk_data = 4096, bk_capacity = 65552, bk_used = 1 \<rparr>"
  shows "goo_arena_alloc (Suc fuel) malloc (Some a) (2 ^ 64 - 8) =
    Some (AAddr 4112, Some (a\<lparr>ar_current := \<lparr> bk_data = 4096, bk_capacity = 65552, bk_used = 8 \<rparr>\<rparr>))"
  using assms by (simp add: Let_def block_fits_def block_padding_def align_up_def word_add_def)

definition nearly_empty_arena :: "nat \<Rightarrow> arena" where
  "nearly_empty_arena used = \<lparr> ar_full = [], ar_current = \<lparr> bk_data = 4096, bk_capacity = 65552, bk_used = used \<rparr>,
     ar_rest = [], ar_default_block_size = 65536 \<rparr>"

theorem arena_alloc_wraps_witness:
  "goo_arena_alloc 1 (\<lambda>_. 0) (Some (nearly_empty_arena 1)) (2 ^ 64 - 8)
    = Some (AAddr 4112, Some (nearly_empty_arena 8))"
  using arena_alloc_wraps [of "nearly_empty_arena 1" 0 "\<lambda>_. 0"] by (simp add: nearly_empty_arena_def)

end
