(* ===== verification/Maps.thy ===== *)
theory Maps
  imports Prelude "HOL-Library.Multiset"
begin

text \<open>
  The linked-list maps of \<open>src/runtime/runtime.c\<close> (\<open>GooMapSV\<close>). Key and value slots are 64-bit
  words; a map is its entry list from the head, with the key kind and the comparator. The
  bytes a string key points to are the field \<open>m_strings\<close>: strings are immutable, so the
  memory they live in is the same throughout. Released keys are returned as a list, the
  calls of \<open>goo_release\<close> in their order.
\<close>

section \<open>The map structure\<close>

type_synonym slot = "64 word"

datatype key_kind = GOO_MAPKEY_STRING | GOO_MAPKEY_INLINE | GOO_MAPKEY_STRUCT | GOO_MAPKEY_IFACE

record entry =
  e_key :: slot
  e_value :: slot
  e_owns_key :: bool

record gmap =
  m_head :: "entry list"
  m_key_kind :: key_kind
  m_key_eq :: "(slot \<Rightarrow> slot \<Rightarrow> bool) option"
  m_strings :: "slot \<Rightarrow> string"

definition goo_map_key_eq :: "gmap \<Rightarrow> slot \<Rightarrow> slot \<Rightarrow> bool" where
  "goo_map_key_eq m a b = (case m_key_kind m of
     GOO_MAPKEY_STRING \<Rightarrow> if a = b then True else if a = 0 \<or> b = 0 then False else m_strings m a = m_strings m b
   | GOO_MAPKEY_STRUCT \<Rightarrow> (case m_key_eq m of Some eq \<Rightarrow> eq a b | None \<Rightarrow> a = b)
   | GOO_MAPKEY_IFACE \<Rightarrow> (case m_key_eq m of Some eq \<Rightarrow> eq a b | None \<Rightarrow> a = b)
   | GOO_MAPKEY_INLINE \<Rightarrow> a = b)"

definition pointer_keys :: "gmap \<Rightarrow> bool" where
  "pointer_keys m = (m_key_kind m = GOO_MAPKEY_STRING \<or> m_key_kind m = GOO_MAPKEY_STRUCT)"

definition goo_map_entry_release_key :: "gmap \<Rightarrow> entry \<Rightarrow> slot list" where
  "goo_map_entry_release_key m e =
     (if \<not> e_owns_key e then [] else if \<not> pointer_keys m then [] else [e_key e])"

definition goo_map_new_sv :: "key_kind \<Rightarrow> (slot \<Rightarrow> slot \<Rightarrow> bool) option \<Rightarrow> (slot \<Rightarrow> string) \<Rightarrow> gmap" where
  "goo_map_new_sv kind eq mem = \<lparr> m_head = [], m_key_kind = kind, m_key_eq = eq, m_strings = mem \<rparr>"

section \<open>Operations\<close>

text \<open>The search loop shared by every operation: the first entry with an equal key, and the write to it.\<close>

fun find_entry :: "(slot \<Rightarrow> slot \<Rightarrow> bool) \<Rightarrow> slot \<Rightarrow> entry list \<Rightarrow> entry option" where
  "find_entry eq k [] = None"
| "find_entry eq k (e # es) = (if eq (e_key e) k then Some e else find_entry eq k es)"

fun set_entry :: "(slot \<Rightarrow> slot \<Rightarrow> bool) \<Rightarrow> slot \<Rightarrow> slot \<Rightarrow> entry list \<Rightarrow> entry list" where
  "set_entry eq k v [] = []"
| "set_entry eq k v (e # es) = (if eq (e_key e) k then e\<lparr>e_value := v\<rparr> # es else e # set_entry eq k v es)"

fun remove_entry :: "(slot \<Rightarrow> slot \<Rightarrow> bool) \<Rightarrow> slot \<Rightarrow> entry list \<Rightarrow> entry list" where
  "remove_entry eq k [] = []"
| "remove_entry eq k (e # es) = (if eq (e_key e) k then es else e # remove_entry eq k es)"

text \<open>A write through a null map panics: \<open>None\<close>.\<close>

definition goo_map_set_sv :: "gmap option \<Rightarrow> slot \<Rightarrow> slot \<Rightarrow> gmap option" where
  "goo_map_set_sv mp k v = (case mp of None \<Rightarrow> None | Some m \<Rightarrow>
     (case find_entry (goo_map_key_eq m) k (m_head m) of
        Some e \<Rightarrow> Some (m\<lparr>m_head := set_entry (goo_map_key_eq m) k v (m_head m)\<rparr>)
      | None \<Rightarrow> Some (m\<lparr>m_head := \<lparr> e_key = k, e_value = v, e_owns_key = False \<rparr> # m_head m\<rparr>)))"

definition goo_map_set_sv_owning :: "gmap option \<Rightarrow> slot \<Rightarrow> slot \<Rightarrow> (gmap \<times> slot list) option" where
  "goo_map_set_sv_owning mp k v = (case mp of None \<Rightarrow> None | Some m \<Rightarrow>
     (case find_entry (goo_map_key_eq m) k (m_head m) of
        Some e \<Rightarrow> Some (m\<lparr>m_head := set_entry (goo_map_key_eq m) k v (m_head m)\<rparr>,
          if pointer_keys m then (if k \<noteq> e_key e then [k] else []) else [])
      | None \<Rightarrow> Some (m\<lparr>m_head := \<lparr> e_key = k, e_value = v, e_owns_key = True \<rparr> # m_head m\<rparr>, [])))"

definition goo_map_get_sv :: "gmap option \<Rightarrow> slot \<Rightarrow> slot" where
  "goo_map_get_sv mp k = (case mp of None \<Rightarrow> 0 | Some m \<Rightarrow>
     (case find_entry (goo_map_key_eq m) k (m_head m) of Some e \<Rightarrow> e_value e | None \<Rightarrow> 0))"

definition goo_map_get_sv_ok :: "gmap option \<Rightarrow> slot \<Rightarrow> slot \<times> bool" where
  "goo_map_get_sv_ok mp k = (case mp of None \<Rightarrow> (0, False) | Some m \<Rightarrow>
     (case find_entry (goo_map_key_eq m) k (m_head m) of Some e \<Rightarrow> (e_value e, True) | None \<Rightarrow> (0, False)))"

definition goo_map_len_sv :: "gmap option \<Rightarrow> nat" where
  "goo_map_len_sv mp = (case mp of None \<Rightarrow> 0 | Some m \<Rightarrow> length (m_head m))"

text \<open>A cursor is the list from the entry it points to.\<close>

definition goo_map_iter_init_sv :: "gmap option \<Rightarrow> entry list" where
  "goo_map_iter_init_sv mp = (case mp of None \<Rightarrow> [] | Some m \<Rightarrow> m_head m)"

definition goo_map_iter_next_sv :: "entry list \<Rightarrow> ((slot \<times> slot) \<times> entry list) option" where
  "goo_map_iter_next_sv cursor = (case cursor of [] \<Rightarrow> None | e # es \<Rightarrow> Some ((e_key e, e_value e), es))"

definition goo_map_delete_sv :: "gmap option \<Rightarrow> slot \<Rightarrow> gmap option \<times> slot list" where
  "goo_map_delete_sv mp k = (case mp of None \<Rightarrow> (None, []) | Some m \<Rightarrow>
     (case find_entry (goo_map_key_eq m) k (m_head m) of
        None \<Rightarrow> (Some m, [])
      | Some e \<Rightarrow> (Some (m\<lparr>m_head := remove_entry (goo_map_key_eq m) k (m_head m)\<rparr>), goo_map_entry_release_key m e)))"

definition goo_map_clear_sv :: "gmap option \<Rightarrow> gmap option \<times> slot list" where
  "goo_map_clear_sv mp = (case mp of None \<Rightarrow> (None, []) | Some m \<Rightarrow>
     (Some (m\<lparr>m_head := []\<rparr>), concat (map (goo_map_entry_release_key m) (m_head m))))"

section \<open>The contract of a finite map up to key equality\<close>

locale keyed_map =
  fixes same_key :: "'m \<Rightarrow> 'k \<Rightarrow> 'k \<Rightarrow> bool"
    and lookup :: "'m \<Rightarrow> 'k \<Rightarrow> 'v option"
    and update :: "'m \<Rightarrow> 'k \<Rightarrow> 'v \<Rightarrow> 'm"
    and remove :: "'m \<Rightarrow> 'k \<Rightarrow> 'm"
    and inv :: "'m \<Rightarrow> bool"
  assumes equiv: "inv m \<Longrightarrow> equivp (same_key m)"
    and update_inv: "inv m \<Longrightarrow> inv (update m k v)"
    and remove_inv: "inv m \<Longrightarrow> inv (remove m k)"
    and update_same: "same_key (update m k v) = same_key m"
    and remove_same: "same_key (remove m k) = same_key m"
    and lookup_update: "inv m \<Longrightarrow> lookup (update m k v) j = (if same_key m k j then Some v else lookup m j)"
    and lookup_remove: "inv m \<Longrightarrow> lookup (remove m k) j = (if same_key m k j then None else lookup m j)"
begin

lemma lookup_cong: "inv m \<Longrightarrow> same_key m k j \<Longrightarrow> lookup (update m k v) j = Some v"
  by (simp add: lookup_update)

lemma same_swap: "inv m \<Longrightarrow> same_key m k j \<Longrightarrow> same_key m k i = same_key m j i"
  using equivp_symp [OF equiv [of m]] equivp_transp [OF equiv [of m]] by blast

lemma update_update:
  "inv m \<Longrightarrow> same_key m k j \<Longrightarrow> lookup (update (update m k v) j w) i = lookup (update m j w) i"
  using same_swap [of m k j i] by (simp add: lookup_update update_inv update_same)

lemma update_commute:
  "inv m \<Longrightarrow> \<not> same_key m k j \<Longrightarrow> lookup (update (update m k v) j w) i = lookup (update (update m j w) k v) i"
  using same_swap [of m k i j] equivp_symp [OF equiv [of m], of j i]
  by (auto simp: lookup_update update_inv update_same)

lemma remove_update: "inv m \<Longrightarrow> lookup m k = None \<Longrightarrow> (\<And>i j. same_key m i j \<Longrightarrow> lookup m i = lookup m j)
    \<Longrightarrow> lookup (remove (update m k v) k) j = lookup m j"
  by (auto simp: lookup_remove lookup_update update_inv update_same)

end

section \<open>The runtime's maps satisfy it\<close>

text \<open>
  The invariant: key equality is an equivalence (for struct and interface maps a requirement
  on the comparator the compiler emits) and no two entries have equal keys.
\<close>

fun distinct_keys :: "(slot \<Rightarrow> slot \<Rightarrow> bool) \<Rightarrow> entry list \<Rightarrow> bool" where
  "distinct_keys eq [] = True"
| "distinct_keys eq (e # es) = (list_all (\<lambda>f. \<not> eq (e_key f) (e_key e)) es \<and> distinct_keys eq es)"

definition gmap_inv :: "gmap \<Rightarrow> bool" where
  "gmap_inv m = (equivp (goo_map_key_eq m) \<and> distinct_keys (goo_map_key_eq m) (m_head m))"

definition gmap_lookup :: "gmap \<Rightarrow> slot \<Rightarrow> slot option" where
  "gmap_lookup m k = (case goo_map_get_sv_ok (Some m) k of (v, found) \<Rightarrow> if found then Some v else None)"

definition gmap_update :: "gmap \<Rightarrow> slot \<Rightarrow> slot \<Rightarrow> gmap" where
  "gmap_update m k v = the (goo_map_set_sv (Some m) k v)"

definition gmap_remove :: "gmap \<Rightarrow> slot \<Rightarrow> gmap" where
  "gmap_remove m k = the (fst (goo_map_delete_sv (Some m) k))"

lemma string_and_inline_keys_equiv:
  "m_key_kind m = GOO_MAPKEY_STRING \<or> m_key_kind m = GOO_MAPKEY_INLINE \<Longrightarrow> equivp (goo_map_key_eq m)"
  by (rule equivpI) (auto simp: goo_map_key_eq_def reflp_def symp_def transp_def)

lemma key_eq_head [simp]: "goo_map_key_eq (m\<lparr>m_head := es\<rparr>) = goo_map_key_eq m"
  by (rule ext)+ (simp add: goo_map_key_eq_def split: key_kind.split)

lemma eq_swap: "equivp eq \<Longrightarrow> eq a b \<Longrightarrow> eq a c = eq b c"
  by (meson equivp_symp equivp_transp)

lemma find_set_entry:
  assumes "equivp eq" and "find_entry eq k es \<noteq> None"
  shows "map_option e_value (find_entry eq j (set_entry eq k v es)) =
    (if eq k j then Some v else map_option e_value (find_entry eq j es))"
  using assms(2)
proof (induction es)
  case (Cons e es)
  show ?case
  proof (cases "eq (e_key e) k")
    case True
    then have "eq (e_key e) j = eq k j" by (rule eq_swap [OF assms(1)])
    then show ?thesis using True by simp
  next
    case False
    then have "\<not> (eq (e_key e) j \<and> eq k j)"
      using eq_swap [OF assms(1)] equivp_symp [OF assms(1)] by blast
    then show ?thesis using False Cons by auto
  qed
qed simp

lemma find_entry_None:
  "equivp eq \<Longrightarrow> eq k j \<Longrightarrow> find_entry eq k es = None \<Longrightarrow> find_entry eq j es = None"
  by (induction es) (auto split: if_splits dest: equivp_symp equivp_transp)

lemma find_entry_none_iff: "find_entry eq k es = None \<longleftrightarrow> list_all (\<lambda>f. \<not> eq (e_key f) k) es"
  by (induction es) auto

lemma find_remove_entry:
  assumes "equivp eq" and "distinct_keys eq es"
  shows "find_entry eq j (remove_entry eq k es) = (if eq k j then None else find_entry eq j es)"
  using assms(2)
proof (induction es)
  case (Cons e es)
  have none: "find_entry eq j es = None" if "eq (e_key e) j"
  proof -
    have "eq (e_key f) j = eq (e_key f) (e_key e)" for f :: entry
      using that eq_swap [OF assms(1)] equivp_symp [OF assms(1)] by blast
    then show ?thesis using Cons.prems by (simp add: find_entry_none_iff list_all_iff)
  qed
  show ?case
  proof (cases "eq (e_key e) k")
    case True
    then have "eq (e_key e) j = eq k j" by (rule eq_swap [OF assms(1)])
    then show ?thesis using True none by simp
  next
    case False
    then have "\<not> (eq (e_key e) j \<and> eq k j)"
      using eq_swap [OF assms(1)] equivp_symp [OF assms(1)] by blast
    then show ?thesis using False Cons by auto
  qed
qed simp

lemma length_set_entry: "length (set_entry eq k v es) = length es"
  by (induction es) auto

lemma length_remove_entry: "find_entry eq k es = Some e \<Longrightarrow> Suc (length (remove_entry eq k es)) = length es"
  by (induction es) (auto split: if_splits)

lemma keys_set_entry: "map e_key (set_entry eq k v es) = map e_key es"
  by (induction es) auto

lemma distinct_keys_map: "map e_key es = map e_key fs \<Longrightarrow> distinct_keys eq es = distinct_keys eq fs"
proof (induction es arbitrary: fs)
  case (Cons e es)
  then obtain f gs where fs: "fs = f # gs" "e_key e = e_key f" "map e_key es = map e_key gs" by auto
  have "list_all (\<lambda>x. \<not> eq (e_key x) (e_key e)) es = list_all (\<lambda>x. \<not> eq x (e_key e)) (map e_key es)"
    "list_all (\<lambda>x. \<not> eq (e_key x) (e_key e)) gs = list_all (\<lambda>x. \<not> eq x (e_key e)) (map e_key gs)"
    by (simp_all add: list_all_iff)
  then show ?case using Cons.IH [OF fs(3)] fs by simp
qed simp

lemma distinct_keys_remove: "distinct_keys eq es \<Longrightarrow> distinct_keys eq (remove_entry eq k es)"
proof (induction es)
  case (Cons e es)
  have "set (remove_entry eq k es) \<subseteq> set es" by (induction es) auto
  then show ?case using Cons by (auto simp: list_all_iff)
qed simp

lemma gmap_lookup_find: "gmap_lookup m k = map_option e_value (find_entry (goo_map_key_eq m) k (m_head m))"
  by (simp add: gmap_lookup_def goo_map_get_sv_ok_def split: option.split)

interpretation goo_map: keyed_map goo_map_key_eq gmap_lookup gmap_update gmap_remove gmap_inv
proof unfold_locales
  fix m :: gmap and k j v :: slot
  assume inv: "gmap_inv m"
  then have eqv: "equivp (goo_map_key_eq m)" and dk: "distinct_keys (goo_map_key_eq m) (m_head m)"
    by (simp_all add: gmap_inv_def)
  show "equivp (goo_map_key_eq m)" by (rule eqv)
  show "gmap_inv (gmap_update m k v)"
    using eqv dk find_entry_none_iff [of "goo_map_key_eq m" k "m_head m"]
      distinct_keys_map [OF keys_set_entry]
    by (auto simp: gmap_inv_def gmap_update_def goo_map_set_sv_def split: option.split)
  show "gmap_inv (gmap_remove m k)"
    using eqv dk distinct_keys_remove
    by (auto simp: gmap_inv_def gmap_remove_def goo_map_delete_sv_def split: option.split)
  show "gmap_lookup (gmap_update m k v) j = (if goo_map_key_eq m k j then Some v else gmap_lookup m j)"
    using find_set_entry [OF eqv, of k "m_head m" j v]
    by (auto simp: gmap_lookup_find gmap_update_def goo_map_set_sv_def split: option.split)
  show "gmap_lookup (gmap_remove m k) j = (if goo_map_key_eq m k j then None else gmap_lookup m j)"
    using find_remove_entry [OF eqv dk, of j k] find_entry_None [OF eqv, of k j "m_head m"]
    by (auto simp: gmap_lookup_find gmap_remove_def goo_map_delete_sv_def split: option.split)
qed (auto simp: gmap_update_def gmap_remove_def goo_map_set_sv_def goo_map_delete_sv_def split: option.split)

section \<open>What a map read returns\<close>

text \<open>
  C26. Maps behave as maps: on a map with a proper key comparison, a read after a write returns
  the written value for every equal key and what it returned before for every other key, a
  read after a delete reports the key as absent, after a clear every key is absent, both writes have
  the same effect on reads, the length goes up with a new key and down with a deleted one, and every
  operation keeps the keys distinct.
\<close>

theorem map_laws:
  assumes "gmap_inv m"
  shows "goo_map_set_sv (Some m) k v = Some (gmap_update m k v)
    \<and> goo_map_get_sv_ok (Some (gmap_update m k v)) j =
        (if goo_map_key_eq m k j then (v, True) else goo_map_get_sv_ok (Some m) j)
    \<and> goo_map_get_sv_ok (fst (goo_map_delete_sv (Some m) k)) j =
        (if goo_map_key_eq m k j then (0, False) else goo_map_get_sv_ok (Some m) j)
    \<and> goo_map_get_sv (Some m) j = fst (goo_map_get_sv_ok (Some m) j)
    \<and> (\<exists>m' rel. goo_map_set_sv_owning (Some m) k v = Some (m', rel)
          \<and> goo_map_get_sv_ok (Some m') j = goo_map_get_sv_ok (Some (gmap_update m k v)) j
          \<and> goo_map_len_sv (Some m') = goo_map_len_sv (Some (gmap_update m k v)))
    \<and> goo_map_get_sv_ok (fst (goo_map_clear_sv (Some m))) j = (0, False)
    \<and> goo_map_len_sv (Some (gmap_update m k v)) =
        (if snd (goo_map_get_sv_ok (Some m) k) then goo_map_len_sv (Some m) else goo_map_len_sv (Some m) + 1)
    \<and> goo_map_len_sv (Some m) =
        (if snd (goo_map_get_sv_ok (Some m) k) then goo_map_len_sv (fst (goo_map_delete_sv (Some m) k)) + 1
         else goo_map_len_sv (fst (goo_map_delete_sv (Some m) k)))
    \<and> goo_map_len_sv (fst (goo_map_clear_sv (Some m))) = 0
    \<and> gmap_inv (gmap_update m k v) \<and> gmap_inv (gmap_remove m k)"
proof -
  have ok: "goo_map_get_sv_ok (Some n) i = (case gmap_lookup n i of Some w \<Rightarrow> (w, True) | None \<Rightarrow> (0, False))" for n i
    by (auto simp: gmap_lookup_find goo_map_get_sv_ok_def split: option.split)
  have st: "goo_map_set_sv (Some m) k v = Some (gmap_update m k v)"
    by (simp add: gmap_update_def goo_map_set_sv_def split: option.split)
  have dl: "fst (goo_map_delete_sv (Some m) k) = Some (gmap_remove m k)"
    by (simp add: gmap_remove_def goo_map_delete_sv_def split: option.split)
  have gt: "goo_map_get_sv (Some m) j = fst (goo_map_get_sv_ok (Some m) j)"
    by (simp add: goo_map_get_sv_def goo_map_get_sv_ok_def split: option.split)
  have ow: "\<exists>m' rel. goo_map_set_sv_owning (Some m) k v = Some (m', rel)
      \<and> goo_map_get_sv_ok (Some m') j = goo_map_get_sv_ok (Some (gmap_update m k v)) j
      \<and> goo_map_len_sv (Some m') = goo_map_len_sv (Some (gmap_update m k v))"
    by (auto simp: goo_map_set_sv_owning_def gmap_update_def goo_map_set_sv_def goo_map_get_sv_ok_def goo_map_len_sv_def
        split: option.split)
  have ln: "goo_map_len_sv (Some (gmap_update m k v)) =
      (if snd (goo_map_get_sv_ok (Some m) k) then goo_map_len_sv (Some m) else goo_map_len_sv (Some m) + 1)"
    "goo_map_len_sv (Some m) =
      (if snd (goo_map_get_sv_ok (Some m) k) then goo_map_len_sv (fst (goo_map_delete_sv (Some m) k)) + 1
       else goo_map_len_sv (fst (goo_map_delete_sv (Some m) k)))"
    by (auto simp: goo_map_len_sv_def gmap_update_def goo_map_set_sv_def goo_map_get_sv_ok_def goo_map_delete_sv_def
        length_set_entry length_remove_entry split: option.split)
  have cl: "goo_map_get_sv_ok (fst (goo_map_clear_sv (Some m))) j = (0, False)" "goo_map_len_sv (fst (goo_map_clear_sv (Some m))) = 0"
    by (simp_all add: goo_map_clear_sv_def goo_map_get_sv_ok_def goo_map_len_sv_def)
  show ?thesis
    using st dl gt ow ln cl goo_map.update_inv [OF assms] goo_map.remove_inv [OF assms]
      goo_map.lookup_update [OF assms, of k v j] goo_map.lookup_remove [OF assms, of k j] by (auto simp: ok)
qed

theorem map_laws_witness:
  "goo_map_get_sv_ok (Some (gmap_update (goo_map_new_sv GOO_MAPKEY_INLINE None (\<lambda>_. [])) 3 7)) 3 = (7, True)"
proof -
  have "gmap_inv (goo_map_new_sv GOO_MAPKEY_INLINE None (\<lambda>_. []))"
    by (simp add: gmap_inv_def string_and_inline_keys_equiv goo_map_new_sv_def)
  then show ?thesis
    using map_laws [of "goo_map_new_sv GOO_MAPKEY_INLINE None (\<lambda>_. [])" 3 7 3]
    by (simp add: goo_map_key_eq_def goo_map_new_sv_def)
qed

section \<open>Key ownership\<close>

text \<open>
  A sequence of map operations, with the keys handed over by owning writes and the keys released, as
  multisets. The key of an owning write is no slot that an entry merely borrows; when the map owns
  the very pointer already, nothing new is handed over.
\<close>

definition owned_keys :: "entry list \<Rightarrow> slot multiset" where
  "owned_keys es = mset (map e_key (filter e_owns_key es))"

definition borrowed_keys :: "entry list \<Rightarrow> slot set" where
  "borrowed_keys es = {e_key e |e. e \<in> set es \<and> \<not> e_owns_key e}"

inductive map_trace :: "gmap \<Rightarrow> slot multiset \<Rightarrow> slot multiset \<Rightarrow> gmap \<Rightarrow> bool" where
  mt_start: "m_head m = [] \<Longrightarrow> map_trace m {#} {#} m"
| mt_set: "map_trace m own rel m' \<Longrightarrow> goo_map_set_sv (Some m') k v = Some m'' \<Longrightarrow> map_trace m own rel m''"
| mt_own: "map_trace m own rel m' \<Longrightarrow> goo_map_set_sv_owning (Some m') k v = Some (m'', ks) \<Longrightarrow>
    k \<notin> borrowed_keys (m_head m') \<Longrightarrow>
    map_trace m (own + (if k \<in># owned_keys (m_head m') then {#} else {#k#})) (rel + mset ks) m''"
| mt_delete: "map_trace m own rel m' \<Longrightarrow> goo_map_delete_sv (Some m') k = (Some m'', ks) \<Longrightarrow>
    map_trace m own (rel + mset ks) m''"
| mt_clear: "map_trace m own rel m' \<Longrightarrow> goo_map_clear_sv (Some m') = (Some m'', ks) \<Longrightarrow>
    map_trace m own (rel + mset ks) m''"

lemma owned_simps [simp]:
  "owned_keys [] = {#}"
  "owned_keys (e # es) = (if e_owns_key e then add_mset (e_key e) (owned_keys es) else owned_keys es)"
  by (simp_all add: owned_keys_def)

lemma owned_set_entry: "owned_keys (set_entry eq k v es) = owned_keys es"
  by (induction es) auto

lemma owned_remove_entry:
  "find_entry eq k es = Some e \<Longrightarrow>
    owned_keys es = owned_keys (remove_entry eq k es) + (if e_owns_key e then {#e_key e#} else {#})"
  by (induction es) (auto split: if_splits)

lemma owned_clear:
  "pointer_keys m \<Longrightarrow> mset (concat (map (goo_map_entry_release_key m) es)) = owned_keys es"
  by (induction es) (auto simp: goo_map_entry_release_key_def)

lemma find_entry_in: "find_entry eq k es = Some e \<Longrightarrow> e \<in> set es"
  by (induction es) (auto split: if_splits)

lemma pointer_keys_head [simp]: "pointer_keys (m\<lparr>m_head := es\<rparr>) = pointer_keys m"
  by (simp add: pointer_keys_def)

lemma gmap_invs:
  assumes "gmap_inv m"
  shows "goo_map_set_sv (Some m) k v = Some m' \<Longrightarrow> gmap_inv m'"
    and "goo_map_set_sv_owning (Some m) k v = Some (m', ks) \<Longrightarrow> gmap_inv m'"
    and "goo_map_delete_sv (Some m) k = (Some m', ks) \<Longrightarrow> gmap_inv m'"
    and "goo_map_clear_sv (Some m) = (Some m', ks) \<Longrightarrow> gmap_inv m'"
  using assms find_entry_none_iff [of "goo_map_key_eq m" k "m_head m"] distinct_keys_map [OF keys_set_entry] distinct_keys_remove
  by (auto simp: gmap_inv_def goo_map_set_sv_def goo_map_set_sv_owning_def goo_map_delete_sv_def goo_map_clear_sv_def
      split: option.splits)

text \<open>A key that an entry holds finds this entry.\<close>

lemma find_own_key:
  assumes "equivp eq" "distinct_keys eq es" "e \<in> set es"
  shows "find_entry eq (e_key e) es = Some e"
  using assms(2,3)
proof (induction es)
  case (Cons f es)
  then show ?case
    using equivp_reflp [OF assms(1)] equivp_symp [OF assms(1)] by (auto simp: list_all_iff)
qed simp

lemma owned_keys_in: "k \<in># owned_keys es \<longleftrightarrow> (\<exists>e \<in> set es. e_owns_key e \<and> e_key e = k)"
  by (auto simp: owned_keys_def)

lemma owning_write_balance:
  assumes "gmap_inv m" "pointer_keys m" "goo_map_set_sv_owning (Some m) k v = Some (m', ks)" "k \<notin> borrowed_keys (m_head m)"
  shows "owned_keys (m_head m') + mset ks = owned_keys (m_head m) + (if k \<in># owned_keys (m_head m) then {#} else {#k#})"
proof (cases "k \<in># owned_keys (m_head m)")
  case True
  then obtain e where e: "e \<in> set (m_head m)" "e_key e = k" by (auto simp: owned_keys_in)
  then have "find_entry (goo_map_key_eq m) k (m_head m) = Some e"
    using find_own_key [of "goo_map_key_eq m" "m_head m" e] assms(1) by (simp add: gmap_inv_def)
  then show ?thesis using assms(2,3) True e(2) by (auto simp: goo_map_set_sv_owning_def owned_set_entry)
next
  case False
  have "k \<noteq> e_key e" if "find_entry (goo_map_key_eq m) k (m_head m) = Some e" for e
    using find_entry_in [OF that] False assms(4) by (auto simp: owned_keys_in borrowed_keys_def)
  then show ?thesis
    using assms(2,3) False by (auto simp: goo_map_set_sv_owning_def owned_set_entry split: option.splits)
qed

lemma map_trace_balance:
  "map_trace m own rel m' \<Longrightarrow> pointer_keys m \<Longrightarrow> equivp (goo_map_key_eq m) \<Longrightarrow>
     pointer_keys m' \<and> gmap_inv m' \<and> own = rel + owned_keys (m_head m')"
proof (induction rule: map_trace.induct)
  case (mt_start m)
  then show ?case by (simp add: gmap_inv_def)
next
  case (mt_set m own rel m' k v m'')
  then have ih: "pointer_keys m'" "gmap_inv m'" "own = rel + owned_keys (m_head m')" by simp_all
  then show ?case using gmap_invs(1) [OF ih(2) mt_set(2)] mt_set(2)
    by (auto simp: goo_map_set_sv_def owned_set_entry split: option.splits)
next
  case (mt_own m own rel m' k v m'' ks)
  then have ih: "pointer_keys m'" "gmap_inv m'" "own = rel + owned_keys (m_head m')" by simp_all
  have "pointer_keys m''" using mt_own(2) ih(1) by (auto simp: goo_map_set_sv_owning_def split: option.splits)
  then show ?case
    using ih gmap_invs(2) [OF ih(2) mt_own(2)] owning_write_balance [OF ih(2,1) mt_own(2,3)] by (simp add: ac_simps)
next
  case (mt_delete m own rel m' k m'' ks)
  then have ih: "pointer_keys m'" "gmap_inv m'" "own = rel + owned_keys (m_head m')" by simp_all
  then show ?case using gmap_invs(3) [OF ih(2) mt_delete(2)] mt_delete(2)
    by (auto simp: goo_map_delete_sv_def goo_map_entry_release_key_def dest!: owned_remove_entry
        split: option.splits if_splits)
next
  case (mt_clear m own rel m' m'' ks)
  then have ih: "pointer_keys m'" "gmap_inv m'" "own = rel + owned_keys (m_head m')" by simp_all
  then show ?case using gmap_invs(4) [OF ih(2) mt_clear(2)] mt_clear(2) by (auto simp: goo_map_clear_sv_def owned_clear)
qed



end
