(* ===== verification/Strings.thy ===== *)
theory Strings
  imports Prelude
begin

unbundle bit_operations_syntax

text \<open>
  The string half of \<open>src/runtime/runtime.c\<close>: UTF-8 decoding and encoding, the \<open>goo_string\<close>
  operations, number conversions and the backings of the strings package. A byte is an 8-bit
  word, a C string argument a list of bytes without NUL (\<open>None\<close> for a null pointer). A
  \<open>goo_string\<close> is the record of its data pointer and length; the data are the bytes that can be
  read from the pointer on. \<open>goo_alloc\<close> is taken to succeed.
\<close>

type_synonym bytes = "8 word list"

section \<open>UTF-8\<close>

text \<open>The test of the lead byte: the sequence length and the payload bits.\<close>

definition utf8_lead :: "8 word \<Rightarrow> (nat \<times> 32 word) option" where
  "utf8_lead b0 =
     (if b0 AND 0xE0 = 0xC0 then Some (2, ucast (b0 AND 0x1F))
      else if b0 AND 0xF0 = 0xE0 then Some (3, ucast (b0 AND 0x0F))
      else if b0 AND 0xF8 = 0xF0 then Some (4, ucast (b0 AND 0x07))
      else None)"

text \<open>The loop over the continuation bytes.\<close>

fun utf8_continue :: "bytes \<Rightarrow> 32 word \<Rightarrow> 32 word option" where
  "utf8_continue [] r = Some r"
| "utf8_continue (b # bs) r =
     (if b AND 0xC0 \<noteq> 0x80 then None else utf8_continue bs (push_bit 6 r OR ucast (b AND 0x3F)))"

definition goo_utf8_decode :: "bytes \<Rightarrow> nat \<Rightarrow> 32 word \<times> nat" where
  "goo_utf8_decode data i = (let b0 = data ! i in
     if b0 < 0x80 then (ucast b0, 1)
     else case utf8_lead b0 of
         None \<Rightarrow> (0xFFFD, 1)
       | Some (n, r) \<Rightarrow>
           if i + n > length data then (0xFFFD, 1)
           else (case utf8_continue (take (n - 1) (drop (i + 1) data)) r of
               None \<Rightarrow> (0xFFFD, 1)
             | Some r' \<Rightarrow> (r', n)))"

text \<open>The code point that is written: the replacement character for an invalid one.\<close>

definition rune_scalar :: "32 word \<Rightarrow> 32 word" where
  "rune_scalar r = (if r <s 0 \<or> (0xD800 \<le> r \<and> r \<le> 0xDFFF) \<or> 0x10FFFF < r then 0xFFFD else r)"

definition goo_utf8_encode_rune :: "32 word \<Rightarrow> bytes" where
  "goo_utf8_encode_rune r = (let cp = rune_scalar r in
     if cp \<le> 0x7F then [ucast cp]
     else if cp \<le> 0x7FF then [ucast (0xC0 OR drop_bit 6 cp), ucast (0x80 OR (cp AND 0x3F))]
     else if cp \<le> 0xFFFF then
       [ucast (0xE0 OR drop_bit 12 cp), ucast (0x80 OR (drop_bit 6 cp AND 0x3F)), ucast (0x80 OR (cp AND 0x3F))]
     else
       [ucast (0xF0 OR drop_bit 18 cp), ucast (0x80 OR (drop_bit 12 cp AND 0x3F)),
        ucast (0x80 OR (drop_bit 6 cp AND 0x3F)), ucast (0x80 OR (cp AND 0x3F))])"

section \<open>Strings\<close>

record goo_string =
  gs_data :: "bytes option"
  gs_length :: nat

definition null_string :: goo_string where
  "null_string = \<lparr> gs_data = None, gs_length = 0 \<rparr>"

text \<open>The value of a string: its bytes up to the length.\<close>

definition gs_bytes :: "goo_string \<Rightarrow> bytes" where
  "gs_bytes s = (case gs_data s of None \<Rightarrow> [] | Some d \<Rightarrow> take (gs_length s) d)"

definition goo_string_new_with_length :: "bytes option \<Rightarrow> nat \<Rightarrow> goo_string" where
  "goo_string_new_with_length data len = (case data of
     None \<Rightarrow> null_string
   | Some d \<Rightarrow> if len = 0 then null_string else \<lparr> gs_data = Some (take len d @ [0]), gs_length = len \<rparr>)"

definition goo_string_new :: "bytes option \<Rightarrow> goo_string" where
  "goo_string_new data = (case data of None \<Rightarrow> null_string
     | Some d \<Rightarrow> goo_string_new_with_length data (length (takeWhile (\<lambda>b. b \<noteq> 0) d)))"

definition goo_string_concat :: "goo_string \<Rightarrow> goo_string \<Rightarrow> goo_string" where
  "goo_string_concat a b =
     (if gs_data a = None \<or> gs_length a = 0 then goo_string_new_with_length (gs_data b) (gs_length b)
      else if gs_data b = None \<or> gs_length b = 0 then goo_string_new_with_length (gs_data a) (gs_length a)
      else \<lparr> gs_data = Some (take (gs_length a) (the (gs_data a)) @ take (gs_length b) (the (gs_data b)) @ [0]),
             gs_length = gs_length a + gs_length b \<rparr>)"

definition goo_string_from_rune :: "32 word \<Rightarrow> goo_string" where
  "goo_string_from_rune r =
     goo_string_new_with_length (Some (goo_utf8_encode_rune r)) (length (goo_utf8_encode_rune r))"

text \<open>The sign of \<open>memcmp\<close> over the first \<open>n\<close> bytes.\<close>

fun memcmp :: "bytes \<Rightarrow> bytes \<Rightarrow> nat \<Rightarrow> int" where
  "memcmp (x # xs) (y # ys) (Suc n) = (if x < y then - 1 else if y < x then 1 else memcmp xs ys n)"
| "memcmp _ _ _ = 0"

definition goo_string_eq :: "goo_string \<Rightarrow> goo_string \<Rightarrow> bool" where
  "goo_string_eq a b =
     (if gs_length a \<noteq> gs_length b then False
      else if gs_length a = 0 then True
      else case (gs_data a, gs_data b) of
          (Some x, Some y) \<Rightarrow> memcmp x y (gs_length a) = 0
        | (x, y) \<Rightarrow> x = y)"

definition goo_string_cmp :: "goo_string \<Rightarrow> goo_string \<Rightarrow> int" where
  "goo_string_cmp a b =
     (let n = (if gs_length a < gs_length b then gs_length a else gs_length b);
          c = (case (gs_data a, gs_data b) of (Some x, Some y) \<Rightarrow> if n > 0 then memcmp x y n else 0 | _ \<Rightarrow> 0) in
      if c \<noteq> 0 then (if c < 0 then - 1 else 1)
      else if gs_length a < gs_length b then - 1
      else if gs_length b < gs_length a then 1
      else 0)"

section \<open>Numbers\<close>

definition bytes_of :: "string \<Rightarrow> bytes" where
  "bytes_of s = map (\<lambda>c. word_of_nat (char_code c)) s"

text \<open>\<open>%lld\<close> and \<open>%llu\<close> into a buffer of 32 bytes; a text that does not fit panics (\<open>None\<close>).\<close>

definition goo_int_to_string :: "64 word \<Rightarrow> goo_string option" where
  "goo_int_to_string v = (let buf = bytes_of (int_to_dec (sint v)) in
     if length buf \<ge> 32 then None else Some \<lparr> gs_data = Some (buf @ [0]), gs_length = length buf \<rparr>)"

definition goo_uint_to_string :: "64 word \<Rightarrow> goo_string option" where
  "goo_uint_to_string v = (let buf = bytes_of (nat_to_dec (unat v)) in
     if length buf \<ge> 32 then None else Some (goo_string_new_with_length (Some buf) (length buf)))"

definition goo_bool_to_string :: "bool \<Rightarrow> goo_string" where
  "goo_bool_to_string v = (let lit = bytes_of (if v then ''true'' else ''false'') in
     \<lparr> gs_data = Some (lit @ [0]), gs_length = length lit \<rparr>)"

definition isspace :: "8 word \<Rightarrow> bool" where
  "isspace b = (b = 0x20 \<or> (9 \<le> b \<and> b \<le> 13))"

definition isdigit :: "8 word \<Rightarrow> bool" where
  "isdigit b = (0x30 \<le> b \<and> b \<le> 0x39)"

text \<open>
  \<open>strtoll\<close> in base 10: white space, a sign, digits. The result is the number with the text after
  it, or the range error; with no digits nothing is consumed.
\<close>

datatype strtoll_result = Parsed int bytes | NoDigits | RangeError

definition strtoll :: "bytes \<Rightarrow> strtoll_result" where
  "strtoll buf =
     (let s = dropWhile isspace buf;
          (neg, t) = (case s of c # cs \<Rightarrow> if c = 0x2D then (True, cs) else if c = 0x2B then (False, cs) else (False, s)
                      | [] \<Rightarrow> (False, []));
          ds = takeWhile isdigit t;
          v = foldl (\<lambda>n d. 10 * n + (uint d - 48)) 0 ds;
          x = (if neg then - v else v) in
      if ds = [] then NoDigits
      else if x < - (2 ^ 63) \<or> 2 ^ 63 \<le> x then RangeError
      else Parsed x (dropWhile isdigit t))"

text \<open>The buffer is NUL-terminated, so the conversion and the test of \<open>*end\<close> see the text up to the first NUL.\<close>

definition goo_string_to_int :: "goo_string \<Rightarrow> 64 word option" where
  "goo_string_to_int s =
     (if gs_length s = 0 then None
      else if gs_length s \<ge> 32 then None
      else case strtoll (takeWhile (\<lambda>b. b \<noteq> 0) (gs_bytes s)) of
          Parsed v rest \<Rightarrow> if rest = [] then Some (word_of_int v) else None
        | _ \<Rightarrow> None)"

section \<open>The strings package\<close>

text \<open>\<open>strstr\<close>: the offset of the first occurrence.\<close>

fun starts_with :: "bytes \<Rightarrow> bytes \<Rightarrow> bool" where
  "starts_with _ [] = True"
| "starts_with [] (y # ys) = False"
| "starts_with (x # xs) (y # ys) = (x = y \<and> starts_with xs ys)"

fun strstr :: "bytes \<Rightarrow> bytes \<Rightarrow> nat option" where
  "strstr h needle = (if starts_with h needle then Some 0
     else (case h of [] \<Rightarrow> None | x # xs \<Rightarrow> map_option Suc (strstr xs needle)))"

declare strstr.simps [simp del]

definition goo_strings_contains :: "bytes option \<Rightarrow> bytes option \<Rightarrow> bool" where
  "goo_strings_contains haystack needle = (case (haystack, needle) of
     (Some h, Some n) \<Rightarrow> strstr h n \<noteq> None | _ \<Rightarrow> False)"

definition toupper :: "8 word \<Rightarrow> 8 word" where
  "toupper b = (if 0x61 \<le> b \<and> b \<le> 0x7A then b - 32 else b)"

definition tolower :: "8 word \<Rightarrow> 8 word" where
  "tolower b = (if 0x41 \<le> b \<and> b \<le> 0x5A then b + 32 else b)"

definition goo_strings_map_case :: "bytes option \<Rightarrow> (8 word \<Rightarrow> 8 word) \<Rightarrow> goo_string" where
  "goo_strings_map_case s mapper = (let t = (case s of None \<Rightarrow> [] | Some t \<Rightarrow> t) in
     \<lparr> gs_data = Some (map mapper t @ [0]), gs_length = length t \<rparr>)"

definition goo_strings_to_upper :: "bytes option \<Rightarrow> goo_string" where
  "goo_strings_to_upper s = goo_strings_map_case s toupper"

definition goo_strings_to_lower :: "bytes option \<Rightarrow> goo_string" where
  "goo_strings_to_lower s = goo_strings_map_case s tolower"

lemma starts_with_iff: "starts_with h n \<longleftrightarrow> (\<exists>t. h = n @ t)"
  by (induction h n rule: starts_with.induct) auto

lemma strstr_Nil: "strstr [] n = (if n = [] then Some 0 else None)"
  by (subst strstr.simps) (simp add: starts_with_iff)

lemma strstr_Cons: "strstr (x # xs) n = (if starts_with (x # xs) n then Some 0 else map_option Suc (strstr xs n))"
  by (subst strstr.simps) simp

lemma strstr_Some:
  "strstr h n = Some p \<Longrightarrow> p + length n \<le> length h \<and> take (length n) (drop p h) = n"
proof (induction h arbitrary: p)
  case Nil
  then show ?case by (simp add: strstr_Nil split: if_splits)
next
  case (Cons x xs)
  show ?case
  proof (cases "starts_with (x # xs) n")
    case True
    then show ?thesis
      using Cons.prems by (auto simp: strstr_Cons starts_with_iff dest: arg_cong [where f = length])
  next
    case False
    then obtain q where "strstr xs n = Some q" "p = Suc q" using Cons.prems by (auto simp: strstr_Cons)
    then show ?thesis using Cons.IH by simp
  qed
qed

lemma strstr_shrinks: "strstr s sep = Some p \<Longrightarrow> sep \<noteq> [] \<Longrightarrow> length (drop (p + length sep) s) < length s"
  using strstr_Some [of s sep p] by (cases sep) auto

text \<open>
  The two loops of \<open>goo_strings_split\<close>: the first counts the separators to size the result, the
  second writes the parts.
\<close>

function split_count :: "bytes \<Rightarrow> bytes \<Rightarrow> nat" where
  "split_count s sep = (if sep = [] then 1 else (case strstr s sep of None \<Rightarrow> 1
     | Some p \<Rightarrow> split_count (drop (p + length sep) s) sep + 1))"
  by pat_completeness auto
termination
  by (relation "measure (\<lambda>(s, sep). length s)") (auto dest: strstr_shrinks simp del: length_drop)

function split_parts :: "bytes \<Rightarrow> bytes \<Rightarrow> goo_string list" where
  "split_parts s sep = (if sep = [] then [goo_string_new (Some s)] else (case strstr s sep of
       None \<Rightarrow> [goo_string_new (Some s)]
     | Some p \<Rightarrow> goo_string_new_with_length (Some s) p # split_parts (drop (p + length sep) s) sep))"
  by pat_completeness auto
termination
  by (relation "measure (\<lambda>(s, sep). length s)") (auto dest: strstr_shrinks simp del: length_drop)

declare split_count.simps [simp del] split_parts.simps [simp del]

record string_slice =
  ss_elems :: "goo_string list"
  ss_length :: nat
  ss_capacity :: nat

definition goo_strings_split :: "bytes option \<Rightarrow> bytes option \<Rightarrow> string_slice" where
  "goo_strings_split s0 sep0 =
     (let s = (case s0 of None \<Rightarrow> [] | Some t \<Rightarrow> t);
          sep = (case sep0 of None \<Rightarrow> [] | Some t \<Rightarrow> t) in
      if sep = [] then \<lparr> ss_elems = [goo_string_new (Some s)], ss_length = 1, ss_capacity = 1 \<rparr>
      else \<lparr> ss_elems = split_parts s sep, ss_length = split_count s sep, ss_capacity = split_count s sep \<rparr>)"

text \<open>The copy loop of \<open>goo_strings_join\<close>, over the elements still to be written.\<close>

fun join_write :: "goo_string list \<Rightarrow> bytes \<Rightarrow> bytes" where
  "join_write [] sep = []"
| "join_write [e] sep = gs_bytes e"
| "join_write (e # es) sep = gs_bytes e @ sep @ join_write es sep"

definition goo_strings_join :: "string_slice option \<Rightarrow> bytes option \<Rightarrow> goo_string" where
  "goo_strings_join parts sep0 = (case parts of
     None \<Rightarrow> goo_string_new (Some [])
   | Some ps \<Rightarrow>
       if ss_length ps = 0 then goo_string_new (Some [])
       else
         (let sep = (case sep0 of None \<Rightarrow> [] | Some t \<Rightarrow> t);
              elems = take (ss_length ps) (ss_elems ps);
              total = sum_list (map gs_length elems) + length sep * (ss_length ps - 1) in
          \<lparr> gs_data = Some (join_write elems sep @ [0]), gs_length = total \<rparr>))"

definition goo_strings_trim_space :: "bytes option \<Rightarrow> goo_string" where
  "goo_strings_trim_space s0 = (case s0 of
     None \<Rightarrow> goo_strings_map_case None toupper
   | Some s \<Rightarrow>
       (let t = dropWhile isspace s; out = rev (dropWhile isspace (rev t)) in
        \<lparr> gs_data = Some (out @ [0]), gs_length = length out \<rparr>))"

end
