(* ===== verification/Strings_Props.thy ===== *)
theory Strings_Props
  imports Strings
begin

unbundle bit_operations_syntax

text \<open>
  What the string operations promise: UTF-8 decoding inverts encoding on whole texts, the
  comparison is the lexicographic order of the bytes, numbers survive printing and parsing,
  and joining the parts of a split gives the text back.
\<close>

section \<open>UTF-8: bits of a sequence\<close>

lemma byte_bits: "(x :: 8 word) = y \<longleftrightarrow> (\<forall>i \<in> {..<8}. bit x i = bit y i)"
  by (auto intro: bit_word_eqI)

lemma rune_bits: "(x :: 32 word) = y \<longleftrightarrow> (\<forall>i \<in> {..<32}. bit x i = bit y i)"
  by (auto intro: bit_word_eqI)

lemma bits8: "{..<8 :: nat} = {0,1,2,3,4,5,6,7}"
  by (simp add: lessThan_nat_numeral lessThan_Suc insert_commute)

lemma bits32: "{..<32 :: nat} = {0,1,2,3,4,5,6,7,8,9,10,11,12,13,14,15,16,17,18,19,20,21,22,23,24,25,26,27,28,29,30,31}"
  by (simp add: lessThan_nat_numeral lessThan_Suc insert_commute)

lemma high_bits:
  assumes "unat (cp :: 'a :: len word) < 2 ^ n" and "n \<le> i"
  shows "\<not> bit cp i"
proof -
  have "unat cp < 2 ^ i" using assms by (meson less_le_trans one_le_numeral power_increasing)
  then have "\<not> bit (unat cp) i" by (simp add: bit_iff_odd)
  then show ?thesis by (simp add: bit_unsigned_iff)
qed

lemma cont_byte: "(ucast (0x80 OR (cp AND 0x3F) :: 32 word) :: 8 word) AND 0xC0 = 0x80"
  unfolding byte_bits bits8 by (simp add: bit_simps)

lemma cont_payload: "(ucast ((ucast (0x80 OR (cp AND 0x3F) :: 32 word) :: 8 word) AND 0x3F) :: 32 word) = cp AND 0x3F"
  unfolding rune_bits bits32 by (simp add: bit_simps)

lemma join_six_bits: "push_bit 6 (drop_bit 6 (x :: 32 word)) OR (x AND 0x3F) = x"
  unfolding rune_bits bits32 by (simp add: bit_simps)

text \<open>One continuation byte of an encoded code point.\<close>

lemma utf8_continue_step:
  "utf8_continue (ucast (0x80 OR (x AND 0x3F) :: 32 word) # bs) (drop_bit 6 x) = utf8_continue bs x"
  by (simp add: cont_byte cont_payload join_six_bits)

lemma utf8_lead_not_ascii: "utf8_lead b = Some x \<Longrightarrow> \<not> b < 0x80"
proof
  assume lead: "utf8_lead b = Some x" and "b < 0x80"
  then have "unat b < 2 ^ 7" by (simp add: word_less_nat_alt)
  then have "\<not> bit b 7" by (rule high_bits) simp
  then have ne: "b AND m \<noteq> c" if "bit c 7" for m c using that by (auto simp: bit_simps)
  show False
    using lead ne [of "0xC0" "0xE0"] ne [of "0xE0" "0xF0"] ne [of "0xF0" "0xF8"] by (simp add: utf8_lead_def)
qed

lemma lead_two:
  assumes "unat cp < 2 ^ 11"
  shows "utf8_lead (ucast (0xC0 OR drop_bit 6 cp :: 32 word)) = Some (2, drop_bit 6 cp)"
proof -
  note b = high_bits [OF assms]
  have "(ucast (0xC0 OR drop_bit 6 cp :: 32 word) :: 8 word) AND 0xE0 = 0xC0"
    unfolding byte_bits bits8 using b by (simp add: bit_simps)
  moreover have "(ucast ((ucast (0xC0 OR drop_bit 6 cp :: 32 word) :: 8 word) AND 0x1F) :: 32 word) = drop_bit 6 cp"
    unfolding rune_bits bits32 using b by (simp add: bit_simps)
  ultimately show ?thesis by (simp add: utf8_lead_def)
qed

lemma lead_three:
  assumes "unat cp < 2 ^ 16"
  shows "utf8_lead (ucast (0xE0 OR drop_bit 12 cp :: 32 word)) = Some (3, drop_bit 12 cp)"
proof -
  note b = high_bits [OF assms]
  let ?l = "ucast (0xE0 OR drop_bit 12 cp :: 32 word) :: 8 word"
  have "?l AND 0xF0 = 0xE0"
    unfolding byte_bits bits8 using b by (simp add: bit_simps)
  moreover have "?l AND 0xE0 \<noteq> 0xC0"
    unfolding byte_bits bits8 by (simp add: bit_simps)
  moreover have "(ucast (?l AND 0x0F) :: 32 word) = drop_bit 12 cp"
    unfolding rune_bits bits32 using b by (simp add: bit_simps)
  ultimately show ?thesis by (simp add: utf8_lead_def)
qed

lemma lead_four:
  assumes "unat cp < 2 ^ 21"
  shows "utf8_lead (ucast (0xF0 OR drop_bit 18 cp :: 32 word)) = Some (4, drop_bit 18 cp)"
proof -
  note b = high_bits [OF assms]
  let ?l = "ucast (0xF0 OR drop_bit 18 cp :: 32 word) :: 8 word"
  have "?l AND 0xF8 = 0xF0"
    unfolding byte_bits bits8 using b by (simp add: bit_simps)
  moreover have "?l AND 0xE0 \<noteq> 0xC0" "?l AND 0xF0 \<noteq> 0xE0"
    unfolding byte_bits bits8 by (simp_all add: bit_simps)
  moreover have "(ucast (?l AND 0x07) :: 32 word) = drop_bit 18 cp"
    unfolding rune_bits bits32 using b by (simp add: bit_simps)
  ultimately show ?thesis by (simp add: utf8_lead_def)
qed

section \<open>UTF-8: the round trip\<close>

lemma rune_scalar_bound: "unat (rune_scalar r) < 2 ^ 21"
  by (simp add: rune_scalar_def word_less_nat_alt word_le_nat_alt linorder_not_less)

text \<open>What the encoder writes past ASCII: a lead byte, then six bits per byte.\<close>

lemma encode_shape:
  assumes "\<not> rune_scalar r \<le> 0x7F"
  shows "\<exists>lead conts top. goo_utf8_encode_rune r = lead # conts \<and> utf8_lead lead = Some (Suc (length conts), top)
    \<and> utf8_continue conts top = Some (rune_scalar r)"
proof -
  let ?cp = "rune_scalar r"
  note bound = rune_scalar_bound [of r]
  have d: "drop_bit 6 (drop_bit 12 ?cp) = drop_bit 18 ?cp" "drop_bit 6 (drop_bit 6 ?cp) = drop_bit 12 ?cp" by simp_all
  note c18 = utf8_continue_step [of "drop_bit 12 ?cp", unfolded d]
    and c12 = utf8_continue_step [of "drop_bit 6 ?cp", unfolded d]
    and c6 = utf8_continue_step [of ?cp]
  consider "?cp \<le> 0x7FF" | "\<not> ?cp \<le> 0x7FF" "?cp \<le> 0xFFFF" | "\<not> ?cp \<le> 0x7FF" "\<not> ?cp \<le> 0xFFFF" by blast
  then show ?thesis
  proof cases
    case 1
    then have "unat ?cp < 2 ^ 11" by (simp add: word_le_nat_alt)
    then show ?thesis
      using 1 assms lead_two c6 by (simp add: goo_utf8_encode_rune_def Let_def)
  next
    case 2
    then have "unat ?cp < 2 ^ 16" by (simp add: word_le_nat_alt)
    then show ?thesis
      using 2 assms lead_three c6 c12 by (simp add: goo_utf8_encode_rune_def Let_def)
  next
    case 3
    then show ?thesis
      using assms bound lead_four c6 c12 c18 by (simp add: goo_utf8_encode_rune_def Let_def)
  qed
qed

lemma decode_encoded:
  "goo_utf8_decode (pre @ goo_utf8_encode_rune r @ post) (length pre)
    = (rune_scalar r, length (goo_utf8_encode_rune r))"
proof (cases "rune_scalar r \<le> 0x7F")
  case True
  let ?cp = "rune_scalar r"
  have lt: "unat ?cp < 128" using True by (simp add: word_le_nat_alt)
  then have "unat (ucast ?cp :: 8 word) = unat ?cp" by (simp add: unsigned_ucast_eq unsigned_take_bit_eq take_bit_nat_eq_self)
  then have "(ucast ?cp :: 8 word) < 0x80" "(ucast (ucast ?cp :: 8 word) :: 32 word) = ?cp"
    using lt by (simp_all add: word_less_nat_alt word_unat_eq_iff unsigned_ucast_eq unsigned_take_bit_eq take_bit_nat_eq_self)
  then show ?thesis
    using True by (simp add: goo_utf8_decode_def goo_utf8_encode_rune_def Let_def)
next
  case False
  then obtain lead conts top where e: "goo_utf8_encode_rune r = lead # conts"
      "utf8_lead lead = Some (Suc (length conts), top)" "utf8_continue conts top = Some (rune_scalar r)"
    using encode_shape by blast
  then show ?thesis
    using utf8_lead_not_ascii [OF e(2)] by (simp add: goo_utf8_decode_def nth_append)
qed

lemma decode_width:
  assumes "i < length data"
  shows "1 \<le> snd (goo_utf8_decode data i) \<and> snd (goo_utf8_decode data i) \<le> 4
    \<and> i + snd (goo_utf8_decode data i) \<le> length data"
  using assms by (auto simp: goo_utf8_decode_def utf8_lead_def Let_def split: option.splits)

text \<open>The loop of a range over a string: decode at the offset, advance by the width.\<close>

function range_runes :: "bytes \<Rightarrow> nat \<Rightarrow> (32 word) list" where
  "range_runes data i = (if i < length data
     then fst (goo_utf8_decode data i) # range_runes data (i + snd (goo_utf8_decode data i)) else [])"
  by pat_completeness auto
termination
proof (relation "measure (\<lambda>(data, i). length data - i)", goal_cases)
  case (2 data i)
  then have "length data - (i + snd (goo_utf8_decode data i)) < length data - i"
    using decode_width [of i data] by linarith
  then show ?case by simp
qed simp

declare range_runes.simps [simp del]

lemma range_runes_encoded:
  "range_runes (pre @ concat (map goo_utf8_encode_rune rs)) (length pre) = map rune_scalar rs"
proof (induction rs arbitrary: pre)
  case Nil
  then show ?case by (simp add: range_runes.simps)
next
  case (Cons r rs)
  let ?e = "goo_utf8_encode_rune r" and ?rest = "concat (map goo_utf8_encode_rune rs)"
  have ne: "0 < length ?e" by (simp add: goo_utf8_encode_rune_def Let_def)
  show ?case
    using Cons.IH [of "pre @ ?e"] decode_encoded [of pre r ?rest] ne
    by (subst range_runes.simps) simp
qed

text \<open>
  C31. Ranging over a string made from runes gives the runes back, with the replacement
  character for the invalid ones, whatever the runes are and however many; every step of the
  loop, on any bytes, consumes between one and four bytes and stays inside the string.
\<close>

theorem utf8_roundtrip:
  "range_runes (concat (map goo_utf8_encode_rune rs)) 0 = map rune_scalar rs
    \<and> list_all (\<lambda>i. 1 \<le> snd (goo_utf8_decode data i) \<and> snd (goo_utf8_decode data i) \<le> 4
        \<and> i + snd (goo_utf8_decode data i) \<le> length data) [0..<length data]"
  using range_runes_encoded [of "[]" rs] decode_width [of _ data] by (simp add: list_all_iff)

section \<open>Strings\<close>

text \<open>A well-formed string: null with length 0, or data long enough for the length.\<close>

definition gs_ok :: "goo_string \<Rightarrow> bool" where
  "gs_ok s = (case gs_data s of None \<Rightarrow> gs_length s = 0 | Some d \<Rightarrow> gs_length s \<le> length d)"

lemma length_gs_bytes: "gs_ok s \<Longrightarrow> length (gs_bytes s) = gs_length s"
  by (auto simp: gs_ok_def gs_bytes_def split: option.splits)

lemma new_with_length_bytes:
  "len \<le> length d \<Longrightarrow> gs_bytes (goo_string_new_with_length (Some d) len) = take len d
    \<and> gs_ok (goo_string_new_with_length (Some d) len)"
  by (simp add: goo_string_new_with_length_def gs_bytes_def gs_ok_def null_string_def)

lemma takeWhile_no_nul: "0 \<notin> set d \<Longrightarrow> takeWhile (\<lambda>b. b \<noteq> 0) d = d"
  by (auto simp: takeWhile_eq_all_conv)

lemma string_new_bytes:
  "0 \<notin> set d \<Longrightarrow> gs_bytes (goo_string_new (Some d)) = d \<and> gs_ok (goo_string_new (Some d))"
  using new_with_length_bytes [of "length d" d] by (simp add: goo_string_new_def takeWhile_no_nul)

lemma concat_bytes:
  assumes "gs_ok a" and "gs_ok b"
  shows "gs_bytes (goo_string_concat a b) = gs_bytes a @ gs_bytes b \<and> gs_ok (goo_string_concat a b)"
  using assms by (auto simp: goo_string_concat_def goo_string_new_with_length_def null_string_def gs_bytes_def
      gs_ok_def split: option.splits)

text \<open>\<open>memcmp\<close> decides at the first difference.\<close>

definition byte_less :: "(8 word \<times> 8 word) set" where
  "byte_less = {(x, y). x < y}"

lemma memcmp_take: "memcmp xs ys n = memcmp (take n xs) (take n ys) n"
  by (induction xs ys n rule: memcmp.induct) auto

definition byte_cmp :: "bytes \<Rightarrow> bytes \<Rightarrow> int" where
  "byte_cmp xs ys = (let c = memcmp xs ys (min (length xs) (length ys)) in
     if c \<noteq> 0 then c else if length xs < length ys then - 1 else if length ys < length xs then 1 else 0)"

lemma byte_cmp_simps:
  "byte_cmp [] ys = (if ys = [] then 0 else - 1)"
  "byte_cmp (x # xs) [] = 1"
  "byte_cmp (x # xs) (y # ys) = (if x < y then - 1 else if y < x then 1 else byte_cmp xs ys)"
  by (simp_all add: byte_cmp_def)

lemma byte_cmp_lexord: "byte_cmp xs ys = (if (xs, ys) \<in> lexord byte_less then - 1 else if xs = ys then 0 else 1)"
proof (induction xs arbitrary: ys)
  case Nil
  then show ?case by (cases ys) (simp_all add: byte_cmp_simps)
next
  case (Cons x xs)
  then show ?case by (cases ys) (auto simp: byte_cmp_simps byte_less_def)
qed

lemma memcmp_range: "memcmp x y n = - 1 \<or> memcmp x y n = 0 \<or> memcmp x y n = 1"
  by (induction x y n rule: memcmp.induct) auto

lemma memcmp_zero [simp]: "memcmp x y 0 = 0"
  by (cases x; cases y) auto

lemma string_cmp_bytes:
  assumes "gs_ok a" and "gs_ok b"
  shows "goo_string_cmp a b = byte_cmp (gs_bytes a) (gs_bytes b)"
proof -
  let ?n = "min (gs_length a) (gs_length b)"
  define c where "c = (case (gs_data a, gs_data b) of (Some x, Some y) \<Rightarrow> memcmp x y ?n | _ \<Rightarrow> 0)"
  have "memcmp (gs_bytes a) (gs_bytes b) ?n = c"
  proof (cases "gs_data a"; cases "gs_data b")
    fix x y assume "gs_data a = Some x" "gs_data b = Some y"
    then show ?thesis
      using memcmp_take [of "gs_bytes a" "gs_bytes b" ?n] memcmp_take [of x y ?n]
      by (simp add: c_def gs_bytes_def min.commute)
  qed (use assms in \<open>simp_all add: c_def gs_ok_def\<close>)
  moreover have "c = - 1 \<or> c = 0 \<or> c = 1"
    using memcmp_range by (simp add: c_def split: option.splits)
  moreover have "goo_string_cmp a b = (if c \<noteq> 0 then (if c < 0 then - 1 else 1)
      else if gs_length a < gs_length b then - 1 else if gs_length b < gs_length a then 1 else 0)"
    by (simp add: goo_string_cmp_def c_def Let_def min_def split: option.splits)
  ultimately show ?thesis
    using length_gs_bytes [OF assms(1)] length_gs_bytes [OF assms(2)] by (auto simp: byte_cmp_def Let_def)
qed

lemma memcmp_eq: "length x \<ge> n \<Longrightarrow> length y \<ge> n \<Longrightarrow> memcmp x y n = 0 \<longleftrightarrow> take n x = take n y"
  by (induction x y n rule: memcmp.induct) auto

lemma string_eq_bytes:
  assumes "gs_ok a" and "gs_ok b"
  shows "goo_string_eq a b \<longleftrightarrow> gs_bytes a = gs_bytes b"
proof (cases "gs_length a = gs_length b")
  case True
  then show ?thesis
    using assms memcmp_eq by (auto simp: goo_string_eq_def gs_ok_def gs_bytes_def split: option.splits)
next
  case False
  then show ?thesis
    using length_gs_bytes [OF assms(1)] length_gs_bytes [OF assms(2)] by (auto simp: goo_string_eq_def)
qed

text \<open>
  String comparison is the lexicographic order of the byte contents: \<open>goo_string_cmp\<close> is -1, 0
  or 1 as the first string is smaller, equal or greater, \<open>goo_string_eq\<close> holds exactly when it is
  0, and concatenation appends the contents.
\<close>

theorem string_compare_lexicographic:
  assumes "gs_ok a" and "gs_ok b"
  shows "goo_string_cmp a b = (if (gs_bytes a, gs_bytes b) \<in> lexord byte_less then - 1
      else if gs_bytes a = gs_bytes b then 0 else 1)
    \<and> (goo_string_eq a b \<longleftrightarrow> goo_string_cmp a b = 0)
    \<and> gs_bytes (goo_string_concat a b) = gs_bytes a @ gs_bytes b \<and> gs_ok (goo_string_concat a b)"
proof -
  have "(gs_bytes b, gs_bytes b) \<notin> lexord byte_less"
    by (rule lexord_irreflexive) (simp add: byte_less_def)
  then show ?thesis
    using string_cmp_bytes [OF assms] string_eq_bytes [OF assms] concat_bytes [OF assms]
    by (auto simp: byte_cmp_lexord)
qed

theorem string_compare_lexicographic_witness:
  "goo_string_cmp (goo_string_new (Some [1, 2])) (goo_string_new (Some [1, 2, 3])) = - 1
    \<and> gs_bytes (goo_string_concat (goo_string_new (Some [1, 2])) (goo_string_new (Some [3]))) = [1, 2, 3]"
proof -
  have ok: "gs_ok (goo_string_new (Some [1, 2]))" "gs_ok (goo_string_new (Some [1, 2, 3]))" "gs_ok (goo_string_new (Some [3]))"
    "gs_bytes (goo_string_new (Some [1, 2])) = [1, 2]" "gs_bytes (goo_string_new (Some [1, 2, 3])) = [1, 2, 3]"
    "gs_bytes (goo_string_new (Some [3])) = [3]"
    using string_new_bytes [of "[1, 2]"] string_new_bytes [of "[1, 2, 3]"] string_new_bytes [of "[3]"] by simp_all
  show ?thesis
    using string_compare_lexicographic [OF ok(1,2)] string_compare_lexicographic [OF ok(1,3)] ok
    by (simp add: byte_less_def)
qed

section \<open>Numbers\<close>

lemma length_bytes_of [simp]: "length (bytes_of s) = length s"
  by (simp add: bytes_of_def)

lemma uint_byte: "n < 256 \<Longrightarrow> uint (word_of_nat n :: 8 word) = int n"
  by (simp add: unsigned_of_nat take_bit_nat_eq_self)

lemma digit_byte:
  assumes "d < 10"
  shows "char_code (digit_char d) = 48 + d"
  using assms by (simp add: char_code_def digit_char_def)

abbreviation dec_fold :: "int \<Rightarrow> bytes \<Rightarrow> int" where
  "dec_fold acc ds \<equiv> foldl (\<lambda>n d. 10 * n + (uint d - 48)) acc ds"

lemma dec_digits:
  "list_all isdigit (bytes_of (nat_to_dec n)) \<and> dec_fold 0 (bytes_of (nat_to_dec n)) = int n"
proof (induction n rule: nat_to_dec.induct)
  case (1 n)
  have dig: "isdigit (word_of_nat (48 + d)) \<and> uint (word_of_nat (48 + d) :: 8 word) = 48 + int d" if "d < 10" for d
    using that uint_byte [of "48 + d"] by (simp add: isdigit_def word_le_def)
  show ?case
  proof (cases "n < 10")
    case True
    then show ?thesis
      using dig [of n] digit_byte [of n] by (subst (1 2) nat_to_dec.simps) (simp add: bytes_of_def)
  next
    case False
    have "int n = 10 * int (n div 10) + int (n mod 10)" using mult_div_mod_eq [of 10 n] by linarith
    then show ?thesis
      using False 1 dig [of "n mod 10"] digit_byte [of "n mod 10"]
      by (subst (1 2) nat_to_dec.simps) (simp add: bytes_of_def)
  qed
qed

lemma digits_all:
  assumes "list_all isdigit ds"
  shows "takeWhile isdigit ds = ds" and "dropWhile isdigit ds = []"
  using assms by (simp_all add: takeWhile_eq_all_conv list_all_iff)

lemma digit_not_special: "isdigit b \<Longrightarrow> \<not> isspace b \<and> b \<noteq> 0x2D \<and> b \<noteq> 0x2B \<and> b \<noteq> 0"
  by (auto simp: isdigit_def isspace_def word_le_def)

lemma strtoll_dec:
  assumes "- (2 ^ 63) \<le> x" and "x < 2 ^ 63"
  shows "strtoll (bytes_of (int_to_dec x)) = Parsed x []"
proof -
  define ds where "ds = bytes_of (nat_to_dec (nat \<bar>x\<bar>))"
  have ds: "list_all isdigit ds" "dec_fold 0 ds = \<bar>x\<bar>" using dec_digits [of "nat \<bar>x\<bar>"] by (simp_all add: ds_def)
  have ne: "ds \<noteq> []" by (simp add: ds_def bytes_of_def)
  then obtain d ds' where d: "ds = d # ds'" by (cases ds) auto
  then have sp: "\<not> isspace d" "d \<noteq> 0x2D" "d \<noteq> 0x2B" using ds(1) digit_not_special [of d] by simp_all
  have dash: "\<not> isspace 0x2D" by (simp add: isspace_def)
  have shown: "bytes_of (int_to_dec x) = (if x < 0 then 0x2D # ds else ds)"
    by (simp add: int_to_dec_def ds_def bytes_of_def char_code_def)
  show ?thesis
  proof (cases "x < 0")
    case True
    then show ?thesis
      unfolding shown strtoll_def using ds(2) ne dash assms by (simp add: Let_def digits_all [OF ds(1)])
  next
    case False
    have "dropWhile isspace ds = ds"
      and "(case ds of c # cs \<Rightarrow> if c = 0x2D then (True, cs) else if c = 0x2B then (False, cs) else (False, ds)
            | [] \<Rightarrow> (False, [])) = (False, ds)" using d sp by simp_all
    then show ?thesis
      unfolding shown strtoll_def using False ds(2) ne assms by (simp add: Let_def digits_all [OF ds(1)])
  qed
qed

lemma int_to_dec_length:
  assumes "- (2 ^ 63) \<le> x" and "x < 2 ^ 63"
  shows "length (int_to_dec x) < 32"
proof -
  have "nat x < 10 ^ 20" "nat (- x) < 10 ^ 20" using assms by simp_all
  then have "length (nat_to_dec (nat x)) \<le> 20" "length (nat_to_dec (nat (- x))) \<le> 20"
    by (simp_all only: nat_to_dec_bound zero_less_numeral)
  then show ?thesis by (simp add: int_to_dec_def)
qed

lemma int_to_dec_no_nul: "0 \<notin> set (bytes_of (int_to_dec x))"
proof -
  have "b \<noteq> 0" if "b \<in> set (bytes_of (nat_to_dec n))" for b n
    using that dec_digits [of n] digit_not_special [of b] by (auto simp: list_all_iff)
  then show ?thesis by (auto simp: int_to_dec_def bytes_of_def char_code_def)
qed

text \<open>
  Every 64-bit integer survives printing and parsing: \<open>goo_int_to_string\<close> never overflows its
  buffer, and \<open>goo_string_to_int\<close> reads the number back.
\<close>

theorem int_string_roundtrip:
  "\<exists>s. goo_int_to_string v = Some s \<and> gs_length s < 32 \<and> goo_string_to_int s = Some v"
proof -
  let ?buf = "bytes_of (int_to_dec (sint v))"
  have rng: "- (2 ^ 63) \<le> sint v" "sint v < 2 ^ 63" using sint_greater_eq [of v] sint_less [of v] by simp_all
  note len = int_to_dec_length [OF rng]
  have "int_to_dec (sint v) \<noteq> []" by (simp add: int_to_dec_def)
  then have "goo_string_to_int \<lparr> gs_data = Some (?buf @ [0]), gs_length = length ?buf \<rparr> = Some v"
    using len strtoll_dec [OF rng] by (simp add: goo_string_to_int_def gs_bytes_def int_to_dec_no_nul takeWhile_no_nul)
  then show ?thesis using len by (simp add: goo_int_to_string_def Let_def)
qed

text \<open>
  The parser stops at an embedded NUL: a string with a NUL byte after the digits is accepted,
  whatever follows it.
\<close>

lemma string_to_int_embedded_nul:
  "goo_string_to_int \<lparr> gs_data = Some [0x31, 0x32, 0, 0x78, 0], gs_length = 4 \<rparr> = Some 12"
  by (simp add: goo_string_to_int_def gs_bytes_def strtoll_def isspace_def isdigit_def)

section \<open>Splitting and joining\<close>

lemma strstr_split: "strstr s sep = Some p \<Longrightarrow> s = take p s @ sep @ drop (p + length sep) s"
  using strstr_Some [of s sep p] by (metis append_take_drop_id drop_drop add.commute)

lemma strstr_None: "strstr s sep = None \<Longrightarrow> s \<noteq> u @ sep @ v"
proof (induction s arbitrary: u)
  case Nil
  then show ?case by (auto simp: strstr_Nil split: if_splits)
next
  case (Cons x xs)
  then have n: "\<not> starts_with (x # xs) sep" "strstr xs sep = None" by (auto simp: strstr_Cons split: if_splits)
  show ?case
  proof (cases u)
    case Nil
    then show ?thesis using n(1) by (auto simp: starts_with_iff)
  next
    case (Cons y ys)
    then show ?thesis using Cons.IH [OF n(2)] by auto
  qed
qed

text \<open>Before the first occurrence the separator does not occur.\<close>

lemma strstr_first: "strstr s sep = Some p \<Longrightarrow> sep \<noteq> [] \<Longrightarrow> take p s \<noteq> u @ sep @ v"
proof (induction s arbitrary: p u)
  case Nil
  then show ?case by (simp add: strstr_Nil)
next
  case (Cons x xs)
  show ?case
  proof (cases "starts_with (x # xs) sep")
    case True
    then show ?thesis using Cons.prems by (auto simp: strstr_Cons)
  next
    case False
    then obtain q where q: "strstr xs sep = Some q" "p = Suc q" using Cons.prems by (auto simp: strstr_Cons)
    show ?thesis
    proof
      assume eq: "take p (x # xs) = u @ sep @ v"
      show False
      proof (cases u)
        case Nil
        then have "x # xs = sep @ (v @ drop q xs)"
          using eq q(2) append_take_drop_id [of q xs] by (metis append.assoc append_Cons append_Nil take_Suc_Cons)
        then show False using False by (auto simp: starts_with_iff)
      next
        case (Cons y ys)
        then show False using eq q Cons.IH [OF q(1) Cons.prems(2), of ys] by simp
      qed
    qed
  qed
qed

text \<open>The parts as byte lists: the reference the two loops and the join are compared with.\<close>

lemma split_parts_ok:
  "sep \<noteq> [] \<Longrightarrow> 0 \<notin> set s \<Longrightarrow>
    length (split_parts s sep) = split_count s sep \<and> list_all gs_ok (split_parts s sep)
    \<and> join_write (split_parts s sep) sep = s
    \<and> list_all (\<lambda>e. \<forall>u v. gs_bytes e \<noteq> u @ sep @ v) (split_parts s sep)"
proof (induction s sep rule: split_parts.induct)
  case (1 s sep)
  show ?case
  proof (cases "strstr s sep")
    case None
    then show ?thesis
      using "1.prems" string_new_bytes [of s] strstr_None [OF None]
      by (simp add: split_parts.simps [of s] split_count.simps [of s])
  next
    case (Some p)
    let ?t = "drop (p + length sep) s"
    have ih: "length (split_parts ?t sep) = split_count ?t sep \<and> list_all gs_ok (split_parts ?t sep)
        \<and> join_write (split_parts ?t sep) sep = ?t
        \<and> list_all (\<lambda>e. \<forall>u v. gs_bytes e \<noteq> u @ sep @ v) (split_parts ?t sep)"
      using "1.IH" [OF _ Some] "1.prems" by (auto dest: in_set_dropD)
    have ne: "split_parts ?t sep \<noteq> []" by (subst split_parts.simps) (simp split: option.splits)
    have p: "p \<le> length s" using strstr_Some [OF Some] by simp
    obtain e es where e: "split_parts ?t sep = e # es" using ne by (cases "split_parts ?t sep") auto
    have head: "gs_bytes (goo_string_new_with_length (Some s) p) = take p s" "gs_ok (goo_string_new_with_length (Some s) p)"
      using new_with_length_bytes [OF p] by simp_all
    have "join_write (goo_string_new_with_length (Some s) p # split_parts ?t sep) sep = s"
      using ih e head(1) strstr_split [OF Some] by simp
    then show ?thesis
      using ih head Some "1.prems" strstr_first [OF Some "1.prems"(1)]
      by (simp add: split_parts.simps [of s] split_count.simps [of s])
  qed
qed

lemma join_write_length:
  "list_all gs_ok es \<Longrightarrow> es \<noteq> [] \<Longrightarrow>
    length (join_write es sep) = sum_list (map gs_length es) + length sep * (length es - 1)"
  by (induction es sep rule: join_write.induct) (auto simp: length_gs_bytes)

text \<open>
  C32. Joining what a split returned gives the text back: with a non-empty separator, the array
  sized by the counting loop receives exactly the parts the second loop writes, no part contains
  the separator, and \<open>goo_strings_join\<close> with the same separator fills its buffer exactly and
  returns the original bytes.
\<close>

theorem split_join_roundtrip:
  assumes "sep \<noteq> []" and "0 \<notin> set s"
  shows "(case goo_strings_split (Some s) (Some sep) of parts \<Rightarrow>
     length (ss_elems parts) = ss_length parts \<and> ss_length parts = ss_capacity parts
     \<and> list_all (\<lambda>e. \<forall>u v. gs_bytes e \<noteq> u @ sep @ v) (ss_elems parts)
     \<and> gs_bytes (goo_strings_join (Some parts) (Some sep)) = s
     \<and> gs_length (goo_strings_join (Some parts) (Some sep)) = length s)"
proof -
  note ok = split_parts_ok [OF assms]
  have ne: "split_parts s sep \<noteq> []" by (subst split_parts.simps) (simp split: option.splits)
  then have pos: "split_count s sep \<noteq> 0" using ok by (metis length_0_conv)
  have "sum_list (map gs_length (split_parts s sep)) + length sep * (split_count s sep - 1) = length s"
    using join_write_length [of "split_parts s sep" sep] ok ne by simp
  then show ?thesis
    using ok assms(1) pos by (simp add: goo_strings_split_def goo_strings_join_def gs_bytes_def Let_def)
qed

theorem split_join_roundtrip_witness:
  "gs_bytes (goo_strings_join (Some (goo_strings_split (Some [7, 1, 2, 1, 9]) (Some [1]))) (Some [1])) = [7, 1, 2, 1, 9]"
  using split_join_roundtrip [of "[1]" "[7, 1, 2, 1, 9]"] by (simp add: Let_def)

end
