(* ===== verification/Slices.thy ===== *)
theory Slices
  imports Memory "HOL-Library.While_Combinator"
begin

text \<open>
  The slice half of \<open>src/runtime/runtime.c\<close> on the object store of \<^theory_text>\<open>Memory\<close>: growth,
  append, bulk append, copy and the bounds checks. Lengths and capacities are machine words. A
  location is a payload pointer with a byte offset; a read or write outside the payload, or
  through a pointer to a freed object, is \<open>Stuck\<close>. The loop that doubles the capacity may not end:
  \<open>None\<close>.
\<close>

section \<open>Bytes in objects\<close>

definition read_bytes :: "store \<Rightarrow> ptr \<Rightarrow> nat \<Rightarrow> nat \<Rightarrow> (8 word list) run" where
  "read_bytes st p off n = (case p of
     ObjPtr i \<Rightarrow> (case st_objs st i of None \<Rightarrow> Stuck | Some ob \<Rightarrow>
       if off + n \<le> length (ob_payload ob) then Ok (take n (drop off (ob_payload ob))) else Stuck)
   | _ \<Rightarrow> if n = 0 then Ok [] else Stuck)"

definition write_bytes :: "store \<Rightarrow> ptr \<Rightarrow> nat \<Rightarrow> 8 word list \<Rightarrow> store run" where
  "write_bytes st p off bs = (case p of
     ObjPtr i \<Rightarrow> (case st_objs st i of None \<Rightarrow> Stuck | Some ob \<Rightarrow>
       if off + length bs \<le> length (ob_payload ob)
       then Ok (st\<lparr>st_objs := (st_objs st)(i \<mapsto> ob\<lparr>ob_payload :=
              take off (ob_payload ob) @ bs @ drop (off + length bs) (ob_payload ob)\<rparr>)\<rparr>)
       else Stuck)
   | _ \<Rightarrow> if bs = [] then Ok st else Stuck)"

definition run_bind :: "'a run \<Rightarrow> ('a \<Rightarrow> 'b run) \<Rightarrow> 'b run" where
  "run_bind m f = (case m of Ok x \<Rightarrow> f x | Panicked msg \<Rightarrow> Panicked msg | Stuck \<Rightarrow> Stuck)"

lemma run_bind_simps [simp]:
  "run_bind (Ok x) f = f x" "run_bind (Panicked msg) f = Panicked msg" "run_bind Stuck f = Stuck"
  by (simp_all add: run_bind_def)

section \<open>Allocation and access\<close>

record goo_slice =
  sl_data :: ptr
  sl_length :: "64 word"
  sl_capacity :: "64 word"

definition goo_slice_alloc :: "store \<Rightarrow> 64 word \<Rightarrow> 64 word \<Rightarrow> (ptr \<times> store) run" where
  "goo_slice_alloc st count elem_size =
     (if sint count > 0 \<and> sint elem_size > 0 \<and> unat count > SIZE_MAX div unat elem_size
      then Panicked ''Out of memory''
      else
        (let bytes = (if sint count > 0 \<and> sint elem_size > 0 then unat (count * elem_size) else 1) in
         run_bind (goo_alloc st bytes) (\<lambda>(p, st1).
         run_bind (write_bytes st1 p 0 (replicate bytes 0)) (\<lambda>st2. Ok (p, st2)))))"

definition goo_slice_new :: "store \<Rightarrow> 64 word \<Rightarrow> 64 word \<Rightarrow> (goo_slice \<times> store) run" where
  "goo_slice_new st element_size capacity =
     (if capacity = 0 \<or> element_size = 0 then Ok (\<lparr> sl_data = NullPtr, sl_length = 0, sl_capacity = 0 \<rparr>, st)
      else run_bind (goo_alloc st (unat (element_size * capacity)))
        (\<lambda>(p, st1). Ok (\<lparr> sl_data = p, sl_length = 0, sl_capacity = capacity \<rparr>, st1)))"

definition goo_slice_free :: "store \<Rightarrow> goo_slice \<Rightarrow> store run" where
  "goo_slice_free st sl = (if sl_data sl = NullPtr then Ok st else goo_free st (sl_data sl))"

definition goo_slice_get :: "goo_slice \<Rightarrow> 64 word \<Rightarrow> 64 word \<Rightarrow> (ptr \<times> nat) run" where
  "goo_slice_get sl index element_size =
     (if sl_data sl = NullPtr then Panicked ''slice access on null slice''
      else if index \<ge> sl_length sl then Panicked ''slice index out of bounds''
      else Ok (sl_data sl, unat (index * element_size)))"

section \<open>Growing\<close>

definition goo_slice_grow_capacity :: "64 word \<Rightarrow> 64 word \<Rightarrow> 64 word option" where
  "goo_slice_grow_capacity capacity need =
     (let new_capacity = capacity * 2 in
      while_option (\<lambda>c. c < need) (\<lambda>c. c * 2) (if new_capacity = 0 then 1 else new_capacity))"

text \<open>The part of both appends that makes room: the grown header, or \<open>None\<close> when \<open>goo_realloc\<close> returns null.\<close>

definition slice_reserve ::
  "store \<Rightarrow> goo_slice \<Rightarrow> 64 word \<Rightarrow> 64 word \<Rightarrow> (goo_slice option \<times> store) run option" where
  "slice_reserve st sl need element_size = (case goo_slice_grow_capacity (sl_capacity sl) need of
     None \<Rightarrow> None
   | Some new_capacity \<Rightarrow> Some (run_bind (goo_realloc st (sl_data sl) (unat (new_capacity * element_size)))
       (\<lambda>(p, st1). Ok (if p = NullPtr then None else Some (sl\<lparr>sl_data := p, sl_capacity := new_capacity\<rparr>), st1))))"

definition slice_store ::
  "store \<Rightarrow> goo_slice \<Rightarrow> 8 word list \<Rightarrow> 64 word \<Rightarrow> 64 word \<Rightarrow> (goo_slice \<times> store) run" where
  "slice_store st sl bs count element_size =
     run_bind (write_bytes st (sl_data sl) (unat (sl_length sl * element_size)) bs)
       (\<lambda>st1. Ok (sl\<lparr>sl_length := sl_length sl + count\<rparr>, st1))"

text \<open>\<open>element\<close> is the memory at the element pointer; the result is the status, the header and the store.\<close>

definition goo_slice_append ::
  "store \<Rightarrow> goo_slice option \<Rightarrow> 8 word list option \<Rightarrow> 64 word \<Rightarrow> (bool \<times> goo_slice option \<times> store) run option" where
  "goo_slice_append st target element element_size = (case (target, element) of
     (Some sl, Some el) \<Rightarrow>
       (let put = (\<lambda>(sl, st). run_bind (slice_store st sl (take (unat element_size) el) 1 element_size)
              (\<lambda>(sl', st'). Ok (True, Some sl', st'))) in
        if sl_length sl \<ge> sl_capacity sl then
          map_option (\<lambda>r. run_bind r (\<lambda>(grown, st1). case grown of
              None \<Rightarrow> Ok (False, target, st1) | Some sl1 \<Rightarrow> put (sl1, st1)))
            (slice_reserve st sl (sl_length sl + 1) element_size)
        else Some (put (sl, st)))
   | _ \<Rightarrow> Some (Ok (False, target, st)))"

definition goo_slice_copy_raw ::
  "store \<Rightarrow> ptr \<times> nat \<Rightarrow> 64 word \<Rightarrow> ptr \<times> nat \<Rightarrow> 64 word \<Rightarrow> 64 word \<Rightarrow> (64 word \<times> store) run" where
  "goo_slice_copy_raw st dst dst_len src src_len elem_size =
     (let n = (if dst_len <s src_len then dst_len else src_len) in
      if n \<le>s 0 \<or> elem_size \<le>s 0 then Ok (0, st)
      else run_bind (read_bytes st (fst src) (snd src) (unat (n * elem_size)))
        (\<lambda>bs. run_bind (write_bytes st (fst dst) (snd dst) bs) (\<lambda>st1. Ok (n, st1))))"

definition goo_slice_append_bulk ::
  "store \<Rightarrow> goo_slice option \<Rightarrow> (ptr \<times> nat) option \<Rightarrow> 64 word \<Rightarrow> 64 word \<Rightarrow> (goo_slice option \<times> store) run option" where
  "goo_slice_append_bulk st dst src src_len elem_size = (case (dst, src) of
     (Some sl, Some (sp, soff)) \<Rightarrow>
       if src_len \<le>s 0 \<or> elem_size \<le>s 0 then Some (Ok (dst, st))
       else
         (let bytes = unat (src_len * elem_size);
              need = sl_length sl + src_len in
          case run_bind (goo_alloc st bytes) (\<lambda>(snap, st1).
               run_bind (read_bytes st1 sp soff bytes) (\<lambda>bs.
               run_bind (write_bytes st1 snap 0 bs) (\<lambda>st2. Ok (snap, st2)))) of
            Panicked m \<Rightarrow> Some (Panicked m)
          | Stuck \<Rightarrow> Some Stuck
          | Ok (snap, st2) \<Rightarrow>
              (let put = (\<lambda>(sl, st). run_bind (read_bytes st snap 0 bytes) (\<lambda>bs.
                     run_bind (slice_store st sl bs src_len elem_size) (\<lambda>(sl', st').
                     run_bind (goo_free st' snap) (\<lambda>st''. Ok (Some sl', st''))))) in
               if need > sl_capacity sl then
                 map_option (\<lambda>r. run_bind r (\<lambda>(grown, st3). case grown of
                     None \<Rightarrow> run_bind (goo_free st3 snap) (\<lambda>st4. Ok (dst, st4))
                   | Some sl1 \<Rightarrow> put (sl1, st3)))
                   (slice_reserve st2 sl need elem_size)
               else Some (put (sl, st2))))
   | _ \<Rightarrow> Some (Ok (dst, st)))"

section \<open>Bounds checks\<close>

definition goo_bounds_check :: "64 word \<Rightarrow> 64 word \<Rightarrow> unit run" where
  "goo_bounds_check index len = (if index \<ge> len then Panicked ''bounds check failed'' else Ok ())"

definition goo_slice_bounds_check :: "64 word \<Rightarrow> 64 word \<Rightarrow> 64 word \<Rightarrow> unit run" where
  "goo_slice_bounds_check low high limit =
     (if low <s 0 \<or> high <s low \<or> limit <s high then Panicked ''slice bounds out of range'' else Ok ())"

section \<open>The capacity loop\<close>

lemma unat_double: "unat (c :: 64 word) < 2 ^ 63 \<Longrightarrow> unat (c * 2) = 2 * unat c"
  using unat_mult_lem [of c 2] by simp

lemma grow_capacity_ok:
  assumes "0 < need" and "unat need \<le> 2 ^ 63" and "unat cap < 2 ^ 63"
  shows "\<exists>c. goo_slice_grow_capacity cap need = Some c \<and> need \<le> c \<and> unat c \<le> 2 * max (unat cap) (unat need)"
proof -
  define c0 where "c0 = (if cap * 2 = 0 then 1 else cap * 2)"
  define P where "P c \<longleftrightarrow> 0 < unat c \<and> unat c \<le> 2 * max (unat cap) (unat need)" for c :: "64 word"
  have need: "0 < unat need" using assms(1) by (simp add: word_less_nat_alt)
  have "unat (cap * 2) = 2 * unat cap" by (rule unat_double [OF assms(3)])
  then have "unat c0 \<le> 2 * max (unat cap) (unat need)" using need by (auto simp: c0_def max_def)
  moreover have "c0 \<noteq> 0" by (simp add: c0_def)
  ultimately have P0: "P c0" by (simp add: P_def unat_gt_0)
  have step: "P (c * 2) \<and> unat need - unat (c * 2) < unat need - unat c" if "P c" "c < need" for c
  proof -
    have lt: "unat c < unat need" using that(2) by (simp add: word_less_nat_alt)
    then have "unat (c * 2) = 2 * unat c" using assms(2) by (intro unat_double) simp
    then show ?thesis using that(1) lt by (auto simp: P_def)
  qed
  have "\<exists>c. while_option (\<lambda>c. c < need) (\<lambda>c. c * 2) c0 = Some c"
    by (rule measure_while_option_Some [where P = P and f = "\<lambda>c. unat need - unat c"]) (use step P0 in auto)
  then obtain c where c: "while_option (\<lambda>c. c < need) (\<lambda>c. c * 2) c0 = Some c" by blast
  have "P c" by (rule while_option_rule [where P = P, OF _ c P0]) (use step in blast)
  moreover have "need \<le> c" using while_option_stop [OF c] by simp
  ultimately show ?thesis using c by (simp add: goo_slice_grow_capacity_def P_def c0_def Let_def)
qed

lemma power_of_two_small: "(2 :: 64 word) ^ k \<le> 2 ^ 63"
proof (cases "k < 64")
  case True
  then have le: "(2 :: nat) ^ k \<le> 2 ^ 63" by (intro power_increasing) auto
  then have "unat ((2 :: 64 word) ^ k) = 2 ^ k" using unat_of_nat_small [of "2 ^ k"] by simp
  then show ?thesis using le by (simp add: word_le_nat_alt)
next
  case False
  then have "(2 :: 64 word) ^ k = 0" by (simp add: exp_eq_zero_iff)
  then show ?thesis by (metis word_zero_le)
qed

text \<open>
  The capacity loop ends with a capacity that covers the need and at most doubles it, as long
  as the need is at most \<open>2 ^ 63\<close>; beyond that, from a capacity that is zero or a power of two, the
  doubling wraps to zero and the loop never ends.
\<close>

theorem grow_capacity_terminates:
  assumes "0 < need" and "unat cap < 2 ^ 63"
  shows "(unat need \<le> 2 ^ 63 \<longrightarrow> (\<exists>c. goo_slice_grow_capacity cap need = Some c \<and> need \<le> c
        \<and> unat c \<le> 2 * max (unat cap) (unat need)))
    \<and> (2 ^ 63 < unat need \<and> (cap = 0 \<or> (\<exists>k. cap = 2 ^ k)) \<longrightarrow> goo_slice_grow_capacity cap need = None)"
proof -
  have "goo_slice_grow_capacity cap need = None" if big: "2 ^ 63 < unat need" and cap: "cap = 0 \<or> (\<exists>k. cap = 2 ^ k)"
  proof (rule ccontr)
    define c0 where "c0 = (if cap * 2 = 0 then 1 else cap * 2)"
    assume "goo_slice_grow_capacity cap need \<noteq> None"
    then obtain c where c: "while_option (\<lambda>c. c < need) (\<lambda>c. c * 2) c0 = Some c"
      by (auto simp: goo_slice_grow_capacity_def c0_def Let_def)
    have "\<exists>k. c0 = 2 ^ k"
    proof (cases "cap * 2 = 0")
      case True
      then show ?thesis by (auto simp: c0_def intro: exI [of _ 0])
    next
      case False
      then obtain k where "cap = 2 ^ k" using cap by auto
      then show ?thesis using False by (auto simp: c0_def intro: exI [of _ "Suc k"])
    qed
    then have "\<exists>k. c = 2 ^ k"
      by (rule while_option_rule [OF _ c, rotated]) (metis power_Suc2)
    then have "unat c \<le> 2 ^ 63" using power_of_two_small by (auto simp: word_le_nat_alt)
    moreover have "need \<le> c" using while_option_stop [OF c] by simp
    ultimately show False using big by (simp add: word_le_nat_alt)
  qed
  moreover have "\<exists>c. goo_slice_grow_capacity cap need = Some c \<and> need \<le> c
      \<and> unat c \<le> 2 * max (unat cap) (unat need)" if "unat need \<le> 2 ^ 63"
    using grow_capacity_ok assms that by blast
  ultimately show ?thesis by simp
qed

theorem grow_capacity_terminates_witness:
  "(\<exists>c. goo_slice_grow_capacity 4 5 = Some c \<and> 5 \<le> c \<and> unat c \<le> 10) \<and> goo_slice_grow_capacity 0 (2 ^ 63 + 1) = None"
  using grow_capacity_terminates [of 5 4] grow_capacity_terminates [of "2 ^ 63 + 1" 0] by simp

section \<open>Appending\<close>

text \<open>Object numbers from \<open>st_next\<close> on are unused.\<close>

definition store_ok :: "store \<Rightarrow> bool" where
  "store_ok st = (\<forall>i \<ge> st_next st. st_objs st i = None)"

text \<open>A well-formed header: the length is within the capacity, and the capacity within the object.\<close>

definition slice_ok :: "store \<Rightarrow> goo_slice \<Rightarrow> 64 word \<Rightarrow> bool" where
  "slice_ok st sl sz = (0 < sz \<and> sl_length sl \<le> sl_capacity sl \<and> (case sl_data sl of
     ObjPtr i \<Rightarrow> (\<exists>ob. st_objs st i = Some ob \<and> unat (sl_capacity sl) * unat sz \<le> length (ob_payload ob))
   | _ \<Rightarrow> sl_capacity sl = 0))"

definition slice_bytes :: "store \<Rightarrow> goo_slice \<Rightarrow> 64 word \<Rightarrow> 8 word list" where
  "slice_bytes st sl sz = (case sl_data sl of
     ObjPtr i \<Rightarrow> (case st_objs st i of Some ob \<Rightarrow> take (unat (sl_length sl) * unat sz) (ob_payload ob) | None \<Rightarrow> [])
   | _ \<Rightarrow> [])"

definition frame_ok :: "store \<Rightarrow> goo_slice \<Rightarrow> store \<Rightarrow> bool" where
  "frame_ok st sl st' = (\<forall>j < st_next st. ObjPtr j \<noteq> sl_data sl \<longrightarrow> st_objs st' j = st_objs st j)"

lemma length_resize: "length (resize junk n xs) = n"
  by (simp add: resize_def)

lemma take_resize: "k \<le> n \<Longrightarrow> k \<le> length xs \<Longrightarrow> take k (resize junk n xs) = take k xs"
  by (simp add: resize_def min_def)

lemma slice_ok_bounds:
  assumes "slice_ok st sl sz"
  shows "unat (sl_length sl) * unat sz \<le> unat (sl_capacity sl) * unat sz" and "0 < unat sz"
  using assms by (simp_all add: slice_ok_def word_le_nat_alt word_less_nat_alt)

lemma realloc_ok:
  assumes "store_ok st" and "slice_ok st sl sz" and "0 < n" and "n \<le> 2 ^ 63"
    and "unat (sl_length sl) * unat sz \<le> n" and "unat cap * unat sz = n" and "sl_length sl \<le> cap"
  shows "\<exists>st1. goo_realloc st (sl_data sl) n = Ok (ObjPtr (st_next st), st1) \<and> store_ok st1
    \<and> slice_ok st1 (sl\<lparr>sl_data := ObjPtr (st_next st), sl_capacity := cap\<rparr>) sz
    \<and> slice_bytes st1 (sl\<lparr>sl_data := ObjPtr (st_next st), sl_capacity := cap\<rparr>) sz = slice_bytes st sl sz
    \<and> frame_ok st sl st1 \<and> st_next st1 = Suc (st_next st)
    \<and> (\<forall>i. sl_data sl = ObjPtr i \<longrightarrow> st_objs st1 i = None)"
proof -
  have n: "\<not> SIZE_MAX - GOO_OBJ_HEADER_SIZE < n" using assms(4) by simp
  show ?thesis
  proof (cases "sl_data sl")
    case (ObjPtr i)
    obtain ob where ob: "st_objs st i = Some ob" "unat (sl_capacity sl) * unat sz \<le> length (ob_payload ob)"
      using assms(2) ObjPtr by (auto simp: slice_ok_def)
    have i: "i < st_next st" using assms(1) ob(1) by (force simp: store_ok_def not_less [symmetric])
    have "unat (sl_length sl) * unat sz \<le> length (ob_payload ob)"
      by (rule le_trans [OF slice_ok_bounds(1) [OF assms(2)] ob(2)])
    then show ?thesis
      using assms ObjPtr ob i n
      by (auto simp: goo_realloc_def store_ok_def slice_ok_def slice_bytes_def frame_ok_def length_resize take_resize)
  qed (use assms n in \<open>auto simp: goo_realloc_def goo_alloc_def store_ok_def slice_ok_def slice_bytes_def frame_ok_def\<close>)
qed

text \<open>Making room keeps the contents and moves them to a fresh object; the old one is gone.\<close>

definition moved :: "store \<Rightarrow> goo_slice \<Rightarrow> 64 word \<Rightarrow> goo_slice \<Rightarrow> store \<Rightarrow> bool" where
  "moved st sl sz sl1 st1 = (slice_ok st1 sl1 sz \<and> store_ok st1 \<and> slice_bytes st1 sl1 sz = slice_bytes st sl sz
     \<and> sl_length sl1 = sl_length sl \<and> sl_data sl1 = ObjPtr (st_next st) \<and> frame_ok st sl st1
     \<and> st_next st1 = Suc (st_next st) \<and> (\<forall>i. sl_data sl = ObjPtr i \<longrightarrow> st_objs st1 i = None))"

lemma reserve_ok:
  assumes "store_ok st" and "slice_ok st sl sz" and "sl_length sl \<le> need" and "0 < need"
    and "2 * max (unat (sl_capacity sl)) (unat need) * unat sz \<le> 2 ^ 63"
  shows "\<exists>sl1 st1. slice_reserve st sl need sz = Some (Ok (Some sl1, st1)) \<and> moved st sl sz sl1 st1
    \<and> need \<le> sl_capacity sl1 \<and> unat (sl_capacity sl1) * unat sz \<le> 2 ^ 63"
proof -
  let ?m = "max (unat (sl_capacity sl)) (unat need)"
  have sz: "0 < unat sz" by (rule slice_ok_bounds(2) [OF assms(2)])
  then have "2 * ?m * 1 \<le> 2 * ?m * unat sz" by (intro mult_le_mono2) simp
  then have m: "2 * ?m \<le> 2 ^ 63" using assms(5) by linarith
  then have "unat need \<le> 2 ^ 63" "unat (sl_capacity sl) < 2 ^ 63" by simp_all
  then obtain c where c: "goo_slice_grow_capacity (sl_capacity sl) need = Some c" "need \<le> c" "unat c \<le> 2 * ?m"
    using grow_capacity_ok [OF assms(4)] by blast
  have "unat c * unat sz \<le> 2 * ?m * unat sz" using c(3) by (rule mult_le_mono1)
  then have bound: "unat c * unat sz \<le> 2 ^ 63" using assms(5) by linarith
  then have n: "unat (c * sz) = unat c * unat sz" using unat_mult_lem [of c sz] by simp
  have len: "sl_length sl \<le> c" using assms(3) c(2) by (rule order_trans)
  then have lenb: "unat (sl_length sl) * unat sz \<le> unat c * unat sz" by (simp add: word_le_nat_alt)
  have pos: "0 < unat c * unat sz" using assms(4) c(2) sz by (simp add: word_less_nat_alt word_le_nat_alt)
  obtain st1 where "goo_realloc st (sl_data sl) (unat c * unat sz) = Ok (ObjPtr (st_next st), st1)"
      "moved st sl sz (sl\<lparr>sl_data := ObjPtr (st_next st), sl_capacity := c\<rparr>) st1"
    using realloc_ok [OF assms(1,2) pos bound lenb refl len] by (auto simp: moved_def)
  then show ?thesis using c(1,2) bound n by (simp add: slice_reserve_def)
qed

lemma store_elems_ok:
  assumes "store_ok st" and "slice_ok st sl sz" and "0 < count"
    and fit: "unat (sl_length sl) + unat count \<le> unat (sl_capacity sl)"
    and bs: "length bs = unat count * unat sz" and small: "unat (sl_capacity sl) * unat sz \<le> 2 ^ 63"
  shows "\<exists>st1. slice_store st sl bs count sz = Ok (sl\<lparr>sl_length := sl_length sl + count\<rparr>, st1)
    \<and> slice_ok st1 (sl\<lparr>sl_length := sl_length sl + count\<rparr>) sz \<and> store_ok st1
    \<and> slice_bytes st1 (sl\<lparr>sl_length := sl_length sl + count\<rparr>) sz = slice_bytes st sl sz @ bs
    \<and> frame_ok st sl st1 \<and> st_next st1 = st_next st"
proof -
  let ?len = "unat (sl_length sl)" and ?cap = "unat (sl_capacity sl)"
  have cnt: "0 < unat count" using assms(3) by (simp add: word_less_nat_alt)
  then have "sl_capacity sl \<noteq> 0" using fit by auto
  then obtain i ob where i: "sl_data sl = ObjPtr i" "st_objs st i = Some ob" "?cap * unat sz \<le> length (ob_payload ob)"
    using assms(2) by (auto simp: slice_ok_def split: ptr.splits)
  have le: "?len * unat sz + length bs \<le> ?cap * unat sz" "?len * unat sz \<le> ?cap * unat sz"
    using fit bs by (simp_all flip: add_mult_distrib)
  have "?len * unat sz \<le> 2 ^ 63" using le(2) small by (rule le_trans)
  then have off: "unat (sl_length sl * sz) = ?len * unat sz" using unat_mult_lem [of "sl_length sl" sz] by simp
  have "?cap \<le> ?cap * unat sz" using slice_ok_bounds(2) [OF assms(2)] by simp
  then have "?cap \<le> 2 ^ 63" using small by linarith
  then have newlen: "unat (sl_length sl + count) = ?len + unat count"
    using fit unat_add_lem [of "sl_length sl" count] by simp
  have end_bs: "unat (sl_length sl + count) * unat sz = ?len * unat sz + length bs"
    using bs newlen by (simp add: add_mult_distrib)
  have lep: "?len * unat sz + length bs \<le> length (ob_payload ob)" using le(1) i(3) by linarith
  have "sl_length sl + count \<le> sl_capacity sl" using newlen fit by (simp add: word_le_nat_alt)
  then show ?thesis
    using assms(1,2) i off lep end_bs
    by (auto simp: slice_store_def write_bytes_def slice_ok_def store_ok_def slice_bytes_def frame_ok_def)
qed

text \<open>The two branches of the append.\<close>

definition appended :: "store \<Rightarrow> goo_slice \<Rightarrow> 64 word \<Rightarrow> 8 word list \<Rightarrow> goo_slice \<Rightarrow> store \<Rightarrow> bool" where
  "appended st sl sz bs sl' st' = (slice_bytes st' sl' sz = slice_bytes st sl sz @ bs \<and> slice_ok st' sl' sz
     \<and> store_ok st' \<and> frame_ok st sl st')"

lemma append_in_place:
  assumes "store_ok st" and "slice_ok st sl sz" and "length el = unat sz" and "\<not> sl_length sl \<ge> sl_capacity sl"
    and "unat (sl_capacity sl) * unat sz \<le> 2 ^ 63"
  shows "\<exists>sl' st'. goo_slice_append st (Some sl) (Some el) sz = Some (Ok (True, Some sl', st'))
    \<and> appended st sl sz el sl' st' \<and> sl_length sl' = sl_length sl + 1"
proof -
  have "unat (sl_length sl) + unat 1 \<le> unat (sl_capacity sl)" using assms(4) by (simp add: word_le_nat_alt)
  then show ?thesis
    using assms store_elems_ok [OF assms(1,2), of 1 el] by (auto simp: goo_slice_append_def appended_def Let_def)
qed

lemma append_full:
  assumes "store_ok st" and "slice_ok st sl sz" and "length el = unat sz" and full: "sl_length sl = sl_capacity sl"
    and small: "2 * (unat (sl_capacity sl) + 1) * unat sz \<le> 2 ^ 63"
  shows "\<exists>sl' st'. goo_slice_append st (Some sl) (Some el) sz = Some (Ok (True, Some sl', st'))
    \<and> appended st sl sz el sl' st' \<and> sl_length sl' = sl_length sl + 1
    \<and> (\<forall>i. sl_data sl = ObjPtr i \<longrightarrow> st_objs st' i = None)"
proof -
  let ?need = "sl_length sl + 1"
  have "unat (sl_capacity sl) + 1 \<le> 2 * (unat (sl_capacity sl) + 1) * unat sz"
    using slice_ok_bounds(2) [OF assms(2)] by (cases "unat sz") auto
  then have "unat (sl_capacity sl) + 1 \<le> 2 ^ 63" using small by linarith
  then have need: "unat ?need = unat (sl_capacity sl) + 1"
    using full unat_add_lem [of "sl_length sl" 1] by simp
  then have "sl_length sl \<le> ?need" "0 < ?need" using full by (simp_all add: word_le_nat_alt word_less_nat_alt)
  moreover have "2 * max (unat (sl_capacity sl)) (unat ?need) * unat sz \<le> 2 ^ 63" using need small by simp
  ultimately obtain sl1 st1 where r: "slice_reserve st sl ?need sz = Some (Ok (Some sl1, st1))"
      "moved st sl sz sl1 st1" "?need \<le> sl_capacity sl1" "unat (sl_capacity sl1) * unat sz \<le> 2 ^ 63"
    using reserve_ok [OF assms(1,2)] by blast
  then have fit: "unat (sl_length sl1) + unat 1 \<le> unat (sl_capacity sl1)"
    using need full by (simp add: moved_def word_le_nat_alt)
  let ?sl' = "sl1\<lparr>sl_length := sl_length sl1 + 1\<rparr>"
  obtain st2 where st2: "slice_store st1 sl1 el 1 sz = Ok (?sl', st2)" "slice_ok st2 ?sl' sz" "store_ok st2"
      "slice_bytes st2 ?sl' sz = slice_bytes st1 sl1 sz @ el" "frame_ok st1 sl1 st2"
    using store_elems_ok [OF _ _ _ fit _ r(4), of st1 el] r(2) assms(3) by (auto simp: moved_def)
  have "i < st_next st" if "sl_data sl = ObjPtr i" for i
    using assms(1,2) that by (force simp: store_ok_def slice_ok_def not_less [symmetric])
  then have "frame_ok st sl st2" "\<forall>i. sl_data sl = ObjPtr i \<longrightarrow> st_objs st2 i = None"
    using st2(5) r(2) by (auto simp: frame_ok_def moved_def)
  then have "appended st sl sz el ?sl' st2 \<and> sl_length ?sl' = ?need \<and> (\<forall>i. sl_data sl = ObjPtr i \<longrightarrow> st_objs st2 i = None)"
    using st2 r(2) by (simp add: appended_def moved_def)
  then show ?thesis
    using full r(1) st2(1) assms(3) by (intro exI [of _ ?sl'] exI [of _ st2]) (auto simp: goo_slice_append_def Let_def)
qed



text \<open>
  A growing append frees the old backing array: the object the header pointed to is gone
  after the call, so every other header that still points to it (a slice the array was shared
  with, or the argument of \<open>b := append(a, x)\<close> itself) reads freed memory, whatever the reference
  count of the array was.
\<close>

theorem append_frees_shared_array:
  assumes "store_ok st" and "slice_ok st sl sz" and "sl_data sl = ObjPtr i" and "sl_length sl = sl_capacity sl"
    and "length el = unat sz" and "2 * (unat (sl_capacity sl) + 1) * unat sz \<le> 2 ^ 63" and "0 < n"
  shows "\<exists>sl' st'. goo_slice_append st (Some sl) (Some el) sz = Some (Ok (True, Some sl', st'))
    \<and> read_bytes st' (sl_data sl) off n = Stuck \<and> goo_release st' (sl_data sl) = Stuck"
  using append_full [OF assms(1,2,5,4,6)] assms(3)
  by (auto simp: read_bytes_def goo_release_def goo_release_with_def release_dec_def)

definition one_array :: store where
  "one_array = \<lparr> st_objs = [0 \<mapsto> \<lparr> ob_rc = 2, ob_payload = [5] \<rparr>], st_next = 1, st_junk = (\<lambda>_ _. 0) \<rparr>"

theorem append_frees_shared_array_witness:
  "\<exists>sl' st'. goo_slice_append one_array (Some \<lparr> sl_data = ObjPtr 0, sl_length = 1, sl_capacity = 1 \<rparr>) (Some [6]) 1
      = Some (Ok (True, Some sl', st')) \<and> read_bytes st' (ObjPtr 0) 0 1 = Stuck"
  using append_frees_shared_array [of one_array "\<lparr> sl_data = ObjPtr 0, sl_length = 1, sl_capacity = 1 \<rparr>" 1 0 "[6]" 1 0]
  by (auto simp: one_array_def store_ok_def slice_ok_def)

section \<open>Bulk append\<close>

text \<open>The snapshot: a fresh object with the source bytes; everything else is as before.\<close>

lemma snapshot_ok:
  assumes "store_ok st" and "read_bytes st sp soff n = Ok bs" and "0 < n" and "n \<le> 2 ^ 63"
  shows "\<exists>st2. run_bind (goo_alloc st n) (\<lambda>(snap, st1). run_bind (read_bytes st1 sp soff n) (\<lambda>bs.
        run_bind (write_bytes st1 snap 0 bs) (\<lambda>st2. Ok (snap, st2)))) = Ok (ObjPtr (st_next st), st2)
    \<and> st_objs st2 = (st_objs st)(st_next st \<mapsto> \<lparr> ob_rc = 1, ob_payload = bs \<rparr>) \<and> st_next st2 = Suc (st_next st)
    \<and> length bs = n"
proof -
  obtain i ob where i: "sp = ObjPtr i" "st_objs st i = Some ob" "soff + n \<le> length (ob_payload ob)"
      "bs = take n (drop soff (ob_payload ob))"
    using assms(2,3) by (auto simp: read_bytes_def split: ptr.splits option.splits if_splits)
  then have "i \<noteq> st_next st" using assms(1) by (auto simp: store_ok_def)
  then show ?thesis
    using i assms(3,4) by (simp add: goo_alloc_def read_bytes_def write_bytes_def)
qed

text \<open>The last part: copy the snapshot to the end of the slice and free it.\<close>

lemma put_snapshot_ok:
  assumes "store_ok st" and "slice_ok st sl sz" and "0 < count"
    and "unat (sl_length sl) + unat count \<le> unat (sl_capacity sl)"
    and bs: "length bs = unat count * unat sz" and "unat (sl_capacity sl) * unat sz \<le> 2 ^ 63"
    and snap: "st_objs st k = Some \<lparr> ob_rc = 1, ob_payload = bs \<rparr>" and other: "sl_data sl \<noteq> ObjPtr k"
  shows "\<exists>st'. run_bind (read_bytes st (ObjPtr k) 0 (length bs)) (\<lambda>bs. run_bind (slice_store st sl bs count sz)
        (\<lambda>(sl', st'). run_bind (goo_free st' (ObjPtr k)) (\<lambda>st''. Ok (Some sl', st''))))
      = Ok (Some (sl\<lparr>sl_length := sl_length sl + count\<rparr>), st')
    \<and> slice_bytes st' (sl\<lparr>sl_length := sl_length sl + count\<rparr>) sz = slice_bytes st sl sz @ bs
    \<and> slice_ok st' (sl\<lparr>sl_length := sl_length sl + count\<rparr>) sz \<and> store_ok st' \<and> st_objs st' k = None
    \<and> (\<forall>j < st_next st. ObjPtr j \<noteq> sl_data sl \<longrightarrow> j \<noteq> k \<longrightarrow> st_objs st' j = st_objs st j)"
proof -
  let ?sl' = "sl\<lparr>sl_length := sl_length sl + count\<rparr>"
  obtain st1 where st1: "slice_store st sl bs count sz = Ok (?sl', st1)" "slice_ok st1 ?sl' sz" "store_ok st1"
      "slice_bytes st1 ?sl' sz = slice_bytes st sl sz @ bs" "frame_ok st sl st1"
    using store_elems_ok [OF assms(1-6)] by blast
  have "k < st_next st" using assms(1) snap by (force simp: store_ok_def not_less [symmetric])
  then have k: "st_objs st1 k = Some \<lparr> ob_rc = 1, ob_payload = bs \<rparr>" using st1(5) other snap by (simp add: frame_ok_def)
  define st' where "st' = st1\<lparr>st_objs := (st_objs st1)(k := None)\<rparr>"
  have fr: "goo_free st1 (ObjPtr k) = Ok st'" using k by (simp add: goo_free_def st'_def GOO_RC_IMMORTAL_def)
  have "slice_bytes st' ?sl' sz = slice_bytes st1 ?sl' sz" "slice_ok st' ?sl' sz" "store_ok st'" "st_objs st' k = None"
    using st1(2,3) other by (auto simp: st'_def slice_bytes_def slice_ok_def store_ok_def split: ptr.splits)
  moreover have "\<forall>j < st_next st. ObjPtr j \<noteq> sl_data sl \<longrightarrow> j \<noteq> k \<longrightarrow> st_objs st' j = st_objs st j"
    using st1(5) by (simp add: frame_ok_def st'_def)
  ultimately show ?thesis using st1(1,4) fr snap by (simp add: read_bytes_def)
qed

text \<open>The sizes of a bulk append stay below the address space.\<close>

lemma bulk_sizes:
  assumes "2 * (unat (sl_capacity sl) + unat (sl_length sl) + unat (count :: 64 word)) * unat (sz :: 64 word) \<le> 2 ^ 63"
    and "0 < unat sz"
  shows "unat (sl_length sl + count) = unat (sl_length sl) + unat count"
    and "unat (count * sz) = unat count * unat sz" and "unat count * unat sz \<le> 2 ^ 63"
    and "unat (sl_capacity sl) * unat sz \<le> 2 ^ 63"
    and "2 * max (unat (sl_capacity sl)) (unat (sl_length sl) + unat count) * unat sz \<le> 2 ^ 63"
proof -
  let ?all = "unat (sl_capacity sl) + unat (sl_length sl) + unat count"
  have "2 * ?all \<le> 2 ^ 63" using assms mult_le_mono2 [of 1 "unat sz" "2 * ?all"] by linarith
  then show "unat (sl_length sl + count) = unat (sl_length sl) + unat count"
    using unat_add_lem [of "sl_length sl" count] by simp
  have m: "k * unat sz \<le> 2 ^ 63" if "k \<le> 2 * ?all" for k
    using assms(1) mult_le_mono1 [OF that, of "unat sz"] by linarith
  show c: "unat count * unat sz \<le> 2 ^ 63" and "unat (sl_capacity sl) * unat sz \<le> 2 ^ 63"
    and "2 * max (unat (sl_capacity sl)) (unat (sl_length sl) + unat count) * unat sz \<le> 2 ^ 63"
    by (rule m, simp add: max_def)+
  show "unat (count * sz) = unat count * unat sz" using c unat_mult_lem [of count sz] by simp
qed



end
