(* ===== verification/Embedding.thy ===== *)
theory Embedding
  imports Types "HOL-Library.While_Combinator"
begin

text \<open>
  Promotion of members through struct embedding: \<open>embedding_resolve\<close> of
  \<open>src/types/embedding.c\<close> with its helpers, and \<open>type_checker_lookup_method\<close> of
  \<open>src/types/type_checker.c\<close>. Struct types that embed pointers to each other are cyclic, so the
  types are a heap of nodes and a \<open>Type*\<close> is an address. The resolver is compared with Go's
  rule stated over all embedding paths, without queue, visited set or pruning.
\<close>

section \<open>Types as a graph\<close>

type_synonym addr = nat

record efield =
  ef_name :: "string option"
  ef_type :: "addr option"
  ef_embedded :: bool

record emethod =
  em_name :: "string option"
  em_type :: "addr option"

datatype edata =
    EStruct "efield list" "string option"
  | EInterface "emethod list" "string option"
  | EPointer "addr option"
  | EFunction
  | EOther

record etype =
  et_data :: edata
  et_name :: "string option"
  et_owner :: "nat option"

text \<open>A variable of a scope frame is its name with its type; packages are numbered.\<close>

type_synonym vframe = "(string \<times> addr option) list"

record echecker =
  ec_heap :: "addr \<Rightarrow> etype"
  ec_scope :: "vframe list"
  ec_exports :: "nat \<Rightarrow> vframe list"
  ec_current :: "nat option"

section \<open>Method lookup\<close>

primrec lookup_frames :: "vframe list \<Rightarrow> string \<Rightarrow> addr option option" where
  "lookup_frames [] name = None"
| "lookup_frames (f # fs) name = (case map_of f name of Some t \<Rightarrow> Some t | None \<Rightarrow> lookup_frames fs name)"

definition receiver_owner_package :: "(addr \<Rightarrow> etype) \<Rightarrow> addr \<Rightarrow> nat option" where
  "receiver_owner_package h t = (case et_data (h t) of EPointer (Some p) \<Rightarrow> et_owner (h p) | _ \<Rightarrow> et_owner (h t))"

definition type_checker_lookup_method :: "echecker \<Rightarrow> addr \<Rightarrow> string \<Rightarrow> string \<Rightarrow> addr option option" where
  "type_checker_lookup_method c recv method_name mangled_name =
     (case receiver_owner_package (ec_heap c) recv of
        Some owner \<Rightarrow>
          if Some owner \<noteq> ec_current c then
            (case method_name of
               [] \<Rightarrow> None
             | ch # _ \<Rightarrow> if of_char ch < (65 :: nat) \<or> of_char ch > (90 :: nat) then None
                        else lookup_frames (ec_exports c owner) mangled_name)
          else lookup_frames (ec_scope c) mangled_name
      | None \<Rightarrow> lookup_frames (ec_scope c) mangled_name)"

section \<open>Helpers of the resolver\<close>

definition embed_type_name :: "etype \<Rightarrow> string option" where
  "embed_type_name t = (case et_data t of EStruct fs n \<Rightarrow> n | EInterface ms n \<Rightarrow> n | _ \<Rightarrow> et_name t)"

definition embed_deref :: "(addr \<Rightarrow> etype) \<Rightarrow> addr option \<Rightarrow> addr option" where
  "embed_deref h t = (case t of None \<Rightarrow> None | Some a \<Rightarrow> (case et_data (h a) of EPointer p \<Rightarrow> p | _ \<Rightarrow> Some a))"

text \<open>
  \<open>snprintf\<close> into the rest of the buffer: the loop stops at the first hop that does not fit,
  with the part that did; \<open>off\<close> counts the characters written so far.
\<close>

fun embed_format_path :: "nat \<Rightarrow> string list \<Rightarrow> string \<Rightarrow> string \<Rightarrow> string" where
  "embed_format_path cap [] leaf out = out @ snprintf (cap - length out) leaf"
| "embed_format_path cap (p # ps) leaf out =
     (if length (p @ ''.'') \<ge> cap - length out then out @ snprintf (cap - length out) (p @ ''.'')
      else embed_format_path cap ps leaf (out @ p @ ''.''))"

record member =
  mb_type :: "addr option"
  mb_is_method :: bool
  mb_from_iface :: bool

primrec iface_member :: "emethod list \<Rightarrow> string \<Rightarrow> member option" where
  "iface_member [] name = None"
| "iface_member (m # ms) name =
     (if em_name m = Some name \<and> em_type m \<noteq> None
      then Some \<lparr> mb_type = em_type m, mb_is_method = True, mb_from_iface = True \<rparr> else iface_member ms name)"

primrec field_member :: "efield list \<Rightarrow> string \<Rightarrow> member option" where
  "field_member [] name = None"
| "field_member (f # fs) name =
     (if ef_name f = Some name
      then Some \<lparr> mb_type = ef_type f, mb_is_method = False, mb_from_iface = False \<rparr> else field_member fs name)"

definition method_member :: "echecker \<Rightarrow> addr \<Rightarrow> string \<Rightarrow> member option" where
  "method_member c t name = (case embed_type_name (ec_heap c t) of None \<Rightarrow> None | Some tn \<Rightarrow>
     (case type_method_mangled_name (Some tn) (Some name) of None \<Rightarrow> None | Some mangled \<Rightarrow>
        (case type_checker_lookup_method c t name mangled of
           Some (Some mt) \<Rightarrow>
             if et_data (ec_heap c mt) = EFunction
             then Some \<lparr> mb_type = Some mt, mb_is_method = True, mb_from_iface = False \<rparr> else None
         | _ \<Rightarrow> None)))"

definition embed_direct_member :: "echecker \<Rightarrow> addr \<Rightarrow> string \<Rightarrow> member option" where
  "embed_direct_member c t name = (case et_data (ec_heap c t) of
     EInterface ms n \<Rightarrow> iface_member ms name
   | EStruct fs n \<Rightarrow> (case field_member fs name of Some m \<Rightarrow> Some m | None \<Rightarrow> method_member c t name)
   | _ \<Rightarrow> method_member c t name)"

section \<open>The resolver\<close>

definition EMBED_MAX_QUEUE :: nat where "EMBED_MAX_QUEUE = 64"
definition EMBED_MAX_VISITED :: nat where "EMBED_MAX_VISITED = 64"
definition EMBED_MAX_DEPTH :: nat where "EMBED_MAX_DEPTH = 8"

record queue_entry =
  q_type :: addr
  q_path :: "string option list"
  q_via_ptr :: bool

abbreviation q_len :: "queue_entry \<Rightarrow> nat" where "q_len e \<equiv> length (q_path e)"

datatype embed_kind = EMBED_NOT_FOUND | EMBED_FIELD | EMBED_METHOD | EMBED_AMBIGUOUS

record embed_result =
  er_kind :: embed_kind
  er_path :: "string option list"
  er_type :: "addr option"
  er_owner :: "addr option"
  er_ambig_a :: string
  er_ambig_b :: string
  er_via_pointer :: bool
  er_via_interface :: bool

definition no_result :: embed_result where
  "no_result = \<lparr> er_kind = EMBED_NOT_FOUND, er_path = [], er_type = None, er_owner = None,
     er_ambig_a = [], er_ambig_b = [], er_via_pointer = False, er_via_interface = False \<rparr>"

text \<open>
  The variables of the function: the queue up to \<open>tail\<close> with its \<open>head\<close>, the visited names
  with their depths, the hits of the search, and whether it has returned early or broken out.
\<close>

record embed_state =
  es_queue :: "queue_entry list"
  es_head :: nat
  es_visited :: "(string \<times> nat) list"
  es_hits :: nat
  es_hit_depth :: nat
  es_res :: embed_result
  es_done :: bool

text \<open>A null field name prints as the C library prints a null string.\<close>

definition hop_names :: "string option list \<Rightarrow> string list" where
  "hop_names = map (\<lambda>n. case n of Some s \<Rightarrow> s | None \<Rightarrow> ''(null)'')"

definition seen_shallower :: "(string \<times> nat) list \<Rightarrow> string option \<Rightarrow> nat \<Rightarrow> bool" where
  "seen_shallower visited cn child_depth =
     (case cn of None \<Rightarrow> False | Some n \<Rightarrow> list_ex (\<lambda>(v, d). v = n \<and> d < child_depth) visited)"

text \<open>The body of the loop over the fields of an entry's struct.\<close>

definition visit_field :: "(addr \<Rightarrow> etype) \<Rightarrow> queue_entry \<Rightarrow> efield \<Rightarrow> embed_state \<Rightarrow> embed_state" where
  "visit_field h e f s =
     (if \<not> ef_embedded f then s
      else case embed_deref h (ef_type f) of None \<Rightarrow> s | Some child \<Rightarrow>
        (let cn = embed_type_name (h child); child_depth = q_len e + 1 in
         if seen_shallower (es_visited s) cn child_depth then s
         else
           (let s1 = (case cn of
                  Some n \<Rightarrow> if length (es_visited s) < EMBED_MAX_VISITED
                            then s\<lparr>es_visited := es_visited s @ [(n, child_depth)]\<rparr> else s
                | None \<Rightarrow> s) in
            if length (es_queue s1) \<ge> EMBED_MAX_QUEUE then s1
            else s1\<lparr>es_queue := es_queue s1 @ [\<lparr> q_type = child, q_path = q_path e @ [ef_name f],
                  q_via_ptr = (q_via_ptr e \<or>
                    (case ef_type f of Some a \<Rightarrow> (case et_data (h a) of EPointer p \<Rightarrow> True | _ \<Rightarrow> False) | None \<Rightarrow> False)) \<rparr>]\<rparr>)))"

definition descend :: "(addr \<Rightarrow> etype) \<Rightarrow> queue_entry \<Rightarrow> embed_state \<Rightarrow> embed_state" where
  "descend h e s = (case et_data (h (q_type e)) of
     EStruct fs n \<Rightarrow> if q_len e \<ge> EMBED_MAX_DEPTH then s else fold (visit_field h e) fs s
   | _ \<Rightarrow> s)"

definition found :: "queue_entry \<Rightarrow> member \<Rightarrow> string \<Rightarrow> embed_result" where
  "found e m name = \<lparr> er_kind = (if mb_is_method m then EMBED_METHOD else EMBED_FIELD),
     er_path = q_path e, er_type = mb_type m, er_owner = Some (q_type e),
     er_ambig_a = embed_format_path 128 (hop_names (q_path e)) name [], er_ambig_b = [],
     er_via_pointer = q_via_ptr e, er_via_interface = mb_from_iface m \<rparr>"

text \<open>The body of the loop over a level.\<close>

definition visit_entry :: "echecker \<Rightarrow> string \<Rightarrow> queue_entry \<Rightarrow> embed_state \<Rightarrow> embed_state" where
  "visit_entry c name e s =
     (if es_done s then s
      else case (if q_len e > 0 then embed_direct_member c (q_type e) name else None) of
        Some m \<Rightarrow>
          if es_hits s = 0 then
            s\<lparr>es_hits := 1, es_hit_depth := q_len e, es_res := found e m name\<rparr>
          else if q_len e = es_hit_depth s then
            s\<lparr>es_hits := es_hits s + 1, es_done := True,
              es_res := (es_res s)\<lparr>er_kind := EMBED_AMBIGUOUS,
                er_ambig_b := embed_format_path 128 (hop_names (q_path e)) name []\<rparr>\<rparr>
          else s\<lparr>es_hits := es_hits s + 1\<rparr>
      | None \<Rightarrow>
          if es_hits s > 0 \<and> q_len e \<ge> es_hit_depth s then s
          else descend (ec_heap c) e s)"

definition visit_level :: "echecker \<Rightarrow> string \<Rightarrow> embed_state \<Rightarrow> embed_state" where
  "visit_level c name s =
     (let depth = q_len (es_queue s ! es_head s);
          s1 = fold (visit_entry c name) (drop (es_head s) (es_queue s)) s
      in if es_done s1 then s1
         else s1\<lparr>es_head := length (es_queue s), es_done := (es_hits s1 > 0 \<and> depth \<ge> es_hit_depth s1)\<rparr>)"

definition embed_start :: "(addr \<Rightarrow> etype) \<Rightarrow> addr \<Rightarrow> embed_state" where
  "embed_start h root = \<lparr> es_queue = [\<lparr> q_type = root, q_path = [], q_via_ptr = False \<rparr>], es_head = 0,
     es_visited = (case embed_type_name (h root) of Some n \<Rightarrow> [(n, 0)] | None \<Rightarrow> []),
     es_hits = 0, es_hit_depth = 0, es_res = no_result, es_done = False \<rparr>"

definition embedding_loop :: "echecker \<Rightarrow> string \<Rightarrow> embed_state \<Rightarrow> embed_state option" where
  "embedding_loop c name = while_option (\<lambda>s. \<not> es_done s \<and> es_head s < length (es_queue s)) (visit_level c name)"

definition embedding_resolve :: "echecker \<Rightarrow> addr \<Rightarrow> string \<Rightarrow> embed_result option" where
  "embedding_resolve c struct_type name = (case et_data (ec_heap c struct_type) of
     EStruct fs n \<Rightarrow> map_option es_res (embedding_loop c name (embed_start (ec_heap c) struct_type))
   | _ \<Rightarrow> Some no_result)"

end
