(* ===== verification/Embedding_Props.thy ===== *)
theory Embedding_Props
  imports Embedding
begin

text \<open>
  The resolver against Go's promotion rule. The rule looks at all embedding paths of a length
  before any longer one; the resolver prunes types it has seen closer to the root and stops at
  fixed sizes of its queue, visited set and depth.
\<close>

section \<open>The rule over all embedding paths\<close>

text \<open>The entries one embedding hop below an entry, in field order.\<close>

definition field_child :: "(addr \<Rightarrow> etype) \<Rightarrow> queue_entry \<Rightarrow> efield \<Rightarrow> queue_entry list" where
  "field_child h e f =
     (if \<not> ef_embedded f then []
      else case embed_deref h (ef_type f) of None \<Rightarrow> [] | Some child \<Rightarrow>
        [\<lparr> q_type = child, q_path = q_path e @ [ef_name f],
           q_via_ptr = (q_via_ptr e \<or> (case ef_type f of Some a \<Rightarrow> (case et_data (h a) of EPointer p \<Rightarrow> True | _ \<Rightarrow> False) | None \<Rightarrow> False)) \<rparr>])"

definition hops :: "(addr \<Rightarrow> etype) \<Rightarrow> queue_entry \<Rightarrow> queue_entry list" where
  "hops h e = (case et_data (h (q_type e)) of EStruct fs n \<Rightarrow> concat (map (field_child h e) fs) | _ \<Rightarrow> [])"

primrec level :: "(addr \<Rightarrow> etype) \<Rightarrow> addr \<Rightarrow> nat \<Rightarrow> queue_entry list" where
  "level h root 0 = [\<lparr> q_type = root, q_path = [], q_via_ptr = False \<rparr>]"
| "level h root (Suc d) = concat (map (hops h) (level h root d))"

text \<open>Members at one depth: none, one, or two or more, of which the first two are reported.\<close>

definition hits :: "echecker \<Rightarrow> string \<Rightarrow> queue_entry list \<Rightarrow> (queue_entry \<times> member) list" where
  "hits c name es = concat (map (\<lambda>e. case embed_direct_member c (q_type e) name of None \<Rightarrow> [] | Some m \<Rightarrow> [(e, m)]) es)"

definition verdict :: "string \<Rightarrow> (queue_entry \<times> member) list \<Rightarrow> embed_result" where
  "verdict name xs = (case xs of
     [] \<Rightarrow> no_result
   | [(e, m)] \<Rightarrow> found e m name
   | (e, m) # (e', m') # _ \<Rightarrow> (found e m name)\<lparr>er_kind := EMBED_AMBIGUOUS,
       er_ambig_b := embed_format_path 128 (hop_names (q_path e')) name []\<rparr>)"

text \<open>The members at the shallowest of the depths \<open>d .. d + n\<close> that has any.\<close>

primrec shallowest :: "(nat \<Rightarrow> 'a list) \<Rightarrow> nat \<Rightarrow> nat \<Rightarrow> 'a list" where
  "shallowest f d 0 = f d"
| "shallowest f d (Suc n) = (if f d = [] then shallowest f (Suc d) n else f d)"

definition promoted :: "echecker \<Rightarrow> addr \<Rightarrow> string \<Rightarrow> embed_result" where
  "promoted c root name = verdict name (shallowest (\<lambda>d. hits c name (level (ec_heap c) root d)) 1 7)"

section \<open>Lists with elements deleted\<close>

inductive deletes :: "('a \<Rightarrow> bool) \<Rightarrow> 'a list \<Rightarrow> 'a list \<Rightarrow> bool" for P where
  deletes_nil: "deletes P [] []"
| deletes_keep: "deletes P xs ys \<Longrightarrow> deletes P (x # xs) (x # ys)"
| deletes_drop: "P y \<Longrightarrow> deletes P xs ys \<Longrightarrow> deletes P xs (y # ys)"

lemma deletes_append: "deletes P xs ys \<Longrightarrow> deletes P xs' ys' \<Longrightarrow> deletes P (xs @ xs') (ys @ ys')"
  by (induction rule: deletes.induct) (auto intro: deletes.intros)

lemma deletes_filter: "(\<And>x. x \<in> set ys \<Longrightarrow> \<not> Q x \<Longrightarrow> P x) \<Longrightarrow> deletes P (filter Q ys) ys"
  by (induction ys) (auto intro: deletes.intros)

lemma deletes_all: "(\<And>y. y \<in> set ys \<Longrightarrow> P y) \<Longrightarrow> deletes P [] ys"
  by (induction ys) (auto intro: deletes.intros)

lemma deletes_concat:
  assumes "deletes P xs ys"
    and "\<And>y z. P y \<Longrightarrow> z \<in> set (f y) \<Longrightarrow> Q z"
    and "\<And>x. x \<in> set xs \<Longrightarrow> deletes Q (g x) (f x)"
  shows "deletes Q (concat (map g xs)) (concat (map f ys))"
  using assms(1,3)
proof (induction rule: deletes.induct)
  case (deletes_drop y xs ys)
  have "deletes Q ([] @ concat (map g xs)) (f y @ concat (map f ys))"
    using deletes_drop by (intro deletes_append deletes_all) (auto intro: assms(2))
  then show ?case by simp
qed (auto intro: deletes.intros deletes_append)

lemma deletes_concat_eq:
  assumes "deletes P xs ys" and "\<And>y. y \<in> set ys \<Longrightarrow> P y \<Longrightarrow> f y = []"
  shows "concat (map f xs) = concat (map f ys)"
  using assms by (induction rule: deletes.induct) auto

section \<open>Pruning keeps the members of the shallowest depth\<close>

abbreviation ename :: "(addr \<Rightarrow> etype) \<Rightarrow> queue_entry \<Rightarrow> string option" where
  "ename h e \<equiv> embed_type_name (h (q_type e))"

text \<open>The levels the resolver works on: a named type seen at a smaller depth is left out.\<close>

fun pruned :: "(addr \<Rightarrow> etype) \<Rightarrow> addr \<Rightarrow> nat \<Rightarrow> queue_entry list" where
  "pruned h root 0 = level h root 0"
| "pruned h root (Suc d) = filter (\<lambda>e. ename h e = None \<or> (\<forall>i \<in> {..d}. ename h e \<notin> ename h ` set (pruned h root i)))
     (concat (map (hops h) (pruned h root d)))"

declare pruned.simps(2) [simp del]

abbreviation fresh_at :: "(addr \<Rightarrow> etype) \<Rightarrow> addr \<Rightarrow> nat \<Rightarrow> queue_entry \<Rightarrow> bool" where
  "fresh_at h root d e \<equiv> ename h e = None \<or> (\<forall>i \<in> {..d}. ename h e \<notin> ename h ` set (pruned h root i))"

lemma not_fresh_at:
  assumes "\<not> fresh_at h root d e"
  obtains i g where "i \<le> d" and "g \<in> set (pruned h root i)" and "ename h g = ename h e" and "ename h e \<noteq> None"
  using assms by (auto simp del: not_None_eq)

text \<open>Named types are identified by their names; this is what the visited set relies on.\<close>

definition names_identify :: "(addr \<Rightarrow> etype) \<Rightarrow> addr \<Rightarrow> bool" where
  "names_identify h root = (\<forall>d \<le> 8. \<forall>d' \<le> 8. \<forall>e \<in> set (level h root d). \<forall>e' \<in> set (level h root d').
     ename h e \<noteq> None \<longrightarrow> ename h e = ename h e' \<longrightarrow> q_type e = q_type e')"

lemma names_identifyD:
  assumes "names_identify h root" and "e \<in> set (level h root d)" and "e' \<in> set (level h root d')"
    and "d \<le> 8" and "d' \<le> 8" and "ename h e = ename h e'" and "ename h e' \<noteq> None"
  shows "q_type e = q_type e'"
  using assms unfolding names_identify_def by metis

lemma hops_type: "q_type e = q_type e' \<Longrightarrow> map q_type (hops h e) = map q_type (hops h e')"
  by (auto simp: hops_def map_concat comp_def field_child_def split: edata.splits option.splits intro!: arg_cong [where f = concat])

lemma hops_len: "x \<in> set (hops h e) \<Longrightarrow> q_len x = Suc (q_len e)"
  by (auto simp: hops_def field_child_def split: edata.splits option.splits if_splits)

lemma level_len: "e \<in> set (level h root d) \<Longrightarrow> q_len e = d"
  by (induction d arbitrary: e) (auto dest: hops_len)

lemma pruned_subset: "set (pruned h root d) \<subseteq> set (level h root d)"
  by (induction d) (auto simp: pruned.simps(2))

lemma level_reached:
  assumes "names_identify h root"
  shows "d \<le> 8 \<Longrightarrow> e \<in> set (level h root d) \<Longrightarrow> \<exists>i \<le> d. \<exists>e' \<in> set (pruned h root i). q_type e' = q_type e"
proof (induction d arbitrary: e)
  case (Suc d)
  then obtain f where f: "f \<in> set (level h root d)" "e \<in> set (hops h f)" by auto
  with Suc obtain i f' where i: "i \<le> d" "f' \<in> set (pruned h root i)" "q_type f' = q_type f" by force
  have "q_type e \<in> set (map q_type (hops h f'))"
    using hops_type [OF i(3), of h] f(2) by auto
  then obtain e' where e': "e' \<in> set (hops h f')" "q_type e' = q_type e" by auto
  show ?case
  proof (cases "e' \<in> set (pruned h root (Suc i))")
    case True
    then show ?thesis using i e' by (intro exI [of _ "Suc i"]) auto
  next
    case False
    then have "\<not> fresh_at h root i e'" using i(2) e'(1) by (auto simp: pruned.simps(2))
    then obtain j g where j: "j \<le> i" "g \<in> set (pruned h root j)" "ename h g = ename h e'" "ename h e' \<noteq> None"
      by (rule not_fresh_at)
    have g: "g \<in> set (level h root j)" and e'l: "e' \<in> set (level h root (Suc i))"
      using j(2) pruned_subset e'(1) i(2) by force+
    have "q_type g = q_type e'"
      using names_identifyD [OF assms g e'l] j i(1) Suc.prems(1) by simp
    then show ?thesis using j i e' by (intro exI [of _ j]) auto
  qed
qed auto

text \<open>A type is dead at depth \<open>d\<close> when every member below it is matched by one at a smaller depth.\<close>

definition embeds :: "(addr \<Rightarrow> etype) \<Rightarrow> addr \<Rightarrow> addr list" where
  "embeds h t = map q_type (hops h \<lparr> q_type = t, q_path = [], q_via_ptr = False \<rparr>)"

primrec below :: "(addr \<Rightarrow> etype) \<Rightarrow> nat \<Rightarrow> addr \<Rightarrow> addr set" where
  "below h 0 t = {t}"
| "below h (Suc k) t = (\<Union>u \<in> set (embeds h t). below h k u)"

lemma hops_embeds: "map q_type (hops h e) = embeds h (q_type e)"
  unfolding embeds_def by (rule hops_type) simp

lemma hops_embedsD: "x \<in> set (hops h e) \<Longrightarrow> q_type x \<in> set (embeds h (q_type e))"
  using hops_embeds [of h e] by (metis image_eqI list.set_map)

lemma below_level: "e \<in> set (level h root d) \<Longrightarrow> t \<in> below h k (q_type e) \<Longrightarrow> t \<in> q_type ` set (level h root (d + k))"
proof (induction k arbitrary: d e)
  case (Suc k)
  then obtain u where u: "u \<in> set (embeds h (q_type e))" "t \<in> below h k u" by auto
  then obtain x where x: "x \<in> set (hops h e)" "q_type x = u"
    using hops_embeds [of h e] by (metis imageE list.set_map)
  then have "x \<in> set (level h root (Suc d))" using Suc.prems(1) by auto
  then have "t \<in> q_type ` set (level h root (Suc d + k))" using Suc.IH u x by blast
  then show ?case by simp
qed auto

definition has_member :: "echecker \<Rightarrow> string \<Rightarrow> addr \<Rightarrow> bool" where
  "has_member c name t = (embed_direct_member c t name \<noteq> None)"

definition dead :: "echecker \<Rightarrow> addr \<Rightarrow> string \<Rightarrow> nat \<Rightarrow> queue_entry \<Rightarrow> bool" where
  "dead c root name d e = (\<forall>k t. t \<in> below (ec_heap c) k (q_type e) \<longrightarrow> has_member c name t \<longrightarrow>
     (\<exists>m < d + k. \<exists>f \<in> set (level (ec_heap c) root m). has_member c name (q_type f)))"

lemma dead_hops:
  assumes "dead c root name d e" and "x \<in> set (hops (ec_heap c) e)"
  shows "dead c root name (Suc d) x"
  unfolding dead_def
proof (intro allI impI)
  fix k t
  assume "t \<in> below (ec_heap c) k (q_type x)" and m: "has_member c name t"
  then have "t \<in> below (ec_heap c) (Suc k) (q_type e)" using hops_embedsD [OF assms(2)] by auto
  then show "\<exists>m < Suc d + k. \<exists>f \<in> set (level (ec_heap c) root m). has_member c name (q_type f)"
    using assms(1) m unfolding dead_def by fastforce
qed

lemma dead_seen:
  assumes "f \<in> set (level (ec_heap c) root i)" and "q_type f = q_type e" and "i < d"
  shows "dead c root name d e"
  unfolding dead_def
proof (intro allI impI)
  fix k t
  assume "t \<in> below (ec_heap c) k (q_type e)" and m: "has_member c name t"
  then have "t \<in> q_type ` set (level (ec_heap c) root (i + k))" using below_level assms(1,2) by metis
  then show "\<exists>m < d + k. \<exists>f \<in> set (level (ec_heap c) root m). has_member c name (q_type f)"
    using assms(3) m by (auto intro!: exI [of _ "i + k"])
qed

lemma pruned_deletes:
  assumes "names_identify (ec_heap c) root"
  shows "d \<le> 8 \<Longrightarrow> deletes (dead c root name d) (pruned (ec_heap c) root d) (level (ec_heap c) root d)"
proof (induction d)
  case 0
  show ?case by (simp add: deletes.intros)
next
  case (Suc d)
  let ?h = "ec_heap c"
  have seen: "dead c root name (Suc d) x" if ex: "e \<in> set (pruned ?h root d)" "x \<in> set (hops ?h e)" "\<not> fresh_at ?h root d x" for e x
  proof -
    obtain i f where i: "i \<le> d" "f \<in> set (pruned ?h root i)" "ename ?h f = ename ?h x" "ename ?h x \<noteq> None"
      using not_fresh_at [OF ex(3)] .
    have f: "f \<in> set (level ?h root i)" and x: "x \<in> set (level ?h root (Suc d))"
      using i(2) pruned_subset ex(1,2) by force+
    then have "q_type x = q_type f"
      using names_identifyD [OF assms f x] i Suc.prems by simp
    then show ?thesis using dead_seen [OF f] i(1) by simp
  qed
  have "deletes (dead c root name (Suc d)) (concat (map (\<lambda>e. filter (fresh_at ?h root d) (hops ?h e)) (pruned ?h root d)))
      (concat (map (hops ?h) (level ?h root d)))"
  proof (rule deletes_concat)
    show "deletes (dead c root name d) (pruned ?h root d) (level ?h root d)" using Suc by simp
  qed (use dead_hops in blast, rule deletes_filter, use seen in blast)
  then show ?case by (simp add: pruned.simps(2) filter_concat comp_def)
qed

lemma hits_Nil: "hits c name es = [] \<longleftrightarrow> (\<forall>e \<in> set es. \<not> has_member c name (q_type e))"
  by (auto simp: hits_def has_member_def split: option.splits)

lemma hits_pruned:
  assumes "names_identify (ec_heap c) root" and "d \<le> 8"
    and "\<And>m. m < d \<Longrightarrow> hits c name (level (ec_heap c) root m) = []"
  shows "hits c name (pruned (ec_heap c) root d) = hits c name (level (ec_heap c) root d)"
  unfolding hits_def
proof (rule deletes_concat_eq [OF pruned_deletes [OF assms(1,2)]])
  fix e
  assume e: "dead c root name d e"
  have "q_type e \<in> below (ec_heap c) 0 (q_type e)" by simp
  then have "\<not> has_member c name (q_type e)"
    using e assms(3) unfolding dead_def hits_Nil by (metis add.right_neutral)
  then show "(case embed_direct_member c (q_type e) name of None \<Rightarrow> [] | Some m \<Rightarrow> [(e, m)]) = []"
    by (simp add: has_member_def)
qed

section \<open>One level of the resolver\<close>

abbreviation vis :: "(addr \<Rightarrow> etype) \<Rightarrow> nat \<Rightarrow> queue_entry list \<Rightarrow> (string \<times> nat) list" where
  "vis h d es \<equiv> concat (map (\<lambda>e. case ename h e of None \<Rightarrow> [] | Some n \<Rightarrow> [(n, d)]) es)"

definition push :: "(addr \<Rightarrow> etype) \<Rightarrow> nat \<Rightarrow> queue_entry list \<Rightarrow> embed_state \<Rightarrow> embed_state" where
  "push h d es s = s\<lparr>es_queue := es_queue s @ es, es_visited := es_visited s @ vis h d es\<rparr>"

abbreviation keep :: "(addr \<Rightarrow> etype) \<Rightarrow> embed_state \<Rightarrow> nat \<Rightarrow> queue_entry \<Rightarrow> bool" where
  "keep h s d \<equiv> (\<lambda>x. \<not> seen_shallower (es_visited s) (ename h x) d)"

lemma length_vis: "length (vis h d es) \<le> length es"
  by (induction es) (auto split: option.splits)

lemma push_simps [simp]:
  "es_queue (push h d es s) = es_queue s @ es" "es_visited (push h d es s) = es_visited s @ vis h d es"
  "es_head (push h d es s) = es_head s" "es_hits (push h d es s) = es_hits s" "es_done (push h d es s) = es_done s"
  "es_res (push h d es s) = es_res s" "es_hit_depth (push h d es s) = es_hit_depth s" "push h d [] s = s"
  by (simp_all add: push_def)

lemma push_push: "push h d ys (push h d xs s) = push h d (xs @ ys) s"
  by (simp add: push_def)

text \<open>What one level appends to the visited set has the next depth, so it prunes nothing in that level.\<close>

lemma seen_same_level: "seen_shallower (V @ vis h d es) cn d = seen_shallower V cn d"
  by (auto simp: seen_shallower_def list_ex_iff split: option.splits)

lemma visit_field_push:
  assumes "q_len e = d" and "length (es_queue s) + length (filter (keep h s (Suc d)) (field_child h e f)) \<le> 64"
    and "length (es_visited s) + length (filter (keep h s (Suc d)) (field_child h e f)) \<le> 64"
  shows "visit_field h e f s = push h (Suc d) (filter (keep h s (Suc d)) (field_child h e f)) s"
  using assms
  by (auto simp: visit_field_def field_child_def push_def Let_def EMBED_MAX_QUEUE_def EMBED_MAX_VISITED_def
      seen_shallower_def split: option.splits)

lemma fold_push:
  assumes "\<And>x t. x \<in> set xs \<Longrightarrow> P t \<Longrightarrow> length (es_queue t) + length (filter (keep h t (Suc d)) (g x)) \<le> 64 \<Longrightarrow>
      f x t = push h (Suc d) (filter (keep h t (Suc d)) (g x)) t"
    and "\<And>ws t. P t \<Longrightarrow> P (push h (Suc d) ws t)"
    and "P s" and "length (es_queue s) + length (filter (keep h s (Suc d)) (concat (map g xs))) \<le> 64"
  shows "fold f xs s = push h (Suc d) (filter (keep h s (Suc d)) (concat (map g xs))) s"
  using assms(1,3,4)
proof (induction xs arbitrary: s)
  case (Cons x xs)
  let ?w = "filter (keep h s (Suc d)) (g x)"
  have x: "f x s = push h (Suc d) ?w s" using Cons.prems by auto
  have "fold f xs (push h (Suc d) ?w s)
      = push h (Suc d) (filter (keep h (push h (Suc d) ?w s) (Suc d)) (concat (map g xs))) (push h (Suc d) ?w s)"
    using Cons.prems assms(2) by (intro Cons.IH) (auto simp: seen_same_level)
  then show ?case by (simp add: x seen_same_level push_push)
qed simp

abbreviation small :: "embed_state \<Rightarrow> bool" where
  "small s \<equiv> length (es_visited s) \<le> length (es_queue s)"

lemma small_push: "small s \<Longrightarrow> small (push h d ws s)"
  using length_vis [where h = h and d = d and es = ws] by simp

lemma descend_push:
  assumes "q_len e = d" and "d < 8" and "small s"
    and "length (es_queue s) + length (filter (keep h s (Suc d)) (hops h e)) \<le> 64"
  shows "descend h e s = push h (Suc d) (filter (keep h s (Suc d)) (hops h e)) s"
proof (cases "et_data (h (q_type e))")
  case (EStruct fs n)
  have "fold (visit_field h e) fs s = push h (Suc d) (filter (keep h s (Suc d)) (concat (map (field_child h e) fs))) s"
    by (rule fold_push [where P = small])
       (use assms EStruct small_push in \<open>auto intro!: visit_field_push simp: hops_def\<close>)
  then show ?thesis using EStruct assms(1,2) by (simp add: descend_def hops_def EMBED_MAX_DEPTH_def)
qed (simp_all add: descend_def hops_def)

text \<open>A level without a member extends queue and visited set.\<close>

lemma quiet_level:
  assumes "\<And>e. e \<in> set es \<Longrightarrow> q_len e = d" and "d < 8" and "d > 0 \<longrightarrow> hits c name es = []"
    and "\<not> es_done s" and "es_hits s = 0" and "small s"
    and "length (es_queue s) + length (filter (keep (ec_heap c) s (Suc d)) (concat (map (hops (ec_heap c)) es))) \<le> 64"
  shows "fold (visit_entry c name) es s
    = push (ec_heap c) (Suc d) (filter (keep (ec_heap c) s (Suc d)) (concat (map (hops (ec_heap c)) es))) s"
  by (rule fold_push [where P = "\<lambda>s. \<not> es_done s \<and> es_hits s = 0 \<and> small s"])
     (use assms small_push in \<open>auto intro!: descend_push simp: visit_entry_def hits_def split: option.splits\<close>)

text \<open>A level with a member: entries that descend leave the outcome alone, then one hit, then the rest.\<close>

definition outcome :: "embed_state \<Rightarrow> nat \<times> nat \<times> embed_result \<times> bool" where
  "outcome s = (es_hits s, es_hit_depth s, es_res s, es_done s)"

lemma visit_field_outcome: "outcome (visit_field h e f s) = outcome s"
  by (auto simp: visit_field_def outcome_def Let_def split: option.splits)

lemma descend_outcome: "outcome (descend h e s) = outcome s"
proof -
  have "outcome (fold (visit_field h e) fs s) = outcome s" for fs
    by (induction fs arbitrary: s) (simp_all add: visit_field_outcome)
  then show ?thesis by (simp add: descend_def split: edata.splits)
qed

lemma fold_visit_done: "es_done s \<Longrightarrow> fold (visit_entry c name) es s = s"
  by (induction es) (simp_all add: visit_entry_def)

lemma hits_Cons: "hits c name (e # es) =
    (case embed_direct_member c (q_type e) name of None \<Rightarrow> hits c name es | Some m \<Rightarrow> (e, m) # hits c name es)"
  by (simp add: hits_def split: option.splits)

lemma after_first_hit:
  assumes "\<And>e. e \<in> set es \<Longrightarrow> q_len e = d" and "d > 0" and "outcome s = (1, d, r, False)"
  shows "outcome (fold (visit_entry c name) es s) = (case hits c name es of
      [] \<Rightarrow> (1, d, r, False)
    | (e, m) # _ \<Rightarrow> (2, d, r\<lparr>er_kind := EMBED_AMBIGUOUS,
        er_ambig_b := embed_format_path 128 (hop_names (q_path e)) name []\<rparr>, True))"
  using assms
proof (induction es)
  case (Cons e es)
  show ?case
  proof (cases "embed_direct_member c (q_type e) name")
    case None
    then have "visit_entry c name e s = s" using Cons.prems by (auto simp: visit_entry_def outcome_def)
    then show ?thesis using Cons None by (simp add: hits_Cons)
  next
    case (Some m)
    let ?t = "visit_entry c name e s"
    have t: "outcome ?t = (2, d, r\<lparr>er_kind := EMBED_AMBIGUOUS,
        er_ambig_b := embed_format_path 128 (hop_names (q_path e)) name []\<rparr>, True)"
      using Cons.prems Some by (auto simp: visit_entry_def outcome_def)
    then have "fold (visit_entry c name) es ?t = ?t" by (intro fold_visit_done) (simp add: outcome_def)
    then show ?thesis using t Some by (simp add: hits_Cons)
  qed
qed (simp add: hits_def)

lemma level_outcome:
  assumes "\<And>e. e \<in> set es \<Longrightarrow> q_len e = d" and "d > 0" and "outcome s = (0, d', r, False)" and "hits c name es \<noteq> []"
  shows "\<exists>n dn. outcome (fold (visit_entry c name) es s) = (Suc n, d, verdict name (hits c name es), dn)"
  using assms
proof (induction es arbitrary: s)
  case (Cons e es)
  show ?case
  proof (cases "embed_direct_member c (q_type e) name")
    case None
    have "outcome (visit_entry c name e s) = (0, d', r, False)"
      using Cons.prems(3) None descend_outcome [of "ec_heap c" e s] by (simp add: visit_entry_def outcome_def)
    then show ?thesis using Cons None by (simp add: hits_Cons)
  next
    case (Some m)
    have hit: "outcome (visit_entry c name e s) = (1, d, found e m name, False)"
      using Cons.prems Some by (simp add: visit_entry_def outcome_def)
    show ?thesis
      using after_first_hit [where es = es and c = c and name = name, OF _ Cons.prems(2) hit] Cons.prems(1) Some
      by (auto simp: hits_Cons verdict_def split: list.splits)
  qed
qed (simp add: hits_def)

section \<open>The loop over the levels\<close>

definition level_state :: "echecker \<Rightarrow> addr \<Rightarrow> nat \<Rightarrow> embed_state" where
  "level_state c root d = (embed_start (ec_heap c) root)
     \<lparr>es_queue := concat (map (pruned (ec_heap c) root) [0..<Suc d]),
      es_visited := concat (map (\<lambda>i. vis (ec_heap c) i (pruned (ec_heap c) root i)) [0..<Suc d]),
      es_head := length (concat (map (pruned (ec_heap c) root) [0..<d]))\<rparr>"

definition fits :: "(addr \<Rightarrow> etype) \<Rightarrow> addr \<Rightarrow> bool" where
  "fits h root = (length (concat (map (level h root) [0..<9])) \<le> 64)"

lemma level_state_0: "embed_start (ec_heap c) root = level_state c root 0"
  by (simp add: level_state_def embed_start_def split: option.splits)

lemma level_state_simps [simp]:
  "es_done (level_state c root d) = False" "es_hits (level_state c root d) = 0"
  "es_res (level_state c root d) = no_result" "es_hit_depth (level_state c root d) = 0"
  by (simp_all add: level_state_def embed_start_def)

lemma level_state_queue: "drop (es_head (level_state c root d)) (es_queue (level_state c root d)) = pruned (ec_heap c) root d"
  by (simp add: level_state_def)

lemma level_state_small: "small (level_state c root d)"
proof -
  have "length (concat (map (\<lambda>i. vis (ec_heap c) i (pruned (ec_heap c) root i)) is))
      \<le> length (concat (map (pruned (ec_heap c) root) is))" for "is"
    by (induction "is") (use length_vis in \<open>auto intro: add_mono\<close>)
  then show ?thesis by (simp add: level_state_def del: upt_Suc)
qed

lemma deletes_length: "deletes P xs ys \<Longrightarrow> length xs \<le> length ys"
  by (induction rule: deletes.induct) auto

lemma level_state_fits:
  assumes "names_identify (ec_heap c) root" and "fits (ec_heap c) root" and "d \<le> 8"
  shows "length (es_queue (level_state c root d)) \<le> 64"
proof -
  have le: "length (pruned (ec_heap c) root i) \<le> length (level (ec_heap c) root i)" if "i \<le> 8" for i
    using deletes_length [OF pruned_deletes [OF assms(1) that]] .
  have "[0..<9] = [0..<Suc d] @ [Suc d..<9]"
    using assms(3) by (metis Suc_le_mono eval_nat_numeral(3) le0 upt_add_eq_append le_add_diff_inverse)
  then have "length (concat (map (level (ec_heap c) root) [0..<Suc d])) \<le> 64"
    using assms(2) unfolding fits_def by (simp del: upt_Suc)
  moreover have "length (concat (map (pruned (ec_heap c) root) [0..<Suc d]))
      \<le> length (concat (map (level (ec_heap c) root) [0..<Suc d]))"
    unfolding length_concat map_map comp_def
    by (rule sum_list_mono) (use assms(3) le in auto)
  ultimately show ?thesis by (simp add: level_state_def)
qed

lemma level_state_Suc:
  "level_state c root (Suc d) = (push (ec_heap c) (Suc d) (pruned (ec_heap c) root (Suc d)) (level_state c root d))
     \<lparr>es_head := length (es_queue (level_state c root d))\<rparr>"
  by (simp add: level_state_def push_def)

lemma level_state_visited:
  "(n, k) \<in> set (es_visited (level_state c root d)) \<longleftrightarrow> k \<le> d \<and> Some n \<in> ename (ec_heap c) ` set (pruned (ec_heap c) root k)"
  by (auto simp: level_state_def less_Suc_eq_le simp del: upt_Suc split: option.splits)

lemma keep_fresh: "keep (ec_heap c) (level_state c root d) (Suc d) = fresh_at (ec_heap c) root d"
proof
  fix x
  show "keep (ec_heap c) (level_state c root d) (Suc d) x = fresh_at (ec_heap c) root d x"
    using level_state_visited [of _ _ c root d]
    by (cases "ename (ec_heap c) x") (auto simp: seen_shallower_def list_ex_iff less_Suc_eq_le)
qed

lemma pruned_Suc:
  "pruned (ec_heap c) root (Suc d) = filter (keep (ec_heap c) (level_state c root d) (Suc d))
     (concat (map (hops (ec_heap c)) (pruned (ec_heap c) root d)))"
  unfolding keep_fresh by (simp add: pruned.simps(2))

lemma pruned_len: "e \<in> set (pruned h root d) \<Longrightarrow> q_len e = d"
  using pruned_subset level_len by fastforce

lemma visit_level_quiet:
  assumes "names_identify (ec_heap c) root" and "fits (ec_heap c) root" and "d < 8"
    and "d > 0 \<longrightarrow> hits c name (pruned (ec_heap c) root d) = []"
  shows "visit_level c name (level_state c root d) = level_state c root (Suc d)"
proof -
  have "length (es_queue (level_state c root d)) + length (pruned (ec_heap c) root (Suc d)) \<le> 64"
    using level_state_fits [OF assms(1,2), of "Suc d"] assms(3) by (simp add: level_state_Suc)
  then have "fold (visit_entry c name) (pruned (ec_heap c) root d) (level_state c root d)
      = push (ec_heap c) (Suc d) (pruned (ec_heap c) root (Suc d)) (level_state c root d)"
    unfolding pruned_Suc using assms(3,4) level_state_small pruned_len by (intro quiet_level) auto
  then show ?thesis by (simp add: visit_level_def level_state_queue level_state_Suc Let_def)
qed

text \<open>At the depth limit nothing is appended, so the loop ends.\<close>

lemma visit_last_level:
  assumes "hits c name (pruned (ec_heap c) root 8) = []"
  shows "\<exists>s. visit_level c name (level_state c root 8) = s \<and> es_head s = length (es_queue s) \<and> es_res s = no_result"
proof -
  have "fold (visit_entry c name) es s = s"
    if "\<And>e. e \<in> set es \<Longrightarrow> q_len e = 8" and "hits c name es = []" and "es_hits s = 0" for es s
    using that
    by (induction es) (auto simp: visit_entry_def hits_Cons descend_def EMBED_MAX_DEPTH_def split: edata.splits option.splits)
  then have "fold (visit_entry c name) (pruned (ec_heap c) root 8) (level_state c root 8) = level_state c root 8"
    using assms pruned_len by auto
  then show ?thesis by (simp add: visit_level_def level_state_queue Let_def)
qed

lemma visit_level_hit:
  assumes "hits c name (pruned (ec_heap c) root d) \<noteq> []" and "d > 0"
  shows "es_done (visit_level c name (level_state c root d))
    \<and> es_res (visit_level c name (level_state c root d)) = verdict name (hits c name (pruned (ec_heap c) root d))"
proof -
  let ?s = "level_state c root d"
  have ne: "pruned (ec_heap c) root d \<noteq> []" using assms(1) by (auto simp: hits_def)
  then have head: "es_queue ?s ! es_head ?s \<in> set (pruned (ec_heap c) root d)"
    by (simp add: level_state_def nth_append)
  obtain n dn where "outcome (fold (visit_entry c name) (pruned (ec_heap c) root d) ?s)
      = (Suc n, d, verdict name (hits c name (pruned (ec_heap c) root d)), dn)"
    using level_outcome [where s = ?s and d' = 0 and r = no_result, OF _ assms(2) _ assms(1)] pruned_len
    by (force simp: outcome_def)
  then show ?thesis using pruned_len [OF head]
    by (auto simp: visit_level_def level_state_queue Let_def outcome_def)
qed

lemma pruned_empty: "pruned h root d = [] \<Longrightarrow> pruned h root (d + k) = []"
  by (induction k) (auto simp: pruned.simps(2))

lemma shallowest_Nil: "(\<And>i. i \<ge> d \<Longrightarrow> f i = []) \<Longrightarrow> shallowest f d n = []"
  by (induction n arbitrary: d) simp_all

lemma shallowest_cong:
  "(\<And>i. d \<le> i \<Longrightarrow> i \<le> d + n \<Longrightarrow> (\<And>m. d \<le> m \<Longrightarrow> m < i \<Longrightarrow> g m = []) \<Longrightarrow> f i = g i) \<Longrightarrow>
   shallowest f d n = shallowest g d n"
proof (induction n arbitrary: d)
  case (Suc n)
  have "f d = g d" by (rule Suc.prems) auto
  moreover have "shallowest f (Suc d) n = shallowest g (Suc d) n" if "g d = []"
  proof (rule Suc.IH, rule Suc.prems)
    fix i m
    assume "\<And>m. Suc d \<le> m \<Longrightarrow> m < i \<Longrightarrow> g m = []" and "d \<le> m" and "m < i"
    then show "g m = []" using that by (cases "m = d") auto
  qed auto
  ultimately show ?case by auto
qed simp

lemma embedding_loop_unfold:
  "embedding_loop c name s = (if \<not> es_done s \<and> es_head s < length (es_queue s)
     then embedding_loop c name (visit_level c name s) else Some s)"
  unfolding embedding_loop_def by (subst while_option_unfold) simp

lemma level_state_more: "es_head (level_state c root d) < length (es_queue (level_state c root d)) \<longleftrightarrow> pruned (ec_heap c) root d \<noteq> []"
  by (simp add: level_state_def)

lemma embedding_loop_levels:
  assumes "names_identify (ec_heap c) root" and "fits (ec_heap c) root"
  shows "d > 0 \<Longrightarrow> d + n = 8 \<Longrightarrow> \<exists>t. embedding_loop c name (level_state c root d) = Some t \<and>
    es_res t = verdict name (shallowest (\<lambda>i. hits c name (pruned (ec_heap c) root i)) d n)"
proof (induction n arbitrary: d)
  case base: 0
  let ?v = "visit_level c name (level_state c root d)"
  show ?case
  proof (cases "hits c name (pruned (ec_heap c) root d) = []")
    case True
    with base have "es_head ?v = length (es_queue ?v) \<and> es_res ?v = no_result"
      using visit_last_level [of c name root] by simp
    then show ?thesis using True
      by (subst embedding_loop_unfold, subst (1) embedding_loop_unfold) (simp add: verdict_def)
  next
    case False
    then show ?thesis using visit_level_hit [OF False base(1)]
      by (subst embedding_loop_unfold, subst (1) embedding_loop_unfold) (auto simp: level_state_more hits_def)
  qed
next
  case (Suc n)
  let ?f = "\<lambda>i. hits c name (pruned (ec_heap c) root i)"
  consider "pruned (ec_heap c) root d = []" | "pruned (ec_heap c) root d \<noteq> []" "?f d = []" | "?f d \<noteq> []" by blast
  then show ?case
  proof cases
    case 1
    then have "?f i = []" if "i \<ge> d" for i
      using pruned_empty [of _ _ d "i - d"] that by (simp add: hits_def)
    then have "shallowest ?f d (Suc n) = []" by (rule shallowest_Nil)
    then show ?thesis using 1 by (subst embedding_loop_unfold) (simp add: level_state_more verdict_def)
  next
    case 2
    have "visit_level c name (level_state c root d) = level_state c root (Suc d)"
      using assms Suc.prems 2 by (intro visit_level_quiet) auto
    then show ?thesis using Suc.IH [of "Suc d"] Suc.prems 2
      by (subst embedding_loop_unfold) (simp add: level_state_more)
  next
    case 3
    then show ?thesis using visit_level_hit [OF 3 Suc.prems(1)]
      by (subst embedding_loop_unfold, subst (1) embedding_loop_unfold) (auto simp: level_state_more hits_def)
  qed
qed

text \<open>
  C12. Member promotion follows Go's rule: when the struct does not have the member itself, types
  are identified by their names and the embedding paths of up to eight hops fit the 64 entries of
  the queue, the breadth-first search with its visited set returns exactly what the rule over all
  embedding paths says, that is the member at the shallowest depth that has one, with its path,
  owner and pointer and interface flags, and ambiguity exactly when two paths of that depth lead
  to one, also for cyclic types.
\<close>

theorem embedding_resolve_correct:
  assumes "et_data (ec_heap c root) = EStruct fs n" and "embed_direct_member c root name = None"
    and "names_identify (ec_heap c) root" and "fits (ec_heap c) root"
  shows "embedding_resolve c root name = Some (promoted c root name)"
proof -
  let ?l = "\<lambda>i. hits c name (level (ec_heap c) root i)"
  have root: "?l 0 = []" using assms(2) by (simp add: hits_def)
  have "hits c name (pruned (ec_heap c) root i) = ?l i"
    if i: "1 \<le> i" "i \<le> 8" "\<And>m. 1 \<le> m \<Longrightarrow> m < i \<Longrightarrow> ?l m = []" for i
  proof (rule hits_pruned [OF assms(3) i(2)])
    show "?l m = []" if "m < i" for m using root i(3) [of m] that by (cases "m = 0") auto
  qed
  then have eq: "shallowest (\<lambda>i. hits c name (pruned (ec_heap c) root i)) 1 7 = shallowest ?l 1 7"
    by (intro shallowest_cong) auto
  have "visit_level c name (embed_start (ec_heap c) root) = level_state c root 1"
    unfolding level_state_0 using visit_level_quiet [OF assms(3,4), of 0] by simp
  moreover have "es_head (embed_start (ec_heap c) root) < length (es_queue (embed_start (ec_heap c) root))"
    unfolding level_state_0 level_state_more by simp
  ultimately have "embedding_loop c name (embed_start (ec_heap c) root) = embedding_loop c name (level_state c root 1)"
    using embedding_loop_unfold [of c name "embed_start (ec_heap c) root"] by (simp add: level_state_0)
  moreover obtain t where "embedding_loop c name (level_state c root 1) = Some t" "es_res t = verdict name (shallowest ?l 1 7)"
    using embedding_loop_levels [OF assms(3,4), of 1 7 name] eq by auto
  ultimately show ?thesis using assms(1) by (simp add: embedding_resolve_def promoted_def)
qed

text \<open>
  Two structs that embed pointers to each other beside a common base: node 0 is
  \<open>Outer { *Ring; Base }\<close>, node 1 is \<open>Ring { *Outer; Inner }\<close>, node 4 is \<open>Inner { X }\<close>.
\<close>

definition embedded_field :: "string \<Rightarrow> addr \<Rightarrow> efield" where
  "embedded_field n t = \<lparr> ef_name = Some n, ef_type = Some t, ef_embedded = True \<rparr>"

definition plain_field :: "string \<Rightarrow> addr \<Rightarrow> efield" where
  "plain_field n t = \<lparr> ef_name = Some n, ef_type = Some t, ef_embedded = False \<rparr>"

definition struct_node :: "string \<Rightarrow> nat option \<Rightarrow> efield list \<Rightarrow> etype" where
  "struct_node n pkg fs = \<lparr> et_data = EStruct fs (Some n), et_name = None, et_owner = pkg \<rparr>"

definition pointer_node :: "addr \<Rightarrow> etype" where
  "pointer_node a = \<lparr> et_data = EPointer (Some a), et_name = None, et_owner = None \<rparr>"

definition ring_heap :: "addr \<Rightarrow> etype" where
  "ring_heap a =
     (if a = 0 then struct_node ''Outer'' None [embedded_field ''Ring'' 2, embedded_field ''Base'' 5]
      else if a = 1 then struct_node ''Ring'' None [embedded_field ''Outer'' 3, embedded_field ''Inner'' 4]
      else if a = 2 then pointer_node 1 else if a = 3 then pointer_node 0
      else if a = 4 then struct_node ''Inner'' None [plain_field ''X'' 6]
      else if a = 5 then struct_node ''Base'' None [plain_field ''Y'' 6]
      else \<lparr> et_data = EOther, et_name = Some ''int'', et_owner = None \<rparr>)"

definition ring_checker :: echecker where
  "ring_checker = \<lparr> ec_heap = ring_heap, ec_scope = [], ec_exports = (\<lambda>_. []), ec_current = None \<rparr>"

lemma level_closed:
  assumes "root \<in> S" and "\<And>t. t \<in> S \<Longrightarrow> set (embeds h t) \<subseteq> S" and "e \<in> set (level h root d)"
  shows "q_type e \<in> S"
  using assms(3)
proof (induction d arbitrary: e)
  case (Suc d)
  then obtain f where "f \<in> set (level h root d)" "e \<in> set (hops h f)" by auto
  then show ?case using Suc.IH assms(2) hops_embedsD by blast
qed (simp add: assms(1))

lemma names_identifyI:
  assumes "root \<in> S" and "\<And>t. t \<in> S \<Longrightarrow> set (embeds h t) \<subseteq> S" and "inj_on (\<lambda>t. embed_type_name (h t)) S"
  shows "names_identify h root"
  using level_closed [OF assms(1,2)] inj_onD [OF assms(3)] unfolding names_identify_def by blast

lemma ring_names: "names_identify ring_heap 0"
proof (rule names_identifyI [where S = "{0, 1, 4, 5}"])
  fix t :: addr
  assume "t \<in> {0, 1, 4, 5}"
  moreover have "embeds ring_heap 0 = [1, 5]" "embeds ring_heap 1 = [0, 4]" "embeds ring_heap 4 = []" "embeds ring_heap 5 = []"
    by code_simp+
  ultimately show "set (embeds ring_heap t) \<subseteq> {0, 1, 4, 5}" by auto
qed (simp_all add: inj_on_def ring_heap_def struct_node_def embed_type_name_def)

theorem embedding_resolve_correct_witness:
  "embedding_resolve ring_checker 0 ''X'' = Some (promoted ring_checker 0 ''X'')
   \<and> er_path (promoted ring_checker 0 ''X'') = [Some ''Ring'', Some ''Inner'']"
proof
  show "embedding_resolve ring_checker 0 ''X'' = Some (promoted ring_checker 0 ''X'')"
  proof (rule embedding_resolve_correct)
    show "et_data (ec_heap ring_checker 0) = EStruct [embedded_field ''Ring'' 2, embedded_field ''Base'' 5] (Some ''Outer'')"
      by (simp add: ring_checker_def ring_heap_def struct_node_def)
    show "embed_direct_member ring_checker 0 ''X'' = None" by code_simp
    show "names_identify (ec_heap ring_checker) 0" using ring_names by (simp add: ring_checker_def)
    show "fits (ec_heap ring_checker) 0" by code_simp
  qed
  show "er_path (promoted ring_checker 0 ''X'') = [Some ''Ring'', Some ''Inner'']" by code_simp
qed

section \<open>The search always ends\<close>

lemma visit_field_queue: "length (es_queue s) \<le> 64 \<Longrightarrow> length (es_queue (visit_field h e f s)) \<le> 64 \<and> es_head (visit_field h e f s) = es_head s"
  by (auto simp: visit_field_def Let_def EMBED_MAX_QUEUE_def split: option.splits)

lemma visit_entry_queue:
  assumes "length (es_queue s) \<le> 64"
  shows "length (es_queue (visit_entry c name e s)) \<le> 64 \<and> es_head (visit_entry c name e s) = es_head s"
proof -
  have "length (es_queue (fold (visit_field h e) fs t)) \<le> 64 \<and> es_head (fold (visit_field h e) fs t) = es_head t"
    if "length (es_queue t) \<le> 64" for h fs t
    using that by (induction fs arbitrary: t) (simp_all add: visit_field_queue)
  then show ?thesis using assms by (auto simp: visit_entry_def descend_def split: option.splits edata.splits)
qed

lemma visit_level_queue:
  assumes "length (es_queue s) \<le> 64"
  shows "length (es_queue (visit_level c name s)) \<le> 64"
    and "\<not> es_done (visit_level c name s) \<Longrightarrow> es_head (visit_level c name s) = length (es_queue s)"
proof -
  have "length (es_queue (fold (visit_entry c name) es t)) \<le> 64" if "length (es_queue t) \<le> 64" for es t
    using that by (induction es arbitrary: t) (simp_all add: visit_entry_queue)
  then show "length (es_queue (visit_level c name s)) \<le> 64" using assms by (simp add: visit_level_def Let_def)
qed (auto simp: visit_level_def Let_def split: if_splits)

text \<open>
  The resolver returns on every type graph, cyclic or not, and whatever the names are: the queue
  never holds more than 64 entries and each level moves the head past the entries it found.
\<close>

lemma embedding_resolve_terminates: "\<exists>r. embedding_resolve c root name = Some r"
proof -
  have "\<exists>t. embedding_loop c name s = Some t" if "length (es_queue s) \<le> 64" for s
    unfolding embedding_loop_def
    by (rule measure_while_option_Some [where P = "\<lambda>s. length (es_queue s) \<le> 64"
          and f = "\<lambda>s. if es_done s then 0 else 65 - es_head s"])
       (use that visit_level_queue in \<open>auto simp: le_less_trans\<close>)
  then show ?thesis by (auto simp: embedding_resolve_def embed_start_def split: edata.splits)
qed

section \<open>Types of the same name in different packages\<close>

text \<open>
  Node 0 is \<open>Outer { a.Base; b.Mid }\<close>, node 2 is \<open>Mid { Base }\<close> of package \<open>b\<close>, whose own
  \<open>Base\<close> (node 3) has the field \<open>Y\<close>; node 1 is the \<open>Base\<close> of package \<open>a\<close>.
\<close>

definition clash_heap :: "addr \<Rightarrow> etype" where
  "clash_heap a =
     (if a = 0 then struct_node ''Outer'' None [embedded_field ''Base'' 1, embedded_field ''Mid'' 2]
      else if a = 1 then struct_node ''Base'' (Some 0) [plain_field ''X'' 6]
      else if a = 2 then struct_node ''Mid'' (Some 1) [embedded_field ''Base'' 3]
      else if a = 3 then struct_node ''Base'' (Some 1) [plain_field ''Y'' 6]
      else \<lparr> et_data = EOther, et_name = Some ''int'', et_owner = None \<rparr>)"

definition clash_checker :: echecker where
  "clash_checker = \<lparr> ec_heap = clash_heap, ec_scope = [], ec_exports = (\<lambda>_. []), ec_current = None \<rparr>"

text \<open>
  The visited set compares bare type names, so an embedded type is not searched when a type of
  the same name from another package was met at a smaller depth: the rule promotes \<open>Y\<close> through
  \<open>Mid.Base\<close>, the resolver reports that there is no such member.
\<close>

theorem embedding_name_clash:
  "embedding_resolve clash_checker 0 ''Y'' = Some no_result
   \<and> er_kind (promoted clash_checker 0 ''Y'') = EMBED_FIELD
   \<and> er_path (promoted clash_checker 0 ''Y'') = [Some ''Mid'', Some ''Base'']"
proof (intro conjI)
  show "embedding_resolve clash_checker 0 ''Y'' = Some no_result" by code_simp
  show "er_kind (promoted clash_checker 0 ''Y'') = EMBED_FIELD" by code_simp
  show "er_path (promoted clash_checker 0 ''Y'') = [Some ''Mid'', Some ''Base'']" by code_simp
qed

end
