(* ===== verification/Comptime.thy ===== *)
theory Comptime
  imports Strings Types Token
begin

text \<open>
  Compile-time evaluation: the values and contexts of \<open>src/comptime/comptime_value.c\<close>, the
  evaluator of \<open>src/comptime/comptime.c\<close> and the three intrinsics it calls from
  \<open>src/comptime/comptime_intrinsics.c\<close>. Values are trees, so copying and freeing them is not
  visible, except where the code frees one result twice. Floating-point arithmetic is a
  parameter. An evaluation ends in \<open>Done\<close>, in \<open>Undefined\<close> where the C code has undefined
  behaviour (a null dereference, the wrong member of a union, signed overflow, a double free),
  or in \<open>NoReturn\<close> when it needs deeper nesting of user function calls than it was given:
  the code has no bound on that nesting.
\<close>

section \<open>Outcomes\<close>

datatype 'a outcome = Done 'a | Undefined | NoReturn

fun obind :: "'a outcome \<Rightarrow> ('a \<Rightarrow> 'b outcome) \<Rightarrow> 'b outcome" where
  "obind (Done x) k = k x"
| "obind Undefined k = Undefined"
| "obind NoReturn k = NoReturn"

lemma obind_Done: "obind m k = Done y \<longleftrightarrow> (\<exists>x. m = Done x \<and> k x = Done y)"
  by (cases m) simp_all

section \<open>Syntax trees\<close>

text \<open>\<open>ENull\<close> and \<open>SNull\<close> are null pointers. The kinds the evaluator does not know carry their number.\<close>

datatype cexpr =
    ENull
  | ELiteral position token_type "string option"
  | EIdentifier position string
  | EBinary position token_type cexpr cexpr
  | EUnary position token_type cexpr
  | ECall position cexpr "cexpr list"
  | EOther position nat

text \<open>A parameter declaration is its names; a node of another kind is skipped by the binding loop.\<close>

datatype cparam = ParamDecl "string list" | OtherParam

datatype cstmt =
    SNull
  | SExpr position cexpr
  | SConst position "string list" cexpr
  | SVar position "string list" cexpr
  | SBlock position "cstmt list"
  | SIf position cexpr cstmt cstmt
  | SFor position cstmt cexpr cstmt cstmt
  | SReturn position cexpr
  | SFunc position string "cparam list" cstmt
  | SOther position nat

definition no_pos :: position where
  "no_pos = \<lparr> pos_line = 0, pos_column = 0, pos_offset = 0, pos_filename = None \<rparr>"

primrec stmt_pos :: "cstmt \<Rightarrow> position" where
  "stmt_pos SNull = no_pos"
| "stmt_pos (SExpr p e) = p"
| "stmt_pos (SConst p ns e) = p"
| "stmt_pos (SVar p ns e) = p"
| "stmt_pos (SBlock p ss) = p"
| "stmt_pos (SIf p c t e) = p"
| "stmt_pos (SFor p i c q b) = p"
| "stmt_pos (SReturn p e) = p"
| "stmt_pos (SFunc p n ps b) = p"
| "stmt_pos (SOther p k) = p"

section \<open>Values\<close>

datatype 'f cvalue =
    CInt "64 word"
  | CFloat 'f
  | CBool bool
  | CString "string option"
  | CArray "'f cvalue list"
  | CStruct "(string \<times> 'f cvalue) list"
  | CFunction "cstmt option" "nat option"
  | CType "ty option"
  | CNull
  | CUndefined

text \<open>What the code uses of \<open>double\<close>, with \<open>atof\<close> and the \<open>%g\<close> and \<open>%f\<close> formats.\<close>

record 'f float_ops =
  fo_of_int :: "64 word \<Rightarrow> 'f"
  fo_add :: "'f \<Rightarrow> 'f \<Rightarrow> 'f"
  fo_sub :: "'f \<Rightarrow> 'f \<Rightarrow> 'f"
  fo_mul :: "'f \<Rightarrow> 'f \<Rightarrow> 'f"
  fo_div :: "'f \<Rightarrow> 'f \<Rightarrow> 'f"
  fo_neg :: "'f \<Rightarrow> 'f"
  fo_eq :: "'f \<Rightarrow> 'f \<Rightarrow> bool"
  fo_lt :: "'f \<Rightarrow> 'f \<Rightarrow> bool"
  fo_le :: "'f \<Rightarrow> 'f \<Rightarrow> bool"
  fo_atof :: "string \<Rightarrow> 'f"
  fo_print_g :: "'f \<Rightarrow> string"
  fo_print_f :: "'f \<Rightarrow> string"

fun comptime_value_copy :: "'f cvalue \<Rightarrow> 'f cvalue" where
  "comptime_value_copy (CInt i) = CInt i"
| "comptime_value_copy (CFloat x) = CFloat x"
| "comptime_value_copy (CBool b) = CBool b"
| "comptime_value_copy (CString s) = (case s of Some t \<Rightarrow> CString (Some t) | None \<Rightarrow> CString None)"
| "comptime_value_copy (CArray vs) = CArray (map comptime_value_copy vs)"
| "comptime_value_copy (CStruct fs) = CStruct (map (\<lambda>(n, v). (n, comptime_value_copy v)) fs)"
| "comptime_value_copy (CFunction f c) = CFunction f c"
| "comptime_value_copy (CType t) = CType t"
| "comptime_value_copy CNull = CNull"
| "comptime_value_copy CUndefined = CUndefined"

text \<open>\<open>atoll\<close>: text without digits is zero, a number out of range is undefined.\<close>

definition atoll :: "string option \<Rightarrow> 64 word outcome" where
  "atoll s = (case s of None \<Rightarrow> Undefined | Some t \<Rightarrow>
     (case strtoll (bytes_of t) of Parsed v rest \<Rightarrow> Done (word_of_int v) | NoDigits \<Rightarrow> Done 0 | RangeError \<Rightarrow> Undefined))"

definition comptime_value_from_literal :: "'f float_ops \<Rightarrow> token_type \<Rightarrow> string option \<Rightarrow> 'f cvalue option outcome" where
  "comptime_value_from_literal F ty value =
     (if ty = TOKEN_INT then obind (atoll value) (\<lambda>i. Done (Some (CInt i)))
      else if ty = TOKEN_FLOAT then (case value of None \<Rightarrow> Undefined | Some t \<Rightarrow> Done (Some (CFloat (fo_atof F t))))
      else if ty = TOKEN_TRUE then Done (Some (CBool True))
      else if ty = TOKEN_FALSE then Done (Some (CBool False))
      else if ty = TOKEN_STRING then Done (Some (CString value))
      else if ty = TOKEN_NIL then Done (Some CNull)
      else Done None)"

definition comptime_value_is_truthy :: "'f float_ops \<Rightarrow> 'f cvalue option \<Rightarrow> bool" where
  "comptime_value_is_truthy F value = (case value of None \<Rightarrow> False | Some v \<Rightarrow> (case v of
     CInt i \<Rightarrow> i \<noteq> 0
   | CFloat x \<Rightarrow> \<not> fo_eq F x (fo_of_int F 0)
   | CBool b \<Rightarrow> b
   | CString s \<Rightarrow> (case s of Some t \<Rightarrow> length t > 0 | None \<Rightarrow> False)
   | CArray vs \<Rightarrow> length vs > 0
   | CNull \<Rightarrow> False
   | CUndefined \<Rightarrow> False
   | _ \<Rightarrow> True))"

definition comptime_value_to_string :: "'f float_ops \<Rightarrow> 'f cvalue option \<Rightarrow> string" where
  "comptime_value_to_string F value = (case value of None \<Rightarrow> ''null'' | Some v \<Rightarrow> (case v of
     CInt i \<Rightarrow> int_to_dec (sint i)
   | CFloat x \<Rightarrow> fo_print_g F x
   | CBool b \<Rightarrow> (if b then ''true'' else ''false'')
   | CString s \<Rightarrow> (case s of Some t \<Rightarrow> t | None \<Rightarrow> [])
   | CNull \<Rightarrow> ''null''
   | CUndefined \<Rightarrow> ''undefined''
   | CArray vs \<Rightarrow> ''[array]''
   | CStruct fs \<Rightarrow> ''{struct}''
   | CFunction f c \<Rightarrow> ''<function>''
   | CType t \<Rightarrow> ''<type>''))"

text \<open>The literal node for a value; the text of a number goes through a buffer of fixed size.\<close>

definition comptime_value_to_ast :: "'f float_ops \<Rightarrow> 'f cvalue option \<Rightarrow> cexpr" where
  "comptime_value_to_ast F value = (case value of None \<Rightarrow> ENull | Some v \<Rightarrow> (case v of
     CInt i \<Rightarrow> ELiteral no_pos TOKEN_INT (Some (snprintf 32 (int_to_dec (sint i))))
   | CFloat x \<Rightarrow> ELiteral no_pos TOKEN_FLOAT (Some (snprintf 64 (fo_print_f F x)))
   | CBool b \<Rightarrow> ELiteral no_pos TOKEN_IDENT (Some (if b then ''true'' else ''false''))
   | CString s \<Rightarrow> ELiteral no_pos TOKEN_STRING s
   | _ \<Rightarrow> ENull))"

definition type_new :: "basic_kind \<Rightarrow> ty" where
  "type_new k = Type (DBasic k) 0 0 None None"

definition comptime_value_get_type :: "'f cvalue option \<Rightarrow> ty option" where
  "comptime_value_get_type value = (case value of None \<Rightarrow> None | Some v \<Rightarrow> (case v of
     CInt i \<Rightarrow> Some (type_new TYPE_INT64)
   | CFloat x \<Rightarrow> Some (type_new TYPE_FLOAT64)
   | CBool b \<Rightarrow> Some (type_new TYPE_BOOL)
   | CString s \<Rightarrow> Some (type_new TYPE_STRING)
   | CType t \<Rightarrow> t
   | _ \<Rightarrow> None))"

section \<open>Contexts and results\<close>

text \<open>
  A context is the list of frames from the innermost outwards along \<open>parent\<close>; evaluation
  changes the first frame only. Errors carry what their messages print.
\<close>

datatype cerror_kind =
    InvalidExpression | InvalidStatement | InvalidBlock | InvalidFunction | InvalidComptimeBlock
  | UnsupportedExpression nat | UnsupportedStatement nat | UnsupportedBinary token_type | UnsupportedUnary token_type
  | UndefinedVariable string | UndefinedFunction string | DivisionByZero | BinaryTypeError | UnaryTypeError
  | MissingArgument string | ComplexCall | MultipleConstants | MultipleVariables | BindFailed
  | RecursionLimit | IterationLimit | EmitInvalid | EmitNotString | TypeofInvalid | SizeofInvalid | SizeofType
  | TemplateInvalid | LoopInvalid | LoopRange | FieldsInvalid | FormatInvalid | FormatUnsafe

record cerror =
  err_kind :: cerror_kind
  err_pos :: position

record 'f cframe =
  cf_vars :: "(string \<times> 'f cvalue) list"
  cf_funcs :: "(string \<times> cstmt) list"
  cf_errors :: "cerror list"
  cf_max_depth :: nat
  cf_depth :: nat
  cf_code :: "string option"

type_synonym 'f ctx = "'f cframe list"

record 'f cresult =
  cr_value :: "'f cvalue option"
  cr_error :: "cerror option"
  cr_code :: "string option"
  cr_is_return :: bool

type_synonym 'f eval = "('f cresult \<times> 'f ctx) outcome"

definition comptime_context_new :: "'f ctx \<Rightarrow> 'f ctx" where
  "comptime_context_new parent = \<lparr> cf_vars = [], cf_funcs = [], cf_errors = [], cf_max_depth = 100, cf_depth = 0,
     cf_code = None \<rparr> # parent"

definition comptime_result_new :: "'f cvalue option \<Rightarrow> cerror option \<Rightarrow> string option \<Rightarrow> 'f cresult" where
  "comptime_result_new value err code = \<lparr> cr_value = value, cr_error = err, cr_code = code, cr_is_return = False \<rparr>"

abbreviation value_result :: "'f cvalue \<Rightarrow> 'f cresult" where
  "value_result v \<equiv> comptime_result_new (Some v) None None"

abbreviation error_result :: "cerror_kind \<Rightarrow> position \<Rightarrow> 'f cresult" where
  "error_result k p \<equiv> comptime_result_new None (Some \<lparr> err_kind = k, err_pos = p \<rparr>) None"

definition comptime_context_add_error :: "'f ctx \<Rightarrow> cerror \<Rightarrow> 'f ctx" where
  "comptime_context_add_error cs e = (case cs of [] \<Rightarrow> [] | f # fs \<Rightarrow> f\<lparr>cf_errors := e # cf_errors f\<rparr> # fs)"

text \<open>Binding appends, and a lookup takes the first match of the innermost frame that has one.\<close>

definition comptime_context_bind_var :: "'f ctx \<Rightarrow> string \<Rightarrow> 'f cvalue option \<Rightarrow> 'f ctx option" where
  "comptime_context_bind_var cs name value = (case (cs, value) of
     (f # fs, Some v) \<Rightarrow> Some (f\<lparr>cf_vars := cf_vars f @ [(name, v)]\<rparr> # fs)
   | _ \<Rightarrow> None)"

primrec comptime_context_lookup_var :: "'f ctx \<Rightarrow> string \<Rightarrow> 'f cvalue option" where
  "comptime_context_lookup_var [] name = None"
| "comptime_context_lookup_var (f # parents) name =
     (case map_of (cf_vars f) name of Some v \<Rightarrow> Some v | None \<Rightarrow> comptime_context_lookup_var parents name)"

definition comptime_context_bind_func :: "'f ctx \<Rightarrow> string \<Rightarrow> cstmt \<Rightarrow> 'f ctx option" where
  "comptime_context_bind_func cs name fn = (case cs of
     [] \<Rightarrow> None | f # fs \<Rightarrow> if fn = SNull then None else Some (f\<lparr>cf_funcs := cf_funcs f @ [(name, fn)]\<rparr> # fs))"

primrec comptime_context_lookup_func :: "'f ctx \<Rightarrow> string \<Rightarrow> cstmt option" where
  "comptime_context_lookup_func [] name = None"
| "comptime_context_lookup_func (f # parents) name =
     (case map_of (cf_funcs f) name of Some s \<Rightarrow> Some s | None \<Rightarrow> comptime_context_lookup_func parents name)"

section \<open>Operators\<close>

text \<open>Signed 64-bit arithmetic: a result out of range is undefined, and so is the most negative number divided by minus one.\<close>

definition int_result :: "int \<Rightarrow> 64 word outcome" where
  "int_result i = (if - (2 ^ 63) \<le> i \<and> i < 2 ^ 63 then Done (word_of_int i) else Undefined)"

text \<open>The quotient of C, cut towards zero; undefined for a zero divisor, as it is for floats, and on overflow.\<close>

definition c_quotient :: "int \<Rightarrow> int \<Rightarrow> 64 word outcome" where
  "c_quotient a b =
     (if b = 0 then Undefined
      else int_result (if (a < 0) = (b < 0) then \<bar>a\<bar> div \<bar>b\<bar> else - (\<bar>a\<bar> div \<bar>b\<bar>)))"

definition f_quotient :: "'f float_ops \<Rightarrow> 'f \<Rightarrow> 'f \<Rightarrow> 'f outcome" where
  "f_quotient F x y = (if fo_eq F y (fo_of_int F 0) then Undefined else Done (fo_div F x y))"

text \<open>
  The three tests most operators share: two integers, then at least one float, then neither.
  With one float the other operand is read as an integer whatever it is, which is only defined
  for an integer. \<open>Inl\<close> is an error of its own, \<open>Inr None\<close> leaves \<open>result_val\<close> null.
\<close>

type_synonym 'f op_result = "(cerror_kind + 'f cvalue option) outcome"

definition as_float :: "'f float_ops \<Rightarrow> 'f cvalue \<Rightarrow> 'f outcome" where
  "as_float F v = (case v of CFloat x \<Rightarrow> Done x | CInt i \<Rightarrow> Done (fo_of_int F i) | _ \<Rightarrow> Undefined)"

definition is_float :: "'f cvalue \<Rightarrow> bool" where
  "is_float v = (case v of CFloat x \<Rightarrow> True | _ \<Rightarrow> False)"

definition numeric :: "'f float_ops \<Rightarrow> (64 word \<Rightarrow> 64 word \<Rightarrow> 'f op_result) \<Rightarrow> ('f \<Rightarrow> 'f \<Rightarrow> 'f op_result) \<Rightarrow>
    'f op_result \<Rightarrow> 'f cvalue \<Rightarrow> 'f cvalue \<Rightarrow> 'f op_result" where
  "numeric F on_ints on_floats otherwise l r = (case (l, r) of
     (CInt a, CInt b) \<Rightarrow> on_ints a b
   | _ \<Rightarrow> if is_float l \<or> is_float r
          then obind (as_float F l) (\<lambda>x. obind (as_float F r) (\<lambda>y. on_floats x y)) else otherwise)"

definition comparison :: "'f float_ops \<Rightarrow> (int \<Rightarrow> int \<Rightarrow> bool) \<Rightarrow> ('f \<Rightarrow> 'f \<Rightarrow> bool) \<Rightarrow> 'f cvalue \<Rightarrow> 'f cvalue \<Rightarrow> 'f op_result" where
  "comparison F ci cf l r = numeric F (\<lambda>a b. Done (Inr (Some (CBool (ci (sint a) (sint b))))))
     (\<lambda>x y. Done (Inr (Some (CBool (cf x y))))) (Done (Inr None)) l r"

definition on_bools :: "(bool \<Rightarrow> bool \<Rightarrow> bool) \<Rightarrow> 'f cvalue \<Rightarrow> 'f cvalue \<Rightarrow> 'f op_result" where
  "on_bools g l r = (case (l, r) of (CBool a, CBool b) \<Rightarrow> Done (Inr (Some (CBool (g a b)))) | _ \<Rightarrow> Done (Inr None))"

definition arith :: "'f float_ops \<Rightarrow> (int \<Rightarrow> int \<Rightarrow> int) \<Rightarrow> ('f \<Rightarrow> 'f \<Rightarrow> 'f) \<Rightarrow> 'f op_result \<Rightarrow> 'f cvalue \<Rightarrow> 'f cvalue \<Rightarrow> 'f op_result" where
  "arith F gi gf otherwise l r = numeric F
     (\<lambda>a b. obind (int_result (gi (sint a) (sint b))) (\<lambda>i. Done (Inr (Some (CInt i)))))
     (\<lambda>x y. Done (Inr (Some (CFloat (gf x y))))) otherwise l r"

definition concat_strings :: "'f float_ops \<Rightarrow> 'f cvalue \<Rightarrow> 'f cvalue \<Rightarrow> 'f op_result" where
  "concat_strings F l r =
     (if (\<exists>s \<in> set [l, r]. case s of CString t \<Rightarrow> True | _ \<Rightarrow> False)
      then Done (Inr (Some (CString (Some (comptime_value_to_string F (Some l) @ comptime_value_to_string F (Some r))))))
      else Done (Inr None))"

definition divide :: "'f float_ops \<Rightarrow> 'f cvalue \<Rightarrow> 'f cvalue \<Rightarrow> 'f op_result" where
  "divide F l r = numeric F
     (\<lambda>a b. if b = 0 then Done (Inl DivisionByZero)
            else obind (c_quotient (sint a) (sint b)) (\<lambda>i. Done (Inr (Some (CInt i)))))
     (\<lambda>x y. if fo_eq F y (fo_of_int F 0) then Done (Inl DivisionByZero)
            else obind (f_quotient F x y) (\<lambda>z. Done (Inr (Some (CFloat z)))))
     (Done (Inr None)) l r"

definition equality :: "'f float_ops \<Rightarrow> bool \<Rightarrow> 'f cvalue \<Rightarrow> 'f cvalue \<Rightarrow> 'f op_result" where
  "equality F eq l r = numeric F (\<lambda>a b. Done (Inr (Some (CBool ((sint a = sint b) = eq)))))
     (\<lambda>x y. Done (Inr (Some (CBool (fo_eq F x y = eq))))) (on_bools (\<lambda>a b. (a = b) = eq) l r) l r"

text \<open>The switch over the operator; the operands are dereferenced in every arm but the logical ones.\<close>

definition operands :: "'f cvalue option \<Rightarrow> 'f cvalue option \<Rightarrow> ('f cvalue \<Rightarrow> 'f cvalue \<Rightarrow> 'f op_result) \<Rightarrow> 'f op_result" where
  "operands l r k = (case (l, r) of (Some a, Some b) \<Rightarrow> k a b | _ \<Rightarrow> Undefined)"

definition binary_op :: "'f float_ops \<Rightarrow> token_type \<Rightarrow> 'f cvalue option \<Rightarrow> 'f cvalue option \<Rightarrow> 'f op_result" where
  "binary_op F op l r =
     (if op = TOKEN_PLUS then operands l r (\<lambda>a b. arith F (+) (fo_add F) (concat_strings F a b) a b)
      else if op = TOKEN_MINUS then operands l r (arith F (-) (fo_sub F) (Done (Inr None)))
      else if op = TOKEN_MULTIPLY then operands l r (arith F (*) (fo_mul F) (Done (Inr None)))
      else if op = TOKEN_DIVIDE then operands l r (divide F)
      else if op = TOKEN_EQ then operands l r (equality F True)
      else if op = TOKEN_NE then operands l r (equality F False)
      else if op = TOKEN_LT then operands l r (comparison F (<) (fo_lt F))
      else if op = TOKEN_LE then operands l r (comparison F (\<le>) (fo_le F))
      else if op = TOKEN_GT then operands l r (comparison F (>) (\<lambda>x y. fo_lt F y x))
      else if op = TOKEN_GE then operands l r (comparison F (\<ge>) (\<lambda>x y. fo_le F y x))
      else if op = TOKEN_AND then
        Done (Inr (Some (CBool (comptime_value_is_truthy F l \<and> comptime_value_is_truthy F r))))
      else if op = TOKEN_OR then
        Done (Inr (Some (CBool (comptime_value_is_truthy F l \<or> comptime_value_is_truthy F r))))
      else Done (Inl (UnsupportedBinary op)))"

definition unary_op :: "'f float_ops \<Rightarrow> token_type \<Rightarrow> 'f cvalue option \<Rightarrow> 'f op_result" where
  "unary_op F op v =
     (if op = TOKEN_MINUS then (case v of None \<Rightarrow> Undefined
        | Some (CInt i) \<Rightarrow> obind (int_result (- sint i)) (\<lambda>j. Done (Inr (Some (CInt j))))
        | Some (CFloat x) \<Rightarrow> Done (Inr (Some (CFloat (fo_neg F x))))
        | Some _ \<Rightarrow> Done (Inr None))
      else if op = TOKEN_PLUS then (case v of None \<Rightarrow> Undefined
        | Some (CInt i) \<Rightarrow> Done (Inr (Some (CInt i)))
        | Some (CFloat x) \<Rightarrow> Done (Inr (Some (CFloat x)))
        | Some _ \<Rightarrow> Done (Inr None))
      else if op = TOKEN_NOT then Done (Inr (Some (CBool (\<not> comptime_value_is_truthy F v))))
      else Done (Inl (UnsupportedUnary op)))"

definition op_outcome :: "cerror_kind \<Rightarrow> position \<Rightarrow> 'f ctx \<Rightarrow> 'f op_result \<Rightarrow> 'f eval" where
  "op_outcome type_error p cs m = obind m (\<lambda>res. Done (case res of
     Inl k \<Rightarrow> error_result k p | Inr None \<Rightarrow> error_result type_error p | Inr (Some v) \<Rightarrow> value_result v, cs))"

section \<open>Intrinsics\<close>

definition append_code :: "string option \<Rightarrow> string \<Rightarrow> string" where
  "append_code code s = (case code of None \<Rightarrow> s | Some c \<Rightarrow> c @ s)"

definition comptime_intrinsic_emit :: "'f ctx \<Rightarrow> 'f cvalue option \<Rightarrow> 'f eval" where
  "comptime_intrinsic_emit cs code = (case (cs, code) of
     (f # fs, Some (CString (Some s))) \<Rightarrow> Done (value_result CNull, f\<lparr>cf_code := Some (append_code (cf_code f) s)\<rparr> # fs)
   | (f # fs, Some (CString None)) \<Rightarrow> Undefined
   | (f # fs, Some _) \<Rightarrow> Done (error_result EmitNotString no_pos, cs)
   | _ \<Rightarrow> Done (error_result EmitInvalid no_pos, cs))"

definition comptime_intrinsic_typeof :: "'f ctx \<Rightarrow> 'f cvalue option \<Rightarrow> 'f eval" where
  "comptime_intrinsic_typeof cs value = (case (cs, value) of
     (f # fs, Some v) \<Rightarrow> Done (value_result (CString (Some (case v of
         CInt i \<Rightarrow> ''int'' | CFloat x \<Rightarrow> ''float'' | CBool b \<Rightarrow> ''bool'' | CString s \<Rightarrow> ''string''
       | CArray vs \<Rightarrow> ''array'' | CStruct fs \<Rightarrow> ''struct'' | CFunction g c \<Rightarrow> ''function'' | CType t \<Rightarrow> ''type''
       | CNull \<Rightarrow> ''null'' | CUndefined \<Rightarrow> ''undefined''))), cs)
   | _ \<Rightarrow> Done (error_result TypeofInvalid no_pos, cs))"

definition comptime_intrinsic_sizeof :: "'f ctx \<Rightarrow> 'f cvalue option \<Rightarrow> 'f eval" where
  "comptime_intrinsic_sizeof cs value = (case (cs, value) of
     (f # fs, Some v) \<Rightarrow> (case v of
         CInt i \<Rightarrow> Done (value_result (CInt 8), cs)
       | CFloat x \<Rightarrow> Done (value_result (CInt 8), cs)
       | CBool b \<Rightarrow> Done (value_result (CInt 1), cs)
       | CString s \<Rightarrow> Done (value_result (CInt (case s of Some t \<Rightarrow> word_of_nat (length t) | None \<Rightarrow> 0)), cs)
       | CArray vs \<Rightarrow> Done (value_result (CInt (word_of_nat (length vs))), cs)
       | _ \<Rightarrow> Done (error_result SizeofType no_pos, cs))
   | _ \<Rightarrow> Done (error_result SizeofInvalid no_pos, cs))"

section \<open>Expressions\<close>

text \<open>
  \<open>call\<close> is \<open>comptime_call_user_function\<close> at the nesting still available. The argument loop
  stops after sixteen arguments; a failing argument's result is the result of the call.
\<close>

type_synonym 'f callee = "'f ctx \<Rightarrow> cstmt \<Rightarrow> 'f cvalue list \<Rightarrow> 'f cresult outcome"

definition failed :: "'f cresult \<Rightarrow> bool" where
  "failed r = (cr_error r \<noteq> None)"

fun eval_expr :: "'f float_ops \<Rightarrow> 'f callee \<Rightarrow> 'f ctx \<Rightarrow> cexpr \<Rightarrow> 'f eval"
  and eval_args :: "'f float_ops \<Rightarrow> 'f callee \<Rightarrow> 'f ctx \<Rightarrow> cexpr list \<Rightarrow> nat \<Rightarrow>
    (('f cresult + 'f cvalue list) \<times> 'f ctx) outcome"
  and eval_first :: "'f float_ops \<Rightarrow> 'f callee \<Rightarrow> 'f ctx \<Rightarrow> cexpr list \<Rightarrow> string \<Rightarrow> position \<Rightarrow>
    ('f ctx \<Rightarrow> 'f cvalue option \<Rightarrow> 'f eval) \<Rightarrow> 'f eval" where
  "eval_expr F call cs ENull = Done (error_result InvalidExpression no_pos, cs)"
| "eval_expr F call cs (ELiteral p ty s) =
     obind (comptime_value_from_literal F ty s) (\<lambda>v. Done (comptime_result_new v None None, cs))"
| "eval_expr F call cs (EIdentifier p name) = (case comptime_context_lookup_var cs name of
     None \<Rightarrow> Done (error_result (UndefinedVariable name) p, cs)
   | Some v \<Rightarrow> Done (value_result (comptime_value_copy v), cs))"
| "eval_expr F call cs (EBinary p op l r) =
     obind (eval_expr F call cs l) (\<lambda>(lr, cs1).
       if failed lr then Done (lr, cs1)
       else obind (eval_expr F call cs1 r) (\<lambda>(rr, cs2).
         if failed rr then Done (rr, cs2)
         else op_outcome BinaryTypeError p cs2 (binary_op F op (cr_value lr) (cr_value rr))))"
| "eval_expr F call cs (EUnary p op e) =
     obind (eval_expr F call cs e) (\<lambda>(r, cs1).
       if failed r then Done (r, cs1) else op_outcome UnaryTypeError p cs1 (unary_op F op (cr_value r)))"
| "eval_expr F call cs (ECall p fn args) = (case fn of
     EIdentifier fp name \<Rightarrow>
       if take 1 name = ''@'' then
         (if name = ''@emit'' then eval_first F call cs args name p comptime_intrinsic_emit
          else if name = ''@typeof'' then eval_first F call cs args name p comptime_intrinsic_typeof
          else if name = ''@sizeof'' then eval_first F call cs args name p comptime_intrinsic_sizeof
          else Done (error_result ComplexCall p, cs))
       else (case comptime_context_lookup_func cs name of
           None \<Rightarrow> Done (error_result (UndefinedFunction name) p, cs)
         | Some f \<Rightarrow> obind (eval_args F call cs args 16) (\<lambda>(res, cs1). case res of
               Inl r \<Rightarrow> Done (r, cs1)
             | Inr vs \<Rightarrow> obind (call cs1 f vs) (\<lambda>r. Done (r\<lparr>cr_is_return := False\<rparr>, cs1))))
   | _ \<Rightarrow> Done (error_result ComplexCall p, cs))"
| "eval_expr F call cs (EOther p k) = Done (error_result (UnsupportedExpression k) p, cs)"
| "eval_args F call cs [] n = Done (Inr [], cs)"
| "eval_args F call cs (a # as) n =
     (if n = 0 then Done (Inr [], cs)
      else obind (eval_expr F call cs a) (\<lambda>(r, cs1).
        case cr_value r of
          Some v \<Rightarrow> if failed r then Done (Inl r, cs1)
                    else obind (eval_args F call cs1 as (n - 1)) (\<lambda>(res, cs2). case res of
                        Inl r' \<Rightarrow> Done (Inl r', cs2) | Inr vs \<Rightarrow> Done (Inr (v # vs), cs2))
        | None \<Rightarrow> Done (Inl r, cs1)))"
| "eval_first F call cs [] name p k = Done (error_result (MissingArgument name) p, cs)"
| "eval_first F call cs (a # as) name p k =
     obind (eval_expr F call cs a) (\<lambda>(r, cs1). if failed r then Done (r, cs1) else k cs1 (cr_value r))"

section \<open>Statements\<close>

text \<open>\<open>comptime_eval_statement\<close> knows expressions and declarations of one name only.\<close>

primrec stmt_kind :: "cstmt \<Rightarrow> nat" where
  "stmt_kind (SBlock p ss) = 9"
| "stmt_kind (SIf p c t e) = 11"
| "stmt_kind (SFor p i c q b) = 13"
| "stmt_kind (SReturn p e) = 14"
| "stmt_kind (SFunc p n ps b) = 3"
| "stmt_kind (SOther p k) = k"
| "stmt_kind (SExpr p e) = 10"
| "stmt_kind (SConst p ns e) = 5"
| "stmt_kind (SVar p ns e) = 4"
| "stmt_kind SNull = 0"

definition comptime_eval_statement :: "'f float_ops \<Rightarrow> 'f callee \<Rightarrow> 'f ctx \<Rightarrow> cstmt \<Rightarrow> 'f eval" where
  "comptime_eval_statement F call cs s = (case s of
     SNull \<Rightarrow> Done (error_result InvalidStatement no_pos, cs)
   | SExpr p e \<Rightarrow> eval_expr F call cs e
   | SConst p names e \<Rightarrow>
       if length names \<noteq> 1 then Done (error_result MultipleConstants p, cs)
       else obind (eval_expr F call cs e) (\<lambda>(r, cs1).
         if failed r then Done (r, cs1)
         else (case comptime_context_bind_var cs1 (hd names) (map_option comptime_value_copy (cr_value r)) of
             None \<Rightarrow> Done (error_result BindFailed p, cs1)
           | Some cs2 \<Rightarrow> Done (r, cs2)))
   | SVar p names e \<Rightarrow>
       if length names \<noteq> 1 then Done (error_result MultipleVariables p, cs)
       else obind (if e = ENull then Done (value_result CUndefined, cs) else eval_expr F call cs e) (\<lambda>(r, cs1).
         if failed r then Done (r, cs1)
         else (case comptime_context_bind_var cs1 (hd names) (cr_value r) of
             None \<Rightarrow> Done (error_result BindFailed p, cs1)
           | Some cs2 \<Rightarrow> Done (comptime_result_new (map_option comptime_value_copy (cr_value r)) None None, cs2)))
   | _ \<Rightarrow> Done (error_result (UnsupportedStatement (stmt_kind s)) (stmt_pos s), cs))"

text \<open>
  The loop of a \<open>for\<close> in its own context; \<open>prev\<close> is the result of the last body, if any, and
  \<open>n\<close> the iterations left of the limit.
\<close>

fun for_loop :: "'f float_ops \<Rightarrow> 'f callee \<Rightarrow> position \<Rightarrow> cexpr \<Rightarrow> cstmt \<Rightarrow> cstmt \<Rightarrow> nat \<Rightarrow> 'f cresult option \<Rightarrow> 'f ctx \<Rightarrow>
    'f cresult outcome" where
  "for_loop F call p cond post body 0 prev cs = Done (error_result IterationLimit p)"
| "for_loop F call p cond post body (Suc n) prev cs =
     obind (if cond = ENull then Done (value_result (CBool True), cs) else eval_expr F call cs cond) (\<lambda>(cr, cs1).
       if failed cr then Done cr
       else if \<not> comptime_value_is_truthy F (cr_value cr) then
         Done (case prev of
             None \<Rightarrow> value_result CNull
           | Some r \<Rightarrow> (case (cf_code (hd cs1), cr_code r) of (Some c, None) \<Rightarrow> r\<lparr>cr_code := Some c\<rparr> | _ \<Rightarrow> r))
       else obind (comptime_eval_statement F call cs1 body) (\<lambda>(br, cs2).
         if failed br then Done br
         else if post = SNull then for_loop F call p cond post body n (Some br) cs2
         else obind (comptime_eval_statement F call cs2 post) (\<lambda>(pr, cs3).
           if failed pr then Done pr else for_loop F call p cond post body n (Some br) cs3)))"

text \<open>
  With an initialisation the code frees its result and then uses it again, as the previous
  result or as the value of the loop, unless the first evaluation of the condition fails.
\<close>

definition comptime_eval_for_stmt :: "'f float_ops \<Rightarrow> 'f callee \<Rightarrow> 'f ctx \<Rightarrow> position \<Rightarrow> cstmt \<Rightarrow> cexpr \<Rightarrow> cstmt \<Rightarrow> cstmt \<Rightarrow>
    'f cresult outcome" where
  "comptime_eval_for_stmt F call cs p init cond post body =
     (let loop = comptime_context_new cs in
      if init = SNull then for_loop F call p cond post body 1000 None loop
      else obind (comptime_eval_statement F call loop init) (\<lambda>(ir, cs1).
        if failed ir then Done ir
        else if cond = ENull then Undefined
        else obind (eval_expr F call cs1 cond) (\<lambda>(cr, cs2). if failed cr then Done cr else Undefined)))"

definition comptime_eval_return_stmt :: "'f float_ops \<Rightarrow> 'f callee \<Rightarrow> 'f ctx \<Rightarrow> cexpr \<Rightarrow> 'f eval" where
  "comptime_eval_return_stmt F call cs e =
     (if e = ENull then Done ((value_result CNull)\<lparr>cr_is_return := True\<rparr>, cs)
      else obind (eval_expr F call cs e) (\<lambda>(r, cs1).
        if failed r then Done (r, cs1) else Done (r\<lparr>cr_is_return := True\<rparr>, cs1)))"

fun eval_stmt :: "'f float_ops \<Rightarrow> 'f callee \<Rightarrow> 'f ctx \<Rightarrow> cstmt \<Rightarrow> 'f eval"
  and eval_stmts :: "'f float_ops \<Rightarrow> 'f callee \<Rightarrow> 'f ctx \<Rightarrow> cstmt list \<Rightarrow> 'f cresult option \<Rightarrow> 'f cresult outcome" where
  "eval_stmt F call cs (SBlock p ss) =
     obind (eval_stmts F call (comptime_context_new cs) ss None) (\<lambda>r. Done (r, cs))"
| "eval_stmt F call cs (SIf p c t e) =
     obind (eval_expr F call cs c) (\<lambda>(cr, cs1).
       if failed cr then Done (cr, cs1)
       else if comptime_value_is_truthy F (cr_value cr) then eval_stmt F call cs1 t
       else if e \<noteq> SNull then eval_stmt F call cs1 e
       else Done (value_result CNull, cs1))"
| "eval_stmt F call cs (SFor p i c q b) =
     obind (comptime_eval_for_stmt F call cs p i c q b) (\<lambda>r. Done (r, cs))"
| "eval_stmt F call cs (SReturn p e) = comptime_eval_return_stmt F call cs e"
| "eval_stmt F call cs (SFunc p name ps body) = (case comptime_context_bind_func cs name (SFunc p name ps body) of
     None \<Rightarrow> Done (error_result BindFailed p, cs)
   | Some cs1 \<Rightarrow> Done (value_result CNull, cs1))"
| "eval_stmt F call cs s = comptime_eval_statement F call cs s"
| "eval_stmts F call cs [] prev = Done (case prev of None \<Rightarrow> value_result CNull | Some r \<Rightarrow> r)"
| "eval_stmts F call cs (s # ss) prev =
     obind (eval_stmt F call cs s) (\<lambda>(r, cs1).
       if failed r \<or> cr_is_return r then Done r else eval_stmts F call cs1 ss (Some r))"

definition eval_block :: "'f float_ops \<Rightarrow> 'f callee \<Rightarrow> 'f ctx \<Rightarrow> cstmt \<Rightarrow> 'f cresult outcome" where
  "eval_block F call cs block = (case block of
     SBlock p ss \<Rightarrow> eval_stmts F call (comptime_context_new cs) ss None
   | _ \<Rightarrow> Done (error_result InvalidBlock no_pos))"

section \<open>User functions\<close>

text \<open>The names of the parameter declarations in order, each taking the next argument while there is one.\<close>

definition param_names :: "cparam list \<Rightarrow> string list" where
  "param_names ps = concat (map (\<lambda>q. case q of ParamDecl ns \<Rightarrow> ns | OtherParam \<Rightarrow> []) ps)"

definition bind_params :: "cparam list \<Rightarrow> 'f cvalue list \<Rightarrow> (string \<times> 'f cvalue) list" where
  "bind_params ps args = zip (param_names ps) (map comptime_value_copy args)"

text \<open>The body of \<open>comptime_call_user_function\<close>, over the callee that evaluates the calls in the function's body.\<close>

definition call_user :: "'f float_ops \<Rightarrow> 'f callee \<Rightarrow> 'f callee" where
  "call_user F call cs fn args = (case (cs, fn) of
     (c # _, SFunc p name ps body) \<Rightarrow>
       if cf_depth c \<ge> cf_max_depth c then Done (error_result RecursionLimit p)
       else (case comptime_context_new cs of [] \<Rightarrow> Undefined | f # parents \<Rightarrow>
         (let func_ctx = f\<lparr>cf_depth := cf_depth c + 1, cf_vars := bind_params ps args\<rparr> # parents in
          obind (eval_block F call func_ctx body) (\<lambda>r.
            Done (case (cf_code (hd func_ctx), cr_code r) of (Some code, None) \<Rightarrow> r\<lparr>cr_code := Some code\<rparr> | _ \<Rightarrow> r))))
   | _ \<Rightarrow> Done (error_result InvalidFunction no_pos))"

primrec comptime_call_user_function :: "'f float_ops \<Rightarrow> nat \<Rightarrow> 'f callee" where
  "comptime_call_user_function F 0 = (\<lambda>cs fn args. NoReturn)"
| "comptime_call_user_function F (Suc n) = call_user F (comptime_call_user_function F n)"

text \<open>The entry points, with at most \<open>n\<close> nested user function calls.\<close>

definition comptime_eval_expression :: "'f float_ops \<Rightarrow> nat \<Rightarrow> 'f ctx \<Rightarrow> cexpr \<Rightarrow> 'f eval" where
  "comptime_eval_expression F n = eval_expr F (comptime_call_user_function F n)"

definition comptime_eval_statement_enhanced :: "'f float_ops \<Rightarrow> nat \<Rightarrow> 'f ctx \<Rightarrow> cstmt \<Rightarrow> 'f eval" where
  "comptime_eval_statement_enhanced F n = eval_stmt F (comptime_call_user_function F n)"

definition comptime_eval_block :: "'f float_ops \<Rightarrow> nat \<Rightarrow> 'f ctx \<Rightarrow> cstmt \<Rightarrow> 'f cresult outcome" where
  "comptime_eval_block F n = eval_block F (comptime_call_user_function F n)"

definition execute_comptime_block :: "'f float_ops \<Rightarrow> nat \<Rightarrow> cstmt option \<Rightarrow> 'f ctx \<Rightarrow> 'f cresult outcome" where
  "execute_comptime_block F n comptime_block global = (case comptime_block of
     None \<Rightarrow> Done (error_result InvalidComptimeBlock no_pos)
   | Some body \<Rightarrow>
       (let cs = (if global = [] then comptime_context_new [] else global) in
        obind (comptime_eval_block F n cs body) (\<lambda>r.
          Done (case (cf_code (hd cs), cr_code r) of (Some code, None) \<Rightarrow> r\<lparr>cr_code := Some code\<rparr> | _ \<Rightarrow> r))))"

section \<open>Constant folding\<close>

fun comptime_constant_fold :: "'f float_ops \<Rightarrow> nat \<Rightarrow> 'f ctx \<Rightarrow> cexpr \<Rightarrow> 'f cvalue option outcome" where
  "comptime_constant_fold F n cs (ELiteral p ty s) = comptime_value_from_literal F ty s"
| "comptime_constant_fold F n cs (EBinary p op l r) =
     obind (comptime_constant_fold F n cs l) (\<lambda>lv.
     obind (comptime_constant_fold F n cs r) (\<lambda>rv.
       if lv = None \<or> rv = None then Done None
       else obind (comptime_eval_expression F n cs (EBinary p op l r)) (\<lambda>(res, cs1).
         Done (if failed res then None else cr_value res))))"
| "comptime_constant_fold F n cs (EUnary p op e) =
     obind (comptime_constant_fold F n cs e) (\<lambda>v.
       if v = None then Done None
       else obind (comptime_eval_expression F n cs (EUnary p op e)) (\<lambda>(res, cs1).
         Done (if failed res then None else cr_value res)))"
| "comptime_constant_fold F n cs (EIdentifier p name) =
     Done (map_option comptime_value_copy (comptime_context_lookup_var cs name))"
| "comptime_constant_fold F n cs e = Done None"

fun comptime_is_evaluable :: "'f ctx \<Rightarrow> cexpr \<Rightarrow> bool" where
  "comptime_is_evaluable cs (ELiteral p ty s) = True"
| "comptime_is_evaluable cs (EIdentifier p name) = (comptime_context_lookup_var cs name \<noteq> None)"
| "comptime_is_evaluable cs (EBinary p op l r) = (comptime_is_evaluable cs l \<and> comptime_is_evaluable cs r)"
| "comptime_is_evaluable cs (EUnary p op e) = comptime_is_evaluable cs e"
| "comptime_is_evaluable cs (ECall p fn args) = (case fn of
     EIdentifier q name \<Rightarrow> take 1 name = ''@'' \<or> comptime_context_lookup_func cs name \<noteq> None
   | _ \<Rightarrow> False)"
| "comptime_is_evaluable cs e = False"

end
