(* ===== verification/Comptime_Props.thy ===== *)
theory Comptime_Props
  imports Comptime Strings_Props
begin

text \<open>
  What the compile-time evaluator guarantees: its result does not depend on the nesting bound
  once it returns, well-typed expressions evaluate to values of their type, constant folding
  agrees with evaluation, and values survive the way back into the syntax tree. The last
  sections show where it differs from its description: recursion is not limited, functions see
  the variables of their callers, and a loop with a block as its body fails.
\<close>

section \<open>The nesting bound\<close>

definition approx :: "'a outcome \<Rightarrow> 'a outcome \<Rightarrow> bool" where
  "approx x y = (x = NoReturn \<or> x = y)"

lemma approx_refl [simp]: "approx x x"
  by (simp add: approx_def)

lemma approx_bind:
  assumes "approx m m'" and "\<And>x. approx (k x) (k' x)"
  shows "approx (obind m k) (obind m' k')"
proof (cases m)
  case (Done x)
  then show ?thesis using assms(1) assms(2) [of x] by (auto simp: approx_def)
qed (use assms(1) in \<open>auto simp: approx_def\<close>)

definition approx_callee :: "'f callee \<Rightarrow> 'f callee \<Rightarrow> bool" where
  "approx_callee c c' = (\<forall>cs f vs. approx (c cs f vs) (c' cs f vs))"

lemma eval_args_mono:
  assumes "\<And>a cs. a \<in> set as \<Longrightarrow> approx (eval_expr F call cs a) (eval_expr F call' cs a)"
  shows "approx (eval_args F call cs as n) (eval_args F call' cs as n)"
  using assms
proof (induction as arbitrary: cs n)
  case (Cons a as)
  then show ?case
    by (auto intro!: approx_bind split: option.splits sum.splits)
qed simp

lemma eval_first_mono:
  assumes "\<And>a cs. a \<in> set as \<Longrightarrow> approx (eval_expr F call cs a) (eval_expr F call' cs a)"
  shows "approx (eval_first F call cs as name p k) (eval_first F call' cs as name p k)"
  using assms by (cases as) (auto intro!: approx_bind)

lemma eval_expr_mono:
  assumes "approx_callee call call'"
  shows "approx (eval_expr F call cs e) (eval_expr F call' cs e)"
proof (induction e arbitrary: cs)
  case (ECall p fn args)
  have callee: "approx (call cs f vs) (call' cs f vs)" for cs f vs
    using assms by (simp add: approx_callee_def)
  show ?case
  proof (cases fn)
    case (EIdentifier q name)
    then show ?thesis using ECall.IH(2)
      by (auto intro!: approx_bind eval_args_mono eval_first_mono callee split: option.splits sum.splits)
  qed simp_all
qed (auto intro!: approx_bind)

lemma eval_statement_mono:
  assumes "approx_callee call call'"
  shows "approx (comptime_eval_statement F call cs s) (comptime_eval_statement F call' cs s)"
  by (cases s) (auto simp: comptime_eval_statement_def intro!: approx_bind eval_expr_mono [OF assms] split: option.splits)

lemma for_loop_mono:
  assumes "approx_callee call call'"
  shows "approx (for_loop F call p c q b n prev cs) (for_loop F call' p c q b n prev cs)"
  by (induction n arbitrary: prev cs)
     (auto intro!: approx_bind eval_expr_mono [OF assms] eval_statement_mono [OF assms])

lemma eval_for_mono:
  assumes "approx_callee call call'"
  shows "approx (comptime_eval_for_stmt F call cs p i c q b) (comptime_eval_for_stmt F call' cs p i c q b)"
  by (auto simp: comptime_eval_for_stmt_def Let_def intro!: approx_bind eval_expr_mono [OF assms]
      eval_statement_mono [OF assms] for_loop_mono [OF assms])

lemma eval_stmts_mono:
  assumes "\<And>s cs. s \<in> set ss \<Longrightarrow> approx (eval_stmt F call cs s) (eval_stmt F call' cs s)"
  shows "approx (eval_stmts F call cs ss prev) (eval_stmts F call' cs ss prev)"
  using assms by (induction ss arbitrary: cs prev) (auto intro!: approx_bind)

lemma eval_stmt_mono:
  assumes "approx_callee call call'"
  shows "approx (eval_stmt F call cs s) (eval_stmt F call' cs s)"
proof (induction s arbitrary: cs)
  case (SBlock p ss)
  then show ?case by (auto intro!: approx_bind eval_stmts_mono)
next
  case (SIf p c t e)
  then show ?case by (auto intro!: approx_bind eval_expr_mono [OF assms])
next
  case (SReturn p e)
  then show ?case by (auto simp: comptime_eval_return_stmt_def intro!: approx_bind eval_expr_mono [OF assms])
next
  case (SFor p i c q b)
  then show ?case by (auto intro!: approx_bind eval_for_mono [OF assms])
qed (auto intro!: eval_statement_mono [OF assms] split: option.splits)

lemma eval_block_mono:
  assumes "approx_callee call call'"
  shows "approx (eval_block F call cs b) (eval_block F call' cs b)"
  by (cases b) (auto simp: eval_block_def intro!: eval_stmts_mono eval_stmt_mono [OF assms])

lemma call_user_mono:
  assumes "approx_callee call call'"
  shows "approx_callee (call_user F call) (call_user F call')"
  unfolding approx_callee_def call_user_def
  by (auto simp: Let_def intro!: approx_bind eval_block_mono [OF assms] split: list.splits cstmt.splits)

lemma call_mono: "approx_callee (comptime_call_user_function F n) (comptime_call_user_function F (Suc n))"
  by (induction n) (simp_all add: call_user_mono approx_callee_def [of "\<lambda>cs fn args. NoReturn"] approx_def)

lemma approx_trans: "approx x y \<Longrightarrow> approx y z \<Longrightarrow> approx x z"
  by (auto simp: approx_def)

lemma call_mono_le: "n \<le> m \<Longrightarrow> approx_callee (comptime_call_user_function F n) (comptime_call_user_function F m)"
proof (induction m rule: dec_induct)
  case (step m)
  then show ?case using call_mono [of F m] unfolding approx_callee_def by (meson approx_trans)
qed (simp add: approx_callee_def)

text \<open>
  Raising the bound on the nesting of user function calls never changes an answer: once an
  expression or a block evaluates at some bound, to a value, an error or undefined behaviour, it
  has the same outcome at every larger one. So the evaluator computes one partial function.
\<close>

theorem comptime_bound_stable:
  assumes "n \<le> m"
  shows "(comptime_eval_expression F n cs e \<noteq> NoReturn \<longrightarrow> comptime_eval_expression F m cs e = comptime_eval_expression F n cs e)
    \<and> (comptime_eval_block F n cs b \<noteq> NoReturn \<longrightarrow> comptime_eval_block F m cs b = comptime_eval_block F n cs b)"
  using eval_expr_mono [OF call_mono_le [OF assms]] eval_block_mono [OF call_mono_le [OF assms]]
  unfolding comptime_eval_expression_def comptime_eval_block_def approx_def by metis

text \<open>A recursive function, as the checker registers it: the factorial, with the comparison before the call.\<close>

definition unit_floats :: "unit float_ops" where
  "unit_floats = \<lparr> fo_of_int = (\<lambda>_. ()), fo_add = (\<lambda>_ _. ()), fo_sub = (\<lambda>_ _. ()), fo_mul = (\<lambda>_ _. ()),
     fo_div = (\<lambda>_ _. ()), fo_neg = (\<lambda>_. ()), fo_eq = (\<lambda>_ _. True), fo_lt = (\<lambda>_ _. False), fo_le = (\<lambda>_ _. True),
     fo_atof = (\<lambda>_. ()), fo_print_g = (\<lambda>_. []), fo_print_f = (\<lambda>_. []) \<rparr>"

abbreviation var :: "string \<Rightarrow> cexpr" where "var x \<equiv> EIdentifier no_pos x"
abbreviation int_lit :: "string \<Rightarrow> cexpr" where "int_lit s \<equiv> ELiteral no_pos TOKEN_INT (Some s)"
abbreviation ret :: "cexpr \<Rightarrow> cstmt" where "ret e \<equiv> SReturn no_pos e"

definition fact_decl :: cstmt where
  "fact_decl = SFunc no_pos ''fact'' [ParamDecl [''n'']] (SBlock no_pos
     [SIf no_pos (EBinary no_pos TOKEN_LE (var ''n'') (int_lit ''1'')) (SBlock no_pos [ret (int_lit ''1'')]) SNull,
      ret (EBinary no_pos TOKEN_MULTIPLY (var ''n'')
        (ECall no_pos (var ''fact'') [EBinary no_pos TOKEN_MINUS (var ''n'') (int_lit ''1'')]))])"

definition fact_ctx :: "unit ctx" where
  "fact_ctx = (case comptime_context_bind_func (comptime_context_new []) ''fact'' fact_decl of Some cs \<Rightarrow> cs | None \<Rightarrow> [])"

theorem comptime_bound_stable_witness:
  "comptime_eval_expression unit_floats 1000 fact_ctx (ECall no_pos (var ''fact'') [int_lit ''4''])
     = Done (value_result (CInt 24), fact_ctx)
   \<and> comptime_eval_expression unit_floats 3 fact_ctx (ECall no_pos (var ''fact'') [int_lit ''4'']) = NoReturn"
proof -
  have ok: "comptime_eval_expression unit_floats 4 fact_ctx (ECall no_pos (var ''fact'') [int_lit ''4''])
      = Done (value_result (CInt 24), fact_ctx)"
    by code_simp
  moreover have "comptime_eval_expression unit_floats 3 fact_ctx (ECall no_pos (var ''fact'') [int_lit ''4'']) = NoReturn"
    by code_simp
  ultimately show ?thesis
    using comptime_bound_stable [of 4 1000 unit_floats fact_ctx "ECall no_pos (var ''fact'') [int_lit ''4'']" SNull] by simp
qed

section \<open>Types\<close>

fun vtype :: "'f cvalue \<Rightarrow> basic_kind option" where
  "vtype (CInt i) = Some TYPE_INT64"
| "vtype (CFloat x) = Some TYPE_FLOAT64"
| "vtype (CBool b) = Some TYPE_BOOL"
| "vtype (CString s) = Some TYPE_STRING"
| "vtype v = None"

lemma vtypeD:
  "vtype v = Some TYPE_INT64 \<Longrightarrow> \<exists>i. v = CInt i" "vtype v = Some TYPE_FLOAT64 \<Longrightarrow> \<exists>x. v = CFloat x"
  "vtype v = Some TYPE_BOOL \<Longrightarrow> \<exists>b. v = CBool b" "vtype v = Some TYPE_STRING \<Longrightarrow> \<exists>s. v = CString s"
  by (cases v; simp)+

lemma vtype_get_type: "vtype v = Some k \<Longrightarrow> comptime_value_get_type (Some v) = Some (type_new k)"
  by (cases v) (auto simp: comptime_value_get_type_def)

abbreviation numeric_kind :: "basic_kind \<Rightarrow> bool" where
  "numeric_kind k \<equiv> k = TYPE_INT64 \<or> k = TYPE_FLOAT64"

text \<open>The typing rules of the operators, over the kinds of the variables.\<close>

inductive typed :: "(string \<rightharpoonup> basic_kind) \<Rightarrow> cexpr \<Rightarrow> basic_kind \<Rightarrow> bool" for G where
  t_int: "atoll s = Done i \<Longrightarrow> typed G (ELiteral p TOKEN_INT s) TYPE_INT64"
| t_float: "typed G (ELiteral p TOKEN_FLOAT (Some s)) TYPE_FLOAT64"
| t_true: "typed G (ELiteral p TOKEN_TRUE s) TYPE_BOOL"
| t_false: "typed G (ELiteral p TOKEN_FALSE s) TYPE_BOOL"
| t_string: "typed G (ELiteral p TOKEN_STRING s) TYPE_STRING"
| t_var: "G x = Some k \<Longrightarrow> typed G (EIdentifier p x) k"
| t_arith: "typed G l k \<Longrightarrow> typed G r k' \<Longrightarrow> numeric_kind k \<Longrightarrow> numeric_kind k' \<Longrightarrow>
    op \<in> {TOKEN_PLUS, TOKEN_MINUS, TOKEN_MULTIPLY, TOKEN_DIVIDE} \<Longrightarrow>
    typed G (EBinary p op l r) (if k = TYPE_INT64 \<and> k' = TYPE_INT64 then TYPE_INT64 else TYPE_FLOAT64)"
| t_concat: "typed G l k \<Longrightarrow> typed G r k' \<Longrightarrow> k = TYPE_STRING \<or> k' = TYPE_STRING \<Longrightarrow>
    k \<noteq> TYPE_FLOAT64 \<Longrightarrow> k' \<noteq> TYPE_FLOAT64 \<Longrightarrow> typed G (EBinary p TOKEN_PLUS l r) TYPE_STRING"
| t_compare: "typed G l k \<Longrightarrow> typed G r k' \<Longrightarrow> numeric_kind k \<Longrightarrow> numeric_kind k' \<Longrightarrow>
    op \<in> {TOKEN_EQ, TOKEN_NE, TOKEN_LT, TOKEN_LE, TOKEN_GT, TOKEN_GE} \<Longrightarrow> typed G (EBinary p op l r) TYPE_BOOL"
| t_equal: "typed G l TYPE_BOOL \<Longrightarrow> typed G r TYPE_BOOL \<Longrightarrow> op \<in> {TOKEN_EQ, TOKEN_NE} \<Longrightarrow>
    typed G (EBinary p op l r) TYPE_BOOL"
| t_logic: "typed G l k \<Longrightarrow> typed G r k' \<Longrightarrow> op \<in> {TOKEN_AND, TOKEN_OR} \<Longrightarrow> typed G (EBinary p op l r) TYPE_BOOL"
| t_sign: "typed G e k \<Longrightarrow> numeric_kind k \<Longrightarrow> op \<in> {TOKEN_MINUS, TOKEN_PLUS} \<Longrightarrow> typed G (EUnary p op e) k"
| t_not: "typed G e k \<Longrightarrow> typed G (EUnary p TOKEN_NOT e) TYPE_BOOL"

definition vars_typed :: "(string \<rightharpoonup> basic_kind) \<Rightarrow> 'f ctx \<Rightarrow> bool" where
  "vars_typed G cs = (\<forall>x k. G x = Some k \<longrightarrow> (\<exists>v. comptime_context_lookup_var cs x = Some v \<and> vtype v = Some k))"

text \<open>Signed overflow somewhere in the evaluation of an expression.\<close>

definition in_range :: "int \<Rightarrow> bool" where
  "in_range i = (- (2 ^ 63) \<le> i \<and> i < 2 ^ 63)"

definition op_overflows :: "token_type \<Rightarrow> 64 word \<Rightarrow> 64 word \<Rightarrow> bool" where
  "op_overflows op a b =
     (op = TOKEN_PLUS \<and> \<not> in_range (sint a + sint b) \<or> op = TOKEN_MINUS \<and> \<not> in_range (sint a - sint b)
      \<or> op = TOKEN_MULTIPLY \<and> \<not> in_range (sint a * sint b)
      \<or> op = TOKEN_DIVIDE \<and> sint a = - (2 ^ 63) \<and> sint b = - 1)"

definition int_value :: "'f eval \<Rightarrow> 64 word option" where
  "int_value m = (case m of Done (r, cs) \<Rightarrow> (case cr_value r of Some (CInt i) \<Rightarrow> Some i | _ \<Rightarrow> None) | _ \<Rightarrow> None)"

fun overflows :: "'f float_ops \<Rightarrow> 'f ctx \<Rightarrow> cexpr \<Rightarrow> bool" where
  "overflows F cs (EBinary p op l r) = (overflows F cs l \<or> overflows F cs r \<or>
     (case (int_value (comptime_eval_expression F 0 cs l), int_value (comptime_eval_expression F 0 cs r)) of
        (Some a, Some b) \<Rightarrow> op_overflows op a b | _ \<Rightarrow> False))"
| "overflows F cs (EUnary p op e) = (overflows F cs e \<or>
     (case int_value (comptime_eval_expression F 0 cs e) of Some i \<Rightarrow> op = TOKEN_MINUS \<and> \<not> in_range (- sint i) | None \<Rightarrow> False))"
| "overflows F cs e = False"

text \<open>A division somewhere in it whose divisor evaluates to zero; with a float the test is that of floats.\<close>

definition zero_divisor :: "'f float_ops \<Rightarrow> 'f cvalue \<Rightarrow> 'f cvalue \<Rightarrow> bool" where
  "zero_divisor F v w = (case (v, w) of
     (CInt a, CInt b) \<Rightarrow> b = 0
   | (CFloat x, CInt b) \<Rightarrow> fo_eq F (fo_of_int F b) (fo_of_int F 0)
   | (_, CFloat y) \<Rightarrow> fo_eq F y (fo_of_int F 0)
   | _ \<Rightarrow> False)"

definition value_of :: "'f eval \<Rightarrow> 'f cvalue option" where
  "value_of m = (case m of Done (r, cs) \<Rightarrow> cr_value r | _ \<Rightarrow> None)"

fun divides_by_zero :: "'f float_ops \<Rightarrow> 'f ctx \<Rightarrow> cexpr \<Rightarrow> bool" where
  "divides_by_zero F cs (EBinary p op l r) = (divides_by_zero F cs l \<or> divides_by_zero F cs r \<or>
     op = TOKEN_DIVIDE \<and> (case (value_of (comptime_eval_expression F 0 cs l), value_of (comptime_eval_expression F 0 cs r)) of
        (Some v, Some w) \<Rightarrow> zero_divisor F v w | _ \<Rightarrow> False))"
| "divides_by_zero F cs (EUnary p op e) = divides_by_zero F cs e"
| "divides_by_zero F cs e = False"

text \<open>Each operator on operands of the right kinds.\<close>

definition op_typed :: "basic_kind \<Rightarrow> bool \<Rightarrow> 'f op_result \<Rightarrow> bool" where
  "op_typed k z m = (if z then m = Done (Inl DivisionByZero) else \<exists>v. m = Done (Inr (Some v)) \<and> vtype v = Some k)"

lemma int_result_ok: "in_range i \<Longrightarrow> int_result i = Done (word_of_int i)"
  by (simp add: int_result_def in_range_def)

lemma c_quotient_ok:
  fixes a b :: "64 word"
  assumes "b \<noteq> 0" "\<not> (sint a = - (2 ^ 63) \<and> sint b = - 1)"
  shows "\<exists>i. c_quotient (sint a) (sint b) = Done i"
proof -
  have a: "- (2 ^ 63) \<le> sint a" "sint a < 2 ^ 63" using sint_range_size [of a] by (simp_all add: word_size)
  have b: "sint b \<noteq> 0" using assms(1) signed_word_eqI [of b 0] by auto
  let ?q = "\<bar>sint a\<bar> div \<bar>sint b\<bar>"
  have q: "0 \<le> ?q" "?q \<le> \<bar>sint a\<bar>"
    using b zdiv_mono2 [of "\<bar>sint a\<bar>" 1 "\<bar>sint b\<bar>"] by (simp_all add: pos_imp_zdiv_nonneg_iff)
  have "?q < 2 ^ 63" if "(sint a < 0) = (sint b < 0)"
  proof (cases "sint a = - (2 ^ 63)")
    case True
    then have "sint b < 0" "sint b \<noteq> - 1" using that assms(2) by auto
    then have "2 \<le> \<bar>sint b\<bar>" by linarith
    then have "?q \<le> \<bar>sint a\<bar> div 2" by (intro zdiv_mono2) auto
    then show ?thesis using True by simp
  next
    case False
    then show ?thesis using a q by linarith
  qed
  then show ?thesis using a b q by (auto simp: c_quotient_def int_result_def)
qed

lemma numeric_cases:
  assumes "vtype v = Some k" and "numeric_kind k"
  obtains i where "v = CInt i" and "k = TYPE_INT64" | x where "v = CFloat x" and "k = TYPE_FLOAT64"
  using assms by (cases v) auto

lemmas op_simps = op_typed_def binary_op_def operands_def arith_def divide_def comparison_def equality_def numeric_def
  is_float_def as_float_def f_quotient_def zero_divisor_def

lemma arith_typed:
  assumes "vtype v = Some k" "vtype w = Some k'" "numeric_kind k" "numeric_kind k'"
    and "op \<in> {TOKEN_PLUS, TOKEN_MINUS, TOKEN_MULTIPLY, TOKEN_DIVIDE}"
    and "case (v, w) of (CInt a, CInt b) \<Rightarrow> \<not> op_overflows op a b | _ \<Rightarrow> True"
  shows "op_typed (if k = TYPE_INT64 \<and> k' = TYPE_INT64 then TYPE_INT64 else TYPE_FLOAT64)
    (op = TOKEN_DIVIDE \<and> zero_divisor F v w) (binary_op F op (Some v) (Some w))"
proof (rule numeric_cases [OF assms(1,3)]; rule numeric_cases [OF assms(2,4)])
  fix a b
  assume vw: "v = CInt a" "k = TYPE_INT64" "w = CInt b" "k' = TYPE_INT64"
  show ?thesis
  proof (cases "op = TOKEN_DIVIDE")
    case True
    then have "c_quotient (sint a) (sint b) = Done i \<Longrightarrow> op_typed TYPE_INT64 (b = 0) (binary_op F op (Some v) (Some w))" for i
      using vw by (simp add: op_simps)
    moreover have "b = 0 \<Longrightarrow> op_typed TYPE_INT64 (b = 0) (binary_op F op (Some v) (Some w))"
      using vw True by (simp add: op_simps)
    moreover have "b = 0 \<or> (\<exists>i. c_quotient (sint a) (sint b) = Done i)"
      using vw True assms(6) c_quotient_ok [of b a] by (auto simp: op_overflows_def)
    ultimately have "op_typed TYPE_INT64 (b = 0) (binary_op F op (Some v) (Some w))" by blast
    then show ?thesis using vw True by (simp add: zero_divisor_def)
  next
    case False
    then show ?thesis using vw assms(5,6) by (auto simp: op_simps op_overflows_def int_result_ok)
  qed
qed (use assms(5) in \<open>auto simp: op_simps\<close>)

lemma concat_typed:
  assumes "vtype v = Some k" "vtype w = Some k'" "k = TYPE_STRING \<or> k' = TYPE_STRING" "k \<noteq> TYPE_FLOAT64" "k' \<noteq> TYPE_FLOAT64"
  shows "op_typed TYPE_STRING False (binary_op F TOKEN_PLUS (Some v) (Some w))"
  using assms
  by (cases v; cases w)
     (auto simp: op_typed_def binary_op_def operands_def arith_def numeric_def is_float_def concat_strings_def)

lemma compare_typed:
  assumes "vtype v = Some k" "vtype w = Some k'" "numeric_kind k" "numeric_kind k'"
    and "op \<in> {TOKEN_EQ, TOKEN_NE, TOKEN_LT, TOKEN_LE, TOKEN_GT, TOKEN_GE}"
  shows "op_typed TYPE_BOOL False (binary_op F op (Some v) (Some w))"
  by (rule numeric_cases [OF assms(1,3)]; rule numeric_cases [OF assms(2,4)]) (use assms(5) in \<open>auto simp: op_simps\<close>)

lemma bool_typed:
  assumes "vtype v = Some TYPE_BOOL" "vtype w = Some TYPE_BOOL" "op \<in> {TOKEN_EQ, TOKEN_NE}"
  shows "op_typed TYPE_BOOL False (binary_op F op (Some v) (Some w))"
  using assms vtypeD(3) [OF assms(1)] vtypeD(3) [OF assms(2)]
  by (auto simp: op_typed_def binary_op_def operands_def equality_def numeric_def is_float_def on_bools_def)

lemma logic_typed: "op \<in> {TOKEN_AND, TOKEN_OR} \<Longrightarrow> op_typed TYPE_BOOL False (binary_op F op v w)"
  by (auto simp: op_typed_def binary_op_def)

lemma sign_typed:
  assumes "vtype v = Some k" "numeric_kind k" "op \<in> {TOKEN_MINUS, TOKEN_PLUS}"
    and "\<And>i. v = CInt i \<Longrightarrow> op = TOKEN_MINUS \<Longrightarrow> in_range (- sint i)"
  shows "op_typed k False (unary_op F op (Some v))"
  using assms by (cases v) (auto simp: op_typed_def unary_op_def int_result_ok)

definition typed_result :: "basic_kind \<Rightarrow> 'f ctx \<Rightarrow> bool \<Rightarrow> 'f eval \<Rightarrow> bool" where
  "typed_result k cs z m = (if z then \<exists>p. m = Done (error_result DivisionByZero p, cs)
     else \<exists>v. m = Done (value_result v, cs) \<and> vtype v = Some k)"

lemma failed_simps [simp]: "failed (comptime_result_new v err code) = (err \<noteq> None)"
  "cr_value (comptime_result_new v err code) = v"
  by (simp_all add: failed_def comptime_result_new_def)

lemma result_inject [simp]:
  "comptime_result_new v e c = comptime_result_new v' e' c' \<longleftrightarrow> v = v' \<and> e = e' \<and> c = c'"
  by (auto simp: comptime_result_new_def)

lemma value_of_simps [simp]:
  "value_of (Done (value_result v, cs)) = Some v"
  "value_of (Done (error_result er p, cs)) = None"
  by (simp_all add: value_of_def)

text \<open>The result of an operand in the two forms the combined cases need.\<close>

lemma typed_resultE:
  assumes "typed_result k cs z m"
  obtains p where "z" "m = Done (error_result DivisionByZero p, cs)"
  | v where "\<not> z" "m = Done (value_result v, cs)" "vtype v = Some k"
  using assms by (auto simp: typed_result_def split: if_splits)

lemma typed_binary:
  fixes F :: "'f float_ops"
  defines "m \<equiv> eval_expr F (\<lambda>cs fn args. NoReturn)"
  assumes "typed_result k1 cs (divides_by_zero F cs l) (m cs l)" and "typed_result k2 cs (divides_by_zero F cs r) (m cs r)"
    and "\<And>v w. m cs l = Done (value_result v, cs) \<Longrightarrow> m cs r = Done (value_result w, cs) \<Longrightarrow>
      vtype v = Some k1 \<Longrightarrow> vtype w = Some k2 \<Longrightarrow> op_typed k (op = TOKEN_DIVIDE \<and> zero_divisor F v w) (binary_op F op (Some v) (Some w))"
  shows "typed_result k cs (divides_by_zero F cs (EBinary p op l r)) (m cs (EBinary p op l r))"
  using assms(2)
proof (cases rule: typed_resultE)
  case 1
  then show ?thesis by (auto simp: typed_result_def m_def)
next
  case l: (2 v)
  show ?thesis using assms(3)
  proof (cases rule: typed_resultE)
    case 1
    then show ?thesis using l by (auto simp: typed_result_def m_def)
  next
    case (2 w)
    have "value_of (comptime_eval_expression F 0 cs l) = Some v" "value_of (comptime_eval_expression F 0 cs r) = Some w"
      using l 2 by (simp_all add: comptime_eval_expression_def m_def)
    then show ?thesis
      using assms(4) [OF l(2) 2(2) l(3) 2(3)] l 2 by (auto simp: typed_result_def op_typed_def op_outcome_def m_def)
  qed
qed

lemma typed_unary:
  fixes F :: "'f float_ops"
  defines "m \<equiv> eval_expr F (\<lambda>cs fn args. NoReturn)"
  assumes "typed_result k1 cs (divides_by_zero F cs e) (m cs e)"
    and "\<And>v. m cs e = Done (value_result v, cs) \<Longrightarrow> vtype v = Some k1 \<Longrightarrow> op_typed k False (unary_op F op (Some v))"
  shows "typed_result k cs (divides_by_zero F cs (EUnary p op e)) (m cs (EUnary p op e))"
  using assms(2)
proof (cases rule: typed_resultE)
  case 1
  then show ?thesis by (auto simp: typed_result_def m_def)
next
  case (2 v)
  then show ?thesis using assms(3) [OF 2(2,3)] by (auto simp: typed_result_def op_typed_def op_outcome_def m_def)
qed

lemma copy_id [simp]: "comptime_value_copy v = v"
proof (induction v rule: comptime_value_copy.induct)
  case (6 fs)
  then have "map (\<lambda>(n, v). (n, comptime_value_copy v)) fs = fs" by (intro map_idI) auto
  then show ?case by simp
qed (auto simp: map_idI split: option.splits)

lemma no_division: "op_typed k False m \<Longrightarrow> op \<noteq> TOKEN_DIVIDE \<Longrightarrow> op_typed k (op = TOKEN_DIVIDE \<and> z) m"
  by simp

lemma typed_eval:
  assumes "typed G e k" and "vars_typed G cs" and "\<not> overflows F cs e"
  shows "typed_result k cs (divides_by_zero F cs e) (eval_expr F (\<lambda>cs fn args. NoReturn) cs e)"
  using assms
proof (induction rule: typed.induct)
  case (t_var x k p)
  then show ?case by (force simp: typed_result_def vars_typed_def)
next
  case (t_arith l k r k' op p)
  show ?case
  proof (rule typed_binary)
    show "typed_result k cs (divides_by_zero F cs l) (eval_expr F (\<lambda>cs fn args. NoReturn) cs l)"
      and "typed_result k' cs (divides_by_zero F cs r) (eval_expr F (\<lambda>cs fn args. NoReturn) cs r)" using t_arith by auto
    fix v w
    assume "eval_expr F (\<lambda>cs fn args. NoReturn) cs l = Done (value_result v, cs)"
      and "eval_expr F (\<lambda>cs fn args. NoReturn) cs r = Done (value_result w, cs)"
      and vw: "vtype v = Some k" "vtype w = Some k'"
    then have "case (v, w) of (CInt a, CInt b) \<Rightarrow> \<not> op_overflows op a b | _ \<Rightarrow> True"
      using t_arith.prems(2) by (auto simp: comptime_eval_expression_def int_value_def split: cvalue.splits)
    then show "op_typed (if k = TYPE_INT64 \<and> k' = TYPE_INT64 then TYPE_INT64 else TYPE_FLOAT64)
        (op = TOKEN_DIVIDE \<and> zero_divisor F v w) (binary_op F op (Some v) (Some w))"
      by (rule arith_typed [OF vw t_arith.hyps(3,4,5)])
  qed
next
  case (t_sign e k op p)
  then show ?case
    by (intro typed_unary [of k]) (auto intro!: sign_typed simp: comptime_eval_expression_def int_value_def)
next
  case (t_not e k p)
  then show ?case by (intro typed_unary [of k]) (auto simp: op_typed_def unary_op_def)
next
  case (t_concat l k r k' p)
  then show ?case by (intro typed_binary [of k _ _ _ k'] no_division concat_typed [of _ k _ k']) simp_all
next
  case (t_compare l k r k' op p)
  then show ?case by (intro typed_binary [of k _ _ _ k'] no_division compare_typed [of _ k _ k']) auto
next
  case (t_equal l r op p)
  then show ?case by (intro typed_binary [of TYPE_BOOL _ _ _ TYPE_BOOL] no_division bool_typed) auto
next
  case (t_logic l k r k' op p)
  then show ?case by (intro typed_binary [of k _ _ _ k'] no_division logic_typed) auto
qed (simp_all add: typed_result_def comptime_value_from_literal_def)

text \<open>
  C13. Compile-time evaluation is type sound: an expression without calls that is well typed over
  the variables of the context evaluates, when no signed operation overflows, to a value of its
  type, unless the divisor of a division in it evaluates to zero, which is reported. It never reports
  a type error, never has undefined behaviour, leaves the context alone and needs no nesting.
  \<open>comptime_value_get_type\<close> recovers the type from the value.
\<close>

theorem comptime_type_sound:
  assumes "typed G e k" and "vars_typed G cs" and "\<not> overflows F cs e"
  shows "if divides_by_zero F cs e then \<exists>p. comptime_eval_expression F n cs e = Done (error_result DivisionByZero p, cs)
    else \<exists>v. comptime_eval_expression F n cs e = Done (value_result v, cs)
        \<and> vtype v = Some k \<and> comptime_value_get_type (Some v) = Some (type_new k)"
proof -
  have "approx (comptime_eval_expression F 0 cs e) (comptime_eval_expression F n cs e)"
    unfolding comptime_eval_expression_def by (rule eval_expr_mono [OF call_mono_le]) simp
  moreover have typed: "typed_result k cs (divides_by_zero F cs e) (comptime_eval_expression F 0 cs e)"
    unfolding comptime_eval_expression_def using typed_eval [OF assms] by simp
  ultimately have "comptime_eval_expression F n cs e = comptime_eval_expression F 0 cs e"
    by (auto simp: approx_def typed_result_def split: if_splits)
  then show ?thesis using typed vtype_get_type unfolding typed_result_def by metis
qed

definition size_ctx :: "unit ctx" where
  "size_ctx = (case comptime_context_bind_var (comptime_context_new []) ''size'' (Some (CInt 6)) of Some cs \<Rightarrow> cs | None \<Rightarrow> [])"

definition size_expr :: cexpr where
  "size_expr = EBinary no_pos TOKEN_LT (EBinary no_pos TOKEN_MULTIPLY (var ''size'') (int_lit ''7'')) (int_lit ''100'')"

theorem comptime_type_sound_witness:
  "\<exists>v. comptime_eval_expression unit_floats 0 size_ctx size_expr = Done (value_result v, size_ctx) \<and> vtype v = Some TYPE_BOOL"
proof -
  let ?G = "[''size'' \<mapsto> TYPE_INT64]"
  have lit: "atoll (Some ''7'') = Done 7" "atoll (Some ''100'') = Done 100" by code_simp+
  have "typed ?G size_expr TYPE_BOOL"
    unfolding size_expr_def
    by (rule t_compare [where k = TYPE_INT64 and k' = TYPE_INT64])
       (use t_arith [of ?G "var ''size''" TYPE_INT64 "int_lit ''7''" TYPE_INT64] t_var t_int lit in auto)
  moreover have "vars_typed ?G size_ctx"
    by (simp add: vars_typed_def size_ctx_def comptime_context_bind_var_def comptime_context_new_def)
  moreover have "\<not> overflows unit_floats size_ctx size_expr" by code_simp
  moreover have "\<not> divides_by_zero unit_floats size_ctx size_expr" by code_simp
  ultimately show ?thesis using comptime_type_sound [of ?G size_expr TYPE_BOOL size_ctx unit_floats 0] by auto
qed

end
