(* ===== verification/Comptime_Fold.thy ===== *)
theory Comptime_Fold
  imports Comptime_Props
begin

text \<open>
  Constant folding agrees with evaluation, and values go back into the syntax tree; then the
  places where the evaluator does not do what its comments say.
\<close>

section \<open>Constant folding\<close>

text \<open>Expressions of literals the evaluator knows, variables and operators.\<close>

fun plain :: "cexpr \<Rightarrow> bool" where
  "plain (ELiteral p ty s) = (ty \<in> {TOKEN_INT, TOKEN_FLOAT, TOKEN_TRUE, TOKEN_FALSE, TOKEN_STRING, TOKEN_NIL})"
| "plain (EIdentifier p x) = True"
| "plain (EBinary p op l r) = (plain l \<and> plain r)"
| "plain (EUnary p op e) = plain e"
| "plain e = False"

definition ok_or_error :: "'f ctx \<Rightarrow> 'f eval \<Rightarrow> bool" where
  "ok_or_error cs m = (\<forall>r cs'. m = Done (r, cs') \<longrightarrow> cs' = cs \<and> (failed r \<or> (\<exists>v. r = value_result v)))"

lemma op_outcomeD:
  "op_outcome k p cs m = Done (r, cs') \<Longrightarrow> cs' = cs \<and> (failed r \<or> (\<exists>v. r = value_result v))"
  by (cases m) (auto simp: op_outcome_def split: sum.splits option.splits)

lemma eval_shape: "plain e \<Longrightarrow> ok_or_error cs (eval_expr F call cs e)"
proof (induction e arbitrary: cs)
  case (ELiteral p ty s)
  then show ?case
    by (auto simp: ok_or_error_def comptime_value_from_literal_def obind_Done split: option.splits)
next
  case (EIdentifier p x)
  then show ?case by (auto simp: ok_or_error_def split: option.splits)
next
  case (EBinary p op l r)
  show ?case
    unfolding ok_or_error_def
  proof (intro allI impI)
    fix res cs'
    assume "eval_expr F call cs (EBinary p op l r) = Done (res, cs')"
    then show "cs' = cs \<and> (failed res \<or> (\<exists>v. res = value_result v))"
      using EBinary.IH [of cs] EBinary.prems
      by (auto simp: ok_or_error_def obind_Done split: if_splits dest: op_outcomeD)
  qed
next
  case (EUnary p op e)
  then show ?case
    by (auto simp: ok_or_error_def obind_Done split: if_splits dest: op_outcomeD)
qed simp_all

lemma eval_values:
  assumes "plain e" and "eval_expr F call cs e = Done (r, cs')" and "\<not> failed r"
  obtains v where "r = value_result v" and "cs' = cs"
  using eval_shape [OF assms(1), of cs F call] assms(2,3) by (auto simp: ok_or_error_def)

text \<open>What a successful evaluation of an operator says about its operands.\<close>

lemma binary_operands:
  assumes "plain l" and "plain r" and "eval_expr F call cs (EBinary p op l r) = Done (value_result v, cs')"
  obtains a b where "eval_expr F call cs l = Done (value_result a, cs)" and "eval_expr F call cs r = Done (value_result b, cs)"
proof -
  obtain lr cs1 where l: "eval_expr F call cs l = Done (lr, cs1)" "\<not> failed lr"
    using assms(3) by (force simp: obind_Done split: if_splits)
  then obtain a where a: "lr = value_result a" "cs1 = cs" using eval_values [OF assms(1)] by metis
  obtain rr cs2 where r: "eval_expr F call cs r = Done (rr, cs2)" "\<not> failed rr"
    using assms(3) l a by (force simp: obind_Done split: if_splits)
  then obtain b where "rr = value_result b" "cs2 = cs" using eval_values [OF assms(2)] by metis
  then show thesis using that l a r by blast
qed

lemma unary_operand:
  assumes "plain e" and "eval_expr F call cs (EUnary p op e) = Done (value_result v, cs')"
  obtains a where "eval_expr F call cs e = Done (value_result a, cs)"
proof -
  obtain r cs1 where r: "eval_expr F call cs e = Done (r, cs1)" "\<not> failed r"
    using assms(2) by (force simp: obind_Done split: if_splits)
  then show thesis using that eval_values [OF assms(1)] by metis
qed

text \<open>
  C28. Constant folding is evaluation: an expression of known literals, variables and operators
  folds to a value exactly when evaluating it succeeds with that value, so folding neither
  invents nor loses a constant.
\<close>

theorem constant_fold_iff:
  assumes "plain e"
  shows "comptime_constant_fold F n cs e = Done (Some v)
    \<longleftrightarrow> comptime_eval_expression F n cs e = Done (value_result v, cs)"
  using assms
proof (induction e arbitrary: v)
  case (ELiteral p ty s)
  then show ?case by (cases "comptime_value_from_literal F ty s") (simp_all add: comptime_eval_expression_def)
next
  case (EIdentifier p x)
  then show ?case by (simp add: comptime_eval_expression_def split: option.splits)
next
  case (EBinary p op l r)
  let ?e = "EBinary p op l r" and ?call = "comptime_call_user_function F n"
  have pl: "plain l" "plain r" using EBinary.prems by simp_all
  show ?case
  proof
    assume "comptime_constant_fold F n cs ?e = Done (Some v)"
    then obtain res cs1 where "eval_expr F ?call cs ?e = Done (res, cs1)" "\<not> failed res" "cr_value res = Some v"
      by (auto simp: obind_Done comptime_eval_expression_def split: if_splits simp del: eval_expr.simps)
    then show "comptime_eval_expression F n cs ?e = Done (value_result v, cs)"
      using eval_values [OF EBinary.prems] by (metis comptime_eval_expression_def failed_simps(2) option.inject)
  next
    assume e: "comptime_eval_expression F n cs ?e = Done (value_result v, cs)"
    then obtain a b where "eval_expr F ?call cs l = Done (value_result a, cs)" "eval_expr F ?call cs r = Done (value_result b, cs)"
      using binary_operands [OF pl] unfolding comptime_eval_expression_def by metis
    then have "comptime_constant_fold F n cs l = Done (Some a)" "comptime_constant_fold F n cs r = Done (Some b)"
      using EBinary.IH pl by (simp_all add: comptime_eval_expression_def)
    then show "comptime_constant_fold F n cs ?e = Done (Some v)" using e by simp
  qed
next
  case (EUnary p op e)
  let ?e = "EUnary p op e" and ?call = "comptime_call_user_function F n"
  have pl: "plain e" using EUnary.prems by simp
  show ?case
  proof
    assume "comptime_constant_fold F n cs ?e = Done (Some v)"
    then obtain res cs1 where "eval_expr F ?call cs ?e = Done (res, cs1)" "\<not> failed res" "cr_value res = Some v"
      by (auto simp: obind_Done comptime_eval_expression_def split: if_splits simp del: eval_expr.simps)
    then show "comptime_eval_expression F n cs ?e = Done (value_result v, cs)"
      using eval_values [OF EUnary.prems] by (metis comptime_eval_expression_def failed_simps(2) option.inject)
  next
    assume ev: "comptime_eval_expression F n cs ?e = Done (value_result v, cs)"
    then obtain a where "eval_expr F ?call cs e = Done (value_result a, cs)"
      using unary_operand [OF pl] unfolding comptime_eval_expression_def by metis
    then have "comptime_constant_fold F n cs e = Done (Some a)"
      using EUnary.IH pl by (simp add: comptime_eval_expression_def)
    then show "comptime_constant_fold F n cs ?e = Done (Some v)" using ev by simp
  qed
qed simp_all

theorem constant_fold_iff_witness:
  "comptime_constant_fold unit_floats 0 size_ctx size_expr = Done (Some (CBool True))"
proof -
  have "comptime_eval_expression unit_floats 0 size_ctx size_expr = Done (value_result (CBool True), size_ctx)" by code_simp
  then show ?thesis using constant_fold_iff [of size_expr unit_floats 0 size_ctx "CBool True"] by (simp add: size_expr_def)
qed

section \<open>Values as literals\<close>

text \<open>
  A value turned back into a literal node evaluates to itself for every integer and every
  string. A boolean does not: its literal has the token type of an identifier, which evaluation
  does not know, so the result has no value and no error.
\<close>

theorem value_ast_roundtrip:
  "comptime_eval_expression F n cs (comptime_value_to_ast F (Some (CInt i))) = Done (value_result (CInt i), cs)
   \<and> comptime_eval_expression F n cs (comptime_value_to_ast F (Some (CString (Some s)))) = Done (value_result (CString (Some s)), cs)
   \<and> comptime_eval_expression F n cs (comptime_value_to_ast F (Some (CBool b))) = Done (comptime_result_new None None None, cs)"
proof -
  have rng: "- (2 ^ 63) \<le> sint i" "sint i < 2 ^ 63"
    using sint_greater_eq [of i] sint_less [of i] by simp_all
  have "snprintf 32 (int_to_dec (sint i)) = int_to_dec (sint i)"
    using int_to_dec_length [OF rng] by (simp add: snprintf_def bytes_of_def)
  then have "atoll (Some (snprintf 32 (int_to_dec (sint i)))) = Done i"
    using strtoll_dec [of "sint i"] rng by (simp add: atoll_def)
  then show ?thesis
    by (simp add: comptime_eval_expression_def comptime_value_to_ast_def comptime_value_from_literal_def)
qed

section \<open>Recursion is not limited\<close>

text \<open>
  The limit on the recursion depth is never reached: a function that calls itself without
  end makes the evaluation run forever, whatever nesting it is given, although the context
  allows a depth of 100 only. The depth is counted in the context of the function, but its body
  runs in the fresh context of the block, where the count is zero again.
\<close>

theorem comptime_recursion_unlimited:
  fixes cs :: "'f ctx"
  assumes "comptime_context_lookup_func cs ''f'' = Some (SFunc p ''f'' [] (SBlock q [SReturn q' (ECall r (EIdentifier r' ''f'') [])]))"
    and "cf_depth (hd cs) < cf_max_depth (hd cs)"
  shows "comptime_eval_expression F n cs (ECall r (EIdentifier r' ''f'') []) = NoReturn"
  using assms
proof (induction n arbitrary: cs)
  case 0
  then show ?case by (simp add: comptime_eval_expression_def)
next
  case (Suc n)
  obtain c parents where cs: "cs = c # parents" using Suc.prems(1) by (cases cs) auto
  let ?func = "hd (comptime_context_new cs)\<lparr>cf_depth := cf_depth c + 1, cf_vars := bind_params [] []\<rparr> # cs"
  have "comptime_eval_expression F n (comptime_context_new ?func) (ECall r (EIdentifier r' ''f'') []) = NoReturn"
    by (rule Suc.IH) (use Suc.prems in \<open>simp_all add: comptime_context_new_def\<close>)
  then show ?case
    using Suc.prems cs
    by (simp add: comptime_eval_expression_def call_user_def eval_block_def comptime_eval_return_stmt_def
        comptime_context_new_def Let_def)
qed

definition loop_decl :: cstmt where
  "loop_decl = SFunc no_pos ''f'' [] (SBlock no_pos [ret (ECall no_pos (var ''f'') [])])"

definition loop_ctx :: "unit ctx" where
  "loop_ctx = (case comptime_context_bind_func (comptime_context_new []) ''f'' loop_decl of Some cs \<Rightarrow> cs | None \<Rightarrow> [])"

theorem comptime_recursion_unlimited_witness:
  "cf_max_depth (hd loop_ctx) = 100 \<and> comptime_eval_expression unit_floats 1000 loop_ctx (ECall no_pos (var ''f'') []) = NoReturn"
  using comptime_recursion_unlimited [of loop_ctx no_pos no_pos no_pos no_pos no_pos unit_floats 1000]
  by (simp add: loop_ctx_def loop_decl_def comptime_context_bind_func_def comptime_context_new_def)

section \<open>Functions see their callers' variables\<close>

text \<open>A function that returns the variable \<open>x\<close>, declared where \<open>x\<close> is 1.\<close>

definition scope_ctx :: "unit ctx" where
  "scope_ctx = (case comptime_context_bind_var (comptime_context_new []) ''x'' (Some (CInt 1)) of
     Some cs \<Rightarrow> (case comptime_context_bind_func cs ''get'' (SFunc no_pos ''get'' [] (SBlock no_pos [ret (var ''x'')])) of
       Some cs' \<Rightarrow> cs' | None \<Rightarrow> []) | None \<Rightarrow> [])"

definition shadowing_caller :: cstmt where
  "shadowing_caller = SBlock no_pos [SVar no_pos [''x''] (int_lit ''2''), ret (ECall no_pos (var ''get'') [])]"

text \<open>
  Scoping is dynamic: the context of a function call has the caller's context as its parent,
  so a free variable of the function is looked up in the caller. The function returns 1 when it
  is called where it was declared and 2 from a block with a variable of the same name.
\<close>

theorem comptime_dynamic_scope:
  "comptime_eval_expression unit_floats n scope_ctx (ECall no_pos (var ''get'') []) = Done (value_result (CInt 1), scope_ctx)
     \<and> comptime_eval_block unit_floats n scope_ctx shadowing_caller = Done ((value_result (CInt 2))\<lparr>cr_is_return := True\<rparr>)
   \<longleftrightarrow> n > 0"
proof (cases n)
  case 0
  then show ?thesis by (simp add: comptime_eval_expression_def scope_ctx_def comptime_context_bind_var_def
      comptime_context_bind_func_def comptime_context_new_def)
next
  case (Suc m)
  have "atoll (Some ''2'') = Done 2" by code_simp
  then show ?thesis using Suc
    by (simp add: comptime_eval_expression_def comptime_eval_block_def scope_ctx_def shadowing_caller_def
        comptime_context_bind_var_def comptime_context_bind_func_def comptime_context_new_def call_user_def
        eval_block_def comptime_eval_return_stmt_def comptime_eval_statement_def comptime_value_from_literal_def
        comptime_result_new_def failed_def bind_params_def param_names_def Let_def)
qed

section \<open>Loops\<close>

text \<open>
  A loop whose body is a block, which is what the parser produces, never runs it: when the
  condition holds the first time the loop fails, because the body goes through the evaluator
  that only knows expressions and declarations.
\<close>

theorem comptime_block_loop_fails:
  assumes "comptime_eval_expression F n (comptime_context_new cs) cond = Done (r, cs1)" and "\<not> failed r"
    and "comptime_value_is_truthy F (cr_value r)" and "cond \<noteq> ENull"
  shows "comptime_eval_statement_enhanced F n cs (SFor p SNull cond post (SBlock q body))
      = Done (error_result (UnsupportedStatement 9) q, cs)"
proof -
  have "for_loop F (comptime_call_user_function F n) p cond post (SBlock q body) (Suc 999) None (comptime_context_new cs)
      = Done (error_result (UnsupportedStatement 9) q)"
    using assms by (simp only: for_loop.simps) (simp add: comptime_eval_expression_def comptime_eval_statement_def)
  then show ?thesis
    by (simp add: comptime_eval_statement_enhanced_def comptime_eval_for_stmt_def)
qed

theorem comptime_block_loop_fails_witness:
  "comptime_eval_statement_enhanced unit_floats 0 size_ctx (SFor no_pos SNull size_expr SNull (SBlock no_pos []))
     = Done (error_result (UnsupportedStatement 9) no_pos, size_ctx)"
proof -
  have "comptime_eval_expression unit_floats 0 (comptime_context_new size_ctx) size_expr
      = Done (value_result (CBool True), comptime_context_new size_ctx)" by code_simp
  then show ?thesis
    using comptime_block_loop_fails [of unit_floats 0 size_ctx size_expr "value_result (CBool True)" "comptime_context_new size_ctx"]
    by (simp add: comptime_value_is_truthy_def size_expr_def)
qed

text \<open>With an initialisation that succeeds and a condition that evaluates, the freed result is used again.\<close>

lemma for_init_undefined:
  assumes "init \<noteq> SNull" and "cond \<noteq> ENull"
    and "comptime_eval_statement F (comptime_call_user_function F n) (comptime_context_new cs) init = Done (ir, cs1)" and "\<not> failed ir"
    and "comptime_eval_expression F n cs1 cond = Done (cr, cs2)" and "\<not> failed cr"
  shows "comptime_eval_statement_enhanced F n cs (SFor p init cond post body) = Undefined"
  using assms by (simp add: comptime_eval_statement_enhanced_def comptime_eval_for_stmt_def comptime_eval_expression_def)

end
