(* ===== verification/ConstFold.thy ===== *)
theory ConstFold
  imports Types Token "HOL-Library.Signed_Division"
begin

unbundle bit_operations_syntax

text \<open>
  The constant folders of \<open>src/types/expression_helpers.c\<close>: \<open>goo_fold_const_int\<close> and its
  checker-aware twin \<open>goo_fold_const_int_ctx\<close>, which compute in 64-bit modular arithmetic,
  and \<open>goo_fold_const_string\<close>; with the helpers beside them that look at comptime parameters
  and array types. The integer folders are compared with Go's constants, which have arbitrary
  precision.
\<close>

section \<open>Expressions and variables\<close>

datatype fexpr =
    FLiteral token_type string
  | FIdentifier string
  | FSelector fexpr string
  | FUnary token_type fexpr
  | FBinary token_type fexpr fexpr
  | FCall fexpr "fexpr list"
  | FOther

text \<open>Of a variable: its cached constant, whether it is a comptime parameter, and the exports of the package it marks.\<close>

datatype fvar = FVar (fv_const: "64 word option") (fv_comptime_param: bool)
  (fv_exports: "(string \<times> fvar) list option")

type_synonym fscope = "(string \<times> fvar) list list"

primrec fscope_lookup :: "fscope \<Rightarrow> string \<Rightarrow> fvar option" where
  "fscope_lookup [] name = None"
| "fscope_lookup (f # fs) name = (case map_of f name of Some v \<Rightarrow> Some v | None \<Rightarrow> fscope_lookup fs name)"

section \<open>Reading a literal\<close>

text \<open>
  \<open>strtoull\<close> in base 0: white space, a sign, then \<open>0x\<close> and hexadecimal digits, a leading \<open>0\<close>
  and octal digits, or decimal digits. Out of range it is the largest value; a negative number
  wraps.
\<close>

definition digit_value :: "char \<Rightarrow> nat" where
  "digit_value c = (let n = char_code c in
     if 48 \<le> n \<and> n \<le> 57 then n - 48
     else if 97 \<le> n \<and> n \<le> 122 then n - 87
     else if 65 \<le> n \<and> n \<le> 90 then n - 55 else 99)"

definition read_digits :: "nat \<Rightarrow> string \<Rightarrow> nat" where
  "read_digits base s = foldl (\<lambda>n c. base * n + digit_value c) 0 (takeWhile (\<lambda>c. digit_value c < base) s)"

definition read_base0 :: "string \<Rightarrow> nat" where
  "read_base0 s = (case s of
     c # d # t \<Rightarrow>
       if c = CHR ''0'' \<and> (d = CHR ''x'' \<or> d = CHR ''X'') then
         (if t \<noteq> [] \<and> digit_value (hd t) < 16 then read_digits 16 t else 0)
       else if c = CHR ''0'' then read_digits 8 s
       else read_digits 10 s
   | _ \<Rightarrow> read_digits 10 s)"

definition strtoull :: "string \<Rightarrow> 64 word" where
  "strtoull s =
     (let t = dropWhile (\<lambda>c. c = CHR '' '' \<or> (9 \<le> char_code c \<and> char_code c \<le> 13)) s;
          (neg, u) = (case t of c # cs \<Rightarrow> if c = CHR ''-'' then (True, cs) else if c = CHR ''+'' then (False, cs) else (False, t)
                      | [] \<Rightarrow> (False, []));
          n = read_base0 u
      in if int n \<ge> 2 ^ 64 then - 1 else if neg then - word_of_nat n else word_of_nat n)"

section \<open>The integer folders\<close>

text \<open>
  A folder returns 1 with a value, or 0; negating the smallest \<open>int64_t\<close> is a signed overflow, which
  C leaves undefined.
\<close>

datatype folded = Folded "64 word" | NotConstant | SignedOverflow

fun folded_of :: "64 word option \<Rightarrow> folded" where
  "folded_of (Some w) = Folded w"
| "folded_of None = NotConstant"

fun folded_value :: "folded \<Rightarrow> 64 word option" where
  "folded_value (Folded w) = Some w"
| "folded_value _ = None"

definition fold_unary :: "token_type \<Rightarrow> 64 word \<Rightarrow> folded" where
  "fold_unary op v =
     (if op = TOKEN_MINUS then (if sint v = - (2 ^ 63) then SignedOverflow else Folded (- v))
      else if op = TOKEN_PLUS then Folded v
      else if op = TOKEN_BIT_XOR then Folded (NOT v)
      else if op = TOKEN_BIT_NOT then Folded (NOT v)
      else NotConstant)"

definition fold_binary :: "token_type \<Rightarrow> 64 word \<Rightarrow> 64 word \<Rightarrow> 64 word option" where
  "fold_binary op l r =
     (if op = TOKEN_PLUS then Some (l + r)
      else if op = TOKEN_MINUS then Some (l - r)
      else if op = TOKEN_MULTIPLY then Some (l * r)
      else if op = TOKEN_DIVIDE then (if r = 0 then None else Some (l div r))
      else if op = TOKEN_MODULO then (if r = 0 then None else Some (l mod r))
      else if op = TOKEN_LSHIFT then
        (if r <s 0 then None else Some (if r \<ge> 64 then 0 else push_bit (unat r) l))
      else if op = TOKEN_RSHIFT then
        (if r <s 0 then None else Some (if r \<ge> 64 then 0 else drop_bit (unat r) l))
      else if op = TOKEN_BIT_AND then Some (l AND r)
      else if op = TOKEN_AND_NOT then Some (l AND NOT r)
      else if op = TOKEN_BIT_OR then Some (l OR r)
      else if op = TOKEN_BIT_XOR then Some (l XOR r)
      else None)"

text \<open>The loop over the arguments of \<open>min\<close> and \<open>max\<close>, on folded arguments.\<close>

definition pick :: "bool \<Rightarrow> 64 word \<Rightarrow> 64 word \<Rightarrow> 64 word" where
  "pick is_min acc v = (if (if is_min then v <s acc else acc <s v) then v else acc)"

definition min_max_call :: "fexpr \<Rightarrow> bool option" where
  "min_max_call fn = (case fn of
     FIdentifier name \<Rightarrow> if name = ''min'' then Some True else if name = ''max'' then Some False else None
   | _ \<Rightarrow> None)"

fun goo_fold_const_int :: "fexpr \<Rightarrow> folded"
  and fold_args :: "bool \<Rightarrow> 64 word \<Rightarrow> fexpr list \<Rightarrow> folded" where
  "goo_fold_const_int (FLiteral ty s) = (if ty \<noteq> TOKEN_INT then NotConstant else Folded (strtoull s))"
| "goo_fold_const_int (FUnary op e) = (case goo_fold_const_int e of Folded v \<Rightarrow> fold_unary op v | r \<Rightarrow> r)"
| "goo_fold_const_int (FBinary op l r) = (case goo_fold_const_int l of
     Folded a \<Rightarrow> (case goo_fold_const_int r of Folded b \<Rightarrow> folded_of (fold_binary op a b) | x \<Rightarrow> x) | x \<Rightarrow> x)"
| "goo_fold_const_int (FCall fn args) = (case min_max_call fn of None \<Rightarrow> NotConstant | Some is_min \<Rightarrow>
     (case args of [] \<Rightarrow> NotConstant | a # as \<Rightarrow>
        (case goo_fold_const_int a of Folded acc \<Rightarrow> fold_args is_min acc as | x \<Rightarrow> x)))"
| "goo_fold_const_int (FIdentifier x) = NotConstant"
| "goo_fold_const_int (FSelector e x) = NotConstant"
| "goo_fold_const_int FOther = NotConstant"
| "fold_args is_min acc [] = Folded acc"
| "fold_args is_min acc (a # as) =
     (case goo_fold_const_int a of Folded v \<Rightarrow> fold_args is_min (pick is_min acc v) as | x \<Rightarrow> x)"

definition goo_lookup_pkg_const :: "fscope \<Rightarrow> fexpr \<Rightarrow> fvar option" where
  "goo_lookup_pkg_const sc e = (case e of
     FSelector (FIdentifier pkg) name \<Rightarrow> (case fscope_lookup sc pkg of
         Some marker \<Rightarrow> (case fv_exports marker of Some exports \<Rightarrow> map_of exports name | None \<Rightarrow> None)
       | None \<Rightarrow> None)
   | _ \<Rightarrow> None)"

fun goo_fold_const_int_ctx :: "fscope \<Rightarrow> fexpr \<Rightarrow> folded"
  and fold_args_ctx :: "fscope \<Rightarrow> bool \<Rightarrow> 64 word \<Rightarrow> fexpr list \<Rightarrow> folded" where
  "goo_fold_const_int_ctx sc (FIdentifier x) = (case fscope_lookup sc x of None \<Rightarrow> NotConstant | Some v \<Rightarrow> folded_of (fv_const v))"
| "goo_fold_const_int_ctx sc (FSelector e x) =
     (case goo_lookup_pkg_const sc (FSelector e x) of None \<Rightarrow> NotConstant | Some v \<Rightarrow> folded_of (fv_const v))"
| "goo_fold_const_int_ctx sc (FUnary op e) = (case goo_fold_const_int_ctx sc e of Folded v \<Rightarrow> fold_unary op v | r \<Rightarrow> r)"
| "goo_fold_const_int_ctx sc (FBinary op l r) = (case goo_fold_const_int_ctx sc l of
     Folded a \<Rightarrow> (case goo_fold_const_int_ctx sc r of Folded b \<Rightarrow> folded_of (fold_binary op a b) | x \<Rightarrow> x) | x \<Rightarrow> x)"
| "goo_fold_const_int_ctx sc (FCall fn args) = (case min_max_call fn of None \<Rightarrow> NotConstant | Some is_min \<Rightarrow>
     (case args of [] \<Rightarrow> NotConstant | a # as \<Rightarrow>
        (case goo_fold_const_int_ctx sc a of Folded acc \<Rightarrow> fold_args_ctx sc is_min acc as | x \<Rightarrow> x)))"
| "goo_fold_const_int_ctx sc (FLiteral ty s) = goo_fold_const_int (FLiteral ty s)"
| "goo_fold_const_int_ctx sc FOther = goo_fold_const_int FOther"
| "fold_args_ctx sc is_min acc [] = Folded acc"
| "fold_args_ctx sc is_min acc (a # as) =
     (case goo_fold_const_int_ctx sc a of Folded v \<Rightarrow> fold_args_ctx sc is_min (pick is_min acc v) as | x \<Rightarrow> x)"

section \<open>Strings, comptime parameters and array types\<close>

text \<open>A string literal's text is its bytes, embedded NULs included.\<close>

fun goo_fold_const_string :: "fexpr \<Rightarrow> string option" where
  "goo_fold_const_string (FLiteral ty s) = (if ty \<noteq> TOKEN_STRING then None else Some s)"
| "goo_fold_const_string (FBinary op l r) = (if op \<noteq> TOKEN_PLUS then None
     else case goo_fold_const_string l of None \<Rightarrow> None | Some a \<Rightarrow>
       (case goo_fold_const_string r of None \<Rightarrow> None | Some b \<Rightarrow> Some (a @ b)))"
| "goo_fold_const_string e = None"

fun goo_expr_references_comptime_param :: "fscope \<Rightarrow> fexpr \<Rightarrow> bool" where
  "goo_expr_references_comptime_param sc (FIdentifier x) =
     (case fscope_lookup sc x of Some v \<Rightarrow> fv_comptime_param v | None \<Rightarrow> False)"
| "goo_expr_references_comptime_param sc (FUnary op e) = goo_expr_references_comptime_param sc e"
| "goo_expr_references_comptime_param sc (FBinary op l r) =
     (goo_expr_references_comptime_param sc l \<or> goo_expr_references_comptime_param sc r)"
| "goo_expr_references_comptime_param sc e = False"

function goo_type_contains_array :: "ty \<Rightarrow> bool" where
  "goo_type_contains_array t = (case ty_data t of
     DArray e n c \<Rightarrow> True
   | DSlice e \<Rightarrow> goo_type_contains_array e
   | DPointer e \<Rightarrow> goo_type_contains_array e
   | DNullable e \<Rightarrow> goo_type_contains_array e
   | _ \<Rightarrow> False)"
  by pat_completeness auto
termination
  by (relation "measure size") (auto dest!: ty_data_size_le)

function goo_type_contains_comptime_array :: "ty \<Rightarrow> bool" where
  "goo_type_contains_comptime_array t = (case ty_data t of
     DArray e n c \<Rightarrow> c \<or> goo_type_contains_comptime_array e
   | DSlice e \<Rightarrow> goo_type_contains_comptime_array e
   | DPointer e \<Rightarrow> goo_type_contains_comptime_array e
   | DNullable e \<Rightarrow> goo_type_contains_comptime_array e
   | _ \<Rightarrow> False)"
  by pat_completeness auto
termination
  by (relation "measure size") (auto dest!: ty_data_size_le)

declare goo_type_contains_array.simps [simp del] goo_type_contains_comptime_array.simps [simp del]

end
