(* ===== verification/ConstFold_Props.thy ===== *)
theory ConstFold_Props
  imports ConstFold
begin

unbundle bit_operations_syntax

text \<open>
  The folders against Go's constants of arbitrary precision. Modular arithmetic is exact for the
  ring and bit operations; division, remainder, right shift, shift counts and comparisons need
  their operands in range.
\<close>

section \<open>Constants of arbitrary precision\<close>

definition denote_unary :: "token_type \<Rightarrow> int \<Rightarrow> int option" where
  "denote_unary op v =
     (if op = TOKEN_MINUS then Some (- v)
      else if op = TOKEN_PLUS then Some v
      else if op = TOKEN_BIT_XOR \<or> op = TOKEN_BIT_NOT then Some (NOT v)
      else None)"

definition denote_binary :: "token_type \<Rightarrow> int \<Rightarrow> int \<Rightarrow> int option" where
  "denote_binary op a b =
     (if op = TOKEN_PLUS then Some (a + b)
      else if op = TOKEN_MINUS then Some (a - b)
      else if op = TOKEN_MULTIPLY then Some (a * b)
      else if op = TOKEN_DIVIDE then (if b = 0 then None else Some (a sdiv b))
      else if op = TOKEN_MODULO then (if b = 0 then None else Some (a smod b))
      else if op = TOKEN_LSHIFT then (if b < 0 then None else Some (push_bit (nat b) a))
      else if op = TOKEN_RSHIFT then (if b < 0 then None else Some (drop_bit (nat b) a))
      else if op = TOKEN_BIT_AND then Some (a AND b)
      else if op = TOKEN_AND_NOT then Some (a AND NOT b)
      else if op = TOKEN_BIT_OR then Some (a OR b)
      else if op = TOKEN_BIT_XOR then Some (a XOR b)
      else None)"

text \<open>\<open>env\<close> gives the values of identifiers and package constants.\<close>

fun denote :: "(fexpr \<Rightarrow> int option) \<Rightarrow> fexpr \<Rightarrow> int option"
  and denote_args :: "(fexpr \<Rightarrow> int option) \<Rightarrow> bool \<Rightarrow> int \<Rightarrow> fexpr list \<Rightarrow> int option" where
  "denote env (FLiteral ty s) = (if ty \<noteq> TOKEN_INT then None else Some (uint (strtoull s)))"
| "denote env (FUnary op e) = (case denote env e of None \<Rightarrow> None | Some v \<Rightarrow> denote_unary op v)"
| "denote env (FBinary op l r) = (case denote env l of None \<Rightarrow> None | Some a \<Rightarrow>
     (case denote env r of None \<Rightarrow> None | Some b \<Rightarrow> denote_binary op a b))"
| "denote env (FCall fn args) = (case min_max_call fn of None \<Rightarrow> None | Some is_min \<Rightarrow>
     (case args of [] \<Rightarrow> None | a # as \<Rightarrow>
        (case denote env a of None \<Rightarrow> None | Some acc \<Rightarrow> denote_args env is_min acc as)))"
| "denote env (FIdentifier x) = env (FIdentifier x)"
| "denote env (FSelector e x) = env (FSelector e x)"
| "denote env FOther = None"
| "denote_args env is_min acc [] = Some acc"
| "denote_args env is_min acc (a # as) = (case denote env a of None \<Rightarrow> None
     | Some v \<Rightarrow> denote_args env is_min (if is_min then min acc v else max acc v) as)"

section \<open>Where modular arithmetic is exact\<close>

abbreviation unsigned_ok :: "int \<Rightarrow> bool" where "unsigned_ok a \<equiv> 0 \<le> a \<and> a < 2 ^ 64"
abbreviation signed_ok :: "int \<Rightarrow> bool" where "signed_ok a \<equiv> - (2 ^ 63) \<le> a \<and> a < 2 ^ 63"

definition exact_op :: "token_type \<Rightarrow> int \<Rightarrow> int \<Rightarrow> bool" where
  "exact_op op a b =
     (if op = TOKEN_DIVIDE \<or> op = TOKEN_MODULO then unsigned_ok a \<and> unsigned_ok b
      else if op = TOKEN_LSHIFT then signed_ok b
      else if op = TOKEN_RSHIFT then unsigned_ok a \<and> signed_ok b
      else True)"

fun exact :: "(fexpr \<Rightarrow> int option) \<Rightarrow> fexpr \<Rightarrow> bool" where
  "exact env (FUnary op e) = exact env e"
| "exact env (FBinary op l r) = (exact env l \<and> exact env r \<and>
     (case (denote env l, denote env r) of (Some a, Some b) \<Rightarrow> exact_op op a b | _ \<Rightarrow> True))"
| "exact env (FCall fn args) = (\<forall>a \<in> set args. exact env a \<and> (case denote env a of Some v \<Rightarrow> signed_ok v | None \<Rightarrow> True))"
| "exact env e = True"

text \<open>
  A negation, reached by the folder, of a value whose reading as \<open>int64_t\<close> is the smallest one:
  undefined behaviour of the folder itself.
\<close>

fun negates_min :: "(fexpr \<Rightarrow> int option) \<Rightarrow> fexpr \<Rightarrow> bool"
  and negates_min_args :: "(fexpr \<Rightarrow> int option) \<Rightarrow> fexpr list \<Rightarrow> bool" where
  "negates_min env (FUnary op e) = (negates_min env e \<or>
     op = TOKEN_MINUS \<and> (case denote env e of Some v \<Rightarrow> v mod 2 ^ 64 = 2 ^ 63 | None \<Rightarrow> False))"
| "negates_min env (FBinary op l r) = (negates_min env l \<or> denote env l \<noteq> None \<and> negates_min env r)"
| "negates_min env (FCall fn args) = (min_max_call fn \<noteq> None \<and> negates_min_args env args)"
| "negates_min env e = False"
| "negates_min_args env [] = False"
| "negates_min_args env (a # as) = (negates_min env a \<or> denote env a \<noteq> None \<and> negates_min_args env as)"

definition const_fold :: "int option \<Rightarrow> folded" where
  "const_fold v = folded_of (map_option word_of_int v)"

lemma const_fold_simps [simp]: "const_fold (Some v) = Folded (word_of_int v)" "const_fold None = NotConstant"
  by (simp_all add: const_fold_def)

lemma uint_of_int: "unsigned_ok a \<Longrightarrow> uint (word_of_int a :: 64 word) = a"
  by (simp add: uint_word_of_int)

lemma sint_of_int: "signed_ok a \<Longrightarrow> sint (word_of_int a :: 64 word) = a"
  by (simp add: sint_sbintrunc' signed_take_bit_int_eq_self)

lemma shift_count:
  assumes "signed_ok b" and "0 \<le> b"
  shows "(64 \<le> (word_of_int b :: 64 word)) = (64 \<le> b)" and "unat (word_of_int b :: 64 word) = nat b"
proof -
  have u: "uint (word_of_int b :: 64 word) = b" using assms by (intro uint_of_int) simp
  then show "(64 \<le> (word_of_int b :: 64 word)) = (64 \<le> b)" by (simp add: word_le_def)
  show "unat (word_of_int b :: 64 word) = nat b" using u by (metis unat_eq_nat_uint)
qed

lemma sint_min_iff: "sint (word_of_int v :: 64 word) = - (2 ^ 63) \<longleftrightarrow> v mod 2 ^ 64 = 2 ^ 63"
proof -
  let ?w = "word_of_int v :: 64 word"
  have "- (2 ^ 63) = sint (word_of_int (2 ^ 63) :: 64 word)" by simp
  then have "sint ?w = - (2 ^ 63) \<longleftrightarrow> ?w = word_of_int (2 ^ 63)" using signed_word_eqI by metis
  also have "\<dots> \<longleftrightarrow> uint ?w = uint (word_of_int (2 ^ 63) :: 64 word)" by (rule word_uint_eq_iff)
  also have "\<dots> \<longleftrightarrow> v mod 2 ^ 64 = 2 ^ 63" by (simp add: uint_word_of_int)
  finally show ?thesis .
qed

lemma fold_unary_denote:
  "fold_unary op (word_of_int v) =
     (if op = TOKEN_MINUS \<and> v mod 2 ^ 64 = 2 ^ 63 then SignedOverflow else const_fold (denote_unary op v))"
  using sint_min_iff [of v] by (simp add: fold_unary_def denote_unary_def word_wi_log_defs(1))

text \<open>One operator at a time; the ring and bit operations need no condition.\<close>

lemma div_of_int:
  assumes "unsigned_ok a" and "unsigned_ok b"
  shows "(word_of_int a :: 64 word) div word_of_int b = word_of_int (a sdiv b)"
    and "(word_of_int a :: 64 word) mod word_of_int b = word_of_int (a smod b)"
    and "(word_of_int b :: 64 word) = 0 \<longleftrightarrow> b = 0"
proof -
  have u: "uint (word_of_int a :: 64 word) = a" "uint (word_of_int b :: 64 word) = b"
    using uint_of_int assms by auto
  have d: "a sdiv b = a div b" using assms by (simp add: signed_divide_int_def sgn_if)
  have "a smod b = a mod b" using assms by (simp add: signed_modulo_int_def sgn_if)
  then show "(word_of_int a :: 64 word) div word_of_int b = word_of_int (a sdiv b)"
    and "(word_of_int a :: 64 word) mod word_of_int b = word_of_int (a smod b)"
    using d u by (simp_all add: word_div_def word_mod_def)
  show "(word_of_int b :: 64 word) = 0 \<longleftrightarrow> b = 0" using u(2) by (metis uint_0_iff)
qed

lemma negative_count: "signed_ok b \<Longrightarrow> ((word_of_int b :: 64 word) <s 0) = (b < 0)"
  by (simp add: word_sless_alt sint_of_int)

lemma shift_of_int:
  assumes "signed_ok b" and "0 \<le> b"
  shows "(if 64 \<le> (word_of_int b :: 64 word) then 0 else push_bit (unat (word_of_int b :: 64 word)) (word_of_int a :: 64 word))
      = word_of_int (push_bit (nat b) a)"
    and "unsigned_ok a \<Longrightarrow>
      (if 64 \<le> (word_of_int b :: 64 word) then 0 else drop_bit (unat (word_of_int b :: 64 word)) (word_of_int a :: 64 word))
      = word_of_int (drop_bit (nat b) a)"
proof -
  note cnt = shift_count [OF assms]
  show "(if 64 \<le> (word_of_int b :: 64 word) then 0 else push_bit (unat (word_of_int b :: 64 word)) (word_of_int a :: 64 word))
      = word_of_int (push_bit (nat b) a)"
    unfolding cnt by (auto simp: of_int_push_bit push_bit_word_beyond)
  assume a: "unsigned_ok a"
  have "uint (drop_bit n (word_of_int a :: 64 word)) = drop_bit n a" for n
    unfolding unsigned_drop_bit_eq uint_of_int [OF a] using a by (simp add: take_bit_int_eq_self)
  then have "drop_bit n (word_of_int a :: 64 word) = word_of_int (drop_bit n a)" for n
    by (metis word_of_int_uint)
  moreover have "drop_bit (nat b) a = 0" if "64 \<le> b"
  proof -
    have "(2 :: int) ^ 64 \<le> 2 ^ nat b" using that by (intro power_increasing) auto
    then show ?thesis using a by (simp add: drop_bit_eq_div div_pos_pos_trivial)
  qed
  ultimately show "(if 64 \<le> (word_of_int b :: 64 word) then 0 else drop_bit (unat (word_of_int b :: 64 word)) (word_of_int a :: 64 word))
      = word_of_int (drop_bit (nat b) a)"
    unfolding cnt by auto
qed

lemma fold_binary_denote:
  assumes "exact_op op a b"
  shows "fold_binary op (word_of_int a) (word_of_int b) = map_option word_of_int (denote_binary op a b)"
proof -
  consider "op = TOKEN_DIVIDE \<or> op = TOKEN_MODULO" | "op = TOKEN_LSHIFT" | "op = TOKEN_RSHIFT"
    | "op \<notin> {TOKEN_DIVIDE, TOKEN_MODULO, TOKEN_LSHIFT, TOKEN_RSHIFT}" by blast
  then show ?thesis
  proof cases
    case 1
    then have "unsigned_ok a" "unsigned_ok b" using assms by (auto simp: exact_op_def)
    then show ?thesis using 1 div_of_int [of a b] by (auto simp: fold_binary_def denote_binary_def)
  next
    case 2
    then have b: "signed_ok b" using assms by (simp add: exact_op_def)
    then show ?thesis using 2 shift_of_int(1) [OF b] by (simp add: fold_binary_def denote_binary_def negative_count)
  next
    case 3
    then have b: "signed_ok b" "unsigned_ok a" using assms by (simp_all add: exact_op_def)
    then show ?thesis using 3 shift_of_int(2) [OF b(1) _ b(2)] by (simp add: fold_binary_def denote_binary_def negative_count)
  next
    case 4
    then show ?thesis by (simp add: fold_binary_def denote_binary_def wi_hom_syms word_wi_log_defs)
  qed
qed

lemma pick_denote:
  "signed_ok a \<Longrightarrow> signed_ok v \<Longrightarrow> pick is_min (word_of_int a) (word_of_int v)
     = word_of_int (if is_min then min a v else max a v)"
  by (auto simp: pick_def word_sless_alt sint_of_int min_def max_def)

section \<open>Correctness of the folders\<close>

definition env_agrees :: "(fexpr \<Rightarrow> int option) \<Rightarrow> fscope \<Rightarrow> bool" where
  "env_agrees env sc = ((\<forall>x. goo_fold_const_int_ctx sc (FIdentifier x) = const_fold (env (FIdentifier x)))
     \<and> (\<forall>e x. goo_fold_const_int_ctx sc (FSelector e x) = const_fold (env (FSelector e x))))"

lemma fold_args_denote:
  assumes "\<And>a. a \<in> set as \<Longrightarrow> goo_fold_const_int_ctx sc a = (if negates_min env a then SignedOverflow else const_fold (denote env a))"
    and "\<And>a. a \<in> set as \<Longrightarrow> case denote env a of Some v \<Rightarrow> signed_ok v | None \<Rightarrow> True" and "signed_ok acc"
  shows "fold_args_ctx sc is_min (word_of_int acc) as =
    (if negates_min_args env as then SignedOverflow else const_fold (denote_args env is_min acc as))"
  using assms
proof (induction as arbitrary: acc)
  case (Cons a as)
  show ?case
  proof (cases "denote env a")
    case (Some v)
    then have v: "signed_ok v" using Cons.prems(2) [of a] by simp
    let ?acc = "if is_min then min acc v else max acc v"
    have "signed_ok ?acc" using v Cons.prems(3) by (auto simp: min_def max_def)
    then have "fold_args_ctx sc is_min (word_of_int ?acc) as
        = (if negates_min_args env as then SignedOverflow else const_fold (denote_args env is_min ?acc as))"
      using Cons.prems by (intro Cons.IH) auto
    then show ?thesis using Some Cons.prems(1) [of a] pick_denote [OF Cons.prems(3) v, of is_min] by simp
  qed (use Cons.prems(1) [of a] in simp)
qed simp

text \<open>
  C14. Folding computes Go's constants: where divisions, remainders and right shifts have operands
  in the unsigned range, shift counts fit the signed range and so do the arguments of \<open>min\<close> and
  \<open>max\<close>, an expression folds exactly when it has a value in arbitrary precision, and the result is
  that value modulo 2 to the 64; the one exception is a negation of the smallest \<open>int64_t\<close>, at which
  the folder itself overflows. Sums, differences, products, complements and bit operations need
  no condition, whatever the size of their intermediate values.
\<close>

theorem fold_const_int_correct:
  assumes "exact env e" and "env_agrees env sc"
  shows "goo_fold_const_int_ctx sc e =
    (if negates_min env e then SignedOverflow
     else case denote env e of Some v \<Rightarrow> Folded (word_of_int v) | None \<Rightarrow> NotConstant)"
proof -
  have "goo_fold_const_int_ctx sc e = (if negates_min env e then SignedOverflow else const_fold (denote env e))"
    using assms(1)
  proof (induction e)
    case (FUnary op e)
    then show ?case by (cases "denote env e") (simp_all add: fold_unary_denote)
  next
    case (FBinary op l r)
    then show ?case
      by (cases "denote env l"; cases "denote env r") (simp_all add: fold_binary_denote const_fold_def)
  next
    case (FCall fn args)
    show ?case
    proof (cases "min_max_call fn"; cases args)
      fix is_min a as
      assume call: "min_max_call fn = Some is_min" "args = a # as"
      have all: "\<And>x. x \<in> set args \<Longrightarrow> goo_fold_const_int_ctx sc x =
            (if negates_min env x then SignedOverflow else const_fold (denote env x))"
        and rng: "\<And>x. x \<in> set args \<Longrightarrow> case denote env x of Some v \<Rightarrow> signed_ok v | None \<Rightarrow> True"
        using FCall by simp_all
      show ?thesis
      proof (cases "denote env a")
        case (Some acc)
        then have "signed_ok acc" using rng [of a] call(2) by simp
        then have "fold_args_ctx sc is_min (word_of_int acc) as =
            (if negates_min_args env as then SignedOverflow else const_fold (denote_args env is_min acc as))"
          using all rng call(2) by (intro fold_args_denote) auto
        then show ?thesis using call Some all [of a] by simp
      qed (use call all [of a] in simp)
    qed simp_all
  qed (use assms(2) in \<open>auto simp: env_agrees_def\<close>)
  then show ?thesis by (simp add: const_fold_def split: option.split)
qed

text \<open>The all-ones mask \<open>1 << 64 - 1\<close> on a constant, with its intermediate value out of range.\<close>

definition mask_expr :: fexpr where
  "mask_expr = FBinary TOKEN_MINUS (FBinary TOKEN_LSHIFT (FLiteral TOKEN_INT ''1'') (FIdentifier ''bits'')) (FLiteral TOKEN_INT ''1'')"

theorem fold_const_int_correct_witness:
  "goo_fold_const_int_ctx [[(''bits'', FVar (Some 64) False None)]] mask_expr = Folded (word_of_int (2 ^ 64 - 1))"
proof -
  let ?env = "\<lambda>e. if e = FIdentifier ''bits'' then Some 64 else None"
  let ?sc = "[[(''bits'', FVar (Some 64) False None)]]"
  have one: "strtoull ''1'' = 1" by code_simp
  have val: "denote ?env mask_expr = Some (2 ^ 64 - 1)"
    by (simp add: mask_expr_def denote_binary_def one push_bit_eq_mult)
  have "exact ?env mask_expr" by (simp add: mask_expr_def exact_op_def denote_binary_def one)
  moreover have "env_agrees ?env ?sc"
    by (auto simp: env_agrees_def goo_lookup_pkg_const_def split: fexpr.splits)
  moreover have "\<not> negates_min ?env mask_expr" by (simp add: mask_expr_def)
  ultimately show ?thesis using fold_const_int_correct [of ?env mask_expr ?sc] val by simp
qed

text \<open>
  Outside that range the folders are wrong: dividing or shifting a negative constant works on
  its unsigned reading, so \<open>-7 / 2\<close> folds to 9223372036854775804 and \<open>-8 >> 1\<close> to
  9223372036854775804, where Go has -3 and -4.
\<close>

theorem fold_negative_division_wrong:
  "goo_fold_const_int (FBinary TOKEN_DIVIDE (FUnary TOKEN_MINUS (FLiteral TOKEN_INT ''7'')) (FLiteral TOKEN_INT ''2''))
     = Folded 9223372036854775804
   \<and> denote env (FBinary TOKEN_DIVIDE (FUnary TOKEN_MINUS (FLiteral TOKEN_INT ''7'')) (FLiteral TOKEN_INT ''2'')) = Some (- 3)
   \<and> goo_fold_const_int (FBinary TOKEN_RSHIFT (FUnary TOKEN_MINUS (FLiteral TOKEN_INT ''8'')) (FLiteral TOKEN_INT ''1''))
     = Folded 9223372036854775804
   \<and> denote env (FBinary TOKEN_RSHIFT (FUnary TOKEN_MINUS (FLiteral TOKEN_INT ''8'')) (FLiteral TOKEN_INT ''1'')) = Some (- 4)"
proof -
  have lit: "strtoull ''7'' = 7" "strtoull ''2'' = 2" "strtoull ''8'' = 8" "strtoull ''1'' = 1" by code_simp+
  have neg: "sint (7 :: 64 word) \<noteq> - (2 ^ 63)" "sint (8 :: 64 word) \<noteq> - (2 ^ 63)" by simp_all
  have w: "(- 7 :: 64 word) div 2 = 9223372036854775804" "drop_bit 1 (- 8 :: 64 word) = 9223372036854775804" by code_simp+
  have "\<not> (1 :: 64 word) <s 0" "\<not> (64 :: 64 word) \<le> 1" by code_simp+
  moreover have "(- 7 :: int) sdiv 2 = - 3" "drop_bit 1 (- 8 :: int) = - 4" by code_simp+
  ultimately show ?thesis
    using w neg by (simp add: lit fold_binary_def fold_unary_def denote_binary_def denote_unary_def del: minus_sdiv_eq)
qed

text \<open>The smallest \<open>int64\<close>, written as \<open>-(1 << 63)\<close>: its folding overflows in the folder.\<close>

theorem fold_min_int_overflows:
  "goo_fold_const_int (FUnary TOKEN_MINUS (FBinary TOKEN_LSHIFT (FLiteral TOKEN_INT ''1'') (FLiteral TOKEN_INT ''63'')))
     = SignedOverflow"
proof -
  have lit: "strtoull ''1'' = 1" "strtoull ''63'' = 63" by code_simp+
  have "fold_binary TOKEN_LSHIFT 1 63 = Some 9223372036854775808" by code_simp
  moreover have "fold_unary TOKEN_MINUS 9223372036854775808 = SignedOverflow" by (simp add: fold_unary_def)
  ultimately show ?thesis using lit by simp
qed

section \<open>The two copies agree\<close>

fun closed_expr :: "fexpr \<Rightarrow> bool" where
  "closed_expr (FIdentifier x) = False"
| "closed_expr (FSelector e x) = False"
| "closed_expr (FUnary op e) = closed_expr e"
| "closed_expr (FBinary op l r) = (closed_expr l \<and> closed_expr r)"
| "closed_expr (FCall fn args) = (\<forall>a \<in> set args. closed_expr a)"
| "closed_expr e = True"

lemma fold_args_agree:
  "(\<And>a. a \<in> set as \<Longrightarrow> goo_fold_const_int_ctx sc a = goo_fold_const_int a) \<Longrightarrow> fold_args_ctx sc m acc as = fold_args m acc as"
  by (induction as arbitrary: acc) (auto split: folded.splits)

text \<open>The checker-aware folder and the context-free one are separate copies of the same switch; on constants without names they agree.\<close>

lemma fold_copies_agree: "closed_expr e \<Longrightarrow> goo_fold_const_int_ctx sc e = goo_fold_const_int e"
proof (induction e)
  case (FCall fn args)
  then show ?case by (auto simp: fold_args_agree split: option.splits list.splits folded.splits)
qed (auto split: folded.splits)

section \<open>Strings and array types\<close>

fun string_leaves :: "fexpr \<Rightarrow> string list" where
  "string_leaves (FLiteral ty s) = [s]"
| "string_leaves (FBinary op l r) = string_leaves l @ string_leaves r"
| "string_leaves e = []"

lemma fold_string_concat: "goo_fold_const_string e = Some s \<Longrightarrow> s = concat (string_leaves e)"
  by (induction e arbitrary: s rule: goo_fold_const_string.induct) (auto split: if_splits option.splits)

lemma comptime_array_is_array:
  "goo_type_contains_comptime_array t \<Longrightarrow> goo_type_contains_array t"
  by (induction t rule: goo_type_contains_comptime_array.induct)
     (subst goo_type_contains_array.simps, subst (asm) (2) goo_type_contains_comptime_array.simps,
      auto split: ty_data.splits)

end
