(* ===== verification/Operators.thy ===== *)
theory Operators
  imports Scope Types_Props
begin

text \<open>
  The operator rules of the type checker, \<open>type_check_arithmetic_op\<close>, \<open>type_check_comparison_op\<close>,
  \<open>type_check_logical_op\<close> and \<open>type_check_bitwise_op\<close> of \<open>src/types/expression_helpers.c\<close> with
  their helpers. A check returns the type of the result, or null after it has reported an error
  on the checker; of an error only the count is kept.
\<close>

section \<open>Builtin types and kinds\<close>

definition type_checker_get_builtin :: "basic_kind \<Rightarrow> ty option" where
  "type_checker_get_builtin k = (case k of
     TYPE_VOID \<Rightarrow> Some type_void | TYPE_BOOL \<Rightarrow> Some type_bool
   | TYPE_INT8 \<Rightarrow> type_int 8 True | TYPE_INT16 \<Rightarrow> type_int 16 True | TYPE_INT32 \<Rightarrow> type_int 32 True | TYPE_INT64 \<Rightarrow> type_int 64 True
   | TYPE_UINT8 \<Rightarrow> type_int 8 False | TYPE_UINT16 \<Rightarrow> type_int 16 False | TYPE_UINT32 \<Rightarrow> type_int 32 False | TYPE_UINT64 \<Rightarrow> type_int 64 False
   | TYPE_FLOAT32 \<Rightarrow> type_float 32 | TYPE_FLOAT64 \<Rightarrow> type_float 64
   | TYPE_STRING \<Rightarrow> Some type_string_type | TYPE_CHAR \<Rightarrow> Some type_char | TYPE_POISON \<Rightarrow> Some type_poison
   | _ \<Rightarrow> None)"

definition has_kind :: "basic_kind \<Rightarrow> ty \<Rightarrow> bool" where
  "has_kind k t = (ty_data t = DBasic k)"

definition same_nil_only_kind :: "ty \<Rightarrow> ty \<Rightarrow> bool" where
  "same_nil_only_kind l r = (case (ty_data l, ty_data r) of
     (DSlice _, DSlice _) \<Rightarrow> True | (DMap _ _, DMap _ _) \<Rightarrow> True
   | (DFunction _ _ _ _, DFunction _ _ _ _) \<Rightarrow> True | _ \<Rightarrow> False)"

definition same_identity_kind :: "ty \<Rightarrow> ty \<Rightarrow> bool" where
  "same_identity_kind l r = (case (ty_data l, ty_data r) of
     (DPointer _, DPointer _) \<Rightarrow> True | (DChannel _ _ _, DChannel _ _ _) \<Rightarrow> True | _ \<Rightarrow> False)"

definition is_ref_kind :: "ty \<Rightarrow> bool" where
  "is_ref_kind t = (case ty_data t of
     DPointer _ \<Rightarrow> True | DSlice _ \<Rightarrow> True | DMap _ _ \<Rightarrow> True | DChannel _ _ _ \<Rightarrow> True | _ \<Rightarrow> False)"

definition is_function :: "ty \<Rightarrow> bool" where
  "is_function t = (case ty_data t of DFunction _ _ _ _ \<Rightarrow> True | _ \<Rightarrow> False)"

definition is_interface :: "ty \<Rightarrow> bool" where
  "is_interface t = (case ty_data t of DInterface _ \<Rightarrow> True | _ \<Rightarrow> False)"

definition is_struct :: "ty \<Rightarrow> bool" where
  "is_struct t = (case ty_data t of DStruct _ _ \<Rightarrow> True | _ \<Rightarrow> False)"

section \<open>Arithmetic, bitwise and logical operators\<close>

type_synonym check = "ty option \<times> tchecker"

definition reject :: "tchecker \<Rightarrow> check" where
  "reject c = (None, type_error c)"

definition integer_binop_result_type :: "ty \<Rightarrow> ty \<Rightarrow> bool \<Rightarrow> ty" where
  "integer_binop_result_type left right is_shift =
     (if is_shift then left
      else if ty_data left = ty_data right then left
      else if has_kind TYPE_INT64 left then right
      else if has_kind TYPE_INT64 right then left
      else if type_size (Some right) > type_size (Some left) then right else left)"

definition type_check_arithmetic_op :: "tchecker \<Rightarrow> ty \<Rightarrow> ty \<Rightarrow> token_type \<Rightarrow> check" where
  "type_check_arithmetic_op c left right op =
     (if op = TOKEN_PLUS \<and> has_kind TYPE_STRING left \<and> has_kind TYPE_STRING right
      then (type_checker_get_builtin TYPE_STRING, c)
      else if \<not> type_is_numeric (Some left) \<or> \<not> type_is_numeric (Some right) then reject c
      else if op = TOKEN_MODULO \<and> (type_is_float (Some left) \<or> type_is_float (Some right)) then reject c
      else if type_is_float (Some left) \<or> type_is_float (Some right) then
        (if has_kind TYPE_FLOAT64 left \<or> has_kind TYPE_FLOAT64 right then (type_checker_get_builtin TYPE_FLOAT64, c)
         else (type_checker_get_builtin TYPE_FLOAT32, c))
      else (Some (integer_binop_result_type left right False), c))"

definition type_check_logical_op :: "tchecker \<Rightarrow> ty \<Rightarrow> ty \<Rightarrow> token_type \<Rightarrow> check" where
  "type_check_logical_op c left right op =
     (if \<not> has_kind TYPE_BOOL left \<or> \<not> has_kind TYPE_BOOL right then reject c
      else (type_checker_get_builtin TYPE_BOOL, c))"

definition type_check_bitwise_op :: "tchecker \<Rightarrow> ty \<Rightarrow> ty \<Rightarrow> token_type \<Rightarrow> check" where
  "type_check_bitwise_op c left right op =
     (if \<not> type_is_integer (Some left) \<or> \<not> type_is_integer (Some right) then reject c
      else (Some (integer_binop_result_type left right (op = TOKEN_LSHIFT \<or> op = TOKEN_RSHIFT)), c))"

section \<open>Comparison\<close>

definition type_nullable_payload_supports_equality :: "ty \<Rightarrow> bool" where
  "type_nullable_payload_supports_equality t =
     (type_is_integer (Some t) \<or> type_is_float (Some t) \<or> has_kind TYPE_BOOL t \<or> has_kind TYPE_STRING t
      \<or> (case ty_data t of DPointer _ \<Rightarrow> True | _ \<Rightarrow> False))"

definition type_nullable_bases_comparable :: "ty \<Rightarrow> ty \<Rightarrow> bool" where
  "type_nullable_bases_comparable a b =
     (if type_is_integer (Some a) \<and> type_is_integer (Some b) then True
      else if type_is_float (Some a) \<and> type_is_float (Some b) then True
      else type_equals (Some a) (Some b))"

definition nil_with :: "(ty \<Rightarrow> bool) \<Rightarrow> ty \<Rightarrow> ty \<Rightarrow> bool" where
  "nil_with K l r = (K l \<and> has_kind TYPE_UNKNOWN r \<or> has_kind TYPE_UNKNOWN l \<and> K r)"

text \<open>The arm for nullable operands, neither of them the nil literal.\<close>

definition compare_nullable :: "tchecker \<Rightarrow> ty \<Rightarrow> ty \<Rightarrow> token_type \<Rightarrow> check" where
  "compare_nullable c left right op =
     (if op \<noteq> TOKEN_EQ \<and> op \<noteq> TOKEN_NE then reject c
      else case (ty_data left, ty_data right) of
        (DNullable lb, DNullable rb) \<Rightarrow>
          if \<not> type_nullable_bases_comparable lb rb then reject c
          else if \<not> type_nullable_payload_supports_equality lb then reject c
          else (type_checker_get_builtin TYPE_BOOL, c)
      | (DNullable b, _) \<Rightarrow>
          if \<not> type_nullable_bases_comparable right b then reject c
          else if \<not> type_nullable_payload_supports_equality b then reject c
          else (type_checker_get_builtin TYPE_BOOL, c)
      | (_, DNullable b) \<Rightarrow>
          if \<not> type_nullable_bases_comparable left b then reject c
          else if \<not> type_nullable_payload_supports_equality b then reject c
          else (type_checker_get_builtin TYPE_BOOL, c)
      | _ \<Rightarrow> (None, c))"

definition type_check_comparison_op :: "tchecker \<Rightarrow> ty \<Rightarrow> ty \<Rightarrow> token_type \<Rightarrow> check" where
  "type_check_comparison_op c left right op =
     (let bool_type = type_checker_get_builtin TYPE_BOOL; eq = (op = TOKEN_EQ \<or> op = TOKEN_NE) in
      if nil_with (\<lambda>t. type_is_nullable (Some t)) left right then (bool_type, c)
      else if eq \<and> nil_with is_function left right then (bool_type, c)
      else if eq \<and> nil_with is_interface left right then (bool_type, c)
      else if eq \<and> nil_with is_ref_kind left right then (bool_type, c)
      else if eq \<and> same_nil_only_kind left right then reject c
      else if eq \<and> is_struct left \<and> is_struct right \<and> type_equals (Some left) (Some right)
          \<and> \<not> type_struct_fields_comparable left then reject c
      else if eq \<and> same_identity_kind left right \<and> type_compatible left right then (bool_type, c)
      else if \<not> eq \<and> nil_with (\<lambda>t. type_is_nilable_ref_kind (Some t)) left right then reject c
      else if type_is_nullable (Some left) \<or> type_is_nullable (Some right) then compare_nullable c left right op
      else if \<not> type_compatible left right then reject c
      else (bool_type, c))"

section \<open>What the checks guarantee\<close>

text \<open>A check that gives no type has reported exactly one error, and one that gives a type none.\<close>

definition reports :: "tchecker \<Rightarrow> check \<Rightarrow> bool" where
  "reports c res = (if fst res = None then snd res = type_error c else snd res = c)"

lemma reports_simps [simp]: "reports c (reject c)" "reports c (Some t, c)"
  by (simp_all add: reports_def reject_def)

lemma builtin_some:
  "type_checker_get_builtin TYPE_BOOL = Some type_bool" "type_checker_get_builtin TYPE_STRING = Some type_string_type"
  "\<exists>t. type_checker_get_builtin TYPE_FLOAT64 = Some t \<and> has_kind TYPE_FLOAT64 t"
  "\<exists>t. type_checker_get_builtin TYPE_FLOAT32 = Some t \<and> has_kind TYPE_FLOAT32 t"
  by (simp_all add: type_checker_get_builtin_def type_float_def has_kind_def)

lemma reports_builtin [simp]:
  "reports c (type_checker_get_builtin TYPE_FLOAT64, c)" "reports c (type_checker_get_builtin TYPE_FLOAT32, c)"
  using builtin_some(3,4) by (auto simp: reports_def)

lemma compare_nullable_reports:
  "type_is_nullable (Some l) \<or> type_is_nullable (Some r) \<Longrightarrow> reports c (compare_nullable c l r op)"
  by (auto simp: compare_nullable_def type_is_nullable_def builtin_some split: ty_data.splits)

lemma comparison_reports: "reports c (type_check_comparison_op c l r op)"
  by (simp add: type_check_comparison_op_def Let_def builtin_some compare_nullable_reports)

lemma arithmetic_reports: "reports c (type_check_arithmetic_op c l r op)"
  by (simp add: type_check_arithmetic_op_def builtin_some)


abbreviation fresh_checker :: tchecker where
  "fresh_checker \<equiv> \<lparr>tc_scope = scope_new [], tc_next_scope_id = 1, tc_error_count = 0, tc_warning_count = 0\<rparr>"


section \<open>Nullable equality\<close>

lemma comparable_sym: "type_nullable_bases_comparable a b = type_nullable_bases_comparable b a"
  using type_equals_sym by (auto simp: type_nullable_bases_comparable_def simp del: equals_simps)

lemma nil_with_sym: "nil_with K l r = nil_with K r l"
  by (auto simp: nil_with_def)

lemma nullable_data: "type_is_nullable (Some t) \<longleftrightarrow> (\<exists>b. ty_data t = DNullable b)"
  by (cases "ty_data t") (simp_all add: type_is_nullable_def)

lemma nullable_not_compared:
  assumes "type_is_nullable (Some t)"
  shows "\<not> is_function t" "\<not> is_interface t" "\<not> is_ref_kind t" "\<not> is_struct t" "\<not> has_kind k t"
    "\<not> same_nil_only_kind t s" "\<not> same_nil_only_kind s t" "\<not> same_identity_kind t s" "\<not> same_identity_kind s t"
  using assms by (auto simp: nullable_data is_function_def is_interface_def is_ref_kind_def is_struct_def has_kind_def
      same_nil_only_kind_def same_identity_kind_def split: ty_data.splits)

lemma comparison_of_nullable:
  assumes "type_is_nullable (Some l) \<or> type_is_nullable (Some r)" "op = TOKEN_EQ \<or> op = TOKEN_NE"
  shows "type_check_comparison_op c l r op =
    (if nil_with (\<lambda>t. type_is_nullable (Some t)) l r then (Some type_bool, c) else compare_nullable c l r op)"
  using assms(1)
proof
  assume l: "type_is_nullable (Some l)"
  show ?thesis using assms(2) l nullable_not_compared [OF l]
    by (auto simp: type_check_comparison_op_def Let_def builtin_some nil_with_def)
next
  assume r: "type_is_nullable (Some r)"
  show ?thesis using assms(2) r nullable_not_compared [OF r]
    by (auto simp: type_check_comparison_op_def Let_def builtin_some nil_with_def)
qed

lemma comparable_payload:
  "type_nullable_bases_comparable a b \<Longrightarrow>
   type_nullable_payload_supports_equality a = type_nullable_payload_supports_equality b"
proof -
  assume c: "type_nullable_bases_comparable a b"
  have "type_nullable_payload_supports_equality a = type_nullable_payload_supports_equality b"
    if "data_equals (ty_data a) (ty_data b)"
    using that by (cases "ty_data a")
      (simp_all only: data_equals_cases, auto simp: type_nullable_payload_supports_equality_def
        type_is_integer_def type_is_float_def basic_def has_kind_def)
  then show ?thesis
    using c by (auto simp: type_nullable_bases_comparable_def type_nullable_payload_supports_equality_def
        simp del: data_equals.simps split: if_splits)
qed

text \<open>
  Equality of nullable values is symmetric, as the comment over the nullable arm promises:
  for \<open>==\<close> and \<open>!=\<close> with a nullable operand, the operands may be written in either order, and
  two nullables are accepted exactly when their bases are comparable and the payload has an equality.
\<close>

theorem nullable_equality_symmetric:
  assumes "type_is_nullable (Some l) \<or> type_is_nullable (Some r)" "op = TOKEN_EQ \<or> op = TOKEN_NE"
  shows "type_check_comparison_op c l r op = type_check_comparison_op c r l op"
proof -
  have "compare_nullable c l r op = compare_nullable c r l op"
    using assms by (cases "ty_data l"; cases "ty_data r")
      (auto simp: compare_nullable_def nullable_data comparable_sym comparable_payload)
  then show ?thesis
    using comparison_of_nullable [OF assms] comparison_of_nullable [of r l op c] assms nil_with_sym [of _ l r] by auto
qed

theorem nullable_equality_symmetric_witness:
  "type_check_comparison_op fresh_checker (the (type_nullable (Some type_bool))) type_bool TOKEN_EQ
   = type_check_comparison_op fresh_checker type_bool (the (type_nullable (Some type_bool))) TOKEN_EQ"
  by (rule nullable_equality_symmetric) (simp_all add: type_nullable_def type_is_nullable_def)

text \<open>
  Ordering is not restricted to ordered types: for every type that is not nullable, and whatever
  its kind, \<open><\<close>, \<open><=\<close>, \<open>>\<close> and \<open>>=\<close> between two operands of that type are accepted with the type
  bool, booleans, slices, maps and functions included.
\<close>

theorem ordering_unchecked:
  assumes "\<not> type_is_nullable (Some t)" "op \<noteq> TOKEN_EQ \<and> op \<noteq> TOKEN_NE"
  shows "type_check_comparison_op c t t op = (Some type_bool, c)"
  using assms type_equals_refl [of "Some t"]
  by (auto simp: type_check_comparison_op_def Let_def builtin_some nil_with_def has_kind_def type_compatible.simps [of t t]
      type_is_nilable_ref_kind_def simp del: equals_simps)

theorem ordering_unchecked_witness:
  "type_check_comparison_op fresh_checker (the (type_slice (Some type_bool))) (the (type_slice (Some type_bool))) TOKEN_LT
   = (Some type_bool, fresh_checker)"
  by (rule ordering_unchecked) (simp_all add: type_slice_def type_is_nullable_def)

end
