(* ===== verification/Shims.thy ===== *)
theory Shims
  imports Operators
begin

text \<open>
  The table of the callable members of the hard-wired standard packages and its lookups
  (\<open>src/types/shim_signatures.c\<close>), the error type of the checker, and the whitelist of callees
  that keep none of their arguments (\<open>src/types/nonretaining.c\<close>).
\<close>

section \<open>The table\<close>

datatype shim_param = SHIM_PARAM_STRING | SHIM_PARAM_INT64 | SHIM_PARAM_FLOAT64 | SHIM_PARAM_STRING_SLICE | SHIM_PARAM_ERROR

datatype shim_ret = SHIM_RET_VOID | SHIM_RET_STRING | SHIM_RET_FLOAT64 | SHIM_RET_INT32 | SHIM_RET_BOOL
  | SHIM_RET_STRING_SLICE | SHIM_RET_ERROR | SHIM_RET_ATOI_RESULT | SHIM_RET_STRING_RESULT | SHIM_RET_F64_RESULT

text \<open>A row: package, name, return kind, fixed parameters, variadic, non-retaining, owned elements.\<close>

datatype shim_signature = ShimSignature (sg_pkg: string) (sg_name: string) (sg_ret: shim_ret)
  (sg_params: "shim_param list") (sg_is_variadic: bool) (sg_non_retaining: bool) (sg_returns_owned_elems: bool)

definition SHIM_TABLE :: "shim_signature list" where
  "SHIM_TABLE = [
     ShimSignature ''fmt'' ''Println'' SHIM_RET_VOID [] True True False,
     ShimSignature ''fmt'' ''Print'' SHIM_RET_VOID [] True True False,
     ShimSignature ''fmt'' ''Sprint'' SHIM_RET_STRING [] True True False,
     ShimSignature ''fmt'' ''Sprintln'' SHIM_RET_STRING [] True True False,
     ShimSignature ''fmt'' ''Printf'' SHIM_RET_VOID [SHIM_PARAM_STRING] True True False,
     ShimSignature ''fmt'' ''Sprintf'' SHIM_RET_STRING [SHIM_PARAM_STRING] True True False,
     ShimSignature ''fmt'' ''Errorf'' SHIM_RET_ERROR [SHIM_PARAM_STRING] True False False,
     ShimSignature ''fmt'' ''Fprint'' SHIM_RET_VOID [] True False False,
     ShimSignature ''fmt'' ''Fprintln'' SHIM_RET_VOID [] True False False,
     ShimSignature ''fmt'' ''Fprintf'' SHIM_RET_VOID [] True False False,
     ShimSignature ''os'' ''Exit'' SHIM_RET_VOID [SHIM_PARAM_INT64] False True False,
     ShimSignature ''os'' ''Getenv'' SHIM_RET_STRING [SHIM_PARAM_STRING] False False False,
     ShimSignature ''os'' ''WriteFile'' SHIM_RET_INT32 [SHIM_PARAM_STRING, SHIM_PARAM_STRING] False False False,
     ShimSignature ''os'' ''ReadByte'' SHIM_RET_INT32 [SHIM_PARAM_STRING, SHIM_PARAM_INT64] False False False,
     ShimSignature ''os'' ''FileSize'' SHIM_RET_INT32 [SHIM_PARAM_STRING] False False False,
     ShimSignature ''os'' ''ReadFile'' SHIM_RET_STRING_RESULT [SHIM_PARAM_STRING] False False False,
     ShimSignature ''os'' ''ReadLine'' SHIM_RET_STRING_RESULT [] False False False,
     ShimSignature ''math'' ''Sqrt'' SHIM_RET_FLOAT64 [SHIM_PARAM_FLOAT64] False True False,
     ShimSignature ''math'' ''Pow'' SHIM_RET_FLOAT64 [SHIM_PARAM_FLOAT64, SHIM_PARAM_FLOAT64] False True False,
     ShimSignature ''math'' ''Abs'' SHIM_RET_FLOAT64 [SHIM_PARAM_FLOAT64] False True False,
     ShimSignature ''math'' ''Min'' SHIM_RET_FLOAT64 [SHIM_PARAM_FLOAT64, SHIM_PARAM_FLOAT64] False True False,
     ShimSignature ''math'' ''Max'' SHIM_RET_FLOAT64 [SHIM_PARAM_FLOAT64, SHIM_PARAM_FLOAT64] False True False,
     ShimSignature ''strings'' ''Contains'' SHIM_RET_BOOL [SHIM_PARAM_STRING, SHIM_PARAM_STRING] False True False,
     ShimSignature ''strings'' ''ToUpper'' SHIM_RET_STRING [SHIM_PARAM_STRING] False True False,
     ShimSignature ''strings'' ''ToLower'' SHIM_RET_STRING [SHIM_PARAM_STRING] False True False,
     ShimSignature ''strings'' ''TrimSpace'' SHIM_RET_STRING [SHIM_PARAM_STRING] False True False,
     ShimSignature ''strings'' ''Split'' SHIM_RET_STRING_SLICE [SHIM_PARAM_STRING, SHIM_PARAM_STRING] False True True,
     ShimSignature ''strings'' ''Join'' SHIM_RET_STRING [SHIM_PARAM_STRING_SLICE, SHIM_PARAM_STRING] False True False,
     ShimSignature ''strconv'' ''Itoa'' SHIM_RET_STRING [SHIM_PARAM_INT64] False True False,
     ShimSignature ''strconv'' ''Atoi'' SHIM_RET_ATOI_RESULT [SHIM_PARAM_STRING] False True False,
     ShimSignature ''errors'' ''New'' SHIM_RET_ERROR [SHIM_PARAM_STRING] False True False,
     ShimSignature ''errors'' ''Unwrap'' SHIM_RET_ERROR [SHIM_PARAM_ERROR] False False False,
     ShimSignature ''errors'' ''Is'' SHIM_RET_BOOL [SHIM_PARAM_ERROR, SHIM_PARAM_ERROR] False True False,
     ShimSignature ''far'' ''Listen'' SHIM_RET_ATOI_RESULT [SHIM_PARAM_STRING] False False False,
     ShimSignature ''far'' ''Dial'' SHIM_RET_ATOI_RESULT [SHIM_PARAM_STRING] False False False,
     ShimSignature ''far'' ''SendF64'' SHIM_RET_VOID [SHIM_PARAM_INT64, SHIM_PARAM_FLOAT64] False False False,
     ShimSignature ''far'' ''RecvF64'' SHIM_RET_F64_RESULT [SHIM_PARAM_INT64] False False False,
     ShimSignature ''far'' ''Close'' SHIM_RET_VOID [SHIM_PARAM_INT64] False False False]"

definition shim_signature_find :: "string option \<Rightarrow> string option \<Rightarrow> shim_signature option" where
  "shim_signature_find package name = (case (package, name) of
     (Some p, Some n) \<Rightarrow> find (\<lambda>row. sg_pkg row = p \<and> sg_name row = n) SHIM_TABLE
   | _ \<Rightarrow> None)"

definition shim_signature_is_known_call :: "string option \<Rightarrow> string option \<Rightarrow> bool" where
  "shim_signature_is_known_call package name = (shim_signature_find package name \<noteq> None)"

definition shim_signature_is_non_retaining :: "string option \<Rightarrow> string option \<Rightarrow> bool" where
  "shim_signature_is_non_retaining package name =
     (case shim_signature_find package name of Some row \<Rightarrow> sg_non_retaining row | None \<Rightarrow> False)"

definition shim_signature_returns_owned_elems :: "string option \<Rightarrow> string option \<Rightarrow> bool" where
  "shim_signature_returns_owned_elems package name = (case shim_signature_find package name of
     None \<Rightarrow> False
   | Some row \<Rightarrow> if sg_ret row \<noteq> SHIM_RET_STRING_SLICE then False else sg_returns_owned_elems row)"

section \<open>The types built from a row\<close>

definition type_checker_error_type :: "ty option" where
  "type_checker_error_type = (case type_nullable (type_pointer (type_checker_get_builtin TYPE_INT8)) of
     None \<Rightarrow> None | Some t \<Rightarrow> Some (Type (ty_data t) (ty_size t) (ty_align t) (Some ''error'') (ty_owner t)))"

definition shim_any_type :: ty where
  "shim_any_type = Type (DInterface None) 0 0 None None"

definition shim_param_type :: "shim_param \<Rightarrow> ty option" where
  "shim_param_type kind = (case kind of
     SHIM_PARAM_STRING \<Rightarrow> type_checker_get_builtin TYPE_STRING
   | SHIM_PARAM_INT64 \<Rightarrow> type_checker_get_builtin TYPE_INT64
   | SHIM_PARAM_FLOAT64 \<Rightarrow> type_checker_get_builtin TYPE_FLOAT64
   | SHIM_PARAM_STRING_SLICE \<Rightarrow> type_slice (type_checker_get_builtin TYPE_STRING)
   | SHIM_PARAM_ERROR \<Rightarrow> type_checker_error_type)"

definition shim_ret_type :: "shim_ret \<Rightarrow> ty option" where
  "shim_ret_type kind = (case kind of
     SHIM_RET_VOID \<Rightarrow> type_checker_get_builtin TYPE_VOID
   | SHIM_RET_STRING \<Rightarrow> type_checker_get_builtin TYPE_STRING
   | SHIM_RET_FLOAT64 \<Rightarrow> type_checker_get_builtin TYPE_FLOAT64
   | SHIM_RET_INT32 \<Rightarrow> type_checker_get_builtin TYPE_INT32
   | SHIM_RET_BOOL \<Rightarrow> type_checker_get_builtin TYPE_BOOL
   | SHIM_RET_STRING_SLICE \<Rightarrow> type_slice (type_checker_get_builtin TYPE_STRING)
   | SHIM_RET_ERROR \<Rightarrow> type_checker_error_type
   | SHIM_RET_ATOI_RESULT \<Rightarrow> type_error_union (type_checker_get_builtin TYPE_INT64) (type_checker_get_builtin TYPE_STRING)
   | SHIM_RET_STRING_RESULT \<Rightarrow> type_error_union (type_checker_get_builtin TYPE_STRING) (type_checker_get_builtin TYPE_STRING)
   | SHIM_RET_F64_RESULT \<Rightarrow> type_error_union (type_checker_get_builtin TYPE_FLOAT64) (type_checker_get_builtin TYPE_STRING))"

definition shim_signature_lookup :: "string option \<Rightarrow> string option \<Rightarrow> ty option" where
  "shim_signature_lookup package name = (case shim_signature_find package name of None \<Rightarrow> None | Some sig \<Rightarrow>
     (case shim_ret_type (sg_ret sig) of None \<Rightarrow> None | Some ret \<Rightarrow>
       (if sg_params sig = [] \<and> sg_is_variadic sig then Some (set_variadic (type_function [] (Some ret)) True)
        else
          let params = map shim_param_type (sg_params sig); any_slice = type_slice (Some shim_any_type) in
          if None \<in> set params then None
          else if sg_is_variadic sig \<and> any_slice = None then None
          else Some (set_variadic (type_function (params @ (if sg_is_variadic sig then [any_slice] else [])) (Some ret))
            (sg_is_variadic sig)))))"

section \<open>Non-retaining callees\<close>

definition is_nonretaining_builtin :: "string option \<Rightarrow> bool" where
  "is_nonretaining_builtin name = (case name of None \<Rightarrow> False
     | Some n \<Rightarrow> n = ''len'' \<or> n = ''cap'' \<or> n = ''print'' \<or> n = ''println'')"

section \<open>What the table guarantees\<close>

lemma shim_types_exist: "\<exists>t. shim_param_type k = Some t" "\<exists>t. shim_ret_type r = Some t"
  by (cases k; simp add: shim_param_type_def type_checker_get_builtin_def type_checker_error_type_def type_slice_def
      type_int_def type_float_def type_nullable_def type_pointer_def)
    (cases r; simp add: shim_ret_type_def type_checker_get_builtin_def type_checker_error_type_def type_slice_def
      type_int_def type_float_def type_nullable_def type_pointer_def type_error_union_def)

text \<open>
  Every known call has a signature: its fixed parameters in the order of the row, one slice of
  \<open>any\<close> more when the row is variadic with a fixed prefix, and the variadic flag of the row.
\<close>

lemma shim_lookup_known:
  assumes "shim_signature_find p n = Some sig"
  shows "\<exists>ps r c nm. shim_signature_lookup p n = Some (Type (DFunction ps r (sg_is_variadic sig) c) 8 8 nm None)
    \<and> r = shim_ret_type (sg_ret sig) \<and> None \<notin> set ps
    \<and> ps = map shim_param_type (sg_params sig)
        @ (if sg_is_variadic sig \<and> sg_params sig \<noteq> [] then [type_slice (Some shim_any_type)] else [])"
proof -
  obtain r where r: "shim_ret_type (sg_ret sig) = Some r" using shim_types_exist(2) by blast
  have "None \<notin> set (map shim_param_type (sg_params sig))" by simp (metis shim_types_exist(1) imageE option.distinct(1))
  then show ?thesis
    using assms r by (auto simp: shim_signature_lookup_def type_function_def set_variadic_def type_slice_def Let_def)
qed

text \<open>A shim whose result owns its elements returns a slice and keeps none of its arguments.\<close>

lemma table_owned: "list_all (\<lambda>row. sg_returns_owned_elems row \<longrightarrow> sg_non_retaining row) SHIM_TABLE"
  by (simp add: SHIM_TABLE_def)

lemma find_in_set: "find P xs = Some x \<Longrightarrow> x \<in> set xs"
  by (induction xs) (auto split: if_splits)

lemma owned_elems_non_retaining:
  "shim_signature_returns_owned_elems p n \<Longrightarrow> shim_signature_is_non_retaining p n"
  using table_owned by (auto simp: shim_signature_returns_owned_elems_def shim_signature_is_non_retaining_def
      shim_signature_find_def list_all_iff dest: find_in_set split: option.splits if_splits)

end
