(* ===== verification/EscapeCore.thy ===== *)
theory EscapeCore
  imports Shims
begin

text \<open>
  The taint engine shared by the escape analyses, \<open>src/types/escape_core.c\<close> with
  \<open>include/escape_core.h\<close>, and the callee whitelist of \<open>src/types/nonretaining.c\<close>. The context of
  a walk is passed through; the hooks by which the passes differ are a record of functions, with
  \<open>None\<close> for a null function pointer. A set of reasons is a 32-bit word. The assertions of the
  source are taken as compiled out, so a set of another width is cut to the shorter one.
\<close>

section \<open>Syntax\<close>

text \<open>
  The expression and statement nodes the walk distinguishes. \<open>XNull\<close> is a null pointer and
  \<open>XOther\<close> and \<open>StOther\<close> any kind that falls to a default arm. Nodes that a pass can recognise by
  their address carry a number, distinct for distinct nodes. The \<open>next\<close> chain of a node is a list.
\<close>

datatype eexpr =
    XNull | XIdent string | XLiteral
  | XBinary token_type eexpr eexpr
  | XUnary nat token_type eexpr
  | XPostfix eexpr
  | XIndex eexpr eexpr
  | XSliceIndex eexpr eexpr eexpr
  | XSelector eexpr string
  | XCall nat eexpr "eexpr list" bool
  | XFuncLit nat "string list"
  | XStructLit "eexpr list" | XSliceLit "eexpr list" | XArrayLit "eexpr list"
  | XKeyed eexpr
  | XMapLit "eexpr list" "eexpr list"
  | XSliceConv eexpr | XTypeAssert eexpr
  | XOther

datatype estmt =
    StBlock "estmt list"
  | StExpr eexpr
  | StIf eexpr "estmt list" "estmt list"
  | StIfLet "string option" eexpr "estmt list" "estmt list"
  | StRange "string option" "string option" eexpr "estmt list"
  | StFor "estmt list" eexpr "estmt list" "estmt list"
  | StReturn "eexpr list"
  | StGo eexpr | StDefer eexpr
  | StBreak | StContinue
  | StVar "string list" "eexpr list"
  | StConst "string list" "eexpr list"
  | StMulti "eexpr list" "eexpr list" bool
  | StSwitch eexpr "eclause list"
  | StTypeSwitch "string option" eexpr "eclause list"
  | StSelect "eclause list"
  | StUnsafe "estmt list" | StArena "estmt list"
  | StAssert eexpr eexpr | StAssume eexpr
  | StOther
and eclause =
    is_CaseClause: CaseClause "eexpr list" "estmt list"
  | is_TypeCase: TypeCase "estmt list"
  | is_SelectCase: SelectCase eexpr "string option" int "estmt list"
  | OtherClause

section \<open>Taint sets and environments\<close>

type_synonym taint = "bool list"

definition escape_taint_new :: "nat \<Rightarrow> taint" where
  "escape_taint_new n = replicate n False"

definition escape_taint_empty :: "taint \<Rightarrow> bool" where
  "escape_taint_empty t = (True \<notin> set t)"

definition escape_taint_all :: "nat \<Rightarrow> taint" where
  "escape_taint_all n = replicate n True"

text \<open>The union and whether it grew.\<close>

fun escape_taint_union_into :: "taint \<Rightarrow> taint \<Rightarrow> bool \<times> taint" where
  "escape_taint_union_into (d # ds) (s # ss) =
     (let (changed, r) = escape_taint_union_into ds ss in (s \<and> \<not> d \<or> changed, (d \<or> s) # r))"
| "escape_taint_union_into ds ss = (False, ds)"

type_synonym local_env = "(string \<times> taint) list"

fun escape_env_find :: "local_env \<Rightarrow> string \<Rightarrow> taint option" where
  "escape_env_find [] name = None"
| "escape_env_find ((n, t) # env) name = (if n = name then Some t else escape_env_find env name)"

fun escape_env_add_or_union :: "local_env \<Rightarrow> string \<Rightarrow> taint \<Rightarrow> bool \<times> local_env" where
  "escape_env_add_or_union [] name v = (True, [(name, v)])"
| "escape_env_add_or_union ((n, t) # env) name v =
     (if n = name then (let (changed, u) = escape_taint_union_into t v in (changed, (n, u) # env))
      else (let (changed, env1) = escape_env_add_or_union env name v in (changed, (n, t) # env1)))"

section \<open>Reasons and the context\<close>

type_synonym reasons = "32 word"

definition ESCAPE_REASON_NONE :: reasons where "ESCAPE_REASON_NONE = 0"
definition ESCAPE_REASON_UNCLASSIFIED :: reasons where "ESCAPE_REASON_UNCLASSIFIED = push_bit 0 1"
definition ESCAPE_REASON_RETURN :: reasons where "ESCAPE_REASON_RETURN = push_bit 1 1"
definition ESCAPE_REASON_GLOBAL_STORE :: reasons where "ESCAPE_REASON_GLOBAL_STORE = push_bit 2 1"
definition ESCAPE_REASON_CONTAINER_STORE :: reasons where "ESCAPE_REASON_CONTAINER_STORE = push_bit 3 1"
definition ESCAPE_REASON_SUBSCRIPT_STORE :: reasons where "ESCAPE_REASON_SUBSCRIPT_STORE = push_bit 4 1"
definition ESCAPE_REASON_CALL_RETAIN :: reasons where "ESCAPE_REASON_CALL_RETAIN = push_bit 5 1"
definition ESCAPE_REASON_CALLEE_VALUE :: reasons where "ESCAPE_REASON_CALLEE_VALUE = push_bit 6 1"
definition ESCAPE_REASON_GO_ARG :: reasons where "ESCAPE_REASON_GO_ARG = push_bit 7 1"
definition ESCAPE_REASON_DEFER_ARG :: reasons where "ESCAPE_REASON_DEFER_ARG = push_bit 8 1"
definition ESCAPE_REASON_CHAN_SEND :: reasons where "ESCAPE_REASON_CHAN_SEND = push_bit 9 1"
definition ESCAPE_REASON_CLOSURE_CAPTURE :: reasons where "ESCAPE_REASON_CLOSURE_CAPTURE = push_bit 10 1"
definition ESCAPE_REASON_CALL_OPAQUE :: reasons where "ESCAPE_REASON_CALL_OPAQUE = push_bit 11 1"
definition ESCAPE_REASON_CALL_VARIADIC :: reasons where "ESCAPE_REASON_CALL_VARIADIC = push_bit 12 1"
definition ESCAPE_REASON_ALL :: reasons where "ESCAPE_REASON_ALL = push_bit 13 1 - 1"

record 'o ectx =
  cx_env :: local_env
  cx_slot_count :: nat
  cx_reasons :: "reasons list"
  cx_owner :: 'o

text \<open>A callee summary is the retention of each parameter and whether the result comes from one.\<close>

record 'o hooks =
  hk_bind :: "'o ectx \<Rightarrow> string \<Rightarrow> taint \<Rightarrow> bool \<times> 'o ectx"
  hk_expr_source_slot :: "('o ectx \<Rightarrow> eexpr \<Rightarrow> nat option) option"
  hk_on_return :: "('o ectx \<Rightarrow> taint \<Rightarrow> 'o ectx) option"
  hk_callee_retention :: "('o ectx \<Rightarrow> string \<Rightarrow> (bool list \<times> bool) option) option"
  hk_defer_is_like_go :: bool

definition reason_or_unclassified :: "reasons \<Rightarrow> reasons" where
  "reason_or_unclassified why = (if why \<noteq> 0 then why else ESCAPE_REASON_UNCLASSIFIED)"

fun mark_bits :: "taint \<Rightarrow> reasons \<Rightarrow> reasons list \<Rightarrow> reasons list" where
  "mark_bits (b # bs) why (r # rs) = (if b then or r why else r) # mark_bits bs why rs"
| "mark_bits bs why rs = rs"

definition escape_mark :: "'o ectx \<Rightarrow> taint \<Rightarrow> reasons \<Rightarrow> 'o ectx" where
  "escape_mark c t why = c\<lparr>cx_reasons := mark_bits t (reason_or_unclassified why) (cx_reasons c)\<rparr>"

definition escape_mark_all :: "'o ectx \<Rightarrow> reasons \<Rightarrow> 'o ectx" where
  "escape_mark_all c why = c\<lparr>cx_reasons := map (\<lambda>r. or r (reason_or_unclassified why)) (cx_reasons c)\<rparr>"

definition source_slot :: "'o hooks \<Rightarrow> 'o ectx \<Rightarrow> eexpr \<Rightarrow> nat option" where
  "source_slot H c e = (case hk_expr_source_slot H of None \<Rightarrow> None | Some f \<Rightarrow> f c e)"

definition is_assign_op :: "token_type \<Rightarrow> bool" where
  "is_assign_op op = (op \<in> {TOKEN_ASSIGN, TOKEN_PLUS_ASSIGN, TOKEN_MINUS_ASSIGN, TOKEN_MUL_ASSIGN, TOKEN_DIV_ASSIGN,
     TOKEN_MOD_ASSIGN, TOKEN_AND_ASSIGN, TOKEN_OR_ASSIGN, TOKEN_XOR_ASSIGN, TOKEN_LSHIFT_ASSIGN, TOKEN_RSHIFT_ASSIGN})"

section \<open>Calls\<close>

definition goo_callee_is_non_retaining :: "eexpr \<Rightarrow> bool" where
  "goo_callee_is_non_retaining f = (case f of
     XIdent name \<Rightarrow> is_nonretaining_builtin (Some name)
   | XSelector (XIdent pkg) sel \<Rightarrow> shim_signature_is_non_retaining (Some pkg) (Some sel)
   | _ \<Rightarrow> False)"

definition selector_base_is_local :: "'o ectx \<Rightarrow> eexpr \<Rightarrow> bool" where
  "selector_base_is_local c f = (case f of
     XSelector (XIdent name) sel \<Rightarrow> escape_env_find (cx_env c) name \<noteq> None
   | XSelector e sel \<Rightarrow> True
   | _ \<Rightarrow> False)"

definition callee_name :: "eexpr \<Rightarrow> string option" where
  "callee_name f = (case f of XIdent name \<Rightarrow> Some name | _ \<Rightarrow> None)"

definition callee_summary :: "'o hooks \<Rightarrow> 'o ectx \<Rightarrow> eexpr \<Rightarrow> (bool list \<times> bool) option" where
  "callee_summary H c f = (case (callee_name f, hk_callee_retention H) of
     (Some name, Some lookup) \<Rightarrow> lookup c name | _ \<Rightarrow> None)"

text \<open>
  The decisions of a call, given the summary of a user function that the callee names, if any, and
  whether the callee is a selector on a local: the whitelist, \<open>append\<close>, and whether argument \<open>i\<close> of
  \<open>argc\<close> is retained, with the reason it is marked with.
\<close>

definition whitelisted :: "(bool list \<times> bool) option \<Rightarrow> bool \<Rightarrow> eexpr \<Rightarrow> bool" where
  "whitelisted summary base_local f = (summary = None \<and> \<not> base_local \<and> goo_callee_is_non_retaining f)"

definition is_append :: "(bool list \<times> bool) option \<Rightarrow> bool \<Rightarrow> eexpr \<Rightarrow> bool" where
  "is_append summary base_local f = (summary = None \<and> \<not> whitelisted summary base_local f
     \<and> callee_name f = Some ''append'' \<and> \<not> base_local)"

definition retains :: "(bool list \<times> bool) option \<Rightarrow> bool \<Rightarrow> eexpr \<Rightarrow> bool \<Rightarrow> nat \<Rightarrow> nat \<Rightarrow> reasons option" where
  "retains summary base_local f has_spread argc i =
     (if whitelisted summary base_local f then None
      else if has_spread \<and> i = argc - 1 then Some ESCAPE_REASON_CALL_VARIADIC
      else if is_append summary base_local f \<and> i = 0 then None
      else (case summary of
          Some (escapes, ret) \<Rightarrow>
            if i < length escapes then (if escapes ! i then Some ESCAPE_REASON_CALL_RETAIN else None)
            else Some ESCAPE_REASON_CALL_VARIADIC
        | None \<Rightarrow> Some ESCAPE_REASON_CALL_OPAQUE))"

definition returns_args :: "(bool list \<times> bool) option \<Rightarrow> bool \<Rightarrow> eexpr \<Rightarrow> bool" where
  "returns_args summary base_local f = (if whitelisted summary base_local f then False
     else (case summary of Some (escapes, ret) \<Rightarrow> ret | None \<Rightarrow> True))"

fun mark_args :: "(nat \<Rightarrow> reasons option) \<Rightarrow> nat \<Rightarrow> taint list \<Rightarrow> 'o ectx \<Rightarrow> 'o ectx" where
  "mark_args ret i [] c = c"
| "mark_args ret i (t # ts) c =
     mark_args ret (Suc i) ts (case ret i of None \<Rightarrow> c | Some why \<Rightarrow> escape_mark c t why)"

definition union_all :: "nat \<Rightarrow> taint list \<Rightarrow> taint" where
  "union_all n ts = foldl (\<lambda>acc t. snd (escape_taint_union_into acc t)) (escape_taint_new n) ts"

text \<open>The part of \<open>call_taint\<close> after the taints of the arguments and of the callee are known.\<close>

definition call_result :: "'o hooks \<Rightarrow> 'o ectx \<Rightarrow> eexpr \<Rightarrow> bool \<Rightarrow> taint list \<Rightarrow> taint \<Rightarrow> taint \<times> 'o ectx" where
  "call_result H c f has_spread arg_taints callee_taint =
     (let summary = callee_summary H c f; base_local = selector_base_is_local c f;
          c1 = mark_args (retains summary base_local f has_spread (length arg_taints)) 0 arg_taints c;
          result = (if returns_args summary base_local f then union_all (cx_slot_count c) arg_taints else escape_taint_new (cx_slot_count c))
      in (snd (escape_taint_union_into result callee_taint), c1))"

section \<open>Taint of an expression\<close>

definition captured_taint :: "'o ectx \<Rightarrow> string list \<Rightarrow> taint" where
  "captured_taint c names = foldl (\<lambda>t name. case escape_env_find (cx_env c) name of
     None \<Rightarrow> t | Some u \<Rightarrow> snd (escape_taint_union_into t u)) (escape_taint_new (cx_slot_count c)) names"

fun escape_expr_taint :: "'o hooks \<Rightarrow> 'o ectx \<Rightarrow> eexpr \<Rightarrow> taint \<times> 'o ectx"
  and taint_each :: "'o hooks \<Rightarrow> 'o ectx \<Rightarrow> eexpr list \<Rightarrow> taint list \<times> 'o ectx" where
  "escape_expr_taint H c XNull = (escape_taint_new (cx_slot_count c), c)"
| "escape_expr_taint H c (XIdent name) = (case escape_env_find (cx_env c) name of
     Some t \<Rightarrow> (t, c) | None \<Rightarrow> (escape_taint_new (cx_slot_count c), c))"
| "escape_expr_taint H c XLiteral = (escape_taint_new (cx_slot_count c), c)"
| "escape_expr_taint H c (XBinary op l r) =
     (let (lt, c1) = escape_expr_taint H c l; (rt, c2) = escape_expr_taint H c1 r in
      (snd (escape_taint_union_into lt rt), c2))"
| "escape_expr_taint H c (XUnary nid op e) =
     (let (t, c1) = escape_expr_taint H c e in
      case source_slot H c (XUnary nid op e) of
        Some i \<Rightarrow> (snd (escape_taint_union_into ((escape_taint_new (cx_slot_count c))[i := True]) t), c1)
      | None \<Rightarrow> (t, c1))"
| "escape_expr_taint H c (XPostfix e) = escape_expr_taint H c e"
| "escape_expr_taint H c (XIndex e i) =
     (let (base, c1) = escape_expr_taint H c e; (idx, c2) = escape_expr_taint H c1 i in (base, c2))"
| "escape_expr_taint H c (XSliceIndex e lo hi) =
     (let (base, c1) = escape_expr_taint H c e; (lt, c2) = escape_expr_taint H c1 lo; (ht, c3) = escape_expr_taint H c2 hi in
      (snd (escape_taint_union_into (snd (escape_taint_union_into base lt)) ht), c3))"
| "escape_expr_taint H c (XSelector e sel) = escape_expr_taint H c e"
| "escape_expr_taint H c (XCall nid f args has_spread) = (case source_slot H c (XCall nid f args has_spread) of
     Some i \<Rightarrow> ((escape_taint_new (cx_slot_count c))[i := True], c)
   | None \<Rightarrow>
       (let (ats, c1) = taint_each H c args;
            (ft, c2) = (if callee_name f \<noteq> None then (escape_taint_new (cx_slot_count c), c1)
                        else let (t, c3) = escape_expr_taint H c1 f in (t, escape_mark c3 t ESCAPE_REASON_CALLEE_VALUE))
        in call_result H c2 f has_spread ats ft))"
| "escape_expr_taint H c (XFuncLit nid captured) =
     (let t = captured_taint c captured; c1 = escape_mark c t ESCAPE_REASON_CLOSURE_CAPTURE in
      case source_slot H c1 (XFuncLit nid captured) of Some i \<Rightarrow> (t[i := True], c1) | None \<Rightarrow> (t, c1))"
| "escape_expr_taint H c (XStructLit vs) =
     (let (ts, c1) = taint_each H c vs in (union_all (cx_slot_count c) ts, c1))"
| "escape_expr_taint H c (XSliceLit es) =
     (let (ts, c1) = taint_each H c es in (union_all (cx_slot_count c) ts, c1))"
| "escape_expr_taint H c (XArrayLit es) =
     (let (ts, c1) = taint_each H c es in (union_all (cx_slot_count c) ts, c1))"
| "escape_expr_taint H c (XKeyed v) = escape_expr_taint H c v"
| "escape_expr_taint H c (XMapLit ks vs) =
     (let (kts, c1) = taint_each H c ks; (vts, c2) = taint_each H c1 vs in (union_all (cx_slot_count c) (kts @ vts), c2))"
| "escape_expr_taint H c (XSliceConv e) = escape_expr_taint H c e"
| "escape_expr_taint H c (XTypeAssert e) = escape_expr_taint H c e"
| "escape_expr_taint H c XOther =
     (let t = escape_taint_all (cx_slot_count c) in (t, escape_mark c t ESCAPE_REASON_UNCLASSIFIED))"
| "taint_each H c [] = ([], c)"
| "taint_each H c (e # es) =
     (let (t, c1) = escape_expr_taint H c e; (ts, c2) = taint_each H c1 es in (t # ts, c2))"

section \<open>Stores\<close>

fun mark_lvalue_subscripts :: "'o hooks \<Rightarrow> 'o ectx \<Rightarrow> eexpr \<Rightarrow> 'o ectx" where
  "mark_lvalue_subscripts H c (XIndex e i) =
     (let (idx, c1) = escape_expr_taint H c i in
      mark_lvalue_subscripts H (escape_mark c1 idx ESCAPE_REASON_SUBSCRIPT_STORE) e)"
| "mark_lvalue_subscripts H c (XSelector e sel) = mark_lvalue_subscripts H c e"
| "mark_lvalue_subscripts H c (XUnary nid op e) = mark_lvalue_subscripts H c e"
| "mark_lvalue_subscripts H c e = c"

definition self_store_base :: "'o ectx \<Rightarrow> eexpr \<Rightarrow> taint option" where
  "self_store_base c lhs = (case lhs of
     XIndex (XIdent name) i \<Rightarrow> escape_env_find (cx_env c) name
   | _ \<Rightarrow> None)"

text \<open>The bits of the right side that the base of an index store does not have itself.\<close>

fun taint_minus :: "taint \<Rightarrow> taint \<Rightarrow> taint" where
  "taint_minus (d # ds) (s # ss) = (d \<and> \<not> s) # taint_minus ds ss"
| "taint_minus ds ss = ds"

definition env_union :: "'o ectx \<Rightarrow> string \<Rightarrow> taint \<Rightarrow> bool \<times> 'o ectx" where
  "env_union c name t = (let (changed, env) = escape_env_add_or_union (cx_env c) name t in (changed, c\<lparr>cx_env := env\<rparr>))"

text \<open>The flag is the caller's \<open>env_changed\<close>, passed through with the context.\<close>

type_synonym 'o walk = "bool \<times> 'o ectx"

definition assign_to_lvalue :: "'o hooks \<Rightarrow> 'o walk \<Rightarrow> eexpr \<Rightarrow> taint \<Rightarrow> 'o walk" where
  "assign_to_lvalue H w lhs rhs = (case w of (changed, c) \<Rightarrow> (case lhs of
     XNull \<Rightarrow> (changed, escape_mark c rhs ESCAPE_REASON_UNCLASSIFIED)
   | XIdent name \<Rightarrow>
       if name = ''_'' then (changed, c)
       else if escape_env_find (cx_env c) name \<noteq> None
         then (let (grew, c1) = env_union c name rhs in (changed \<or> grew, c1))
       else (changed, escape_mark c rhs ESCAPE_REASON_GLOBAL_STORE)
   | _ \<Rightarrow>
       let stored = (case self_store_base c lhs of None \<Rightarrow> rhs | Some base \<Rightarrow> taint_minus rhs base) in
       (changed, mark_lvalue_subscripts H (escape_mark c stored ESCAPE_REASON_CONTAINER_STORE) lhs)))"

section \<open>Statements\<close>

fun mark_each :: "reasons \<Rightarrow> 'o hooks \<Rightarrow> 'o ectx \<Rightarrow> eexpr list \<Rightarrow> 'o ectx" where
  "mark_each why H c [] = c"
| "mark_each why H c (e # es) =
     (let (t, c1) = escape_expr_taint H c e in mark_each why H (escape_mark c1 t why) es)"

definition handle_go_call :: "'o hooks \<Rightarrow> 'o ectx \<Rightarrow> eexpr \<Rightarrow> reasons \<Rightarrow> 'o ectx" where
  "handle_go_call H c call why = (case call of
     XCall nid f args has_spread \<Rightarrow> mark_each why H c (f # args)
   | _ \<Rightarrow> mark_each why H c [call])"

definition handle_defer_call :: "'o hooks \<Rightarrow> 'o ectx \<Rightarrow> eexpr \<Rightarrow> 'o ectx" where
  "handle_defer_call H c call =
     (if hk_defer_is_like_go H then handle_go_call H c call ESCAPE_REASON_DEFER_ARG
      else snd (escape_expr_taint H c call))"

definition bind_name :: "'o hooks \<Rightarrow> 'o walk \<Rightarrow> string \<Rightarrow> taint \<Rightarrow> 'o walk" where
  "bind_name H w name t = (case w of (changed, c) \<Rightarrow>
     if name = ''_'' then (changed, c) else let (grew, c1) = hk_bind H c name t in (changed \<or> grew, c1))"

definition bind_opt :: "'o hooks \<Rightarrow> 'o walk \<Rightarrow> string option \<Rightarrow> taint \<Rightarrow> 'o walk" where
  "bind_opt H w name t = (case name of None \<Rightarrow> w | Some n \<Rightarrow> bind_name H w n t)"

definition taint_discard :: "'o hooks \<Rightarrow> 'o walk \<Rightarrow> eexpr \<Rightarrow> 'o walk" where
  "taint_discard H w e = (case w of (changed, c) \<Rightarrow> (changed, snd (escape_expr_taint H c e)))"

definition combined_taint :: "'o hooks \<Rightarrow> 'o ectx \<Rightarrow> eexpr list \<Rightarrow> taint \<times> 'o ectx" where
  "combined_taint H c values = (let (ts, c1) = taint_each H c values in (union_all (cx_slot_count c) ts, c1))"

definition escape_seed_names_from_values :: "'o hooks \<Rightarrow> 'o walk \<Rightarrow> string list \<Rightarrow> eexpr list \<Rightarrow> 'o walk" where
  "escape_seed_names_from_values H w names values = (case w of (changed, c) \<Rightarrow>
     let (t, c1) = combined_taint H c values in foldl (\<lambda>w name. bind_name H w name t) (changed, c1) names)"

definition escape_walk_expr_stmt :: "'o hooks \<Rightarrow> 'o walk \<Rightarrow> eexpr \<Rightarrow> 'o walk" where
  "escape_walk_expr_stmt H w e = (case w of (changed, c) \<Rightarrow> (case e of
     XBinary op l r \<Rightarrow>
       if is_assign_op op then (let (rhs, c1) = escape_expr_taint H c r in assign_to_lvalue H (changed, c1) l rhs)
       else if op = TOKEN_ARROW then (changed, mark_each ESCAPE_REASON_CHAN_SEND H (snd (escape_expr_taint H c l)) [r])
       else taint_discard H (changed, c) e
   | _ \<Rightarrow> taint_discard H (changed, c) e))"

definition walk_return :: "'o hooks \<Rightarrow> 'o ectx \<Rightarrow> eexpr list \<Rightarrow> 'o ectx" where
  "walk_return H c values = foldl (\<lambda>c v. let (t, c1) = escape_expr_taint H c v; c2 = escape_mark c1 t ESCAPE_REASON_RETURN in
     case hk_on_return H of None \<Rightarrow> c2 | Some f \<Rightarrow> f c2 t) c values"

definition walk_multi_assign :: "'o hooks \<Rightarrow> 'o walk \<Rightarrow> eexpr list \<Rightarrow> eexpr list \<Rightarrow> bool \<Rightarrow> 'o walk" where
  "walk_multi_assign H w targets values is_short_decl = (case w of (changed, c) \<Rightarrow>
     let (t, c1) = combined_taint H c values in
     foldl (\<lambda>w tgt. if is_short_decl then (case tgt of
         XIdent name \<Rightarrow> bind_name H w name t
       | _ \<Rightarrow> (fst w, escape_mark (snd w) t ESCAPE_REASON_UNCLASSIFIED))
       else assign_to_lvalue H w tgt t) (changed, c1) targets)"

fun escape_walk_stmt :: "'o hooks \<Rightarrow> 'o walk \<Rightarrow> estmt list \<Rightarrow> 'o walk"
  and walk_one :: "'o hooks \<Rightarrow> 'o walk \<Rightarrow> estmt \<Rightarrow> 'o walk"
  and walk_clauses :: "(eclause \<Rightarrow> bool) \<Rightarrow> 'o hooks \<Rightarrow> 'o walk \<Rightarrow> eclause list \<Rightarrow> 'o walk"
  and walk_clause :: "'o hooks \<Rightarrow> 'o walk \<Rightarrow> eclause \<Rightarrow> 'o walk" where
  "escape_walk_stmt H w [] = w"
| "escape_walk_stmt H w (s # ss) = escape_walk_stmt H (walk_one H w s) ss"
| "walk_one H w (StBlock ss) = escape_walk_stmt H w ss"
| "walk_one H w (StExpr e) = escape_walk_expr_stmt H w e"
| "walk_one H w (StIf e then_stmt else_stmt) =
     escape_walk_stmt H (escape_walk_stmt H (taint_discard H w e) then_stmt) else_stmt"
| "walk_one H w (StIfLet var e then_stmt else_stmt) = (case w of (changed, c) \<Rightarrow>
     let (t, c1) = escape_expr_taint H c e in
     escape_walk_stmt H (escape_walk_stmt H (bind_opt H (changed, c1) var t) then_stmt) else_stmt)"
| "walk_one H w (StRange key val e body) = (case w of (changed, c) \<Rightarrow>
     let (t, c1) = escape_expr_taint H c e;
         w1 = bind_opt H (changed, c1) key (escape_taint_new (cx_slot_count c)) in
     escape_walk_stmt H (bind_opt H w1 val t) body)"
| "walk_one H w (StFor init e post body) =
     escape_walk_stmt H (escape_walk_stmt H (taint_discard H (escape_walk_stmt H w init) e) post) body"
| "walk_one H w (StReturn es) = (fst w, walk_return H (snd w) es)"
| "walk_one H w (StGo call) = (fst w, handle_go_call H (snd w) call ESCAPE_REASON_GO_ARG)"
| "walk_one H w (StDefer call) = (fst w, handle_defer_call H (snd w) call)"
| "walk_one H w StBreak = w"
| "walk_one H w StContinue = w"
| "walk_one H w (StVar names es) = escape_seed_names_from_values H w names es"
| "walk_one H w (StConst names es) = escape_seed_names_from_values H w names es"
| "walk_one H w (StMulti targets es is_short_decl) = walk_multi_assign H w targets es is_short_decl"
| "walk_one H w (StSwitch tag cs) = walk_clauses is_CaseClause H (taint_discard H w tag) cs"
| "walk_one H w (StTypeSwitch bind e cs) = (case w of (changed, c) \<Rightarrow>
     let (t, c1) = escape_expr_taint H c e in walk_clauses is_TypeCase H (bind_opt H (changed, c1) bind t) cs)"
| "walk_one H w (StSelect cs) = walk_clauses is_SelectCase H w cs"
| "walk_one H w (StUnsafe ss) = escape_walk_stmt H w ss"
| "walk_one H w (StArena ss) = escape_walk_stmt H w ss"
| "walk_one H w (StAssert e message) = taint_discard H (taint_discard H w e) message"
| "walk_one H w (StAssume e) = taint_discard H w e"
| "walk_one H w StOther = (fst w, escape_mark_all (snd w) ESCAPE_REASON_UNCLASSIFIED)"
| "walk_clauses kind H w [] = w"
| "walk_clauses kind H w (cl # cls) = walk_clauses kind H (if kind cl then walk_clause H w cl else w) cls"
| "walk_clause H w (CaseClause es body) = escape_walk_stmt H (foldl (taint_discard H) w es) body"
| "walk_clause H w (TypeCase body) = escape_walk_stmt H w body"
| "walk_clause H w (SelectCase comm bind decl body) = escape_walk_stmt H (escape_walk_expr_stmt H w comm) body"
| "walk_clause H w OtherClause = w"

end
