(* ===== verification/Escape.thy ===== *)
theory Escape
  imports EscapeCore
begin

text \<open>
  The two function-level passes over the taint engine: \<open>src/types/param_escape.c\<close>, which computes
  for every function the parameters that may outlive a call, and \<open>src/types/local_escape.c\<close>, which
  computes the locals that may outlive their function and why. Allocation is taken to succeed, and
  arrays owned by one result are lists of it.
\<close>

section \<open>Parameters\<close>

text \<open>A declaration of a program: a function with the names of its parameter declarations, or another.\<close>

datatype edecl = FuncDecl "string option" "string list option list" "estmt list option" | OtherDecl

record func_info =
  fi_name :: string
  fi_body :: "estmt list option"
  fi_param_names :: "string list"
  fi_escapes :: "bool list"
  fi_return_escapes :: bool

type_synonym registry = "func_info list"

text \<open>A parameter declaration that is not a variable declaration is skipped.\<close>

definition registry_add :: "registry \<Rightarrow> string \<Rightarrow> string list option list \<Rightarrow> estmt list option \<Rightarrow> registry" where
  "registry_add reg name params body =
     (let names = concat (map (\<lambda>p. case p of None \<Rightarrow> [] | Some ns \<Rightarrow> ns) params) in
      reg @ [\<lparr>fi_name = name, fi_body = body, fi_param_names = names,
        fi_escapes = replicate (length names) False, fi_return_escapes = False\<rparr>])"

fun registry_find :: "registry \<Rightarrow> string \<Rightarrow> func_info option" where
  "registry_find [] name = None"
| "registry_find (f # reg) name = (if fi_name f = name then Some f else registry_find reg name)"

definition collect_functions :: "edecl list \<Rightarrow> registry" where
  "collect_functions decls = foldl (\<lambda>reg d. case d of
     FuncDecl (Some name) params body \<Rightarrow> registry_add reg name params body
   | _ \<Rightarrow> reg) [] decls"

record param_owner =
  po_reg :: registry
  po_return_escapes :: bool

definition param_bind :: "param_owner ectx \<Rightarrow> string \<Rightarrow> taint \<Rightarrow> bool \<times> param_owner ectx" where
  "param_bind c name v = env_union c name v"

definition param_on_return :: "param_owner ectx \<Rightarrow> taint \<Rightarrow> param_owner ectx" where
  "param_on_return c t = (if \<not> escape_taint_empty t then c\<lparr>cx_owner := (cx_owner c)\<lparr>po_return_escapes := True\<rparr>\<rparr> else c)"

definition param_callee_retention :: "param_owner ectx \<Rightarrow> string \<Rightarrow> (bool list \<times> bool) option" where
  "param_callee_retention c name = (case registry_find (po_reg (cx_owner c)) name of
     None \<Rightarrow> None | Some f \<Rightarrow> Some (fi_escapes f, fi_return_escapes f))"

definition PARAM_HOOKS :: "param_owner hooks" where
  "PARAM_HOOKS = \<lparr>hk_bind = param_bind, hk_expr_source_slot = None, hk_on_return = Some param_on_return,
     hk_callee_retention = Some param_callee_retention, hk_defer_is_like_go = False\<rparr>"

definition MAX_LOCAL_PASSES :: nat where "MAX_LOCAL_PASSES = 4096"

text \<open>
  The loop around the walk of one body, with the number of walks still allowed; at the limit every
  slot is set to unclassified.
\<close>

fun walk_passes :: "'o hooks \<Rightarrow> nat \<Rightarrow> 'o ectx \<Rightarrow> estmt list \<Rightarrow> bool \<times> 'o ectx" where
  "walk_passes H 0 c body = (False, c\<lparr>cx_reasons := map (\<lambda>_. ESCAPE_REASON_UNCLASSIFIED) (cx_reasons c)\<rparr>)"
| "walk_passes H (Suc left) c body =
     (let (changed, c1) = escape_walk_stmt H (False, c) body in
      if changed then walk_passes H left c1 body else (True, c1))"

definition param_seed :: "string list \<Rightarrow> local_env" where
  "param_seed names = foldl (\<lambda>env i. snd (escape_env_add_or_union env (names ! i)
     ((escape_taint_new (length names))[i := True]))) [] [0..<length names]"

definition analyze_function_body :: "registry \<Rightarrow> func_info \<Rightarrow> reasons list \<times> bool" where
  "analyze_function_body reg f =
     (let n = length (fi_param_names f);
          c = \<lparr>cx_env = param_seed (fi_param_names f), cx_slot_count = n, cx_reasons = replicate n 0,
               cx_owner = \<lparr>po_reg = reg, po_return_escapes = False\<rparr>\<rparr>;
          (settled, c1) = walk_passes PARAM_HOOKS MAX_LOCAL_PASSES c (case fi_body f of None \<Rightarrow> [] | Some b \<Rightarrow> b)
      in (cx_reasons c1, if settled then po_return_escapes (cx_owner c1) else True))"

definition merge_info :: "func_info \<Rightarrow> reasons list \<times> bool \<Rightarrow> bool \<times> func_info" where
  "merge_info f res = (case res of (reasons, ret) \<Rightarrow>
     let (grew, esc) = escape_taint_union_into (fi_escapes f) (map (\<lambda>r. r \<noteq> ESCAPE_REASON_NONE) reasons) in
     (grew \<or> ret \<and> \<not> fi_return_escapes f, f\<lparr>fi_escapes := esc, fi_return_escapes := fi_return_escapes f \<or> ret\<rparr>))"

text \<open>One round over the functions in order, each seeing the summaries updated so far.\<close>

definition param_round :: "bool \<Rightarrow> registry \<Rightarrow> bool \<times> registry" where
  "param_round fail_closed reg = foldl (\<lambda>(changed, reg) i.
     let f = reg ! i;
         res = (if fail_closed then (map (\<lambda>_. ESCAPE_REASON_UNCLASSIFIED) (fi_param_names f), True)
                else analyze_function_body reg f);
         (grew, f1) = merge_info f res in (changed \<or> grew, reg[i := f1])) (False, reg) [0..<length reg]"

fun param_rounds :: "nat \<Rightarrow> registry \<Rightarrow> registry" where
  "param_rounds 0 reg = snd (param_round True reg)"
| "param_rounds (Suc left) reg =
     (let (changed, reg1) = param_round False reg in if changed then param_rounds left reg1 else reg1)"

definition total_bits :: "registry \<Rightarrow> nat" where
  "total_bits reg = sum_list (map (\<lambda>f. length (fi_param_names f)) reg)"

record param_summary =
  ps_function_name :: string
  ps_escapes :: "bool list"
  ps_return_escapes :: bool

type_synonym param_result = "param_summary list"

definition param_escape_analyze :: "edecl list \<Rightarrow> param_result" where
  "param_escape_analyze decls =
     (let reg = collect_functions decls in
      map (\<lambda>f. \<lparr>ps_function_name = fi_name f, ps_escapes = fi_escapes f, ps_return_escapes = fi_return_escapes f\<rparr>)
        (param_rounds (total_bits reg + length reg + 8) reg))"

fun find_summary :: "param_result \<Rightarrow> string \<Rightarrow> param_summary option" where
  "find_summary [] fn = None"
| "find_summary (s # ss) fn = (if ps_function_name s = fn then Some s else find_summary ss fn)"

definition param_escape_lookup :: "param_result option \<Rightarrow> string \<Rightarrow> param_summary option" where
  "param_escape_lookup result fn = (case result of None \<Rightarrow> None | Some r \<Rightarrow> find_summary r fn)"

definition param_escape_param_escapes :: "param_result option \<Rightarrow> string \<Rightarrow> nat \<Rightarrow> bool" where
  "param_escape_param_escapes result fn i = (case param_escape_lookup result fn of
     None \<Rightarrow> True
   | Some s \<Rightarrow> if i \<ge> length (ps_escapes s) then True else ps_escapes s ! i)"

section \<open>Locals\<close>

record local_owner =
  lo_summaries :: "param_result option"
  lo_local_names :: "string list"
  lo_unit :: "string list option"

definition unit_add_local :: "string list \<Rightarrow> string \<Rightarrow> string list" where
  "unit_add_local names name = (if name = ''_'' then names else if name \<in> set names then names else names @ [name])"

fun index_of :: "string list \<Rightarrow> string \<Rightarrow> nat option" where
  "index_of [] name = None"
| "index_of (n # names) name = (if n = name then Some 0 else map_option Suc (index_of names name))"

definition find_local_index :: "local_owner ectx \<Rightarrow> string \<Rightarrow> nat option" where
  "find_local_index c name = index_of (lo_local_names (cx_owner c)) name"

definition seed_local :: "local_owner ectx \<Rightarrow> string \<Rightarrow> taint \<Rightarrow> bool \<times> local_owner ectx" where
  "seed_local c name v = (case lo_unit (cx_owner c) of
     Some names \<Rightarrow> env_union (c\<lparr>cx_owner := (cx_owner c)\<lparr>lo_unit := Some (unit_add_local names name)\<rparr>\<rparr>) name v
   | None \<Rightarrow> (case find_local_index c name of
       None \<Rightarrow> env_union c name v
     | Some i \<Rightarrow> env_union c name (v[i := True])))"

definition local_callee_retention :: "local_owner ectx \<Rightarrow> string \<Rightarrow> (bool list \<times> bool) option" where
  "local_callee_retention c name = (case param_escape_lookup (lo_summaries (cx_owner c)) name of
     None \<Rightarrow> None | Some s \<Rightarrow> Some (ps_escapes s, ps_return_escapes s))"

definition LOCAL_HOOKS :: "local_owner hooks" where
  "LOCAL_HOOKS = \<lparr>hk_bind = seed_local, hk_expr_source_slot = None, hk_on_return = None,
     hk_callee_retention = Some local_callee_retention, hk_defer_is_like_go = True\<rparr>"

text \<open>Pass A: a walk with sets of width zero, for the names it declares.\<close>

definition discover :: "param_result option \<Rightarrow> string list \<Rightarrow> estmt list \<Rightarrow> string list" where
  "discover summaries names body =
     (let c = \<lparr>cx_env = [], cx_slot_count = 0, cx_reasons = [],
               cx_owner = \<lparr>lo_summaries = summaries, lo_local_names = [], lo_unit = Some names\<rparr>\<rparr>
      in case lo_unit (cx_owner (snd (escape_walk_stmt LOCAL_HOOKS (False, c) body))) of None \<Rightarrow> names | Some ns \<Rightarrow> ns)"

definition local_ctx :: "param_result option \<Rightarrow> string list \<Rightarrow> reasons list \<Rightarrow> local_owner ectx" where
  "local_ctx summaries names reasons = \<lparr>cx_env = [], cx_slot_count = length names, cx_reasons = reasons,
     cx_owner = \<lparr>lo_summaries = summaries, lo_local_names = names, lo_unit = None\<rparr>\<rparr>"

definition analyze_unit :: "param_result option \<Rightarrow> string list \<Rightarrow> estmt list \<Rightarrow> reasons list \<Rightarrow> string list \<times> reasons list" where
  "analyze_unit summaries names body reasons =
     (let names1 = discover summaries names body in
      if names1 = [] then (names1, reasons)
      else (names1, cx_reasons (snd (walk_passes LOCAL_HOOKS MAX_LOCAL_PASSES (local_ctx summaries names1 reasons) body))))"

record local_summary =
  ls_function_name :: string
  ls_local_names :: "string list"
  ls_reasons :: "reasons list"

definition local_escape_analyze :: "edecl list \<Rightarrow> param_result option \<Rightarrow> local_summary list" where
  "local_escape_analyze decls summaries = concat (map (\<lambda>d. case d of
     FuncDecl (Some fn) params (Some body) \<Rightarrow>
       let names = discover summaries [] body;
           (names1, reasons) = analyze_unit summaries names body (replicate (length names) 0) in
       [\<lparr>ls_function_name = fn, ls_local_names = names1, ls_reasons = reasons\<rparr>]
   | _ \<Rightarrow> []) decls)"

fun find_local_summary :: "local_summary list \<Rightarrow> string \<Rightarrow> local_summary option" where
  "find_local_summary [] fn = None"
| "find_local_summary (s # ss) fn = (if ls_function_name s = fn then Some s else find_local_summary ss fn)"

definition local_escape_local_reasons :: "local_summary list option \<Rightarrow> string \<Rightarrow> string \<Rightarrow> reasons" where
  "local_escape_local_reasons result fn name = (case result of None \<Rightarrow> ESCAPE_REASON_ALL | Some r \<Rightarrow>
     (case find_local_summary r fn of None \<Rightarrow> ESCAPE_REASON_ALL | Some s \<Rightarrow>
       (case index_of (ls_local_names s) name of None \<Rightarrow> ESCAPE_REASON_ALL | Some j \<Rightarrow> ls_reasons s ! j)))"

definition local_escape_local_escapes :: "local_summary list option \<Rightarrow> string \<Rightarrow> string \<Rightarrow> bool" where
  "local_escape_local_escapes result fn name = (local_escape_local_reasons result fn name \<noteq> ESCAPE_REASON_NONE)"

end
