(* ===== verification/Escape_Sound.thy ===== *)
theory Escape_Sound
  imports Escape
begin

text \<open>
  What the escape engine promises, independent of the pass. Values are followed through a body by
  a flow semantics: a value carries a set of slots, a run of a body is any sequence of its atomic
  actions, and a slot is lost when a value that carries it leaves the unit. The locale
  \<open>escape_pass\<close> is the contract of the hooks; under it a walk that changes nothing covers every
  step of every run.
\<close>

section \<open>Taint sets as sets\<close>

definition bits :: "taint \<Rightarrow> nat set" where
  "bits t = {i. i < length t \<and> t ! i}"

definition marked :: "reasons list \<Rightarrow> nat set" where
  "marked rs = bits (map (\<lambda>r. r \<noteq> 0) rs)"

lemma bits_simps [simp]: "bits [] = {}" "bits (b # t) = (if b then {0} else {}) \<union> Suc ` bits t"
  by (auto simp: bits_def image_iff less_Suc_eq_0_disj)

lemma bits_new [simp]: "bits (escape_taint_new n) = {}" and length_new [simp]: "length (escape_taint_new n) = n"
  by (auto simp: bits_def escape_taint_new_def)

lemma bits_all [simp]: "bits (escape_taint_all n) = {..<n}" and length_all [simp]: "length (escape_taint_all n) = n"
  by (auto simp: bits_def escape_taint_all_def)

lemma bits_bound: "i \<in> bits t \<Longrightarrow> i < length t"
  by (simp add: bits_def)

lemma bits_set: "i < length t \<Longrightarrow> bits (t[i := True]) = insert i (bits t)"
  by (auto simp: bits_def nth_list_update)

lemma length_union [simp]: "length (snd (escape_taint_union_into a b)) = length a"
  by (induction a b rule: escape_taint_union_into.induct) (simp_all add: split_beta Let_def)

lemma bits_union: "length a = length b \<Longrightarrow> bits (snd (escape_taint_union_into a b)) = bits a \<union> bits b"
  by (induction a b rule: escape_taint_union_into.induct) (auto simp: split_beta Let_def)

lemma union_unchanged:
  "length a = length b \<Longrightarrow> \<not> fst (escape_taint_union_into a b) \<Longrightarrow> snd (escape_taint_union_into a b) = a \<and> bits b \<subseteq> bits a"
  by (induction a b rule: escape_taint_union_into.induct) (auto simp: split_beta Let_def)

lemma length_minus [simp]: "length (taint_minus a b) = length a"
  by (induction a b rule: taint_minus.induct) simp_all

lemma bits_minus: "length a = length b \<Longrightarrow> bits (taint_minus a b) = bits a - bits b"
  by (induction a b rule: taint_minus.induct) auto

lemma length_mark_bits [simp]: "length (mark_bits t why rs) = length rs"
  by (induction t why rs rule: mark_bits.induct) simp_all

lemma marked_mark_bits:
  "why \<noteq> 0 \<Longrightarrow> length t = length rs \<Longrightarrow> marked (mark_bits t why rs) = marked rs \<union> bits t"
  by (induction t why rs rule: mark_bits.induct) (auto simp: marked_def or_eq_0_iff)

lemma reason_nonzero [simp]: "reason_or_unclassified why \<noteq> 0"
  by (simp add: reason_or_unclassified_def ESCAPE_REASON_UNCLASSIFIED_def)

lemma union_all_bits:
  assumes "\<forall>t \<in> set ts. length t = n"
  shows "length (union_all n ts) = n \<and> bits (union_all n ts) = \<Union> (bits ` set ts)"
proof -
  have "length (foldl (\<lambda>acc t. snd (escape_taint_union_into acc t)) acc ts) = n
      \<and> bits (foldl (\<lambda>acc t. snd (escape_taint_union_into acc t)) acc ts) = bits acc \<union> \<Union> (bits ` set ts)"
    if "length acc = n" for acc
    using assms that by (induction ts arbitrary: acc) (simp_all add: bits_union Un_assoc)
  from this [of "escape_taint_new n"] show ?thesis by (simp add: union_all_def)
qed

section \<open>Environments\<close>

definition env_wf :: "nat \<Rightarrow> local_env \<Rightarrow> bool" where
  "env_wf n env = (\<forall>(x, t) \<in> set env. length t = n)"

lemma env_find_wf: "env_wf n env \<Longrightarrow> escape_env_find env x = Some t \<Longrightarrow> length t = n"
  by (induction env x rule: escape_env_find.induct) (auto simp: env_wf_def split: if_splits)

lemma env_add_wf: "env_wf n env \<Longrightarrow> length v = n \<Longrightarrow> env_wf n (snd (escape_env_add_or_union env x v))"
  by (induction env x v rule: escape_env_add_or_union.induct) (auto simp: env_wf_def split_beta Let_def)

text \<open>An addition that changes nothing finds the name with all bits of the value.\<close>

lemma env_add_unchanged:
  "env_wf n env \<Longrightarrow> length v = n \<Longrightarrow> \<not> fst (escape_env_add_or_union env x v) \<Longrightarrow>
   snd (escape_env_add_or_union env x v) = env \<and> (\<exists>t. escape_env_find env x = Some t \<and> bits v \<subseteq> bits t)"
proof (induction env x v rule: escape_env_add_or_union.induct)
  case (2 m t env x v)
  then show ?case
    using union_unchanged [of t v] by (cases "m = x") (auto simp: env_wf_def split_beta Let_def)
qed simp

lemma env_add_dom:
  "(escape_env_find (snd (escape_env_add_or_union env x v)) y \<noteq> None) = (y = x \<or> escape_env_find env y \<noteq> None)"
  by (induction env x v rule: escape_env_add_or_union.induct) (auto simp: split_beta Let_def)

section \<open>Contexts\<close>

definition wf_ctx :: "'o ectx \<Rightarrow> bool" where
  "wf_ctx c = (env_wf (cx_slot_count c) (cx_env c) \<and> length (cx_reasons c) = cx_slot_count c)"

text \<open>Only the reasons differ, and no mark is lost.\<close>

definition ctx_le :: "'o ectx \<Rightarrow> 'o ectx \<Rightarrow> bool" where
  "ctx_le c c1 = (\<exists>rs. c1 = c\<lparr>cx_reasons := rs\<rparr> \<and> length rs = length (cx_reasons c) \<and> marked (cx_reasons c) \<subseteq> marked rs)"

lemma ctx_le_refl [simp]: "ctx_le c c"
  by (auto simp: ctx_le_def intro: exI [of _ "cx_reasons c"])

lemma ctx_le_trans [trans]:
  assumes "ctx_le a b" "ctx_le b c"
  shows "ctx_le a c"
proof -
  obtain r where r: "b = a\<lparr>cx_reasons := r\<rparr>" "length r = length (cx_reasons a)" "marked (cx_reasons a) \<subseteq> marked r"
    using assms(1) unfolding ctx_le_def by blast
  obtain q where "c = b\<lparr>cx_reasons := q\<rparr>" "length q = length (cx_reasons b)" "marked (cx_reasons b) \<subseteq> marked q"
    using assms(2) unfolding ctx_le_def by blast
  with r have "c = a\<lparr>cx_reasons := q\<rparr> \<and> length q = length (cx_reasons a) \<and> marked (cx_reasons a) \<subseteq> marked q" by auto
  then show ?thesis unfolding ctx_le_def by blast
qed

lemma ctx_le_fields:
  assumes "ctx_le c c1"
  shows "cx_env c1 = cx_env c" "cx_slot_count c1 = cx_slot_count c" "cx_owner c1 = cx_owner c"
    "wf_ctx c \<Longrightarrow> wf_ctx c1" "marked (cx_reasons c) \<subseteq> marked (cx_reasons c1)"
  using assms by (auto simp: ctx_le_def wf_ctx_def)

lemma mark_le:
  assumes "wf_ctx c" "length t = cx_slot_count c"
  shows "ctx_le c (escape_mark c t why) \<and> bits t \<subseteq> marked (cx_reasons (escape_mark c t why))"
proof -
  have "marked (mark_bits t (reason_or_unclassified why) (cx_reasons c)) = marked (cx_reasons c) \<union> bits t"
    using assms by (simp add: marked_mark_bits wf_ctx_def)
  then show ?thesis
    by (auto simp: ctx_le_def escape_mark_def intro!: exI [of _ "mark_bits t (reason_or_unclassified why) (cx_reasons c)"])
qed

lemma mark_all_le:
  assumes "wf_ctx c"
  shows "ctx_le c (escape_mark_all c why) \<and> marked (cx_reasons (escape_mark_all c why)) = {..<cx_slot_count c}"
  using assms by (auto simp: ctx_le_def escape_mark_all_def marked_def bits_def wf_ctx_def or_eq_0_iff
      intro!: exI [of _ "map (\<lambda>r. or r (reason_or_unclassified why)) (cx_reasons c)"])

lemma mark_args_le:
  assumes "wf_ctx c" "\<forall>t \<in> set ts. length t = cx_slot_count c"
  shows "ctx_le c (mark_args ret i ts c)
    \<and> (\<forall>j < length ts. ret (i + j) \<noteq> None \<longrightarrow> bits (ts ! j) \<subseteq> marked (cx_reasons (mark_args ret i ts c)))"
  using assms
proof (induction ts arbitrary: i c)
  case (Cons t ts)
  let ?c1 = "case ret i of None \<Rightarrow> c | Some why \<Rightarrow> escape_mark c t why"
  have step: "ctx_le c ?c1 \<and> (ret i \<noteq> None \<longrightarrow> bits t \<subseteq> marked (cx_reasons ?c1))"
    using Cons.prems mark_le [of c t] by (auto split: option.split)
  then have "wf_ctx ?c1" "\<forall>t \<in> set ts. length t = cx_slot_count ?c1"
    using Cons.prems ctx_le_fields(2,4) [of c ?c1] by auto
  note ih = Cons.IH [OF this, of "Suc i"]
  have "bits ((t # ts) ! j) \<subseteq> marked (cx_reasons (mark_args ret (Suc i) ts ?c1))"
    if "j < length (t # ts)" "ret (i + j) \<noteq> None" for j
    using that step ih ctx_le_fields(5) [OF conjunct1 [OF ih]] by (cases j) auto
  then show ?case using step ih ctx_le_trans by (auto split del: option.split)
qed simp

text \<open>Computing a taint extends the context and gives a set of its width.\<close>

definition framed :: "'o ectx \<Rightarrow> taint \<times> 'o ectx \<Rightarrow> bool" where
  "framed c r = (ctx_le c (snd r) \<and> length (fst r) = cx_slot_count c)"

lemma framedD:
  assumes "framed c (t, c1)" "wf_ctx c"
  shows "ctx_le c c1" "length t = cx_slot_count c" "wf_ctx c1" "cx_slot_count c1 = cx_slot_count c"
  using assms ctx_le_fields [of c c1] by (auto simp: framed_def)

lemma taint_each_framed:
  assumes "\<And>e c. e \<in> set es \<Longrightarrow> wf_ctx c \<Longrightarrow> framed c (escape_expr_taint H c e)" "wf_ctx c"
  shows "ctx_le c (snd (taint_each H c es)) \<and> (\<forall>t \<in> set (fst (taint_each H c es)). length t = cx_slot_count c)
    \<and> length (fst (taint_each H c es)) = length es"
  using assms
proof (induction es arbitrary: c)
  case (Cons e es)
  obtain t c1 where t: "escape_expr_taint H c e = (t, c1)" by fastforce
  have fr: "framed c (t, c1)" using Cons.prems(1) [of e c] Cons.prems(2) t by simp
  note fd = framedD [OF fr Cons.prems(2)]
  have "ctx_le c1 (snd (taint_each H c1 es)) \<and> (\<forall>t \<in> set (fst (taint_each H c1 es)). length t = cx_slot_count c1)
    \<and> length (fst (taint_each H c1 es)) = length es"
    using Cons.prems(1) fd(3) by (intro Cons.IH) auto
  then show ?case using t fd by (auto simp: split_beta Let_def intro: ctx_le_trans)
qed simp

lemma captured_length:
  assumes "wf_ctx c"
  shows "length (captured_taint c names) = cx_slot_count c"
proof -
  have "length (foldl (\<lambda>t name. case escape_env_find (cx_env c) name of
     None \<Rightarrow> t | Some u \<Rightarrow> snd (escape_taint_union_into t u)) acc names) = length acc" for acc
    by (induction names arbitrary: acc) (auto split: option.split)
  then show ?thesis by (simp add: captured_taint_def)
qed

lemma call_framed:
  assumes "wf_ctx c" "\<forall>t \<in> set ats. length t = cx_slot_count c"
  shows "framed c (call_result H c f has_spread ats ft)"
  using assms mark_args_le [OF assms] union_all_bits [OF assms(2)] by (simp add: framed_def call_result_def Let_def)

lemma mark_framed:
  assumes "framed c (t, c1)" "wf_ctx c"
  shows "framed c (t, escape_mark c1 t why)"
  using framedD [OF assms] mark_le [of c1 t why] by (auto simp: framed_def intro: ctx_le_trans)

lemma framed_trans: "framed c (t, c1) \<Longrightarrow> wf_ctx c \<Longrightarrow> framed c1 r \<Longrightarrow> framed c r"
  using framedD [of c t c1] by (metis framed_def ctx_le_trans)

lemma framed_fst: "framed c (t, c1) \<Longrightarrow> length u = cx_slot_count c \<Longrightarrow> framed c (u, c1)"
  by (simp add: framed_def)

lemma literal_framed:
  assumes "\<And>e c. e \<in> set es \<Longrightarrow> wf_ctx c \<Longrightarrow> framed c (escape_expr_taint H c e)" "wf_ctx c"
  shows "framed c (let (ts, c1) = taint_each H c es in (union_all (cx_slot_count c) ts, c1))"
  using taint_each_framed [OF assms] union_all_bits [of "fst (taint_each H c es)" "cx_slot_count c"]
  by (simp add: framed_def split_beta Let_def)

lemma expr_framed: "wf_ctx c \<Longrightarrow> framed c (escape_expr_taint H c e)"
proof (induction e arbitrary: c)
  case (XIdent x)
  then show ?case using env_find_wf [of _ "cx_env c" x] by (auto simp: framed_def wf_ctx_def split: option.split)
next
  case (XBinary op l r)
  obtain t c1 where l: "escape_expr_taint H c l = (t, c1)" by fastforce
  obtain u c2 where r: "escape_expr_taint H c1 r = (u, c2)" by fastforce
  note f = framedD [OF XBinary.IH(1) [OF XBinary.prems, unfolded l] XBinary.prems]
  show ?case using framedD [OF XBinary.IH(2) [OF f(3), unfolded r] f(3)] f l r
    by (auto simp: framed_def intro: ctx_le_trans)
next
  case (XUnary nid op e)
  then show ?case by (auto simp: framed_def split_beta Let_def split: option.split)
next
  case (XIndex e i)
  obtain t c1 where l: "escape_expr_taint H c e = (t, c1)" by fastforce
  obtain u c2 where r: "escape_expr_taint H c1 i = (u, c2)" by fastforce
  note f = framedD [OF XIndex.IH(1) [OF XIndex.prems, unfolded l] XIndex.prems]
  show ?case using framedD [OF XIndex.IH(2) [OF f(3), unfolded r] f(3)] f l r
    by (auto simp: framed_def intro: ctx_le_trans)
next
  case (XSliceIndex e lo hi)
  obtain t c1 where e: "escape_expr_taint H c e = (t, c1)" by fastforce
  obtain u c2 where l: "escape_expr_taint H c1 lo = (u, c2)" by fastforce
  obtain v c3 where h: "escape_expr_taint H c2 hi = (v, c3)" by fastforce
  note f = framedD [OF XSliceIndex.IH(1) [OF XSliceIndex.prems, unfolded e] XSliceIndex.prems]
  note g = framedD [OF XSliceIndex.IH(2) [OF f(3), unfolded l] f(3)]
  show ?case using framedD [OF XSliceIndex.IH(3) [OF g(3), unfolded h] g(3)] f g e l h
    by (auto simp: framed_def intro: ctx_le_trans)
next
  case (XCall nid f args sp)
  obtain ats c1 where a: "taint_each H c args = (ats, c1)" by fastforce
  have c1: "ctx_le c c1" "\<forall>t \<in> set ats. length t = cx_slot_count c"
    using taint_each_framed [of args H c] XCall.IH(2) XCall.prems a by auto
  note w1 = ctx_le_fields(4) [OF c1(1) XCall.prems] ctx_le_fields(2) [OF c1(1)]
  obtain t c2 where t: "escape_expr_taint H c1 f = (t, c2)" by fastforce
  have f1: "framed c1 (t, escape_mark c2 t ESCAPE_REASON_CALLEE_VALUE)"
    using mark_framed [of c1 t c2] XCall.IH(1) [OF w1(1)] w1(1) t by simp
  note f2 = framedD [OF f1 w1(1)]
  have "framed c (call_result H c1 f sp ats ft)" "framed c (call_result H (escape_mark c2 t ESCAPE_REASON_CALLEE_VALUE) f sp ats ft)"
    for ft
    using call_framed [of c1 ats H f sp ft] call_framed [OF f2(3), of ats H f sp ft] f2 c1 w1
    by (auto simp: framed_def intro: ctx_le_trans)
  then show ?case using a t by (auto simp: framed_def split: option.split)
next
  case (XFuncLit nid cs)
  have len: "length (captured_taint c cs) = cx_slot_count c" using captured_length [OF XFuncLit] .
  have "ctx_le c (escape_mark c (captured_taint c cs) ESCAPE_REASON_CLOSURE_CAPTURE)"
    using mark_le [OF XFuncLit len] by simp
  then show ?case using len by (auto simp: framed_def Let_def split: option.split)
next
  case (XMapLit ks vs)
  obtain kt c1 where k: "taint_each H c ks = (kt, c1)" by fastforce
  have c1: "ctx_le c c1" "\<forall>t \<in> set kt. length t = cx_slot_count c"
    using taint_each_framed [of ks H c] XMapLit k by auto
  have "wf_ctx c1" "cx_slot_count c1 = cx_slot_count c" using ctx_le_fields [OF c1(1)] XMapLit.prems by auto
  then have "ctx_le c1 (snd (taint_each H c1 vs)) \<and> (\<forall>t \<in> set (fst (taint_each H c1 vs)). length t = cx_slot_count c)"
    using taint_each_framed [of vs H c1] XMapLit.IH(2) by auto
  then show ?case using c1 k union_all_bits [of "kt @ fst (taint_each H c1 vs)" "cx_slot_count c"]
    by (auto simp: framed_def split_beta Let_def intro: ctx_le_trans)
next
  case XOther
  then show ?case using mark_le [of c "escape_taint_all (cx_slot_count c)"] by (simp add: framed_def Let_def)
next
  case (XStructLit es)
  then show ?case by (simp only: escape_expr_taint.simps) (rule literal_framed)
next
  case (XSliceLit es)
  then show ?case by (simp only: escape_expr_taint.simps) (rule literal_framed)
next
  case (XArrayLit es)
  then show ?case by (simp only: escape_expr_taint.simps) (rule literal_framed)
qed (simp_all add: framed_def)

end
