(* ===== verification/Escape_Flow.thy ===== *)
theory Escape_Flow
  imports Escape_Sound
begin

text \<open>
  A flow semantics of function bodies. A value carries the slots of the unit it may refer to. A
  body is a set of atomic actions, and a run performs any of them in any order and number, so the
  runs include those of every control flow. A slot is lost once a value that carries it may be
  reached from outside the unit. A local container owns what is stored into it; sharing of
  containers is not followed.
\<close>

section \<open>Flow through expressions\<close>

text \<open>
  The unit: its locals, the parameters a user function keeps when it is called, the number of slots,
  and the slot of the value that an expression creates, if it has one.
\<close>

record unit_sem =
  um_locals :: "string set"
  um_keeps :: "string \<Rightarrow> bool list option"
  um_slots :: nat
  um_source :: "eexpr \<Rightarrow> nat option"

text \<open>
  The calls that keep no argument and return nothing of it: the builtins that read a length or print
  at once, and the members of the standard packages whose C code copies what it needs. The
  compiler takes the builtins and \<open>append\<close> by their name, a package member when no local has the name
  of the package.
\<close>

definition borrowing_builtins :: "string list" where
  "borrowing_builtins = [''len'', ''cap'', ''print'', ''println'']"

definition borrowing_members :: "(string \<times> string) list" where
  "borrowing_members = [
     (''fmt'', ''Println''), (''fmt'', ''Print''), (''fmt'', ''Sprint''), (''fmt'', ''Sprintln''), (''fmt'', ''Printf''), (''fmt'', ''Sprintf''),
     (''os'', ''Exit''),
     (''math'', ''Sqrt''), (''math'', ''Pow''), (''math'', ''Abs''), (''math'', ''Min''), (''math'', ''Max''),
     (''strings'', ''Contains''), (''strings'', ''ToUpper''), (''strings'', ''ToLower''), (''strings'', ''TrimSpace''),
     (''strings'', ''Split''), (''strings'', ''Join''),
     (''strconv'', ''Itoa''), (''strconv'', ''Atoi''),
     (''errors'', ''New''), (''errors'', ''Is'')]"

definition borrows :: "unit_sem \<Rightarrow> eexpr \<Rightarrow> bool" where
  "borrows S f = (case f of
     XIdent name \<Rightarrow> name \<in> set borrowing_builtins
   | XSelector (XIdent package) name \<Rightarrow> package \<notin> um_locals S \<and> (package, name) \<in> set borrowing_members
   | _ \<Rightarrow> False)"

definition user_function :: "unit_sem \<Rightarrow> eexpr \<Rightarrow> bool list option" where
  "user_function S f = (case f of XIdent name \<Rightarrow> um_keeps S name | _ \<Rightarrow> None)"

text \<open>
  Whether a call keeps its argument \<open>i\<close> of \<open>argc\<close>: a user function what its body keeps, and all it takes
  beyond its parameters or in a spread argument; \<open>append\<close> all but the slice; anything else that
  is not listed, all.
\<close>

definition keeps :: "unit_sem \<Rightarrow> eexpr \<Rightarrow> bool \<Rightarrow> nat \<Rightarrow> nat \<Rightarrow> bool" where
  "keeps S f has_spread argc i = (case user_function S f of
     Some k \<Rightarrow> (has_spread \<and> i = argc - 1) \<or> length k \<le> i \<or> k ! i
   | None \<Rightarrow> \<not> borrows S f \<and> ((has_spread \<and> i = argc - 1) \<or> \<not> (f = XIdent ''append'' \<and> i = 0)))"

text \<open>
  Whether the result may refer to what the arguments refer to. A user function gives nothing
  back that it does not also keep.
\<close>

definition gives :: "unit_sem \<Rightarrow> eexpr \<Rightarrow> bool" where
  "gives S f = (user_function S f = None \<and> \<not> borrows S f)"

text \<open>
  The slots the value of an expression carries, and those its evaluation loses: arguments that the
  callee keeps, a callee that is a value, captured variables, and everything where the construct is
  unknown. A user function gives nothing back that it does not also keep.
\<close>

type_synonym vals = "string \<Rightarrow> nat set"

fun flow :: "unit_sem \<Rightarrow> vals \<Rightarrow> eexpr \<Rightarrow> nat set"
  and flows :: "unit_sem \<Rightarrow> vals \<Rightarrow> eexpr list \<Rightarrow> nat set" where
  "flow S \<sigma> XNull = {}"
| "flow S \<sigma> (XIdent x) = (if x \<in> um_locals S then \<sigma> x else {})"
| "flow S \<sigma> XLiteral = {}"
| "flow S \<sigma> (XBinary op l r) = flow S \<sigma> l \<union> flow S \<sigma> r"
| "flow S \<sigma> (XUnary nid op e) = set_option (um_source S (XUnary nid op e)) \<union> flow S \<sigma> e"
| "flow S \<sigma> (XPostfix e) = flow S \<sigma> e"
| "flow S \<sigma> (XIndex e i) = flow S \<sigma> e"
| "flow S \<sigma> (XSliceIndex e lo hi) = flow S \<sigma> e \<union> flow S \<sigma> lo \<union> flow S \<sigma> hi"
| "flow S \<sigma> (XSelector e sel) = flow S \<sigma> e"
| "flow S \<sigma> (XCall nid f args sp) = (case um_source S (XCall nid f args sp) of Some i \<Rightarrow> {i} | None \<Rightarrow>
     (if gives S f then flows S \<sigma> args else {}) \<union> (if callee_name f = None then flow S \<sigma> f else {}))"
| "flow S \<sigma> (XFuncLit nid cs) = set_option (um_source S (XFuncLit nid cs)) \<union> \<Union> (\<sigma> ` (set cs \<inter> um_locals S))"
| "flow S \<sigma> (XStructLit es) = flows S \<sigma> es"
| "flow S \<sigma> (XSliceLit es) = flows S \<sigma> es"
| "flow S \<sigma> (XArrayLit es) = flows S \<sigma> es"
| "flow S \<sigma> (XKeyed e) = flow S \<sigma> e"
| "flow S \<sigma> (XMapLit ks vs) = flows S \<sigma> ks \<union> flows S \<sigma> vs"
| "flow S \<sigma> (XSliceConv e) = flow S \<sigma> e"
| "flow S \<sigma> (XTypeAssert e) = flow S \<sigma> e"
| "flow S \<sigma> XOther = {..<um_slots S}"
| "flows S \<sigma> [] = {}"
| "flows S \<sigma> (e # es) = flow S \<sigma> e \<union> flows S \<sigma> es"

definition kept_flows :: "unit_sem \<Rightarrow> vals \<Rightarrow> eexpr \<Rightarrow> bool \<Rightarrow> eexpr list \<Rightarrow> nat set" where
  "kept_flows S \<sigma> f has_spread args =
     (\<Union>i \<in> {i. i < length args \<and> keeps S f has_spread (length args) i}. flow S \<sigma> (args ! i))"

fun leak :: "unit_sem \<Rightarrow> vals \<Rightarrow> eexpr \<Rightarrow> nat set"
  and leaks :: "unit_sem \<Rightarrow> vals \<Rightarrow> eexpr list \<Rightarrow> nat set" where
  "leak S \<sigma> (XBinary op l r) = leak S \<sigma> l \<union> leak S \<sigma> r"
| "leak S \<sigma> (XUnary nid op e) = leak S \<sigma> e"
| "leak S \<sigma> (XPostfix e) = leak S \<sigma> e"
| "leak S \<sigma> (XIndex e i) = leak S \<sigma> e \<union> leak S \<sigma> i"
| "leak S \<sigma> (XSliceIndex e lo hi) = leak S \<sigma> e \<union> leak S \<sigma> lo \<union> leak S \<sigma> hi"
| "leak S \<sigma> (XSelector e sel) = leak S \<sigma> e"
| "leak S \<sigma> (XCall nid f args sp) = (case um_source S (XCall nid f args sp) of Some i \<Rightarrow> {} | None \<Rightarrow> leaks S \<sigma> args \<union> kept_flows S \<sigma> f sp args
     \<union> (if callee_name f = None then leak S \<sigma> f \<union> flow S \<sigma> f else {}))"
| "leak S \<sigma> (XFuncLit nid cs) = \<Union> (\<sigma> ` (set cs \<inter> um_locals S))"
| "leak S \<sigma> (XStructLit es) = leaks S \<sigma> es"
| "leak S \<sigma> (XSliceLit es) = leaks S \<sigma> es"
| "leak S \<sigma> (XArrayLit es) = leaks S \<sigma> es"
| "leak S \<sigma> (XKeyed e) = leak S \<sigma> e"
| "leak S \<sigma> (XMapLit ks vs) = leaks S \<sigma> ks \<union> leaks S \<sigma> vs"
| "leak S \<sigma> (XSliceConv e) = leak S \<sigma> e"
| "leak S \<sigma> (XTypeAssert e) = leak S \<sigma> e"
| "leak S \<sigma> XOther = {..<um_slots S}"
| "leak S \<sigma> e = {}"
| "leaks S \<sigma> [] = {}"
| "leaks S \<sigma> (e # es) = leak S \<sigma> e \<union> leaks S \<sigma> es"

section \<open>Actions and runs\<close>

datatype atom =
    Eval eexpr
  | Bind string "eexpr list"
  | BindKey string
  | Assign eexpr "eexpr list"
  | Lose "eexpr list"
  | Anything

definition expr_atoms :: "eexpr \<Rightarrow> atom list" where
  "expr_atoms e = (case e of
     XBinary op l r \<Rightarrow>
       if is_assign_op op then [Eval r, Assign l [r]]
       else if op = TOKEN_ARROW then [Eval l, Eval r, Lose [r]]
       else [Eval e]
   | _ \<Rightarrow> [Eval e])"

definition call_atoms :: "eexpr \<Rightarrow> atom list" where
  "call_atoms call = (case call of XCall nid f args sp \<Rightarrow> [Lose (f # args)] | _ \<Rightarrow> [Lose [call]])"

definition bind_atoms :: "string option \<Rightarrow> eexpr list \<Rightarrow> atom list" where
  "bind_atoms x es = (case x of None \<Rightarrow> [] | Some n \<Rightarrow> if n = ''_'' then [] else [Bind n es])"

definition key_atoms :: "string option \<Rightarrow> atom list" where
  "key_atoms x = (case x of None \<Rightarrow> [] | Some n \<Rightarrow> if n = ''_'' then [] else [BindKey n])"

definition decl_atoms :: "string list \<Rightarrow> eexpr list \<Rightarrow> atom list" where
  "decl_atoms names es = map Eval es @ concat (map (\<lambda>n. bind_atoms (Some n) es) names)"

definition multi_atoms :: "eexpr list \<Rightarrow> eexpr list \<Rightarrow> bool \<Rightarrow> atom list" where
  "multi_atoms targets es is_short = map Eval es @ concat (map (\<lambda>tgt.
     if is_short then (case tgt of XIdent n \<Rightarrow> bind_atoms (Some n) es | _ \<Rightarrow> [Lose es]) else [Assign tgt es]) targets)"

text \<open>\<open>like_go\<close> says whether deferred calls run after the unit has ended.\<close>

fun atoms :: "bool \<Rightarrow> estmt list \<Rightarrow> atom list"
  and atoms_one :: "bool \<Rightarrow> estmt \<Rightarrow> atom list"
  and atoms_clauses :: "(eclause \<Rightarrow> bool) \<Rightarrow> bool \<Rightarrow> eclause list \<Rightarrow> atom list"
  and atoms_clause :: "bool \<Rightarrow> eclause \<Rightarrow> atom list" where
  "atoms g [] = []"
| "atoms g (s # ss) = atoms_one g s @ atoms g ss"
| "atoms_one g (StBlock ss) = atoms g ss"
| "atoms_one g (StExpr e) = expr_atoms e"
| "atoms_one g (StIf e th el) = [Eval e] @ atoms g th @ atoms g el"
| "atoms_one g (StIfLet x e th el) = [Eval e] @ bind_atoms x [e] @ atoms g th @ atoms g el"
| "atoms_one g (StRange k v e body) = [Eval e] @ key_atoms k @ bind_atoms v [e] @ atoms g body"
| "atoms_one g (StFor init e post body) = atoms g init @ [Eval e] @ atoms g post @ atoms g body"
| "atoms_one g (StReturn es) = map Eval es @ [Lose es]"
| "atoms_one g (StGo call) = call_atoms call"
| "atoms_one g (StDefer call) = (if g then call_atoms call else [Eval call])"
| "atoms_one g StBreak = []"
| "atoms_one g StContinue = []"
| "atoms_one g (StVar names es) = decl_atoms names es"
| "atoms_one g (StConst names es) = decl_atoms names es"
| "atoms_one g (StMulti targets es sh) = multi_atoms targets es sh"
| "atoms_one g (StSwitch tag cs) = [Eval tag] @ atoms_clauses is_CaseClause g cs"
| "atoms_one g (StTypeSwitch x e cs) = [Eval e] @ bind_atoms x [e] @ atoms_clauses is_TypeCase g cs"
| "atoms_one g (StSelect cs) = atoms_clauses is_SelectCase g cs"
| "atoms_one g (StUnsafe ss) = atoms g ss"
| "atoms_one g (StArena ss) = atoms g ss"
| "atoms_one g (StAssert e m) = [Eval e, Eval m]"
| "atoms_one g (StAssume e) = [Eval e]"
| "atoms_one g StOther = [Anything]"
| "atoms_clauses kind g [] = []"
| "atoms_clauses kind g (cl # cls) = (if kind cl then atoms_clause g cl else []) @ atoms_clauses kind g cls"
| "atoms_clause g (CaseClause es body) = map Eval es @ atoms g body"
| "atoms_clause g (TypeCase body) = atoms g body"
| "atoms_clause g (SelectCase comm bind decl body) = expr_atoms comm @ atoms g body"
| "atoms_clause g OtherClause = []"

definition bound_names :: "atom list \<Rightarrow> string set" where
  "bound_names as = (\<Union>a \<in> set as. case a of Bind x es \<Rightarrow> {x} | BindKey x \<Rightarrow> {x} | _ \<Rightarrow> {})"

text \<open>The subscripts of a target are stored with the value.\<close>

fun subscripts :: "eexpr \<Rightarrow> eexpr list" where
  "subscripts (XIndex e i) = i # subscripts e"
| "subscripts (XSelector e sel) = subscripts e"
| "subscripts (XUnary nid op e) = subscripts e"
| "subscripts e = []"

text \<open>
  One action on the values of the locals and the lost slots. A value read may also carry any slot
  that is lost already. \<open>own x\<close> is the slot of the value that a declaration of \<open>x\<close> creates.
\<close>

definition own_slot :: "(string \<Rightarrow> nat option) \<Rightarrow> string \<Rightarrow> nat set" where
  "own_slot own x = set_option (own x)"

inductive act :: "unit_sem \<Rightarrow> (string \<Rightarrow> nat option) \<Rightarrow> vals \<times> nat set \<Rightarrow> atom \<Rightarrow> vals \<times> nat set \<Rightarrow> bool"
  for S own where
  act_eval: "act S own (\<sigma>, L) (Eval e) (\<sigma>, L \<union> leak S \<sigma> e)"
| act_bind: "V \<subseteq> flows S \<sigma> es \<union> L \<Longrightarrow> act S own (\<sigma>, L) (Bind x es) (\<sigma>(x := V \<union> own_slot own x), L)"
| act_key: "V \<subseteq> L \<Longrightarrow> act S own (\<sigma>, L) (BindKey x) (\<sigma>(x := V \<union> own_slot own x), L)"
| act_blank: "act S own (\<sigma>, L) (Assign (XIdent ''_'') es) (\<sigma>, L)"
| act_local: "x \<noteq> ''_'' \<Longrightarrow> x \<in> um_locals S \<Longrightarrow> V \<subseteq> flows S \<sigma> es \<union> L \<Longrightarrow>
    act S own (\<sigma>, L) (Assign (XIdent x) es) (\<sigma>(x := V), L)"
| act_global: "x \<noteq> ''_'' \<Longrightarrow> x \<notin> um_locals S \<Longrightarrow> act S own (\<sigma>, L) (Assign (XIdent x) es) (\<sigma>, L \<union> flows S \<sigma> es)"
| act_element: "x \<in> um_locals S \<Longrightarrow> V \<subseteq> flows S \<sigma> es \<union> L \<Longrightarrow>
    act S own (\<sigma>, L) (Assign (XIndex (XIdent x) i) es)
      (\<sigma>(x := \<sigma> x \<union> V), L \<union> leaks S \<sigma> (subscripts (XIndex (XIdent x) i)) \<union> flows S \<sigma> (subscripts (XIndex (XIdent x) i)))"
| act_store: "(\<And>x. lhs \<noteq> XIdent x) \<Longrightarrow> (\<And>x i. lhs = XIndex (XIdent x) i \<Longrightarrow> x \<notin> um_locals S) \<Longrightarrow>
    act S own (\<sigma>, L) (Assign lhs es)
      (\<sigma>, L \<union> flows S \<sigma> es \<union> leaks S \<sigma> (subscripts lhs) \<union> flows S \<sigma> (subscripts lhs))"
| act_lose: "act S own (\<sigma>, L) (Lose es) (\<sigma>, L \<union> flows S \<sigma> es \<union> leaks S \<sigma> es)"
| act_anything: "L' \<subseteq> {..<um_slots S} \<Longrightarrow> (\<And>x. \<sigma>' x \<subseteq> {..<um_slots S}) \<Longrightarrow> act S own (\<sigma>, L) Anything (\<sigma>', L')"

inductive_cases act_evalE: "act S own (\<sigma>, L) (Eval e) s'"
inductive_cases act_bindE: "act S own (\<sigma>, L) (Bind x es) s'"
inductive_cases act_keyE: "act S own (\<sigma>, L) (BindKey x) s'"
inductive_cases act_assignE: "act S own (\<sigma>, L) (Assign lhs es) s'"
inductive_cases act_loseE: "act S own (\<sigma>, L) (Lose es) s'"
inductive_cases act_anythingE: "act S own (\<sigma>, L) Anything s'"

text \<open>The states of the runs of a body, from the state before its first action.\<close>

inductive run :: "unit_sem \<Rightarrow> (string \<Rightarrow> nat option) \<Rightarrow> atom list \<Rightarrow> vals \<times> nat set \<Rightarrow> vals \<times> nat set \<Rightarrow> bool"
  for S own as s0 where
  run_start: "run S own as s0 s0"
| run_step: "run S own as s0 s \<Longrightarrow> a \<in> set as \<Longrightarrow> act S own s a s' \<Longrightarrow> run S own as s0 s'"

end
