(* ===== verification/Escape_Cover.thy ===== *)
theory Escape_Cover
  imports Escape_Flow
begin

text \<open>
  The contract between the engine and a pass, and its consequence: when a walk ends without a
  change of the environment, its marks and its environment bound what every action of the body
  does to the values of the flow semantics.
\<close>

section \<open>The contract of the hooks\<close>

definition own_taint :: "(string \<Rightarrow> nat option) \<Rightarrow> string \<Rightarrow> taint \<Rightarrow> taint" where
  "own_taint own x t = (case own x of None \<Rightarrow> t | Some i \<Rightarrow> t[i := True])"

lemma length_own [simp]: "length (own_taint own x t) = length t"
  by (simp add: own_taint_def split: option.split)

lemma bits_own: "bits t \<subseteq> bits (own_taint own x t)"
    "(\<And>i. own x = Some i \<Longrightarrow> i < length t) \<Longrightarrow> own_slot own x \<subseteq> bits (own_taint own x t)"
  by (auto simp: own_taint_def own_slot_def bits_def split: option.splits) (metis nth_list_update_eq nth_list_update_neq)

text \<open>What a user function keeps is in its summary.\<close>

definition agrees :: "unit_sem \<Rightarrow> (string \<Rightarrow> (bool list \<times> bool) option) \<Rightarrow> bool" where
  "agrees S look = (\<forall>name. case um_keeps S name of
     None \<Rightarrow> look name = None
   | Some k \<Rightarrow> \<exists>es r. look name = Some (es, r) \<and> length es = length k \<and> (\<forall>i < length k. k ! i \<longrightarrow> es ! i))"

lemma find_matches: "find P xs = Some x \<Longrightarrow> P x"
  by (induction xs) (auto split: if_splits)

lemma non_retaining_listed:
  "shim_signature_is_non_retaining (Some package) (Some name) \<Longrightarrow> (package, name) \<in> set borrowing_members"
proof -
  have "list_all (\<lambda>row. sg_non_retaining row \<longrightarrow> (sg_pkg row, sg_name row) \<in> set borrowing_members) SHIM_TABLE"
    by (simp add: SHIM_TABLE_def borrowing_members_def)
  then show "shim_signature_is_non_retaining (Some package) (Some name) \<Longrightarrow> (package, name) \<in> set borrowing_members"
    by (auto simp: shim_signature_is_non_retaining_def shim_signature_find_def list_all_iff dest: find_in_set find_matches
        split: option.splits)
qed

locale escape_pass =
  fixes H :: "'o hooks" and own :: "string \<Rightarrow> nat option" and good :: "'o \<Rightarrow> bool"
    and look :: "string \<Rightarrow> (bool list \<times> bool) option" and S :: unit_sem
  assumes sources: "good (cx_owner c) \<Longrightarrow> source_slot H c e = um_source S e"
    and source_bound: "um_source S e = Some i \<Longrightarrow> i < um_slots S"
    and binds: "good (cx_owner c) \<Longrightarrow> \<exists>o1. good o1 \<and> hk_bind H c x t =
      (fst (env_union c x (own_taint own x t)), (snd (env_union c x (own_taint own x t)))\<lparr>cx_owner := o1\<rparr>)"
    and on_returns: "good (cx_owner c) \<Longrightarrow> hk_on_return H = Some r \<Longrightarrow> \<exists>o1. good o1 \<and> r c t = c\<lparr>cx_owner := o1\<rparr>"
    and callees: "good (cx_owner c) \<Longrightarrow> callee_summary H c f = (case callee_name f of None \<Rightarrow> None | Some n \<Rightarrow> look n)"
    and summaries: "agrees S look"
    and own_bound: "own x = Some i \<Longrightarrow> i < um_slots S"
begin

text \<open>The values of the locals stay within the environment and the marks \<open>M\<close>.\<close>

definition tracks :: "nat set \<Rightarrow> vals \<Rightarrow> 'o ectx \<Rightarrow> bool" where
  "tracks M \<sigma> c = (wf_ctx c \<and> good (cx_owner c) \<and> um_slots S = cx_slot_count c
     \<and> (\<forall>x. (x \<in> um_locals S) = (escape_env_find (cx_env c) x \<noteq> None))
     \<and> (\<forall>x t. escape_env_find (cx_env c) x = Some t \<longrightarrow> \<sigma> x \<subseteq> bits t \<union> M))"

lemma tracks_le: "tracks M \<sigma> c \<Longrightarrow> ctx_le c c1 \<Longrightarrow> tracks M \<sigma> c1"
  using ctx_le_fields [of c c1] by (simp add: tracks_def)

lemma tracks_env: "tracks M \<sigma> c \<Longrightarrow> escape_env_find (cx_env c) x = Some t \<Longrightarrow> \<sigma> x \<subseteq> bits t \<union> M \<and> x \<in> um_locals S"
  and tracks_wf: "tracks M \<sigma> c \<Longrightarrow> wf_ctx c \<and> um_slots S = cx_slot_count c"
  and tracks_local: "tracks M \<sigma> c \<Longrightarrow> x \<in> um_locals S \<Longrightarrow> \<exists>t. escape_env_find (cx_env c) x = Some t"
  by (auto simp: tracks_def)

lemma tracks_base: "tracks M \<sigma> c \<Longrightarrow> selector_base_is_local c f = (case f of
     XSelector (XIdent name) sel \<Rightarrow> name \<in> um_locals S | XSelector e sel \<Rightarrow> True | _ \<Rightarrow> False)"
  by (auto simp: tracks_def selector_base_is_local_def split: eexpr.splits)

lemma summary_cases:
  assumes "tracks M \<sigma> c"
  obtains "callee_summary H c f = None" "user_function S f = None"
  | es r k where "callee_summary H c f = Some (es, r)" "user_function S f = Some k" "length es = length k"
      "\<And>i. i < length k \<Longrightarrow> k ! i \<Longrightarrow> es ! i"
proof (cases "callee_name f")
  case None
  then have "user_function S f = None" by (auto simp: callee_name_def user_function_def split: eexpr.splits)
  then show thesis using None that(1) callees [of c f] assms by (simp add: tracks_def)
next
  case (Some name)
  then have f: "f = XIdent name" by (auto simp: callee_name_def split: eexpr.splits)
  have good: "good (cx_owner c)" using assms by (simp add: tracks_def)
  show thesis
  proof (cases "um_keeps S name")
    case None
    then have "look name = None" using summaries by (auto simp: agrees_def dest!: spec [of _ name])
    then show thesis using that(1) None callees [OF good, of f] f by (simp add: user_function_def callee_name_def)
  next
    case (Some k)
    then obtain es r where "look name = Some (es, r)" "length es = length k" "\<forall>i < length k. k ! i \<longrightarrow> es ! i"
      using summaries by (auto simp: agrees_def dest!: spec [of _ name])
    then show thesis using that(2) Some callees [OF good, of f] f by (simp add: user_function_def callee_name_def)
  qed
qed

text \<open>Whatever the analysis lets borrow is in the list of the semantics.\<close>

lemma non_retaining_borrows:
  assumes "tracks M \<sigma> c" "goo_callee_is_non_retaining f" "\<not> selector_base_is_local c f"
  shows "borrows S f"
  using assms tracks_base [OF assms(1), of f]
  by (auto simp: goo_callee_is_non_retaining_def is_nonretaining_builtin_def borrows_def borrowing_builtins_def
      non_retaining_listed split: eexpr.splits option.splits)

text \<open>A call marks at least what the semantics keeps, and its result has at least what it gives back.\<close>

lemma call_bounds:
  assumes "tracks M \<sigma> c"
  shows "keeps S f sp argc i \<Longrightarrow> retains (callee_summary H c f) (selector_base_is_local c f) f sp argc i \<noteq> None"
    and "gives S f \<Longrightarrow> returns_args (callee_summary H c f) (selector_base_is_local c f) f"
proof -
  note listed = non_retaining_borrows [OF assms, of f]
  show "keeps S f sp argc i \<Longrightarrow> retains (callee_summary H c f) (selector_base_is_local c f) f sp argc i \<noteq> None"
    by (rule summary_cases [OF assms, of f])
      (use listed in \<open>auto simp: keeps_def retains_def whitelisted_def is_append_def callee_name_def split: if_splits eexpr.splits\<close>)
  show "gives S f \<Longrightarrow> returns_args (callee_summary H c f) (selector_base_is_local c f) f"
    by (rule summary_cases [OF assms, of f]) (use listed in \<open>auto simp: gives_def returns_args_def whitelisted_def\<close>)
qed

text \<open>The taint of an expression bounds the flow of its value, and its marks what is lost.\<close>

definition sound :: "nat set \<Rightarrow> vals \<Rightarrow> 'o ectx \<Rightarrow> eexpr \<Rightarrow> bool" where
  "sound M \<sigma> c e = (marked (cx_reasons (snd (escape_expr_taint H c e))) \<subseteq> M \<longrightarrow>
     flow S \<sigma> e \<subseteq> bits (fst (escape_expr_taint H c e)) \<union> M \<and> leak S \<sigma> e \<subseteq> M)"

definition sound_list :: "nat set \<Rightarrow> vals \<Rightarrow> 'o ectx \<Rightarrow> eexpr list \<Rightarrow> bool" where
  "sound_list M \<sigma> c es = (marked (cx_reasons (snd (taint_each H c es))) \<subseteq> M \<longrightarrow>
     (\<forall>i < length es. flow S \<sigma> (es ! i) \<subseteq> bits (fst (taint_each H c es) ! i) \<union> M)
     \<and> flows S \<sigma> es \<subseteq> \<Union> (bits ` set (fst (taint_each H c es))) \<union> M \<and> leaks S \<sigma> es \<subseteq> M)"

lemma each_le: "wf_ctx c \<Longrightarrow> ctx_le c (snd (taint_each H c es))"
  and each_lengths: "wf_ctx c \<Longrightarrow> \<forall>t \<in> set (fst (taint_each H c es)). length t = cx_slot_count c"
  and each_count: "wf_ctx c \<Longrightarrow> length (fst (taint_each H c es)) = length es"
  using taint_each_framed [of es H c] expr_framed by blast+

lemma taint_each_sound:
  assumes "\<And>e c. e \<in> set es \<Longrightarrow> tracks M \<sigma> c \<Longrightarrow> sound M \<sigma> c e" "tracks M \<sigma> c"
  shows "sound_list M \<sigma> c es"
  using assms
proof (induction es arbitrary: c)
  case (Cons e es)
  obtain t c1 where t: "escape_expr_taint H c e = (t, c1)" by fastforce
  have wf: "wf_ctx c" using Cons.prems(2) by (simp add: tracks_def)
  have le: "ctx_le c c1" using framedD(1) [OF expr_framed [OF wf, of H e, unfolded t] wf] .
  then have tr: "tracks M \<sigma> c1" using tracks_le [OF Cons.prems(2)] by blast
  then have ih: "sound_list M \<sigma> c1 es" using Cons.prems(1) by (intro Cons.IH) auto
  have "marked (cx_reasons c1) \<subseteq> marked (cx_reasons (snd (taint_each H c1 es)))"
    using tr by (intro ctx_le_fields(5) each_le) (simp add: tracks_def)
  then show ?case using Cons.prems(1) [of e c] Cons.prems(2) ih t
    by (fastforce simp: sound_def sound_list_def split_beta Let_def less_Suc_eq_0_disj)
qed (simp add: sound_list_def)

lemma captured_sound:
  assumes "tracks M \<sigma> c"
  shows "\<Union> (\<sigma> ` (set cs \<inter> um_locals S)) \<subseteq> bits (captured_taint c cs) \<union> M"
proof -
  let ?step = "\<lambda>t name. case escape_env_find (cx_env c) name of None \<Rightarrow> t | Some u \<Rightarrow> snd (escape_taint_union_into t u)"
  have wf: "env_wf (cx_slot_count c) (cx_env c)" using assms by (simp add: tracks_def wf_ctx_def)
  have "bits acc \<subseteq> bits (foldl ?step acc cs) \<and> \<Union> (\<sigma> ` (set cs \<inter> um_locals S)) \<subseteq> bits (foldl ?step acc cs) \<union> M"
    if "length acc = cx_slot_count c" for acc
    using that
  proof (induction cs arbitrary: acc)
    case (Cons x cs)
    have len: "length (?step acc x) = cx_slot_count c" using Cons.prems by (simp split: option.split)
    have "bits acc \<subseteq> bits (?step acc x) \<and> (x \<in> um_locals S \<longrightarrow> \<sigma> x \<subseteq> bits (?step acc x) \<union> M)"
      using tracks_env [OF assms, of x] tracks_local [OF assms, of x] Cons.prems env_find_wf [OF wf, of x]
      by (auto simp: bits_union split: option.split)
    then show ?case using Cons.IH [OF len] by auto
  qed simp
  from this [of "escape_taint_new (cx_slot_count c)"] show ?thesis by (simp add: captured_taint_def)
qed

lemma call_sound:
  assumes "tracks M \<sigma> c" "marked (cx_reasons (snd (call_result H c f sp ats ft))) \<subseteq> M"
    and "\<forall>t \<in> set ats. length t = cx_slot_count c" "length ats = length args" "length ft = cx_slot_count c"
    and "\<forall>i < length args. flow S \<sigma> (args ! i) \<subseteq> bits (ats ! i) \<union> M"
    and "flows S \<sigma> args \<subseteq> \<Union> (bits ` set ats) \<union> M"
  shows "kept_flows S \<sigma> f sp args \<subseteq> M"
    "(if gives S f then flows S \<sigma> args else {}) \<union> bits ft \<subseteq> bits (fst (call_result H c f sp ats ft)) \<union> M"
proof -
  let ?sum = "callee_summary H c f" and ?loc = "selector_base_is_local c f"
  let ?c1 = "mark_args (retains ?sum ?loc f sp (length ats)) 0 ats c"
  have wf: "wf_ctx c" using assms(1) by (simp add: tracks_def)
  have m: "marked (cx_reasons ?c1) \<subseteq> M" using assms(2) by (simp add: call_result_def Let_def)
  have "bits (ats ! i) \<subseteq> M" if "i < length args" "keeps S f sp (length args) i" for i
    using mark_args_le [OF wf assms(3), of "retains ?sum ?loc f sp (length ats)" 0]
      call_bounds(1) [OF assms(1) that(2)] that(1) m assms(4) by auto
  then show "kept_flows S \<sigma> f sp args \<subseteq> M" using assms(6) by (fastforce simp: kept_flows_def)
  show "(if gives S f then flows S \<sigma> args else {}) \<union> bits ft \<subseteq> bits (fst (call_result H c f sp ats ft)) \<union> M"
    using union_all_bits [OF assms(3)] assms(5,7) call_bounds(2) [OF assms(1), of f]
    by (auto simp: call_result_def Let_def bits_union)
qed

lemma two_sound:
  assumes "sound M \<sigma> c e" "escape_expr_taint H c e = (t, c1)" "sound M \<sigma> c1 e'" "escape_expr_taint H c1 e' = (t', c2)"
    and "wf_ctx c1" "marked (cx_reasons c2) \<subseteq> M"
  shows "flow S \<sigma> e \<subseteq> bits t \<union> M \<and> leak S \<sigma> e \<subseteq> M \<and> flow S \<sigma> e' \<subseteq> bits t' \<union> M \<and> leak S \<sigma> e' \<subseteq> M"
  using assms ctx_le_fields(5) [OF framedD(1) [OF expr_framed [OF assms(5), of H e', unfolded assms(4)] assms(5)]]
  by (auto simp: sound_def)

lemma literal_sound:
  assumes "sound_list M \<sigma> c es" "tracks M \<sigma> c"
    and "escape_expr_taint H c e = (let (ts, c1) = taint_each H c es in (union_all (cx_slot_count c) ts, c1))"
    and "flow S \<sigma> e = flows S \<sigma> es" "leak S \<sigma> e = leaks S \<sigma> es"
  shows "sound M \<sigma> c e"
  using assms union_all_bits [OF each_lengths [of c es]] tracks_wf [OF assms(2)]
  by (simp add: sound_def sound_list_def split_beta Let_def)

lemma expr_sound: "tracks M \<sigma> c \<Longrightarrow> sound M \<sigma> c e"
proof (induction e arbitrary: c)
  case (XIdent x)
  then show ?case using tracks_env [OF XIdent, of x] tracks_local [OF XIdent, of x]
    by (auto simp: sound_def split: option.split)
next
  case (XBinary op l r)
  obtain t c1 where l: "escape_expr_taint H c l = (t, c1)" by fastforce
  obtain u c2 where r: "escape_expr_taint H c1 r = (u, c2)" by fastforce
  have wf: "wf_ctx c" using tracks_wf [OF XBinary.prems] by simp
  note f = framedD [OF expr_framed [OF wf, of H l, unfolded l] wf]
  note g = framedD [OF expr_framed [OF f(3), of H r, unfolded r] f(3)]
  note tr = tracks_le [OF XBinary.prems f(1)]
  show ?case using two_sound [OF XBinary.IH(1) [OF XBinary.prems] l XBinary.IH(2) [OF tr] r f(3)] l r f g
    by (auto simp: sound_def bits_union)
next
  case (XIndex e i)
  obtain t c1 where l: "escape_expr_taint H c e = (t, c1)" by fastforce
  obtain u c2 where r: "escape_expr_taint H c1 i = (u, c2)" by fastforce
  have wf: "wf_ctx c" using tracks_wf [OF XIndex.prems] by simp
  note f = framedD [OF expr_framed [OF wf, of H e, unfolded l] wf]
  note tr = tracks_le [OF XIndex.prems f(1)]
  show ?case using two_sound [OF XIndex.IH(1) [OF XIndex.prems] l XIndex.IH(2) [OF tr] r f(3)] l r
    by (auto simp: sound_def)
next
  case (XSliceIndex e lo hi)
  obtain t c1 where e: "escape_expr_taint H c e = (t, c1)" by fastforce
  obtain u c2 where l: "escape_expr_taint H c1 lo = (u, c2)" by fastforce
  obtain v c3 where h: "escape_expr_taint H c2 hi = (v, c3)" by fastforce
  have wf: "wf_ctx c" using tracks_wf [OF XSliceIndex.prems] by simp
  note f = framedD [OF expr_framed [OF wf, of H e, unfolded e] wf]
  note g = framedD [OF expr_framed [OF f(3), of H lo, unfolded l] f(3)]
  note k = framedD [OF expr_framed [OF g(3), of H hi, unfolded h] g(3)]
  note tr = tracks_le [OF XSliceIndex.prems f(1)]
  note tr2 = tracks_le [OF tr g(1)]
  have m: "marked (cx_reasons c2) \<subseteq> marked (cx_reasons c3)" using ctx_le_fields(5) [OF k(1)] .
  show ?case
    using two_sound [OF XSliceIndex.IH(1) [OF XSliceIndex.prems] e XSliceIndex.IH(2) [OF tr] l f(3)]
      XSliceIndex.IH(3) [OF tr2] e l h f g k m by (auto simp: sound_def bits_union)
next
  case (XCall nid f args sp)
  have wf: "wf_ctx c" using tracks_wf [OF XCall.prems] by simp
  have src: "source_slot H c (XCall nid f args sp) = um_source S (XCall nid f args sp)"
    using sources XCall.prems by (simp add: tracks_def)
  obtain ats c1 where a: "taint_each H c args = (ats, c1)" by fastforce
  note le1 = each_le [OF wf, of args, unfolded a, simplified]
  note len = each_lengths [OF wf, of args, unfolded a, simplified] each_count [OF wf, of args, unfolded a, simplified]
  note c1 = ctx_le_fields(2) [OF le1] ctx_le_fields(4) [OF le1 wf] tracks_le [OF XCall.prems le1]
  have args: "sound_list M \<sigma> c args" using taint_each_sound [OF XCall.IH(2) XCall.prems] .
  obtain t c2 where t: "escape_expr_taint H c1 f = (t, c2)" by fastforce
  note f2 = framedD [OF expr_framed [OF c1(2), of H f, unfolded t] c1(2)]
  let ?c3 = "escape_mark c2 t ESCAPE_REASON_CALLEE_VALUE"
  have c3: "ctx_le c2 ?c3" "bits t \<subseteq> marked (cx_reasons ?c3)"
    using mark_le [OF f2(3), of t ESCAPE_REASON_CALLEE_VALUE] f2 by auto
  show ?case
  proof (cases "um_source S (XCall nid f args sp)")
    case (Some i)
    then show ?thesis using src source_bound [OF Some] tracks_wf [OF XCall.prems]
      by (auto simp: sound_def bits_def)
  next
    case none: None
    show ?thesis
  proof (cases "callee_name f")
    case None
    let ?r = "call_result H ?c3 f sp ats t"
    have eq: "escape_expr_taint H c (XCall nid f args sp) = ?r" using None a t src none by simp
    note w3 = ctx_le_fields(2) [OF c3(1)] ctx_le_fields(4) [OF c3(1) f2(3)] tracks_le [OF tracks_le [OF c1(3) f2(1)] c3(1)]
    have l3: "\<forall>t \<in> set ats. length t = cx_slot_count ?c3" using len(1) c1(1) f2(4) w3(1) by simp
    have le: "ctx_le ?c3 (snd ?r)" using call_framed [OF w3(2) l3] by (simp add: framed_def)
    { assume m: "marked (cx_reasons (snd ?r)) \<subseteq> M"
      have m3: "marked (cx_reasons ?c3) \<subseteq> M" using ctx_le_fields(5) [OF le] m by blast
      then have m2: "marked (cx_reasons c2) \<subseteq> M" using ctx_le_fields(5) [OF c3(1)] by blast
      then have m1: "marked (cx_reasons c1) \<subseteq> M" using ctx_le_fields(5) [OF f2(1)] by blast
      have fl: "flow S \<sigma> f \<subseteq> bits t \<union> M" "leak S \<sigma> f \<subseteq> M" using XCall.IH(1) [OF c1(3)] t m2 by (auto simp: sound_def)
      note al = args [unfolded sound_list_def a, simplified, rule_format, OF m1]
      have "length t = cx_slot_count ?c3" using f2(2,4) w3(1) c1(1) by simp
      note cs = call_sound [OF w3(3) m l3 len(2) this _ conjunct1 [OF conjunct2 [OF al]]]
      have "flow S \<sigma> (XCall nid f args sp) \<subseteq> bits (fst ?r) \<union> M \<and> leak S \<sigma> (XCall nid f args sp) \<subseteq> M"
        using cs al fl c3(2) m3 None none by auto }
    then show ?thesis using eq by (simp add: sound_def)
  next
    case (Some name)
    let ?r = "call_result H c1 f sp ats (escape_taint_new (cx_slot_count c))"
    have eq: "escape_expr_taint H c (XCall nid f args sp) = ?r" using Some a src none by simp
    have l1: "\<forall>t \<in> set ats. length t = cx_slot_count c1" using len(1) c1(1) by simp
    have le: "ctx_le c1 (snd ?r)" using call_framed [OF c1(2) l1] by (simp add: framed_def)
    { assume m: "marked (cx_reasons (snd ?r)) \<subseteq> M"
      then have m1: "marked (cx_reasons c1) \<subseteq> M" using ctx_le_fields(5) [OF le] by blast
      note al = args [unfolded sound_list_def a, simplified, rule_format, OF m1]
      note cs = call_sound [OF c1(3) m l1 len(2) _ _ conjunct1 [OF conjunct2 [OF al]]]
      have "flow S \<sigma> (XCall nid f args sp) \<subseteq> bits (fst ?r) \<union> M \<and> leak S \<sigma> (XCall nid f args sp) \<subseteq> M"
        using cs al Some c1(1) none by auto }
    then show ?thesis using eq by (simp add: sound_def)
  qed
  qed
next
  case (XFuncLit nid cs)
  have wf: "wf_ctx c" "um_slots S = cx_slot_count c" using tracks_wf [OF XFuncLit] by simp_all
  let ?t = "captured_taint c cs"
  let ?c1 = "escape_mark c ?t ESCAPE_REASON_CLOSURE_CAPTURE"
  note m = mark_le [OF wf(1) captured_length [OF wf(1), of cs], of ESCAPE_REASON_CLOSURE_CAPTURE]
  have "source_slot H ?c1 (XFuncLit nid cs) = um_source S (XFuncLit nid cs)"
    using sources [of ?c1] ctx_le_fields(3) [OF conjunct1 [OF m]] XFuncLit by (simp add: tracks_def)
  moreover have "insert i (bits ?t) \<subseteq> bits (?t[i := True])" if "um_source S (XFuncLit nid cs) = Some i" for i
    using bits_set [of i ?t] captured_length [OF wf(1), of cs] source_bound [OF that] wf(2) by simp
  ultimately show ?case using captured_sound [OF XFuncLit, of cs] m
    by (cases "um_source S (XFuncLit nid cs)") (auto simp: sound_def Let_def)
next
  case (XUnary nid op e)
  obtain t c1 where t: "escape_expr_taint H c e = (t, c1)" by fastforce
  have wf: "wf_ctx c" "um_slots S = cx_slot_count c" using tracks_wf [OF XUnary.prems] by simp_all
  note f = framedD [OF expr_framed [OF wf(1), of H e, unfolded t] wf(1)]
  have src: "source_slot H c (XUnary nid op e) = um_source S (XUnary nid op e)"
    using sources XUnary.prems by (simp add: tracks_def)
  have "insert i (bits t) \<subseteq> bits (snd (escape_taint_union_into ((escape_taint_new (cx_slot_count c))[i := True]) t))"
    if "um_source S (XUnary nid op e) = Some i" for i
    using bits_set [of i "escape_taint_new (cx_slot_count c)"] source_bound [OF that] wf(2) f(2) by (auto simp: bits_union)
  then show ?case using XUnary.IH [OF XUnary.prems] t src
    by (cases "um_source S (XUnary nid op e)") (auto simp: sound_def)
next
  case (XMapLit ks vs)
  have wf: "wf_ctx c" using tracks_wf [OF XMapLit.prems] by simp
  obtain kt c1 where k: "taint_each H c ks = (kt, c1)" by fastforce
  note le1 = each_le [OF wf, of ks, unfolded k, simplified]
  note c1 = ctx_le_fields(2) [OF le1] ctx_le_fields(4) [OF le1 wf] tracks_le [OF XMapLit.prems le1]
  obtain vt c2 where v: "taint_each H c1 vs = (vt, c2)" by fastforce
  have "marked (cx_reasons c1) \<subseteq> marked (cx_reasons c2)"
    using ctx_le_fields(5) [OF each_le [OF c1(2), of vs, unfolded v]] by simp
  moreover have "bits (union_all (cx_slot_count c) (kt @ vt)) = \<Union> (bits ` set kt) \<union> \<Union> (bits ` set vt)"
    using union_all_bits [of "kt @ vt" "cx_slot_count c"] each_lengths [OF wf, of ks] each_lengths [OF c1(2), of vs] k v c1(1)
    by auto
  moreover have "sound_list M \<sigma> c ks" using taint_each_sound [OF XMapLit.IH(1) XMapLit.prems] .
  moreover have "sound_list M \<sigma> c1 vs" using taint_each_sound [OF XMapLit.IH(2) c1(3)] .
  ultimately show ?case using k v by (auto simp: sound_def sound_list_def)
next
  case XOther
  then show ?case
    using tracks_wf [OF XOther] mark_le [of c "escape_taint_all (cx_slot_count c)" ESCAPE_REASON_UNCLASSIFIED]
    by (auto simp: sound_def Let_def)
next
  case (XStructLit es)
  show ?case by (rule literal_sound [OF taint_each_sound [OF XStructLit.IH XStructLit.prems] XStructLit.prems]) simp_all
next
  case (XSliceLit es)
  show ?case by (rule literal_sound [OF taint_each_sound [OF XSliceLit.IH XSliceLit.prems] XSliceLit.prems]) simp_all
next
  case (XArrayLit es)
  show ?case by (rule literal_sound [OF taint_each_sound [OF XArrayLit.IH XArrayLit.prems] XArrayLit.prems]) simp_all
qed (simp_all add: sound_def split_beta Let_def)

section \<open>Statements\<close>

text \<open>A walk keeps the context well formed and loses no mark, and without a change it keeps the environment.\<close>

definition steady :: "'o walk \<Rightarrow> 'o walk \<Rightarrow> bool" where
  "steady w w1 = (wf_ctx (snd w) \<and> good (cx_owner (snd w)) \<longrightarrow>
     wf_ctx (snd w1) \<and> good (cx_owner (snd w1)) \<and> cx_slot_count (snd w1) = cx_slot_count (snd w)
     \<and> marked (cx_reasons (snd w)) \<subseteq> marked (cx_reasons (snd w1)) \<and> (fst w \<longrightarrow> fst w1)
     \<and> (\<not> fst w1 \<longrightarrow> cx_env (snd w1) = cx_env (snd w)))"

text \<open>The actions keep the values within the environment of the context and the marks.\<close>

definition preserved :: "nat set \<Rightarrow> 'o ectx \<Rightarrow> atom \<Rightarrow> bool" where
  "preserved M c a = (\<forall>\<sigma> L \<sigma>' L'. tracks M \<sigma> c \<longrightarrow> L \<subseteq> M \<longrightarrow> act S own (\<sigma>, L) a (\<sigma>', L') \<longrightarrow> tracks M \<sigma>' c \<and> L' \<subseteq> M)"

definition covers :: "nat set \<Rightarrow> 'o ectx \<Rightarrow> atom list \<Rightarrow> bool" where
  "covers M c as = (\<forall>a \<in> set as. preserved M c a)"

definition covered :: "nat set \<Rightarrow> 'o walk \<Rightarrow> 'o walk \<Rightarrow> atom list \<Rightarrow> bool" where
  "covered M w w1 as = (steady w w1 \<and> (wf_ctx (snd w) \<longrightarrow> good (cx_owner (snd w)) \<longrightarrow> \<not> fst w1 \<longrightarrow>
     marked (cx_reasons (snd w1)) \<subseteq> M \<longrightarrow> covers M (snd w) as))"

lemma steady_refl [simp]: "steady w w"
  by (simp add: steady_def)

lemma steady_trans: "steady w w1 \<Longrightarrow> steady w1 w2 \<Longrightarrow> steady w w2"
  by (auto simp: steady_def)

lemma steady_le: "ctx_le c c1 \<Longrightarrow> steady (ch, c) (ch, c1)"
  using ctx_le_fields [of c c1] by (auto simp: steady_def)

lemma covers_append [simp]: "covers M c (as @ bs) = (covers M c as \<and> covers M c bs)"
  by (auto simp: covers_def)

lemma covers_Nil [simp]: "covers M c []"
  by (simp add: covers_def)

lemma covered_Nil: "steady w w1 \<Longrightarrow> covered M w w1 []"
  by (simp add: covered_def)

lemma tracks_same:
  "cx_env c1 = cx_env c \<Longrightarrow> cx_slot_count c1 = cx_slot_count c \<Longrightarrow> wf_ctx c1 = wf_ctx c \<Longrightarrow>
   good (cx_owner c1) = good (cx_owner c) \<Longrightarrow> tracks M \<sigma> c1 = tracks M \<sigma> c"
  by (simp add: tracks_def)

lemma covered_trans:
  assumes "covered M w w1 as" "steady w1 w2" "\<not> fst w1 \<Longrightarrow> covered M w1 w2 bs"
  shows "covered M w w2 (as @ bs)"
proof -
  have st: "steady w w1" using assms(1) by (simp add: covered_def)
  { assume w: "wf_ctx (snd w)" "good (cx_owner (snd w))" "\<not> fst w2" "marked (cx_reasons (snd w2)) \<subseteq> M"
    note s1 = st [unfolded steady_def, rule_format, OF conjI [OF w(1,2)]]
    have w1: "wf_ctx (snd w1)" "good (cx_owner (snd w1))" using s1 by auto
    note s2 = assms(2) [unfolded steady_def, rule_format, OF conjI [OF w1]]
    have n1: "\<not> fst w1" using s2 w(3) by auto
    have m1: "marked (cx_reasons (snd w1)) \<subseteq> M" using s2 w(4) by (meson subset_trans)
    have "covers M (snd w) as" using assms(1) w(1,2) m1 n1 by (simp add: covered_def)
    moreover have "covers M (snd w1) bs" using assms(3) [OF n1] w1 w(3,4) by (simp add: covered_def)
    moreover have "tracks M \<sigma> (snd w1) = tracks M \<sigma> (snd w)" for \<sigma>
      using s1 n1 w(1,2) by (intro tracks_same) simp_all
    then have "preserved M (snd w1) = preserved M (snd w)" by (simp add: preserved_def fun_eq_iff)
    ultimately have "covers M (snd w) (as @ bs)" by (auto simp: covers_def) }
  then show ?thesis using steady_trans [OF st assms(2)] by (auto simp: covered_def)
qed

lemma covered_seq: "covered M w w1 as \<Longrightarrow> covered M w1 w2 bs \<Longrightarrow> covered M w w2 (as @ bs)"
  by (rule covered_trans) (simp_all add: covered_def)

text \<open>A taint that bounds the values of some expressions.\<close>

definition bounds :: "nat set \<Rightarrow> 'o ectx \<Rightarrow> eexpr list \<Rightarrow> taint \<Rightarrow> bool" where
  "bounds M c es t = (length t = cx_slot_count c \<and> (marked (cx_reasons c) \<subseteq> M \<longrightarrow>
     (\<forall>\<sigma>. tracks M \<sigma> c \<longrightarrow> flows S \<sigma> es \<subseteq> bits t \<union> M \<and> leaks S \<sigma> es \<subseteq> M)))"

lemma bounds_steady:
  assumes "bounds M c es t" "steady (ch, c) (ch1, c1)" "\<not> ch1" "wf_ctx c" "good (cx_owner c)"
  shows "bounds M c1 es t"
  using assms tracks_same [of c1 c M] by (auto simp: bounds_def steady_def)

lemma eval_covered: "covered M (ch, c) (taint_discard H (ch, c) e) [Eval e]"
proof -
  have "wf_ctx c \<Longrightarrow> ctx_le c (snd (escape_expr_taint H c e))" using expr_framed [of c H e] by (simp add: framed_def)
  then have "steady (ch, c) (taint_discard H (ch, c) e)"
    using steady_le by (auto simp: steady_def taint_discard_def)
  moreover have "preserved M c (Eval e)" if "marked (cx_reasons (snd (escape_expr_taint H c e))) \<subseteq> M"
    using expr_sound [of M _ c e] that by (auto simp: preserved_def sound_def elim!: act_evalE)
  ultimately show ?thesis by (simp add: covered_def covers_def taint_discard_def)
qed

lemma discard_covered: "covered M w (taint_discard H w e) [Eval e]"
  using eval_covered by (cases w) simp

lemma discards_covered: "covered M w (foldl (taint_discard H) w es) (map Eval es)"
proof (induction es arbitrary: w)
  case (Cons e es)
  show ?case using covered_seq [OF discard_covered Cons.IH] by simp
qed (simp add: covered_Nil)

lemma combined_bounds:
  assumes "combined_taint H c es = (t, c1)" "wf_ctx c" "good (cx_owner c)"
  shows "covered M (ch, c) (ch, c1) (map Eval es)" "bounds M c1 es t" "wf_ctx c1" "good (cx_owner c1)"
proof -
  note le = each_le [OF assms(2), of es] and ln = each_lengths [OF assms(2), of es]
  have c1: "c1 = snd (taint_each H c es)" "t = union_all (cx_slot_count c) (fst (taint_each H c es))"
    using assms(1) by (auto simp: combined_taint_def split_beta Let_def)
  have leaks: "leak S \<sigma> e \<subseteq> leaks S \<sigma> es" if "e \<in> set es" for \<sigma> e using that by (induction es) auto
  have sl: "sound_list M \<sigma> c es" if "tracks M \<sigma> c" for \<sigma>
    using taint_each_sound [OF _ that] expr_sound by blast
  note c1_fields = ctx_le_fields [OF le]
  show wf: "wf_ctx c1" "good (cx_owner c1)" using c1_fields assms c1 by auto
  have tr: "tracks M \<sigma> c1 = tracks M \<sigma> c" for \<sigma>
    using c1_fields(1,2) assms(2,3) wf by (intro tracks_same) (simp_all add: c1(1))
  show "covered M (ch, c) (ch, c1) (map Eval es)"
  proof -
    have "leak S \<sigma> e \<subseteq> M" if "e \<in> set es" "marked (cx_reasons c1) \<subseteq> M" "tracks M \<sigma> c" for e \<sigma>
      using sl [OF that(3)] leaks [OF that(1), of \<sigma>] that(2) by (auto simp: sound_list_def c1(1))
    then have "preserved M c (Eval e)" if "e \<in> set es" "marked (cx_reasons c1) \<subseteq> M" for e
      using that by (fastforce simp: preserved_def elim!: act_evalE)
    then show ?thesis using steady_le [OF le] c1 by (auto simp: covered_def covers_def)
  qed
  show "bounds M c1 es t" using sl union_all_bits [OF ln] c1 c1_fields(2)
    by (auto simp: bounds_def sound_list_def tr [unfolded c1(1)])
qed

lemma tracks_bind:
  assumes "tracks M \<sigma> c" "escape_env_find (cx_env c) x = Some u" "V \<subseteq> bits u \<union> M"
  shows "tracks M (\<sigma>(x := V)) c"
  using assms by (auto simp: tracks_def)

lemma env_union_steady:
  assumes "wf_ctx c" "good (cx_owner c)" "length t = cx_slot_count c"
  shows "steady (ch, c) (ch \<or> fst (env_union c x t), snd (env_union c x t))"
    and "\<not> fst (env_union c x t) \<Longrightarrow> \<exists>u. escape_env_find (cx_env c) x = Some u \<and> bits t \<subseteq> bits u"
  using assms env_add_wf [of "cx_slot_count c" "cx_env c" t x] env_add_unchanged [of "cx_slot_count c" "cx_env c" t x]
  by (auto simp: steady_def env_union_def split_beta Let_def wf_ctx_def)

lemma bind_name_union:
  assumes "good (cx_owner c)" "x \<noteq> ''_''"
  obtains o1 where "good o1" "bind_name H (ch, c) x t =
    (ch \<or> fst (env_union c x (own_taint own x t)), (snd (env_union c x (own_taint own x t)))\<lparr>cx_owner := o1\<rparr>)"
  using binds [OF assms(1), of x t] assms(2) by (auto simp: bind_name_def)

lemma owner_steady: "steady w (ch, c) \<Longrightarrow> good o1 \<Longrightarrow> steady w (ch, c\<lparr>cx_owner := o1\<rparr>)"
  by (auto simp: steady_def wf_ctx_def)

lemma bind_steps:
  assumes "wf_ctx c" "good (cx_owner c)" "length t = cx_slot_count c" "x \<noteq> ''_''"
  shows "steady (ch, c) (bind_name H (ch, c) x t)"
    and "\<not> fst (bind_name H (ch, c) x t) \<Longrightarrow> \<exists>u. escape_env_find (cx_env c) x = Some u \<and> bits (own_taint own x t) \<subseteq> bits u"
proof -
  have len: "length (own_taint own x t) = cx_slot_count c" using assms(3) by simp
  note eu = env_union_steady [OF assms(1,2) len]
  obtain o1 where o1: "good o1" "bind_name H (ch, c) x t =
      (ch \<or> fst (env_union c x (own_taint own x t)), (snd (env_union c x (own_taint own x t)))\<lparr>cx_owner := o1\<rparr>)"
    using bind_name_union [OF assms(2,4)] by metis
  show "steady (ch, c) (bind_name H (ch, c) x t)" using owner_steady [OF eu(1) o1(1)] o1(2) by simp
  show "\<not> fst (bind_name H (ch, c) x t) \<Longrightarrow> \<exists>u. escape_env_find (cx_env c) x = Some u \<and> bits (own_taint own x t) \<subseteq> bits u"
    using eu(2) o1(2) by simp
qed

lemma own_tracks: "tracks M \<sigma> c \<Longrightarrow> length t = cx_slot_count c \<Longrightarrow> own_slot own x \<subseteq> bits (own_taint own x t)"
  using bits_own(2) [of own x t] own_bound [of x] by (auto simp: tracks_def)

lemma bind_covered:
  assumes "bounds M c es t" "wf_ctx c" "good (cx_owner c)"
  shows "covered M (ch, c) (bind_name H (ch, c) x t) (bind_atoms (Some x) es)"
proof (cases "x = ''_''")
  case True
  then show ?thesis by (simp add: bind_name_def bind_atoms_def covered_Nil)
next
  case False
  have len: "length t = cx_slot_count c" using assms(1) by (simp add: bounds_def)
  note st = bind_steps [OF assms(2,3) len False, of ch]
  have "preserved M c (Bind x es)"
    if nc: "\<not> fst (bind_name H (ch, c) x t)" and m: "marked (cx_reasons (snd (bind_name H (ch, c) x t))) \<subseteq> M"
  proof -
    obtain u where u: "escape_env_find (cx_env c) x = Some u" "bits (own_taint own x t) \<subseteq> bits u" using st(2) nc by blast
    have m0: "marked (cx_reasons c) \<subseteq> M" using st(1) m assms(2,3) by (auto simp: steady_def)
    have "V \<union> own_slot own x \<subseteq> bits u \<union> M" if "tracks M \<sigma> c" "L \<subseteq> M" "V \<subseteq> flows S \<sigma> es \<union> L" for \<sigma> L V
      using assms(1) m0 that own_tracks [OF that(1) len, of x] u(2) bits_own(1) [of t own x] unfolding bounds_def by blast
    then show ?thesis using tracks_bind [OF _ u(1)] by (auto simp: preserved_def elim!: act_bindE)
  qed
  then show ?thesis using False st(1) by (simp add: covered_def covers_def bind_atoms_def)
qed

lemma key_covered:
  assumes "wf_ctx c" "good (cx_owner c)"
  shows "covered M (ch, c) (bind_opt H (ch, c) x (escape_taint_new (cx_slot_count c))) (key_atoms x)"
proof (cases "x = None \<or> x = Some ''_''")
  case True
  then show ?thesis by (auto simp: bind_name_def bind_opt_def key_atoms_def covered_Nil)
next
  case False
  then obtain n where n: "x = Some n" "n \<noteq> ''_''" by auto
  let ?t = "escape_taint_new (cx_slot_count c)"
  note st = bind_steps [OF assms, of ?t n ch, simplified, OF n(2)]
  have "preserved M c (BindKey n)" if nc: "\<not> fst (bind_name H (ch, c) n ?t)"
  proof -
    obtain u where u: "escape_env_find (cx_env c) n = Some u" "bits (own_taint own n ?t) \<subseteq> bits u" using st(2) nc by blast
    have "V \<union> own_slot own n \<subseteq> bits u \<union> M" if "tracks M \<sigma> c" "L \<subseteq> M" "V \<subseteq> L" for \<sigma> L V
      using that own_tracks [OF that(1), of ?t n] u(2) by auto
    then show ?thesis using tracks_bind [OF _ u(1)] by (auto simp: preserved_def elim!: act_keyE)
  qed
  then show ?thesis using n st(1) by (simp add: covered_def covers_def key_atoms_def bind_opt_def)
qed

lemma opt_covered:
  assumes "bounds M c es t" "wf_ctx c" "good (cx_owner c)"
  shows "covered M (ch, c) (bind_opt H (ch, c) x t) (bind_atoms x es)"
  using bind_covered [OF assms, of ch] by (cases x) (simp_all add: bind_opt_def bind_atoms_def covered_Nil)

text \<open>The same bound through a list of targets.\<close>

lemma fold_covered:
  assumes "\<And>ch c x. bounds M c es t \<Longrightarrow> wf_ctx c \<Longrightarrow> good (cx_owner c) \<Longrightarrow> covered M (ch, c) (f (ch, c) x) (g x)"
    and "\<And>ch c x. length t = cx_slot_count c \<Longrightarrow> steady (ch, c) (f (ch, c) x)"
    and "bounds M c es t" "wf_ctx c" "good (cx_owner c)"
  shows "covered M (ch, c) (foldl f (ch, c) xs) (concat (map g xs))"
  using assms(3-5)
proof (induction xs arbitrary: ch c)
  case (Cons x xs)
  obtain ch1 c1 where f: "f (ch, c) x = (ch1, c1)" by fastforce
  have cov: "covered M (ch, c) (ch1, c1) (g x)" using assms(1) [OF Cons.prems, of ch x] f by simp
  then have st: "steady (ch, c) (ch1, c1)" by (simp add: covered_def)
  then have w1: "wf_ctx c1" "good (cx_owner c1)" "cx_slot_count c1 = cx_slot_count c"
    using Cons.prems(2,3) by (auto simp: steady_def)
  have len: "length t = cx_slot_count c1" using Cons.prems(1) w1(3) by (simp add: bounds_def)
  have "steady (ch1, c1) (foldl f (ch1, c1) ys)" for ys
    using len w1(1,2)
  proof (induction ys arbitrary: ch1 c1)
    case (Cons y ys)
    obtain ch2 c2 where f2: "f (ch1, c1) y = (ch2, c2)" by fastforce
    have st2: "steady (ch1, c1) (ch2, c2)" using assms(2) [OF Cons.prems(1), of ch1 y] f2 by simp
    then have "steady (ch2, c2) (foldl f (ch2, c2) ys)" using Cons.prems by (intro Cons.IH) (auto simp: steady_def)
    then show ?case using steady_trans [OF st2] f2 by simp
  qed simp
  moreover have "covered M (ch1, c1) (foldl f (ch1, c1) xs) (concat (map g xs))" if "\<not> ch1"
    using Cons.IH [OF bounds_steady [OF Cons.prems(1) st that Cons.prems(2,3)] w1(1,2)] .
  ultimately show ?case using covered_trans [OF cov, of "foldl f (ch1, c1) xs"] f by simp
qed (simp add: covered_Nil)

text \<open>Marking the values of expressions one after the other.\<close>

lemma mark_taint_le:
  assumes "wf_ctx c" "escape_expr_taint H c e = (t, c1)"
  shows "ctx_le c (escape_mark c1 t why)" "wf_ctx (escape_mark c1 t why)"
    and "tracks M \<sigma> c \<Longrightarrow> marked (cx_reasons (escape_mark c1 t why)) \<subseteq> M \<Longrightarrow> flow S \<sigma> e \<subseteq> M \<and> leak S \<sigma> e \<subseteq> M"
proof -
  note f = framedD [OF expr_framed [OF assms(1), of H e, unfolded assms(2)] assms(1)]
  have len: "length t = cx_slot_count c1" using f(2,4) by simp
  note m = mark_le [OF f(3) len, of why]
  show "ctx_le c (escape_mark c1 t why)" using ctx_le_trans [OF f(1)] m by blast
  then show "wf_ctx (escape_mark c1 t why)" using ctx_le_fields(4) assms(1) by blast
  show "tracks M \<sigma> c \<Longrightarrow> marked (cx_reasons (escape_mark c1 t why)) \<subseteq> M \<Longrightarrow> flow S \<sigma> e \<subseteq> M \<and> leak S \<sigma> e \<subseteq> M"
    using expr_sound [of M \<sigma> c e] assms(2) m ctx_le_fields(5) [of c1 "escape_mark c1 t why"] by (auto simp: sound_def)
qed

lemma mark_each_le: "wf_ctx c \<Longrightarrow> ctx_le c (mark_each why H c es)"
proof (induction es arbitrary: c)
  case (Cons e es)
  obtain t c1 where t: "escape_expr_taint H c e = (t, c1)" by fastforce
  note m = mark_taint_le(1,2) [OF Cons.prems t, of why]
  show ?case using ctx_le_trans [OF m(1) Cons.IH [OF m(2)]] t by simp
qed simp

lemma mark_each_lost:
  "tracks M \<sigma> c \<Longrightarrow> marked (cx_reasons (mark_each why H c es)) \<subseteq> M \<Longrightarrow> flows S \<sigma> es \<subseteq> M \<and> leaks S \<sigma> es \<subseteq> M"
proof (induction es arbitrary: c)
  case (Cons e es)
  have wf: "wf_ctx c" using tracks_wf [OF Cons.prems(1)] by simp
  obtain t c1 where t: "escape_expr_taint H c e = (t, c1)" by fastforce
  note m = mark_taint_le(1,2) [OF wf t, of why]
  have "marked (cx_reasons (mark_each why H (escape_mark c1 t why) es)) \<subseteq> M" using Cons.prems(2) t by simp
  then show ?case
    using mark_taint_le(3) [OF wf t Cons.prems(1), of why] Cons.IH [OF tracks_le [OF Cons.prems(1) m(1)]]
      ctx_le_fields(5) [OF mark_each_le [OF m(2), of why es]] by auto
qed simp

lemma lose_covered: "covered M (ch, c) (ch, mark_each why H c es) [Lose es]"
proof -
  have "steady (ch, c) (ch, mark_each why H c es)"
    using mark_each_le [of c why es] steady_le by (auto simp: steady_def)
  then show ?thesis using mark_each_lost [of M _ c why es]
    by (auto simp: covered_def covers_def preserved_def elim!: act_loseE)
qed

lemma go_covered: "covered M w (fst w, handle_go_call H (snd w) call why) (call_atoms call)"
  by (cases w; cases call) (simp_all add: handle_go_call_def call_atoms_def lose_covered del: mark_each.simps)

text \<open>Stores.\<close>

lemma subscripts_le: "wf_ctx c \<Longrightarrow> ctx_le c (mark_lvalue_subscripts H c lhs)"
proof (induction lhs arbitrary: c rule: subscripts.induct)
  case (1 e i)
  obtain t c1 where t: "escape_expr_taint H c i = (t, c1)" by fastforce
  note m = mark_taint_le(1,2) [OF 1(2) t, of ESCAPE_REASON_SUBSCRIPT_STORE]
  show ?case using ctx_le_trans [OF m(1) 1(1) [OF m(2)]] t by simp
qed simp_all

lemma subscripts_lost:
  "tracks M \<sigma> c \<Longrightarrow> marked (cx_reasons (mark_lvalue_subscripts H c lhs)) \<subseteq> M \<Longrightarrow>
   flows S \<sigma> (subscripts lhs) \<subseteq> M \<and> leaks S \<sigma> (subscripts lhs) \<subseteq> M"
proof (induction lhs arbitrary: c rule: subscripts.induct)
  case (1 e i)
  have wf: "wf_ctx c" using tracks_wf [OF 1(2)] by simp
  obtain t c1 where t: "escape_expr_taint H c i = (t, c1)" by fastforce
  note m = mark_taint_le(1,2) [OF wf t, of ESCAPE_REASON_SUBSCRIPT_STORE]
  have "marked (cx_reasons (mark_lvalue_subscripts H (escape_mark c1 t ESCAPE_REASON_SUBSCRIPT_STORE) e)) \<subseteq> M"
    using 1(3) t by simp
  then show ?case
    using mark_taint_le(3) [OF wf t 1(2), of ESCAPE_REASON_SUBSCRIPT_STORE] 1(1) [OF tracks_le [OF 1(2) m(1)]]
      ctx_le_fields(5) [OF subscripts_le [OF m(2), of e]] by auto
qed simp_all

definition stored_taint :: "'o ectx \<Rightarrow> eexpr \<Rightarrow> taint \<Rightarrow> taint" where
  "stored_taint c lhs t = (case self_store_base c lhs of None \<Rightarrow> t | Some base \<Rightarrow> taint_minus t base)"

definition store_ctx :: "'o ectx \<Rightarrow> eexpr \<Rightarrow> taint \<Rightarrow> 'o ectx" where
  "store_ctx c lhs t = mark_lvalue_subscripts H (escape_mark c (stored_taint c lhs t) ESCAPE_REASON_CONTAINER_STORE) lhs"

lemma store_marks:
  assumes "wf_ctx c" "length t = cx_slot_count c"
  shows "ctx_le c (store_ctx c lhs t)"
    and "marked (cx_reasons (store_ctx c lhs t)) \<subseteq> M \<Longrightarrow> bits (stored_taint c lhs t) \<subseteq> M"
    and "tracks M \<sigma> c \<Longrightarrow> marked (cx_reasons (store_ctx c lhs t)) \<subseteq> M \<Longrightarrow>
      flows S \<sigma> (subscripts lhs) \<subseteq> M \<and> leaks S \<sigma> (subscripts lhs) \<subseteq> M"
proof -
  have "length (stored_taint c lhs t) = cx_slot_count c" using assms by (simp add: stored_taint_def split: option.split)
  note m = mark_le [OF assms(1) this, of ESCAPE_REASON_CONTAINER_STORE]
  note le = subscripts_le [OF ctx_le_fields(4) [OF conjunct1 [OF m] assms(1)], of lhs]
  show "ctx_le c (store_ctx c lhs t)" using ctx_le_trans [OF conjunct1 [OF m] le] by (simp add: store_ctx_def)
  show "marked (cx_reasons (store_ctx c lhs t)) \<subseteq> M \<Longrightarrow> bits (stored_taint c lhs t) \<subseteq> M"
    using m ctx_le_fields(5) [OF le] by (auto simp: store_ctx_def)
  show "tracks M \<sigma> c \<Longrightarrow> marked (cx_reasons (store_ctx c lhs t)) \<subseteq> M \<Longrightarrow>
      flows S \<sigma> (subscripts lhs) \<subseteq> M \<and> leaks S \<sigma> (subscripts lhs) \<subseteq> M"
    using subscripts_lost [OF tracks_le [OF _ conjunct1 [OF m]]] by (simp add: store_ctx_def)
qed

lemma assign_store: "(\<And>x. lhs \<noteq> XIdent x) \<Longrightarrow> lhs \<noteq> XNull \<Longrightarrow> assign_to_lvalue H (ch, c) lhs t = (ch, store_ctx c lhs t)"
  by (cases lhs) (auto simp: assign_to_lvalue_def store_ctx_def stored_taint_def Let_def)

lemma assign_steady:
  assumes "length t = cx_slot_count c"
  shows "steady (ch, c) (assign_to_lvalue H (ch, c) lhs t)"
proof (cases "wf_ctx c \<and> good (cx_owner c)")
  case True
  show ?thesis
  proof (cases lhs)
    case XNull
    then show ?thesis using steady_le mark_le [of c t] True assms by (simp add: assign_to_lvalue_def)
  next
    case (XIdent x)
    then show ?thesis using env_union_steady(1) [of c t ch x] steady_le mark_le [of c t] True assms
      by (auto simp: assign_to_lvalue_def split_beta Let_def)
  qed (use steady_le store_marks(1) [of c t lhs] assign_store [of lhs ch c t] True assms in auto)
qed (auto simp: steady_def)

lemma assign_covered:
  assumes "bounds M c es t" "wf_ctx c" "good (cx_owner c)"
  shows "covered M (ch, c) (assign_to_lvalue H (ch, c) lhs t) [Assign lhs es]"
proof -
  have len: "length t = cx_slot_count c" using assms(1) by (simp add: bounds_def)
  let ?w = "assign_to_lvalue H (ch, c) lhs t"
  have st: "steady (ch, c) ?w" using assign_steady [OF len] .
  have "preserved M c (Assign lhs es)" if nc: "\<not> fst ?w" and m: "marked (cx_reasons (snd ?w)) \<subseteq> M"
  proof -
    have m0: "marked (cx_reasons c) \<subseteq> M" using st m assms(2,3) by (auto simp: steady_def)
    have fl: "flows S \<sigma> es \<subseteq> bits t \<union> M" if "tracks M \<sigma> c" for \<sigma> using assms(1) m0 that by (auto simp: bounds_def)
    show ?thesis unfolding preserved_def
    proof (intro allI impI)
      fix \<sigma> L \<sigma>' L' assume tr: "tracks M \<sigma> c" and L: "L \<subseteq> M" and a: "act S own (\<sigma>, L) (Assign lhs es) (\<sigma>', L')"
      from a show "tracks M \<sigma>' c \<and> L' \<subseteq> M"
      proof (cases rule: act_assignE [consumes 1, case_names blank local global element store])
        case blank
        then show ?thesis using tr L by simp
      next
        case (local x V)
        obtain u where u: "escape_env_find (cx_env c) x = Some u" using tracks_local [OF tr local(4)] by blast
        have "bits t \<subseteq> bits u"
          using env_union_steady(2) [OF assms(2,3) len, of x] nc u local(1,3) by (auto simp: assign_to_lvalue_def split_beta Let_def)
        then show ?thesis using local tracks_bind [OF tr u, of V] fl [OF tr] L by auto
      next
        case (global x)
        then have "escape_env_find (cx_env c) x = None" using tr by (auto simp: tracks_def)
        then have "bits t \<subseteq> M" using m global(1,3) mark_le [OF assms(2) len, of ESCAPE_REASON_GLOBAL_STORE] by (auto simp: assign_to_lvalue_def)
        then show ?thesis using global tr L fl [OF tr] by auto
      next
        case (element x V i)
        obtain u where u: "escape_env_find (cx_env c) x = Some u" using tracks_local [OF tr element(3)] by blast
        have lu: "length u = length t" using env_find_wf [OF _ u] assms(2) len by (simp add: wf_ctx_def)
        have w: "?w = (ch, store_ctx c lhs t)" using element(1) by (intro assign_store) auto
        have "bits t - bits u \<subseteq> M"
          using store_marks(2) [OF assms(2) len, of lhs M] m w element(1) u lu
          by (simp add: stored_taint_def self_store_base_def bits_minus)
        then have "V \<subseteq> bits u \<union> M" using element(4) fl [OF tr] L by blast
        then show ?thesis
          using element tracks_bind [OF tr u, of "\<sigma> x \<union> V"] tracks_env [OF tr u] L store_marks(3) [OF assms(2) len tr, of lhs] m w by auto
      next
        case store
        have "bits t \<subseteq> M \<and> flows S \<sigma> (subscripts lhs) \<subseteq> M \<and> leaks S \<sigma> (subscripts lhs) \<subseteq> M"
        proof (cases "lhs = XNull")
          case True
          then show ?thesis using m mark_le [OF assms(2) len, of ESCAPE_REASON_UNCLASSIFIED] by (auto simp: assign_to_lvalue_def)
        next
          case False
          have w: "?w = (ch, store_ctx c lhs t)" using store(2) False by (intro assign_store) auto
          have "self_store_base c lhs = None" using store(3) tr
            by (auto simp: self_store_base_def tracks_def split: eexpr.split)
          then show ?thesis using store_marks(2) [OF assms(2) len, of lhs M] store_marks(3) [OF assms(2) len tr, of lhs] m w
            by (simp add: stored_taint_def)
        qed
        then show ?thesis using store tr L fl [OF tr] by auto
      qed
    qed
  qed
  then show ?thesis using st by (simp add: covered_def covers_def)
qed

text \<open>Declarations, assignments and returns.\<close>

lemma covered_vacuous: "\<not> (wf_ctx c \<and> good (cx_owner c)) \<Longrightarrow> covered M (ch, c) w as"
  by (auto simp: covered_def steady_def)

lemma bind_name_steady: "length t = cx_slot_count c \<Longrightarrow> steady (ch, c) (bind_name H (ch, c) x t)"
  using bind_steps(1) [of c t x ch] by (cases "x = ''_''") (auto simp: steady_def bind_name_def)

lemma decl_covered: "covered M w (escape_seed_names_from_values H w names es) (decl_atoms names es)"
proof -
  obtain ch c where w: "w = (ch, c)" by fastforce
  obtain t c1 where t: "combined_taint H c es = (t, c1)" by fastforce
  { assume wf: "wf_ctx c" "good (cx_owner c)"
    note cb = combined_bounds [OF t wf]
    have "covered M (ch, c1) (foldl (\<lambda>w x. bind_name H w x t) (ch, c1) names) (concat (map (\<lambda>x. bind_atoms (Some x) es) names))"
      by (rule fold_covered [OF bind_covered _ cb(2-4)]) (simp_all add: bind_name_steady)
    then have ?thesis using covered_seq [OF cb(1)] w t by (simp add: decl_atoms_def escape_seed_names_from_values_def) }
  then show ?thesis using covered_vacuous [of c M ch] w by blast
qed

lemma multi_covered: "covered M w (walk_multi_assign H w targets es sh) (multi_atoms targets es sh)"
proof -
  obtain ch c where w: "w = (ch, c)" by fastforce
  obtain t c1 where t: "combined_taint H c es = (t, c1)" by fastforce
  let ?f = "\<lambda>w tgt. if sh then (case tgt of XIdent name \<Rightarrow> bind_name H w name t
       | _ \<Rightarrow> (fst w, escape_mark (snd w) t ESCAPE_REASON_UNCLASSIFIED)) else assign_to_lvalue H w tgt t"
  let ?g = "\<lambda>tgt. if sh then (case tgt of XIdent n \<Rightarrow> bind_atoms (Some n) es | _ \<Rightarrow> [Lose es]) else [Assign tgt es]"
  have mark: "steady (ch, c) (ch, escape_mark c t ESCAPE_REASON_UNCLASSIFIED)" if "length t = cx_slot_count c" for ch c
    using steady_le mark_le [OF _ that] by (auto simp: steady_def)
  have lose: "covered M (ch, c) (ch, escape_mark c t ESCAPE_REASON_UNCLASSIFIED) [Lose es]"
    if b: "bounds M c es t" "wf_ctx c" for ch c
  proof -
    have len: "length t = cx_slot_count c" using b(1) by (simp add: bounds_def)
    note m = mark_le [OF b(2) len, of ESCAPE_REASON_UNCLASSIFIED]
    have "preserved M c (Lose es)" if "marked (cx_reasons (escape_mark c t ESCAPE_REASON_UNCLASSIFIED)) \<subseteq> M"
    proof -
      have "bits t \<subseteq> M" "marked (cx_reasons c) \<subseteq> M" using m ctx_le_fields(5) [OF conjunct1 [OF m]] that by auto
      then have "flows S \<sigma> es \<subseteq> M \<and> leaks S \<sigma> es \<subseteq> M" if "tracks M \<sigma> c" for \<sigma> using b(1) that unfolding bounds_def by blast
      then show ?thesis by (auto simp: preserved_def elim!: act_loseE)
    qed
    then show ?thesis using mark [OF len, of ch] by (simp add: covered_def covers_def)
  qed
  { assume wf: "wf_ctx c" "good (cx_owner c)"
    note cb = combined_bounds [OF t wf]
    have "covered M (ch, c1) (foldl ?f (ch, c1) targets) (concat (map ?g targets))"
    proof (rule fold_covered [OF _ _ cb(2-4)])
      show "covered M (ch, c) (?f (ch, c) x) (?g x)" if "bounds M c es t" "wf_ctx c" "good (cx_owner c)" for ch c x
        using bind_covered [OF that] assign_covered [OF that] lose [OF that(1,2)] by (cases x) simp_all
      show "steady (ch, c) (?f (ch, c) x)" if "length t = cx_slot_count c" for ch c x
        using bind_name_steady [OF that] assign_steady [OF that] mark [OF that] by (cases x) simp_all
    qed
    then have ?thesis using covered_seq [OF cb(1)] w t by (simp add: multi_atoms_def walk_multi_assign_def) }
  then show ?thesis using covered_vacuous [of c M ch] w by blast
qed

lemma expr_bounds:
  assumes "escape_expr_taint H c e = (t, c1)" "wf_ctx c" "good (cx_owner c)"
  shows "covered M (ch, c) (ch, c1) [Eval e]" "bounds M c1 [e] t" "wf_ctx c1" "good (cx_owner c1)"
    "cx_slot_count c1 = cx_slot_count c"
proof -
  note f = framedD [OF expr_framed [OF assms(2), of H e, unfolded assms(1)] assms(2)]
  show "covered M (ch, c) (ch, c1) [Eval e]" using eval_covered [of M ch c e] assms(1) by (simp add: taint_discard_def)
  show "wf_ctx c1" "good (cx_owner c1)" "cx_slot_count c1 = cx_slot_count c" using f ctx_le_fields(3) [OF f(1)] assms(3) by auto
  then have "tracks M \<sigma> c1 = tracks M \<sigma> c" for \<sigma>
    using ctx_le_fields(1,2) [OF f(1)] assms(2,3) by (intro tracks_same) simp_all
  then show "bounds M c1 [e] t" using expr_sound [of M _ c e] assms(1) f(2,4) by (auto simp: bounds_def sound_def)
qed

lemma expr_stmt_covered: "covered M w (escape_walk_expr_stmt H w e) (expr_atoms e)"
proof -
  obtain ch c where w: "w = (ch, c)" by fastforce
  have assign: "covered M (ch, c) (let (rhs, c1) = escape_expr_taint H c r in assign_to_lvalue H (ch, c1) l rhs) [Eval r, Assign l [r]]"
    for l r
  proof -
    obtain t c1 where t: "escape_expr_taint H c r = (t, c1)" by fastforce
    show ?thesis
    proof (cases "wf_ctx c \<and> good (cx_owner c)")
      case True
      note b = expr_bounds [OF t conjunct1 [OF True] conjunct2 [OF True]]
      show ?thesis using covered_seq [OF b(1) assign_covered [OF b(2-4), where ch = ch and lhs = l]] t by simp
    qed (rule covered_vacuous)
  qed
  have send: "covered M (ch, c) (ch, mark_each ESCAPE_REASON_CHAN_SEND H (snd (escape_expr_taint H c l)) [r]) [Eval l, Eval r, Lose [r]]"
    for l r
  proof -
    have l: "covered M (ch, c) (ch, snd (escape_expr_taint H c l)) [Eval l]"
      using eval_covered [of M ch c l] by (simp add: taint_discard_def)
    have r: "covered M (ch, c1) (ch, mark_each ESCAPE_REASON_CHAN_SEND H c1 [r]) [Eval r, Lose [r]]" for c1
    proof -
      have "preserved M c1 (Eval r)" if "marked (cx_reasons (mark_each ESCAPE_REASON_CHAN_SEND H c1 [r])) \<subseteq> M"
        using mark_each_lost [OF _ that] by (fastforce simp: preserved_def elim!: act_evalE)
      then show ?thesis using lose_covered [of M ch c1 ESCAPE_REASON_CHAN_SEND "[r]"]
        by (simp add: covered_def covers_def del: mark_each.simps)
    qed
    show ?thesis using covered_seq [OF l r] by (simp del: mark_each.simps)
  qed
  show ?thesis using assign send eval_covered [of M ch c e]
    by (cases e) (simp_all add: escape_walk_expr_stmt_def expr_atoms_def w del: mark_each.simps)
qed

lemma steady_flag: "steady (False, c) (False, c1) \<Longrightarrow> steady (ch, c) (ch, c1)"
  by (simp add: steady_def)

lemma return_step:
  assumes "wf_ctx c" "good (cx_owner c)"
  shows "steady (False, c) (False, walk_return H c [v])"
    and "tracks M \<sigma> c \<Longrightarrow> marked (cx_reasons (walk_return H c [v])) \<subseteq> M \<Longrightarrow> flow S \<sigma> v \<subseteq> M \<and> leak S \<sigma> v \<subseteq> M"
proof -
  obtain t c1 where t: "escape_expr_taint H c v = (t, c1)" by fastforce
  let ?c2 = "escape_mark c1 t ESCAPE_REASON_RETURN"
  note m = mark_taint_le [OF assms(1) t, where why = ESCAPE_REASON_RETURN]
  have "good (cx_owner ?c2)" using ctx_le_fields(3) [OF m(1)] assms(2) by simp
  then obtain o1 where o1: "good o1" "walk_return H c [v] = ?c2\<lparr>cx_owner := o1\<rparr>"
    using t on_returns [of ?c2 _ t] by (cases "hk_on_return H") (fastforce simp: walk_return_def)+
  then show "steady (False, c) (False, walk_return H c [v])"
    using m(2) ctx_le_fields [OF m(1)] assms by (auto simp: steady_def wf_ctx_def)
  show "tracks M \<sigma> c \<Longrightarrow> marked (cx_reasons (walk_return H c [v])) \<subseteq> M \<Longrightarrow> flow S \<sigma> v \<subseteq> M \<and> leak S \<sigma> v \<subseteq> M"
    using m(3) o1(2) by simp
qed

lemma walk_return_Cons: "walk_return H c (v # es) = walk_return H (walk_return H c [v]) es"
  by (simp add: walk_return_def)

lemma return_lost:
  assumes "wf_ctx c" "good (cx_owner c)"
  shows "steady (False, c) (False, walk_return H c es)
    \<and> (tracks M \<sigma> c \<longrightarrow> marked (cx_reasons (walk_return H c es)) \<subseteq> M \<longrightarrow> flows S \<sigma> es \<subseteq> M \<and> leaks S \<sigma> es \<subseteq> M)"
  using assms
proof (induction es arbitrary: c)
  case (Cons v es)
  let ?c1 = "walk_return H c [v]"
  note st = return_step(1) [OF Cons.prems, of v]
  have c1: "wf_ctx ?c1" "good (cx_owner ?c1)" "tracks M \<sigma> ?c1 = tracks M \<sigma> c"
    using st Cons.prems by (auto simp: steady_def tracks_def)
  note ih = Cons.IH [OF c1(1,2)]
  have "marked (cx_reasons ?c1) \<subseteq> marked (cx_reasons (walk_return H ?c1 es))"
    using ih c1(1,2) by (auto simp: steady_def)
  then show ?case using steady_trans [OF st] ih return_step(2) [OF Cons.prems, of M \<sigma> v] c1(3)
    by (auto simp: walk_return_Cons [of c v es])
qed (simp add: walk_return_def)

lemma return_covered: "covered M (ch, c) (ch, walk_return H c es) (map Eval es @ [Lose es])"
proof (cases "wf_ctx c \<and> good (cx_owner c)")
  case True
  have leaks: "leak S \<sigma> e \<subseteq> leaks S \<sigma> es" if "e \<in> set es" for \<sigma> e using that by (induction es) auto
  note rl = return_lost [of c es M]
  have "preserved M c (Lose es)" "e \<in> set es \<Longrightarrow> preserved M c (Eval e)" if "marked (cx_reasons (walk_return H c es)) \<subseteq> M" for e
    using rl True that leaks [of e] by (fastforce simp: preserved_def elim!: act_loseE act_evalE)+
  then show ?thesis using steady_flag [of c "walk_return H c es" ch] rl True by (auto simp: covered_def covers_def)
qed (rule covered_vacuous)

lemma defer_covered:
  "covered M (ch, c) (ch, handle_defer_call H c call) (if hk_defer_is_like_go H then call_atoms call else [Eval call])"
  using go_covered [of M "(ch, c)" call ESCAPE_REASON_DEFER_ARG] eval_covered [of M ch c call]
  by (simp add: handle_defer_call_def taint_discard_def)

lemma other_covered: "covered M (ch, c) (ch, escape_mark_all c why) [Anything]"
proof (cases "wf_ctx c")
  case True
  note m = mark_all_le [OF True, of why]
  have "tracks M \<sigma>' c \<and> L' \<subseteq> M" if "marked (cx_reasons (escape_mark_all c why)) \<subseteq> M" "tracks M \<sigma> c"
    "L' \<subseteq> {..<um_slots S}" "\<And>x. \<sigma>' x \<subseteq> {..<um_slots S}" for \<sigma> \<sigma>' L'
  proof -
    have M: "{..<um_slots S} \<subseteq> M" using m that(1,2) by (simp add: tracks_def)
    have "\<sigma>' x \<subseteq> M" for x using that(4) [of x] M by blast
    then show ?thesis using that(2,3) M by (auto simp: tracks_def)
  qed
  then have "preserved M c Anything" if "marked (cx_reasons (escape_mark_all c why)) \<subseteq> M"
    using that by (auto simp: preserved_def elim!: act_anythingE)
  then show ?thesis using steady_le [OF conjunct1 [OF m]] by (simp add: covered_def covers_def)
qed (simp add: covered_vacuous)

end

end
