(* ===== verification/Escape_Walk.thy ===== *)
theory Escape_Walk
  imports Escape_Cover
begin

context escape_pass
begin

lemma covered_mono: "covered M w w1 as \<Longrightarrow> set bs \<subseteq> set as \<Longrightarrow> covered M w w1 bs"
  by (auto simp: covered_def covers_def)

lemma bind_after:
  assumes "escape_expr_taint H c e = (t, c1)"
  shows "covered M (ch, c) (bind_opt H (ch, c1) x t) ([Eval e] @ bind_atoms x [e])"
proof (cases "wf_ctx c \<and> good (cx_owner c)")
  case True
  note b = expr_bounds [OF assms conjunct1 [OF True] conjunct2 [OF True]]
  show ?thesis using covered_seq [OF b(1) opt_covered [OF b(2-4)]] .
qed (rule covered_vacuous)

lemma range_covered:
  assumes "escape_expr_taint H c e = (t, c1)"
  shows "covered M (ch, c) (bind_opt H (bind_opt H (ch, c1) k (escape_taint_new (cx_slot_count c))) v t)
    ([Eval e] @ key_atoms k @ bind_atoms v [e])"
proof (cases "wf_ctx c \<and> good (cx_owner c)")
  case True
  note b = expr_bounds [OF assms conjunct1 [OF True] conjunct2 [OF True]]
  obtain ch2 c2 where k: "bind_opt H (ch, c1) k (escape_taint_new (cx_slot_count c)) = (ch2, c2)" by fastforce
  have kc: "covered M (ch, c1) (ch2, c2) (key_atoms k)" using key_covered [OF b(3,4), of M ch k] b(5) k by simp
  then have st: "steady (ch, c1) (ch2, c2)" by (simp add: covered_def)
  then have c2: "wf_ctx c2" "good (cx_owner c2)" "cx_slot_count c2 = cx_slot_count c1" using b(3,4) by (auto simp: steady_def)
  have "length t = cx_slot_count c2" using b(2) c2(3) by (simp add: bounds_def)
  then have "steady (ch2, c2) (bind_opt H (ch2, c2) v t)"
    using bind_name_steady by (simp add: bind_opt_def split: option.split)
  moreover have "covered M (ch2, c2) (bind_opt H (ch2, c2) v t) (bind_atoms v [e])" if "\<not> ch2"
    using opt_covered [OF bounds_steady [OF b(2) st that b(3,4)] c2(1,2)] .
  ultimately have "covered M (ch, c1) (bind_opt H (ch2, c2) v t) (key_atoms k @ bind_atoms v [e])"
    using covered_trans [OF kc] by simp
  then show ?thesis using covered_seq [OF b(1)] k by simp
qed (rule covered_vacuous)

text \<open>A walk covers the actions of what it walks over.\<close>

lemma walk_covered:
  shows "g = hk_defer_is_like_go H \<Longrightarrow> covered M w (escape_walk_stmt H w ss) (atoms g ss)"
    and "g = hk_defer_is_like_go H \<Longrightarrow> covered M w (walk_one H w s) (atoms_one g s)"
    and "g = hk_defer_is_like_go H \<Longrightarrow> covered M w (walk_clauses kind H w cls) (atoms_clauses kind g cls)"
    and "g = hk_defer_is_like_go H \<Longrightarrow> covered M w (walk_clause H w cl) (atoms_clause g cl)"
proof (induction g ss and g s and kind g cls and g cl arbitrary: w and w and w and w
    rule: atoms_atoms_one_atoms_clauses_atoms_clause.induct)
  case (2 g s ss)
  show ?case using covered_seq [OF 2(1) [OF 2(3)] 2(2) [OF 2(3)]] by simp
next
  case (5 g e th el)
  show ?case using covered_seq [OF discard_covered covered_seq [OF 5(1) [OF 5(3)] 5(2) [OF 5(3)]]] by simp
next
  case (6 g x e th el)
  obtain ch c where w: "w = (ch, c)" by fastforce
  obtain t c1 where t: "escape_expr_taint H c e = (t, c1)" by fastforce
  show ?case using covered_seq [OF bind_after [OF t, of M ch x] covered_seq [OF 6(1) [OF 6(3)] 6(2) [OF 6(3)]]] w t by simp
next
  case (7 g k v e body)
  obtain ch c where w: "w = (ch, c)" by fastforce
  obtain t c1 where t: "escape_expr_taint H c e = (t, c1)" by fastforce
  show ?case using covered_seq [OF range_covered [OF t, of M ch k v] 7(1) [OF 7(2)]] w t by simp
next
  case (8 g init e post body)
  show ?case using covered_seq [OF 8(1) [OF 8(4)] covered_seq [OF discard_covered covered_seq [OF 8(2) [OF 8(4)] 8(3) [OF 8(4)]]]] by simp
next
  case (9 g es)
  show ?case using return_covered by (cases w) simp
next
  case (10 g call)
  show ?case using go_covered by simp
next
  case (11 g call)
  show ?case using defer_covered [of M "fst w" "snd w"] 11 by simp
next
  case (17 g tag cs)
  show ?case using covered_seq [OF discard_covered 17(1) [OF 17(2)]] by simp
next
  case (18 g x e cs)
  obtain ch c where w: "w = (ch, c)" by fastforce
  obtain t c1 where t: "escape_expr_taint H c e = (t, c1)" by fastforce
  show ?case using covered_seq [OF bind_after [OF t, of M ch x] 18(1) [OF 18(2)]] w t by simp
next
  case (22 g e m)
  show ?case using covered_seq [OF discard_covered discard_covered] by simp
next
  case (24 g)
  show ?case using other_covered by (cases w) simp
next
  case (26 kind g cl cls)
  have "covered M w (if kind cl then walk_clause H w cl else w) (if kind cl then atoms_clause g cl else [])"
    using 26(1) [OF _ 26(3)] by (simp add: covered_Nil)
  then show ?case using covered_seq [OF _ 26(2) [OF 26(3)]] by simp
next
  case (27 g es body)
  show ?case using covered_seq [OF discards_covered 27(1) [OF 27(2)]] by simp
next
  case (29 g comm bind decl body)
  show ?case using covered_seq [OF expr_stmt_covered 29(1) [OF 29(2)]] by simp
qed (simp_all add: covered_Nil expr_stmt_covered decl_covered multi_covered discard_covered)

end

end
