(* ===== verification/Escape_Grow.thy ===== *)
theory Escape_Grow
  imports Escape_Walk
begin

section \<open>Growth of the environment\<close>

definition env_names :: "local_env \<Rightarrow> string set" where
  "env_names env = {x. escape_env_find env x \<noteq> None}"

definition env_le :: "local_env \<Rightarrow> local_env \<Rightarrow> bool" where
  "env_le env env1 = (\<forall>x t. escape_env_find env x = Some t \<longrightarrow> (\<exists>u. escape_env_find env1 x = Some u \<and> bits t \<subseteq> bits u))"

lemma env_le_refl [simp]: "env_le env env"
  by (simp add: env_le_def)

lemma env_le_trans: "env_le a b \<Longrightarrow> env_le b c \<Longrightarrow> env_le a c"
  unfolding env_le_def by (meson subset_trans)

lemma find_after_add:
  "escape_env_find (snd (escape_env_add_or_union env x v)) y =
     (if y = x then Some (case escape_env_find env x of None \<Rightarrow> v | Some t \<Rightarrow> snd (escape_taint_union_into t v)) else escape_env_find env y)"
  by (induction env x v rule: escape_env_add_or_union.induct) (auto simp: split_beta Let_def)

lemma env_add_grows:
  assumes "env_wf n env" "length v = n"
  shows "env_le env (snd (escape_env_add_or_union env x v))"
    "env_names (snd (escape_env_add_or_union env x v)) = insert x (env_names env)"
  using assms env_find_wf [OF assms(1), of x]
  by (auto simp: env_le_def env_names_def find_after_add bits_union split: option.split)

lemma bound_names_simps [simp]: "bound_names [] = {}" "bound_names (as @ bs) = bound_names as \<union> bound_names bs"
  by (auto simp: bound_names_def)

lemma bound_names_none [simp]:
  "bound_names (map Eval es) = {}"
  "bound_names (Eval e # as) = bound_names as" "bound_names (Lose es # as) = bound_names as"
  "bound_names (Assign l es # as) = bound_names as" "bound_names (Anything # as) = bound_names as"
  by (simp_all add: bound_names_def)

lemma bound_names_expr [simp]: "bound_names (expr_atoms e) = {}"
  unfolding expr_atoms_def by (cases e) simp_all

lemma bound_names_call [simp]: "bound_names (call_atoms e) = {}"
  unfolding call_atoms_def by (cases e) simp_all

lemma bound_names_bind [simp]:
  "bound_names (bind_atoms x es) = set_option x - {''_''}" "bound_names (key_atoms x) = set_option x - {''_''}"
  unfolding bind_atoms_def key_atoms_def by (cases x; simp add: bound_names_def)+

lemma bound_names_decl: "bound_names (concat (map (\<lambda>n. bind_atoms (Some n) es) names)) = set names - {''_''}"
  by (induction names) auto

context escape_pass
begin

definition grown :: "'o walk \<Rightarrow> 'o walk \<Rightarrow> string set \<Rightarrow> bool" where
  "grown w w1 X = (steady w w1 \<and> (wf_ctx (snd w) \<longrightarrow> good (cx_owner (snd w)) \<longrightarrow>
     env_names (cx_env (snd w1)) = env_names (cx_env (snd w)) \<union> X \<and> env_le (cx_env (snd w)) (cx_env (snd w1))))"

lemma grown_seq: "grown w w1 X \<Longrightarrow> grown w1 w2 Y \<Longrightarrow> grown w w2 (X \<union> Y)"
proof -
  assume g: "grown w w1 X" "grown w1 w2 Y"
  have st: "steady w w1" "steady w1 w2" using g by (simp_all add: grown_def)
  have "env_names (cx_env (snd w2)) = env_names (cx_env (snd w)) \<union> (X \<union> Y) \<and> env_le (cx_env (snd w)) (cx_env (snd w2))"
    if "wf_ctx (snd w)" "good (cx_owner (snd w))"
  proof -
    have "wf_ctx (snd w1)" "good (cx_owner (snd w1))" using st(1) that by (simp_all add: steady_def)
    then show ?thesis using g that env_le_trans [of "cx_env (snd w)" "cx_env (snd w1)" "cx_env (snd w2)"]
      by (simp add: grown_def Un_assoc)
  qed
  then show ?thesis using steady_trans [OF st] by (simp add: grown_def)
qed

lemma grown_refl [simp]: "grown w w {}"
  by (simp add: grown_def)

lemma grown_same: "steady (False, c) (False, c1) \<Longrightarrow> grown (ch, c) (ch, c1) {}"
  using steady_flag [of c c1 ch] by (auto simp: grown_def steady_def)

lemma discard_grown: "grown w (taint_discard H w e) {}"
  using eval_covered [of M False "snd w" e] grown_same [of "snd w"]
  by (cases w) (auto simp: taint_discard_def covered_def)

lemma discards_grown: "grown w (foldl (taint_discard H) w es) {}"
proof (induction es arbitrary: w)
  case (Cons e es)
  show ?case using grown_seq [OF discard_grown Cons.IH] by simp
qed simp

lemma env_union_grown:
  assumes "wf_ctx c" "length t = cx_slot_count c"
  shows "env_names (cx_env (snd (env_union c x t))) = insert x (env_names (cx_env c))"
    "env_le (cx_env c) (cx_env (snd (env_union c x t)))"
  using assms env_add_grows [of "cx_slot_count c" "cx_env c" t x]
  by (auto simp: env_union_def split_beta Let_def wf_ctx_def)

lemma bind_grown: "length t = cx_slot_count c \<Longrightarrow> grown (ch, c) (bind_name H (ch, c) x t) ({x} - {''_''})"
proof (cases "x = ''_'' \<or> \<not> good (cx_owner c)")
  case False
  assume len: "length t = cx_slot_count c"
  obtain o1 where "bind_name H (ch, c) x t =
      (ch \<or> fst (env_union c x (own_taint own x t)), (snd (env_union c x (own_taint own x t)))\<lparr>cx_owner := o1\<rparr>)"
    using False bind_name_union [of c x ch t] by metis
  then show ?thesis using bind_name_steady [OF len, of ch x] env_union_grown [of c "own_taint own x t" x] False len
    by (auto simp: grown_def)
qed (auto simp: grown_def steady_def bind_name_def)

lemma opt_grown: "length t = cx_slot_count c \<Longrightarrow> grown (ch, c) (bind_opt H (ch, c) x t) (set_option x - {''_''})"
  using bind_grown [of t c ch] by (cases x) (simp_all add: bind_opt_def)

lemma assign_grown:
  assumes "length t = cx_slot_count c"
  shows "grown (ch, c) (assign_to_lvalue H (ch, c) lhs t) {}"
proof (cases "\<exists>x u. lhs = XIdent x \<and> x \<noteq> ''_'' \<and> escape_env_find (cx_env c) x = Some u")
  case True
  then obtain x u where x: "lhs = XIdent x" "x \<noteq> ''_''" "escape_env_find (cx_env c) x = Some u" by blast
  have "insert x (env_names (cx_env c)) = env_names (cx_env c)" using x(3) by (auto simp: env_names_def)
  then show ?thesis using assign_steady [OF assms, of ch lhs] env_union_grown [OF _ assms, of x] x
    by (auto simp: grown_def assign_to_lvalue_def split_beta Let_def)
next
  case False
  then have "assign_to_lvalue H (ch, c) lhs t = (ch, snd (assign_to_lvalue H (False, c) lhs t))" 
    "fst (assign_to_lvalue H (False, c) lhs t) = False" for ch
    by (auto simp: assign_to_lvalue_def Let_def split: eexpr.split)
  then show ?thesis using grown_same [of c "snd (assign_to_lvalue H (False, c) lhs t)" ch] assign_steady [OF assms, of False lhs]
    by (metis prod.collapse)
qed

lemma fold_grown:
  assumes "\<And>ch c x. length t = cx_slot_count c \<Longrightarrow> grown (ch, c) (f (ch, c) x) (g x)"
    and "length t = cx_slot_count c" "wf_ctx c" "good (cx_owner c)"
  shows "grown (ch, c) (foldl f (ch, c) xs) (\<Union> (g ` set xs))"
  using assms(2-4)
proof (induction xs arbitrary: ch c)
  case (Cons x xs)
  obtain ch1 c1 where f: "f (ch, c) x = (ch1, c1)" by fastforce
  have gr: "grown (ch, c) (ch1, c1) (g x)" using assms(1) [OF Cons.prems(1), of ch x] f by simp
  then have "grown (ch1, c1) (foldl f (ch1, c1) xs) (\<Union> (g ` set xs))"
    using Cons.prems by (intro Cons.IH) (auto simp: grown_def steady_def)
  then show ?case using grown_seq [OF gr] f by simp
qed simp

lemma grown_vacuous: "\<not> (wf_ctx c \<and> good (cx_owner c)) \<Longrightarrow> grown (ch, c) w X"
  by (auto simp: grown_def steady_def)

lemma combined_grown:
  assumes "combined_taint H c es = (t, c1)" "wf_ctx c" "good (cx_owner c)"
  shows "grown (ch, c) (ch, c1) {}" "length t = cx_slot_count c1" "wf_ctx c1" "good (cx_owner c1)"
  using combined_bounds(1) [OF assms, where M = "{}" and ch = False] combined_bounds(2-4) [OF assms] grown_same [of c c1 ch] by (auto simp: covered_def bounds_def)

lemma decl_grown: "grown w (escape_seed_names_from_values H w names es) (set names - {''_''})"
proof -
  obtain ch c where w: "w = (ch, c)" by fastforce
  obtain t c1 where t: "combined_taint H c es = (t, c1)" by fastforce
  { assume wf: "wf_ctx c" "good (cx_owner c)"
    note cb = combined_grown [OF t wf]
    have "grown (ch, c1) (foldl (\<lambda>w x. bind_name H w x t) (ch, c1) names) (\<Union> ((\<lambda>x. {x} - {''_''}) ` set names))"
      by (rule fold_grown [OF bind_grown cb(2-4)])
    then have "grown (ch, c) (foldl (\<lambda>w x. bind_name H w x t) (ch, c1) names) ({} \<union> \<Union> ((\<lambda>x. {x} - {''_''}) ` set names))"
      using grown_seq [OF cb(1)] by blast
    moreover have "{} \<union> \<Union> ((\<lambda>x. {x} - {''_''}) ` set names) = set names - {''_''}" by auto
    ultimately have ?thesis using w t by (simp add: escape_seed_names_from_values_def) }
  then show ?thesis using grown_vacuous [of c ch] w by blast
qed

lemma multi_grown: "grown w (walk_multi_assign H w targets es sh) (bound_names (multi_atoms targets es sh))"
proof -
  obtain ch c where w: "w = (ch, c)" by fastforce
  obtain t c1 where t: "combined_taint H c es = (t, c1)" by fastforce
  let ?f = "\<lambda>w tgt. if sh then (case tgt of XIdent name \<Rightarrow> bind_name H w name t
       | _ \<Rightarrow> (fst w, escape_mark (snd w) t ESCAPE_REASON_UNCLASSIFIED)) else assign_to_lvalue H w tgt t"
  let ?g = "\<lambda>tgt. if sh then (case tgt of XIdent n \<Rightarrow> {n} - {''_''} | _ \<Rightarrow> {}) else {}"
  have mark: "grown (ch, c) (ch, escape_mark c t why) {}" if "length t = cx_slot_count c" for ch c why
    using grown_same [OF steady_le] mark_le [OF _ that] grown_vacuous [of c ch] by blast
  have names: "bound_names (multi_atoms targets es sh) = \<Union> (?g ` set targets)"
    by (auto simp: multi_atoms_def bound_names_def bind_atoms_def split: eexpr.splits if_splits)
  { assume wf: "wf_ctx c" "good (cx_owner c)"
    note cb = combined_grown [OF t wf]
    have "grown (ch, c) (?f (ch, c) x) (?g x)" if "length t = cx_slot_count c" for ch c x
      using bind_grown [OF that] assign_grown [OF that] mark [OF that] by (cases x) simp_all
    then have "grown (ch, c1) (foldl ?f (ch, c1) targets) (\<Union> (?g ` set targets))"
      by (rule fold_grown [OF _ cb(2-4)])
    then have "grown (ch, c) (foldl ?f (ch, c1) targets) ({} \<union> \<Union> (?g ` set targets))" by (rule grown_seq [OF cb(1)])
    then have ?thesis using w t by (simp add: walk_multi_assign_def names del: UN_simps) }
  then show ?thesis using grown_vacuous [of c ch] w by blast
qed

lemma expr_stmt_grown: "grown w (escape_walk_expr_stmt H w e) {}"
proof -
  obtain ch c where w: "w = (ch, c)" by fastforce
  show ?thesis
  proof (cases "\<exists>op l r. e = XBinary op l r \<and> is_assign_op op")
    case True
    then obtain op l r where e: "e = XBinary op l r" "is_assign_op op" by blast
    obtain t c1 where t: "escape_expr_taint H c r = (t, c1)" by fastforce
    { assume wf: "wf_ctx c" "good (cx_owner c)"
      note b = expr_bounds(1,2) [OF t wf, where M = "{}"]
      have "grown (ch, c) (ch, c1) {}" using b(1) [where ch = False] grown_same by (simp add: covered_def)
      then have ?thesis using grown_seq [OF _ assign_grown [of t c1 ch l]] b(2) w t e
        by (simp add: escape_walk_expr_stmt_def bounds_def) }
    then show ?thesis using grown_vacuous [of c ch] w by blast
  next
    case False
    then have eq: "escape_walk_expr_stmt H (ch, c) e = (ch, snd (escape_walk_expr_stmt H (False, c) e))"
      "fst (escape_walk_expr_stmt H (False, c) e) = False" for ch
      by (auto simp: escape_walk_expr_stmt_def taint_discard_def split: eexpr.split)
    have "steady (False, c) (escape_walk_expr_stmt H (False, c) e)"
      using expr_stmt_covered [of "{}" "(False, c)" e] by (simp add: covered_def)
    then show ?thesis using grown_same [of c "snd (escape_walk_expr_stmt H (False, c) e)" ch] eq w by (metis prod.collapse)
  qed
qed

lemma bind_after_grown:
  assumes "escape_expr_taint H c e = (t, c1)"
  shows "grown (ch, c) (bind_opt H (ch, c1) x t) (set_option x - {''_''})"
proof (cases "wf_ctx c \<and> good (cx_owner c)")
  case True
  note b = expr_bounds(1,2) [OF assms conjunct1 [OF True] conjunct2 [OF True], where M = "{}"]
  have "grown (ch, c) (ch, c1) {}" using b(1) [where ch = False] grown_same by (simp add: covered_def)
  then show ?thesis using grown_seq [OF _ opt_grown [of t c1 ch x], of "(ch, c)" "{}"] b(2) by (simp add: bounds_def)
qed (rule grown_vacuous)

lemma range_grown:
  assumes "escape_expr_taint H c e = (t, c1)"
  shows "grown (ch, c) (bind_opt H (bind_opt H (ch, c1) k (escape_taint_new (cx_slot_count c))) v t)
    ((set_option k - {''_''}) \<union> (set_option v - {''_''}))"
proof (cases "wf_ctx c \<and> good (cx_owner c)")
  case True
  note b = expr_bounds(1,2) [OF assms conjunct1 [OF True] conjunct2 [OF True], where M = "{}"]
  obtain ch2 c2 where k: "bind_opt H (ch, c1) k (escape_taint_new (cx_slot_count c)) = (ch2, c2)" by fastforce
  have g1: "grown (ch, c) (ch, c1) {}" using b(1) [where ch = False] grown_same by (simp add: covered_def)
  have g2: "grown (ch, c1) (ch2, c2) (set_option k - {''_''})"
    using opt_grown [of "escape_taint_new (cx_slot_count c)" c1 ch k] expr_bounds(5) [OF assms] True k by simp
  have "length t = cx_slot_count c2"
    using b(2) g2 True expr_bounds(3,4) [OF assms] by (auto simp: bounds_def grown_def steady_def)
  then show ?thesis using grown_seq [OF grown_seq [OF g1 g2] opt_grown [of t c2 ch2 v]] k by simp
qed (rule grown_vacuous)

lemma same_grown: "(\<And>ch. covered M (ch, c) (ch, c1) as) \<Longrightarrow> grown (ch, c) (ch, c1) {}"
  using grown_same [of c c1 ch] by (simp add: covered_def)

text \<open>A walk adds to the environment exactly the names that the actions bind, and no taint is lost.\<close>

lemma walk_grown:
  shows "g = hk_defer_is_like_go H \<Longrightarrow> grown w (escape_walk_stmt H w ss) (bound_names (atoms g ss))"
    and "g = hk_defer_is_like_go H \<Longrightarrow> grown w (walk_one H w s) (bound_names (atoms_one g s))"
    and "g = hk_defer_is_like_go H \<Longrightarrow> grown w (walk_clauses kind H w cls) (bound_names (atoms_clauses kind g cls))"
    and "g = hk_defer_is_like_go H \<Longrightarrow> grown w (walk_clause H w cl) (bound_names (atoms_clause g cl))"
proof (induction g ss and g s and kind g cls and g cl arbitrary: w and w and w and w
    rule: atoms_atoms_one_atoms_clauses_atoms_clause.induct)
  case (2 g s ss)
  show ?case using grown_seq [OF 2(1) [OF 2(3)] 2(2) [OF 2(3)]] by simp
next
  case (5 g e th el)
  show ?case using grown_seq [OF discard_grown grown_seq [OF 5(1) [OF 5(3)] 5(2) [OF 5(3)]]] by simp
next
  case (6 g x e th el)
  obtain ch c where w: "w = (ch, c)" by fastforce
  obtain t c1 where t: "escape_expr_taint H c e = (t, c1)" by fastforce
  show ?case using grown_seq [OF bind_after_grown [OF t, of ch x] grown_seq [OF 6(1) [OF 6(3)] 6(2) [OF 6(3)]]] w t by simp
next
  case (7 g k v e body)
  obtain ch c where w: "w = (ch, c)" by fastforce
  obtain t c1 where t: "escape_expr_taint H c e = (t, c1)" by fastforce
  show ?case using grown_seq [OF range_grown [OF t, of ch k v] 7(1) [OF 7(2)]] w t by (simp add: Un_assoc)
next
  case (8 g init e post body)
  show ?case using grown_seq [OF 8(1) [OF 8(4)] grown_seq [OF discard_grown grown_seq [OF 8(2) [OF 8(4)] 8(3) [OF 8(4)]]]] by simp
next
  case (9 g es)
  show ?case using same_grown [OF return_covered] by (cases w) simp
next
  case (10 g call)
  show ?case using same_grown [of "{}" "snd w" "handle_go_call H (snd w) call ESCAPE_REASON_GO_ARG" "call_atoms call" "fst w"]
      go_covered [of "{}" "(_, snd w)" call] by simp
next
  case (11 g call)
  show ?case using same_grown [OF defer_covered] by (cases w) simp
next
  case (14 g names es)
  show ?case using decl_grown [of w names es] by (simp add: decl_atoms_def bound_names_decl)
next
  case (15 g names es)
  show ?case using decl_grown [of w names es] by (simp add: decl_atoms_def bound_names_decl)
next
  case (17 g tag cs)
  show ?case using grown_seq [OF discard_grown 17(1) [OF 17(2)]] by simp
next
  case (18 g x e cs)
  obtain ch c where w: "w = (ch, c)" by fastforce
  obtain t c1 where t: "escape_expr_taint H c e = (t, c1)" by fastforce
  show ?case using grown_seq [OF bind_after_grown [OF t, of ch x] 18(1) [OF 18(2)]] w t by simp
next
  case (22 g e m)
  show ?case using grown_seq [OF discard_grown discard_grown] by simp
next
  case (24 g)
  show ?case using same_grown [OF other_covered] by (cases w) simp
next
  case (26 kind g cl cls)
  have "grown w (if kind cl then walk_clause H w cl else w) (bound_names (if kind cl then atoms_clause g cl else []))"
    using 26(1) [OF _ 26(3)] by simp
  then show ?case using grown_seq [OF _ 26(2) [OF 26(3)]] by simp
next
  case (27 g es body)
  show ?case using grown_seq [OF discards_grown 27(1) [OF 27(2)]] by simp
next
  case (29 g comm bind decl body)
  show ?case using grown_seq [OF expr_stmt_grown 29(1) [OF 29(2)]] by simp
qed (simp_all add: expr_stmt_grown multi_grown discard_grown)

end

end
