(* ===== verification/Escape_Pass.thy ===== *)
theory Escape_Pass
  imports Escape_Grow
begin

text \<open>
  The loop around the walk of one body: at its end either a walk has changed nothing, and then the
  marks bound every run of the body, or the limit was reached and every slot is marked.
\<close>

context escape_pass
begin

lemma passes_end:
  assumes "wf_ctx c" "good (cx_owner c)" "walk_passes H n c body = (settled, c1)"
  shows "if settled then (\<exists>c0. escape_walk_stmt H (False, c0) body = (False, c1) \<and> wf_ctx c0 \<and> good (cx_owner c0)
      \<and> cx_slot_count c0 = cx_slot_count c \<and> env_le (cx_env c) (cx_env c0)
      \<and> env_names (cx_env c) \<subseteq> env_names (cx_env c0)
      \<and> env_names (cx_env c0) \<subseteq> env_names (cx_env c) \<union> bound_names (atoms (hk_defer_is_like_go H) body))
    else marked (cx_reasons c1) = {..<cx_slot_count c}"
  using assms
proof (induction n arbitrary: c)
  case 0
  then show ?case by (auto simp: marked_def bits_def wf_ctx_def ESCAPE_REASON_UNCLASSIFIED_def)
next
  case (Suc n)
  obtain ch c2 where w: "escape_walk_stmt H (False, c) body = (ch, c2)" by fastforce
  show ?case
  proof (cases ch)
    case True
    have g: "grown (False, c) (ch, c2) (bound_names (atoms (hk_defer_is_like_go H) body))"
      using walk_grown(1) [OF refl, of "(False, c)" body] w by simp
    then have c2: "wf_ctx c2" "good (cx_owner c2)" "cx_slot_count c2 = cx_slot_count c"
      "env_names (cx_env c2) = env_names (cx_env c) \<union> bound_names (atoms (hk_defer_is_like_go H) body)" "env_le (cx_env c) (cx_env c2)"
      using Suc.prems(1,2) by (auto simp: grown_def steady_def)
    have "walk_passes H n c2 body = (settled, c1)" using Suc.prems(3) w True by simp
    note ih = Suc.IH [OF c2(1,2) this]
    show ?thesis
    proof (cases settled)
      case True
      then obtain c0 where c0: "escape_walk_stmt H (False, c0) body = (False, c1)" "wf_ctx c0" "good (cx_owner c0)"
        "cx_slot_count c0 = cx_slot_count c2" "env_le (cx_env c2) (cx_env c0)" "env_names (cx_env c2) \<subseteq> env_names (cx_env c0)"
        "env_names (cx_env c0) \<subseteq> env_names (cx_env c2) \<union> bound_names (atoms (hk_defer_is_like_go H) body)" using ih by auto
      have "env_names (cx_env c) \<subseteq> env_names (cx_env c0)"
        "env_names (cx_env c0) \<subseteq> env_names (cx_env c) \<union> bound_names (atoms (hk_defer_is_like_go H) body)"
        using c0(6,7) c2(4) by blast+
      then show ?thesis using c0(1-4) c2(3) env_le_trans [OF c2(5) c0(5)] True by auto
    qed (use ih c2(3) in simp)
  next
    case False
    then show ?thesis using Suc.prems w by auto
  qed
qed

lemma passes_wf:
  assumes "wf_ctx c" "good (cx_owner c)"
  shows "wf_ctx (snd (walk_passes H n c body)) \<and> cx_slot_count (snd (walk_passes H n c body)) = cx_slot_count c"
  using assms
proof (induction n arbitrary: c)
  case (Suc n)
  obtain ch c2 where w: "escape_walk_stmt H (False, c) body = (ch, c2)" by fastforce
  then have "grown (False, c) (ch, c2) (bound_names (atoms (hk_defer_is_like_go H) body))"
    using walk_grown(1) [OF refl, of "(False, c)" body] by simp
  then have "wf_ctx c2" "good (cx_owner c2)" "cx_slot_count c2 = cx_slot_count c"
    using Suc.prems by (auto simp: grown_def steady_def)
  then show ?case using Suc.IH [of c2] w by simp
qed (simp add: wf_ctx_def)

lemma run_tracks:
  assumes "run S own as (\<sigma>0, L0) s" "covers M c as" "tracks M \<sigma>0 c" "L0 \<subseteq> M"
  shows "tracks M (fst s) c \<and> snd s \<subseteq> M"
  using assms(1)
proof (induction rule: run.induct)
  case (run_step s a s')
  have "preserved M c a" using assms(2) run_step.hyps(2) by (simp add: covers_def)
  then show ?case using run_step.IH run_step.hyps(3) unfolding preserved_def by (metis prod.collapse)
qed (use assms in simp)

text \<open>Whatever a run of the body loses is marked.\<close>

lemma passes_sound:
  assumes "wf_ctx c" "good (cx_owner c)" "cx_slot_count c = um_slots S"
    and "um_locals S = env_names (cx_env c) \<union> bound_names (atoms (hk_defer_is_like_go H) body)"
    and "\<And>x. \<sigma>0 x \<subseteq> (case escape_env_find (cx_env c) x of None \<Rightarrow> {} | Some t \<Rightarrow> bits t)"
    and "run S own (atoms (hk_defer_is_like_go H) body) (\<sigma>0, {}) (\<sigma>, L)"
  shows "L \<inter> {..<um_slots S} \<subseteq> marked (cx_reasons (snd (walk_passes H n c body)))"
proof -
  obtain settled c1 where p: "walk_passes H n c body = (settled, c1)" by fastforce
  note pe = passes_end [OF assms(1,2) p]
  show ?thesis
  proof (cases settled)
    case True
    then obtain c0 where c0: "escape_walk_stmt H (False, c0) body = (False, c1)" "wf_ctx c0" "good (cx_owner c0)"
      "cx_slot_count c0 = cx_slot_count c" "env_le (cx_env c) (cx_env c0)" "env_names (cx_env c) \<subseteq> env_names (cx_env c0)"
      "env_names (cx_env c0) \<subseteq> env_names (cx_env c) \<union> bound_names (atoms (hk_defer_is_like_go H) body)"
      using pe by auto
    let ?M = "marked (cx_reasons c1)"
    have cov: "covers ?M c0 (atoms (hk_defer_is_like_go H) body)"
      using walk_covered(1) [OF refl, of ?M "(False, c0)" body] c0(1-3) by (simp add: covered_def)
    have "grown (False, c0) (False, c1) (bound_names (atoms (hk_defer_is_like_go H) body))"
      using walk_grown(1) [OF refl, of "(False, c0)" body] c0(1) by simp
    then have "bound_names (atoms (hk_defer_is_like_go H) body) \<subseteq> env_names (cx_env c0)"
      using c0(2,3) by (auto simp: grown_def steady_def)
    then have names: "um_locals S = env_names (cx_env c0)" using assms(4) c0(6,7) by blast
    have "\<sigma>0 x \<subseteq> bits t" if "escape_env_find (cx_env c0) x = Some t" for x t
      using assms(5) [of x] c0(5) that unfolding env_le_def by (cases "escape_env_find (cx_env c) x") fastforce+
    then have "tracks ?M \<sigma>0 c0" using c0(2-4) assms(3) names by (auto simp: tracks_def env_names_def)
    then show ?thesis using run_tracks [OF assms(6) cov] p by auto
  qed (use pe p assms(3) in auto)
qed

end

end
