(* ===== verification/Escape_Params.thy ===== *)
theory Escape_Params
  imports Escape_Pass
begin

text \<open>
  The parameter pass: its result is closed under the analysis of every body, so it bounds what a
  call of any depth keeps of its arguments.
\<close>

section \<open>What a call keeps\<close>

text \<open>
  A function keeps a parameter when a run of its body loses the slot of the parameter. Calls of
  depth \<open>0\<close> keep nothing, and the body of a call of depth \<open>n + 1\<close> makes calls of depth \<open>n\<close>. The
  first function of a name is meant, as in the code.
\<close>

definition fun_sem :: "(string \<Rightarrow> bool list option) \<Rightarrow> string list \<Rightarrow> estmt list \<Rightarrow> unit_sem" where
  "fun_sem K params body = \<lparr>um_locals = set params \<union> bound_names (atoms False body), um_keeps = K, um_slots = length params, um_source = (\<lambda>_. None)\<rparr>"

definition param_start :: "string list \<Rightarrow> vals" where
  "param_start params x = {i. i < length params \<and> params ! i = x}"

definition body_of :: "func_info \<Rightarrow> estmt list" where
  "body_of f = (case fi_body f of None \<Rightarrow> [] | Some b \<Rightarrow> b)"

definition run_keeps :: "(string \<Rightarrow> bool list option) \<Rightarrow> func_info \<Rightarrow> nat \<Rightarrow> bool" where
  "run_keeps K f i = (\<exists>\<sigma> L. run (fun_sem K (fi_param_names f) (body_of f)) (\<lambda>_. None) (atoms False (body_of f))
     (param_start (fi_param_names f), {}) (\<sigma>, L) \<and> i \<in> L)"

primrec keeps_at :: "registry \<Rightarrow> nat \<Rightarrow> string \<Rightarrow> bool list option" where
  "keeps_at reg 0 name = map_option (\<lambda>f. map (\<lambda>_. False) (fi_param_names f)) (registry_find reg name)"
| "keeps_at reg (Suc n) name = map_option (\<lambda>f. map (run_keeps (keeps_at reg n) f) [0..<length (fi_param_names f)]) (registry_find reg name)"

section \<open>The seeds\<close>

lemma find_none: "escape_env_find env x = None \<longleftrightarrow> x \<notin> env_names env"
  by (simp add: env_names_def)

lemma param_seed_spec:
  "env_wf (length names) (param_seed names) \<and> env_names (param_seed names) = set names
    \<and> (\<forall>x t. escape_env_find (param_seed names) x = Some t \<longrightarrow> param_start names x \<subseteq> bits t)"
proof -
  let ?step = "\<lambda>env i. snd (escape_env_add_or_union env (names ! i) ((escape_taint_new (length names))[i := True]))"
  have "env_wf (length names) (foldl ?step [] [0..<k]) \<and> env_names (foldl ?step [] [0..<k]) = set (take k names)
      \<and> (\<forall>x t. escape_env_find (foldl ?step [] [0..<k]) x = Some t \<longrightarrow> {i. i < k \<and> names ! i = x} \<subseteq> bits t)"
    if "k \<le> length names" for k
    using that
  proof (induction k)
    case 0
    then show ?case by (simp add: env_wf_def env_names_def)
  next
    case (Suc k)
    let ?env = "foldl ?step [] [0..<k]" and ?v = "(escape_taint_new (length names))[k := True]"
    have ih: "env_wf (length names) ?env" "env_names ?env = set (take k names)"
      "\<And>x t. escape_env_find ?env x = Some t \<Longrightarrow> {i. i < k \<and> names ! i = x} \<subseteq> bits t" using Suc by auto
    have v: "length ?v = length names" "k \<in> bits ?v" using Suc.prems by (auto simp: bits_def)
    have names: "env_names (?step ?env k) = set (take (Suc k) names)"
      using env_add_grows(2) [OF ih(1) v(1), of "names ! k"] ih(2) Suc.prems by (simp add: take_Suc_conv_app_nth)
    have "{i. i < Suc k \<and> names ! i = x} \<subseteq> bits t" if f: "escape_env_find (?step ?env k) x = Some t" for x t
    proof (cases "x = names ! k")
      case True
      show ?thesis
      proof (cases "escape_env_find ?env x")
        case None
        then have "x \<notin> set (take k names)" using ih(2) by (simp add: find_none)
        then have "{i. i < k \<and> names ! i = x} = {}" using Suc.prems by (auto simp: in_set_conv_nth)
        then show ?thesis using f True None v(2) by (auto simp: find_after_add less_Suc_eq)
      next
        case (Some u)
        then have "bits t = bits u \<union> bits ?v" using f True env_find_wf [OF ih(1) Some] v(1) by (auto simp: find_after_add bits_union)
        then show ?thesis using ih(3) [OF Some] v(2) by (auto simp: less_Suc_eq)
      qed
    next
      case False
      then show ?thesis using f ih(3) [of x t] by (auto simp: find_after_add less_Suc_eq)
    qed
    then show ?case using env_add_wf [OF ih(1) v(1), of "names ! k"] names by simp
  qed
  from this [of "length names"] show ?thesis by (simp add: param_seed_def param_start_def)
qed

section \<open>The pass\<close>

definition reg_look :: "registry \<Rightarrow> string \<Rightarrow> (bool list \<times> bool) option" where
  "reg_look reg name = map_option (\<lambda>f. (fi_escapes f, fi_return_escapes f)) (registry_find reg name)"

lemma own_none [simp]: "own_taint (\<lambda>_. None) x t = t"
  by (simp add: own_taint_def)

lemma param_pass:
  assumes "agrees S (reg_look reg)" "um_source S = (\<lambda>_. None)"
  shows "escape_pass PARAM_HOOKS (\<lambda>_. None) (\<lambda>o1. po_reg o1 = reg) (reg_look reg) S"
proof
  show "\<exists>o1. po_reg o1 = reg \<and> hk_bind PARAM_HOOKS c x t =
      (fst (env_union c x (own_taint (\<lambda>_. None) x t)), (snd (env_union c x (own_taint (\<lambda>_. None) x t)))\<lparr>cx_owner := o1\<rparr>)"
    if "po_reg (cx_owner c) = reg" for c x t
    using that by (intro exI [of _ "cx_owner c"]) (simp add: PARAM_HOOKS_def param_bind_def env_union_def split_beta Let_def)
  show "\<exists>o1. po_reg o1 = reg \<and> r c t = c\<lparr>cx_owner := o1\<rparr>"
    if "po_reg (cx_owner c) = reg" "hk_on_return PARAM_HOOKS = Some r" for c r t
    using that by (cases "escape_taint_empty t")
      (auto simp: PARAM_HOOKS_def param_on_return_def intro: exI [of _ "cx_owner c"] exI [of _ "cx_owner c\<lparr>po_return_escapes := True\<rparr>"])
  show "callee_summary PARAM_HOOKS c f = (case callee_name f of None \<Rightarrow> None | Some n \<Rightarrow> reg_look reg n)"
    if "po_reg (cx_owner c) = reg" for c f
    using that by (auto simp: callee_summary_def PARAM_HOOKS_def param_callee_retention_def reg_look_def split: option.split)
qed (use assms in \<open>simp_all add: PARAM_HOOKS_def source_slot_def\<close>)

lemma fun_sem_source: "um_source (fun_sem K params body) = (\<lambda>_. None)"
  by (simp add: fun_sem_def)

lemma analyze_sound:
  assumes "agrees (fun_sem K (fi_param_names f) (body_of f)) (reg_look reg)" "run_keeps K f i" "i < length (fi_param_names f)"
  shows "i \<in> marked (fst (analyze_function_body reg f))"
proof -
  let ?n = "length (fi_param_names f)" and ?S = "fun_sem K (fi_param_names f) (body_of f)"
  let ?c = "\<lparr>cx_env = param_seed (fi_param_names f), cx_slot_count = ?n, cx_reasons = replicate ?n 0,
    cx_owner = \<lparr>po_reg = reg, po_return_escapes = False\<rparr>\<rparr>"
  note seed = param_seed_spec [of "fi_param_names f"]
  obtain \<sigma> L where r: "run ?S (\<lambda>_. None) (atoms False (body_of f)) (param_start (fi_param_names f), {}) (\<sigma>, L)" "i \<in> L"
    using assms(2) by (auto simp: run_keeps_def)
  have start: "param_start (fi_param_names f) x \<subseteq> (case escape_env_find (cx_env ?c) x of None \<Rightarrow> {} | Some t \<Rightarrow> bits t)" for x
    using seed find_none [of "param_seed (fi_param_names f)" x]
    by (cases "escape_env_find (cx_env ?c) x") (auto simp: param_start_def)
  have "L \<inter> {..<um_slots ?S} \<subseteq> marked (cx_reasons (snd (walk_passes PARAM_HOOKS MAX_LOCAL_PASSES ?c (body_of f))))"
    using escape_pass.passes_sound [OF param_pass [OF assms(1) fun_sem_source], of ?c "body_of f" "param_start (fi_param_names f)" \<sigma> L MAX_LOCAL_PASSES] r(1) start seed
    by (simp add: wf_ctx_def PARAM_HOOKS_def fun_sem_def)
  moreover have "fst (analyze_function_body reg f) = cx_reasons (snd (walk_passes PARAM_HOOKS MAX_LOCAL_PASSES ?c (body_of f)))"
    by (simp add: analyze_function_body_def body_of_def split_beta Let_def)
  ultimately show ?thesis using r(2) assms(3) by (auto simp: fun_sem_def)
qed

section \<open>Rounds\<close>

definition wf_reg :: "registry \<Rightarrow> bool" where
  "wf_reg reg = (\<forall>f \<in> set reg. length (fi_escapes f) = length (fi_param_names f))"

text \<open>The analysis of every body gives nothing that the summaries do not have.\<close>

definition closed_reg :: "registry \<Rightarrow> bool" where
  "closed_reg reg = (\<forall>f \<in> set reg. marked (fst (analyze_function_body reg f)) \<subseteq> bits (fi_escapes f))"

definition look_sem :: "(string \<Rightarrow> (bool list \<times> bool) option) \<Rightarrow> unit_sem" where
  "look_sem look = \<lparr>um_locals = {}, um_keeps = (\<lambda>name. map_option fst (look name)), um_slots = 0, um_source = (\<lambda>_. None)\<rparr>"

lemma look_sem_source: "um_source (look_sem look) = (\<lambda>_. None)"
  by (simp add: look_sem_def)

lemma look_sem_agrees: "agrees (look_sem look) look"
  by (auto simp: agrees_def look_sem_def split: option.split)

lemma analyze_length: "length (fst (analyze_function_body reg f)) = length (fi_param_names f)"
proof -
  let ?n = "length (fi_param_names f)"
  let ?c = "\<lparr>cx_env = param_seed (fi_param_names f), cx_slot_count = ?n, cx_reasons = replicate ?n 0,
    cx_owner = \<lparr>po_reg = reg, po_return_escapes = False\<rparr>\<rparr>"
  have "length (cx_reasons (snd (walk_passes PARAM_HOOKS m ?c body))) = cx_slot_count ?c" for m body
    using escape_pass.passes_wf [OF param_pass [OF look_sem_agrees look_sem_source], of ?c reg m body] param_seed_spec [of "fi_param_names f"]
    by (simp add: wf_ctx_def)
  then show ?thesis by (simp add: analyze_function_body_def split_beta Let_def)
qed

lemma merge_unchanged:
  assumes "length (fi_escapes f) = length (fst res)" "\<not> fst (merge_info f res)"
  shows "snd (merge_info f res) = f \<and> marked (fst res) \<subseteq> bits (fi_escapes f) \<and> (snd res \<longrightarrow> fi_return_escapes f)"
  using assms union_unchanged [of "fi_escapes f" "map (\<lambda>r. r \<noteq> ESCAPE_REASON_NONE) (fst res)"]
  by (cases f) (auto simp: merge_info_def split_beta Let_def marked_def ESCAPE_REASON_NONE_def)

definition round_result :: "bool \<Rightarrow> registry \<Rightarrow> func_info \<Rightarrow> reasons list \<times> bool" where
  "round_result fail_closed reg f = (if fail_closed then (map (\<lambda>_. ESCAPE_REASON_UNCLASSIFIED) (fi_param_names f), True)
     else analyze_function_body reg f)"

definition round_step :: "bool \<Rightarrow> bool \<times> registry \<Rightarrow> nat \<Rightarrow> bool \<times> registry" where
  "round_step fail_closed = (\<lambda>(changed, reg) i. (changed \<or> fst (merge_info (reg ! i) (round_result fail_closed reg (reg ! i))),
     reg[i := snd (merge_info (reg ! i) (round_result fail_closed reg (reg ! i)))]))"

lemma round_fold: "param_round fail_closed reg = foldl (round_step fail_closed) (False, reg) [0..<length reg]"
  by (simp add: param_round_def round_step_def round_result_def split_beta Let_def)

lemma round_result_length: "length (fst (round_result fc reg f)) = length (fi_param_names f)"
  by (simp add: round_result_def analyze_length)

text \<open>What a step keeps of the registry, with everything it may only grow.\<close>

definition reg_le :: "registry \<Rightarrow> registry \<Rightarrow> bool" where
  "reg_le reg reg1 = (length reg1 = length reg \<and> (\<forall>i < length reg. fi_name (reg1 ! i) = fi_name (reg ! i)
     \<and> fi_body (reg1 ! i) = fi_body (reg ! i) \<and> fi_param_names (reg1 ! i) = fi_param_names (reg ! i)
     \<and> bits (fi_escapes (reg ! i)) \<subseteq> bits (fi_escapes (reg1 ! i)) \<and> (fi_return_escapes (reg ! i) \<longrightarrow> fi_return_escapes (reg1 ! i))))"

lemma reg_le_refl [simp]: "reg_le reg reg"
  by (simp add: reg_le_def)

lemma reg_le_trans: "reg_le a b \<Longrightarrow> reg_le b c \<Longrightarrow> reg_le a c"
  unfolding reg_le_def by auto

lemma wf_reg_nth: "wf_reg reg \<longleftrightarrow> (\<forall>i < length reg. length (fi_escapes (reg ! i)) = length (fi_param_names (reg ! i)))"
  unfolding wf_reg_def by (metis in_set_conv_nth)

lemma merge_fields:
  assumes "length (fi_escapes f) = length (fst res)"
  shows "fi_name (snd (merge_info f res)) = fi_name f" "fi_body (snd (merge_info f res)) = fi_body f"
    "fi_param_names (snd (merge_info f res)) = fi_param_names f" "length (fi_escapes (snd (merge_info f res))) = length (fi_escapes f)"
    "bits (fi_escapes (snd (merge_info f res))) = bits (fi_escapes f) \<union> marked (fst res)"
    "fi_return_escapes (snd (merge_info f res)) \<longleftrightarrow> fi_return_escapes f \<or> snd res"
  using assms bits_union [of "fi_escapes f" "map (\<lambda>r. r \<noteq> ESCAPE_REASON_NONE) (fst res)"]
  by (auto simp: merge_info_def split_beta Let_def marked_def ESCAPE_REASON_NONE_def)

lemma step_le:
  assumes "wf_reg reg" "i < length reg" "round_step fc (ch, reg) i = (ch1, reg1)"
  shows "wf_reg reg1" "reg_le reg reg1" "length reg1 = length reg" "ch \<Longrightarrow> ch1"
    "\<not> ch1 \<Longrightarrow> reg1 = reg \<and> marked (fst (round_result fc reg (reg ! i))) \<subseteq> bits (fi_escapes (reg ! i))"
    "fc \<Longrightarrow> bits (fi_escapes (reg1 ! i)) = {..<length (fi_param_names (reg1 ! i))}"
proof -
  let ?res = "round_result fc reg (reg ! i)"
  let ?f = "snd (merge_info (reg ! i) ?res)"
  have len: "length (fi_escapes (reg ! i)) = length (fst ?res)" using assms(1,2) by (simp add: wf_reg_nth round_result_length)
  note m = merge_fields [OF len]
  have r: "ch1 = (ch \<or> fst (merge_info (reg ! i) ?res))" "reg1 = reg[i := ?f]" using assms(3) by (auto simp: round_step_def)
  have nth: "reg1 ! k = (if k = i then ?f else reg ! k)" if "k < length reg" for k using that r(2) by simp
  show "length reg1 = length reg" using r(2) by simp
  then show "wf_reg reg1" "reg_le reg reg1" using assms(1,2) m nth by (simp_all add: wf_reg_nth reg_le_def)
  show "ch \<Longrightarrow> ch1" using r(1) by simp
  show "\<not> ch1 \<Longrightarrow> reg1 = reg \<and> marked (fst ?res) \<subseteq> bits (fi_escapes (reg ! i))"
    using r merge_unchanged [OF len] by simp
  show "fc \<Longrightarrow> bits (fi_escapes (reg1 ! i)) = {..<length (fi_param_names (reg1 ! i))}"
    using nth [OF assms(2)] m assms(1,2)
    by (auto simp: round_result_def marked_def bits_def wf_reg_nth ESCAPE_REASON_UNCLASSIFIED_def)
qed

lemma fold_le:
  assumes "wf_reg reg" "\<forall>i \<in> set is. i < length reg" "foldl (round_step fc) (ch, reg) is = (ch1, reg1)"
  shows "wf_reg reg1 \<and> reg_le reg reg1 \<and> (ch \<longrightarrow> ch1)
    \<and> (\<not> ch1 \<longrightarrow> reg1 = reg \<and> (\<forall>i \<in> set is. marked (fst (round_result fc reg (reg ! i))) \<subseteq> bits (fi_escapes (reg ! i))))
    \<and> (fc \<longrightarrow> (\<forall>i \<in> set is. bits (fi_escapes (reg1 ! i)) = {..<length (fi_param_names (reg1 ! i))}))"
  using assms
proof (induction "is" arbitrary: ch reg)
  case (Cons i "is")
  obtain ch2 reg2 where s: "round_step fc (ch, reg) i = (ch2, reg2)" by fastforce
  have i: "i < length reg" using Cons.prems(2) by simp
  note st = step_le [OF Cons.prems(1) i s]
  have ih: "wf_reg reg1 \<and> reg_le reg2 reg1 \<and> (ch2 \<longrightarrow> ch1)
    \<and> (\<not> ch1 \<longrightarrow> reg1 = reg2 \<and> (\<forall>i \<in> set is. marked (fst (round_result fc reg2 (reg2 ! i))) \<subseteq> bits (fi_escapes (reg2 ! i))))
    \<and> (fc \<longrightarrow> (\<forall>i \<in> set is. bits (fi_escapes (reg1 ! i)) = {..<length (fi_param_names (reg1 ! i))}))"
    using Cons.IH [OF st(1), of ch2] Cons.prems(2,3) st(3) s by simp
  have le: "reg_le reg reg1" using reg_le_trans [OF st(2)] ih by blast
  have "bits (fi_escapes (reg1 ! i)) = {..<length (fi_param_names (reg1 ! i))}" if fc
  proof -
    have "{..<length (fi_param_names (reg1 ! i))} \<subseteq> bits (fi_escapes (reg1 ! i))"
      using ih st(6) [OF that] i st(3) by (auto simp: reg_le_def)
    then show ?thesis using ih i st(3) by (auto simp: wf_reg_nth reg_le_def bits_def)
  qed
  then show ?case using ih le st(4,5) by auto
qed simp

lemma round_le:
  assumes "wf_reg reg" "param_round fc reg = (ch, reg1)"
  shows "wf_reg reg1" "reg_le reg reg1" "\<not> ch \<Longrightarrow> reg1 = reg"
    "\<not> ch \<Longrightarrow> \<not> fc \<Longrightarrow> closed_reg reg1" "fc \<Longrightarrow> closed_reg reg1"
proof -
  have f: "wf_reg reg1 \<and> reg_le reg reg1
    \<and> (\<not> ch \<longrightarrow> reg1 = reg \<and> (\<forall>i < length reg. marked (fst (round_result fc reg (reg ! i))) \<subseteq> bits (fi_escapes (reg ! i))))
    \<and> (fc \<longrightarrow> (\<forall>i < length reg. bits (fi_escapes (reg1 ! i)) = {..<length (fi_param_names (reg1 ! i))}))"
    using fold_le [OF assms(1), of "[0..<length reg]" fc False ch reg1] assms(2) by (simp add: round_fold)
  then show "wf_reg reg1" "reg_le reg reg1" "\<not> ch \<Longrightarrow> reg1 = reg" by simp_all
  have closed: "closed_reg reg1" if "\<And>i. i < length reg1 \<Longrightarrow> marked (fst (analyze_function_body reg1 (reg1 ! i))) \<subseteq> bits (fi_escapes (reg1 ! i))"
    unfolding closed_reg_def using that by (metis in_set_conv_nth)
  show "\<not> ch \<Longrightarrow> \<not> fc \<Longrightarrow> closed_reg reg1" using f by (intro closed) (simp add: round_result_def)
  have "marked (fst (analyze_function_body reg1 g)) \<subseteq> {..<length (fi_param_names g)}" for g
    using analyze_length [of reg1 g] by (auto simp: marked_def bits_def)
  moreover have "bits (fi_escapes (reg1 ! i)) = {..<length (fi_param_names (reg1 ! i))}" if fc "i < length reg1" for i
    using f that unfolding reg_le_def by metis
  ultimately show "fc \<Longrightarrow> closed_reg reg1" by (intro closed) simp
qed

lemma rounds_closed: "wf_reg reg \<Longrightarrow> wf_reg (param_rounds n reg) \<and> reg_le reg (param_rounds n reg) \<and> closed_reg (param_rounds n reg)"
proof (induction n arbitrary: reg)
  case 0
  obtain ch reg1 where r: "param_round True reg = (ch, reg1)" by fastforce
  show ?case using round_le [OF 0 r] r by simp
next
  case (Suc n)
  obtain ch reg1 where r: "param_round False reg = (ch, reg1)" by fastforce
  note l = round_le [OF Suc.prems r]
  show ?case using Suc.IH [OF l(1)] l r reg_le_trans [OF l(2)] by (cases ch) auto
qed

section \<open>Soundness\<close>

lemma find_le:
  assumes "reg_le reg reg1"
  shows "(case registry_find reg name of None \<Rightarrow> registry_find reg1 name = None
    | Some f \<Rightarrow> \<exists>g \<in> set reg1. registry_find reg1 name = Some g \<and> fi_param_names g = fi_param_names f \<and> fi_body g = fi_body f)"
proof -
  have "list_all2 (\<lambda>f g. fi_name g = fi_name f \<and> fi_body g = fi_body f \<and> fi_param_names g = fi_param_names f) reg reg1"
    using assms by (auto simp: reg_le_def list_all2_conv_all_nth)
  then show ?thesis by (induction rule: list_all2_induct) (auto split: option.splits)
qed

lemma wf_add: "wf_reg reg \<Longrightarrow> wf_reg (registry_add reg name params body)"
  by (auto simp: wf_reg_def registry_add_def Let_def)

lemma collected_wf: "wf_reg (collect_functions decls)"
proof -
  have "wf_reg (foldl (\<lambda>reg d. case d of FuncDecl (Some name) params body \<Rightarrow> registry_add reg name params body | _ \<Rightarrow> reg) reg decls)"
    if "wf_reg reg" for reg
    using that by (induction decls arbitrary: reg) (auto simp: wf_add split: edecl.split option.split)
  from this [of "[]"] show ?thesis by (simp add: collect_functions_def wf_reg_def)
qed

lemma keeps_at_length: "keeps_at reg n name = Some k \<Longrightarrow> \<exists>f. registry_find reg name = Some f \<and> length k = length (fi_param_names f)"
  by (cases n) auto

lemma find_set: "registry_find reg name = Some f \<Longrightarrow> f \<in> set reg"
  by (induction reg name rule: registry_find.induct) (auto split: if_splits)

text \<open>At every depth the summaries of a closed registry bound what calls keep.\<close>

lemma closed_agrees:
  assumes "wf_reg reg1" "reg_le reg reg1" "closed_reg reg1"
  shows "um_keeps S = keeps_at reg n \<Longrightarrow> agrees S (reg_look reg1)"
proof (induction n arbitrary: S)
  case 0
  have "case keeps_at reg 0 name of None \<Rightarrow> reg_look reg1 name = None
     | Some k \<Rightarrow> \<exists>es r. reg_look reg1 name = Some (es, r) \<and> length es = length k \<and> (\<forall>i < length k. k ! i \<longrightarrow> es ! i)" for name
    using find_le [OF assms(2), of name] assms(1)
    by (auto simp: reg_look_def wf_reg_def split: option.splits)
  then show ?case using 0 by (simp add: agrees_def)
next
  case (Suc n)
  have "case keeps_at reg (Suc n) name of None \<Rightarrow> reg_look reg1 name = None
     | Some k \<Rightarrow> \<exists>es r. reg_look reg1 name = Some (es, r) \<and> length es = length k \<and> (\<forall>i < length k. k ! i \<longrightarrow> es ! i)" for name
  proof (cases "registry_find reg name")
    case None
    then show ?thesis using find_le [OF assms(2), of name] by (simp add: reg_look_def)
  next
    case (Some f)
    obtain g where g: "g \<in> set reg1" "registry_find reg1 name = Some g" "fi_param_names g = fi_param_names f" "fi_body g = fi_body f"
      using find_le [OF assms(2), of name] Some by auto
    have len: "length (fi_escapes g) = length (fi_param_names f)" using assms(1) g(1,3) by (simp add: wf_reg_def)
    have "fi_escapes g ! i" if "i < length (fi_param_names f)" "run_keeps (keeps_at reg n) f i" for i
    proof -
      have "run_keeps (keeps_at reg n) g i" using that(2) g(3,4) by (simp add: run_keeps_def body_of_def)
      then have "i \<in> marked (fst (analyze_function_body reg1 g))"
        using that(1) g(3) by (intro analyze_sound [of "keeps_at reg n"] Suc.IH) (simp_all add: fun_sem_def)
      then show ?thesis using assms(3) g(1) by (auto simp: closed_reg_def bits_def)
    qed
    then show ?thesis using Some g(2) len by (simp add: reg_look_def)
  qed
  then show ?case using Suc.prems by (simp add: agrees_def)
qed

definition final_registry :: "edecl list \<Rightarrow> registry" where
  "final_registry decls = (let reg = collect_functions decls in param_rounds (total_bits reg + length reg + 8) reg)"

lemma final_facts:
  "wf_reg (final_registry decls)" "reg_le (collect_functions decls) (final_registry decls)" "closed_reg (final_registry decls)"
  using rounds_closed [OF collected_wf] by (simp_all add: final_registry_def Let_def)

lemma lookup_final: "param_escape_lookup (Some (param_escape_analyze decls)) fn =
    map_option (\<lambda>f. \<lparr>ps_function_name = fi_name f, ps_escapes = fi_escapes f, ps_return_escapes = fi_return_escapes f\<rparr>)
      (registry_find (final_registry decls) fn)"
proof -
  have "find_summary (map (\<lambda>f. \<lparr>ps_function_name = fi_name f, ps_escapes = fi_escapes f, ps_return_escapes = fi_return_escapes f\<rparr>) reg) fn =
    map_option (\<lambda>f. \<lparr>ps_function_name = fi_name f, ps_escapes = fi_escapes f, ps_return_escapes = fi_return_escapes f\<rparr>) (registry_find reg fn)"
    for reg
    by (induction reg fn rule: registry_find.induct) auto
  then show ?thesis by (simp add: param_escape_lookup_def param_escape_analyze_def final_registry_def Let_def)
qed

interpretation param: escape_pass PARAM_HOOKS "\<lambda>_. None" "\<lambda>o1. po_reg o1 = final_registry decls" "reg_look (final_registry decls)"
    "fun_sem (keeps_at (collect_functions decls) n) params body" for decls n params body
  by (rule param_pass [OF closed_agrees [OF final_facts] fun_sem_source]) (simp add: fun_sem_def)


definition keep_example :: "edecl list" where
  "keep_example = [FuncDecl (Some ''f'') [Some [''p'']] (Some [StExpr (XBinary TOKEN_ASSIGN (XIdent ''g'') (XIdent ''p''))])]"

lemma keep_example_runs: "keeps_at (collect_functions keep_example) 1 ''f'' = Some [True]"
proof -
  let ?f = "\<lparr>fi_name = ''f'', fi_body = Some [StExpr (XBinary TOKEN_ASSIGN (XIdent ''g'') (XIdent ''p''))], fi_param_names = [''p''],
    fi_escapes = [False], fi_return_escapes = False\<rparr>"
  have reg: "collect_functions keep_example = [?f]"
    by (simp add: collect_functions_def keep_example_def registry_add_def)
  let ?S = "fun_sem (keeps_at [?f] 0) [''p''] (body_of ?f)"
  have atoms: "atoms False (body_of ?f) = [Eval (XIdent ''p''), Assign (XIdent ''g'') [XIdent ''p'']]"
    by (simp add: body_of_def expr_atoms_def is_assign_op_def)
  have locals: "um_locals ?S = {''p''}" unfolding fun_sem_def atoms by simp
  have "act ?S (\<lambda>_. None) (param_start [''p''], {}) (Assign (XIdent ''g'') [XIdent ''p'']) (param_start [''p''], {} \<union> flows ?S (param_start [''p'']) [XIdent ''p''])"
    by (rule act_global) (simp_all add: locals)
  then have "run ?S (\<lambda>_. None) (atoms False (body_of ?f)) (param_start [''p''], {}) (param_start [''p''], flows ?S (param_start [''p'']) [XIdent ''p''])"
    by (intro run_step [OF run_start]) (simp_all add: atoms)
  moreover have "0 \<in> flows ?S (param_start [''p'']) [XIdent ''p'']" by (simp add: locals param_start_def)
  ultimately have "run_keeps (keeps_at [?f] 0) ?f 0" by (auto simp: run_keeps_def)
  then show ?thesis by (simp add: reg del: keeps_at.simps(1))
qed


section \<open>Termination of the rounds\<close>

definition unset_info :: "func_info \<Rightarrow> nat" where
  "unset_info f = length (filter Not (fi_escapes f)) + (if fi_return_escapes f then 0 else 1)"

definition unset_bits :: "registry \<Rightarrow> nat" where
  "unset_bits reg = sum_list (map unset_info reg)"

lemma union_unset:
  "length (filter Not (snd (escape_taint_union_into a b))) + (if fst (escape_taint_union_into a b) then 1 else 0) \<le> length (filter Not a)"
  by (induction a b rule: escape_taint_union_into.induct) (auto simp: split_beta Let_def split: if_splits)

lemma merge_unset: "unset_info (snd (merge_info f res)) + (if fst (merge_info f res) then 1 else 0) \<le> unset_info f"
  using union_unset [of "fi_escapes f" "map (\<lambda>r. r \<noteq> ESCAPE_REASON_NONE) (fst res)"]
  by (auto simp: merge_info_def unset_info_def split_beta Let_def split: if_splits)

lemma step_unset:
  assumes "i < length reg"
  shows "unset_bits (snd (round_step fc (ch, reg) i)) + (if fst (round_step fc (ch, reg) i) \<and> \<not> ch then 1 else 0) \<le> unset_bits reg"
proof -
  have "sum_list (map unset_info (reg[i := g])) + unset_info (reg ! i) = sum_list (map unset_info reg) + unset_info g" for g
    using assms by (induction reg arbitrary: i) (auto simp: nth_Cons split: nat.split)
  from this [of "snd (merge_info (reg ! i) (round_result fc reg (reg ! i)))"] show ?thesis
    using merge_unset [of "reg ! i" "round_result fc reg (reg ! i)"] by (auto simp: round_step_def unset_bits_def split: if_splits)
qed

lemma fold_unset:
  "\<forall>i \<in> set is. i < length reg \<Longrightarrow> unset_bits (snd (foldl (round_step fc) (ch, reg) is)) + (if fst (foldl (round_step fc) (ch, reg) is) \<and> \<not> ch then 1 else 0) \<le> unset_bits reg"
proof (induction "is" arbitrary: ch reg)
  case (Cons i "is")
  obtain ch2 reg2 where s: "round_step fc (ch, reg) i = (ch2, reg2)" by fastforce
  have "length reg2 = length reg" "ch \<Longrightarrow> ch2" using s by (auto simp: round_step_def)
  then show ?case using Cons.IH [of reg2 ch2] Cons.prems step_unset [of i reg fc ch] s by (auto split: if_splits)
qed simp

lemma round_unset: "fst (param_round fc reg) \<Longrightarrow> unset_bits (snd (param_round fc reg)) < unset_bits reg"
  using fold_unset [of "[0..<length reg]" reg fc False] by (simp add: round_fold)

lemma rounds_settle: "unset_bits reg < n \<Longrightarrow> param_rounds (n + m) reg = param_rounds n reg"
proof (induction n arbitrary: reg)
  case (Suc n)
  obtain ch reg1 where r: "param_round False reg = (ch, reg1)" by fastforce
  show ?case using Suc.IH [of reg1] Suc.prems round_unset [of False reg] r by (cases ch) auto
qed simp

lemma collected_unset: "unset_bits (collect_functions decls) = total_bits (collect_functions decls) + length (collect_functions decls)"
proof -
  have add: "unset_bits (registry_add reg name params body) = total_bits (registry_add reg name params body) + length (registry_add reg name params body)"
    if "unset_bits reg = total_bits reg + length reg" for reg name params body
    using that by (simp add: registry_add_def Let_def unset_bits_def total_bits_def unset_info_def)
  let ?step = "\<lambda>reg d. case d of FuncDecl (Some name) params body \<Rightarrow> registry_add reg name params body | _ \<Rightarrow> reg"
  have "unset_bits (foldl ?step reg decls) = total_bits (foldl ?step reg decls) + length (foldl ?step reg decls)"
    if "unset_bits reg = total_bits reg + length reg" for reg
    using that
  proof (induction decls arbitrary: reg)
    case (Cons d decls)
    have "unset_bits (?step reg d) = total_bits (?step reg d) + length (?step reg d)"
      using Cons.prems add by (simp split: edecl.split option.split)
    then show ?case using Cons.IH by simp
  qed simp
  from this [of "[]"] show ?thesis by (simp add: collect_functions_def unset_bits_def total_bits_def)
qed

text \<open>
  C9. The rounds settle. One round more than there are bits is enough: a larger limit, such as the
  one the code computes, gives the same result, so the fail-closed round after the limit is never
  reached, and a further round changes nothing.
\<close>

theorem param_rounds_settle:
  "let reg = collect_functions decls; limit = total_bits reg + length reg + 1; result = param_rounds limit reg in
   param_rounds (limit + m) reg = result \<and> param_round False result = (False, result)"
proof -
  let ?reg = "collect_functions decls"
  let ?limit = "total_bits ?reg + length ?reg + 1"
  have unset: "unset_bits ?reg < ?limit" using collected_unset [of decls] by simp
  have fixpoint: "unset_bits reg < n \<Longrightarrow> wf_reg reg \<Longrightarrow> param_round False (param_rounds n reg) = (False, param_rounds n reg)" for n reg
  proof (induction n arbitrary: reg)
    case (Suc n)
    obtain ch reg1 where r: "param_round False reg = (ch, reg1)" by fastforce
    note l = round_le [OF Suc.prems(2) r]
    show ?case using Suc.IH [OF _ l(1)] Suc.prems(1) round_unset [of False reg] r l(3) by (cases ch) auto
  qed simp
  show ?thesis unfolding Let_def using rounds_settle [OF unset] fixpoint [OF unset collected_wf] by blast
qed

end
