(* ===== verification/Escape_Locals.thy ===== *)
theory Escape_Locals
  imports Escape_Params
begin

text \<open>
  The local pass: pass A finds exactly the names that the body binds, and the marks of pass B bound
  what every run of the body loses of the values of its locals.
\<close>

section \<open>Invariants of a walk\<close>

text \<open>A property of contexts that marking, binding and a union with a known name keep is kept by a walk.\<close>

locale walk_invariant =
  fixes H :: "'o hooks" and P :: "'o ectx \<Rightarrow> bool"
  assumes reasons: "P c \<Longrightarrow> P (c\<lparr>cx_reasons := r\<rparr>)"
    and bind: "P c \<Longrightarrow> x \<noteq> ''_'' \<Longrightarrow> P (snd (hk_bind H c x t))"
    and union: "P c \<Longrightarrow> escape_env_find (cx_env c) x \<noteq> None \<Longrightarrow> P (snd (env_union c x t))"
    and on_return: "P c \<Longrightarrow> hk_on_return H = Some f \<Longrightarrow> P (f c t)"
begin

lemma mark_inv [simp]: "P c \<Longrightarrow> P (escape_mark c t why)" "P c \<Longrightarrow> P (escape_mark_all c why)"
  by (simp_all add: escape_mark_def escape_mark_all_def reasons)

lemma mark_args_inv: "P c \<Longrightarrow> P (mark_args ret i ts c)"
  by (induction ret i ts c rule: mark_args.induct) (auto split: option.split)

lemma call_inv: "P c \<Longrightarrow> P (snd (call_result H c f sp ats ft))"
  by (simp add: call_result_def Let_def mark_args_inv)

lemma each_inv: "(\<And>e c. e \<in> set es \<Longrightarrow> P c \<Longrightarrow> P (snd (escape_expr_taint H c e))) \<Longrightarrow> P c \<Longrightarrow> P (snd (taint_each H c es))"
  by (induction es arbitrary: c) (simp_all add: split_beta Let_def)

lemma expr_inv: "P c \<Longrightarrow> P (snd (escape_expr_taint H c e))"
proof (induction e arbitrary: c)
  case (XCall nid f args sp)
  obtain ats c1 where a: "taint_each H c args = (ats, c1)" by fastforce
  obtain t c2 where t: "escape_expr_taint H c1 f = (t, c2)" by fastforce
  have c1: "P c1" using each_inv [of args c] XCall.IH(2) XCall.prems a by simp
  then have "P c2" using XCall.IH(1) [of c1] t by simp
  then have "P (snd (call_result H c1 f sp ats ft))" "P (snd (call_result H (escape_mark c2 t why) f sp ats ft))" for ft why
    using c1 call_inv by simp_all
  then show ?case using XCall.prems a t by (simp split: option.split)
next
  case (XMapLit ks vs)
  have "P (snd (taint_each H c ks))" using each_inv XMapLit.IH(1) XMapLit.prems by blast
  then show ?case using each_inv [of vs "snd (taint_each H c ks)"] XMapLit.IH(2) by (simp add: split_beta Let_def)
next
  case (XStructLit es)
  then show ?case using each_inv [of es c] by (simp add: split_beta Let_def)
next
  case (XSliceLit es)
  then show ?case using each_inv [of es c] by (simp add: split_beta Let_def)
next
  case (XArrayLit es)
  then show ?case using each_inv [of es c] by (simp add: split_beta Let_def)
qed (auto simp: split_beta Let_def split: option.split)

lemma combined_inv: "P c \<Longrightarrow> P (snd (combined_taint H c es))"
  using each_inv [OF expr_inv] by (simp add: combined_taint_def split_beta Let_def)

lemma discard_inv: "P (snd w) \<Longrightarrow> P (snd (taint_discard H w e))"
  using expr_inv by (simp add: taint_discard_def split_beta)

lemma mark_each_inv: "P c \<Longrightarrow> P (mark_each why H c es)"
  by (induction es arbitrary: c) (auto simp: split_beta Let_def expr_inv)

lemma subscripts_inv: "P c \<Longrightarrow> P (mark_lvalue_subscripts H c lhs)"
  by (induction lhs arbitrary: c rule: subscripts.induct) (auto simp: split_beta Let_def expr_inv)

lemma bind_name_inv: "P (snd w) \<Longrightarrow> P (snd (bind_name H w x t))"
  by (cases w) (simp add: bind_name_def split_beta Let_def bind)

lemma bind_opt_inv: "P (snd w) \<Longrightarrow> P (snd (bind_opt H w x t))"
  by (simp add: bind_opt_def bind_name_inv split: option.split)

lemma assign_inv: "P (snd w) \<Longrightarrow> P (snd (assign_to_lvalue H w lhs t))"
  by (cases w; cases lhs) (auto simp: assign_to_lvalue_def split_beta Let_def union subscripts_inv simp del: mark_lvalue_subscripts.simps)

lemma fold_inv: "(\<And>w x. P (snd w) \<Longrightarrow> P (snd (f w x))) \<Longrightarrow> P (snd w) \<Longrightarrow> P (snd (foldl f w xs))"
  by (induction xs arbitrary: w) simp_all

lemma decl_inv: "P (snd w) \<Longrightarrow> P (snd (escape_seed_names_from_values H w names es))"
  unfolding escape_seed_names_from_values_def split_beta Let_def
  by (rule fold_inv) (simp_all add: bind_name_inv combined_inv)

lemma multi_inv: "P (snd w) \<Longrightarrow> P (snd (walk_multi_assign H w targets es sh))"
  unfolding walk_multi_assign_def split_beta Let_def
  by (rule fold_inv) (auto simp: bind_name_inv combined_inv assign_inv split: eexpr.split)

lemma expr_stmt_inv: "P (snd w) \<Longrightarrow> P (snd (escape_walk_expr_stmt H w e))"
proof -
  assume p: "P (snd w)"
  obtain ch c where w: "w = (ch, c)" by fastforce
  have "P (snd (assign_to_lvalue H (ch, snd (escape_expr_taint H c r)) l t))" for l r t
    using assign_inv [of "(ch, snd (escape_expr_taint H c r))"] expr_inv p w by simp
  then show ?thesis using discard_inv [of w e] mark_each_inv expr_inv p w
    by (cases e) (simp_all add: escape_walk_expr_stmt_def split_beta Let_def del: mark_each.simps)
qed

lemma return_inv: "P c \<Longrightarrow> P (walk_return H c es)"
proof (induction es arbitrary: c)
  case (Cons e es)
  have "P (walk_return H c [e])"
    using Cons.prems expr_inv on_return by (auto simp: walk_return_def split_beta Let_def split: option.split)
  then show ?case using Cons.IH by (simp add: walk_return_def)
qed (simp add: walk_return_def)

lemma go_inv: "P c \<Longrightarrow> P (handle_go_call H c call why)"
  by (cases call) (simp_all add: handle_go_call_def mark_each_inv del: mark_each.simps)

lemma defer_inv: "P c \<Longrightarrow> P (handle_defer_call H c call)"
  by (simp add: handle_defer_call_def go_inv expr_inv)

lemma walk_inv:
  fixes g :: bool
  shows "P (snd w) \<Longrightarrow> P (snd (escape_walk_stmt H w ss))"
    and "P (snd w) \<Longrightarrow> P (snd (walk_one H w s))"
    and "P (snd w) \<Longrightarrow> P (snd (walk_clauses kind H w cls))"
    and "P (snd w) \<Longrightarrow> P (snd (walk_clause H w cl))"
  by (induction g ss and g s and kind g cls and g cl arbitrary: w and w and w and w
      rule: atoms_atoms_one_atoms_clauses_atoms_clause.induct)
    (simp_all add: split_beta Let_def expr_inv discard_inv bind_opt_inv decl_inv multi_inv expr_stmt_inv
      return_inv go_inv defer_inv mark_inv fold_inv [OF discard_inv])

end

section \<open>Discovery\<close>

definition local_look :: "param_result option \<Rightarrow> string \<Rightarrow> (bool list \<times> bool) option" where
  "local_look summaries name = map_option (\<lambda>s. (ps_escapes s, ps_return_escapes s)) (param_escape_lookup summaries name)"

text \<open>The unit grows by the names of the environment.\<close>

definition unit_inv :: "string list \<Rightarrow> local_owner ectx \<Rightarrow> bool" where
  "unit_inv names0 c = (\<exists>zs. lo_unit (cx_owner c) = Some (names0 @ zs) \<and> distinct (names0 @ zs)
     \<and> set (names0 @ zs) = set names0 \<union> env_names (cx_env c) \<and> ''_'' \<notin> set zs)"

lemma env_union_fields:
  "cx_env (snd (env_union c x t)) = snd (escape_env_add_or_union (cx_env c) x t)" "cx_owner (snd (env_union c x t)) = cx_owner c"
  by (simp_all add: env_union_def split_beta Let_def)

lemma env_names_Nil [simp]: "env_names [] = {}"
  by (simp add: env_names_def)

lemma add_names: "env_names (snd (escape_env_add_or_union env x v)) = insert x (env_names env)"
  by (auto simp: env_names_def find_after_add)

interpretation unit: walk_invariant LOCAL_HOOKS "unit_inv names0" for names0
proof
  show "unit_inv names0 (snd (hk_bind LOCAL_HOOKS c x t))" if inv: "unit_inv names0 c" and x: "x \<noteq> ''_''" for c x t
  proof -
    obtain zs where zs: "lo_unit (cx_owner c) = Some (names0 @ zs)" "distinct (names0 @ zs)"
      "set (names0 @ zs) = set names0 \<union> env_names (cx_env c)" "''_'' \<notin> set zs" using inv by (auto simp: unit_inv_def)
    have bind: "lo_unit (cx_owner (snd (hk_bind LOCAL_HOOKS c x t))) = Some (unit_add_local (names0 @ zs) x)"
      "cx_env (snd (hk_bind LOCAL_HOOKS c x t)) = snd (escape_env_add_or_union (cx_env c) x t)"
      using zs(1) by (simp_all add: LOCAL_HOOKS_def seed_local_def env_union_fields)
    show ?thesis unfolding unit_inv_def bind add_names
      by (rule exI [of _ "if x \<in> set (names0 @ zs) then zs else zs @ [x]"])
        (use zs x in \<open>auto simp: unit_add_local_def\<close>)
  qed
  show "unit_inv names0 (snd (env_union c x t))" if "unit_inv names0 c" "escape_env_find (cx_env c) x \<noteq> None" for c x t
    using that by (simp add: unit_inv_def env_union_fields add_names find_none insert_absorb)
qed (simp_all add: unit_inv_def LOCAL_HOOKS_def)

interpretation discovery: escape_pass LOCAL_HOOKS "\<lambda>_. None" "\<lambda>o1. lo_unit o1 \<noteq> None \<and> lo_summaries o1 = summaries"
    "local_look summaries" "look_sem (local_look summaries)" for summaries
proof
  show "\<exists>o1. (lo_unit o1 \<noteq> None \<and> lo_summaries o1 = summaries) \<and> hk_bind LOCAL_HOOKS c x t =
      (fst (env_union c x (own_taint (\<lambda>_. None) x t)), (snd (env_union c x (own_taint (\<lambda>_. None) x t)))\<lparr>cx_owner := o1\<rparr>)"
    if "lo_unit (cx_owner c) \<noteq> None \<and> lo_summaries (cx_owner c) = summaries" for c x t
    using that by (auto simp: LOCAL_HOOKS_def seed_local_def env_union_def split_beta Let_def
        intro!: exI [of _ "cx_owner c\<lparr>lo_unit := Some (unit_add_local (the (lo_unit (cx_owner c))) x)\<rparr>"])
  show "callee_summary LOCAL_HOOKS c f = (case callee_name f of None \<Rightarrow> None | Some n \<Rightarrow> local_look summaries n)"
    if "lo_unit (cx_owner c) \<noteq> None \<and> lo_summaries (cx_owner c) = summaries" for c f
    using that by (auto simp: callee_summary_def LOCAL_HOOKS_def local_callee_retention_def local_look_def split: option.split)
qed (simp_all add: LOCAL_HOOKS_def look_sem_agrees look_sem_source source_slot_def)

text \<open>Pass A finds each name the body binds once, after the names it is given.\<close>

lemma discover_names:
  assumes "distinct names0"
  shows "\<exists>zs. discover summaries names0 body = names0 @ zs \<and> distinct (names0 @ zs)
    \<and> set (names0 @ zs) = set names0 \<union> bound_names (atoms True body)"
proof -
  let ?c = "\<lparr>cx_env = [], cx_slot_count = 0, cx_reasons = [],
    cx_owner = \<lparr>lo_summaries = summaries, lo_local_names = [], lo_unit = Some names0\<rparr>\<rparr>"
  let ?c1 = "snd (escape_walk_stmt LOCAL_HOOKS (False, ?c) body)"
  have "unit_inv names0 ?c" using assms by (auto simp: unit_inv_def env_names_def)
  then have "unit_inv names0 ?c1" using unit.walk_inv(1) [of names0 "(False, ?c)" body] by simp
  then obtain zs where zs: "lo_unit (cx_owner ?c1) = Some (names0 @ zs)" "distinct (names0 @ zs)"
    "set (names0 @ zs) = set names0 \<union> env_names (cx_env ?c1)" by (auto simp: unit_inv_def)
  have "discovery.grown summaries (False, ?c) (escape_walk_stmt LOCAL_HOOKS (False, ?c) body) (bound_names (atoms True body))"
    by (rule discovery.walk_grown(1)) (simp add: LOCAL_HOOKS_def)
  then have "env_names (cx_env ?c1) = bound_names (atoms True body)"
    unfolding discovery.grown_def by (simp add: wf_ctx_def env_wf_def)
  then show ?thesis using zs by (auto simp: discover_def Let_def)
qed

lemma discover_again: "discover summaries (discover summaries [] body) body = discover summaries [] body"
  and discover_set: "set (discover summaries [] body) = bound_names (atoms True body)"
  and discover_distinct: "distinct (discover summaries [] body)"
proof -
  show d: "distinct (discover summaries [] body)" "set (discover summaries [] body) = bound_names (atoms True body)"
    using discover_names [of "[]" summaries body] by auto
  obtain zs where zs: "discover summaries (discover summaries [] body) body = discover summaries [] body @ zs"
    "distinct (discover summaries [] body @ zs)" "set (discover summaries [] body @ zs) = bound_names (atoms True body)"
    using discover_names [OF d(1), of summaries body] d(2) by auto
  then have "set zs \<subseteq> set (discover summaries [] body)" "set (discover summaries [] body) \<inter> set zs = {}" using d(2) by auto
  then have "zs = []" by (cases zs) auto
  then show "discover summaries (discover summaries [] body) body = discover summaries [] body" using zs(1) by simp
qed

section \<open>Soundness\<close>

definition local_sem :: "(string \<Rightarrow> bool list option) \<Rightarrow> string list \<Rightarrow> estmt list \<Rightarrow> unit_sem" where
  "local_sem K names body = \<lparr>um_locals = bound_names (atoms True body), um_keeps = K, um_slots = length names, um_source = (\<lambda>_. None)\<rparr>"

lemma index_of_bound: "index_of names x = Some i \<Longrightarrow> i < length names \<and> names ! i = x"
  by (induction names x arbitrary: i rule: index_of.induct) (auto split: if_splits)

lemma local_look_final: "local_look (Some (param_escape_analyze decls)) = reg_look (final_registry decls)"
  by (auto simp: local_look_def reg_look_def lookup_final fun_eq_iff option.map_comp comp_def)

interpretation locals: escape_pass LOCAL_HOOKS "index_of names"
    "\<lambda>o1. o1 = \<lparr>lo_summaries = Some (param_escape_analyze decls), lo_local_names = names, lo_unit = None\<rparr>"
    "local_look (Some (param_escape_analyze decls))" "local_sem (keeps_at (collect_functions decls) n) names body"
  for decls names n body
proof
  let ?o = "\<lparr>lo_summaries = Some (param_escape_analyze decls), lo_local_names = names, lo_unit = None\<rparr>"
  show "\<exists>o1. o1 = ?o \<and> hk_bind LOCAL_HOOKS c x t =
      (fst (env_union c x (own_taint (index_of names) x t)), (snd (env_union c x (own_taint (index_of names) x t)))\<lparr>cx_owner := o1\<rparr>)"
    if "cx_owner c = ?o" for c x t
    using that by (auto simp: LOCAL_HOOKS_def seed_local_def find_local_index_def own_taint_def env_union_def split_beta Let_def split: option.split)
  show "callee_summary LOCAL_HOOKS c f = (case callee_name f of None \<Rightarrow> None | Some n \<Rightarrow> local_look (Some (param_escape_analyze decls)) n)"
    if "cx_owner c = ?o" for c f
    using that by (auto simp: callee_summary_def LOCAL_HOOKS_def local_callee_retention_def local_look_def split: option.split)
  show "agrees (local_sem (keeps_at (collect_functions decls) n) names body) (local_look (Some (param_escape_analyze decls)))"
    unfolding local_look_final by (rule closed_agrees [OF final_facts]) (simp add: local_sem_def)
qed (simp_all add: LOCAL_HOOKS_def local_sem_def index_of_bound source_slot_def)

lemma found_summary:
  assumes "decls = before @ FuncDecl (Some fn) params (Some body) # rest" "\<forall>ps b. FuncDecl (Some fn) ps b \<notin> set before"
  shows "find_local_summary (local_escape_analyze decls sums) fn = Some (case analyze_unit sums (discover sums [] body) body
      (replicate (length (discover sums [] body)) 0) of (names, reasons) \<Rightarrow>
      \<lparr>ls_function_name = fn, ls_local_names = names, ls_reasons = reasons\<rparr>)"
proof -
  let ?f = "\<lambda>d. case d of FuncDecl (Some fn) params (Some body) \<Rightarrow>
     let names = discover sums [] body;
         (names1, reasons) = analyze_unit sums names body (replicate (length names) 0) in
     [\<lparr>ls_function_name = fn, ls_local_names = names1, ls_reasons = reasons\<rparr>] | _ \<Rightarrow> []"
  have skip: "find_local_summary (concat (map ?f before) @ ss) fn = find_local_summary ss fn" for ss
    using assms(2)
  proof (induction before)
    case (Cons d before)
    have "find_local_summary (?f d @ rs) fn = find_local_summary rs fn" for rs
      using Cons.prems by (cases d) (auto simp: split_beta Let_def split: option.split)
    then show ?case using Cons by simp
  qed simp
  have "concat (map g decls) = concat (map g before) @ g (FuncDecl (Some fn) params (Some body)) @ concat (map g rest)"
    for g :: "edecl \<Rightarrow> local_summary list" using assms(1) by simp
  then show ?thesis unfolding local_escape_analyze_def by (simp only: skip) (simp add: split_beta Let_def)
qed

lemma unknown_local_escapes:
  assumes "decls = before @ FuncDecl (Some fn) params (Some body) # rest" "\<forall>ps b. FuncDecl (Some fn) ps b \<notin> set before"
    and "index_of (discover sums [] body) x = None"
  shows "local_escape_local_escapes (Some (local_escape_analyze decls sums)) fn x"
  using found_summary [OF assms(1,2), of sums] assms(3) discover_again [of sums body]
  by (simp add: local_escape_local_escapes_def local_escape_local_reasons_def analyze_unit_def Let_def
      ESCAPE_REASON_ALL_def ESCAPE_REASON_NONE_def)

lemma local_escapes_run:
  assumes "decls = before @ FuncDecl (Some fn) params (Some body) # rest"
    and "\<forall>ps b. FuncDecl (Some fn) ps b \<notin> set before"
    and "names = discover (Some (param_escape_analyze decls)) [] body" "index_of names x = Some i"
    and "run (local_sem (keeps_at (collect_functions decls) n) names body) (index_of names) (atoms True body) (\<lambda>_. {}, {}) (\<sigma>, L)"
    and "i \<in> L"
  shows "local_escape_local_escapes (Some (local_escape_analyze decls (Some (param_escape_analyze decls)))) fn x"
proof -
  let ?sum = "Some (param_escape_analyze decls)"
  let ?reasons = "cx_reasons (snd (walk_passes LOCAL_HOOKS MAX_LOCAL_PASSES (local_ctx ?sum names (replicate (length names) 0)) body))"
  have i: "i < length names" using index_of_bound [OF assms(4)] by simp
  have "L \<inter> {..<um_slots (local_sem (keeps_at (collect_functions decls) n) names body)} \<subseteq> marked ?reasons"
    using locals.passes_sound [of "local_ctx ?sum names (replicate (length names) 0)" decls names n body body "\<lambda>_. {}" \<sigma> L MAX_LOCAL_PASSES] assms(5)
    by (simp add: local_ctx_def wf_ctx_def env_wf_def local_sem_def LOCAL_HOOKS_def)
  then have "?reasons ! i \<noteq> 0" using assms(6) i by (auto simp: local_sem_def marked_def bits_def)
  moreover have "names \<noteq> []" using i by auto
  ultimately show ?thesis using assms(3,4) found_summary [OF assms(1,2), of ?sum] discover_again [of ?sum body]
    by (simp add: local_escape_local_escapes_def local_escape_local_reasons_def ESCAPE_REASON_NONE_def analyze_unit_def Let_def)
qed


definition lose_example :: "edecl list" where
  "lose_example = [FuncDecl (Some ''f'') [] (Some [StVar [''x''] [XLiteral], StExpr (XBinary TOKEN_ASSIGN (XIdent ''g'') (XIdent ''x''))])]"

lemma lose_example_run:
  fixes K :: "string \<Rightarrow> bool list option"
  defines "body \<equiv> [StVar [''x''] [XLiteral], StExpr (XBinary TOKEN_ASSIGN (XIdent ''g'') (XIdent ''x''))]"
  shows "run (local_sem K [''x''] body) (index_of [''x'']) (atoms True body) (\<lambda>_. {}, {}) ((\<lambda>_. {})(''x'' := {0}), {0})"
proof -
  let ?S = "local_sem K [''x''] body" and ?\<sigma> = "(\<lambda>_. {})(''x'' := {0::nat})"
  have atoms: "atoms True body = [Eval XLiteral, Bind ''x'' [XLiteral], Eval (XIdent ''x''), Assign (XIdent ''g'') [XIdent ''x'']]"
    by (simp add: body_def decl_atoms_def bind_atoms_def expr_atoms_def is_assign_op_def)
  have locals: "um_locals ?S = {''x''}" unfolding local_sem_def atoms by (simp add: bound_names_def)
  have "act ?S (index_of [''x'']) (\<lambda>_. {}, {}) (Bind ''x'' [XLiteral]) ((\<lambda>_. {})(''x'' := {} \<union> own_slot (index_of [''x'']) ''x''), {})"
    by (rule act_bind) simp
  then have "act ?S (index_of [''x'']) (\<lambda>_. {}, {}) (Bind ''x'' [XLiteral]) (?\<sigma>, {})" by (simp add: own_slot_def)
  then have r: "run ?S (index_of [''x'']) (atoms True body) (\<lambda>_. {}, {}) (?\<sigma>, {})"
    by (rule run_step [OF run_start, rotated]) (simp add: atoms)
  have "act ?S (index_of [''x'']) (?\<sigma>, {}) (Assign (XIdent ''g'') [XIdent ''x'']) (?\<sigma>, {} \<union> flows ?S ?\<sigma> [XIdent ''x''])"
    by (rule act_global) (simp_all add: locals)
  then have "act ?S (index_of [''x'']) (?\<sigma>, {}) (Assign (XIdent ''g'') [XIdent ''x'']) (?\<sigma>, {0})" by (simp add: locals)
  then show ?thesis by (rule run_step [OF r, rotated]) (simp add: atoms)
qed


section \<open>Values that escape without a mark\<close>

text \<open>
  A body as the only function of a program, and the reasons for one of its locals. Three programs
  for which the report is empty although the value of the local leaves the function, beside a
  program that differs in one statement and is reported.
\<close>

definition reasons_in :: "estmt list \<Rightarrow> string \<Rightarrow> reasons" where
  "reasons_in body x = (let decls = [FuncDecl (Some ''f'') [] (Some body)] in
     local_escape_local_reasons (Some (local_escape_analyze decls (Some (param_escape_analyze decls)))) ''f'' x)"

definition make_call :: eexpr where "make_call = XCall 0 (XIdent ''make'') [] False"

definition assign_stmt :: "eexpr \<Rightarrow> eexpr \<Rightarrow> estmt" where "assign_stmt l r = StExpr (XBinary TOKEN_ASSIGN l r)"

text \<open>
  A local of an inner block hides the global of its name in the whole function: the last
  assignment stores into the global \<open>g\<close>.
\<close>

lemma shadowed_global_unmarked:
  "reasons_in [StVar [''x''] [make_call], assign_stmt (XIdent ''g'') (XIdent ''x'')] ''x'' = ESCAPE_REASON_GLOBAL_STORE"
  "reasons_in [StVar [''x''] [make_call], StIf XLiteral [StVar [''g''] [XLiteral]] [], assign_stmt (XIdent ''g'') (XIdent ''x'')] ''x''
     = ESCAPE_REASON_NONE"
  by code_simp+

text \<open>
  \<open>m\<close> is another name of \<open>n\<close>, so the element store puts \<open>x\<close> into the returned \<open>n\<close>. A possible
  assignment of \<open>x\<close> to \<open>m\<close> makes the store look like one of \<open>m\<close> into itself.
\<close>

lemma aliased_store_unmarked:
  "reasons_in [StVar [''n''] [make_call], StVar [''x''] [make_call], StVar [''m''] [XIdent ''n''],
     assign_stmt (XIndex (XIdent ''m'') XLiteral) (XIdent ''x''), StReturn [XIdent ''n'']] ''x'' = ESCAPE_REASON_CONTAINER_STORE"
  "reasons_in [StVar [''n''] [make_call], StVar [''x''] [make_call], StVar [''m''] [XIdent ''n''],
     StIf XLiteral [assign_stmt (XIdent ''m'') (XIdent ''x'')] [],
     assign_stmt (XIndex (XIdent ''m'') XLiteral) (XIdent ''x''), StReturn [XIdent ''n'']] ''x'' = ESCAPE_REASON_NONE"
  by code_simp+

text \<open>The key of a range loop carries nothing, the value does.\<close>

lemma range_key_unmarked:
  "reasons_in [StVar [''s''] [make_call], StVar [''m''] [XMapLit [XIdent ''s''] [XLiteral]],
     StRange None (Some ''v'') (XIdent ''m'') [StReturn [XIdent ''v'']]] ''s'' = ESCAPE_REASON_RETURN"
  "reasons_in [StVar [''s''] [make_call], StVar [''m''] [XMapLit [XIdent ''s''] [XLiteral]],
     StRange (Some ''k'') None (XIdent ''m'') [StReturn [XIdent ''k'']]] ''s'' = ESCAPE_REASON_NONE"
  by code_simp+

end
