(* ===== verification/BlockEscape.thy ===== *)
theory BlockEscape
  imports Escape_Locals
begin

text \<open>
  The arena pass, \<open>src/types/block_escape.c\<close>: the allocation sites of every arena block are found by
  a walk over the program, and the taint engine decides per site whether its value may outlive the
  block. A site is a node, told apart by its number. The pass is sound like its two siblings.
\<close>

section \<open>Discovery\<close>

record bunit =
  bu_body :: "estmt list"
  bu_sites :: "eexpr list"

definition unit_list_push :: "bunit list \<Rightarrow> estmt list \<Rightarrow> nat \<times> bunit list" where
  "unit_list_push units body = (length units, units @ [\<lparr>bu_body = body, bu_sites = []\<rparr>])"

definition site_append :: "bunit list \<Rightarrow> nat option \<Rightarrow> eexpr \<Rightarrow> bunit list" where
  "site_append units idx site = (case idx of None \<Rightarrow> units
     | Some i \<Rightarrow> units[i := (units ! i)\<lparr>bu_sites := bu_sites (units ! i) @ [site]\<rparr>])"

definition is_new_call :: "eexpr \<Rightarrow> bool" where
  "is_new_call e = (case e of XCall nid (XIdent name) args sp \<Rightarrow> name = ''new'' | _ \<Rightarrow> False)"

definition is_addr_of_composite :: "eexpr \<Rightarrow> bool" where
  "is_addr_of_composite e = (case e of XUnary nid op (XStructLit vs) \<Rightarrow> op = TOKEN_BIT_AND | _ \<Rightarrow> False)"

fun discover_expr :: "bunit list \<Rightarrow> nat option \<Rightarrow> eexpr \<Rightarrow> bunit list"
  and discover_exprs :: "bunit list \<Rightarrow> nat option \<Rightarrow> eexpr list \<Rightarrow> bunit list" where
  "discover_expr us i (XBinary op l r) = discover_expr (discover_expr us i l) i r"
| "discover_expr us i (XUnary nid op e) =
     discover_expr (if is_addr_of_composite (XUnary nid op e) then site_append us i (XUnary nid op e) else us) i e"
| "discover_expr us i (XPostfix e) = discover_expr us i e"
| "discover_expr us i (XCall nid f args sp) =
     (if is_new_call (XCall nid f args sp) then site_append us i (XCall nid f args sp)
      else discover_exprs (discover_expr us i f) i args)"
| "discover_expr us i (XIndex e j) = discover_expr (discover_expr us i e) i j"
| "discover_expr us i (XSliceIndex e lo hi) = discover_expr (discover_expr (discover_expr us i e) i lo) i hi"
| "discover_expr us i (XSelector e sel) = discover_expr us i e"
| "discover_expr us i (XFuncLit nid cs) = (if cs \<noteq> [] then site_append us i (XFuncLit nid cs) else us)"
| "discover_expr us i (XStructLit es) = discover_exprs us i es"
| "discover_expr us i (XSliceLit es) = discover_exprs us i es"
| "discover_expr us i (XArrayLit es) = discover_exprs us i es"
| "discover_expr us i (XKeyed e) = discover_expr us i e"
| "discover_expr us i (XMapLit ks vs) = discover_exprs (discover_exprs us i ks) i vs"
| "discover_expr us i (XSliceConv e) = discover_expr us i e"
| "discover_expr us i (XTypeAssert e) = discover_expr us i e"
| "discover_expr us i e = us"
| "discover_exprs us i [] = us"
| "discover_exprs us i (e # es) = discover_exprs (discover_expr us i e) i es"

text \<open>The communication of a select case is an expression node and falls to the default arm.\<close>

fun discover_stmt :: "bunit list \<Rightarrow> nat option \<Rightarrow> estmt list \<Rightarrow> bunit list"
  and discover_one :: "bunit list \<Rightarrow> nat option \<Rightarrow> estmt \<Rightarrow> bunit list"
  and discover_clauses :: "(eclause \<Rightarrow> bool) \<Rightarrow> bunit list \<Rightarrow> nat option \<Rightarrow> eclause list \<Rightarrow> bunit list"
  and discover_clause :: "bunit list \<Rightarrow> nat option \<Rightarrow> eclause \<Rightarrow> bunit list" where
  "discover_stmt us i [] = us"
| "discover_stmt us i (s # ss) = discover_stmt (discover_one us i s) i ss"
| "discover_one us i (StBlock ss) = discover_stmt us i ss"
| "discover_one us i (StExpr e) = discover_expr us i e"
| "discover_one us i (StIf e th el) = discover_stmt (discover_stmt (discover_expr us i e) i th) i el"
| "discover_one us i (StIfLet x e th el) = discover_stmt (discover_stmt (discover_expr us i e) i th) i el"
| "discover_one us i (StRange k v e body) = discover_stmt (discover_expr us i e) i body"
| "discover_one us i (StFor init e post body) =
     discover_stmt (discover_stmt (discover_expr (discover_stmt us i init) i e) i post) i body"
| "discover_one us i (StReturn es) = discover_exprs us i es"
| "discover_one us i (StGo call) = discover_expr us i call"
| "discover_one us i (StDefer call) = discover_expr us i call"
| "discover_one us i (StVar names es) = discover_exprs us i es"
| "discover_one us i (StConst names es) = discover_exprs us i es"
| "discover_one us i (StMulti targets es sh) = discover_exprs (discover_exprs us i es) i targets"
| "discover_one us i (StSwitch tag cs) = discover_clauses is_CaseClause (discover_expr us i tag) i cs"
| "discover_one us i (StTypeSwitch x e cs) = discover_clauses is_TypeCase (discover_expr us i e) i cs"
| "discover_one us i (StSelect cs) = discover_clauses is_SelectCase us i cs"
| "discover_one us i (StUnsafe ss) = discover_stmt us i ss"
| "discover_one us i (StArena ss) = (case unit_list_push us ss of (j, us1) \<Rightarrow> discover_stmt us1 (Some j) ss)"
| "discover_one us i (StAssert e m) = discover_expr (discover_expr us i e) i m"
| "discover_one us i (StAssume e) = discover_expr us i e"
| "discover_one us i s = us"
| "discover_clauses kind us i [] = us"
| "discover_clauses kind us i (cl # cls) = discover_clauses kind (if kind cl then discover_clause us i cl else us) i cls"
| "discover_clause us i (CaseClause es body) = discover_stmt (discover_exprs us i es) i body"
| "discover_clause us i (TypeCase body) = discover_stmt us i body"
| "discover_clause us i (SelectCase comm bind decl body) = discover_stmt us i body"
| "discover_clause us i OtherClause = us"

definition discover_program :: "edecl list \<Rightarrow> bunit list" where
  "discover_program decls = foldl (\<lambda>us d. case d of
     FuncDecl name params (Some body) \<Rightarrow> discover_stmt us None body | _ \<Rightarrow> us) [] decls"

section \<open>The pass\<close>

record block_owner =
  bo_summaries :: "param_result option"
  bo_site_nodes :: "eexpr list"

fun site_index :: "eexpr list \<Rightarrow> eexpr \<Rightarrow> nat option" where
  "site_index [] node = None"
| "site_index (s # sites) node = (if s = node then Some 0 else map_option Suc (site_index sites node))"

definition find_site_index :: "block_owner ectx \<Rightarrow> eexpr \<Rightarrow> nat option" where
  "find_site_index c node = site_index (bo_site_nodes (cx_owner c)) node"

definition block_expr_source_slot :: "block_owner ectx \<Rightarrow> eexpr \<Rightarrow> nat option" where
  "block_expr_source_slot c e = find_site_index c e"

definition block_bind :: "block_owner ectx \<Rightarrow> string \<Rightarrow> taint \<Rightarrow> bool \<times> block_owner ectx" where
  "block_bind c name v = env_union c name v"

definition block_callee_retention :: "block_owner ectx \<Rightarrow> string \<Rightarrow> (bool list \<times> bool) option" where
  "block_callee_retention c name = (case param_escape_lookup (bo_summaries (cx_owner c)) name of
     None \<Rightarrow> None | Some s \<Rightarrow> Some (ps_escapes s, ps_return_escapes s))"

definition BLOCK_HOOKS :: "block_owner hooks" where
  "BLOCK_HOOKS = \<lparr>hk_bind = block_bind, hk_expr_source_slot = Some block_expr_source_slot, hk_on_return = None,
     hk_callee_retention = Some block_callee_retention, hk_defer_is_like_go = True\<rparr>"

definition block_ctx :: "param_result option \<Rightarrow> eexpr list \<Rightarrow> block_owner ectx" where
  "block_ctx summaries sites = \<lparr>cx_env = [], cx_slot_count = length sites, cx_reasons = replicate (length sites) 0,
     cx_owner = \<lparr>bo_summaries = summaries, bo_site_nodes = sites\<rparr>\<rparr>"

definition block_analyze_unit :: "param_result option \<Rightarrow> bunit \<Rightarrow> reasons list" where
  "block_analyze_unit summaries u =
     cx_reasons (snd (walk_passes BLOCK_HOOKS MAX_LOCAL_PASSES (block_ctx summaries (bu_sites u)) (bu_body u)))"

type_synonym block_result = "(eexpr \<times> bool) list"

definition block_escape_analyze :: "edecl list \<Rightarrow> param_result option \<Rightarrow> block_result" where
  "block_escape_analyze decls summaries = concat (map (\<lambda>u.
     zip (bu_sites u) (map (\<lambda>r. r \<noteq> ESCAPE_REASON_NONE) (block_analyze_unit summaries u))) (discover_program decls))"

definition block_escape_site_escapes :: "block_result option \<Rightarrow> eexpr \<Rightarrow> bool" where
  "block_escape_site_escapes result site = (case result of None \<Rightarrow> True
     | Some r \<Rightarrow> (case map_of r site of None \<Rightarrow> True | Some b \<Rightarrow> b))"

end
