(* ===== verification/Release.thy ===== *)
theory Release
  imports BlockEscape
begin

text \<open>
  The decision which locals are released, \<open>src/types/release_decision.c\<close>: a walk collects the
  bindings of every local of a function with their nesting, and a verdict per local combines them
  with the escape analyses. A null pointer is \<open>XNull\<close>; allocation is taken to succeed. The plan
  stores the nodes it finds; queries by node are answered by the node itself.
\<close>

section \<open>Collected facts\<close>

datatype release_verdict = RELEASE_OK | RELEASE_NO_ESCAPES | RELEASE_NO_NOT_OWNED | RELEASE_NO_ARENA | RELEASE_NO_LOOP_SCOPE
  | RELEASE_NO_REBOUND | RELEASE_NO_ALIASED | RELEASE_NO_BLOCK_ESCAPE | RELEASE_NO_NO_BINDING | RELEASE_NO_UNKNOWN

record local_record =
  lr_name :: string
  lr_bound_value :: eexpr
  lr_binding_count :: nat
  lr_block_depth :: int
  lr_arena_depth :: nat
  lr_declared :: bool
  lr_block_escapes :: bool
  lr_loop_header :: bool
  lr_values :: "eexpr list"
  lr_has_unsafe_value :: bool

record collected =
  co_items :: "local_record list"
  co_unreadable :: bool
  co_key_sites :: "eexpr list"
  co_concat_sites :: "eexpr list"
  co_elem_sites :: "(string \<times> eexpr) list"
  co_loop_locals_unreadable :: bool

record walk_ctx =
  wc_block_depth :: int
  wc_arena_depth :: nat
  wc_in_loop_header :: bool

definition INT_MAX :: int where "INT_MAX = 2 ^ 31 - 1"

fun find_item :: "local_record list \<Rightarrow> string \<Rightarrow> local_record option" where
  "find_item [] name = None"
| "find_item (r # rs) name = (if lr_name r = name then Some r else find_item rs name)"

definition find_record :: "collected \<Rightarrow> string \<Rightarrow> local_record option" where
  "find_record c name = find_item (co_items c) name"

fun update_item :: "local_record list \<Rightarrow> string \<Rightarrow> (local_record \<Rightarrow> local_record) \<Rightarrow> local_record list" where
  "update_item [] name f = []"
| "update_item (r # rs) name f = (if lr_name r = name then f r # rs else r # update_item rs name f)"

definition update_record :: "collected \<Rightarrow> string \<Rightarrow> (local_record \<Rightarrow> local_record) \<Rightarrow> collected" where
  "update_record c name f = c\<lparr>co_items := update_item (co_items c) name f\<rparr>"

definition empty_record :: "string \<Rightarrow> local_record" where
  "empty_record name = \<lparr>lr_name = name, lr_bound_value = XNull, lr_binding_count = 0, lr_block_depth = 0, lr_arena_depth = 0,
     lr_declared = False, lr_block_escapes = False, lr_loop_header = False, lr_values = [], lr_has_unsafe_value = False\<rparr>"

definition intern_record :: "collected \<Rightarrow> string \<Rightarrow> collected" where
  "intern_record c name = (if find_record c name \<noteq> None then c else c\<lparr>co_items := co_items c @ [empty_record name]\<rparr>)"

definition record_value :: "eexpr \<Rightarrow> local_record \<Rightarrow> local_record" where
  "record_value v r = r\<lparr>lr_values := lr_values r @ [v]\<rparr>"

text \<open>Marks every local named in an expression that is declared deeper than the target of its store.\<close>

fun mark_mentions :: "collected \<Rightarrow> int \<Rightarrow> eexpr \<Rightarrow> collected"
  and mark_mentions_list :: "collected \<Rightarrow> int \<Rightarrow> eexpr list \<Rightarrow> collected" where
  "mark_mentions c d XNull = c"
| "mark_mentions c d (XIdent name) = (case find_record c name of None \<Rightarrow> c
     | Some r \<Rightarrow> if lr_block_depth r > d then update_record c name (\<lambda>r. r\<lparr>lr_block_escapes := True\<rparr>) else c)"
| "mark_mentions c d XLiteral = c"
| "mark_mentions c d (XBinary op l r) = mark_mentions (mark_mentions c d l) d r"
| "mark_mentions c d (XUnary nid op e) = mark_mentions c d e"
| "mark_mentions c d (XCall nid f args sp) = mark_mentions_list (mark_mentions c d f) d args"
| "mark_mentions c d (XIndex e i) = mark_mentions (mark_mentions c d e) d i"
| "mark_mentions c d (XSelector e sel) = mark_mentions c d e"
| "mark_mentions c d (XSliceIndex e lo hi) = mark_mentions (mark_mentions (mark_mentions c d e) d lo) d hi"
| "mark_mentions c d (XSliceLit es) = mark_mentions_list c d es"
| "mark_mentions c d (XArrayLit es) = mark_mentions_list c d es"
| "mark_mentions c d (XMapLit ks vs) = mark_mentions_list (mark_mentions_list c d ks) d vs"
| "mark_mentions c d (XStructLit es) = mark_mentions_list c d es"
| "mark_mentions c d e = c\<lparr>co_loop_locals_unreadable := True\<rparr>"
| "mark_mentions_list c d [] = c"
| "mark_mentions_list c d (e # es) = mark_mentions_list (mark_mentions c d e) d es"

fun note_concat_operands :: "collected \<Rightarrow> eexpr \<Rightarrow> collected"
  and note_concat_operand_list :: "collected \<Rightarrow> eexpr list \<Rightarrow> collected" where
  "note_concat_operands c (XBinary op l r) =
     (let c1 = (if op = TOKEN_PLUS then c\<lparr>co_concat_sites := co_concat_sites c @ filter (\<lambda>e. e \<noteq> XNull) [l, r]\<rparr> else c)
      in note_concat_operands (note_concat_operands c1 l) r)"
| "note_concat_operands c (XUnary nid op e) = note_concat_operands c e"
| "note_concat_operands c (XCall nid f args sp) = note_concat_operand_list (note_concat_operands c f) args"
| "note_concat_operands c (XIndex e i) = note_concat_operands (note_concat_operands c e) i"
| "note_concat_operands c (XSelector e sel) = note_concat_operands c e"
| "note_concat_operands c (XSliceIndex e lo hi) = note_concat_operands (note_concat_operands (note_concat_operands c e) lo) hi"
| "note_concat_operands c (XSliceLit es) = note_concat_operand_list c es"
| "note_concat_operands c (XArrayLit es) = note_concat_operand_list c es"
| "note_concat_operands c (XMapLit ks vs) = note_concat_operand_list (note_concat_operand_list c ks) vs"
| "note_concat_operands c (XStructLit es) = note_concat_operand_list c es"
| "note_concat_operands c e = c"
| "note_concat_operand_list c [] = c"
| "note_concat_operand_list c (e # es) = note_concat_operand_list (note_concat_operands c e) es"

definition target_lifetime_depth :: "collected \<Rightarrow> eexpr \<Rightarrow> int" where
  "target_lifetime_depth c lhs = (case lhs of XIdent name \<Rightarrow>
       if name = ''_'' then INT_MAX
       else (case find_record c name of None \<Rightarrow> -1 | Some r \<Rightarrow> if \<not> lr_declared r then -1 else lr_block_depth r)
     | _ \<Rightarrow> -1)"

definition note_elem_site :: "collected \<Rightarrow> string \<Rightarrow> eexpr \<Rightarrow> collected" where
  "note_elem_site c target e = c\<lparr>co_elem_sites := co_elem_sites c @ [(target, e)]\<rparr>"

definition note_literal_elems :: "collected \<Rightarrow> string \<Rightarrow> eexpr \<Rightarrow> collected" where
  "note_literal_elems c target v = (case v of XSliceLit es \<Rightarrow> foldl (\<lambda>c e. note_elem_site c target e) c es | _ \<Rightarrow> c)"

definition note_declaration :: "walk_ctx \<Rightarrow> collected \<Rightarrow> string option \<Rightarrow> eexpr \<Rightarrow> collected" where
  "note_declaration wc c name v = (case name of None \<Rightarrow> c | Some n \<Rightarrow>
     if n = ''_'' then c
     else let c1 = mark_mentions (intern_record c n) (wc_block_depth wc) v;
              c2 = (case find_record c1 n of
                  Some r \<Rightarrow> if lr_declared r then c1
                    else note_literal_elems (update_record c1 n (\<lambda>r. r\<lparr>lr_declared := True, lr_bound_value := v,
                      lr_block_depth := wc_block_depth wc, lr_arena_depth := wc_arena_depth wc,
                      lr_loop_header := wc_in_loop_header wc\<rparr>)) n v
                | None \<Rightarrow> c1)
          in update_record c2 n (\<lambda>r. (record_value v r)\<lparr>lr_binding_count := lr_binding_count r + 1\<rparr>))"

definition is_self_append :: "string \<Rightarrow> eexpr \<Rightarrow> bool" where
  "is_self_append target rhs = (case rhs of
     XCall nid (XIdent f) (XIdent a # args) sp \<Rightarrow> f = ''append'' \<and> a = target
   | _ \<Rightarrow> False)"

definition release_decision_is_self_append :: "string option \<Rightarrow> eexpr \<Rightarrow> bool" where
  "release_decision_is_self_append target rhs = (case target of None \<Rightarrow> False | Some t \<Rightarrow> is_self_append t rhs)"

fun note_key_site :: "collected \<Rightarrow> eexpr \<Rightarrow> collected" where
  "note_key_site c (XIndex e i) = note_key_site (c\<lparr>co_key_sites := co_key_sites c @ [i]\<rparr>) e"
| "note_key_site c e = c"

definition note_append_elems :: "collected \<Rightarrow> string \<Rightarrow> eexpr \<Rightarrow> collected" where
  "note_append_elems c target rhs = (case rhs of
     XCall nid f (a # args) sp \<Rightarrow> foldl (\<lambda>c e. note_elem_site c target e) c args | _ \<Rightarrow> c)"

definition note_assignment :: "collected \<Rightarrow> eexpr \<Rightarrow> eexpr \<Rightarrow> bool \<Rightarrow> collected" where
  "note_assignment c lhs rhs plain =
     (if lhs = XNull then c
      else let c1 = note_key_site (mark_mentions c (target_lifetime_depth c lhs) rhs) lhs in
        case lhs of
          XIdent name \<Rightarrow>
            if name = ''_'' then c1
            else let c2 = intern_record c1 name in
              if plain \<and> is_self_append name rhs then note_append_elems c2 name rhs
              else update_record c2 name (\<lambda>r. (if plain then record_value rhs r else r\<lparr>lr_has_unsafe_value := True\<rparr>)
                \<lparr>lr_binding_count := lr_binding_count r + 1\<rparr>)
        | _ \<Rightarrow> c1)"

definition seed_names :: "walk_ctx \<Rightarrow> collected \<Rightarrow> string list \<Rightarrow> eexpr list \<Rightarrow> collected" where
  "seed_names wc c names values =
     (if length values = length names then foldl (\<lambda>c (n, v). note_declaration wc c (Some n) v) c (zip names values)
      else foldl (\<lambda>c n. note_declaration wc c (Some n) (if length values = 1 then hd values else XNull)) c names)"

text \<open>The operators are those of \<open>is_assign_op\<close>; the source has a second copy of the list.\<close>

definition is_assign_operator :: "token_type \<Rightarrow> bool" where
  "is_assign_operator op = (op \<in> {TOKEN_ASSIGN, TOKEN_PLUS_ASSIGN, TOKEN_MINUS_ASSIGN, TOKEN_MUL_ASSIGN, TOKEN_DIV_ASSIGN,
     TOKEN_MOD_ASSIGN, TOKEN_AND_ASSIGN, TOKEN_OR_ASSIGN, TOKEN_XOR_ASSIGN, TOKEN_LSHIFT_ASSIGN, TOKEN_RSHIFT_ASSIGN})"

definition note_expr_assign :: "collected \<Rightarrow> eexpr \<Rightarrow> collected" where
  "note_expr_assign c e = (case e of
     XBinary op l r \<Rightarrow> if is_assign_operator op then note_assignment c l r (op = TOKEN_ASSIGN) else c
   | _ \<Rightarrow> c)"

definition note_multi :: "walk_ctx \<Rightarrow> collected \<Rightarrow> eexpr list \<Rightarrow> eexpr list \<Rightarrow> bool \<Rightarrow> collected" where
  "note_multi wc c targets values is_short_decl =
     (let same = (length targets = length values);
          c1 = (if \<not> is_short_decl \<and> \<not> same
            then mark_mentions_list c (foldl (\<lambda>m t. min m (target_lifetime_depth c t)) INT_MAX targets) values else c);
          vs = (if same then values
                else replicate (length targets) (if is_short_decl \<and> length values = 1 then hd values else XNull))
      in foldl (\<lambda>c (t, v). if is_short_decl then (case t of XIdent n \<Rightarrow> note_declaration wc c (Some n) v | _ \<Rightarrow> c)
           else note_assignment c t v True) c1 (zip targets vs))"

definition note_select_bind :: "walk_ctx \<Rightarrow> collected \<Rightarrow> string option \<Rightarrow> int \<Rightarrow> collected" where
  "note_select_bind wc c bind is_declare = (case bind of None \<Rightarrow> c | Some n \<Rightarrow>
     if n = ''_'' then c
     else if is_declare = 1 then note_declaration wc c (Some n) XNull
     else if is_declare = 0 then update_record (intern_record c n) n
       (\<lambda>r. r\<lparr>lr_has_unsafe_value := True, lr_binding_count := lr_binding_count r + 1\<rparr>)
     else c)"

definition deeper :: "walk_ctx \<Rightarrow> walk_ctx" where
  "deeper wc = wc\<lparr>wc_block_depth := wc_block_depth wc + 1\<rparr>"

definition unreadable :: "collected \<Rightarrow> collected" where
  "unreadable c = c\<lparr>co_unreadable := True\<rparr>"

fun walk_stmts :: "walk_ctx \<Rightarrow> collected \<Rightarrow> estmt list \<Rightarrow> collected"
  and walk_stmt :: "walk_ctx \<Rightarrow> collected \<Rightarrow> estmt \<Rightarrow> collected"
  and walk_cases :: "(eclause \<Rightarrow> bool) \<Rightarrow> walk_ctx \<Rightarrow> collected \<Rightarrow> eclause list \<Rightarrow> collected"
  and walk_case :: "walk_ctx \<Rightarrow> collected \<Rightarrow> eclause \<Rightarrow> collected" where
  "walk_stmts wc c [] = c"
| "walk_stmts wc c (s # ss) = walk_stmts wc (walk_stmt wc c s) ss"
| "walk_stmt wc c (StBlock ss) = walk_stmts wc c ss"
| "walk_stmt wc c (StExpr e) = note_expr_assign (note_concat_operands c e) e"
| "walk_stmt wc c (StVar names es) = seed_names wc (note_concat_operand_list c es) names es"
| "walk_stmt wc c (StConst names es) = seed_names wc (note_concat_operand_list c es) names es"
| "walk_stmt wc c (StMulti targets es sh) = note_multi wc (note_concat_operand_list c es) targets es sh"
| "walk_stmt wc c (StIf e th el) = walk_stmts wc (walk_stmts wc c th) el"
| "walk_stmt wc c (StFor init e post body) =
     (let hd = (deeper wc)\<lparr>wc_in_loop_header := True\<rparr> in
      walk_stmts (deeper wc) (walk_stmts hd (walk_stmts hd c init) post) body)"
| "walk_stmt wc c (StRange k v e body) =
     (let hd = (deeper wc)\<lparr>wc_in_loop_header := True\<rparr> in
      walk_stmts (deeper wc) (note_declaration hd (note_declaration hd c k XNull) v XNull) body)"
| "walk_stmt wc c (StArena ss) = walk_stmts (wc\<lparr>wc_arena_depth := wc_arena_depth wc + 1\<rparr>) c ss"
| "walk_stmt wc c (StUnsafe ss) = walk_stmts wc c ss"
| "walk_stmt wc c (StSwitch tag cs) = walk_cases is_CaseClause (deeper wc) c cs"
| "walk_stmt wc c (StTypeSwitch x e cs) = walk_cases is_TypeCase (deeper wc) (note_declaration (deeper wc) c x XNull) cs"
| "walk_stmt wc c (StSelect cs) = walk_cases is_SelectCase (deeper wc) c cs"
| "walk_stmt wc c (StIfLet x e th el) = walk_stmts wc (walk_stmts wc (note_declaration wc c x XNull) th) el"
| "walk_stmt wc c (StReturn es) = note_concat_operand_list c es"
| "walk_stmt wc c StBreak = c"
| "walk_stmt wc c StContinue = c"
| "walk_stmt wc c (StGo call) = c"
| "walk_stmt wc c (StDefer call) = c"
| "walk_stmt wc c s = unreadable c"
| "walk_cases kind wc c [] = c"
| "walk_cases kind wc c (cl # cls) = walk_cases kind wc (if kind cl then walk_case wc c cl else unreadable c) cls"
| "walk_case wc c (CaseClause es body) = walk_stmts wc c body"
| "walk_case wc c (TypeCase body) = walk_stmts wc c body"
| "walk_case wc c (SelectCase comm bind decl body) =
     walk_stmts wc (note_select_bind wc (note_expr_assign c comm) bind decl) body"
| "walk_case wc c OtherClause = c"

section \<open>Ownership of a value\<close>

definition record_base_is_local :: "collected \<Rightarrow> eexpr \<Rightarrow> bool" where
  "record_base_is_local c f = (case f of XSelector (XIdent name) sel \<Rightarrow> find_record c name \<noteq> None | _ \<Rightarrow> False)"

definition call_result_is_owned :: "collected \<Rightarrow> param_result option \<Rightarrow> eexpr \<Rightarrow> bool" where
  "call_result_is_owned c pe f = (case f of
     XIdent name \<Rightarrow> (case param_escape_lookup pe name of None \<Rightarrow> False | Some s \<Rightarrow> \<not> ps_return_escapes s)
   | XSelector (XIdent pkg) sel \<Rightarrow> \<not> record_base_is_local c f \<and> shim_signature_is_non_retaining (Some pkg) (Some sel)
   | _ \<Rightarrow> False)"

definition binding_returns_owned_elems :: "collected \<Rightarrow> string \<Rightarrow> bool" where
  "binding_returns_owned_elems c name = (case find_record c name of None \<Rightarrow> False | Some r \<Rightarrow>
     lr_declared r \<and> lr_binding_count r = 1 \<and> (case lr_bound_value r of
       XCall nid (XSelector (XIdent pkg) sel) args sp \<Rightarrow>
         \<not> record_base_is_local c (XSelector (XIdent pkg) sel) \<and> shim_signature_returns_owned_elems (Some pkg) (Some sel)
     | _ \<Rightarrow> False))"

definition binding_is_owned :: "collected \<Rightarrow> param_result option \<Rightarrow> eexpr \<Rightarrow> bool" where
  "binding_is_owned c pe v = (is_new_call v \<or> is_addr_of_composite v \<or> (case v of
     XStructLit es \<Rightarrow> True | XSliceLit es \<Rightarrow> True | XArrayLit es \<Rightarrow> True | XMapLit ks vs \<Rightarrow> True
   | XCall nid f args sp \<Rightarrow> call_result_is_owned c pe f
   | XBinary op l r \<Rightarrow> op = TOKEN_PLUS
   | _ \<Rightarrow> False))"

definition value_is_release_safe :: "collected \<Rightarrow> param_result option \<Rightarrow> eexpr \<Rightarrow> bool" where
  "value_is_release_safe c pe v = (v = XLiteral \<or> binding_is_owned c pe v)"

definition all_values_release_safe :: "collected \<Rightarrow> param_result option \<Rightarrow> local_record \<Rightarrow> bool" where
  "all_values_release_safe c pe r = (\<not> lr_has_unsafe_value r \<and> lr_values r \<noteq> [] \<and> list_all (value_is_release_safe c pe) (lr_values r))"

text \<open>Whether an expression names a local, and whether a node was met that the search cannot read.\<close>

definition or_else :: "bool \<times> bool \<Rightarrow> (bool \<times> bool) \<Rightarrow> bool \<times> bool" where
  "or_else a b = (if fst a then a else (fst b, snd a \<or> snd b))"

fun expr_names_local :: "eexpr \<Rightarrow> string \<Rightarrow> bool \<times> bool"
  and exprs_name_local :: "eexpr list \<Rightarrow> string \<Rightarrow> bool \<times> bool" where
  "expr_names_local XNull t = (False, False)"
| "expr_names_local (XIdent n) t = (n = t, False)"
| "expr_names_local XLiteral t = (False, False)"
| "expr_names_local (XBinary op l r) t = or_else (expr_names_local l t) (expr_names_local r t)"
| "expr_names_local (XUnary nid op e) t = expr_names_local e t"
| "expr_names_local (XPostfix e) t = expr_names_local e t"
| "expr_names_local (XCall nid f args sp) t = or_else (expr_names_local f t) (exprs_name_local args t)"
| "expr_names_local (XIndex e i) t = or_else (expr_names_local e t) (expr_names_local i t)"
| "expr_names_local (XSelector e sel) t = expr_names_local e t"
| "expr_names_local (XSliceIndex e lo hi) t = or_else (expr_names_local e t) (or_else (expr_names_local lo t) (expr_names_local hi t))"
| "expr_names_local (XSliceLit es) t = exprs_name_local es t"
| "expr_names_local (XArrayLit es) t = exprs_name_local es t"
| "expr_names_local (XMapLit ks vs) t = or_else (exprs_name_local ks t) (exprs_name_local vs t)"
| "expr_names_local (XStructLit es) t = exprs_name_local es t"
| "expr_names_local e t = (False, True)"
| "exprs_name_local [] t = (False, False)"
| "exprs_name_local (e # es) t = or_else (expr_names_local e t) (exprs_name_local es t)"

definition may_alias :: "collected \<Rightarrow> param_result option \<Rightarrow> string \<Rightarrow> eexpr \<Rightarrow> bool" where
  "may_alias c pe name v = (v \<noteq> XNull \<and> \<not> binding_is_owned c pe v
     \<and> (case expr_names_local v name of (found, unknown) \<Rightarrow> found \<or> unknown))"

definition has_alias :: "collected \<Rightarrow> param_result option \<Rightarrow> string \<Rightarrow> bool" where
  "has_alias c pe name = list_ex (\<lambda>r. lr_name r \<noteq> name \<and> list_ex (may_alias c pe name) (lr_values r)) (co_items c)"

definition identifier_key_is_owned :: "collected \<Rightarrow> param_result option \<Rightarrow> local_summary list option \<Rightarrow> string \<Rightarrow> eexpr \<Rightarrow> bool" where
  "identifier_key_is_owned c pe le fn key = (case key of
     XIdent name \<Rightarrow> (case find_record c name of None \<Rightarrow> False | Some r \<Rightarrow>
       \<not> lr_has_unsafe_value r \<and> lr_values r \<noteq> [] \<and> list_all (binding_is_owned c pe) (lr_values r)
       \<and> local_escape_local_reasons le fn name = ESCAPE_REASON_SUBSCRIPT_STORE
       \<and> length (filter (\<lambda>k. k = XIdent name) (co_key_sites c)) = 1)
   | _ \<Rightarrow> False)"

section \<open>The plan\<close>

definition decide :: "collected \<Rightarrow> local_record \<Rightarrow> param_result option \<Rightarrow> local_summary list option \<Rightarrow> string \<Rightarrow> release_verdict" where
  "decide c r pe le fn =
     (if co_unreadable c then RELEASE_NO_UNKNOWN
      else if \<not> lr_declared r then RELEASE_NO_NO_BINDING
      else if local_escape_local_escapes le fn (lr_name r) then RELEASE_NO_ESCAPES
      else if lr_arena_depth r > 0 then RELEASE_NO_ARENA
      else if lr_block_depth r > 0 \<and> lr_loop_header r then RELEASE_NO_LOOP_SCOPE
      else if lr_block_depth r > 0 \<and> (co_loop_locals_unreadable c \<or> lr_block_escapes r) then RELEASE_NO_BLOCK_ESCAPE
      else if lr_binding_count r > 1 then
        (if \<not> all_values_release_safe c pe r then RELEASE_NO_NOT_OWNED
         else if has_alias c pe (lr_name r) then RELEASE_NO_ALIASED else RELEASE_OK)
      else if \<not> binding_is_owned c pe (lr_bound_value r) then RELEASE_NO_NOT_OWNED
      else RELEASE_OK)"

record decision =
  de_local_name :: string
  de_verdict :: release_verdict
  de_owns_elems :: bool
  de_diagnostic_reasons :: reasons

record plan_function =
  pf_function_name :: string
  pf_decisions :: "decision list"
  pf_owned_keys :: "eexpr list"
  pf_owned_concat_operands :: "eexpr list"

definition owns_elems :: "collected \<Rightarrow> param_result option \<Rightarrow> string \<Rightarrow> bool" where
  "owns_elems c pe name = (let es = map snd (filter (\<lambda>(t, e). t = name) (co_elem_sites c)) in
     list_all (binding_is_owned c pe) es \<and> (es \<noteq> [] \<or> binding_returns_owned_elems c name))"

definition empty_collected :: collected where
  "empty_collected = \<lparr>co_items = [], co_unreadable = False, co_key_sites = [], co_concat_sites = [], co_elem_sites = [],
     co_loop_locals_unreadable = False\<rparr>"

definition collect_body :: "estmt list \<Rightarrow> collected" where
  "collect_body body = walk_stmts \<lparr>wc_block_depth = 0, wc_arena_depth = 0, wc_in_loop_header = False\<rparr> empty_collected body"

definition plan_function :: "param_result option \<Rightarrow> local_summary list option \<Rightarrow> string \<Rightarrow> estmt list \<Rightarrow> plan_function" where
  "plan_function pe le fn body = (let c = collect_body body in
     \<lparr>pf_function_name = fn,
      pf_decisions = map (\<lambda>r. \<lparr>de_local_name = lr_name r, de_verdict = decide c r pe le fn, de_owns_elems = owns_elems c pe (lr_name r),
        de_diagnostic_reasons = local_escape_local_reasons le fn (lr_name r)\<rparr>) (co_items c),
      pf_owned_keys = filter (\<lambda>k. binding_is_owned c pe k \<or> identifier_key_is_owned c pe le fn k) (co_key_sites c),
      pf_owned_concat_operands = filter (binding_is_owned c pe) (co_concat_sites c)\<rparr>)"

definition release_plan_analyze :: "edecl list \<Rightarrow> plan_function list" where
  "release_plan_analyze decls = (let pe = Some (param_escape_analyze decls); le = Some (local_escape_analyze decls pe) in
     concat (map (\<lambda>d. case d of
         FuncDecl (Some fn) params body \<Rightarrow> [plan_function pe le fn (case body of None \<Rightarrow> [] | Some b \<Rightarrow> b)]
       | _ \<Rightarrow> []) decls))"

fun find_function :: "plan_function list \<Rightarrow> string \<Rightarrow> plan_function option" where
  "find_function [] fn = None"
| "find_function (f # fs) fn = (if pf_function_name f = fn then Some f else find_function fs fn)"

fun find_decision :: "decision list \<Rightarrow> string \<Rightarrow> decision option" where
  "find_decision [] name = None"
| "find_decision (d # ds) name = (if de_local_name d = name then Some d else find_decision ds name)"

definition lookup_decision :: "plan_function list option \<Rightarrow> string \<Rightarrow> string \<Rightarrow> decision option" where
  "lookup_decision plan fn name = (case plan of None \<Rightarrow> None | Some p \<Rightarrow>
     (case find_function p fn of None \<Rightarrow> None | Some f \<Rightarrow> find_decision (pf_decisions f) name))"

definition release_plan_verdict :: "plan_function list option \<Rightarrow> string \<Rightarrow> string \<Rightarrow> release_verdict" where
  "release_plan_verdict plan fn name = (case lookup_decision plan fn name of None \<Rightarrow> RELEASE_NO_NO_BINDING | Some d \<Rightarrow> de_verdict d)"

definition release_plan_should_release :: "plan_function list option \<Rightarrow> string \<Rightarrow> string \<Rightarrow> bool" where
  "release_plan_should_release plan fn name = (release_plan_verdict plan fn name = RELEASE_OK)"

definition release_plan_slice_owns_elems :: "plan_function list option \<Rightarrow> string \<Rightarrow> string \<Rightarrow> bool" where
  "release_plan_slice_owns_elems plan fn name = (case lookup_decision plan fn name of None \<Rightarrow> False | Some d \<Rightarrow> de_owns_elems d)"

definition release_plan_diagnostic_reasons :: "plan_function list option \<Rightarrow> string \<Rightarrow> string \<Rightarrow> reasons" where
  "release_plan_diagnostic_reasons plan fn name = (case lookup_decision plan fn name of
     None \<Rightarrow> ESCAPE_REASON_ALL | Some d \<Rightarrow> de_diagnostic_reasons d)"

text \<open>Asked for a node that the walk recorded.\<close>

definition release_plan_key_is_owned :: "plan_function list option \<Rightarrow> string \<Rightarrow> eexpr \<Rightarrow> bool" where
  "release_plan_key_is_owned plan fn key = (case plan of None \<Rightarrow> False | Some p \<Rightarrow>
     (case find_function p fn of None \<Rightarrow> False | Some f \<Rightarrow> key \<in> set (pf_owned_keys f)))"

definition release_plan_concat_operand_is_owned :: "plan_function list option \<Rightarrow> string \<Rightarrow> eexpr \<Rightarrow> bool" where
  "release_plan_concat_operand_is_owned plan fn operand = (case plan of None \<Rightarrow> False | Some p \<Rightarrow>
     (case find_function p fn of None \<Rightarrow> False | Some f \<Rightarrow> operand \<in> set (pf_owned_concat_operands f)))"

definition release_verdict_name :: "release_verdict \<Rightarrow> string" where
  "release_verdict_name v = (case v of RELEASE_OK \<Rightarrow> ''RELEASE_OK'' | RELEASE_NO_ESCAPES \<Rightarrow> ''RELEASE_NO_ESCAPES''
     | RELEASE_NO_NOT_OWNED \<Rightarrow> ''RELEASE_NO_NOT_OWNED'' | RELEASE_NO_ARENA \<Rightarrow> ''RELEASE_NO_ARENA''
     | RELEASE_NO_LOOP_SCOPE \<Rightarrow> ''RELEASE_NO_LOOP_SCOPE'' | RELEASE_NO_REBOUND \<Rightarrow> ''RELEASE_NO_REBOUND''
     | RELEASE_NO_ALIASED \<Rightarrow> ''RELEASE_NO_ALIASED'' | RELEASE_NO_BLOCK_ESCAPE \<Rightarrow> ''RELEASE_NO_BLOCK_ESCAPE''
     | RELEASE_NO_NO_BINDING \<Rightarrow> ''RELEASE_NO_NO_BINDING'' | RELEASE_NO_UNKNOWN \<Rightarrow> ''RELEASE_NO_UNKNOWN'')"

end
