(* ===== verification/BlockEscape_Sound.thy ===== *)
theory BlockEscape_Sound
  imports BlockEscape
begin

text \<open>
  Discovery finds every arena block in source order, each with the allocations written directly in
  it, and a site that the pass leaves unmarked is lost by no run of its block.
\<close>

section \<open>What discovery finds\<close>

text \<open>The allocation sites of expressions and statements, those of a nested arena block left out.\<close>

fun expr_sites :: "eexpr \<Rightarrow> eexpr list" where
  "expr_sites (XBinary op l r) = expr_sites l @ expr_sites r"
| "expr_sites (XUnary nid op e) = (if is_addr_of_composite (XUnary nid op e) then [XUnary nid op e] else []) @ expr_sites e"
| "expr_sites (XPostfix e) = expr_sites e"
| "expr_sites (XCall nid f args sp) = (if is_new_call (XCall nid f args sp) then [XCall nid f args sp]
     else expr_sites f @ concat (map expr_sites args))"
| "expr_sites (XIndex e j) = expr_sites e @ expr_sites j"
| "expr_sites (XSliceIndex e lo hi) = expr_sites e @ expr_sites lo @ expr_sites hi"
| "expr_sites (XSelector e sel) = expr_sites e"
| "expr_sites (XFuncLit nid cs) = (if cs \<noteq> [] then [XFuncLit nid cs] else [])"
| "expr_sites (XStructLit es) = concat (map expr_sites es)"
| "expr_sites (XSliceLit es) = concat (map expr_sites es)"
| "expr_sites (XArrayLit es) = concat (map expr_sites es)"
| "expr_sites (XKeyed e) = expr_sites e"
| "expr_sites (XMapLit ks vs) = concat (map expr_sites ks) @ concat (map expr_sites vs)"
| "expr_sites (XSliceConv e) = expr_sites e"
| "expr_sites (XTypeAssert e) = expr_sites e"
| "expr_sites e = []"

abbreviation exprs_sites :: "eexpr list \<Rightarrow> eexpr list" where
  "exprs_sites es \<equiv> concat (map expr_sites es)"

text \<open>A body as the sites of its own and the arena blocks in it, outermost first.\<close>

fun own_sites :: "estmt list \<Rightarrow> eexpr list"
  and stmt_sites :: "estmt \<Rightarrow> eexpr list"
  and clauses_sites :: "(eclause \<Rightarrow> bool) \<Rightarrow> eclause list \<Rightarrow> eexpr list"
  and clause_sites :: "eclause \<Rightarrow> eexpr list" where
  "own_sites [] = []"
| "own_sites (s # ss) = stmt_sites s @ own_sites ss"
| "stmt_sites (StBlock ss) = own_sites ss"
| "stmt_sites (StExpr e) = expr_sites e"
| "stmt_sites (StIf e th el) = expr_sites e @ own_sites th @ own_sites el"
| "stmt_sites (StIfLet x e th el) = expr_sites e @ own_sites th @ own_sites el"
| "stmt_sites (StRange k v e body) = expr_sites e @ own_sites body"
| "stmt_sites (StFor init e post body) = own_sites init @ expr_sites e @ own_sites post @ own_sites body"
| "stmt_sites (StReturn es) = exprs_sites es"
| "stmt_sites (StGo call) = expr_sites call"
| "stmt_sites (StDefer call) = expr_sites call"
| "stmt_sites (StVar names es) = exprs_sites es"
| "stmt_sites (StConst names es) = exprs_sites es"
| "stmt_sites (StMulti targets es sh) = exprs_sites es @ exprs_sites targets"
| "stmt_sites (StSwitch tag cs) = expr_sites tag @ clauses_sites is_CaseClause cs"
| "stmt_sites (StTypeSwitch x e cs) = expr_sites e @ clauses_sites is_TypeCase cs"
| "stmt_sites (StSelect cs) = clauses_sites is_SelectCase cs"
| "stmt_sites (StUnsafe ss) = own_sites ss"
| "stmt_sites (StAssert e m) = expr_sites e @ expr_sites m"
| "stmt_sites (StAssume e) = expr_sites e"
| "stmt_sites s = []"
| "clauses_sites kind [] = []"
| "clauses_sites kind (cl # cls) = (if kind cl then clause_sites cl else []) @ clauses_sites kind cls"
| "clause_sites (CaseClause es body) = exprs_sites es @ own_sites body"
| "clause_sites (TypeCase body) = own_sites body"
| "clause_sites (SelectCase comm bind decl body) = own_sites body"
| "clause_sites OtherClause = []"

fun arenas :: "estmt list \<Rightarrow> estmt list list"
  and stmt_arenas :: "estmt \<Rightarrow> estmt list list"
  and clauses_arenas :: "(eclause \<Rightarrow> bool) \<Rightarrow> eclause list \<Rightarrow> estmt list list"
  and clause_arenas :: "eclause \<Rightarrow> estmt list list" where
  "arenas [] = []"
| "arenas (s # ss) = stmt_arenas s @ arenas ss"
| "stmt_arenas (StBlock ss) = arenas ss"
| "stmt_arenas (StIf e th el) = arenas th @ arenas el"
| "stmt_arenas (StIfLet x e th el) = arenas th @ arenas el"
| "stmt_arenas (StRange k v e body) = arenas body"
| "stmt_arenas (StFor init e post body) = arenas init @ arenas post @ arenas body"
| "stmt_arenas (StSwitch tag cs) = clauses_arenas is_CaseClause cs"
| "stmt_arenas (StTypeSwitch x e cs) = clauses_arenas is_TypeCase cs"
| "stmt_arenas (StSelect cs) = clauses_arenas is_SelectCase cs"
| "stmt_arenas (StUnsafe ss) = arenas ss"
| "stmt_arenas (StArena ss) = ss # arenas ss"
| "stmt_arenas s = []"
| "clauses_arenas kind [] = []"
| "clauses_arenas kind (cl # cls) = (if kind cl then clause_arenas cl else []) @ clauses_arenas kind cls"
| "clause_arenas (CaseClause es body) = arenas body"
| "clause_arenas (TypeCase body) = arenas body"
| "clause_arenas (SelectCase comm bind decl body) = arenas body"
| "clause_arenas OtherClause = []"

definition arena_unit :: "estmt list \<Rightarrow> bunit" where
  "arena_unit body = \<lparr>bu_body = body, bu_sites = own_sites body\<rparr>"

text \<open>The walk adds sites to the current unit and appends the units of the blocks it enters.\<close>

definition add_sites :: "bunit list \<Rightarrow> nat option \<Rightarrow> eexpr list \<Rightarrow> bunit list" where
  "add_sites us idx sites = (case idx of None \<Rightarrow> us
     | Some i \<Rightarrow> us[i := (us ! i)\<lparr>bu_sites := bu_sites (us ! i) @ sites\<rparr>])"

definition in_range :: "bunit list \<Rightarrow> nat option \<Rightarrow> bool" where
  "in_range us idx = (case idx of None \<Rightarrow> True | Some i \<Rightarrow> i < length us)"

lemma add_sites_simps [simp]:
  "in_range us idx \<Longrightarrow> add_sites us idx [] = us" "site_append us idx s = add_sites us idx [s]"
  "in_range us idx \<Longrightarrow> add_sites (add_sites us idx as) idx bs = add_sites us idx (as @ bs)"
  "length (add_sites us idx as) = length us" "in_range (add_sites us idx as) jdx = in_range us jdx"
  by (auto simp: add_sites_def in_range_def site_append_def split: option.split)

lemma add_sites_append:
  "in_range us idx \<Longrightarrow> add_sites (us @ vs) idx as = add_sites us idx as @ vs"
  "in_range us idx \<Longrightarrow> in_range (us @ vs) idx"
  by (auto simp: add_sites_def in_range_def list_update_append nth_append split: option.split)

lemma discover_expr_sites: "in_range us idx \<Longrightarrow> discover_expr us idx e = add_sites us idx (expr_sites e)"
  and discover_exprs_sites: "in_range us idx \<Longrightarrow> discover_exprs us idx es = add_sites us idx (exprs_sites es)"
  by (induction us idx e and us idx es rule: discover_expr_discover_exprs.induct) auto

lemma discover_stmt_units:
  "in_range us idx \<Longrightarrow> discover_stmt us idx ss = add_sites us idx (own_sites ss) @ map arena_unit (arenas ss)"
  "in_range us idx \<Longrightarrow> discover_one us idx s = add_sites us idx (stmt_sites s) @ map arena_unit (stmt_arenas s)"
  "in_range us idx \<Longrightarrow> discover_clauses kind us idx cls = add_sites us idx (clauses_sites kind cls) @ map arena_unit (clauses_arenas kind cls)"
  "in_range us idx \<Longrightarrow> discover_clause us idx cl = add_sites us idx (clause_sites cl) @ map arena_unit (clause_arenas cl)"
proof (induction us idx ss and us idx s and kind us idx cls and us idx cl
    rule: discover_stmt_discover_one_discover_clauses_discover_clause.induct)
  case (19 us idx ss)
  have "add_sites (us @ [\<lparr>bu_body = ss, bu_sites = []\<rparr>]) (Some (length us)) (own_sites ss) = us @ [arena_unit ss]"
    by (simp add: add_sites_def arena_unit_def)
  then show ?case using 19(1) 19(2) by (simp add: unit_list_push_def in_range_def)
qed (simp_all add: discover_expr_sites discover_exprs_sites add_sites_append)

text \<open>
  Discovery. The units of a program are its arena blocks in source order, an outer block before
  the blocks inside it, and the sites of a unit are the allocations written in the block but not in
  a block nested in it.
\<close>

theorem discover_program_correct:
  "discover_program decls = map arena_unit (concat (map (\<lambda>d. case d of FuncDecl name params (Some body) \<Rightarrow> arenas body | _ \<Rightarrow> []) decls))"
proof -
  have "foldl (\<lambda>us d. case d of FuncDecl name params (Some body) \<Rightarrow> discover_stmt us None body | _ \<Rightarrow> us) us decls
      = us @ map arena_unit (concat (map (\<lambda>d. case d of FuncDecl name params (Some body) \<Rightarrow> arenas body | _ \<Rightarrow> []) decls))" for us
    by (induction decls arbitrary: us)
      (auto simp: discover_stmt_units(1) in_range_def add_sites_def split: edecl.split option.split)
  from this [of "[]"] show ?thesis by (simp add: discover_program_def)
qed

section \<open>Soundness\<close>

definition block_sem :: "(string \<Rightarrow> bool list option) \<Rightarrow> bunit \<Rightarrow> unit_sem" where
  "block_sem K u = \<lparr>um_locals = bound_names (atoms True (bu_body u)), um_keeps = K, um_slots = length (bu_sites u),
     um_source = site_index (bu_sites u)\<rparr>"

lemma site_index_bound: "site_index sites e = Some i \<Longrightarrow> i < length sites \<and> sites ! i = e"
  by (induction sites e arbitrary: i rule: site_index.induct) (auto split: if_splits)

interpretation blocks: escape_pass BLOCK_HOOKS "\<lambda>_. None"
    "\<lambda>o1. o1 = \<lparr>bo_summaries = Some (param_escape_analyze decls), bo_site_nodes = bu_sites u\<rparr>"
    "local_look (Some (param_escape_analyze decls))" "block_sem (keeps_at (collect_functions decls) n) u"
  for decls u n
proof
  let ?o = "\<lparr>bo_summaries = Some (param_escape_analyze decls), bo_site_nodes = bu_sites u\<rparr>"
  show "\<exists>o1. o1 = ?o \<and> hk_bind BLOCK_HOOKS c x t =
      (fst (env_union c x (own_taint (\<lambda>_. None) x t)), (snd (env_union c x (own_taint (\<lambda>_. None) x t)))\<lparr>cx_owner := o1\<rparr>)"
    if "cx_owner c = ?o" for c x t
    using that by (auto simp: BLOCK_HOOKS_def block_bind_def env_union_def split_beta Let_def)
  show "callee_summary BLOCK_HOOKS c f = (case callee_name f of None \<Rightarrow> None | Some n \<Rightarrow> local_look (Some (param_escape_analyze decls)) n)"
    if "cx_owner c = ?o" for c f
    using that by (auto simp: callee_summary_def BLOCK_HOOKS_def block_callee_retention_def local_look_def split: option.split)
  show "source_slot BLOCK_HOOKS c e = um_source (block_sem (keeps_at (collect_functions decls) n) u) e" if "cx_owner c = ?o" for c e
    using that by (simp add: source_slot_def BLOCK_HOOKS_def block_expr_source_slot_def find_site_index_def block_sem_def)
  show "agrees (block_sem (keeps_at (collect_functions decls) n) u) (local_look (Some (param_escape_analyze decls)))"
    unfolding local_look_final by (rule closed_agrees [OF final_facts]) (simp add: block_sem_def)
qed (simp_all add: BLOCK_HOOKS_def block_sem_def site_index_bound)


definition arena_example :: "edecl list" where
  "arena_example = [FuncDecl (Some ''f'') [] (Some [StArena
     [StVar [''x''] [XCall 7 (XIdent ''new'') [XIdent ''T''] False], StExpr (XBinary TOKEN_ASSIGN (XIdent ''g'') (XIdent ''x''))]])]"


text \<open>
  The name collapse of the engine reaches arenas: an inner block that declares \<open>q\<close> makes the
  assignment to the \<open>q\<close> outside the arena look local, and the object stays in the arena.
\<close>

lemma arena_shadow_unmarked:
  "let new = XCall 7 (XIdent ''new'') [XIdent ''T''] False;
       prog = (\<lambda>pre. [FuncDecl (Some ''f'') [] (Some [StVar [''q''] [XLiteral], StArena (pre @ [assign_stmt (XIdent ''q'') new]), StReturn [XIdent ''q'']])]) in
     block_escape_site_escapes (Some (block_escape_analyze (prog []) None)) new
     \<and> \<not> block_escape_site_escapes (Some (block_escape_analyze (prog [StIf XLiteral [StVar [''q''] [XLiteral]] []]) None)) new"
  by code_simp

end
