(* ===== verification/Release_Props.thy ===== *)
theory Release_Props
  imports Release BlockEscape_Sound
begin

text \<open>
  What a released local satisfies: its value is lost by no run of the function, and everything the
  function binds to it is a fresh value.
\<close>

section \<open>Items\<close>

lemma find_update_item:
  "(\<And>r. lr_name (f r) = lr_name r) \<Longrightarrow>
   find_item (update_item rs name f) y = (if y = name then map_option f (find_item rs name) else find_item rs y)"
  by (induction rs) auto

lemma find_append_item: "find_item (rs @ ss) y = (case find_item rs y of None \<Rightarrow> find_item ss y | Some r \<Rightarrow> Some r)"
  by (induction rs) auto

lemma find_item_name: "find_item rs name = Some r \<Longrightarrow> lr_name r = name \<and> r \<in> set rs"
  by (induction rs) (auto split: if_splits)

text \<open>The facts about the bindings of a local: the values, the opaque ones, the number and the declaration.\<close>

type_synonym binding_facts = "eexpr list \<times> bool \<times> nat \<times> bool \<times> eexpr"

definition record_facts :: "local_record \<Rightarrow> binding_facts" where
  "record_facts r = (lr_values r, lr_has_unsafe_value r, lr_binding_count r, lr_declared r, lr_bound_value r)"

definition facts :: "collected \<Rightarrow> string \<Rightarrow> binding_facts" where
  "facts c x = (case find_record c x of None \<Rightarrow> ([], False, 0, False, XNull) | Some r \<Rightarrow> record_facts r)"

lemma facts_update:
  "(\<And>r. lr_name (f r) = lr_name r) \<Longrightarrow> facts (update_record c name f) x =
     (if x = name then (case find_record c name of None \<Rightarrow> ([], False, 0, False, XNull) | Some r \<Rightarrow> record_facts (f r)) else facts c x)"
  by (auto simp: facts_def update_record_def find_record_def find_update_item split: option.split)

lemma facts_same [simp]:
  "facts (c\<lparr>co_loop_locals_unreadable := b\<rparr>) x = facts c x" "facts (c\<lparr>co_key_sites := ks\<rparr>) x = facts c x"
  "facts (c\<lparr>co_concat_sites := cs\<rparr>) x = facts c x" "facts (c\<lparr>co_elem_sites := es\<rparr>) x = facts c x"
  "facts (unreadable c) x = facts c x"
  by (simp_all add: facts_def find_record_def unreadable_def)

lemma facts_intern [simp]: "facts (intern_record c name) x = facts c x"
  by (auto simp: facts_def intern_record_def find_record_def find_append_item empty_record_def record_facts_def split: option.split)

lemma facts_found: "find_record c x = Some r \<Longrightarrow> facts c x = record_facts r"
  by (simp add: facts_def)

lemma find_elems: "find_record (foldl (\<lambda>c e. note_elem_site c t e) c es) x = find_record c x"
  by (induction es arbitrary: c) (auto simp: note_elem_site_def find_record_def)

lemma find_intern: "\<exists>r. find_record (intern_record c name) name = Some r"
  by (auto simp: intern_record_def find_record_def find_append_item empty_record_def split: option.split)

lemma facts_escapes: "facts (update_record c name (\<lambda>r. r\<lparr>lr_block_escapes := True\<rparr>)) x = facts c x"
  by (subst facts_update) (auto simp: facts_def record_facts_def split: option.split)

lemma facts_mention [simp]: "facts (mark_mentions c d e) x = facts c x"
  and facts_mentions [simp]: "facts (mark_mentions_list c d es) x = facts c x"
  by (induction c d e and c d es arbitrary: x and x rule: mark_mentions_mark_mentions_list.induct)
    (auto simp: facts_escapes split: option.split)

lemma facts_concat [simp]: "facts (note_concat_operands c e) x = facts c x"
  and facts_concats [simp]: "facts (note_concat_operand_list c es) x = facts c x"
  by (induction c e and c es arbitrary: x and x rule: note_concat_operands_note_concat_operand_list.induct) (auto simp: Let_def)

lemma facts_key [simp]: "facts (note_key_site c e) x = facts c x"
  by (induction c e rule: note_key_site.induct) auto

lemma facts_elems [simp]: "facts (foldl (\<lambda>c e. note_elem_site c t e) c es) x = facts c x"
  by (induction es arbitrary: c) (auto simp: note_elem_site_def)

lemma facts_lits [simp]: "facts (note_literal_elems c t v) x = facts c x" "facts (note_append_elems c t v) x = facts c x"
  by (auto simp: note_literal_elems_def note_append_elems_def split: eexpr.split list.split)

text \<open>Records stay.\<close>

definition found :: "collected \<Rightarrow> string \<Rightarrow> bool" where
  "found c x = (find_record c x \<noteq> None)"

lemma found_update: "(\<And>r. lr_name (f r) = lr_name r) \<Longrightarrow> found (update_record c name f) x = found c x"
  by (auto simp: found_def update_record_def find_record_def find_update_item)

lemma found_same [simp]: "found (c\<lparr>co_loop_locals_unreadable := b\<rparr>) x = found c x" "found (c\<lparr>co_elem_sites := es\<rparr>) x = found c x"
  by (simp_all add: found_def find_record_def)

lemma found_mention [simp]: "found (mark_mentions c d e) x = found c x"
  and found_mentions [simp]: "found (mark_mentions_list c d es) x = found c x"
  by (induction c d e and c d es arbitrary: x and x rule: mark_mentions_mark_mentions_list.induct)
    (auto simp: found_update split: option.split)

lemma found_elems [simp]: "found (foldl (\<lambda>c e. note_elem_site c t e) c es) x = found c x"
  by (induction es arbitrary: c) (auto simp: note_elem_site_def)

lemma found_lits [simp]: "found (note_literal_elems c t v) x = found c x" "found (note_append_elems c t v) x = found c x"
  by (auto simp: note_literal_elems_def note_append_elems_def split: eexpr.split list.split)

lemma found_intern [simp]: "found (intern_record c name) name"
  using find_intern [of c name] by (auto simp: found_def)

section \<open>Bindings of a local in the source\<close>

text \<open>
  What a body binds to a name, in source order: the value of a declaration or an assignment, or
  something that no expression describes. An append of a slice to itself does not count.
\<close>

datatype binding = Declared eexpr | Assigned eexpr | Opaque

definition decl_binding :: "string \<Rightarrow> string option \<Rightarrow> eexpr \<Rightarrow> binding list" where
  "decl_binding x n v = (if n = Some x \<and> x \<noteq> ''_'' then [Declared v] else [])"

definition assign_binding :: "string \<Rightarrow> eexpr \<Rightarrow> eexpr \<Rightarrow> bool \<Rightarrow> binding list" where
  "assign_binding x lhs rhs plain =
     (if lhs \<noteq> XIdent x \<or> x = ''_'' \<or> plain \<and> is_self_append x rhs then [] else if plain then [Assigned rhs] else [Opaque])"

definition expr_binding :: "string \<Rightarrow> eexpr \<Rightarrow> binding list" where
  "expr_binding x e = (case e of XBinary op l r \<Rightarrow> if is_assign_operator op then assign_binding x l r (op = TOKEN_ASSIGN) else [] | _ \<Rightarrow> [])"

definition names_binding :: "string \<Rightarrow> string list \<Rightarrow> eexpr list \<Rightarrow> binding list" where
  "names_binding x names vs = concat (map (\<lambda>(n, v). decl_binding x (Some n) v)
     (zip names (if length vs = length names then vs else replicate (length names) (if length vs = 1 then hd vs else XNull))))"

definition multi_binding :: "string \<Rightarrow> eexpr list \<Rightarrow> eexpr list \<Rightarrow> bool \<Rightarrow> binding list" where
  "multi_binding x targets vs sh = concat (map (\<lambda>(t, v). if sh then (case t of XIdent n \<Rightarrow> decl_binding x (Some n) v | _ \<Rightarrow> [])
       else assign_binding x t v True)
     (zip targets (if length targets = length vs then vs
       else replicate (length targets) (if sh \<and> length vs = 1 then hd vs else XNull))))"

definition select_binding :: "string \<Rightarrow> string option \<Rightarrow> int \<Rightarrow> binding list" where
  "select_binding x bind decl = (if bind \<noteq> Some x \<or> x = ''_'' then [] else if decl = 1 then [Declared XNull] else if decl = 0 then [Opaque] else [])"

fun bindings :: "string \<Rightarrow> estmt list \<Rightarrow> binding list"
  and stmt_bindings :: "string \<Rightarrow> estmt \<Rightarrow> binding list"
  and case_bindings :: "(eclause \<Rightarrow> bool) \<Rightarrow> string \<Rightarrow> eclause list \<Rightarrow> binding list"
  and clause_bindings :: "string \<Rightarrow> eclause \<Rightarrow> binding list" where
  "bindings x [] = []"
| "bindings x (s # ss) = stmt_bindings x s @ bindings x ss"
| "stmt_bindings x (StBlock ss) = bindings x ss"
| "stmt_bindings x (StExpr e) = expr_binding x e"
| "stmt_bindings x (StVar names es) = names_binding x names es"
| "stmt_bindings x (StConst names es) = names_binding x names es"
| "stmt_bindings x (StMulti targets es sh) = multi_binding x targets es sh"
| "stmt_bindings x (StIf e th el) = bindings x th @ bindings x el"
| "stmt_bindings x (StFor init e post body) = bindings x init @ bindings x post @ bindings x body"
| "stmt_bindings x (StRange k v e body) = decl_binding x k XNull @ decl_binding x v XNull @ bindings x body"
| "stmt_bindings x (StArena ss) = bindings x ss"
| "stmt_bindings x (StUnsafe ss) = bindings x ss"
| "stmt_bindings x (StSwitch tag cs) = case_bindings is_CaseClause x cs"
| "stmt_bindings x (StTypeSwitch y e cs) = decl_binding x y XNull @ case_bindings is_TypeCase x cs"
| "stmt_bindings x (StSelect cs) = case_bindings is_SelectCase x cs"
| "stmt_bindings x (StIfLet y e th el) = decl_binding x y XNull @ bindings x th @ bindings x el"
| "stmt_bindings x s = []"
| "case_bindings kind x [] = []"
| "case_bindings kind x (cl # cls) = (if kind cl then clause_bindings x cl else []) @ case_bindings kind x cls"
| "clause_bindings x (CaseClause es body) = bindings x body"
| "clause_bindings x (TypeCase body) = bindings x body"
| "clause_bindings x (SelectCase comm bind decl body) = expr_binding x comm @ select_binding x bind decl @ bindings x body"
| "clause_bindings x OtherClause = []"

fun binding_values :: "binding list \<Rightarrow> eexpr list" where
  "binding_values [] = []"
| "binding_values (Declared v # bs) = v # binding_values bs"
| "binding_values (Assigned v # bs) = v # binding_values bs"
| "binding_values (Opaque # bs) = binding_values bs"

fun first_declared :: "binding list \<Rightarrow> eexpr option" where
  "first_declared [] = None"
| "first_declared (Declared v # bs) = Some v"
| "first_declared (b # bs) = first_declared bs"

definition add_bindings :: "binding_facts \<Rightarrow> binding list \<Rightarrow> binding_facts" where
  "add_bindings f bs = (case f of (vs, u, n, d, b) \<Rightarrow>
     (vs @ binding_values bs, u \<or> Opaque \<in> set bs, n + length bs, d \<or> first_declared bs \<noteq> None,
      if d then b else (case first_declared bs of None \<Rightarrow> b | Some v \<Rightarrow> v)))"

lemma binding_values_append [simp]: "binding_values (as @ bs) = binding_values as @ binding_values bs"
  by (induction as rule: binding_values.induct) auto

lemma first_declared_append [simp]: "first_declared (as @ bs) = (case first_declared as of None \<Rightarrow> first_declared bs | Some v \<Rightarrow> Some v)"
  by (induction as rule: first_declared.induct) auto

lemma add_bindings_simps [simp]: "add_bindings f [] = f" "add_bindings (add_bindings f as) bs = add_bindings f (as @ bs)"
  by (auto simp: add_bindings_def split: prod.split option.split)

lemma facts_note_declaration [simp]: "facts (note_declaration wc c n v) x = add_bindings (facts c x) (decl_binding x n v)"
proof (cases "n = None \<or> n = Some ''_''")
  case True
  then show ?thesis by (auto simp: note_declaration_def decl_binding_def)
next
  case False
  then obtain y where y: "n = Some y" "y \<noteq> ''_''" by auto
  let ?c1 = "mark_mentions (intern_record c y) (wc_block_depth wc) v"
  let ?f = "\<lambda>r. r\<lparr>lr_declared := True, lr_bound_value := v, lr_block_depth := wc_block_depth wc, lr_arena_depth := wc_arena_depth wc,
    lr_loop_header := wc_in_loop_header wc\<rparr>"
  let ?g = "\<lambda>r. (record_value v r)\<lparr>lr_binding_count := lr_binding_count r + 1\<rparr>"
  let ?c2 = "case find_record ?c1 y of Some r \<Rightarrow> if lr_declared r then ?c1 else note_literal_elems (update_record ?c1 y ?f) y v | None \<Rightarrow> ?c1"
  have "found ?c1 y" by simp
  then obtain r where r: "find_record ?c1 y = Some r" by (auto simp: found_def)
  have same: "facts ?c1 x = facts c x" by simp
  have lits: "find_record (note_literal_elems d t w) z = find_record d z" for d t w z
    by (cases w) (simp_all add: note_literal_elems_def find_elems)
  have "find_record (update_record ?c1 y ?f) y = Some (?f r)"
    using r by (simp add: find_record_def update_record_def find_update_item)
  then have c2: "find_record ?c2 y = Some (if lr_declared r then r else ?f r)" using r lits by simp
  have other: "facts ?c2 x = facts c x" if "x \<noteq> y" using that r same by (simp add: facts_update)
  have "facts (update_record ?c2 y ?g) x = add_bindings (facts c x) (decl_binding x n v)"
  proof (cases "x = y")
    case True
    have "facts c y = record_facts r" using same True facts_found [OF r] by simp
    then show ?thesis using True c2 y
      by (subst facts_update) (auto simp: record_value_def record_facts_def add_bindings_def decl_binding_def)
  next
    case False
    then show ?thesis using other y by (subst facts_update) (auto simp: record_value_def decl_binding_def)
  qed
  then show ?thesis using y by (simp add: note_declaration_def Let_def)
qed

lemma facts_assignment [simp]: "facts (note_assignment c lhs rhs plain) x = add_bindings (facts c x) (assign_binding x lhs rhs plain)"
proof (cases "\<exists>y. lhs = XIdent y \<and> y \<noteq> ''_''")
  case False
  then show ?thesis by (cases lhs) (auto simp: note_assignment_def Let_def assign_binding_def)
next
  case True
  then obtain y where y: "lhs = XIdent y" "y \<noteq> ''_''" by blast
  let ?c2 = "intern_record (note_key_site (mark_mentions c (target_lifetime_depth c lhs) rhs) lhs) y"
  let ?f = "\<lambda>r. (if plain then record_value rhs r else r\<lparr>lr_has_unsafe_value := True\<rparr>)\<lparr>lr_binding_count := lr_binding_count r + 1\<rparr>"
  have same: "facts ?c2 z = facts c z" for z by simp
  obtain r where r: "find_record ?c2 y = Some r" using find_intern by blast
  have "facts (update_record ?c2 y ?f) x = (if x = y then add_bindings (facts c x) (if plain then [Assigned rhs] else [Opaque]) else facts c x)"
    using same [of x] facts_found [OF r] by (subst facts_update) (auto simp: r add_bindings_def record_value_def record_facts_def)
  then show ?thesis using y same [of x] by (auto simp: note_assignment_def Let_def assign_binding_def)
qed

lemma facts_expr_assign [simp]: "facts (note_expr_assign c e) x = add_bindings (facts c x) (expr_binding x e)"
  by (cases e) (simp_all add: note_expr_assign_def expr_binding_def)

lemma facts_fold:
  "(\<And>c y. facts (f c y) x = add_bindings (facts c x) (g y)) \<Longrightarrow> facts (foldl f c ys) x = add_bindings (facts c x) (concat (map g ys))"
  by (induction ys arbitrary: c) simp_all

lemma facts_seed [simp]: "facts (seed_names wc c names es) x = add_bindings (facts c x) (names_binding x names es)"
proof -
  have const: "concat (map (\<lambda>(n, v). decl_binding x (Some n) v) (zip names (replicate (length names) v)))
      = concat (map (\<lambda>n. decl_binding x (Some n) v) names)" for v
    by (induction names) auto
  show ?thesis
    by (auto simp: seed_names_def names_binding_def const facts_fold [where g = "\<lambda>n. decl_binding x (Some n) _"]
        facts_fold [where f = "\<lambda>c (n, v). note_declaration wc c (Some n) v" and g = "\<lambda>(n, v). decl_binding x (Some n) v"] split: prod.split)
qed

lemma facts_multi [simp]: "facts (note_multi wc c targets es sh) x = add_bindings (facts c x) (multi_binding x targets es sh)"
proof -
  let ?f = "\<lambda>c (t, v). if sh then (case t of XIdent n \<Rightarrow> note_declaration wc c (Some n) v | _ \<Rightarrow> c) else note_assignment c t v True"
  let ?g = "\<lambda>(t, v). if sh then (case t of XIdent n \<Rightarrow> decl_binding x (Some n) v | _ \<Rightarrow> []) else assign_binding x t v True"
  have "facts (?f c y) x = add_bindings (facts c x) (?g y)" for c y
    by (cases y; cases "fst y") auto
  then show ?thesis by (simp add: note_multi_def multi_binding_def Let_def facts_fold [where f = ?f and g = ?g])
qed

lemma facts_select [simp]: "facts (note_select_bind wc c bind decl) x = add_bindings (facts c x) (select_binding x bind decl)"
proof (cases "bind = None \<or> bind = Some ''_'' \<or> decl \<noteq> 0")
  case True
  then show ?thesis by (auto simp: note_select_bind_def select_binding_def decl_binding_def split: option.split)
next
  case False
  then obtain y where y: "bind = Some y" "y \<noteq> ''_''" "decl = 0" by auto
  obtain r where r: "find_record (intern_record c y) y = Some r" using find_intern by blast
  have "facts (update_record (intern_record c y) y (\<lambda>r. r\<lparr>lr_has_unsafe_value := True, lr_binding_count := lr_binding_count r + 1\<rparr>)) x
      = (if x = y then add_bindings (facts c x) [Opaque] else facts c x)"
    using facts_intern [of c y x] facts_found [OF r] by (subst facts_update) (auto simp: r add_bindings_def record_facts_def)
  then show ?thesis using y by (auto simp: note_select_bind_def select_binding_def)
qed

text \<open>The walk records exactly the bindings of the source.\<close>

lemma walk_facts:
  "facts (walk_stmts wc c ss) x = add_bindings (facts c x) (bindings x ss)"
  "facts (walk_stmt wc c s) x = add_bindings (facts c x) (stmt_bindings x s)"
  "facts (walk_cases kind wc c cls) x = add_bindings (facts c x) (case_bindings kind x cls)"
  "facts (walk_case wc c cl) x = add_bindings (facts c x) (clause_bindings x cl)"
  by (induction wc c ss and wc c s and kind wc c cls and wc c cl rule: walk_stmts_walk_stmt_walk_cases_walk_case.induct)
    (simp_all add: Let_def)

lemma collect_facts: "facts (collect_body body) x = add_bindings ([], False, 0, False, XNull) (bindings x body)"
  by (simp add: collect_body_def walk_facts) (simp add: facts_def empty_collected_def find_record_def)

section \<open>Verdicts\<close>

text \<open>The first function of a name, with its body.\<close>

definition defines_function :: "edecl list \<Rightarrow> string \<Rightarrow> estmt list \<Rightarrow> bool" where
  "defines_function decls fn body = (\<exists>before params rest. decls = before @ FuncDecl (Some fn) params (Some body) # rest
     \<and> (\<forall>ps b. FuncDecl (Some fn) ps b \<notin> set before))"

abbreviation summaries_of :: "edecl list \<Rightarrow> param_result option" where
  "summaries_of decls \<equiv> Some (param_escape_analyze decls)"

abbreviation escapes_of :: "edecl list \<Rightarrow> local_summary list option" where
  "escapes_of decls \<equiv> Some (local_escape_analyze decls (summaries_of decls))"

abbreviation plan_of :: "edecl list \<Rightarrow> plan_function list option" where
  "plan_of decls \<equiv> Some (release_plan_analyze decls)"

lemma find_planned:
  assumes "defines_function decls fn body"
  shows "find_function (release_plan_analyze decls) fn = Some (plan_function (summaries_of decls) (escapes_of decls) fn body)"
proof -
  let ?g = "\<lambda>d. case d of FuncDecl (Some fn) params body \<Rightarrow>
    [plan_function (summaries_of decls) (escapes_of decls) fn (case body of None \<Rightarrow> [] | Some b \<Rightarrow> b)] | _ \<Rightarrow> []"
  obtain before params rest where d: "decls = before @ FuncDecl (Some fn) params (Some body) # rest"
    "\<forall>ps b. FuncDecl (Some fn) ps b \<notin> set before" using assms by (auto simp: defines_function_def)
  have name: "pf_function_name (plan_function pe le f b) = f" for pe le f b by (simp add: plan_function_def Let_def)
  have skip: "find_function (concat (map ?g before) @ fs) fn = find_function fs fn" for fs
    using d(2)
  proof (induction before)
    case (Cons d before)
    have "find_function (?g d @ fs) fn = find_function fs fn" for fs
      using Cons.prems by (cases d) (auto simp: name split: option.split)
    then show ?case using Cons by simp
  qed simp
  have "concat (map g decls) = concat (map g before) @ g (FuncDecl (Some fn) params (Some body)) @ concat (map g rest)"
    for g :: "edecl \<Rightarrow> plan_function list" using d(1) by simp
  then show ?thesis unfolding release_plan_analyze_def Let_def by (simp only: skip) (simp add: name)
qed

lemma planned_function:
  assumes "find_function (release_plan_analyze decls) fn = Some f"
  shows "\<exists>body. f = plan_function (summaries_of decls) (escapes_of decls) fn body"
proof -
  have "find_function (concat (map (\<lambda>d. case d of FuncDecl (Some fn) params body \<Rightarrow>
      [plan_function pe le fn (case body of None \<Rightarrow> [] | Some b \<Rightarrow> b)] | _ \<Rightarrow> []) ds)) fn = Some f \<Longrightarrow> \<exists>body. f = plan_function pe le fn body"
    for pe le ds
    by (induction ds) (auto simp: plan_function_def Let_def split: edecl.splits option.splits if_splits)
  then show ?thesis using assms unfolding release_plan_analyze_def Let_def by blast
qed

lemma decision_of_record:
  "find_decision (map (\<lambda>r. \<lparr>de_local_name = lr_name r, de_verdict = f r, de_owns_elems = g r, de_diagnostic_reasons = h r\<rparr>) rs) x
     = map_option (\<lambda>r. \<lparr>de_local_name = lr_name r, de_verdict = f r, de_owns_elems = g r, de_diagnostic_reasons = h r\<rparr>) (find_item rs x)"
  by (induction rs) auto

lemma released_record:
  assumes "defines_function decls fn body" "release_plan_should_release (plan_of decls) fn x"
  obtains r where "find_record (collect_body body) x = Some r" "lr_name r = x"
    "decide (collect_body body) r (summaries_of decls) (escapes_of decls) fn = RELEASE_OK"
  using assms find_planned [OF assms(1)] that find_item_name
  by (auto simp: release_plan_should_release_def release_plan_verdict_def lookup_decision_def plan_function_def Let_def
      decision_of_record find_record_def split: option.splits)

lemma decide_ok:
  assumes "decide c r pe le fn = RELEASE_OK"
  shows "\<not> co_unreadable c" "lr_declared r" "\<not> local_escape_local_escapes le fn (lr_name r)" "lr_arena_depth r = 0"
    "lr_binding_count r > 1 \<Longrightarrow> all_values_release_safe c pe r" "lr_binding_count r \<le> 1 \<Longrightarrow> binding_is_owned c pe (lr_bound_value r)"
  using assms by (auto simp: decide_def split: if_splits)


text \<open>
  A released local holds fresh values only. When the plan releases a local, the function
  declares it, every value it binds to it is a literal or freshly owned, the single value of a local
  bound once is owned, and nothing else is bound to it.
\<close>

theorem released_bindings_fresh:
  assumes "defines_function decls fn body" "release_plan_should_release (plan_of decls) fn x"
  shows "let c = collect_body body; bs = bindings x body; pe = summaries_of decls in
    first_declared bs \<noteq> None \<and> Opaque \<notin> set bs \<and> list_all (value_is_release_safe c pe) (binding_values bs)
    \<and> (length bs = 1 \<longrightarrow> list_all (binding_is_owned c pe) (binding_values bs))"
proof -
  obtain r where r: "find_record (collect_body body) x = Some r"
    "decide (collect_body body) r (summaries_of decls) (escapes_of decls) fn = RELEASE_OK"
    using released_record [OF assms] by metis
  let ?bs = "bindings x body"
  have f: "lr_values r = binding_values ?bs" "lr_has_unsafe_value r = (Opaque \<in> set ?bs)" "lr_binding_count r = length ?bs"
    "lr_declared r = (first_declared ?bs \<noteq> None)" "lr_bound_value r = (case first_declared ?bs of None \<Rightarrow> XNull | Some v \<Rightarrow> v)"
    using facts_found [OF r(1)] collect_facts [of body x] by (simp_all add: record_facts_def add_bindings_def)
  obtain v where v: "first_declared ?bs = Some v" using decide_ok(2) [OF r(2)] f(4) by auto
  show ?thesis
  proof (cases "length ?bs > 1")
    case True
    then show ?thesis using decide_ok(5) [OF r(2)] f v by (simp add: all_values_release_safe_def Let_def)
  next
    case False
    then have bs: "?bs = [Declared v]" using v by (cases ?bs rule: first_declared.cases) auto
    then show ?thesis using decide_ok(6) [OF r(2)] f v by (simp add: value_is_release_safe_def Let_def)
  qed
qed

text \<open>
  C15. No value is given away twice. When the plan hands the value of a local over to a map as a key,
  it does not release that local.
\<close>

theorem key_not_released:
  assumes "release_plan_key_is_owned (plan_of decls) fn (XIdent x)"
  shows "\<not> release_plan_should_release (plan_of decls) fn x"
proof
  assume rel: "release_plan_should_release (plan_of decls) fn x"
  obtain f where f: "find_function (release_plan_analyze decls) fn = Some f" "XIdent x \<in> set (pf_owned_keys f)"
    using assms by (auto simp: release_plan_key_is_owned_def split: option.splits)
  obtain body where body: "f = plan_function (summaries_of decls) (escapes_of decls) fn body"
    using planned_function [OF f(1)] by blast
  let ?c = "collect_body body"
  have "identifier_key_is_owned ?c (summaries_of decls) (escapes_of decls) fn (XIdent x)"
    using f(2) body by (auto simp: plan_function_def Let_def binding_is_owned_def is_new_call_def is_addr_of_composite_def)
  then have "local_escape_local_escapes (escapes_of decls) fn x"
    by (auto simp: identifier_key_is_owned_def local_escape_local_escapes_def ESCAPE_REASON_SUBSCRIPT_STORE_def ESCAPE_REASON_NONE_def
        split: option.splits)
  moreover have "\<exists>r. lr_name r = x \<and> decide ?c r (summaries_of decls) (escapes_of decls) fn = RELEASE_OK"
    using rel f(1) body find_item_name
    by (auto simp: release_plan_should_release_def release_plan_verdict_def lookup_decision_def plan_function_def Let_def
        decision_of_record split: option.splits)
  ultimately show False using decide_ok(3) by blast
qed

section \<open>Examples\<close>

definition release_example :: "edecl list" where
  "release_example = [FuncDecl (Some ''f'') [] (Some [StVar [''x''] [XSliceLit [XLiteral]], StVar [''m''] [XMapLit [] []],
     StVar [''k''] [XBinary TOKEN_PLUS XLiteral XLiteral], assign_stmt (XIndex (XIdent ''m'') (XIdent ''k'')) XLiteral])]"

definition release_body :: "estmt list" where
  "release_body = [StVar [''x''] [XSliceLit [XLiteral]], StVar [''m''] [XMapLit [] []],
     StVar [''k''] [XBinary TOKEN_PLUS XLiteral XLiteral], assign_stmt (XIndex (XIdent ''m'') (XIdent ''k'')) XLiteral]"

lemma release_example_facts:
  "release_plan_should_release (plan_of release_example) ''f'' ''x''" "release_plan_key_is_owned (plan_of release_example) ''f'' (XIdent ''k'')"
  "discover (summaries_of release_example) [] release_body = [''x'', ''m'', ''k'']"
  "bindings ''x'' release_body = [Declared (XSliceLit [XLiteral])]"
  by code_simp+

lemma release_example_defines: "defines_function release_example ''f'' release_body"
  unfolding defines_function_def release_example_def release_body_def
  by (rule exI [of _ "[]"], rule exI [of _ "[]"], rule exI [of _ "[]"]) simp


theorem released_bindings_fresh_witness:
  "binding_is_owned (collect_body release_body) (summaries_of release_example) (XSliceLit [XLiteral])"
  using released_bindings_fresh [OF release_example_defines release_example_facts(1)]
  by (simp add: release_example_facts(4) Let_def)

theorem key_not_released_witness: "\<not> release_plan_should_release (plan_of release_example) ''f'' ''k''"
  by (rule key_not_released [OF release_example_facts(2)])

text \<open>
  The result of a function counts as owned when it is not derived from a parameter. A function that
  returns a global meets that, so its caller releases the value of the global.
\<close>

lemma returned_global_released:
  "release_plan_should_release (plan_of [FuncDecl (Some ''get'') [] (Some [StReturn [XIdent ''g'']]),
     FuncDecl (Some ''f'') [] (Some [StVar [''x''] [XCall 1 (XIdent ''get'') [] False]])]) ''f'' ''x''"
  by code_simp

end
