(* ===== verification/Lanes.thy ===== *)
theory Lanes
  imports Scope ConstFold
begin

text \<open>
  The ownership rules of lanes, \<open>src/types/lane_ownership.c\<close>: one walk over the body of every
  function that treats \<open>lanes.Partition(a, n)\<close> as a move of \<open>a\<close>, refuses later reads of \<open>a\<close>, a
  second \<open>lanes.Run\<close> of one partition, lane views handed to another goroutine and captures of
  partition state in a lane body. The nodes carry what the walk reads of them; a chain of nodes
  linked by \<open>next\<close> is a list. The context of the walk is a record with the two bounded tables, the
  partition bindings, and the diagnostics in the order they are reported.
\<close>

section \<open>Syntax\<close>

text \<open>
  A literal has the names of its first parameter group, the captures recorded by the checker and
  its body. A \<open>for\<close> statement has both the three clauses and the range expression.
  \<open>KJump\<close> is a \<open>break\<close>, \<open>continue\<close> or \<open>fallthrough\<close>, \<open>KOther\<close> every other kind the walk does not enter.
\<close>

datatype lexpr =
    LNull
  | LIdent position string
  | LLiteral token_type string
  | LBinary token_type lexpr lexpr
  | LUnary token_type lexpr
  | LPostfix lexpr
  | LIndex lexpr lexpr
  | LSliceIndex lexpr lexpr lexpr
  | LSliceLit "lexpr list"
  | LSelector position lexpr string
  | LCall lexpr "lexpr list"
  | LFuncLit position "string list" "string list" lstmt
  | LOtherExpr
and lstmt =
    KNull
  | KBlock "lstmt list"
  | KExpr lexpr
  | KVar "string list" "lexpr list"
  | KIf lexpr lstmt lstmt
  | KFor lstmt lexpr lstmt lexpr lstmt
  | KReturn "lexpr list"
  | KDefer lexpr
  | KGo position lexpr
  | KLabel lstmt
  | KSwitch lexpr "lstmt list"
  | KCase "lexpr list" "lstmt list"
  | KMulti "lexpr list"
  | KJump
  | KOther

text \<open>What the constant folder sees of an expression.\<close>

fun fold_view :: "lexpr \<Rightarrow> fexpr" where
  "fold_view (LIdent p x) = FIdentifier x"
| "fold_view (LLiteral t s) = FLiteral t s"
| "fold_view (LBinary op l r) = FBinary op (fold_view l) (fold_view r)"
| "fold_view (LUnary op e) = FUnary op (fold_view e)"
| "fold_view (LSelector p e s) = FSelector (fold_view e) s"
| "fold_view (LCall f args) = FCall (fold_view f) (map fold_view args)"
| "fold_view e = FOther"

definition ident_name :: "lexpr \<Rightarrow> string option" where
  "ident_name e = (case e of LIdent pos name \<Rightarrow> Some name | _ \<Rightarrow> None)"

section \<open>The context of the walk\<close>

definition LANE_OWNERSHIP_MAX_MOVES_PER_FUNC :: nat where
  "LANE_OWNERSHIP_MAX_MOVES_PER_FUNC = 64"

definition LANE_DERIVED_MAX :: nat where
  "LANE_DERIVED_MAX = LANE_OWNERSHIP_MAX_MOVES_PER_FUNC"

record partition_binding =
  pb_binding_name :: string
  pb_source_name :: string
  pb_partition_pos :: position
  pb_lane_count :: "64 word"
  pb_lane_count_known :: bool

text \<open>The four messages of the pass, with the values they print.\<close>

datatype lane_diag =
    UseAfterMove position string position
  | UseAfterConsume position string position
  | LaneCapture position string
  | LaneViewShared position string

record lane_ctx =
  lc_checker :: tchecker
  lc_consts :: fscope
  lc_moved :: "(string \<times> position) list"
  lc_bindings :: "partition_binding list"
  lc_consumed :: "(string \<times> position) list"
  lc_outer :: "string list option"
  lc_report :: "lane_diag list"

definition lane_ctx_init :: "tchecker \<Rightarrow> fscope \<Rightarrow> lane_ctx" where
  "lane_ctx_init ch consts = \<lparr>lc_checker = ch, lc_consts = consts, lc_moved = [], lc_bindings = [],
     lc_consumed = [], lc_outer = None, lc_report = []\<rparr>"

definition lane_ctx_reset_for_function :: "lane_ctx \<Rightarrow> lane_ctx" where
  "lane_ctx_reset_for_function c = c\<lparr>lc_moved := [], lc_consumed := [], lc_outer := None, lc_bindings := []\<rparr>"

definition lane_error :: "lane_ctx \<Rightarrow> lane_diag \<Rightarrow> lane_ctx" where
  "lane_error c d = c\<lparr>lc_checker := type_error (lc_checker c), lc_report := lc_report c @ [d]\<rparr>"

definition lane_mark_moved :: "lane_ctx \<Rightarrow> string \<Rightarrow> position \<Rightarrow> lane_ctx" where
  "lane_mark_moved c name pos =
     (let c1 = (if length (lc_moved c) < LANE_OWNERSHIP_MAX_MOVES_PER_FUNC
                then c\<lparr>lc_moved := lc_moved c @ [(name, pos)]\<rparr> else c)
      in c1\<lparr>lc_checker := mark_variable_moved (lc_checker c1) name pos\<rparr>)"

definition lane_name_is_moved :: "lane_ctx \<Rightarrow> string \<Rightarrow> position option" where
  "lane_name_is_moved c name = map_of (lc_moved c) name"

definition lane_clear_moved :: "lane_ctx \<Rightarrow> string \<Rightarrow> lane_ctx" where
  "lane_clear_moved c name = c\<lparr>lc_moved := filter (\<lambda>m. fst m \<noteq> name) (lc_moved c)\<rparr>"

section \<open>Recognising the calls\<close>

definition lane_call_is_lanes_selector :: "tchecker \<Rightarrow> lexpr \<Rightarrow> string option" where
  "lane_call_is_lanes_selector ch e = (case e of
     LCall (LSelector p (LIdent q pkg) sel) args \<Rightarrow> (case type_checker_lookup_variable ch pkg of
         None \<Rightarrow> None
       | Some marker \<Rightarrow> if var_package marker = Some ''lanes'' then Some sel else None)
   | _ \<Rightarrow> None)"

definition lane_call_is_partition :: "tchecker \<Rightarrow> lexpr \<Rightarrow> bool" where
  "lane_call_is_partition ch e = (lane_call_is_lanes_selector ch e = Some ''Partition'')"

text \<open>The position of the callee and the arguments, for an initialiser that is a partition call.\<close>

definition lane_partition_call :: "tchecker \<Rightarrow> lexpr \<Rightarrow> (position \<times> lexpr list) option" where
  "lane_partition_call ch e = (case e of
     LCall (LSelector pos b sel) args \<Rightarrow> if lane_call_is_partition ch e then Some (pos, args) else None
   | _ \<Rightarrow> None)"

definition lane_call_is_run :: "tchecker \<Rightarrow> lexpr \<Rightarrow> bool" where
  "lane_call_is_run ch e = (lane_call_is_lanes_selector ch e = Some ''Run'')"

section \<open>Lane-derived names\<close>

definition lane_derived_add :: "string list \<Rightarrow> string \<Rightarrow> string list" where
  "lane_derived_add ds name =
     (if name \<in> set ds then ds else if length ds < LANE_DERIVED_MAX then ds @ [name] else ds)"

fun lane_derived_find_in_expr :: "string list \<Rightarrow> lexpr \<Rightarrow> string option"
  and lane_derived_find_in_list :: "string list \<Rightarrow> lexpr list \<Rightarrow> string option" where
  "lane_derived_find_in_expr ds (LIdent p n) = (if n \<in> set ds then Some n else None)"
| "lane_derived_find_in_expr ds (LBinary op l r) =
     (case lane_derived_find_in_expr ds l of Some n \<Rightarrow> Some n | None \<Rightarrow> lane_derived_find_in_expr ds r)"
| "lane_derived_find_in_expr ds (LUnary op e) = lane_derived_find_in_expr ds e"
| "lane_derived_find_in_expr ds (LPostfix e) = lane_derived_find_in_expr ds e"
| "lane_derived_find_in_expr ds (LIndex e i) =
     (case lane_derived_find_in_expr ds e of Some n \<Rightarrow> Some n | None \<Rightarrow> lane_derived_find_in_expr ds i)"
| "lane_derived_find_in_expr ds (LSliceIndex e l h) =
     (case lane_derived_find_in_expr ds e of Some n \<Rightarrow> Some n | None \<Rightarrow>
        (case lane_derived_find_in_expr ds l of Some n \<Rightarrow> Some n | None \<Rightarrow> lane_derived_find_in_expr ds h))"
| "lane_derived_find_in_expr ds (LSliceLit es) = lane_derived_find_in_list ds es"
| "lane_derived_find_in_expr ds (LSelector p e s) = lane_derived_find_in_expr ds e"
| "lane_derived_find_in_expr ds (LCall f args) =
     (case lane_derived_find_in_expr ds f of Some n \<Rightarrow> Some n | None \<Rightarrow> lane_derived_find_in_list ds args)"
| "lane_derived_find_in_expr ds e = None"
| "lane_derived_find_in_list ds [] = None"
| "lane_derived_find_in_list ds (e # es) =
     (case lane_derived_find_in_expr ds e of Some n \<Rightarrow> Some n | None \<Rightarrow> lane_derived_find_in_list ds es)"

section \<open>The checks of a lane body\<close>

definition lane_name_is_partition_binding :: "lane_ctx \<Rightarrow> string \<Rightarrow> bool" where
  "lane_name_is_partition_binding c name = list_ex (\<lambda>b. pb_binding_name b = name) (lc_bindings c)"

definition lane_funclit_first_param_name :: "string list \<Rightarrow> string option" where
  "lane_funclit_first_param_name ps = (case ps of [] \<Rightarrow> None | p # _ \<Rightarrow> Some p)"

definition capture_violates :: "lane_ctx \<Rightarrow> string \<Rightarrow> bool" where
  "capture_violates c name = (lane_name_is_partition_binding c name \<or> lane_name_is_moved c name \<noteq> None
     \<or> (case lc_outer c of None \<Rightarrow> False | Some ds \<Rightarrow> name \<in> set ds))"

definition lane_check_capture_rule :: "lane_ctx \<Rightarrow> position \<Rightarrow> string list \<Rightarrow> lane_ctx" where
  "lane_check_capture_rule c pos caps =
     foldl (\<lambda>c n. if capture_violates c n then lane_error c (LaneCapture pos n) else c) c caps"

text \<open>A \<open>go\<close> statement: every argument that mentions a view, and every captured view of the launched literal.\<close>

definition lane_go_arg :: "position \<Rightarrow> string list \<Rightarrow> lane_ctx \<Rightarrow> lexpr \<Rightarrow> lane_ctx" where
  "lane_go_arg pos ds c a = (case lane_derived_find_in_expr ds a of
     None \<Rightarrow> c | Some view \<Rightarrow> lane_error c (LaneViewShared pos view))"

definition lane_go_capture :: "position \<Rightarrow> string list \<Rightarrow> lane_ctx \<Rightarrow> string \<Rightarrow> lane_ctx" where
  "lane_go_capture pos ds c n = (if n \<in> set ds then lane_error c (LaneViewShared pos n) else c)"

definition lane_go_check :: "lane_ctx \<Rightarrow> position \<Rightarrow> string list \<Rightarrow> lexpr \<Rightarrow> lane_ctx" where
  "lane_go_check c pos ds call = (case call of
     LCall f args \<Rightarrow> (let c1 = foldl (lane_go_arg pos ds) c args in
       (case f of LFuncLit q ps caps body \<Rightarrow> foldl (lane_go_capture pos ds) c1 caps | _ \<Rightarrow> c1))
   | _ \<Rightarrow> c)"

fun lane_body_walk_stmt :: "lane_ctx \<times> string list \<Rightarrow> lstmt \<Rightarrow> lane_ctx \<times> string list"
  and lane_body_walk_list :: "lane_ctx \<times> string list \<Rightarrow> lstmt list \<Rightarrow> lane_ctx \<times> string list" where
  "lane_body_walk_stmt w (KBlock ss) = lane_body_walk_list w ss"
| "lane_body_walk_stmt (c, ds) (KVar names values) = (case values of
     [] \<Rightarrow> (c, ds)
   | v # _ \<Rightarrow> (c, if lane_derived_find_in_expr ds v \<noteq> None then foldl lane_derived_add ds names else ds))"
| "lane_body_walk_stmt (c, ds) (KGo pos call) = (lane_go_check c pos ds call, ds)"
| "lane_body_walk_stmt w (KIf e th el) = lane_body_walk_stmt (lane_body_walk_stmt w th) el"
| "lane_body_walk_stmt w (KFor init e post rng body) =
     lane_body_walk_stmt (lane_body_walk_stmt (lane_body_walk_stmt w init) post) body"
| "lane_body_walk_stmt w (KSwitch tag cs) = lane_body_walk_list w cs"
| "lane_body_walk_stmt w (KCase es ss) = lane_body_walk_list w ss"
| "lane_body_walk_stmt w (KLabel s) = lane_body_walk_stmt w s"
| "lane_body_walk_stmt w s = w"
| "lane_body_walk_list w [] = w"
| "lane_body_walk_list w (s # ss) = lane_body_walk_list (lane_body_walk_stmt w s) ss"

section \<open>The walk\<close>

definition lane_consume :: "lane_ctx \<Rightarrow> lexpr \<Rightarrow> lane_ctx" where
  "lane_consume c a0 = (case a0 of
     LIdent pos pname \<Rightarrow> (case map_of (lc_consumed c) pname of
         Some at \<Rightarrow> lane_error c (UseAfterConsume pos pname at)
       | None \<Rightarrow> if length (lc_consumed c) < LANE_OWNERSHIP_MAX_MOVES_PER_FUNC
           then c\<lparr>lc_consumed := lc_consumed c @ [(pname, pos)]\<rparr> else c)
   | _ \<Rightarrow> c)"

definition lane_bind :: "lane_ctx \<Rightarrow> string list \<Rightarrow> string \<Rightarrow> position \<Rightarrow> lexpr list \<Rightarrow> lane_ctx" where
  "lane_bind c names src pos rest = (case names of [] \<Rightarrow> c | name # _ \<Rightarrow>
     let count = (case rest of [] \<Rightarrow> None | e # _ \<Rightarrow> folded_value (goo_fold_const_int_ctx (lc_consts c) (fold_view e))) in
     c\<lparr>lc_bindings := \<lparr>pb_binding_name = name, pb_source_name = src, pb_partition_pos = pos,
         pb_lane_count = (case count of None \<Rightarrow> 0 | Some v \<Rightarrow> v), pb_lane_count_known = (count \<noteq> None)\<rparr> # lc_bindings c\<rparr>)"

text \<open>The move and the binding of a declaration whose initialiser is a partition call with these arguments.\<close>

definition lane_partition :: "lane_ctx \<Rightarrow> string list \<Rightarrow> position \<Rightarrow> lexpr list \<Rightarrow> lane_ctx" where
  "lane_partition c names pos args = (case args of
     LIdent q src # rest \<Rightarrow> lane_bind (lane_mark_moved c src pos) names src pos rest
   | _ \<Rightarrow> c)"

text \<open>The checks of a lane body at its \<open>lanes.Run\<close>, and the names derived in it.\<close>

definition lane_enter_body :: "lane_ctx \<Rightarrow> position \<Rightarrow> string list \<Rightarrow> string list \<Rightarrow> lstmt \<Rightarrow> lane_ctx \<times> string list" where
  "lane_enter_body c pos ps caps body =
     lane_body_walk_stmt (lane_check_capture_rule c pos caps,
       case lane_funclit_first_param_name ps of None \<Rightarrow> [] | Some p \<Rightarrow> lane_derived_add [] p) body"

text \<open>
  The walk over expressions and statements. At a \<open>lanes.Run\<close> the call is handled whole: the two
  plain arguments, the consumption of the partition, the checks of the body, and the body under its
  own set of derived names.
\<close>

lemma partition_call_size: "lane_partition_call ch e = Some (pos, args) \<Longrightarrow> size_list size args < size e"
  by (auto simp: lane_partition_call_def split: lexpr.splits if_splits)

function lane_check_reads :: "lane_ctx \<Rightarrow> lexpr \<Rightarrow> lane_ctx"
  and lane_check_list :: "lane_ctx \<Rightarrow> lexpr list \<Rightarrow> lane_ctx"
  and lane_handle_run_boundary :: "lane_ctx \<Rightarrow> lexpr list \<Rightarrow> lane_ctx"
  and lane_handle_var_decl :: "lane_ctx \<Rightarrow> string list \<Rightarrow> lexpr list \<Rightarrow> lane_ctx"
  and lane_handle_expr_stmt :: "lane_ctx \<Rightarrow> lexpr \<Rightarrow> lane_ctx"
  and lane_walk_stmt :: "lane_ctx \<Rightarrow> lstmt \<Rightarrow> lane_ctx"
  and lane_walk_list :: "lane_ctx \<Rightarrow> lstmt list \<Rightarrow> lane_ctx" where
  "lane_check_reads c LNull = c"
| "lane_check_reads c (LIdent pos name) = (case lane_name_is_moved c name of
     None \<Rightarrow> c | Some at \<Rightarrow> lane_error c (UseAfterMove pos name at))"
| "lane_check_reads c (LLiteral ty s) = c"
| "lane_check_reads c (LBinary op l r) = lane_check_reads (lane_check_reads c l) r"
| "lane_check_reads c (LUnary op e) = lane_check_reads c e"
| "lane_check_reads c (LPostfix e) = lane_check_reads c e"
| "lane_check_reads c (LIndex e i) = lane_check_reads (lane_check_reads c e) i"
| "lane_check_reads c (LSliceIndex e l h) = lane_check_reads (lane_check_reads (lane_check_reads c e) l) h"
| "lane_check_reads c (LSliceLit es) = lane_check_list c es"
| "lane_check_reads c (LSelector pos e sel) = lane_check_reads c e"
| "lane_check_reads c (LCall f args) =
     (if lane_call_is_run (lc_checker c) (LCall f args) then lane_handle_run_boundary c args
      else lane_check_list (lane_check_reads c f) args)"
| "lane_check_reads c (LFuncLit pos ps caps body) = lane_walk_stmt c body"
| "lane_check_reads c LOtherExpr = c"
| "lane_check_list c [] = c"
| "lane_check_list c (e # es) = lane_check_list (lane_check_reads c e) es"
| "lane_handle_run_boundary c [] = c"
| "lane_handle_run_boundary c [a0] = lane_consume (lane_check_reads c a0) a0"
| "lane_handle_run_boundary c [a0, a1] = lane_consume (lane_check_reads (lane_check_reads c a0) a1) a0"
| "lane_handle_run_boundary c (a0 # a1 # a2 # rest) =
     (let c1 = lane_consume (lane_check_reads (lane_check_reads c a0) a1) a0 in
      case a2 of
        LFuncLit pos ps caps body \<Rightarrow>
          (let (c2, derived) = lane_enter_body c1 pos ps caps body in
           (lane_walk_stmt (c2\<lparr>lc_outer := Some derived\<rparr>) body)\<lparr>lc_outer := lc_outer c2\<rparr>)
      | _ \<Rightarrow> c1)"
| "lane_handle_var_decl c names [] = c"
| "lane_handle_var_decl c names (v # vs) = (case lane_partition_call (lc_checker c) v of
     Some (pos, args) \<Rightarrow> (case args of [] \<Rightarrow> c
       | a # rest \<Rightarrow> lane_check_list (lane_partition c names pos (a # rest)) rest)
   | None \<Rightarrow> lane_check_reads c v)"
| "lane_handle_expr_stmt c e = (case e of
     LBinary op l r \<Rightarrow>
       (if op \<noteq> TOKEN_ASSIGN then lane_check_reads (lane_check_reads c l) r
        else (case ident_name l of
            Some name \<Rightarrow> lane_clear_moved (lane_check_reads c r) name
          | None \<Rightarrow> lane_check_reads (lane_check_reads c r) l))
   | _ \<Rightarrow> lane_check_reads c e)"
| "lane_walk_stmt c KNull = c"
| "lane_walk_stmt c (KBlock ss) = lane_walk_list c ss"
| "lane_walk_stmt c (KExpr e) = lane_handle_expr_stmt c e"
| "lane_walk_stmt c (KVar names values) = lane_handle_var_decl c names values"
| "lane_walk_stmt c (KIf e th el) = lane_walk_stmt (lane_walk_stmt (lane_check_reads c e) th) el"
| "lane_walk_stmt c (KFor init e post rng body) =
     lane_walk_stmt (lane_check_reads (lane_walk_stmt (lane_check_reads (lane_walk_stmt c init) e) post) rng) body"
| "lane_walk_stmt c (KReturn es) = (case es of [] \<Rightarrow> c | e # _ \<Rightarrow> lane_check_reads c e)"
| "lane_walk_stmt c (KDefer call) = lane_check_reads c call"
| "lane_walk_stmt c (KGo pos call) = lane_check_reads c call"
| "lane_walk_stmt c (KLabel s) = lane_walk_stmt c s"
| "lane_walk_stmt c (KSwitch tag cs) = lane_walk_list (lane_check_reads c tag) cs"
| "lane_walk_stmt c (KCase es ss) = lane_walk_list (lane_check_list c es) ss"
| "lane_walk_stmt c (KMulti es) = lane_check_list c es"
| "lane_walk_stmt c KJump = c"
| "lane_walk_stmt c KOther = c"
| "lane_walk_list c [] = c"
| "lane_walk_list c (s # ss) = lane_walk_list (lane_walk_stmt c s) ss"
  by pat_completeness auto
termination
  by (relation "measure (\<lambda>x. case x of
      Inl (Inl (c, e)) \<Rightarrow> 2 * size e
    | Inl (Inr (Inl (c, es))) \<Rightarrow> 2 * size_list size es
    | Inl (Inr (Inr (c, es))) \<Rightarrow> 2 * size_list size es
    | Inr (Inl (Inl (c, names, es))) \<Rightarrow> 2 * size_list size es
    | Inr (Inl (Inr (c, e))) \<Rightarrow> 2 * size e + 1
    | Inr (Inr (Inl (c, s))) \<Rightarrow> 2 * size s
    | Inr (Inr (Inr (c, ss))) \<Rightarrow> 2 * size_list size ss)") (auto dest!: partition_call_size)

section \<open>Programs\<close>

text \<open>The top-level declarations: the body of each function, \<open>None\<close> for any other declaration.\<close>

definition lane_check_function :: "lane_ctx \<Rightarrow> lstmt option \<Rightarrow> lane_ctx" where
  "lane_check_function c d = (case d of None \<Rightarrow> c | Some body \<Rightarrow> lane_walk_stmt (lane_ctx_reset_for_function c) body)"

definition lane_walk_program :: "tchecker \<Rightarrow> fscope \<Rightarrow> lstmt option list \<Rightarrow> lane_ctx" where
  "lane_walk_program ch consts decls =
     lane_ctx_reset_for_function (foldl lane_check_function (lane_ctx_init ch consts) decls)"

definition lane_ownership_check_program :: "tchecker \<Rightarrow> fscope \<Rightarrow> lstmt option list \<Rightarrow> bool" where
  "lane_ownership_check_program ch consts decls =
     (tc_error_count (lc_checker (lane_walk_program ch consts decls)) = tc_error_count ch)"

end
