(* ===== verification/Lanes_Props.thy ===== *)
theory Lanes_Props
  imports Lanes
begin

text \<open>
  What the pass on lanes accepts. The walk is compared with the events of a function in textual
  order: reads, moves, assignments, runs and lane bodies. A function is accepted exactly when no
  event breaks a rule in the state the earlier events leave, and for functions whose loops and
  branches leave the moved names alone this carries over to every run.
\<close>

section \<open>Events in textual order\<close>

datatype lane_event =
    Read string
  | Moved string
  | Write string
  | Bound string
  | Ran string
  | Body "string list option" "string list" "string list" lstmt

definition packages :: "tchecker \<Rightarrow> string \<Rightarrow> bool" where
  "packages ch x = (case type_checker_lookup_variable ch x of None \<Rightarrow> False | Some v \<Rightarrow> var_package v = Some ''lanes'')"

definition lanes_call :: "(string \<Rightarrow> bool) \<Rightarrow> string \<Rightarrow> lexpr \<Rightarrow> bool" where
  "lanes_call P sel e = (case e of LCall (LSelector p (LIdent q pkg) s) args \<Rightarrow> P pkg \<and> s = sel | _ \<Rightarrow> False)"

text \<open>The names derived from the context of a lane in its body, and whether a \<open>go\<close> of the body shares one.\<close>

definition first_param :: "string list \<Rightarrow> string list" where
  "first_param ps = (case ps of [] \<Rightarrow> [] | p # _ \<Rightarrow> [p])"

definition body_derived :: "string list \<Rightarrow> lstmt \<Rightarrow> string list" where
  "body_derived ps body = snd (lane_body_walk_stmt (lane_ctx_init empty_checker [], first_param ps) body)"

definition body_shares :: "string list \<Rightarrow> lstmt \<Rightarrow> bool" where
  "body_shares ps body = (lc_report (fst (lane_body_walk_stmt (lane_ctx_init empty_checker [], first_param ps) body)) \<noteq> [])"

definition ran :: "lexpr list \<Rightarrow> lane_event list" where
  "ran args = (case args of LIdent pos p # _ \<Rightarrow> [Ran p] | _ \<Rightarrow> [])"

definition partitioned :: "string list \<Rightarrow> lexpr list \<Rightarrow> lane_event list" where
  "partitioned names args = (case args of LIdent pos x # _ \<Rightarrow> Moved x # map Bound (first_param names) | _ \<Rightarrow> [])"

function events :: "(string \<Rightarrow> bool) \<Rightarrow> string list option \<Rightarrow> lexpr \<Rightarrow> lane_event list"
  and events_list :: "(string \<Rightarrow> bool) \<Rightarrow> string list option \<Rightarrow> lexpr list \<Rightarrow> lane_event list"
  and events_run :: "(string \<Rightarrow> bool) \<Rightarrow> string list option \<Rightarrow> lexpr list \<Rightarrow> lane_event list"
  and events_stmt :: "(string \<Rightarrow> bool) \<Rightarrow> string list option \<Rightarrow> lstmt \<Rightarrow> lane_event list"
  and events_stmts :: "(string \<Rightarrow> bool) \<Rightarrow> string list option \<Rightarrow> lstmt list \<Rightarrow> lane_event list" where
  "events P d LNull = []"
| "events P d (LIdent pos x) = [Read x]"
| "events P d (LLiteral ty s) = []"
| "events P d (LBinary op l r) = events P d l @ events P d r"
| "events P d (LUnary op e) = events P d e"
| "events P d (LPostfix e) = events P d e"
| "events P d (LIndex e i) = events P d e @ events P d i"
| "events P d (LSliceIndex e l h) = events P d e @ events P d l @ events P d h"
| "events P d (LSliceLit es) = events_list P d es"
| "events P d (LSelector pos e sel) = events P d e"
| "events P d (LCall f args) =
     (if lanes_call P ''Run'' (LCall f args) then events_run P d args else events P d f @ events_list P d args)"
| "events P d (LFuncLit pos ps caps body) = events_stmt P d body"
| "events P d LOtherExpr = []"
| "events_list P d [] = []"
| "events_list P d (e # es) = events P d e @ events_list P d es"
| "events_run P d [] = []"
| "events_run P d [a0] = events P d a0 @ ran [a0]"
| "events_run P d [a0, a1] = events P d a0 @ events P d a1 @ ran [a0]"
| "events_run P d (a0 # a1 # a2 # rest) = events P d a0 @ events P d a1 @ ran [a0] @ (case a2 of
     LFuncLit pos ps caps body \<Rightarrow> Body d caps ps body # events_stmt P (Some (body_derived ps body)) body
   | _ \<Rightarrow> [])"
| "events_stmt P d KNull = []"
| "events_stmt P d (KBlock ss) = events_stmts P d ss"
| "events_stmt P d (KExpr e) = (case e of
     LBinary op l r \<Rightarrow>
       (if op \<noteq> TOKEN_ASSIGN then events P d l @ events P d r
        else (case ident_name l of Some x \<Rightarrow> events P d r @ [Write x] | None \<Rightarrow> events P d r @ events P d l))
   | _ \<Rightarrow> events P d e)"
| "events_stmt P d (KVar names values) = (case values of [] \<Rightarrow> [] | v # _ \<Rightarrow>
     (case v of LCall f args \<Rightarrow>
        (if lanes_call P ''Partition'' v then (case args of [] \<Rightarrow> [] | a # rest \<Rightarrow> partitioned names args @ events_list P d rest)
         else events P d v)
      | _ \<Rightarrow> events P d v))"
| "events_stmt P d (KIf e th el) = events P d e @ events_stmt P d th @ events_stmt P d el"
| "events_stmt P d (KFor init e post rng body) =
     events_stmt P d init @ events P d e @ events_stmt P d post @ events P d rng @ events_stmt P d body"
| "events_stmt P d (KReturn es) = (case es of [] \<Rightarrow> [] | e # _ \<Rightarrow> events P d e)"
| "events_stmt P d (KDefer call) = events P d call"
| "events_stmt P d (KGo pos call) = events P d call"
| "events_stmt P d (KLabel s) = events_stmt P d s"
| "events_stmt P d (KSwitch tag cs) = events P d tag @ events_stmts P d cs"
| "events_stmt P d (KCase es ss) = events_list P d es @ events_stmts P d ss"
| "events_stmt P d (KMulti es) = events_list P d es"
| "events_stmt P d KJump = []"
| "events_stmt P d KOther = []"
| "events_stmts P d [] = []"
| "events_stmts P d (s # ss) = events_stmt P d s @ events_stmts P d ss"
  by pat_completeness auto
termination
  by (relation "measure (\<lambda>x. case x of
      Inl (Inl (c, d, e)) \<Rightarrow> size e
    | Inl (Inr (c, d, es)) \<Rightarrow> size_list size es
    | Inr (Inl (c, d, es)) \<Rightarrow> size_list size es
    | Inr (Inr (Inl (c, d, s))) \<Rightarrow> size s
    | Inr (Inr (Inr (c, d, ss))) \<Rightarrow> size_list size ss)") auto

section \<open>The rules\<close>

record lane_state =
  ls_moved :: "string set"
  ls_consumed :: "string set"
  ls_bound :: "string set"

fun allowed :: "lane_state \<Rightarrow> lane_event \<Rightarrow> bool" where
  "allowed S (Read x) = (x \<notin> ls_moved S)"
| "allowed S (Ran p) = (p \<notin> ls_consumed S)"
| "allowed S (Body d caps ps body) =
     ((\<forall>n \<in> set caps. n \<notin> ls_bound S \<and> n \<notin> ls_moved S \<and> (case d of None \<Rightarrow> True | Some ds \<Rightarrow> n \<notin> set ds))
      \<and> \<not> body_shares ps body)"
| "allowed S _ = True"

fun after :: "lane_state \<Rightarrow> lane_event \<Rightarrow> lane_state" where
  "after S (Moved x) = S\<lparr>ls_moved := insert x (ls_moved S)\<rparr>"
| "after S (Write x) = S\<lparr>ls_moved := ls_moved S - {x}\<rparr>"
| "after S (Bound n) = S\<lparr>ls_bound := insert n (ls_bound S)\<rparr>"
| "after S (Ran p) = S\<lparr>ls_consumed := insert p (ls_consumed S)\<rparr>"
| "after S _ = S"

fun obeys :: "lane_state \<Rightarrow> lane_event list \<Rightarrow> bool" where
  "obeys S [] = True"
| "obeys S (e # es) = (allowed S e \<and> obeys (after S e) es)"

definition start :: lane_state where
  "start = \<lparr>ls_moved = {}, ls_consumed = {}, ls_bound = {}\<rparr>"

lemma obeys_append [simp]: "obeys S (es @ fs) = (obeys S es \<and> obeys (foldl after S es) fs)"
  by (induction es arbitrary: S) auto

definition moves :: "lane_event list \<Rightarrow> nat" where
  "moves es = length (filter (\<lambda>e. case e of Moved x \<Rightarrow> True | _ \<Rightarrow> False) es)"

definition runs_of :: "lane_event list \<Rightarrow> nat" where
  "runs_of es = length (filter (\<lambda>e. case e of Ran p \<Rightarrow> True | _ \<Rightarrow> False) es)"

lemma counts [simp]:
  "moves [] = 0" "moves (es @ fs) = moves es + moves fs"
  "moves (e # es) = (case e of Moved x \<Rightarrow> Suc (moves es) | _ \<Rightarrow> moves es)"
  "runs_of [] = 0" "runs_of (es @ fs) = runs_of es + runs_of fs"
  "runs_of (e # es) = (case e of Ran x \<Rightarrow> Suc (runs_of es) | _ \<Rightarrow> runs_of es)"
  by (auto simp: moves_def runs_of_def split: lane_event.split)

section \<open>The checker during the walk\<close>

lemma packages_type_error [simp]: "packages (type_error ch) = packages ch"
  by (rule ext) (simp add: packages_def type_error_def type_checker_lookup_variable_def)

lemma find_update_variable:
  "(\<And>v. var_name (f v) = var_name v) \<Longrightarrow>
   find_variable x (update_variable n f vs) = (if x = n then map_option f (find_variable n vs) else find_variable x vs)"
  by (induction vs) auto

lemma scope_lookup_update:
  "(\<And>v. var_name (f v) = var_name v) \<Longrightarrow>
   scope_lookup_variable (scope_update sc n f) x =
     (if x = n then map_option f (scope_lookup_variable sc n) else scope_lookup_variable sc x)"
  by (induction sc) (auto simp: find_update_variable split: option.splits)

lemma packages_mark_moved [simp]: "packages (mark_variable_moved ch n pos) = packages ch"
  by (rule ext) (auto simp: packages_def mark_variable_moved_def type_checker_lookup_variable_def scope_lookup_update
      split: option.splits)

lemma lane_error_simps [simp]:
  "lc_moved (lane_error c d) = lc_moved c" "lc_consumed (lane_error c d) = lc_consumed c"
  "lc_bindings (lane_error c d) = lc_bindings c" "lc_outer (lane_error c d) = lc_outer c"
  "lc_report (lane_error c d) = lc_report c @ [d]" "packages (lc_checker (lane_error c d)) = packages (lc_checker c)"
  "tc_error_count (lc_checker (lane_error c d)) = tc_error_count (lc_checker c) + 1"
  by (auto simp: lane_error_def type_error_def packages_type_error [unfolded type_error_def])

lemma recognised [simp]:
  "lane_call_is_run ch e = lanes_call (packages ch) ''Run'' e"
  "lane_call_is_partition ch e = lanes_call (packages ch) ''Partition'' e"
  by (auto simp: lane_call_is_run_def lane_call_is_partition_def lane_call_is_lanes_selector_def lanes_call_def packages_def
      split: lexpr.splits option.splits)

section \<open>Diagnostics of a lane body\<close>

text \<open>A check that only appends diagnostics is \<open>foldl lane_error c dl\<close> with a list that does not depend on \<open>c\<close>.\<close>

lemma errors_simps [simp]:
  "lc_moved (foldl lane_error c dl) = lc_moved c" "lc_consumed (foldl lane_error c dl) = lc_consumed c"
  "lc_bindings (foldl lane_error c dl) = lc_bindings c" "lc_outer (foldl lane_error c dl) = lc_outer c"
  "lc_report (foldl lane_error c dl) = lc_report c @ dl"
  "packages (lc_checker (foldl lane_error c dl)) = packages (lc_checker c)"
  "tc_error_count (lc_checker (foldl lane_error c dl)) = tc_error_count (lc_checker c) + int (length dl)"
  by (induction dl arbitrary: c) auto

lemma capture_rule_errors:
  "lane_check_capture_rule c pos caps = foldl lane_error c (map (LaneCapture pos) (filter (capture_violates c) caps))"
proof -
  have "foldl (\<lambda>c n. if capture_violates c n then lane_error c (LaneCapture pos n) else c) c' caps
      = foldl lane_error c' (map (LaneCapture pos) (filter (capture_violates c) caps))"
    if "\<forall>n. capture_violates c' n = capture_violates c n" for c'
    using that
  proof (induction caps arbitrary: c')
    case (Cons n caps)
    have "\<forall>m. capture_violates (lane_error c' (LaneCapture pos n)) m = capture_violates c m"
      using Cons.prems by (simp add: capture_violates_def lane_name_is_partition_binding_def lane_name_is_moved_def)
    then show ?case using Cons by simp
  qed simp
  then show ?thesis by (simp add: lane_check_capture_rule_def)
qed

definition go_diags :: "position \<Rightarrow> string list \<Rightarrow> lexpr \<Rightarrow> lane_diag list" where
  "go_diags pos ds call = map (LaneViewShared pos) (case call of
     LCall f args \<Rightarrow> List.map_filter (lane_derived_find_in_expr ds) args @
       (case f of LFuncLit q ps caps body \<Rightarrow> filter (\<lambda>n. n \<in> set ds) caps | _ \<Rightarrow> [])
   | _ \<Rightarrow> [])"

lemma go_errors: "lane_go_check c pos ds call = foldl lane_error c (go_diags pos ds call)"
proof -
  have args: "foldl (lane_go_arg pos ds) c args =
      foldl lane_error c (map (LaneViewShared pos) (List.map_filter (lane_derived_find_in_expr ds) args))" for c args
    by (induction args arbitrary: c) (auto simp: lane_go_arg_def List.map_filter_simps split: option.split)
  have caps: "foldl (lane_go_capture pos ds) c caps =
      foldl lane_error c (map (LaneViewShared pos) (filter (\<lambda>n. n \<in> set ds) caps))" for c caps
    by (induction caps arbitrary: c) (auto simp: lane_go_capture_def)
  show ?thesis by (auto simp: lane_go_check_def go_diags_def args caps split: lexpr.split)
qed

lemma body_errors:
  fixes w :: "lane_ctx \<times> string list"
  shows "\<exists>dl ds'. \<forall>c. lane_body_walk_stmt (c, snd w) s = (foldl lane_error c dl, ds')"
    and "\<exists>dl ds'. \<forall>c. lane_body_walk_list (c, snd w) ss = (foldl lane_error c dl, ds')"
proof (induction w s and w ss rule: lane_body_walk_stmt_lane_body_walk_list.induct)
  case (2 c ds names vs)
  then show ?case by (cases vs) (auto intro: exI [of _ "[]"])
next
  case (3 c ds pos call)
  then show ?case by (auto simp: go_errors)
next
  case (4 w e th el)
  then show ?case by (metis (no_types, lifting) foldl_append lane_body_walk_stmt.simps(4) prod.collapse snd_conv)
next
  case (5 w init e post rng body)
  then show ?case by (metis (no_types, lifting) foldl_append lane_body_walk_stmt.simps(5) prod.collapse snd_conv)
next
  case (11 w s ss)
  then show ?case by (metis (no_types, lifting) foldl_append lane_body_walk_list.simps(2) prod.collapse snd_conv)
qed (auto intro: exI [of _ "[]"] split: list.split)

lemma enter_body_errors:
  "\<exists>dl. (\<forall>c. lane_enter_body c pos ps caps body =
       (foldl lane_error c (map (LaneCapture pos) (filter (capture_violates c) caps) @ dl), body_derived ps body))
     \<and> (dl = [] \<longleftrightarrow> \<not> body_shares ps body)"
proof -
  have seed: "(case lane_funclit_first_param_name ps of None \<Rightarrow> [] | Some p \<Rightarrow> lane_derived_add [] p) = first_param ps"
    by (simp add: lane_funclit_first_param_name_def first_param_def lane_derived_add_def LANE_DERIVED_MAX_def
        LANE_OWNERSHIP_MAX_MOVES_PER_FUNC_def split: list.split)
  obtain dl ds' where walk: "lane_body_walk_stmt (c, first_param ps) body = (foldl lane_error c dl, ds')" for c
    using body_errors(1) [of "(undefined, first_param ps)" body] by auto
  have "body_derived ps body = ds'" "body_shares ps body = (dl \<noteq> [])"
    by (simp_all add: body_derived_def body_shares_def walk lane_ctx_init_def)
  then show ?thesis
    by (intro exI [of _ dl]) (simp add: lane_enter_body_def seed walk capture_rule_errors)
qed

section \<open>The walk follows the events\<close>

definition abs_ctx :: "lane_ctx \<Rightarrow> lane_state" where
  "abs_ctx c = \<lparr>ls_moved = fst ` set (lc_moved c), ls_consumed = fst ` set (lc_consumed c),
     ls_bound = pb_binding_name ` set (lc_bindings c)\<rparr>"

definition room :: "lane_ctx \<Rightarrow> lane_event list \<Rightarrow> bool" where
  "room c es \<longleftrightarrow> length (lc_moved c) + moves es \<le> LANE_OWNERSHIP_MAX_MOVES_PER_FUNC
     \<and> length (lc_consumed c) + runs_of es \<le> LANE_OWNERSHIP_MAX_MOVES_PER_FUNC"

definition follows :: "lane_ctx \<Rightarrow> lane_event list \<Rightarrow> lane_ctx \<Rightarrow> bool" where
  "follows c es c' \<longleftrightarrow> lc_outer c' = lc_outer c \<and> packages (lc_checker c') = packages (lc_checker c)
     \<and> (\<exists>dl. lc_report c' = lc_report c @ dl \<and> tc_error_count (lc_checker c') = tc_error_count (lc_checker c) + int (length dl)
          \<and> (room c es \<longrightarrow> (dl = [] \<longleftrightarrow> obeys (abs_ctx c) es)))
     \<and> (room c es \<longrightarrow> abs_ctx c' = foldl after (abs_ctx c) es
          \<and> length (lc_moved c') \<le> length (lc_moved c) + moves es
          \<and> length (lc_consumed c') \<le> length (lc_consumed c) + runs_of es)"

lemma follows_nil [simp]: "follows c [] c"
  by (simp add: follows_def)

lemma follows_append: "follows c es c1 \<Longrightarrow> follows c1 fs c2 \<Longrightarrow> follows c (es @ fs) c2"
proof -
  assume 1: "follows c es c1" and 2: "follows c1 fs c2"
  obtain dl1 where dl1: "lc_report c1 = lc_report c @ dl1"
    "tc_error_count (lc_checker c1) = tc_error_count (lc_checker c) + int (length dl1)"
    "room c es \<Longrightarrow> (dl1 = [] \<longleftrightarrow> obeys (abs_ctx c) es)"
    using 1 unfolding follows_def by blast
  obtain dl2 where dl2: "lc_report c2 = lc_report c1 @ dl2"
    "tc_error_count (lc_checker c2) = tc_error_count (lc_checker c1) + int (length dl2)"
    "room c1 fs \<Longrightarrow> (dl2 = [] \<longleftrightarrow> obeys (abs_ctx c1) fs)"
    using 2 unfolding follows_def by blast
  have first: "room c es" "room c1 fs" "abs_ctx c1 = foldl after (abs_ctx c) es" if "room c (es @ fs)"
  proof -
    show "room c es" using that by (simp add: room_def)
    with 1 show "abs_ctx c1 = foldl after (abs_ctx c) es" by (simp add: follows_def)
    show "room c1 fs" using that 1 \<open>room c es\<close> by (auto simp: room_def follows_def)
  qed
  show ?thesis unfolding follows_def
  proof (intro conjI exI [of _ "dl1 @ dl2"] impI)
    assume r: "room c (es @ fs)"
    show "(dl1 @ dl2 = []) = obeys (abs_ctx c) (es @ fs)"
      using dl1(3) dl2(3) first [OF r] by simp
    show "abs_ctx c2 = foldl after (abs_ctx c) (es @ fs)" using 2 first [OF r] by (simp add: follows_def)
    show "length (lc_moved c2) \<le> length (lc_moved c) + moves (es @ fs)"
      "length (lc_consumed c2) \<le> length (lc_consumed c) + runs_of (es @ fs)"
      using 1 2 first [OF r] by (auto simp: follows_def)
  qed (use 1 2 dl1 dl2 in \<open>auto simp: follows_def\<close>)
qed

lemma follows_context:
  "follows c es c' \<Longrightarrow> packages (lc_checker c') = packages (lc_checker c) \<and> lc_outer c' = lc_outer c"
  by (simp add: follows_def)

lemma map_of_none_iff: "(map_of xs k = None) = (k \<notin> fst ` set xs)"
  by (rule map_of_eq_None_iff)

lemma follows_read: "follows c [Read x] (case lane_name_is_moved c x of None \<Rightarrow> c | Some at \<Rightarrow> lane_error c (UseAfterMove pos x at))"
  by (auto simp: follows_def room_def abs_ctx_def lane_name_is_moved_def map_of_none_iff split: option.split
      dest!: map_of_SomeD intro: rev_image_eqI)

lemma follows_consume: "follows c (ran [a0]) (lane_consume c a0)"
  by (auto simp: follows_def room_def abs_ctx_def ran_def lane_consume_def map_of_none_iff split: lexpr.split option.split
      dest!: map_of_SomeD intro: rev_image_eqI)

lemma follows_clear: "follows c [Write x] (lane_clear_moved c x)"
  by (auto simp: follows_def room_def abs_ctx_def lane_clear_moved_def intro: rev_image_eqI le_trans [OF length_filter_le])

lemma follows_partition: "follows c (partitioned names args) (lane_partition c names pos args)"
  by (auto simp: follows_def room_def abs_ctx_def partitioned_def lane_partition_def lane_bind_def lane_mark_moved_def Let_def
      first_param_def mark_variable_moved_def packages_mark_moved [unfolded mark_variable_moved_def]
      split: lexpr.split list.split)

lemma follows_error_list:
  "(room c [e] \<Longrightarrow> (dl = [] \<longleftrightarrow> allowed (abs_ctx c) e)) \<Longrightarrow> after (abs_ctx c) e = abs_ctx c \<Longrightarrow> follows c [e] (foldl lane_error c dl)"
  by (auto simp: follows_def abs_ctx_def)

lemma follows_body:
  assumes "lane_enter_body c pos ps caps body = (c2, ds)"
  shows "follows c [Body (lc_outer c) caps ps body] c2 \<and> ds = body_derived ps body"
proof -
  obtain dl where dl: "lane_enter_body c pos ps caps body =
       (foldl lane_error c (map (LaneCapture pos) (filter (capture_violates c) caps) @ dl), body_derived ps body)"
    "dl = [] \<longleftrightarrow> \<not> body_shares ps body"
    using enter_body_errors [of pos ps caps body] by blast
  have "capture_violates c n \<longleftrightarrow> \<not> (n \<notin> ls_bound (abs_ctx c) \<and> n \<notin> ls_moved (abs_ctx c)
      \<and> (case lc_outer c of None \<Rightarrow> True | Some ds \<Rightarrow> n \<notin> set ds))" for n
    by (auto simp: capture_violates_def lane_name_is_partition_binding_def lane_name_is_moved_def abs_ctx_def
        list_ex_iff map_of_none_iff dest!: map_of_SomeD intro: rev_image_eqI split: option.splits)
  then have "follows c [Body (lc_outer c) caps ps body]
      (foldl lane_error c (map (LaneCapture pos) (filter (capture_violates c) caps) @ dl))"
    using dl(2) by (intro follows_error_list) (auto simp: filter_empty_conv)
  then show ?thesis using assms dl(1) by simp
qed

lemma follows_outer: "follows (c\<lparr>lc_outer := d\<rparr>) es c' \<Longrightarrow> follows c es (c'\<lparr>lc_outer := lc_outer c\<rparr>)"
  by (simp add: follows_def room_def abs_ctx_def)

definition same_place :: "lane_ctx \<Rightarrow> lane_ctx \<Rightarrow> bool" where
  "same_place c c' \<longleftrightarrow> packages (lc_checker c') = packages (lc_checker c) \<and> lc_outer c' = lc_outer c"

lemma same_place_parts [simp]:
  "same_place c (case lane_name_is_moved c x of None \<Rightarrow> c | Some at \<Rightarrow> lane_error c (UseAfterMove pos x at))"
  "same_place c (lane_consume c a0)" "same_place c (lane_clear_moved c x)" "same_place c (lane_partition c names pos args)"
  using follows_context [OF follows_read] follows_context [OF follows_consume] follows_context [OF follows_clear]
    follows_context [OF follows_partition] by (simp_all add: same_place_def)

lemma same_place_trans: "same_place a b \<Longrightarrow> same_place b c \<Longrightarrow> same_place a c"
  by (simp add: same_place_def)

lemma same_place_refl [simp]: "same_place c c"
  by (simp add: same_place_def)

lemma same_place_body:
  "lane_enter_body c1 pos ps caps body = (c2, ds) \<Longrightarrow> same_place c c1 \<Longrightarrow> same_place (c2\<lparr>lc_outer := d\<rparr>) c3
   \<Longrightarrow> same_place c (c3\<lparr>lc_outer := lc_outer c2\<rparr>)"
  using follows_body [of c1 pos ps caps body c2 ds] by (auto simp: same_place_def dest: follows_context)

lemmas lane_walk_induct =
  lane_check_reads_lane_check_list_lane_handle_run_boundary_lane_handle_var_decl_lane_handle_expr_stmt_lane_walk_stmt_lane_walk_list.induct

lemma partition_call_iff:
  "lane_partition_call ch v = Some (pos, args) \<longleftrightarrow>
     (\<exists>q pkg. v = LCall (LSelector pos (LIdent q pkg) ''Partition'') args \<and> packages ch pkg)"
  "lane_partition_call ch v = None \<longleftrightarrow> \<not> lanes_call (packages ch) ''Partition'' v"
  by (auto simp: lane_partition_call_def lanes_call_def split: lexpr.splits)

lemma plain_declaration:
  "\<not> lanes_call P ''Partition'' v \<Longrightarrow> events_stmt P d (KVar names (v # vs)) = events P d v"
  by (auto split: lexpr.split)

lemma partition_declaration:
  "P pkg \<Longrightarrow> events_stmt P d (KVar names (LCall (LSelector pos (LIdent q pkg) ''Partition'') args # vs)) =
     (case args of [] \<Rightarrow> [] | a # rest \<Rightarrow> partitioned names args @ events_list P d rest)"
  by (simp add: lanes_call_def)

lemma plain_statement:
  "(\<nexists>l r. e = LBinary TOKEN_ASSIGN l r) \<Longrightarrow> lane_handle_expr_stmt c e = lane_check_reads c e"
  "(\<nexists>l r. e = LBinary TOKEN_ASSIGN l r) \<Longrightarrow> events_stmt P d (KExpr e) = events P d e"
  by (cases e; auto)+

lemma assignment_statement:
  "lane_handle_expr_stmt c (LBinary TOKEN_ASSIGN l r) = (case ident_name l of
     Some x \<Rightarrow> lane_clear_moved (lane_check_reads c r) x | None \<Rightarrow> lane_check_reads (lane_check_reads c r) l)"
  "events_stmt P d (KExpr (LBinary TOKEN_ASSIGN l r)) = (case ident_name l of
     Some x \<Rightarrow> events P d r @ [Write x] | None \<Rightarrow> events P d r @ events P d l)"
  by simp_all

lemma no_declaration [simp]: "events_stmt P d (KVar names []) = []"
  by simp

declare lane_handle_expr_stmt.simps [simp del] events_stmt.simps(3,4) [simp del]

lemma walk_same_place:
  "same_place c (lane_check_reads c e)"
  "same_place c (lane_check_list c es)"
  "same_place c (lane_handle_run_boundary c args)"
  "same_place c (lane_handle_var_decl c names vs)"
  "same_place c (lane_handle_expr_stmt c e')"
  "same_place c (lane_walk_stmt c s)"
  "same_place c (lane_walk_list c ss)"
proof (induction c e and c es and c args and c names vs and c e' and c s and c ss
    rule: lane_walk_induct)
  case (19 c a0 a1 a2 rest)
  let ?c1 = "lane_consume (lane_check_reads (lane_check_reads c a0) a1) a0"
  have c1: "same_place c ?c1" using 19(1,2) by (meson same_place_parts(2) same_place_trans)
  show ?case
  proof (cases a2)
    case (LFuncLit pos ps caps body)
    obtain c2 ds where enter: "lane_enter_body ?c1 pos ps caps body = (c2, ds)" by fastforce
    then show ?thesis using 19(3) [OF refl LFuncLit enter [symmetric] refl] LFuncLit same_place_body [OF enter c1] by simp
  qed (use c1 in simp_all)
next
  case (22 c e)
  show ?case
  proof (cases "\<exists>l r. e = LBinary TOKEN_ASSIGN l r")
    case True
    then obtain l r where e: "e = LBinary TOKEN_ASSIGN l r" by blast
    show ?thesis
    proof (cases "ident_name l")
      case None
      then show ?thesis using 22 e by (auto simp: e assignment_statement intro: same_place_trans)
    next
      case (Some x)
      then have "same_place c (lane_check_reads c r)" using 22 e by simp
      then show ?thesis using Some by (simp add: e assignment_statement same_place_trans [OF _ same_place_parts(3)])
    qed
  next
    case False
    then show ?thesis using 22 by (cases e) (auto simp: plain_statement intro: same_place_trans)
  qed
qed (auto simp: same_place_def same_place_parts [unfolded same_place_def] split: list.split option.split)

lemma walk_places [simp]:
  "packages (lc_checker (lane_check_reads c e)) = packages (lc_checker c)" "lc_outer (lane_check_reads c e) = lc_outer c"
  "packages (lc_checker (lane_check_list c es)) = packages (lc_checker c)" "lc_outer (lane_check_list c es) = lc_outer c"
  "packages (lc_checker (lane_walk_stmt c s)) = packages (lc_checker c)" "lc_outer (lane_walk_stmt c s) = lc_outer c"
  "packages (lc_checker (lane_partition c names pos args)) = packages (lc_checker c)"
  "lc_outer (lane_partition c names pos args) = lc_outer c"
  "packages (lc_checker (lane_consume c a)) = packages (lc_checker c)" "lc_outer (lane_consume c a) = lc_outer c"
  using walk_same_place(1) [of c e] walk_same_place(2) [of c es] walk_same_place(6) [of c s] same_place_parts
  by (auto simp: same_place_def)

abbreviation at_ctx :: "((string \<Rightarrow> bool) \<Rightarrow> string list option \<Rightarrow> 'a \<Rightarrow> lane_event list) \<Rightarrow> lane_ctx \<Rightarrow> 'a \<Rightarrow> lane_event list" where
  "at_ctx f c x \<equiv> f (packages (lc_checker c)) (lc_outer c) x"

lemma walk_follows:
  "follows c (at_ctx events c e) (lane_check_reads c e)"
  "follows c (at_ctx events_list c es) (lane_check_list c es)"
  "follows c (at_ctx events_run c args) (lane_handle_run_boundary c args)"
  "follows c (at_ctx events_stmt c (KVar names vs)) (lane_handle_var_decl c names vs)"
  "follows c (at_ctx events_stmt c (KExpr e')) (lane_handle_expr_stmt c e')"
  "follows c (at_ctx events_stmt c s) (lane_walk_stmt c s)"
  "follows c (at_ctx events_stmts c ss) (lane_walk_list c ss)"
proof (induction c e and c es and c args and c names vs and c e' and c s and c ss rule: lane_walk_induct)
  case (19 c a0 a1 a2 rest)
  let ?c1 = "lane_consume (lane_check_reads (lane_check_reads c a0) a1) a0"
  have c1: "follows c (at_ctx events c a0 @ at_ctx events c a1 @ ran [a0]) ?c1"
    using 19(1,2) follows_consume by (auto intro: follows_append)
  show ?case
  proof (cases a2)
    case (LFuncLit pos ps caps body)
    obtain c2 ds where enter: "lane_enter_body ?c1 pos ps caps body = (c2, ds)" by fastforce
    have "follows c2 (events_stmt (packages (lc_checker c)) (Some ds) body)
        ((lane_walk_stmt (c2\<lparr>lc_outer := Some ds\<rparr>) body)\<lparr>lc_outer := lc_outer c2\<rparr>)"
      using 19(3) [OF refl LFuncLit enter [symmetric] refl] follows_body [OF enter] follows_context [of ?c1 _ c2]
      by (intro follows_outer) auto
    then show ?thesis
      using follows_append [OF c1 follows_append [OF conjunct1 [OF follows_body [OF enter]]]] LFuncLit enter follows_body [OF enter]
      by simp
  qed (use c1 in simp_all)
next
  case (21 c names v vs)
  show ?case
  proof (cases "lane_partition_call (lc_checker c) v")
    case None
    then show ?thesis using 21(1) [OF None] by (simp add: partition_call_iff(2) [symmetric] plain_declaration)
  next
    case (Some pa)
    obtain pos args where pa: "pa = (pos, args)" by fastforce
    with Some obtain q pkg where v: "v = LCall (LSelector pos (LIdent q pkg) ''Partition'') args" "packages (lc_checker c) pkg"
      by (auto simp: partition_call_iff)
    show ?thesis
    proof (cases args)
      case Nil
      then show ?thesis using Some pa v by (simp add: partition_declaration)
    next
      case (Cons a rest)
      then have "follows c (partitioned names args @ at_ctx events_list c rest) (lane_check_list (lane_partition c names pos (a # rest)) rest)"
        using 21(2) [OF Some pa [symmetric] Cons] follows_partition [of c names args pos] by (auto intro: follows_append)
      then show ?thesis using Some pa v Cons by (simp add: partition_declaration)
    qed
  qed
next
  case (22 c e)
  show ?case
  proof (cases "\<exists>l r. e = LBinary TOKEN_ASSIGN l r")
    case True
    then obtain l r where e: "e = LBinary TOKEN_ASSIGN l r" by blast
    show ?thesis
    proof (cases "ident_name l")
      case None
      then show ?thesis using 22 e by (auto simp: e assignment_statement intro: follows_append)
    next
      case (Some x)
      then have "follows c (at_ctx events c r) (lane_check_reads c r)" using 22 e by simp
      then show ?thesis using Some by (simp add: e assignment_statement follows_append [OF _ follows_clear])
    qed
  next
    case False
    then show ?thesis using 22 by (cases e) (auto simp: plain_statement intro: follows_append)
  qed
qed (auto split: list.split intro: follows_append follows_read follows_consume follows_clear follows_partition)

section \<open>What is accepted\<close>

definition function_events :: "(string \<Rightarrow> bool) \<Rightarrow> lstmt \<Rightarrow> lane_event list" where
  "function_events P body = events_stmt P None body"

definition within_tables :: "lane_event list \<Rightarrow> bool" where
  "within_tables es \<longleftrightarrow> moves es \<le> LANE_OWNERSHIP_MAX_MOVES_PER_FUNC \<and> runs_of es \<le> LANE_OWNERSHIP_MAX_MOVES_PER_FUNC"

lemma function_follows:
  "follows (lane_ctx_reset_for_function c) (function_events (packages (lc_checker c)) body) (lane_check_function c (Some body))"
  using walk_follows(6) [of "lane_ctx_reset_for_function c" body]
  by (simp add: lane_check_function_def function_events_def lane_ctx_reset_for_function_def)

lemma functions_errors:
  assumes "\<forall>body. Some body \<in> set decls \<longrightarrow> within_tables (function_events (packages (lc_checker c)) body)"
  shows "\<exists>n. tc_error_count (lc_checker (foldl lane_check_function c decls)) = tc_error_count (lc_checker c) + int n
    \<and> (n = 0 \<longleftrightarrow> (\<forall>body. Some body \<in> set decls \<longrightarrow> obeys start (function_events (packages (lc_checker c)) body)))"
  using assms
proof (induction decls arbitrary: c)
  case (Cons d decls)
  show ?case
  proof (cases d)
    case None
    then show ?thesis using Cons by (simp add: lane_check_function_def)
  next
    case (Some body)
    let ?es = "function_events (packages (lc_checker c)) body"
    let ?c1 = "lane_check_function c (Some body)"
    have reset: "abs_ctx (lane_ctx_reset_for_function c) = start" "lc_checker (lane_ctx_reset_for_function c) = lc_checker c"
      by (simp_all add: abs_ctx_def start_def lane_ctx_reset_for_function_def)
    have room: "room (lane_ctx_reset_for_function c) ?es"
      using Cons.prems Some by (simp add: room_def within_tables_def lane_ctx_reset_for_function_def)
    have packages1: "packages (lc_checker ?c1) = packages (lc_checker c)"
      using follows_context [OF function_follows [of c body]] reset by simp
    obtain dl :: "lane_diag list" where dl: "tc_error_count (lc_checker ?c1) = tc_error_count (lc_checker c) + int (length dl)"
      "dl = [] \<longleftrightarrow> obeys start ?es"
      using function_follows [of c body] room unfolding follows_def reset by blast
    obtain n where n: "tc_error_count (lc_checker (foldl lane_check_function ?c1 decls)) = tc_error_count (lc_checker ?c1) + int n"
      "n = 0 \<longleftrightarrow> (\<forall>body. Some body \<in> set decls \<longrightarrow> obeys start (function_events (packages (lc_checker c)) body))"
      using Cons.IH [of ?c1] Cons.prems packages1 by auto
    show ?thesis
      using dl n by (intro exI [of _ "length dl + n"]) (auto simp: Some)
  qed
qed simp

text \<open>
  For functions with at most 64 partitions and 64 runs each, the pass accepts a program exactly
  when the events of every function in textual order obey the four obligations: no read of a name
  after its partition and before an assignment to it, no second run of a partition, no lane body
  that captures a partition, a moved name or a view of an enclosing lane, and no \<open>go\<close> in a lane body
  that takes a view.
\<close>

theorem lane_check_exact:
  assumes "\<forall>body. Some body \<in> set decls \<longrightarrow> within_tables (function_events (packages ch) body)"
  shows "lane_ownership_check_program ch consts decls \<longleftrightarrow>
    (\<forall>body. Some body \<in> set decls \<longrightarrow> obeys start (function_events (packages ch) body))"
proof -
  obtain n where "tc_error_count (lc_checker (foldl lane_check_function (lane_ctx_init ch consts) decls)) = tc_error_count ch + int n"
    "n = 0 \<longleftrightarrow> (\<forall>body. Some body \<in> set decls \<longrightarrow> obeys start (function_events (packages ch) body))"
    using functions_errors [of decls "lane_ctx_init ch consts"] assms by (auto simp: lane_ctx_init_def)
  then show ?thesis
    by (simp add: lane_ownership_check_program_def lane_walk_program_def lane_ctx_reset_for_function_def)
qed

end
