(* ===== verification/Lanes_Sound.thy ===== *)
theory Lanes_Sound
  imports Lanes_Props
begin

text \<open>
  From the text of a function to its runs. A run takes either side of a branch, any rounds of a loop
  and any clauses of a switch, and may stop anywhere; the body of a lane runs any number of times.
  If the pass accepts a function whose loops neither partition nor run, whose function literals are
  lane bodies, and whose moved names are assigned at its top level only, then no run reads a moved
  name or runs a partition twice. Three shapes outside these conditions are accepted with a run that
  breaks the rule.
\<close>

section \<open>Runs\<close>

definition seqs :: "'a list set \<Rightarrow> 'a list set \<Rightarrow> 'a list set" where
  "seqs A B = {a @ b | a b. a \<in> A \<and> b \<in> B}"

definition iter :: "'a list set \<Rightarrow> 'a list set" where
  "iter A = {concat ts | ts. set ts \<subseteq> A}"

definition partition_moves :: "lexpr list \<Rightarrow> lane_event list" where
  "partition_moves args = (case args of LIdent pos x # _ \<Rightarrow> [Moved x] | _ \<Rightarrow> [])"

text \<open>The first argument of a partition that is a name is moved, not read.\<close>

function runs :: "(string \<Rightarrow> bool) \<Rightarrow> lexpr \<Rightarrow> lane_event list set"
  and runs_list :: "(string \<Rightarrow> bool) \<Rightarrow> lexpr list \<Rightarrow> lane_event list set"
  and runs_partition :: "(string \<Rightarrow> bool) \<Rightarrow> lexpr list \<Rightarrow> lane_event list set"
  and runs_stmt :: "(string \<Rightarrow> bool) \<Rightarrow> lstmt \<Rightarrow> lane_event list set"
  and runs_stmts :: "(string \<Rightarrow> bool) \<Rightarrow> lstmt list \<Rightarrow> lane_event list set"
  and runs_clauses :: "(string \<Rightarrow> bool) \<Rightarrow> lstmt list \<Rightarrow> lane_event list set" where
  "runs P LNull = {[]}"
| "runs P (LIdent pos x) = {[Read x]}"
| "runs P (LLiteral ty s) = {[]}"
| "runs P (LBinary op l r) = seqs (runs P l) ({[]} \<union> runs P r)"
| "runs P (LUnary op e) = runs P e"
| "runs P (LPostfix e) = runs P e"
| "runs P (LIndex e i) = seqs (runs P e) (runs P i)"
| "runs P (LSliceIndex e l h) = seqs (runs P e) (seqs (runs P l) (runs P h))"
| "runs P (LSliceLit es) = runs_list P es"
| "runs P (LSelector pos e sel) = runs P e"
| "runs P (LCall f args) =
     (if lanes_call P ''Run'' (LCall f args) then seqs (runs_list P args) {ran args}
      else if lanes_call P ''Partition'' (LCall f args) then seqs (runs_partition P args) {partition_moves args}
      else seqs (runs P f) (runs_list P args))"
| "runs P (LFuncLit pos ps caps body) = iter (runs_stmt P body)"
| "runs P LOtherExpr = UNIV"
| "runs_list P [] = {[]}"
| "runs_list P (e # es) = seqs (runs P e) (runs_list P es)"
| "runs_partition P [] = {[]}"
| "runs_partition P (e # es) = seqs (case ident_name e of Some x \<Rightarrow> {[]} | None \<Rightarrow> runs P e) (runs_list P es)"
| "runs_stmt P KNull = {[]}"
| "runs_stmt P (KBlock ss) = runs_stmts P ss"
| "runs_stmt P (KExpr e) = (case e of
     LBinary op l r \<Rightarrow>
       (if op \<noteq> TOKEN_ASSIGN then seqs (runs P l) ({[]} \<union> runs P r)
        else (case ident_name l of Some x \<Rightarrow> seqs (runs P r) {[Write x]} | None \<Rightarrow> seqs (runs P r) (runs P l)))
   | _ \<Rightarrow> runs P e)"
| "runs_stmt P (KVar names vs) = runs_list P vs"
| "runs_stmt P (KIf e th el) = seqs (runs P e) (runs_stmt P th \<union> runs_stmt P el)"
| "runs_stmt P (KFor init e post rng body) =
     seqs (runs_stmt P init) (iter (runs P e \<union> runs_stmt P post \<union> runs P rng \<union> runs_stmt P body))"
| "runs_stmt P (KReturn es) = runs_list P es"
| "runs_stmt P (KDefer call) = runs P call"
| "runs_stmt P (KGo pos call) = runs P call"
| "runs_stmt P (KLabel s) = runs_stmt P s"
| "runs_stmt P (KSwitch tag cs) = seqs (runs P tag) (runs_clauses P cs)"
| "runs_stmt P (KCase es ss) = seqs ({[]} \<union> runs_list P es) ({[]} \<union> runs_stmts P ss)"
| "runs_stmt P (KMulti es) = runs_list P es"
| "runs_stmt P KJump = {[]}"
| "runs_stmt P KOther = UNIV"
| "runs_stmts P [] = {[]}"
| "runs_stmts P (s # ss) = seqs (runs_stmt P s) ({[]} \<union> runs_stmts P ss)"
| "runs_clauses P [] = {[]}"
| "runs_clauses P (s # ss) = seqs ({[]} \<union> runs_stmt P s) (runs_clauses P ss)"
  by pat_completeness auto
termination
  by (relation "measure (\<lambda>x. case x of
      Inl (Inl (P, e)) \<Rightarrow> size e
    | Inl (Inr (Inl (P, es))) \<Rightarrow> size_list size es
    | Inl (Inr (Inr (P, es))) \<Rightarrow> size_list size es
    | Inr (Inl (P, s)) \<Rightarrow> size s
    | Inr (Inr (Inl (P, ss))) \<Rightarrow> size_list size ss
    | Inr (Inr (Inr (P, ss))) \<Rightarrow> size_list size ss)") auto

fun runs_top :: "(string \<Rightarrow> bool) \<Rightarrow> lstmt list \<Rightarrow> lane_event list set" where
  "runs_top P [] = {[]}"
| "runs_top P (s # ss) = seqs (runs_stmt P s) (runs_top P ss)"

text \<open>A run of a function: the statements of its block in order, stopped at any point.\<close>

definition function_runs :: "(string \<Rightarrow> bool) \<Rightarrow> lstmt list \<Rightarrow> lane_event list set" where
  "function_runs P ss = {t. \<exists>u. t @ u \<in> runs_top P ss}"

section \<open>The functions the pass covers\<close>

definition moved_names :: "lane_event list \<Rightarrow> string list" where
  "moved_names es = List.map_filter (\<lambda>e. case e of Moved x \<Rightarrow> Some x | _ \<Rightarrow> None) es"

definition harmless :: "string list \<Rightarrow> lane_event list \<Rightarrow> bool" where
  "harmless K es = list_all (\<lambda>e. case e of Read x \<Rightarrow> True | Write x \<Rightarrow> x \<notin> set K | _ \<Rightarrow> False) es"

definition keeps_moved :: "string list \<Rightarrow> lane_event list \<Rightarrow> bool" where
  "keeps_moved K es = list_all (\<lambda>e. case e of Write x \<Rightarrow> x \<notin> set K | _ \<Rightarrow> True) es"

function tame :: "(string \<Rightarrow> bool) \<Rightarrow> string list \<Rightarrow> lexpr \<Rightarrow> bool"
  and tame_list :: "(string \<Rightarrow> bool) \<Rightarrow> string list \<Rightarrow> lexpr list \<Rightarrow> bool"
  and tame_run :: "(string \<Rightarrow> bool) \<Rightarrow> string list \<Rightarrow> lexpr list \<Rightarrow> bool"
  and tame_stmt :: "(string \<Rightarrow> bool) \<Rightarrow> string list \<Rightarrow> lstmt \<Rightarrow> bool"
  and tame_stmts :: "(string \<Rightarrow> bool) \<Rightarrow> string list \<Rightarrow> lstmt list \<Rightarrow> bool" where
  "tame P K LNull = True"
| "tame P K (LIdent pos x) = True"
| "tame P K (LLiteral ty s) = True"
| "tame P K (LBinary op l r) = (tame P K l \<and> tame P K r)"
| "tame P K (LUnary op e) = tame P K e"
| "tame P K (LPostfix e) = tame P K e"
| "tame P K (LIndex e i) = (tame P K e \<and> tame P K i)"
| "tame P K (LSliceIndex e l h) = (tame P K e \<and> tame P K l \<and> tame P K h)"
| "tame P K (LSliceLit es) = tame_list P K es"
| "tame P K (LSelector pos e sel) = tame P K e"
| "tame P K (LCall f args) =
     (if lanes_call P ''Run'' (LCall f args) then tame_run P K args
      else \<not> lanes_call P ''Partition'' (LCall f args) \<and> tame P K f \<and> tame_list P K args)"
| "tame P K (LFuncLit pos ps caps body) = False"
| "tame P K LOtherExpr = False"
| "tame_list P K [] = True"
| "tame_list P K (e # es) = (tame P K e \<and> tame_list P K es)"
| "tame_run P K [] = False"
| "tame_run P K [a0] = False"
| "tame_run P K [a0, a1] = False"
| "tame_run P K (a0 # a1 # a2 # rest) = (tame P K a0 \<and> tame P K a1 \<and> rest = [] \<and> (case a2 of
     LFuncLit pos ps caps body \<Rightarrow> tame_stmt P K body \<and> harmless K (events_stmt P None body) | _ \<Rightarrow> False))"
| "tame_stmt P K KNull = True"
| "tame_stmt P K (KBlock ss) = (tame_stmts P K ss \<and> keeps_moved K (events_stmts P None ss))"
| "tame_stmt P K (KExpr e) = (case e of
     LBinary op l r \<Rightarrow> tame P K r \<and> (if op \<noteq> TOKEN_ASSIGN then tame P K l else ident_name l \<noteq> None \<or> tame P K l)
   | _ \<Rightarrow> tame P K e)"
| "tame_stmt P K (KVar names vs) = (case vs of [] \<Rightarrow> True | v # vs' \<Rightarrow> vs' = [] \<and> (case v of
     LCall f args \<Rightarrow> (if lanes_call P ''Partition'' v
       then (case args of [] \<Rightarrow> False | a # rest \<Rightarrow> ident_name a \<noteq> None \<and> tame_list P K rest)
       else tame P K v)
   | _ \<Rightarrow> tame P K v))"
| "tame_stmt P K (KIf e th el) = (tame P K e \<and> tame_stmt P K th \<and> tame_stmt P K el
     \<and> keeps_moved K (events_stmt P None th) \<and> keeps_moved K (events_stmt P None el))"
| "tame_stmt P K (KFor init e post rng body) = (tame_stmt P K init \<and> keeps_moved K (events_stmt P None init)
     \<and> tame P K e \<and> tame_stmt P K post \<and> tame P K rng \<and> tame_stmt P K body
     \<and> harmless K (events P None e @ events_stmt P None post @ events P None rng @ events_stmt P None body))"
| "tame_stmt P K (KReturn es) = (case es of [] \<Rightarrow> True | e # es' \<Rightarrow> es' = [] \<and> tame P K e)"
| "tame_stmt P K (KDefer call) = tame P K call"
| "tame_stmt P K (KGo pos call) = tame P K call"
| "tame_stmt P K (KLabel s) = tame_stmt P K s"
| "tame_stmt P K (KSwitch tag cs) = (tame P K tag \<and> tame_stmts P K cs \<and> keeps_moved K (events_stmts P None cs))"
| "tame_stmt P K (KCase es ss) = (tame_list P K es \<and> tame_stmts P K ss \<and> keeps_moved K (events_stmts P None ss))"
| "tame_stmt P K (KMulti es) = tame_list P K es"
| "tame_stmt P K KJump = True"
| "tame_stmt P K KOther = False"
| "tame_stmts P K [] = True"
| "tame_stmts P K (s # ss) = (tame_stmt P K s \<and> tame_stmts P K ss)"
  by pat_completeness auto
termination
  by (relation "measure (\<lambda>x. case x of
      Inl (Inl (P, K, e)) \<Rightarrow> size e
    | Inl (Inr (P, K, es)) \<Rightarrow> size_list size es
    | Inr (Inl (P, K, es)) \<Rightarrow> size_list size es
    | Inr (Inr (Inl (P, K, s))) \<Rightarrow> size s
    | Inr (Inr (Inr (P, K, ss))) \<Rightarrow> size_list size ss)") auto

definition covered :: "(string \<Rightarrow> bool) \<Rightarrow> lstmt list \<Rightarrow> bool" where
  "covered P ss = tame_stmts P (moved_names (events_stmts P None ss)) ss"

section \<open>Comparing states\<close>

definition below :: "lane_state \<Rightarrow> lane_state \<Rightarrow> bool" where
  "below S T \<longleftrightarrow> ls_moved S \<subseteq> ls_moved T \<and> ls_consumed S \<subseteq> ls_consumed T \<and> ls_bound S \<subseteq> ls_bound T"

lemma below_refl [simp]: "below S S"
  by (simp add: below_def)

lemma below_trans: "below S T \<Longrightarrow> below T U \<Longrightarrow> below S U"
  by (auto simp: below_def)

lemma after_mono: "below S T \<Longrightarrow> below (after S e) (after T e)"
  by (cases e) (auto simp: below_def)

lemma allowed_anti: "below S T \<Longrightarrow> allowed T e \<Longrightarrow> allowed S e"
proof (cases e)
  case (Body d caps ps body)
  then show "below S T \<Longrightarrow> allowed T e \<Longrightarrow> allowed S e" by (cases d) (auto simp: below_def)
qed (auto simp: below_def)

lemma foldl_after_mono: "below S T \<Longrightarrow> below (foldl after S es) (foldl after T es)"
  by (induction es arbitrary: S T) (auto intro: after_mono)

lemma obeys_anti: "below S T \<Longrightarrow> obeys T es \<Longrightarrow> obeys S es"
  by (induction es arbitrary: S T) (auto intro: after_mono allowed_anti)

text \<open>Every run of \<open>A\<close> from \<open>S\<close> obeys the rules and ends below \<open>T\<close>.\<close>

definition fits :: "lane_state \<Rightarrow> lane_event list set \<Rightarrow> lane_state \<Rightarrow> bool" where
  "fits S A T \<longleftrightarrow> (\<forall>t \<in> A. obeys S t \<and> below (foldl after S t) T)"

lemma fits_weaken: "fits S A T \<Longrightarrow> below S' S \<Longrightarrow> below T T' \<Longrightarrow> fits S' A T'"
  unfolding fits_def by (meson below_trans foldl_after_mono obeys_anti)

lemma fits_seq: "fits S A T \<Longrightarrow> fits T B U \<Longrightarrow> fits S (seqs A B) U"
  unfolding fits_def seqs_def by clarsimp (meson below_trans foldl_after_mono obeys_anti)

lemma fits_nil [simp]: "fits S {[]} T = below S T"
  by (simp add: fits_def)

lemma fits_union [simp]: "fits S (A \<union> B) T = (fits S A T \<and> fits S B T)"
  by (auto simp: fits_def)

lemma fits_empty [simp]: "fits S {} T"
  by (simp add: fits_def)

lemma seqs_unit [simp]: "seqs {[]} A = A" "seqs A {[]} = A"
  by (auto simp: seqs_def)

lemma fits_insert [simp]: "fits S (insert [] A) T = (below S T \<and> fits S A T)"
  by (auto simp: fits_def)

lemma fits_iter:
  assumes "fits S A S" shows "fits S (iter A) S"
proof -
  have "set ts \<subseteq> A \<Longrightarrow> obeys S (concat ts) \<and> below (foldl after S (concat ts)) S" for ts
  proof (induction ts)
    case (Cons t ts)
    then have "obeys S t" "below (foldl after S t) S" using assms by (auto simp: fits_def)
    with Cons show ?case by (auto intro: obeys_anti below_trans [OF foldl_after_mono])
  qed simp
  then show ?thesis by (auto simp: fits_def iter_def)
qed

section \<open>Moved names through events\<close>

definition known :: "string list \<Rightarrow> lane_state \<Rightarrow> bool" where
  "known K S \<longleftrightarrow> ls_moved S \<subseteq> set K"

lemma moved_names_simps [simp]:
  "moved_names [] = []" "moved_names (es @ fs) = moved_names es @ moved_names fs"
  "moved_names (e # es) = (case e of Moved x \<Rightarrow> x # moved_names es | _ \<Rightarrow> moved_names es)"
  by (auto simp: moved_names_def map_filter_def split: lane_event.split)

lemma known_after: "known K S \<Longrightarrow> set (moved_names es) \<subseteq> set K \<Longrightarrow> known K (foldl after S es)"
proof (induction es arbitrary: S)
  case (Cons e es)
  then have "known K (after S e)" by (cases e) (auto simp: known_def)
  with Cons show ?case by (cases e) auto
qed simp

lemma harmless_simps [simp]:
  "harmless K []" "harmless K (es @ fs) = (harmless K es \<and> harmless K fs)"
  "harmless K (e # es) = ((case e of Read x \<Rightarrow> True | Write x \<Rightarrow> x \<notin> set K | _ \<Rightarrow> False) \<and> harmless K es)"
  by (auto simp: harmless_def)

lemma keeps_simps [simp]:
  "keeps_moved K []" "keeps_moved K (es @ fs) = (keeps_moved K es \<and> keeps_moved K fs)"
  "keeps_moved K (e # es) = ((case e of Write x \<Rightarrow> x \<notin> set K | _ \<Rightarrow> True) \<and> keeps_moved K es)"
  by (auto simp: keeps_moved_def)

lemma harmless_after: "harmless K es \<Longrightarrow> known K S \<Longrightarrow> foldl after S es = S"
proof (induction es)
  case (Cons e es)
  then have "after S e = S" by (cases e; cases S; auto simp: known_def)
  with Cons show ?case by simp
qed simp

lemma harmless_moves: "harmless K es \<Longrightarrow> moved_names es = []"
  by (induction es) (auto split: lane_event.splits)

lemma harmless_keeps: "harmless K es \<Longrightarrow> keeps_moved K es"
  by (induction es) (auto split: lane_event.splits)

lemma keeps_below:
  "keeps_moved K es \<Longrightarrow> known K S \<Longrightarrow> set (moved_names es) \<subseteq> set K \<Longrightarrow> below S (foldl after S es)"
proof (induction es arbitrary: S)
  case (Cons e es)
  then have "below S (after S e)" "known K (after S e)" by (cases e; auto simp: known_def below_def)+
  with Cons show ?case by (cases e) (auto intro: below_trans)
qed simp

section \<open>The enclosing lane\<close>

definition shape :: "lane_event list \<Rightarrow> lane_event list" where
  "shape es = map (\<lambda>e. case e of Body d caps ps body \<Rightarrow> Body None caps ps body | _ \<Rightarrow> e) es"

lemma shape_simps [simp]:
  "shape [] = []" "shape (es @ fs) = shape es @ shape fs"
  "shape (e # es) = (case e of Body d caps ps body \<Rightarrow> Body None caps ps body | _ \<Rightarrow> e) # shape es"
  by (simp_all add: shape_def)

lemma shape_facts:
  "harmless K (shape es) = harmless K es" "keeps_moved K (shape es) = keeps_moved K es" "moved_names (shape es) = moved_names es"
  by (induction es) (auto split: lane_event.split)

lemmas events_induct = events_events_list_events_run_events_stmt_events_stmts.induct

lemma events_shape:
  "shape (events P d e) = shape (events P None e)"
  "shape (events_list P d es) = shape (events_list P None es)"
  "shape (events_run P d args) = shape (events_run P None args)"
  "shape (events_stmt P d s) = shape (events_stmt P None s)"
  "shape (events_stmts P d ss) = shape (events_stmts P None ss)"
proof (induction P d e and P d es and P d args and P d s and P d ss rule: events_induct)
  case (19 P d a0 a1 a2 rest)
  then show ?case by (cases a2) auto
next
  case (22 P d e)
  show ?case
  proof (cases "\<exists>l r. e = LBinary TOKEN_ASSIGN l r")
    case True
    then show ?thesis using 22 by (auto simp: assignment_statement split: option.split)
  next
    case False
    then show ?thesis using 22 by (cases e) (auto simp: plain_statement)
  qed
next
  case (23 P d names vs)
  show ?case
  proof (cases vs)
    case (Cons v vs')
    show ?thesis
    proof (cases "lanes_call P ''Partition'' v")
      case True
      then obtain pos q pkg args where v: "v = LCall (LSelector pos (LIdent q pkg) ''Partition'') args" "P pkg"
        by (auto simp: lanes_call_def split: lexpr.splits)
      then show ?thesis using 23 Cons True by (auto simp: partition_declaration split: list.split)
    next
      case False
      then show ?thesis using 23 Cons by (cases v) (auto simp: plain_declaration)
    qed
  qed simp
qed (auto split: list.split)

lemma events_enclosing:
  "harmless K (events P d e) = harmless K (events P None e)" "keeps_moved K (events P d e) = keeps_moved K (events P None e)"
  "harmless K (events_stmt P d s) = harmless K (events_stmt P None s)" "keeps_moved K (events_stmt P d s) = keeps_moved K (events_stmt P None s)"
  "keeps_moved K (events_stmts P d ss) = keeps_moved K (events_stmts P None ss)"
  "moved_names (events_stmts P d ss) = moved_names (events_stmts P None ss)"
  by (metis shape_facts events_shape)+

section \<open>Runs of tame code\<close>

definition sound_at :: "string list \<Rightarrow> lane_event list \<Rightarrow> lane_event list set \<Rightarrow> bool" where
  "sound_at K es A \<longleftrightarrow> (\<forall>S. known K S \<longrightarrow> set (moved_names es) \<subseteq> set K \<longrightarrow> obeys S es \<longrightarrow> fits S A (foldl after S es))"

lemma sound_nil [simp]: "sound_at K [] {[]}"
  by (simp add: sound_at_def)

lemma sound_one [simp]: "sound_at K es {es}"
  by (simp add: sound_at_def fits_def)

lemma sound_seq: "sound_at K es A \<Longrightarrow> sound_at K fs B \<Longrightarrow> sound_at K (es @ fs) (seqs A B)"
  by (auto simp: sound_at_def known_after intro!: fits_seq)

lemma sound_skip: "keeps_moved K es \<Longrightarrow> sound_at K es A \<Longrightarrow> sound_at K es (insert [] A)"
  by (auto simp: sound_at_def keeps_below)

lemma sound_either:
  assumes "sound_at K es A" "sound_at K fs B" "keeps_moved K es" "keeps_moved K fs"
  shows "sound_at K (es @ fs) (A \<union> B)"
  unfolding sound_at_def
proof (intro allI impI)
  fix S assume S: "known K S" "set (moved_names (es @ fs)) \<subseteq> set K" "obeys S (es @ fs)"
  let ?T = "foldl after S es"
  have T: "known K ?T" "below S ?T" "below ?T (foldl after ?T fs)"
    using S assms by (auto intro: known_after keeps_below)
  have "fits S A ?T" "fits ?T B (foldl after ?T fs)" using S T assms by (auto simp: sound_at_def)
  then show "fits S (A \<union> B) (foldl after S (es @ fs))" using T by (auto intro: fits_weaken)
qed

lemma sound_iter: "harmless K es \<Longrightarrow> sound_at K es A \<Longrightarrow> sound_at K es (iter A)"
  unfolding sound_at_def by (auto simp: harmless_after intro: fits_iter)

lemma sound_run:
  assumes a0: "sound_at K es0 A0" and a1: "sound_at K es1 A1" and body: "sound_at K esb B" "harmless K esb"
  shows "sound_at K (es0 @ es1 @ ran [a] @ Body d caps ps b # esb) (seqs (seqs A0 (seqs A1 (iter B))) {ran [a]})"
  unfolding sound_at_def
proof (intro allI impI)
  fix S assume S: "known K S" "set (moved_names (es0 @ es1 @ ran [a] @ Body d caps ps b # esb)) \<subseteq> set K"
    "obeys S (es0 @ es1 @ ran [a] @ Body d caps ps b # esb)"
  let ?T = "foldl after (foldl after S es0) es1" and ?U = "foldl after (foldl after (foldl after S es0) es1) (ran [a])"
  have T: "known K ?T" using S by (auto intro!: known_after)
  have U: "known K ?U" "below ?T ?U" using T by (auto simp: ran_def known_def below_def split: lexpr.split)
  have end_state: "foldl after S (es0 @ es1 @ ran [a] @ Body d caps ps b # esb) = ?U"
    using harmless_after [OF body(2) U(1)] by simp
  have "obeys ?U esb" using S(3) by simp
  then have "fits ?T B ?T"
    using body T S obeys_anti [OF U(2)] harmless_after [OF body(2) T] by (auto simp: sound_at_def)
  then have "fits ?T (iter B) ?T" by (rule fits_iter)
  moreover have "fits ?T {ran [a]} ?U" using S(3) by (simp add: fits_def)
  moreover have "fits S A0 (foldl after S es0)" "fits (foldl after S es0) A1 ?T"
    using S a0 a1 by (auto simp: sound_at_def known_after)
  ultimately show "fits S (seqs (seqs A0 (seqs A1 (iter B))) {ran [a]})
      (foldl after S (es0 @ es1 @ ran [a] @ Body d caps ps b # esb))"
    unfolding end_state by (blast intro: fits_seq)
qed

lemma ran_head: "ran (a # as) = ran [a]"
  by (simp add: ran_def)

lemma ran_keeps [simp]: "keeps_moved K (ran [a])"
  by (simp add: ran_def split: lexpr.split)

lemmas tame_induct = tame_tame_list_tame_run_tame_stmt_tame_stmts.induct

declare tame_stmt.simps(3,4) [simp del] runs_stmt.simps(3) [simp del]

lemma tame_assignment:
  "tame_stmt P K (KExpr (LBinary TOKEN_ASSIGN l r)) = (tame P K r \<and> (ident_name l \<noteq> None \<or> tame P K l))"
  "runs_stmt P (KExpr (LBinary TOKEN_ASSIGN l r)) =
     (case ident_name l of Some x \<Rightarrow> seqs (runs P r) {[Write x]} | None \<Rightarrow> seqs (runs P r) (runs P l))"
  by (simp_all add: tame_stmt.simps runs_stmt.simps)

lemma tame_plain:
  "(\<nexists>l r. e = LBinary TOKEN_ASSIGN l r) \<Longrightarrow> tame_stmt P K (KExpr e) = tame P K e"
  "(\<nexists>l r. e = LBinary TOKEN_ASSIGN l r) \<Longrightarrow> runs_stmt P (KExpr e) = runs P e"
  by (cases e; auto simp: tame_stmt.simps runs_stmt.simps)+

lemma tame_declaration:
  "tame_stmt P K (KVar names [])"
  "tame_stmt P K (KVar names (v # vs)) = (vs = [] \<and>
     (if lanes_call P ''Partition'' v then (\<exists>f pos x rest. v = LCall f (LIdent pos x # rest) \<and> tame_list P K rest) else tame P K v))"
  by (auto simp: tame_stmt.simps ident_name_def lanes_call_def split: lexpr.splits list.splits)

lemma tame_partition:
  assumes "tame_stmt P K (KVar names (v # vs))" "lanes_call P ''Partition'' v"
  obtains pos q pkg pos' x rest where "vs = []" "P pkg" "v = LCall (LSelector pos (LIdent q pkg) ''Partition'') (LIdent pos' x # rest)"
    "tame_list P K rest"
  using assms by (auto simp: tame_declaration lanes_call_def split: lexpr.splits)

lemma partition_keeps [simp]: "keeps_moved K (partitioned names args)"
proof -
  have "keeps_moved K (map Bound ns)" for ns by (induction ns) auto
  then show ?thesis by (simp add: partitioned_def split: list.split lexpr.split)
qed

text \<open>The move of a partition with the bindings that only the checker keeps.\<close>

lemma sound_partition:
  assumes "sound_at K es A" "keeps_moved K es"
  shows "sound_at K (partitioned names (LIdent pos x # rest) @ es) (seqs A {[Moved x]})"
  unfolding sound_at_def
proof (intro allI impI)
  let ?ps = "partitioned names (LIdent pos x # rest)"
  fix S assume S: "known K S" "set (moved_names (?ps @ es)) \<subseteq> set K" "obeys S (?ps @ es)"
  let ?T = "foldl after S ?ps"
  have T: "known K ?T" "below S ?T" "x \<in> ls_moved ?T"
    using S by (auto simp: known_after keeps_below) (auto simp: partitioned_def first_param_def split: list.split)
  let ?U = "foldl after ?T es"
  have "below ?T ?U" using T S assms by (auto intro: keeps_below)
  then have x: "x \<in> ls_moved ?U" using T by (auto simp: below_def)
  have "fits ?T A ?U" using S T assms by (auto simp: sound_at_def)
  then have "fits S A ?U" using T by (blast intro: fits_weaken below_refl)
  moreover have "fits ?U {[Moved x]} ?U" using x by (simp add: fits_def below_def insert_absorb)
  ultimately have "fits S (seqs A {[Moved x]}) ?U" by (rule fits_seq)
  then show "fits S (seqs A {[Moved x]}) (foldl after S (?ps @ es))" by simp
qed

lemma tame_sound:
  "tame P K e \<Longrightarrow> \<forall>d. sound_at K (events P d e) (runs P e) \<and> keeps_moved K (events P d e)"
  "tame_list P K es \<Longrightarrow> \<forall>d. sound_at K (events_list P d es) (runs_list P es) \<and> keeps_moved K (events_list P d es)"
  "tame_run P K args \<Longrightarrow> \<forall>d. sound_at K (events_run P d args) (seqs (runs_list P args) {ran args}) \<and> keeps_moved K (events_run P d args)"
  "tame_stmt P K s \<Longrightarrow> \<forall>d. sound_at K (events_stmt P d s) (runs_stmt P s)"
  "tame_stmts P K ss \<Longrightarrow> keeps_moved K (events_stmts P None ss) \<Longrightarrow>
     \<forall>d. sound_at K (events_stmts P d ss) (runs_stmts P ss) \<and> sound_at K (events_stmts P d ss) (runs_clauses P ss)"
proof (induction P K e and P K es and P K args and P K s and P K ss rule: tame_induct)
  case (4 P K op l r)
  then show ?case by (simp add: sound_seq sound_skip)
next
  case (19 P K a0 a1 a2 rest)
  then obtain pos ps caps body where a2: "a2 = LFuncLit pos ps caps body" "tame_stmt P K body" "harmless K (events_stmt P None body)" "rest = []"
    by (auto split: lexpr.splits)
  then have b: "sound_at K (events_stmt P d body) (runs_stmt P body)" "harmless K (events_stmt P d body)" for d
    using 19 by (auto simp: events_enclosing(3) [of K P d])
  show ?case using 19 a2 harmless_keeps [OF b(2)] sound_run [OF _ _ b]
    by (simp add: ran_head [of a0 "_ # _"])
next
  case (22 P K e)
  show ?case
  proof (cases "\<exists>l r. e = LBinary TOKEN_ASSIGN l r")
    case True
    then show ?thesis using 22 by (auto simp: tame_assignment assignment_statement sound_seq split: option.split)
  next
    case False
    then show ?thesis using 22 by (cases e) (auto simp: tame_plain plain_statement sound_seq sound_skip)
  qed
next
  case (23 P K names vs)
  show ?case
  proof (cases vs)
    case (Cons v vs')
    show ?thesis
    proof (cases "lanes_call P ''Partition'' v")
      case True
      have "tame_stmt P K (KVar names (v # vs'))" using 23 Cons by simp
      then obtain pos q pkg pos' x rest where v: "vs' = []" "P pkg"
        "v = LCall (LSelector pos (LIdent q pkg) ''Partition'') (LIdent pos' x # rest)" "tame_list P K rest"
        by (rule tame_partition [OF _ True])
      then have "sound_at K (events_list P d rest) (runs_list P rest) \<and> keeps_moved K (events_list P d rest)" for d
        using 23 Cons True by simp
      then show ?thesis using sound_partition v Cons
        by (simp add: partition_declaration lanes_call_def ident_name_def partition_moves_def)
    next
      case False
      then show ?thesis using 23 Cons by (cases v) (auto simp: plain_declaration tame_declaration)
    qed
  qed simp
next
  case (24 P K e th el)
  then have "keeps_moved K (events_stmt P d th)" "keeps_moved K (events_stmt P d el)" for d
    by (simp_all add: events_enclosing(4) [of K P d])
  with 24 show ?case by (simp add: sound_seq sound_either)
next
  case (25 P K init e post rng body)
  let ?es = "\<lambda>d. events P d e @ events_stmt P d post @ events P d rng @ events_stmt P d body"
  have h: "harmless K (?es d)" for d
    using 25 by (simp add: events_enclosing(1,3) [of K P d])
  have "sound_at K (?es d) (runs P e \<union> (runs_stmt P post \<union> (runs P rng \<union> runs_stmt P body)))" for d
    using h [of d] 25 by (intro sound_either) (auto dest: harmless_keeps)
  then have "sound_at K (?es d) (iter (runs P e \<union> runs_stmt P post \<union> runs P rng \<union> runs_stmt P body))" for d
    using sound_iter [OF h] by (simp add: Un_assoc)
  with 25 show ?case by (auto intro!: sound_seq [of _ "events_stmt P _ init"])
next
  case (31 P K es ss)
  then have "keeps_moved K (events_stmts P d ss)" for d by (simp add: events_enclosing(5) [of K P d])
  with 31 show ?case by (simp add: sound_seq sound_skip)
next
  case (36 P K s ss)
  then have k: "keeps_moved K (events_stmt P d s)" "keeps_moved K (events_stmts P d ss)" for d
    by (simp_all add: events_enclosing(4,5) [of K P d])
  with 36 have "sound_at K (events_stmts P d ss) (runs_stmts P ss)" "sound_at K (events_stmts P d ss) (runs_clauses P ss)"
    "sound_at K (events_stmt P d s) (runs_stmt P s)" for d by simp_all
  with k show ?case by (simp add: sound_seq sound_skip)
qed (auto intro!: sound_seq split: list.splits)

lemma top_sound: "tame_stmts P K ss \<Longrightarrow> sound_at K (events_stmts P d ss) (runs_top P ss)"
  by (induction ss) (auto simp: tame_sound(4) intro!: sound_seq)

section \<open>Runs of accepted functions\<close>

lemma moved_stays: "x \<in> ls_moved S \<Longrightarrow> Write x \<notin> set es \<Longrightarrow> x \<in> ls_moved (foldl after S es)"
proof (induction es arbitrary: S)
  case (Cons e es)
  then have "x \<in> ls_moved (after S e)" by (cases e) auto
  with Cons show ?case by simp
qed simp

lemma consumed_stays: "p \<in> ls_consumed S \<Longrightarrow> p \<in> ls_consumed (foldl after S es)"
proof (induction es arbitrary: S)
  case (Cons e es)
  then have "p \<in> ls_consumed (after S e)" by (cases e) auto
  with Cons show ?case by simp
qed simp

lemma obeys_moved: "obeys S (t1 @ Moved x # t2 @ Read x # t3) \<Longrightarrow> Write x \<in> set t2"
  using moved_stays [of x "after (foldl after S t1) (Moved x)" t2] by auto

lemma obeys_ran:
  assumes "obeys S (t1 @ Ran p # t2)" shows "Ran p \<notin> set t2"
proof
  assume "Ran p \<in> set t2"
  then obtain u v where t2: "t2 = u @ Ran p # v" by (meson split_list)
  show False using assms consumed_stays [of p "after (foldl after S t1) (Ran p)" u] by (simp add: t2)
qed

lemma covered_obeys:
  assumes "obeys start (events_stmts P None ss)" "covered P ss" "t \<in> function_runs P ss"
  shows "obeys start t"
proof -
  have "fits start (runs_top P ss) (foldl after start (events_stmts P None ss))"
    using top_sound [of P _ ss None] assms(1,2) by (auto simp: covered_def sound_at_def known_def start_def)
  then show ?thesis using assms(3) by (auto simp: function_runs_def fits_def)
qed


section \<open>Concrete functions\<close>

definition lanes_checker :: tchecker where
  "lanes_checker = empty_checker\<lparr>tc_scope := [\<lparr>fr_variables = [(variable_new ''lanes'' None origin)\<lparr>var_package := Some ''lanes''\<rparr>],
     fr_scope_id = 0, fr_is_function_boundary = False\<rparr>]\<rparr>"

definition lanes_fn :: "string \<Rightarrow> lexpr list \<Rightarrow> lexpr" where
  "lanes_fn sel args = LCall (LSelector origin (LIdent origin ''lanes'') sel) args"

definition var_ref :: "string \<Rightarrow> lexpr" where
  "var_ref x = LIdent origin x"

definition two :: lexpr where
  "two = LLiteral TOKEN_INT ''2''"

definition stencil :: "lstmt list" where
  "stencil =
    [KVar [''p''] [lanes_fn ''Partition'' [var_ref ''data'', two]],
     KFor (KVar [''i''] [two]) (var_ref ''i'') (KExpr (LBinary TOKEN_ASSIGN (var_ref ''i'') two)) LNull (KBlock []),
     KExpr (LBinary TOKEN_ASSIGN (var_ref ''data'') (lanes_fn ''Run'' [var_ref ''p'', two,
        LFuncLit origin [''ctx''] [] (KBlock [KVar [''t''] [LCall (LSelector origin (var_ref ''ctx'') ''Own'') []]])])),
     KReturn [var_ref ''data'']]"

lemmas lane_examples = lanes_fn_def var_ref_def two_def stencil_def

lemma in_seqs: "t = a @ b \<Longrightarrow> a \<in> A \<Longrightarrow> b \<in> B \<Longrightarrow> t \<in> seqs A B"
  by (auto simp: seqs_def)

lemma in_iter: "[] \<in> iter A" "t \<in> A \<Longrightarrow> t \<in> iter A" "t \<in> A \<Longrightarrow> u \<in> A \<Longrightarrow> t @ u \<in> iter A"
  unfolding iter_def by (auto intro: exI [of _ "[]"] exI [of _ "[t]"] exI [of _ "[t, u]"])

lemma lanes_packages [simp]: "packages lanes_checker x = (x = ''lanes'')"
  by (simp add: packages_def lanes_checker_def type_checker_lookup_variable_def variable_new_def)

lemma stencil_facts:
  "within_tables (function_events (packages lanes_checker) (KBlock stencil))"
  "lane_ownership_check_program lanes_checker [] [Some (KBlock stencil)]"
  "covered (packages lanes_checker) stencil"
  by code_simp+

lemma stencil_run:
  "[Moved ''data'', Read ''p'', Ran ''p'', Write ''data'', Read ''data''] \<in> function_runs (packages lanes_checker) stencil"
proof -
  let ?P = "packages lanes_checker"
  have "[Moved ''data''] @ [] @ [Read ''p'', Ran ''p'', Write ''data''] @ [Read ''data''] @ [] \<in> runs_top ?P stencil"
    unfolding stencil_def runs_top.simps
  proof (intro in_seqs [OF refl])
    show "[Moved ''data''] \<in> runs_stmt ?P (KVar [''p''] [lanes_fn ''Partition'' [var_ref ''data'', two]])"
      by (simp add: lane_examples lanes_call_def ident_name_def partition_moves_def)
    show "[] \<in> runs_stmt ?P (KFor (KVar [''i''] [two]) (var_ref ''i'') (KExpr (LBinary TOKEN_ASSIGN (var_ref ''i'') two)) LNull (KBlock []))"
      by (simp add: two_def in_iter)
    show "[Read ''p'', Ran ''p'', Write ''data''] \<in> runs_stmt ?P (KExpr (LBinary TOKEN_ASSIGN (var_ref ''data'') (lanes_fn ''Run'' [var_ref ''p'', two,
        LFuncLit origin [''ctx''] [] (KBlock [KVar [''t''] [LCall (LSelector origin (var_ref ''ctx'') ''Own'') []]])])))"
      by (simp add: tame_assignment lanes_fn_def var_ref_def two_def ident_name_def lanes_call_def ran_def
          in_seqs [of _ "[Read ''p'', Ran ''p'']" "[Write ''data'']"] in_seqs [of _ "[Read ''p'']"] in_iter)
  qed (simp_all add: var_ref_def)
  then show ?thesis unfolding function_runs_def by (auto intro!: exI [of _ "[]"])
qed

theorem lane_check_exact_witness:
  "lane_ownership_check_program lanes_checker [] [Some (KBlock stencil)]
     = obeys start (function_events (packages lanes_checker) (KBlock stencil))"
  using lane_check_exact [of "[Some (KBlock stencil)]" lanes_checker "[]"] stencil_facts(1) by simp


section \<open>Gaps\<close>

text \<open>The source of a partition is not checked, so one slice can be partitioned twice.\<close>

definition partitioned_twice :: "lstmt list" where
  "partitioned_twice =
    [KVar [''p''] [lanes_fn ''Partition'' [var_ref ''data'', two]],
     KVar [''q''] [lanes_fn ''Partition'' [var_ref ''data'', two]]]"

lemma double_partition_accepted:
  "lane_ownership_check_program lanes_checker [] [Some (KBlock partitioned_twice)]
   \<and> [Moved ''data'', Moved ''data''] \<in> function_runs (packages lanes_checker) partitioned_twice"
proof
  show "lane_ownership_check_program lanes_checker [] [Some (KBlock partitioned_twice)]" by code_simp
  have "[Moved ''data''] @ [Moved ''data''] @ [] \<in> runs_top (packages lanes_checker) partitioned_twice"
    unfolding partitioned_twice_def runs_top.simps
    by (intro in_seqs [OF refl]) (simp_all add: lane_examples lanes_call_def ident_name_def partition_moves_def)
  then show "[Moved ''data'', Moved ''data''] \<in> function_runs (packages lanes_checker) partitioned_twice"
    unfolding function_runs_def by (auto intro!: exI [of _ "[]"])
qed

text \<open>A loop is walked once, so a partition at the end of its body is not seen by a read at its start.\<close>

definition partition_in_loop :: "lstmt list" where
  "partition_in_loop =
    [KFor KNull LNull KNull LNull (KBlock
      [KExpr (LCall (var_ref ''sum'') [var_ref ''data'']),
       KVar [''p''] [lanes_fn ''Partition'' [var_ref ''data'', two]]])]"

lemma loop_partition_accepted:
  "lane_ownership_check_program lanes_checker [] [Some (KBlock partition_in_loop)]
   \<and> (\<exists>t \<in> function_runs (packages lanes_checker) partition_in_loop. \<not> obeys start t)"
proof
  let ?P = "packages lanes_checker" and ?t = "[Read ''sum'', Read ''data'', Moved ''data'']"
  let ?body = "KBlock [KExpr (LCall (var_ref ''sum'') [var_ref ''data'']), KVar [''p''] [lanes_fn ''Partition'' [var_ref ''data'', two]]]"
  show "lane_ownership_check_program lanes_checker [] [Some (KBlock partition_in_loop)]" by code_simp
  have "?t \<in> runs_stmt ?P ?body"
    by (simp add: lane_examples runs_stmt.simps lanes_call_def ident_name_def partition_moves_def
        in_seqs [of _ "[Read ''sum'', Read ''data'']" "[Moved ''data'']"] in_seqs [of _ "[Read ''sum'']" "[Read ''data'']"])
  then have "?t @ ?t \<in> iter (runs ?P LNull \<union> runs_stmt ?P KNull \<union> runs ?P LNull \<union> runs_stmt ?P ?body)"
    by (intro in_iter(3) UnI2)
  then have "?t @ ?t \<in> runs_top ?P partition_in_loop"
    unfolding partition_in_loop_def runs_top.simps seqs_unit runs_stmt.simps(6) by (simp only: seqs_unit runs_stmt.simps(1))
  then have "?t @ ?t \<in> function_runs ?P partition_in_loop"
    unfolding function_runs_def by (auto intro!: exI [of _ "[]"])
  then show "\<exists>t \<in> function_runs ?P partition_in_loop. \<not> obeys start t"
    by (rule bexI [rotated]) (simp add: start_def)
qed

text \<open>Of several returned values only the first is checked.\<close>

definition second_result :: "lstmt list" where
  "second_result =
    [KVar [''p''] [lanes_fn ''Partition'' [var_ref ''data'', two]], KReturn [var_ref ''p'', var_ref ''data'']]"

lemma second_result_accepted:
  "lane_ownership_check_program lanes_checker [] [Some (KBlock second_result)]
   \<and> (\<exists>t \<in> function_runs (packages lanes_checker) second_result. \<not> obeys start t)"
proof
  let ?P = "packages lanes_checker" and ?t = "[Moved ''data'', Read ''p'', Read ''data'']"
  show "lane_ownership_check_program lanes_checker [] [Some (KBlock second_result)]" by code_simp
  have "?t \<in> runs_top ?P second_result"
    by (simp add: second_result_def lane_examples lanes_call_def ident_name_def partition_moves_def
        in_seqs [of _ "[Moved ''data'']" "[Read ''p'', Read ''data'']"] in_seqs [of _ "[Read ''p'']" "[Read ''data'']"])
  then have "?t \<in> function_runs ?P second_result"
    unfolding function_runs_def by (auto intro!: exI [of _ "[]"])
  then show "\<exists>t \<in> function_runs ?P second_result. \<not> obeys start t"
    by (rule bexI [rotated]) (simp add: start_def)
qed

end
