(* ===== verification/Lanes_Views.thy ===== *)
theory Lanes_Views
  imports Lanes_Sound
begin

text \<open>
  The views of a lane. In a lane body a name holds a view when it is the context of the lane or is
  declared with an initialiser that mentions a view; a declaration ends with its block. The pass
  keeps one flat list of derived names for the whole body. It is compared with the scoped meaning:
  a body the pass accepts never hands a view to a goroutine, as long as views are only bound by
  declarations.
\<close>

section \<open>Views in scope\<close>

fun idents :: "lexpr \<Rightarrow> string list"
  and idents_list :: "lexpr list \<Rightarrow> string list" where
  "idents (LIdent p x) = [x]"
| "idents (LBinary op l r) = idents l @ idents r"
| "idents (LUnary op e) = idents e"
| "idents (LPostfix e) = idents e"
| "idents (LIndex e i) = idents e @ idents i"
| "idents (LSliceIndex e l h) = idents e @ idents l @ idents h"
| "idents (LSliceLit es) = idents_list es"
| "idents (LSelector p e s) = idents e"
| "idents (LCall f args) = idents f @ idents_list args"
| "idents e = []"
| "idents_list [] = []"
| "idents_list (e # es) = idents e @ idents_list es"

definition mentions :: "string set \<Rightarrow> lexpr \<Rightarrow> bool" where
  "mentions V e \<longleftrightarrow> (\<exists>x \<in> V. x \<in> set (idents e))"

text \<open>A goroutine receives the values of its arguments and the captures of a launched literal.\<close>

definition go_receives :: "string set \<Rightarrow> lexpr \<Rightarrow> bool" where
  "go_receives V call = (case call of
     LCall f args \<Rightarrow> list_ex (mentions V) args \<or> (case f of LFuncLit q ps caps body \<Rightarrow> \<exists>n \<in> set caps. n \<in> V | _ \<Rightarrow> False)
   | _ \<Rightarrow> False)"

definition views :: "string set \<Rightarrow> lstmt \<Rightarrow> string set" where
  "views V s = (case s of
     KVar names (v # vs) \<Rightarrow> if mentions V v then V \<union> set names else V - set names
   | KVar names [] \<Rightarrow> V - set names
   | _ \<Rightarrow> V)"

fun leaks :: "string set \<Rightarrow> lstmt \<Rightarrow> bool"
  and leaks_seq :: "string set \<Rightarrow> lstmt list \<Rightarrow> bool"
  and leaks_any :: "string set \<Rightarrow> lstmt list \<Rightarrow> bool" where
  "leaks V (KBlock ss) = leaks_seq V ss"
| "leaks V (KGo pos call) = go_receives V call"
| "leaks V (KIf e th el) = (leaks V th \<or> leaks V el)"
| "leaks V (KFor init e post rng body) = (leaks V init \<or> leaks (views V init) post \<or> leaks (views V init) body)"
| "leaks V (KSwitch tag cs) = leaks_any V cs"
| "leaks V (KCase es ss) = leaks_seq V ss"
| "leaks V (KLabel s) = leaks V s"
| "leaks V s = False"
| "leaks_seq V [] = False"
| "leaks_seq V (s # ss) = (leaks V s \<or> leaks_seq (views V s) ss)"
| "leaks_any V [] = False"
| "leaks_any V (s # ss) = (leaks V s \<or> leaks_any V ss)"

section \<open>The flat list bounds the views\<close>

lemma find_in_expr_iff:
  "lane_derived_find_in_expr ds e = None \<longleftrightarrow> \<not> mentions (set ds) e"
  "lane_derived_find_in_list ds es = None \<longleftrightarrow> (\<forall>x \<in> set ds. x \<notin> set (idents_list es))"
  by (induction ds e and ds es rule: lane_derived_find_in_expr_lane_derived_find_in_list.induct)
    (auto simp: mentions_def split: option.splits)

lemma mentions_mono: "V \<subseteq> W \<Longrightarrow> mentions V e \<Longrightarrow> mentions W e"
  by (auto simp: mentions_def)

lemma map_filter_none: "List.map_filter f xs = [] \<longleftrightarrow> (\<forall>x \<in> set xs. f x = None)"
  by (auto simp: map_filter_def filter_empty_conv)

lemma go_receives_iff: "go_diags pos ds call = [] \<longleftrightarrow> \<not> go_receives (set ds) call"
proof (cases call)
  case (LCall f args)
  then show ?thesis
    by (cases f) (simp_all add: go_diags_def go_receives_def map_filter_none find_in_expr_iff list_ex_iff filter_empty_conv)
qed (simp_all add: go_diags_def go_receives_def)

lemma go_receives_mono: "V \<subseteq> W \<Longrightarrow> go_receives V call \<Longrightarrow> go_receives W call"
proof (cases call)
  case (LCall f args)
  then show "V \<subseteq> W \<Longrightarrow> go_receives V call \<Longrightarrow> go_receives W call"
    by (cases f) (auto simp: go_receives_def list_ex_iff intro: mentions_mono)
qed (simp_all add: go_receives_def)

lemma derived_add: "length ds < LANE_DERIVED_MAX \<Longrightarrow> set (lane_derived_add ds n) = insert n (set ds)"
  by (auto simp: lane_derived_add_def)

lemma derived_grows: "set ds \<subseteq> set (lane_derived_add ds n)" "length ds \<le> length (lane_derived_add ds n)"
  by (auto simp: lane_derived_add_def)

lemma derived_grows_all: "set ds \<subseteq> set (foldl lane_derived_add ds ns) \<and> length ds \<le> length (foldl lane_derived_add ds ns)"
proof (induction ns arbitrary: ds)
  case (Cons n ns)
  from Cons [of "lane_derived_add ds n"] derived_grows [of ds n] show ?case by auto
qed simp

lemma derived_all:
  "length (foldl lane_derived_add ds ns) < LANE_DERIVED_MAX \<Longrightarrow> set (foldl lane_derived_add ds ns) = set ds \<union> set ns"
proof (induction ns arbitrary: ds)
  case (Cons n ns)
  have "length ds < LANE_DERIVED_MAX"
    using Cons.prems derived_grows(2) [of ds n] derived_grows_all [of "lane_derived_add ds n" ns] by simp
  then show ?case using Cons derived_add by simp
qed simp

definition longer :: "lane_ctx \<times> string list \<Rightarrow> lane_ctx \<times> string list \<Rightarrow> bool" where
  "longer w w' \<longleftrightarrow> set (snd w) \<subseteq> set (snd w') \<and> length (snd w) \<le> length (snd w') \<and> (\<exists>dl. lc_report (fst w') = lc_report (fst w) @ dl)"

lemma longer_refl [simp]: "longer w w"
  by (simp add: longer_def)

lemma longer_trans: "longer u v \<Longrightarrow> longer v w \<Longrightarrow> longer u w"
  by (auto simp: longer_def)

lemma body_longer:
  "longer w (lane_body_walk_stmt w s)" "longer w (lane_body_walk_list w ss)"
proof (induction w s and w ss rule: lane_body_walk_stmt_lane_body_walk_list.induct)
  case (2 c ds names vs)
  then show ?case using derived_grows_all [of ds names] by (cases vs) (auto simp: longer_def)
next
  case (3 c ds pos call)
  then show ?case by (simp add: longer_def go_errors)
qed (auto intro: longer_trans)

definition quiet :: "lane_ctx \<times> string list \<Rightarrow> lane_ctx \<times> string list \<Rightarrow> bool" where
  "quiet w w' \<longleftrightarrow> lc_report (fst w') = lc_report (fst w) \<and> length (snd w') < LANE_DERIVED_MAX"

lemma quiet_split: "quiet u w \<Longrightarrow> longer u v \<Longrightarrow> longer v w \<Longrightarrow> quiet u v \<and> quiet v w"
proof -
  assume a: "quiet u w" "longer u v" "longer v w"
  obtain dl dl' where "lc_report (fst v) = lc_report (fst u) @ dl" "lc_report (fst w) = lc_report (fst v) @ dl'"
    using a(2,3) unfolding longer_def by blast
  then show ?thesis using a by (simp add: quiet_def longer_def)
qed

lemma views_other [simp]:
  "views V (KBlock ss) = V" "views V (KGo pos call) = V" "views V (KIf e th el) = V" "views V (KFor init e post rng body) = V"
  "views V (KSwitch e cs) = V" "views V (KCase es ss) = V" "views V (KLabel s) = V" "views V KNull = V" "views V (KExpr e) = V"
  "views V (KReturn es) = V" "views V (KDefer e) = V" "views V (KMulti es) = V" "views V KJump = V" "views V KOther = V"
  by (simp_all add: views_def)

lemma body_confines:
  "quiet w (lane_body_walk_stmt w s) \<Longrightarrow> V \<subseteq> set (snd w) \<Longrightarrow> \<not> leaks V s \<and> views V s \<subseteq> set (snd (lane_body_walk_stmt w s))"
  "quiet w (lane_body_walk_list w ss) \<Longrightarrow> V \<subseteq> set (snd w) \<Longrightarrow> \<not> leaks_seq V ss \<and> \<not> leaks_any V ss"
proof (induction w s and w ss arbitrary: V and V rule: lane_body_walk_stmt_lane_body_walk_list.induct)
  case (1 w ss)
  then show ?case using body_longer(2) [of w ss] by (auto simp: longer_def)
next
  case (2 c ds names vs)
  then show ?case using derived_all [of ds names] mentions_mono
    by (cases vs) (auto simp: views_def find_in_expr_iff quiet_def split: if_splits)
next
  case (3 c ds pos call)
  then have "\<not> go_receives (set ds) call"
    by (simp add: quiet_def go_errors flip: go_receives_iff [of pos])
  then show ?case using 3 go_receives_mono by auto
next
  case (4 w e th el)
  let ?u = "lane_body_walk_stmt w th"
  have x: "longer w ?u" "longer ?u (lane_body_walk_stmt ?u el)" by (rule body_longer)+
  then have q: "quiet w ?u" "quiet ?u (lane_body_walk_stmt ?u el)" using quiet_split [OF _ x] 4(3) by auto
  have "V \<subseteq> set (snd ?u)" using x(1) 4(4) by (auto simp: longer_def)
  then show ?case using 4(1) [OF q(1) 4(4)] 4(2) [OF q(2)] x by (auto simp: longer_def)
next
  case (5 w init e post rng body)
  let ?u = "lane_body_walk_stmt w init" and ?v = "lane_body_walk_stmt (lane_body_walk_stmt w init) post"
  let ?x = "lane_body_walk_stmt ?v body"
  have x: "longer w ?u" "longer ?u ?v" "longer ?v ?x" by (rule body_longer)+
  have "quiet w ?v \<and> quiet ?v ?x" using 5(4) by (intro quiet_split [OF _ longer_trans [OF x(1,2)] x(3)]) simp
  then have q: "quiet w ?u" "quiet ?u ?v" "quiet ?v ?x" using quiet_split [OF _ x(1,2)] by blast+
  have "views V init \<subseteq> set (snd ?u)" "\<not> leaks V init" using 5(1) [OF q(1) 5(5)] by auto
  moreover from this(1) have "views V init \<subseteq> set (snd ?v)" using x(2) by (auto simp: longer_def)
  moreover have "V \<subseteq> set (snd ?x)" using x 5(5) unfolding longer_def by (meson subset_trans)
  ultimately show ?case using 5(2) [OF q(2)] 5(3) [OF q(3)] by simp
next
  case (6 w tag cs)
  then show ?case using body_longer(2) [of w cs] by (auto simp: longer_def)
next
  case (7 w es ss)
  then show ?case using body_longer(2) [of w ss] by (auto simp: longer_def)
next
  case (8 w s)
  then show ?case using body_longer(1) [of w s] by (auto simp: longer_def)
next
  case (11 w s ss)
  let ?u = "lane_body_walk_stmt w s"
  have x: "longer w ?u" "longer ?u (lane_body_walk_list ?u ss)" by (rule body_longer)+
  then have q: "quiet w ?u" "quiet ?u (lane_body_walk_list ?u ss)" using quiet_split [OF _ x] 11(3) by auto
  have "V \<subseteq> set (snd ?u)" using x(1) 11(4) by (auto simp: longer_def)
  then show ?case using 11(1) [OF q(1) 11(4)] 11(2) [OF q(2), of "views V s"] 11(2) [OF q(2), of V] by auto
qed (auto simp: quiet_def)

section \<open>Accepted lane bodies\<close>


definition lane_loop :: lstmt where
  "lane_loop = KBlock [KVar [''t''] [LCall (LSelector origin (var_ref ''ctx'') ''Own'') []],
     KFor (KVar [''i''] [two]) (var_ref ''i'') KNull LNull (KBlock [KGo origin (LCall (var_ref ''log'') [var_ref ''i''])])]"


text \<open>The pass finds the view behind two declarations.\<close>

lemma shared_view_reported:
  "body_shares [''ctx''] (KBlock [KVar [''t''] [LCall (LSelector origin (var_ref ''ctx'') ''Own'') []], KVar [''u''] [var_ref ''t''],
     KGo origin (LCall (var_ref ''work'') [var_ref ''u''])])"
  by code_simp

text \<open>A view that is assigned, not declared, is not followed.\<close>

lemma assigned_view_unreported:
  "\<not> body_shares [''ctx''] (KBlock [KVar [''t''] [], KExpr (LBinary TOKEN_ASSIGN (var_ref ''t'') (LCall (LSelector origin (var_ref ''ctx'') ''Own'') [])),
     KGo origin (LCall (var_ref ''work'') [var_ref ''t''])])"
  by code_simp

end
