(* ===== verification/Bridge.thy ===== *)
theory Bridge
  imports Lexer_Props ConstFold
begin

text \<open>
  The bridge between the scanner and the Bison parser, \<open>src/parser/lexer_bridge.c\<close>. It maps token
  kinds, recolours the \<open>{\<close> that opens the body of a control clause and the \<open>]\<close> of an empty \<open>[]\<close> that
  starts a slice type, and hands each token over with its value and location. The file-static
  variables, \<open>yylval\<close> and \<open>yylloc\<close> are the fields of one record; the frame stack is a list with the
  top first.
\<close>

section \<open>Tokens of the grammar\<close>

text \<open>Bison numbers the tokens from 258 on, in the order of the \<open>%token\<close> lines of \<open>parser.y\<close>; 0 is the end.\<close>

type_synonym bison = int

abbreviation (input) BT_EOF :: bison where "BT_EOF \<equiv> 0"
abbreviation (input) BT_IDENTIFIER :: bison where "BT_IDENTIFIER \<equiv> 258"
abbreviation (input) BT_STRING_LITERAL :: bison where "BT_STRING_LITERAL \<equiv> 259"
abbreviation (input) BT_INT_LITERAL :: bison where "BT_INT_LITERAL \<equiv> 260"
abbreviation (input) BT_FLOAT_LITERAL :: bison where "BT_FLOAT_LITERAL \<equiv> 261"
abbreviation (input) BT_CHAR_LITERAL :: bison where "BT_CHAR_LITERAL \<equiv> 262"
abbreviation (input) BT_BREAK :: bison where "BT_BREAK \<equiv> 263"
abbreviation (input) BT_CASE :: bison where "BT_CASE \<equiv> 264"
abbreviation (input) BT_CHAN :: bison where "BT_CHAN \<equiv> 265"
abbreviation (input) BT_CONST :: bison where "BT_CONST \<equiv> 266"
abbreviation (input) BT_CONTINUE :: bison where "BT_CONTINUE \<equiv> 267"
abbreviation (input) BT_DEFAULT :: bison where "BT_DEFAULT \<equiv> 268"
abbreviation (input) BT_DEFER :: bison where "BT_DEFER \<equiv> 269"
abbreviation (input) BT_ELSE :: bison where "BT_ELSE \<equiv> 270"
abbreviation (input) BT_FALLTHROUGH :: bison where "BT_FALLTHROUGH \<equiv> 271"
abbreviation (input) BT_FOR :: bison where "BT_FOR \<equiv> 272"
abbreviation (input) BT_FUNC :: bison where "BT_FUNC \<equiv> 273"
abbreviation (input) BT_GO :: bison where "BT_GO \<equiv> 274"
abbreviation (input) BT_GOTO :: bison where "BT_GOTO \<equiv> 275"
abbreviation (input) BT_IF :: bison where "BT_IF \<equiv> 276"
abbreviation (input) BT_IMPORT :: bison where "BT_IMPORT \<equiv> 277"
abbreviation (input) BT_INTERFACE :: bison where "BT_INTERFACE \<equiv> 278"
abbreviation (input) BT_MAP :: bison where "BT_MAP \<equiv> 279"
abbreviation (input) BT_PACKAGE :: bison where "BT_PACKAGE \<equiv> 280"
abbreviation (input) BT_RANGE :: bison where "BT_RANGE \<equiv> 281"
abbreviation (input) BT_RETURN :: bison where "BT_RETURN \<equiv> 282"
abbreviation (input) BT_SELECT :: bison where "BT_SELECT \<equiv> 283"
abbreviation (input) BT_STRUCT :: bison where "BT_STRUCT \<equiv> 284"
abbreviation (input) BT_SWITCH :: bison where "BT_SWITCH \<equiv> 285"
abbreviation (input) BT_TYPE :: bison where "BT_TYPE \<equiv> 286"
abbreviation (input) BT_VAR :: bison where "BT_VAR \<equiv> 287"
abbreviation (input) BT_ENUM :: bison where "BT_ENUM \<equiv> 288"
abbreviation (input) BT_TRUE :: bison where "BT_TRUE \<equiv> 289"
abbreviation (input) BT_FALSE :: bison where "BT_FALSE \<equiv> 290"
abbreviation (input) BT_NIL :: bison where "BT_NIL \<equiv> 291"
abbreviation (input) BT_COMPTIME :: bison where "BT_COMPTIME \<equiv> 292"
abbreviation (input) BT_CONCEPT :: bison where "BT_CONCEPT \<equiv> 293"
abbreviation (input) BT_PUB :: bison where "BT_PUB \<equiv> 294"
abbreviation (input) BT_SUB :: bison where "BT_SUB \<equiv> 295"
abbreviation (input) BT_REQ :: bison where "BT_REQ \<equiv> 296"
abbreviation (input) BT_REP :: bison where "BT_REP \<equiv> 297"
abbreviation (input) BT_PUSH :: bison where "BT_PUSH \<equiv> 298"
abbreviation (input) BT_PULL :: bison where "BT_PULL \<equiv> 299"
abbreviation (input) BT_TRY :: bison where "BT_TRY \<equiv> 300"
abbreviation (input) BT_CATCH :: bison where "BT_CATCH \<equiv> 301"
abbreviation (input) BT_UNSAFE :: bison where "BT_UNSAFE \<equiv> 302"
abbreviation (input) BT_ARENA :: bison where "BT_ARENA \<equiv> 304"
abbreviation (input) BT_OWNED :: bison where "BT_OWNED \<equiv> 315"
abbreviation (input) BT_BORROWED :: bison where "BT_BORROWED \<equiv> 316"
abbreviation (input) BT_SHARED :: bison where "BT_SHARED \<equiv> 317"
abbreviation (input) BT_LET :: bison where "BT_LET \<equiv> 318"
abbreviation (input) BT_MATCH :: bison where "BT_MATCH \<equiv> 319"
abbreviation (input) BT_PLUS :: bison where "BT_PLUS \<equiv> 320"
abbreviation (input) BT_MINUS :: bison where "BT_MINUS \<equiv> 321"
abbreviation (input) BT_MULTIPLY :: bison where "BT_MULTIPLY \<equiv> 322"
abbreviation (input) BT_DIVIDE :: bison where "BT_DIVIDE \<equiv> 323"
abbreviation (input) BT_MODULO :: bison where "BT_MODULO \<equiv> 324"
abbreviation (input) BT_ASSIGN :: bison where "BT_ASSIGN \<equiv> 325"
abbreviation (input) BT_SHORT_ASSIGN :: bison where "BT_SHORT_ASSIGN \<equiv> 326"
abbreviation (input) BT_PLUS_ASSIGN :: bison where "BT_PLUS_ASSIGN \<equiv> 327"
abbreviation (input) BT_MINUS_ASSIGN :: bison where "BT_MINUS_ASSIGN \<equiv> 328"
abbreviation (input) BT_MUL_ASSIGN :: bison where "BT_MUL_ASSIGN \<equiv> 329"
abbreviation (input) BT_DIV_ASSIGN :: bison where "BT_DIV_ASSIGN \<equiv> 330"
abbreviation (input) BT_MOD_ASSIGN :: bison where "BT_MOD_ASSIGN \<equiv> 331"
abbreviation (input) BT_AND_ASSIGN :: bison where "BT_AND_ASSIGN \<equiv> 332"
abbreviation (input) BT_OR_ASSIGN :: bison where "BT_OR_ASSIGN \<equiv> 333"
abbreviation (input) BT_XOR_ASSIGN :: bison where "BT_XOR_ASSIGN \<equiv> 334"
abbreviation (input) BT_LSHIFT_ASSIGN :: bison where "BT_LSHIFT_ASSIGN \<equiv> 335"
abbreviation (input) BT_RSHIFT_ASSIGN :: bison where "BT_RSHIFT_ASSIGN \<equiv> 336"
abbreviation (input) BT_EQ :: bison where "BT_EQ \<equiv> 337"
abbreviation (input) BT_NE :: bison where "BT_NE \<equiv> 338"
abbreviation (input) BT_LT :: bison where "BT_LT \<equiv> 339"
abbreviation (input) BT_LE :: bison where "BT_LE \<equiv> 340"
abbreviation (input) BT_GT :: bison where "BT_GT \<equiv> 341"
abbreviation (input) BT_GE :: bison where "BT_GE \<equiv> 342"
abbreviation (input) BT_AND :: bison where "BT_AND \<equiv> 343"
abbreviation (input) BT_OR :: bison where "BT_OR \<equiv> 344"
abbreviation (input) BT_NOT :: bison where "BT_NOT \<equiv> 345"
abbreviation (input) BT_BIT_AND :: bison where "BT_BIT_AND \<equiv> 346"
abbreviation (input) BT_BIT_OR :: bison where "BT_BIT_OR \<equiv> 347"
abbreviation (input) BT_BIT_XOR :: bison where "BT_BIT_XOR \<equiv> 348"
abbreviation (input) BT_BIT_NOT :: bison where "BT_BIT_NOT \<equiv> 349"
abbreviation (input) BT_LSHIFT :: bison where "BT_LSHIFT \<equiv> 350"
abbreviation (input) BT_RSHIFT :: bison where "BT_RSHIFT \<equiv> 351"
abbreviation (input) BT_AND_NOT :: bison where "BT_AND_NOT \<equiv> 352"
abbreviation (input) BT_INCREMENT :: bison where "BT_INCREMENT \<equiv> 353"
abbreviation (input) BT_DECREMENT :: bison where "BT_DECREMENT \<equiv> 354"
abbreviation (input) BT_ARROW :: bison where "BT_ARROW \<equiv> 355"
abbreviation (input) BT_BANG :: bison where "BT_BANG \<equiv> 356"
abbreviation (input) BT_QUESTION :: bison where "BT_QUESTION \<equiv> 357"
abbreviation (input) BT_FAT_ARROW :: bison where "BT_FAT_ARROW \<equiv> 361"
abbreviation (input) BT_LPAREN :: bison where "BT_LPAREN \<equiv> 362"
abbreviation (input) BT_RPAREN :: bison where "BT_RPAREN \<equiv> 363"
abbreviation (input) BT_LBRACE :: bison where "BT_LBRACE \<equiv> 364"
abbreviation (input) BT_RBRACE :: bison where "BT_RBRACE \<equiv> 365"
abbreviation (input) BT_LBRACKET :: bison where "BT_LBRACKET \<equiv> 366"
abbreviation (input) BT_RBRACKET :: bison where "BT_RBRACKET \<equiv> 367"
abbreviation (input) BT_LBRACE_BODY :: bison where "BT_LBRACE_BODY \<equiv> 368"
abbreviation (input) BT_RBRACKET_SLICE :: bison where "BT_RBRACKET_SLICE \<equiv> 369"
abbreviation (input) BT_SEMICOLON :: bison where "BT_SEMICOLON \<equiv> 370"
abbreviation (input) BT_COMMA :: bison where "BT_COMMA \<equiv> 371"
abbreviation (input) BT_DOT :: bison where "BT_DOT \<equiv> 372"
abbreviation (input) BT_COLON :: bison where "BT_COLON \<equiv> 373"
abbreviation (input) BT_ELLIPSIS :: bison where "BT_ELLIPSIS \<equiv> 374"
abbreviation (input) BT_NEWLINE :: bison where "BT_NEWLINE \<equiv> 375"

text \<open>The arms of \<open>map_token_to_bison\<close> that only return a number.\<close>

definition bison_table :: "(token_type \<times> bison) list" where
  "bison_table = [(TOKEN_EOF, BT_EOF),
     (TOKEN_IDENT, BT_IDENTIFIER), (TOKEN_INT, BT_INT_LITERAL), (TOKEN_FLOAT, BT_FLOAT_LITERAL),
     (TOKEN_STRING, BT_STRING_LITERAL), (TOKEN_CHAR, BT_CHAR_LITERAL), (TOKEN_TRUE, BT_TRUE), (TOKEN_FALSE,
     BT_FALSE), (TOKEN_NIL, BT_NIL), (TOKEN_BREAK, BT_BREAK), (TOKEN_CASE, BT_CASE), (TOKEN_CHAN, BT_CHAN),
     (TOKEN_CONST, BT_CONST), (TOKEN_CONTINUE, BT_CONTINUE), (TOKEN_DEFAULT, BT_DEFAULT), (TOKEN_DEFER,
     BT_DEFER), (TOKEN_ELSE, BT_ELSE), (TOKEN_FALLTHROUGH, BT_FALLTHROUGH), (TOKEN_FUNC, BT_FUNC), (TOKEN_GO,
     BT_GO), (TOKEN_GOTO, BT_GOTO), (TOKEN_IMPORT, BT_IMPORT), (TOKEN_INTERFACE, BT_INTERFACE),
     (TOKEN_PACKAGE, BT_PACKAGE), (TOKEN_RANGE, BT_RANGE), (TOKEN_RETURN, BT_RETURN), (TOKEN_STRUCT,
     BT_STRUCT), (TOKEN_TYPE, BT_TYPE), (TOKEN_VAR, BT_VAR), (TOKEN_COMPTIME, BT_COMPTIME), (TOKEN_CONCEPT,
     BT_CONCEPT), (TOKEN_PUB, BT_PUB), (TOKEN_SUB, BT_SUB), (TOKEN_REQ, BT_REQ), (TOKEN_REP, BT_REP),
     (TOKEN_PUSH, BT_PUSH), (TOKEN_PULL, BT_PULL), (TOKEN_TRY, BT_TRY), (TOKEN_CATCH, BT_CATCH),
     (TOKEN_UNSAFE, BT_UNSAFE), (TOKEN_ARENA, BT_ARENA), (TOKEN_OWNED, BT_OWNED), (TOKEN_BORROWED,
     BT_BORROWED), (TOKEN_SHARED, BT_SHARED), (TOKEN_LET, BT_LET), (TOKEN_ENUM, BT_ENUM), (TOKEN_PLUS,
     BT_PLUS), (TOKEN_MINUS, BT_MINUS), (TOKEN_MULTIPLY, BT_MULTIPLY), (TOKEN_DIVIDE, BT_DIVIDE),
     (TOKEN_MODULO, BT_MODULO), (TOKEN_ASSIGN, BT_ASSIGN), (TOKEN_SHORT_ASSIGN, BT_SHORT_ASSIGN),
     (TOKEN_PLUS_ASSIGN, BT_PLUS_ASSIGN), (TOKEN_MINUS_ASSIGN, BT_MINUS_ASSIGN), (TOKEN_MUL_ASSIGN,
     BT_MUL_ASSIGN), (TOKEN_DIV_ASSIGN, BT_DIV_ASSIGN), (TOKEN_MOD_ASSIGN, BT_MOD_ASSIGN), (TOKEN_AND_ASSIGN,
     BT_AND_ASSIGN), (TOKEN_OR_ASSIGN, BT_OR_ASSIGN), (TOKEN_XOR_ASSIGN, BT_XOR_ASSIGN), (TOKEN_LSHIFT_ASSIGN,
     BT_LSHIFT_ASSIGN), (TOKEN_RSHIFT_ASSIGN, BT_RSHIFT_ASSIGN), (TOKEN_EQ, BT_EQ), (TOKEN_NE, BT_NE),
     (TOKEN_LT, BT_LT), (TOKEN_LE, BT_LE), (TOKEN_GT, BT_GT), (TOKEN_GE, BT_GE), (TOKEN_AND, BT_AND),
     (TOKEN_OR, BT_OR), (TOKEN_NOT, BT_NOT), (TOKEN_BIT_AND, BT_BIT_AND), (TOKEN_AND_NOT, BT_AND_NOT),
     (TOKEN_FAT_ARROW, BT_FAT_ARROW), (TOKEN_BIT_OR, BT_BIT_OR), (TOKEN_BIT_XOR, BT_BIT_XOR), (TOKEN_BIT_NOT,
     BT_BIT_NOT), (TOKEN_LSHIFT, BT_LSHIFT), (TOKEN_RSHIFT, BT_RSHIFT), (TOKEN_INCREMENT, BT_INCREMENT),
     (TOKEN_DECREMENT, BT_DECREMENT), (TOKEN_ARROW, BT_ARROW), (TOKEN_BANG, BT_BANG), (TOKEN_QUESTION,
     BT_QUESTION), (TOKEN_SEMICOLON, BT_SEMICOLON), (TOKEN_COMMA, BT_COMMA), (TOKEN_DOT, BT_DOT),
     (TOKEN_ELLIPSIS, BT_ELLIPSIS), (TOKEN_NEWLINE, BT_NEWLINE)]"

section \<open>State\<close>

abbreviation (input) M10_FRAME_KIND_IF :: int where "M10_FRAME_KIND_IF \<equiv> 1"
abbreviation (input) M10_FRAME_KIND_FOR :: int where "M10_FRAME_KIND_FOR \<equiv> 2"
abbreviation (input) M10_FRAME_KIND_MATCH :: int where "M10_FRAME_KIND_MATCH \<equiv> 3"
abbreviation (input) M10_FRAME_KIND_SELECT :: int where "M10_FRAME_KIND_SELECT \<equiv> 4"
abbreviation (input) M10_FRAME_KIND_SWITCH :: int where "M10_FRAME_KIND_SWITCH \<equiv> 5"

definition M10_MAX_FRAMES :: nat where
  "M10_MAX_FRAMES = 64"

record cond_frame =
  cf_kind :: int
  cf_paren_depth :: nat
  cf_literal_pending :: bool

text \<open>
  The semantic value: of a float the text that \<open>atof\<close> reads. \<open>strtoull\<close> in base 0 reads \<open>0b\<close> in C23
  libraries only, which the field \<open>br_binary\<close> says.
\<close>

datatype yyval =
    VString string
  | VStrlit string
  | VInteger "64 word"
  | VReal string
  | VToken token_type

record yyloc =
  first_line :: nat
  first_column :: nat
  last_line :: nat
  last_column :: nat

text \<open>The state of the disambiguation, and the state of the bridge around it.\<close>

record m10 =
  m10_frames :: "cond_frame list"
  m10_paren_depth :: nat
  m10_lit_depth :: nat

record bridge =
  br_lexer :: "lexer option"
  br_m10 :: m10
  br_pending :: "(bison \<times> yyval \<times> yyloc) option"
  br_last_emitted :: bison
  br_last_line :: nat
  br_last_pos :: position
  br_yylval :: yyval
  br_yylloc :: yyloc
  br_binary :: bool

definition m10_push_frame :: "int \<Rightarrow> m10 \<Rightarrow> m10" where
  "m10_push_frame kind m =
     (if length (m10_frames m) \<ge> M10_MAX_FRAMES then m
      else m\<lparr>m10_frames := \<lparr>cf_kind = kind, cf_paren_depth = m10_paren_depth m, cf_literal_pending = False\<rparr> # m10_frames m\<rparr>)"

definition m10_pop_frame :: "m10 \<Rightarrow> m10" where
  "m10_pop_frame m = m\<lparr>m10_frames := tl (m10_frames m)\<rparr>"

text \<open>The top frame, when it was pushed at the current depth.\<close>

definition frame_here :: "m10 \<Rightarrow> cond_frame option" where
  "frame_here m = (case m10_frames m of [] \<Rightarrow> None
     | f # fs \<Rightarrow> if cf_paren_depth f = m10_paren_depth m then Some f else None)"

definition set_pending :: "bool \<Rightarrow> m10 \<Rightarrow> m10" where
  "set_pending p m = (case m10_frames m of [] \<Rightarrow> m | f # fs \<Rightarrow> m\<lparr>m10_frames := f\<lparr>cf_literal_pending := p\<rparr> # fs\<rparr>)"

definition bridge_prev_ends_operand :: "bison \<Rightarrow> bool" where
  "bridge_prev_ends_operand bt = (bt \<in> {BT_IDENTIFIER, BT_RBRACKET, BT_RBRACKET_SLICE, BT_RPAREN, BT_RBRACE, BT_STRING_LITERAL,
     BT_INT_LITERAL, BT_FLOAT_LITERAL, BT_CHAR_LITERAL, BT_TRUE, BT_FALSE, BT_NIL, BT_INCREMENT, BT_DECREMENT})"

definition bridge_token_continues_type :: "bison \<Rightarrow> bool" where
  "bridge_token_continues_type bt = (bt \<in> {BT_IDENTIFIER, BT_LBRACKET, BT_RBRACKET, BT_RBRACKET_SLICE, BT_MAP, BT_CHAN,
     BT_MULTIPLY, BT_DOT, BT_STRUCT, BT_FUNC, BT_ENUM, BT_BANG, BT_QUESTION})"

definition bridge_token_starts_type :: "bison \<Rightarrow> bool" where
  "bridge_token_starts_type bt = (bt \<in> {BT_IDENTIFIER, BT_LBRACKET, BT_MAP, BT_CHAN, BT_FUNC, BT_STRUCT, BT_ENUM, BT_PUB,
     BT_SUB, BT_REQ, BT_REP, BT_PUSH, BT_PULL, BT_MULTIPLY, BT_BIT_AND, BT_UNSAFE, BT_BANG, BT_QUESTION})"

definition m10_clear :: m10 where
  "m10_clear = \<lparr>m10_frames = [], m10_paren_depth = 0, m10_lit_depth = 0\<rparr>"

definition bridge_reset_cond_state :: "bridge \<Rightarrow> bridge" where
  "bridge_reset_cond_state b = b\<lparr>br_m10 := m10_clear, br_pending := None, br_last_emitted := 0, br_last_line := 0\<rparr>"

section \<open>Mapping a token\<close>

definition map_lbrace :: "m10 \<Rightarrow> bison \<times> m10" where
  "map_lbrace m =
     (if m10_lit_depth m > 0 then (BT_LBRACE, m\<lparr>m10_lit_depth := m10_lit_depth m + 1\<rparr>)
      else (case frame_here m of
          None \<Rightarrow> (BT_LBRACE, m)
        | Some f \<Rightarrow> if cf_literal_pending f then (BT_LBRACE, (set_pending False m)\<lparr>m10_lit_depth := 1\<rparr>)
            else (BT_LBRACE_BODY, m10_pop_frame m)))"

definition map_lbracket :: "bison \<Rightarrow> m10 \<Rightarrow> bison \<times> m10" where
  "map_lbracket last_emitted m =
     (let m1 = (if frame_here m \<noteq> None \<and> m10_lit_depth m = 0 \<and> \<not> bridge_prev_ends_operand last_emitted
                then set_pending True m else m)
      in (BT_LBRACKET, m1\<lparr>m10_paren_depth := m10_paren_depth m1 + 1\<rparr>))"

definition map_colon :: "m10 \<Rightarrow> bison \<times> m10" where
  "map_colon m = (BT_COLON, case frame_here m of
     None \<Rightarrow> m | Some f \<Rightarrow> if cf_kind f = M10_FRAME_KIND_IF then m10_pop_frame m else m)"

text \<open>The last token handed to the parser is an argument. The result is -1 for a kind the grammar has no token for.\<close>

definition map_token_to_bison :: "bison \<Rightarrow> token_type \<Rightarrow> m10 \<Rightarrow> bison \<times> m10" where
  "map_token_to_bison last_emitted ty m =
     (if ty = TOKEN_FOR then (BT_FOR, m10_push_frame M10_FRAME_KIND_FOR m)
      else if ty = TOKEN_IF then (BT_IF, m10_push_frame M10_FRAME_KIND_IF m)
      else if ty = TOKEN_SELECT then (BT_SELECT, m10_push_frame M10_FRAME_KIND_SELECT m)
      else if ty = TOKEN_SWITCH then (BT_SWITCH, m10_push_frame M10_FRAME_KIND_SWITCH m)
      else if ty = TOKEN_MATCH then (BT_MATCH, m10_push_frame M10_FRAME_KIND_MATCH m)
      else if ty = TOKEN_MAP then
        (BT_MAP, if frame_here m \<noteq> None \<and> m10_lit_depth m = 0 then set_pending True m else m)
      else if ty = TOKEN_LPAREN then (BT_LPAREN, m\<lparr>m10_paren_depth := m10_paren_depth m + 1\<rparr>)
      else if ty = TOKEN_RPAREN then (BT_RPAREN, m\<lparr>m10_paren_depth := m10_paren_depth m - 1\<rparr>)
      else if ty = TOKEN_LBRACE then map_lbrace m
      else if ty = TOKEN_RBRACE then (BT_RBRACE, m\<lparr>m10_lit_depth := m10_lit_depth m - 1\<rparr>)
      else if ty = TOKEN_LBRACKET then map_lbracket last_emitted m
      else if ty = TOKEN_RBRACKET then (BT_RBRACKET, m\<lparr>m10_paren_depth := m10_paren_depth m - 1\<rparr>)
      else if ty = TOKEN_COLON then map_colon m
      else (case map_of bison_table ty of Some bt \<Rightarrow> (bt, m) | None \<Rightarrow> (-1, m)))"

section \<open>Values\<close>

definition read_binary :: "string \<Rightarrow> nat" where
  "read_binary s = read_digits 2 s"

definition clamp_ull :: "nat \<Rightarrow> 64 word" where
  "clamp_ull n = (if int n \<ge> 2 ^ 64 then - 1 else word_of_nat n)"

text \<open>The literal of an integer token starts with a digit, so \<open>strtoull\<close> sees no sign and no space.\<close>

definition int_value :: "bool \<Rightarrow> string \<Rightarrow> 64 word" where
  "int_value binary s = (case s of
     c # d # t \<Rightarrow>
       if c = CHR ''0'' \<and> (d = CHR ''o'' \<or> d = CHR ''O'') then clamp_ull (read_digits 8 t)
       else if binary \<and> c = CHR ''0'' \<and> (d = CHR ''b'' \<or> d = CHR ''B'') \<and> t \<noteq> [] \<and> digit_value (hd t) < 2
         then clamp_ull (read_binary t)
       else strtoull s
   | _ \<Rightarrow> strtoull s)"

definition literal_text :: "token \<Rightarrow> string" where
  "literal_text t = (case tok_literal t of None \<Rightarrow> [] | Some s \<Rightarrow> s)"

definition token_value :: "bool \<Rightarrow> token \<Rightarrow> yyval" where
  "token_value binary t =
     (if tok_type t = TOKEN_IDENT then VString (literal_text t)
      else if tok_type t = TOKEN_STRING then VStrlit (take (tok_length t) (literal_text t))
      else if tok_type t = TOKEN_INT then VInteger (int_value binary (literal_text t))
      else if tok_type t = TOKEN_FLOAT then VReal (literal_text t)
      else VToken (tok_type t))"

definition bridge_loc_of :: "position \<Rightarrow> yyloc" where
  "bridge_loc_of pos = \<lparr>first_line = pos_line pos, first_column = pos_column pos, last_line = pos_line pos, last_column = pos_column pos\<rparr>"

section \<open>The stream\<close>

text \<open>A stale \<open>literal_pending\<close> goes when a token at the level of the frame cannot continue a type.\<close>

definition clear_stale :: "nat \<Rightarrow> bison \<Rightarrow> m10 \<Rightarrow> m10" where
  "clear_stale depth_before bt m = (case m10_frames m of [] \<Rightarrow> m
     | f # fs \<Rightarrow> if cf_literal_pending f \<and> depth_before = cf_paren_depth f \<and> bt \<noteq> BT_LBRACE \<and> \<not> bridge_token_continues_type bt
                 then set_pending False m else m)"

definition m10_take :: "bison \<Rightarrow> token_type \<Rightarrow> m10 \<Rightarrow> bison \<times> m10" where
  "m10_take last_emitted ty m =
     (let (bt, m1) = map_token_to_bison last_emitted ty m in (bt, clear_stale (m10_paren_depth m) bt m1))"

text \<open>What \<open>bridge_next_mapped\<close> does with the token it fetched.\<close>

definition bridge_take :: "token \<Rightarrow> bridge \<Rightarrow> bison \<times> bridge" where
  "bridge_take t b =
     (let (bt, m) = m10_take (br_last_emitted b) (tok_type t) (br_m10 b)
      in (bt, b\<lparr>br_last_line := pos_line (tok_pos t), br_last_pos := tok_pos t, br_m10 := m, br_yylval := token_value (br_binary b) t\<rparr>))"

lemma m10_take_EOF: "fst (m10_take le TOKEN_EOF m) = BT_EOF"
  by (simp add: m10_take_def map_token_to_bison_def bison_table_def)

lemma bridge_take_parts [simp]:
  "fst (bridge_take t b) = fst (m10_take (br_last_emitted b) (tok_type t) (br_m10 b))"
  "snd (bridge_take t b) = b\<lparr>br_last_line := pos_line (tok_pos t), br_last_pos := tok_pos t,
     br_m10 := snd (m10_take (br_last_emitted b) (tok_type t) (br_m10 b)), br_yylval := token_value (br_binary b) t\<rparr>"
  by (simp_all add: bridge_take_def split_beta)

function bridge_next_mapped :: "bridge \<Rightarrow> bison \<times> bridge" where
  "bridge_next_mapped b = (case br_lexer b of
     None \<Rightarrow> (0, b)
   | Some l \<Rightarrow>
       (let (t, l') = lexer_next_token l;
            (bt, b1) = bridge_take t (b\<lparr>br_lexer := Some l'\<rparr>)
        in if bt = -1 then bridge_next_mapped b1 else (bt, b1)))"
  by pat_completeness auto
termination
proof (relation "measure (\<lambda>b. case br_lexer b of None \<Rightarrow> 0 | Some l \<Rightarrow> lx_left l)"; clarsimp)
  fix b l t l' b1
  assume t: "(t, l') = lexer_next_token l" and b1: "(- 1, b1) = bridge_take t (b\<lparr>br_lexer := Some l'\<rparr>)" and "br_lexer b = Some l"
  have "br_lexer b1 = Some l'" using bridge_take_parts(2) [of t "b\<lparr>br_lexer := Some l'\<rparr>"] by (simp flip: b1)
  moreover have "tok_type t \<noteq> TOKEN_EOF" using bridge_take_parts(1) [of t "b\<lparr>br_lexer := Some l'\<rparr>"] m10_take_EOF by (auto simp flip: b1)
  ultimately show "(case br_lexer b1 of None \<Rightarrow> 0 | Some l \<Rightarrow> lx_left l) < lx_left l"
    using lexer_next_token_left [of l t l'] t by simp
qed

declare bridge_next_mapped.simps [simp del]

definition yylex :: "bridge \<Rightarrow> bison \<times> bridge" where
  "yylex b = (case br_pending b of
     Some (tok, val, loc) \<Rightarrow> (tok, b\<lparr>br_pending := None, br_yylval := val, br_yylloc := loc, br_last_emitted := tok\<rparr>)
   | None \<Rightarrow>
       (let (tok, b1) = bridge_next_mapped b; tok_pos = br_last_pos b1 in
        if tok = BT_RBRACKET \<and> br_last_emitted b1 = BT_LBRACKET then
          (let rbracket_line = br_last_line b1;
               (nxt, b2) = bridge_next_mapped b1;
               b3 = b2\<lparr>br_pending := Some (nxt, br_yylval b2, bridge_loc_of (br_last_pos b2)), br_yylloc := bridge_loc_of tok_pos\<rparr>;
               out = (if br_last_line b2 = rbracket_line \<and> bridge_token_starts_type nxt then BT_RBRACKET_SLICE else BT_RBRACKET)
           in (out, b3\<lparr>br_last_emitted := out\<rparr>))
        else (tok, b1\<lparr>br_yylloc := bridge_loc_of tok_pos, br_last_emitted := tok\<rparr>)))"

text \<open>The state in which \<open>parse_input\<close> starts the parser, from whatever an earlier parse left.\<close>

definition parse_input_start :: "string \<Rightarrow> string option \<Rightarrow> bridge \<Rightarrow> bridge" where
  "parse_input_start input filename b = bridge_reset_cond_state (b\<lparr>br_lexer := Some (lexer_new input filename)\<rparr>)"

end
