(* ===== verification/Bridge_Props.thy ===== *)
theory Bridge_Props
  imports Bridge
begin

text \<open>
  What the parser sees. Calling \<open>yylex\<close> until the end gives the tokens of the scanner one for one,
  with their values and locations, whatever the one-token lookahead buffers; only kinds the grammar
  does not have are missing, and only the colour of \<open>{\<close> and \<open>]\<close> changes. The colours are computed on
  the list of tokens by \<open>emit\<close>, for which the \<open>{\<close> that ends a control clause is shown to open its body.
\<close>

section \<open>Colours\<close>

definition uncolour :: "bison \<Rightarrow> bison" where
  "uncolour bt = (if bt = BT_LBRACE_BODY then BT_LBRACE else if bt = BT_RBRACKET_SLICE then BT_RBRACKET else bt)"

text \<open>The token of the grammar for a kind, without its colour.\<close>

definition plain_token :: "token_type \<Rightarrow> bison" where
  "plain_token ty = (if ty = TOKEN_LBRACE then BT_LBRACE else fst (map_token_to_bison 0 ty m10_clear))"

definition known :: "token \<Rightarrow> bool" where
  "known t = (plain_token (tok_type t) \<noteq> -1)"

lemma map_token_fst:
  "fst (map_token_to_bison le ty m) = (if ty = TOKEN_LBRACE then fst (map_lbrace m) else plain_token ty)"
  by (simp add: plain_token_def map_token_to_bison_def map_lbracket_def map_colon_def Let_def split: option.split)

lemma map_lbrace_fst: "fst (map_lbrace m) \<in> {BT_LBRACE, BT_LBRACE_BODY}"
  by (simp add: map_lbrace_def split: option.split)

lemma table_facts:
  "map_of bison_table ty = Some bt \<Longrightarrow> bt \<noteq> BT_LBRACE_BODY \<and> bt \<noteq> BT_RBRACKET_SLICE \<and> bt \<noteq> BT_RBRACKET \<and> (bt = BT_EOF \<longrightarrow> ty = TOKEN_EOF)"
proof -
  have "\<forall>p \<in> set bison_table. snd p \<noteq> BT_LBRACE_BODY \<and> snd p \<noteq> BT_RBRACKET_SLICE \<and> snd p \<noteq> BT_RBRACKET \<and> (snd p = BT_EOF \<longrightarrow> fst p = TOKEN_EOF)"
    by (simp add: bison_table_def)
  then show "map_of bison_table ty = Some bt \<Longrightarrow> ?thesis" by (auto dest!: map_of_SomeD)
qed

lemma plain_uncoloured: "plain_token ty \<noteq> BT_LBRACE_BODY \<and> plain_token ty \<noteq> BT_RBRACKET_SLICE"
proof (cases "map_of bison_table ty")
  case None
  then show ?thesis by (simp add: plain_token_def map_token_to_bison_def map_lbracket_def map_colon_def Let_def)
next
  case (Some bt)
  then show ?thesis using table_facts [OF Some]
    by (simp add: plain_token_def map_token_to_bison_def map_lbracket_def map_colon_def Let_def)
qed

lemma plain_RBRACKET: "plain_token ty = BT_RBRACKET \<longleftrightarrow> ty = TOKEN_RBRACKET"
proof (cases "map_of bison_table ty")
  case None
  then show ?thesis by (simp add: plain_token_def map_token_to_bison_def map_lbracket_def map_colon_def Let_def)
next
  case (Some bt)
  then show ?thesis using table_facts [OF Some]
    by (simp add: plain_token_def map_token_to_bison_def map_lbracket_def map_colon_def Let_def)
qed

lemma plain_EOF: "plain_token ty = BT_EOF \<longleftrightarrow> ty = TOKEN_EOF"
proof (cases "ty = TOKEN_EOF")
  case True
  then show ?thesis by (simp add: plain_token_def map_token_to_bison_def bison_table_def)
next
  case False
  then show ?thesis
  proof (cases "map_of bison_table ty")
    case None
    then show ?thesis using False by (simp add: plain_token_def map_token_to_bison_def map_lbracket_def map_colon_def Let_def)
  next
    case (Some bt)
    have "bt \<noteq> BT_EOF" using table_facts [OF Some] False by simp
    then show ?thesis using Some False
      by (simp add: plain_token_def map_token_to_bison_def map_lbracket_def map_colon_def Let_def)
  qed
qed

lemma m10_take_fst: "fst (m10_take le ty m) = fst (map_token_to_bison le ty m)"
  by (simp add: m10_take_def split_beta)

lemma take_cases:
  "fst (m10_take le ty m) = plain_token ty \<or> fst (m10_take le ty m) = BT_LBRACE_BODY \<and> plain_token ty = BT_LBRACE"
proof (cases "ty = TOKEN_LBRACE")
  case True
  then have "plain_token ty = BT_LBRACE" by (simp add: plain_token_def)
  then show ?thesis using map_lbrace_fst [of m] True by (simp add: m10_take_fst map_token_fst)
qed (simp add: m10_take_fst map_token_fst)

lemma take_plain: "uncolour (fst (m10_take le ty m)) = plain_token ty"
  using take_cases [of le ty m] plain_uncoloured [of ty] by (auto simp: uncolour_def)

lemma take_facts:
  "fst (m10_take le ty m) = -1 \<longleftrightarrow> plain_token ty = -1"
  "fst (m10_take le ty m) = BT_RBRACKET \<longleftrightarrow> ty = TOKEN_RBRACKET"
  "fst (m10_take le ty m) = BT_EOF \<longleftrightarrow> ty = TOKEN_EOF"
  "bridge_token_starts_type (fst (m10_take le ty m)) = bridge_token_starts_type (plain_token ty)"
  using take_cases [of le ty m] plain_RBRACKET [of ty] plain_EOF [of ty] by (auto simp: bridge_token_starts_type_def)

text \<open>
  Of the 138 kinds exactly these have no token in the grammar, among them \<open>@\<close>, which the scanner
  emits without an error.
\<close>

lemma dropped_kinds:
  "filter (\<lambda>ty. plain_token ty = -1) (map int [0..<nat TOKEN_COUNT]) =
     [46, 47, 48, 49, 50, 51, 52, 53, 54, 55, 56, 62, 63, 64, 65, 66, 67, 68, 69, 70, 71, 72, 73, 74, 75, 76, 77, 78, 116, 117, 118, 119, 120, 133, 134]"
  by code_simp

section \<open>The tokens the bridge fetches\<close>

lemma lexer_finish_left: "lx_left (lexer_finish t l) = lx_left l"
  by (rule lx_left_cursor) (simp add: lexer_finish_def lx_cursor_def Let_def)

lemma lexer_next_token_left_le: "lexer_next_token l = (t, l') \<Longrightarrow> lx_left l' \<le> lx_left l"
proof -
  assume n: "lexer_next_token l = (t, l')"
  show ?thesis
  proof (cases "tok_type t = TOKEN_EOF")
    case True
    then show ?thesis using lexer_next_token_spec [OF n] by (auto simp: lexer_finish_left lx_reads_left split: if_splits)
  qed (use lexer_next_token_left [OF n] in simp)
qed

text \<open>The state of the disambiguation after tokens the grammar does not have.\<close>

definition skip_unknown :: "bison \<Rightarrow> m10 \<Rightarrow> token list \<Rightarrow> m10" where
  "skip_unknown le m us = foldl (\<lambda>m u. snd (m10_take le (tok_type u) m)) m us"

definition fetched :: "bridge \<Rightarrow> lexer \<Rightarrow> bison \<Rightarrow> bridge \<Rightarrow> token list \<Rightarrow> token \<Rightarrow> token list \<Rightarrow> lexer \<Rightarrow> bool" where
  "fetched b l bt b' us t rest l' \<longleftrightarrow>
     fst (lexer_tokens l) = us @ t # rest \<and> (\<forall>u \<in> set us. \<not> known u) \<and> known t
     \<and> br_lexer b' = Some l' \<and> (if tok_type t = TOKEN_EOF then rest = [] else rest = fst (lexer_tokens l') \<and> lx_left l' < lx_left l)
     \<and> lx_left l' \<le> lx_left l
     \<and> (bt, br_m10 b') = m10_take (br_last_emitted b) (tok_type t) (skip_unknown (br_last_emitted b) (br_m10 b) us)
     \<and> br_last_emitted b' = br_last_emitted b \<and> br_pending b' = br_pending b \<and> br_binary b' = br_binary b
     \<and> br_last_pos b' = tok_pos t \<and> br_last_line b' = pos_line (tok_pos t) \<and> br_yylval b' = token_value (br_binary b) t"

lemma next_mapped_fetched:
  "br_lexer b = Some l \<Longrightarrow> bridge_next_mapped b = (bt, b') \<Longrightarrow> \<exists>us t rest l'. fetched b l bt b' us t rest l'"
proof (induction b arbitrary: l rule: bridge_next_mapped.induct)
  case (1 b)
  obtain t l1 where n: "lexer_next_token l = (t, l1)" by fastforce
  let ?b0 = "b\<lparr>br_lexer := Some l1\<rparr>"
  obtain bt1 b1 where take: "bridge_take t ?b0 = (bt1, b1)" by fastforce
  have bt1: "bt1 = fst (m10_take (br_last_emitted b) (tok_type t) (br_m10 b))"
    and b1: "b1 = ?b0\<lparr>br_last_line := pos_line (tok_pos t), br_last_pos := tok_pos t,
       br_m10 := snd (m10_take (br_last_emitted b) (tok_type t) (br_m10 b)), br_yylval := token_value (br_binary b) t\<rparr>"
    using bridge_take_parts [of t ?b0] take by simp_all
  have left: "lx_left l1 \<le> lx_left l" "tok_type t \<noteq> TOKEN_EOF \<Longrightarrow> lx_left l1 < lx_left l"
    using lexer_next_token_left_le [OF n] lexer_next_token_left [OF n] by auto
  show ?case
  proof (cases "bt1 = -1")
    case True
    then have unknown: "\<not> known t" using take_facts(1) bt1 by (simp add: known_def)
    then have ne: "tok_type t \<noteq> TOKEN_EOF" using plain_EOF [of "tok_type t"] by (auto simp: known_def)
    have "bridge_next_mapped b1 = (bt, b')"
      using 1(3) True by (simp add: bridge_next_mapped.simps [of b] 1(2) n take)
    moreover have "br_lexer b1 = Some l1" by (simp add: b1)
    ultimately obtain us u rest l' where f: "fetched b1 l1 bt b' us u rest l'"
      using 1(1) [OF 1(2) n [symmetric] refl take [symmetric] refl True, of l1] by blast
    have "fst (lexer_tokens l) = t # fst (lexer_tokens l1)"
      using n ne by (simp add: lexer_tokens.simps [of l] split_beta)
    then have "fetched b l bt b' (t # us) u rest l'"
      using f left(1) unknown by (auto simp: fetched_def b1 skip_unknown_def)
    then show ?thesis by blast
  next
    case False
    then have "known t" using take_facts(1) bt1 by (simp add: known_def)
    moreover have "bt = bt1" "b' = b1"
      using 1(3) False by (simp_all add: bridge_next_mapped.simps [of b] 1(2) n take)
    ultimately have "fetched b l bt b' [] t (if tok_type t = TOKEN_EOF then [] else fst (lexer_tokens l1)) l1"
      using left n by (auto simp: fetched_def b1 bt1 skip_unknown_def lexer_tokens.simps [of l] split_beta)
    then show ?thesis by blast
  qed
qed

section \<open>The stream the parser sees\<close>

definition bridge_left :: "bridge \<Rightarrow> nat" where
  "bridge_left b = (case br_lexer b of None \<Rightarrow> 0 | Some l \<Rightarrow> 2 * lx_left l) + (if br_pending b = None then 0 else 1)"

lemma yylex_progress:
  assumes "yylex b = (tok, b1)" "tok \<noteq> BT_EOF"
  shows "bridge_left b1 < bridge_left b"
proof (cases "br_pending b")
  case (Some p)
  then show ?thesis using assms by (cases p) (auto simp: yylex_def bridge_left_def)
next
  case None
  obtain bt b2 where n: "bridge_next_mapped b = (bt, b2)" by fastforce
  show ?thesis
  proof (cases "br_lexer b")
    case None2: None
    then have "bt = 0" "b2 = b" using n by (simp_all add: bridge_next_mapped.simps [of b])
    then show ?thesis using assms None n by (simp add: yylex_def)
  next
    case (Some l)
    obtain us t rest l' where f: "fetched b l bt b2 us t rest l'" using next_mapped_fetched [OF Some n] by blast
    have bt: "bt = fst (m10_take (br_last_emitted b) (tok_type t) (skip_unknown (br_last_emitted b) (br_m10 b) us))"
      using f by (metis fetched_def fst_conv)
    show ?thesis
    proof (cases "bt = BT_RBRACKET \<and> br_last_emitted b2 = BT_LBRACKET")
      case False
      then have "tok = bt" "b1 = b2\<lparr>br_yylloc := bridge_loc_of (br_last_pos b2), br_last_emitted := bt\<rparr>"
        using assms(1) None n by (auto simp: yylex_def Let_def)
      moreover have "tok_type t \<noteq> TOKEN_EOF" using bt take_facts(3) assms(2) \<open>tok = bt\<close> by simp
      ultimately show ?thesis using f None Some by (auto simp: bridge_left_def fetched_def)
    next
      case True
      obtain nxt b3 where n2: "bridge_next_mapped b2 = (nxt, b3)" by fastforce
      have l': "br_lexer b2 = Some l'" using f by (simp add: fetched_def)
      obtain us2 t2 rest2 l2 where f2: "fetched b2 l' nxt b3 us2 t2 rest2 l2" using next_mapped_fetched [OF l' n2] by blast
      have "tok_type t = TOKEN_RBRACKET" using bt True take_facts(2) by simp
      then have "lx_left l2 < lx_left l" using f f2 by (auto simp: fetched_def)
      moreover have "br_lexer b1 = Some l2" "br_pending b1 \<noteq> None"
        using assms(1) None n n2 True f2 by (auto simp: yylex_def Let_def fetched_def)
      ultimately show ?thesis using None Some by (simp add: bridge_left_def)
    qed
  qed
qed

text \<open>The tokens with a semantic type in the grammar keep their value.\<close>

definition sem_value :: "bison \<Rightarrow> yyval \<Rightarrow> yyval option" where
  "sem_value bt v = (if bt \<in> {BT_IDENTIFIER, BT_STRING_LITERAL, BT_INT_LITERAL, BT_FLOAT_LITERAL, BT_CHAR_LITERAL} then Some v else None)"

function yylex_stream :: "bridge \<Rightarrow> (bison \<times> yyval option \<times> yyloc) list" where
  "yylex_stream b = (let (tok, b1) = yylex b; out = (tok, sem_value tok (br_yylval b1), br_yylloc b1)
     in if tok = BT_EOF then [out] else out # yylex_stream b1)"
  by pat_completeness auto
termination
  by (relation "measure bridge_left") (auto dest: yylex_progress [OF sym])

declare yylex_stream.simps [simp del]

section \<open>Colours on the list of tokens\<close>

definition slice_prefix :: "token \<Rightarrow> token list \<Rightarrow> bool" where
  "slice_prefix t ts = (case filter known ts of [] \<Rightarrow> False
     | t' # _ \<Rightarrow> pos_line (tok_pos t') = pos_line (tok_pos t) \<and> bridge_token_starts_type (plain_token (tok_type t')))"

definition handed :: "bool \<Rightarrow> bison \<Rightarrow> token \<Rightarrow> bison \<times> yyval option \<times> yyloc" where
  "handed binary bt t = (bt, sem_value bt (token_value binary t), bridge_loc_of (tok_pos t))"

text \<open>
  \<open>peeked\<close> says that the next token of the grammar is fetched by the lookahead behind an empty \<open>[]\<close>:
  it sees the \<open>[\<close> as the last token and is not looked at for another \<open>[]\<close>.
\<close>

fun emit :: "bool \<Rightarrow> bool \<Rightarrow> bison \<Rightarrow> m10 \<Rightarrow> token list \<Rightarrow> (bison \<times> yyval option \<times> yyloc) list" where
  "emit binary peeked le m [] = []"
| "emit binary peeked le m (t # ts) =
     (let (bt, m1) = m10_take le (tok_type t) m in
      if bt = -1 then emit binary peeked le m1 ts
      else if \<not> peeked \<and> bt = BT_RBRACKET \<and> le = BT_LBRACKET
        then handed binary (if slice_prefix t ts then BT_RBRACKET_SLICE else BT_RBRACKET) t # emit binary True le m1 ts
      else handed binary bt t # emit binary False bt m1 ts)"

lemma emit_unknown:
  "\<forall>u \<in> set us. \<not> known u \<Longrightarrow> emit binary peeked le m (us @ ts) = emit binary peeked le (skip_unknown le m us) ts"
  by (induction us arbitrary: m) (auto simp: skip_unknown_def known_def take_facts(1) split_beta Let_def)

lemma emit_known:
  "known t \<Longrightarrow> m10_take le (tok_type t) m = (bt, m1) \<Longrightarrow> emit binary peeked le m (t # ts) =
     (if \<not> peeked \<and> bt = BT_RBRACKET \<and> le = BT_LBRACKET
        then handed binary (if slice_prefix t ts then BT_RBRACKET_SLICE else BT_RBRACKET) t # emit binary True le m1 ts
      else handed binary bt t # emit binary False bt m1 ts)"
  using take_facts(1) [of le "tok_type t" m] by (auto simp: known_def)

lemma stream_pending:
  "br_pending b = Some (tok, v, loc) \<Longrightarrow> yylex_stream b = (tok, sem_value tok v, loc) #
     (if tok = BT_EOF then [] else yylex_stream (b\<lparr>br_pending := None, br_yylval := v, br_yylloc := loc, br_last_emitted := tok\<rparr>))"
  by (simp add: yylex_stream.simps [of b] yylex_def)

lemma stream_emit:
  "br_lexer b = Some l \<Longrightarrow> br_pending b = None \<Longrightarrow>
   yylex_stream b = emit (br_binary b) False (br_last_emitted b) (br_m10 b) (fst (lexer_tokens l))"
proof (induction "lx_left l" arbitrary: b l rule: less_induct)
  case less
  let ?le = "br_last_emitted b" and ?bin = "br_binary b"
  obtain bt b2 where n: "bridge_next_mapped b = (bt, b2)" by fastforce
  obtain us t rest l' where f: "fetched b l bt b2 us t rest l'" using next_mapped_fetched [OF less(2) n] by blast
  let ?m = "skip_unknown ?le (br_m10 b) us"
  have take: "m10_take ?le (tok_type t) ?m = (bt, br_m10 b2)" using f by (simp add: fetched_def)
  have emit0: "emit ?bin False ?le (br_m10 b) (fst (lexer_tokens l)) = emit ?bin False ?le ?m (t # rest)"
    using f by (simp add: fetched_def emit_unknown del: emit.simps)
  have known: "known t" using f by (simp add: fetched_def)
  have eof: "bt = BT_EOF \<longleftrightarrow> tok_type t = TOKEN_EOF" using take_facts(3) [of ?le "tok_type t" ?m] take by simp
  show ?case
  proof (cases "bt = BT_RBRACKET \<and> ?le = BT_LBRACKET")
    case False
    let ?b1 = "b2\<lparr>br_yylloc := bridge_loc_of (br_last_pos b2), br_last_emitted := bt\<rparr>"
    have lex: "yylex b = (bt, ?b1)"
      using less(3) n False f by (auto simp: yylex_def Let_def fetched_def)
    have "yylex_stream b = handed ?bin bt t # (if bt = BT_EOF then [] else yylex_stream ?b1)"
      using f by (simp add: yylex_stream.simps [of b] lex handed_def fetched_def)
    moreover have "yylex_stream ?b1 = emit ?bin False bt (br_m10 b2) rest" if "bt \<noteq> BT_EOF"
      using less(1) [of l' ?b1] f that eof less(3) by (auto simp: fetched_def)
    moreover have "rest = [] \<longleftrightarrow> rest = []" ..
    ultimately show ?thesis
      using False emit_known [OF known take, of ?bin False rest] emit0 eof f by (auto simp: fetched_def)
  next
    case True
    then have ne: "tok_type t \<noteq> TOKEN_EOF" using eof by auto
    have l': "br_lexer b2 = Some l'" using f by (simp add: fetched_def)
    obtain nxt b3 where n2: "bridge_next_mapped b2 = (nxt, b3)" by fastforce
    obtain us2 t2 rest2 l2 where f2: "fetched b2 l' nxt b3 us2 t2 rest2 l2" using next_mapped_fetched [OF l' n2] by blast
    let ?m2 = "skip_unknown ?le (br_m10 b2) us2"
    have le2: "br_last_emitted b2 = ?le" using f by (simp add: fetched_def)
    have take2: "m10_take ?le (tok_type t2) ?m2 = (nxt, br_m10 b3)" using f2 le2 by (simp add: fetched_def)
    have rest: "rest = us2 @ t2 # rest2" using f f2 ne by (simp add: fetched_def)
    have known2: "known t2" and us2: "\<forall>u \<in> set us2. \<not> known u" using f2 by (simp_all add: fetched_def)
    have first: "filter known rest = t2 # filter known rest2" using rest known2 us2 by (simp add: filter_False)
    have sp: "slice_prefix t rest \<longleftrightarrow> br_last_line b3 = br_last_line b2 \<and> bridge_token_starts_type nxt"
      using take_facts(4) [of ?le "tok_type t2" ?m2] take2 f f2 by (simp add: slice_prefix_def first fetched_def)
    let ?out = "if slice_prefix t rest then BT_RBRACKET_SLICE else BT_RBRACKET"
    let ?b1 = "b3\<lparr>br_pending := Some (nxt, br_yylval b3, bridge_loc_of (br_last_pos b3)), br_yylloc := bridge_loc_of (br_last_pos b2),
        br_last_emitted := ?out\<rparr>"
    have lex: "yylex b = (?out, ?b1)"
      using less(3) n n2 True le2 sp by (auto simp: yylex_def Let_def)
    let ?b4 = "?b1\<lparr>br_pending := None, br_yylval := br_yylval b3, br_yylloc := bridge_loc_of (br_last_pos b3), br_last_emitted := nxt\<rparr>"
    have eof2: "nxt = BT_EOF \<longleftrightarrow> tok_type t2 = TOKEN_EOF" using take_facts(3) [of ?le "tok_type t2" ?m2] take2 by simp
    have "yylex_stream b = handed ?bin ?out t # yylex_stream ?b1"
      using f by (simp add: yylex_stream.simps [of b] lex handed_def fetched_def sem_value_def)
    also have "yylex_stream ?b1 = handed ?bin nxt t2 # (if nxt = BT_EOF then [] else yylex_stream ?b4)"
      using f f2 stream_pending [of ?b1 nxt "br_yylval b3" "bridge_loc_of (br_last_pos b3)"]
      by (simp add: handed_def fetched_def)
    also have "(if nxt = BT_EOF then [] else yylex_stream ?b4) = emit ?bin False nxt (br_m10 b3) rest2"
    proof (cases "nxt = BT_EOF")
      case True
      then show ?thesis using f2 eof2 by (simp add: fetched_def)
    next
      case False
      have "lx_left l2 < lx_left l" "br_lexer ?b4 = Some l2" using f f2 ne by (auto simp: fetched_def)
      then have "yylex_stream ?b4 = emit (br_binary ?b4) False (br_last_emitted ?b4) (br_m10 ?b4) (fst (lexer_tokens l2))"
        by (rule less(1)) simp
      moreover have "br_binary ?b4 = ?bin" "br_last_emitted ?b4 = nxt" "br_m10 ?b4 = br_m10 b3" "rest2 = fst (lexer_tokens l2)"
        using f f2 False eof2 by (simp_all add: fetched_def)
      ultimately show ?thesis using False by (simp only: if_False)
    qed
    finally have "yylex_stream b = handed ?bin ?out t # handed ?bin nxt t2 # emit ?bin False nxt (br_m10 b3) rest2" .
    moreover have "emit ?bin True ?le (br_m10 b2) rest = handed ?bin nxt t2 # emit ?bin False nxt (br_m10 b3) rest2"
      using emit_known [OF known2 take2, of ?bin True rest2] by (simp add: rest emit_unknown [OF us2] del: emit.simps)
    ultimately show ?thesis
      using True emit_known [OF known take, of ?bin False rest] emit0 by simp
  qed
qed

section \<open>Nothing is lost\<close>

lemma uncolour_handed [simp]: "apfst uncolour (handed binary bt t) = handed binary (uncolour bt) t"
  by (simp add: handed_def uncolour_def sem_value_def)

lemma emit_uncoloured:
  "map (apfst uncolour) (emit binary peeked le m ts) =
   map (\<lambda>t. handed binary (plain_token (tok_type t)) t) (filter known ts)"
proof (induction ts arbitrary: peeked le m)
  case (Cons t ts)
  obtain bt m1 where take: "m10_take le (tok_type t) m = (bt, m1)" by fastforce
  have plain: "uncolour bt = plain_token (tok_type t)" using take_plain [of le "tok_type t" m] take by simp
  show ?case
  proof (cases "known t")
    case True
    have "bt = BT_RBRACKET \<Longrightarrow> uncolour BT_RBRACKET_SLICE = plain_token (tok_type t)"
      using plain by (simp add: uncolour_def)
    then show ?thesis using Cons plain True by (auto simp: emit_known [OF True take] simp del: emit.simps)
  next
    case False
    then have "bt = -1" using take_facts(1) [of le "tok_type t" m] take by (simp add: known_def)
    then show ?thesis using Cons False take by simp
  qed
qed simp


section \<open>Control clauses\<close>

text \<open>
  A clause between its keyword and the \<open>{\<close> of its body: parentheses and brackets balance, braces,
  \<open>map\<close> and a type-position \<open>[\<close> are inside them, and no other clause starts. The arguments follow
  the bridge: the kind of the clause, the depth in the clause, the last token and the lookahead.
\<close>

definition clause_keyword :: "token_type \<Rightarrow> int option" where
  "clause_keyword ty =
     (if ty = TOKEN_FOR then Some M10_FRAME_KIND_FOR else if ty = TOKEN_IF then Some M10_FRAME_KIND_IF
      else if ty = TOKEN_SELECT then Some M10_FRAME_KIND_SELECT else if ty = TOKEN_SWITCH then Some M10_FRAME_KIND_SWITCH
      else if ty = TOKEN_MATCH then Some M10_FRAME_KIND_MATCH else None)"

definition clause_depth :: "int \<Rightarrow> nat \<Rightarrow> bison \<Rightarrow> token_type \<Rightarrow> nat option" where
  "clause_depth kind k le ty =
     (if clause_keyword ty \<noteq> None then None
      else if ty = TOKEN_MAP \<or> ty = TOKEN_LBRACE \<or> ty = TOKEN_RBRACE then (if k > 0 then Some k else None)
      else if ty = TOKEN_LPAREN then Some (k + 1)
      else if ty = TOKEN_LBRACKET then (if k > 0 \<or> bridge_prev_ends_operand le then Some (k + 1) else None)
      else if ty = TOKEN_RPAREN \<or> ty = TOKEN_RBRACKET then (if k > 0 then Some (k - 1) else None)
      else if ty = TOKEN_COLON then (if k > 0 \<or> kind \<noteq> M10_FRAME_KIND_IF then Some k else None)
      else Some k)"

fun clause :: "int \<Rightarrow> nat \<Rightarrow> bison \<Rightarrow> bool \<Rightarrow> token list \<Rightarrow> bool" where
  "clause kind k le peeked [] = (k = 0)"
| "clause kind k le peeked (t # ts) =
     (let bt = plain_token (tok_type t) in
      case clause_depth kind k le (tok_type t) of None \<Rightarrow> False
      | Some k' \<Rightarrow> if bt = -1 then clause kind k' le peeked ts
          else if \<not> peeked \<and> bt = BT_RBRACKET \<and> le = BT_LBRACKET then clause kind k' le True ts
          else clause kind k' bt False ts)"

lemma clause_step:
  assumes "m10_frames m = f # fs" "\<not> cf_literal_pending f" "m10_paren_depth m = cf_paren_depth f + k" "m10_lit_depth m = 0"
    and "clause_depth (cf_kind f) k le ty = Some k'"
  shows "m10_take le ty m = (plain_token ty, m\<lparr>m10_paren_depth := cf_paren_depth f + k'\<rparr>)"
proof -
  have here: "frame_here m = (if k = 0 then Some f else None)" using assms(1,3) by (simp add: frame_here_def)
  have plain: "plain_token ty = fst (map_token_to_bison le ty m)"
  proof (cases "ty = TOKEN_LBRACE")
    case True
    then have "k > 0" using assms(5) by (simp add: clause_depth_def clause_keyword_def split: if_splits)
    then show ?thesis using True here assms(4) by (simp add: plain_token_def map_token_fst map_lbrace_def)
  qed (simp add: map_token_fst)
  have depth: "m10_paren_depth m - 1 = cf_paren_depth f + (k - 1)" if "k > 0" using that assms(3) by simp
  note unfold = map_token_to_bison_def clause_depth_def clause_keyword_def
  consider "ty = TOKEN_MAP" | "ty = TOKEN_LBRACE" | "ty = TOKEN_RBRACE" | "ty = TOKEN_LPAREN" | "ty = TOKEN_RPAREN"
    | "ty = TOKEN_LBRACKET" | "ty = TOKEN_RBRACKET" | "ty = TOKEN_COLON"
    | (other) "ty \<notin> {TOKEN_MAP, TOKEN_LBRACE, TOKEN_RBRACE, TOKEN_LPAREN, TOKEN_RPAREN, TOKEN_LBRACKET, TOKEN_RBRACKET, TOKEN_COLON}"
    by blast
  then have "snd (map_token_to_bison le ty m) = m\<lparr>m10_paren_depth := cf_paren_depth f + k'\<rparr>"
  proof cases
    case other
    have "clause_keyword ty = None" "k' = k" using assms(5) other by (auto simp: clause_depth_def split: if_splits)
    then have "snd (map_token_to_bison le ty m) = m" using other
      by (auto simp: map_token_to_bison_def clause_keyword_def split: option.split if_splits)
    then show ?thesis using assms(3) \<open>k' = k\<close> by simp
  qed (use assms(3-5) here depth in \<open>simp add: unfold map_lbrace_def map_lbracket_def map_colon_def Let_def split: if_splits\<close>)+
  moreover have "clear_stale (m10_paren_depth m) bt (m\<lparr>m10_paren_depth := n\<rparr>) = m\<lparr>m10_paren_depth := n\<rparr>" for bt n
    using assms(1,2) by (simp add: clear_stale_def)
  ultimately show ?thesis using plain by (simp add: m10_take_def split_beta)
qed

lemma clause_body:
  assumes "m10_frames m = f # fs" "\<not> cf_literal_pending f" "m10_paren_depth m = cf_paren_depth f + k" "m10_lit_depth m = 0"
    and "clause (cf_kind f) k le peeked cs" "tok_type brace = TOKEN_LBRACE"
    and "\<forall>g gs. fs = g # gs \<longrightarrow> \<not> cf_literal_pending g"
  shows "\<exists>outs. emit binary peeked le m (cs @ brace # rest) =
      outs @ handed binary BT_LBRACE_BODY brace #
        emit binary False BT_LBRACE_BODY (m\<lparr>m10_frames := fs, m10_paren_depth := cf_paren_depth f\<rparr>) rest
    \<and> BT_LBRACE_BODY \<notin> fst ` set outs"
  using assms(1-5)
proof (induction cs arbitrary: m k le peeked)
  case Nil
  have "m10_take le (tok_type brace) m = (BT_LBRACE_BODY, m\<lparr>m10_frames := fs, m10_paren_depth := cf_paren_depth f\<rparr>)"
    using Nil assms(6,7)
    by (simp add: m10_take_def map_token_to_bison_def map_lbrace_def frame_here_def m10_pop_frame_def clear_stale_def
        bridge_token_continues_type_def split: list.split)
  then show ?case by (intro exI [of _ "[]"]) simp
next
  case (Cons c cs)
  obtain k' where k': "clause_depth (cf_kind f) k le (tok_type c) = Some k'" using Cons.prems(5) by (auto simp: Let_def split: option.splits)
  let ?bt = "plain_token (tok_type c)" and ?m1 = "m\<lparr>m10_paren_depth := cf_paren_depth f + k'\<rparr>"
  have take: "m10_take le (tok_type c) m = (?bt, ?m1)" using clause_step [OF Cons.prems(1-4) k'] .
  have m1: "m10_frames ?m1 = f # fs" "m10_paren_depth ?m1 = cf_paren_depth f + k'" "m10_lit_depth ?m1 = 0"
    "?m1\<lparr>m10_frames := fs, m10_paren_depth := cf_paren_depth f\<rparr> = m\<lparr>m10_frames := fs, m10_paren_depth := cf_paren_depth f\<rparr>"
    using Cons.prems by simp_all
  note IH = Cons.IH [OF m1(1) Cons.prems(2) m1(2,3), unfolded m1(4)]
  have ncol: "?bt \<noteq> BT_LBRACE_BODY" using plain_uncoloured by simp
  show ?case
  proof (cases "?bt = -1")
    case True
    then have "clause (cf_kind f) k' le peeked cs" using Cons.prems(5) k' by simp
    then show ?thesis using IH take True by simp
  next
    case known: False
    show ?thesis
    proof (cases "\<not> peeked \<and> ?bt = BT_RBRACKET \<and> le = BT_LBRACKET")
      case True
      then have "clause (cf_kind f) k' le True cs" using Cons.prems(5) k' known by simp
      then obtain outs where o: "emit binary True le ?m1 (cs @ brace # rest) = outs @ handed binary BT_LBRACE_BODY brace #
          emit binary False BT_LBRACE_BODY (m\<lparr>m10_frames := fs, m10_paren_depth := cf_paren_depth f\<rparr>) rest"
        "BT_LBRACE_BODY \<notin> fst ` set outs" using IH by blast
      let ?out = "handed binary (if slice_prefix c (cs @ brace # rest) then BT_RBRACKET_SLICE else BT_RBRACKET) c"
      show ?thesis using o take True known by (intro exI [of _ "?out # outs"]) (simp add: handed_def)
    next
      case False
      then have "clause (cf_kind f) k' ?bt False cs" using Cons.prems(5) k' known by (auto simp: Let_def)
      then obtain outs where o: "emit binary False ?bt ?m1 (cs @ brace # rest) = outs @ handed binary BT_LBRACE_BODY brace #
          emit binary False BT_LBRACE_BODY (m\<lparr>m10_frames := fs, m10_paren_depth := cf_paren_depth f\<rparr>) rest"
        "BT_LBRACE_BODY \<notin> fst ` set outs" using IH by blast
      have "emit binary peeked le m ((c # cs) @ brace # rest) = handed binary ?bt c # emit binary False ?bt ?m1 (cs @ brace # rest)"
        using take known False by auto
      then show ?thesis using o ncol by (intro exI [of _ "handed binary ?bt c # outs"]) (simp add: handed_def)
    qed
  qed
qed


section \<open>Examples\<close>

definition at_origin :: "token_type \<Rightarrow> token" where
  "at_origin ty = token_new ty None 0 \<lparr>pos_line = 1, pos_column = 1, pos_offset = 0, pos_filename = None\<rparr>"


text \<open>The literal of a range clause is not taken for the body: \<open>for _, v := range []int{1} {\<close>.\<close>

definition colours :: "token_type list \<Rightarrow> bison list" where
  "colours tys = map fst (emit False False 0 m10_clear (map at_origin tys))"

lemmas colour_eval = colours_def at_origin_def handed_def m10_take_def map_token_to_bison_def m10_push_frame_def M10_MAX_FRAMES_def
  map_lbracket_def map_lbrace_def map_colon_def frame_here_def set_pending_def m10_pop_frame_def clear_stale_def m10_clear_def
  bridge_prev_ends_operand_def bridge_token_continues_type_def bridge_token_starts_type_def slice_prefix_def known_def plain_token_def
  bison_table_def

lemma range_literal:
  "colours [TOKEN_FOR, TOKEN_IDENT, TOKEN_COMMA, TOKEN_IDENT, TOKEN_SHORT_ASSIGN, TOKEN_RANGE, TOKEN_LBRACKET, TOKEN_RBRACKET, TOKEN_IDENT,
      TOKEN_LBRACE, TOKEN_INT, TOKEN_RBRACE, TOKEN_LBRACE] =
    [BT_FOR, BT_IDENTIFIER, BT_COMMA, BT_IDENTIFIER, BT_SHORT_ASSIGN, BT_RANGE, BT_LBRACKET, BT_RBRACKET_SLICE, BT_IDENTIFIER,
      BT_LBRACE, BT_INT_LITERAL, BT_RBRACE, BT_LBRACE_BODY]"
  by (simp add: colour_eval)

text \<open>
  \<open>for _, v := range []struct{a int}{{1}} {\<close>: the \<open>{\<close> of the struct type uses up the pending literal, the
  \<open>{\<close> of the literal is taken for the body, and the body's own \<open>{\<close> is plain.
\<close>

lemma range_struct_literal:
  "colours [TOKEN_FOR, TOKEN_IDENT, TOKEN_COMMA, TOKEN_IDENT, TOKEN_SHORT_ASSIGN, TOKEN_RANGE, TOKEN_LBRACKET, TOKEN_RBRACKET, TOKEN_STRUCT,
      TOKEN_LBRACE, TOKEN_IDENT, TOKEN_IDENT, TOKEN_RBRACE, TOKEN_LBRACE, TOKEN_LBRACE, TOKEN_INT, TOKEN_RBRACE, TOKEN_RBRACE, TOKEN_LBRACE] =
    [BT_FOR, BT_IDENTIFIER, BT_COMMA, BT_IDENTIFIER, BT_SHORT_ASSIGN, BT_RANGE, BT_LBRACKET, BT_RBRACKET_SLICE, BT_STRUCT,
      BT_LBRACE, BT_IDENTIFIER, BT_IDENTIFIER, BT_RBRACE, BT_LBRACE_BODY, BT_LBRACE, BT_INT_LITERAL, BT_RBRACE, BT_RBRACE, BT_LBRACE]"
  by (simp add: colour_eval)

end
