(* ===== verification/Sync.thy ===== *)
theory Sync
  imports Prelude
begin

text \<open>
  Mutexes and wait groups, \<open>src/runtime/sync.c\<close>, behind the variables of a program that create them on
  first use, \<open>src/runtime/sync_shim.c\<close>. A goroutine keeps its worker thread until it yields, which
  compiled programs do not do, and a blocking call blocks that thread; the agents here are goroutines
  on their threads. A step of an agent is one access to memory that
  others can see or one call of the thread library, and a step relation interleaves the agents
  freely. A default mutex that is taken again by its owner, or released by another thread, has
  undefined behaviour (\<open>Misuse\<close>), and so has a counter that leaves the range of \<open>int\<close>. Allocation and
  the initialisation of a mutex are taken to succeed, and the address of a variable is not null.
\<close>

section \<open>Mutexes and wait groups\<close>

type_synonym gid = nat
type_synonym slot = nat
type_synonym handle = nat

text \<open>The owner is the state of the \<open>pthread_mutex_t\<close> inside.\<close>

record goo_mutex =
  mu_owner :: "gid option"
  mu_locked :: bool

record goo_waitgroup =
  wg_mutex :: goo_mutex
  wg_counter :: int

datatype sync_obj = MutexObj goo_mutex | WgObj goo_waitgroup

definition goo_mutex_new :: goo_mutex where
  "goo_mutex_new = \<lparr>mu_owner = None, mu_locked = False\<rparr>"

definition goo_waitgroup_new :: goo_waitgroup where
  "goo_waitgroup_new = \<lparr>wg_mutex = goo_mutex_new, wg_counter = 0\<rparr>"

fun obj_mutex :: "sync_obj \<Rightarrow> goo_mutex" where
  "obj_mutex (MutexObj m) = m"
| "obj_mutex (WgObj w) = wg_mutex w"

fun with_mutex :: "(goo_mutex \<Rightarrow> goo_mutex) \<Rightarrow> sync_obj \<Rightarrow> sync_obj" where
  "with_mutex f (MutexObj m) = MutexObj (f m)"
| "with_mutex f (WgObj w) = WgObj (w\<lparr>wg_mutex := f (wg_mutex w)\<rparr>)"

fun obj_counter :: "sync_obj \<Rightarrow> int" where
  "obj_counter (MutexObj m) = 0"
| "obj_counter (WgObj w) = wg_counter w"

fun with_counter :: "int \<Rightarrow> sync_obj \<Rightarrow> sync_obj" where
  "with_counter n (MutexObj m) = MutexObj m"
| "with_counter n (WgObj w) = WgObj (w\<lparr>wg_counter := n\<rparr>)"

section \<open>Operations and their stages\<close>

text \<open>The methods of \<open>sync.Mutex\<close> and \<open>sync.WaitGroup\<close> on a variable.\<close>

datatype sop =
    MLock slot
  | MUnlock slot
  | WAdd slot "64 word"
  | WDone slot
  | WWait slot

fun slot_of :: "sop \<Rightarrow> slot" where
  "slot_of (MLock s) = s"
| "slot_of (MUnlock s) = s"
| "slot_of (WAdd s d) = s"
| "slot_of (WDone s) = s"
| "slot_of (WWait s) = s"

fun on_mutex :: "sop \<Rightarrow> bool" where
  "on_mutex (MLock s) = True"
| "on_mutex (MUnlock s) = True"
| "on_mutex _ = False"

text \<open>\<open>Add\<close> takes the 64-bit integers of the language and narrows them to the \<open>int\<close> of C.\<close>

fun delta_of :: "sop \<Rightarrow> int" where
  "delta_of (WAdd s d) = sint (ucast d :: 32 word)"
| "delta_of (WDone s) = -1"
| "delta_of _ = 0"

text \<open>
  \<open>Load\<close> to \<open>InitUnlock\<close> are the stages of \<open>sync_mutex_ensure\<close> and \<open>sync_wg_ensure\<close>, the others those
  of the operation on the object found.
\<close>

datatype pc =
    Load | InitLock | Recheck | New | Store handle | InitUnlock handle
  | Acquire handle | SetLocked handle
  | CheckLocked handle
  | AddCounter handle
  | TestCounter handle | Asleep handle | Woken handle
  | ClearLocked handle | Release handle

datatype goroutine = Idle | At sop pc

datatype outcome = Running | Panic string | Misuse | Overflow

text \<open>The log is no state of the program: it records what happened, the latest event first.\<close>

datatype event =
    Locking gid slot
  | Locked gid slot
  | Unlocking gid slot
  | Added slot int
  | Passed gid slot

record sync =
  sy_init_lock :: "gid option"
  sy_slots :: "slot \<Rightarrow> handle option"
  sy_objs :: "handle \<Rightarrow> sync_obj"
  sy_next :: handle
  sy_threads :: "gid \<Rightarrow> goroutine"
  sy_outcome :: outcome
  sy_log :: "event list"

definition sync_init :: sync where
  "sync_init = \<lparr>sy_init_lock = None, sy_slots = (\<lambda>s. None), sy_objs = (\<lambda>h. MutexObj goo_mutex_new), sy_next = 0,
     sy_threads = (\<lambda>g. Idle), sy_outcome = Running, sy_log = []\<rparr>"

definition goto_pc :: "gid \<Rightarrow> sop \<Rightarrow> pc \<Rightarrow> sync \<Rightarrow> sync" where
  "goto_pc g op pc st = st\<lparr>sy_threads := (sy_threads st)(g := At op pc)\<rparr>"

definition leave :: "gid \<Rightarrow> sync \<Rightarrow> sync" where
  "leave g st = st\<lparr>sy_threads := (sy_threads st)(g := Idle)\<rparr>"

definition logged :: "event \<Rightarrow> sync \<Rightarrow> sync" where
  "logged e st = st\<lparr>sy_log := e # sy_log st\<rparr>"

definition upd_obj :: "handle \<Rightarrow> (sync_obj \<Rightarrow> sync_obj) \<Rightarrow> sync \<Rightarrow> sync" where
  "upd_obj h f st = st\<lparr>sy_objs := (sy_objs st)(h := f (sy_objs st h))\<rparr>"

definition owner_at :: "sync \<Rightarrow> handle \<Rightarrow> gid option" where
  "owner_at st h = mu_owner (obj_mutex (sy_objs st h))"

definition locked_at :: "sync \<Rightarrow> handle \<Rightarrow> bool" where
  "locked_at st h = mu_locked (obj_mutex (sy_objs st h))"

definition counter_at :: "sync \<Rightarrow> handle \<Rightarrow> int" where
  "counter_at st h = obj_counter (sy_objs st h)"

definition set_owner :: "handle \<Rightarrow> gid option \<Rightarrow> sync \<Rightarrow> sync" where
  "set_owner h v = upd_obj h (with_mutex (\<lambda>m. m\<lparr>mu_owner := v\<rparr>))"

definition set_locked :: "handle \<Rightarrow> bool \<Rightarrow> sync \<Rightarrow> sync" where
  "set_locked h v = upd_obj h (with_mutex (\<lambda>m. m\<lparr>mu_locked := v\<rparr>))"

text \<open>\<open>pthread_cond_broadcast\<close> wakes every goroutine that sleeps on the condition.\<close>

definition broadcast :: "handle \<Rightarrow> sync \<Rightarrow> sync" where
  "broadcast h st = st\<lparr>sy_threads := (\<lambda>g. case sy_threads st g of
     At op (Asleep h') \<Rightarrow> if h' = h then At op (Woken h) else At op (Asleep h') | t \<Rightarrow> t)\<rparr>"

definition new_obj :: "sop \<Rightarrow> sync_obj" where
  "new_obj op = (if on_mutex op then MutexObj goo_mutex_new else WgObj goo_waitgroup_new)"

fun enter :: "sop \<Rightarrow> handle \<Rightarrow> pc" where
  "enter (MUnlock s) h = CheckLocked h"
| "enter _ h = Acquire h"

section \<open>Steps\<close>

fun sync_ensure :: "gid \<Rightarrow> sop \<Rightarrow> pc \<Rightarrow> sync \<Rightarrow> sync option" where
  "sync_ensure g op Load st = (case sy_slots st (slot_of op) of
     Some h \<Rightarrow> Some (goto_pc g op (enter op h) st) | None \<Rightarrow> Some (goto_pc g op InitLock st))"
| "sync_ensure g op InitLock st =
     (if sy_init_lock st = None then Some (goto_pc g op Recheck (st\<lparr>sy_init_lock := Some g\<rparr>)) else None)"
| "sync_ensure g op Recheck st = (case sy_slots st (slot_of op) of
     Some h \<Rightarrow> Some (goto_pc g op (InitUnlock h) st) | None \<Rightarrow> Some (goto_pc g op New st))"
| "sync_ensure g op New st = Some (goto_pc g op (Store (sy_next st))
     (upd_obj (sy_next st) (\<lambda>_. new_obj op) (st\<lparr>sy_next := sy_next st + 1\<rparr>)))"
| "sync_ensure g op (Store h) st = Some (goto_pc g op (InitUnlock h) (st\<lparr>sy_slots := (sy_slots st)(slot_of op \<mapsto> h)\<rparr>))"
| "sync_ensure g op (InitUnlock h) st = Some (goto_pc g op (enter op h) (st\<lparr>sy_init_lock := None\<rparr>))"
| "sync_ensure g op _ st = None"

text \<open>What follows \<open>goo_mutex_lock\<close> in each operation.\<close>

fun locked_next :: "gid \<Rightarrow> sop \<Rightarrow> handle \<Rightarrow> sync \<Rightarrow> sync" where
  "locked_next g (MLock s) h st = leave g (logged (Locked g s) st)"
| "locked_next g (MUnlock s) h st = leave g st"
| "locked_next g (WAdd s d) h st = goto_pc g (WAdd s d) (AddCounter h) st"
| "locked_next g (WDone s) h st = goto_pc g (WDone s) (AddCounter h) st"
| "locked_next g (WWait s) h st = goto_pc g (WWait s) (TestCounter h) st"

definition goo_waitgroup_add :: "gid \<Rightarrow> sop \<Rightarrow> handle \<Rightarrow> sync \<Rightarrow> sync" where
  "goo_waitgroup_add g op h st =
     (let n = counter_at st h + delta_of op;
          st1 = logged (Added (slot_of op) (delta_of op)) (upd_obj h (with_counter n) st)
      in if n < - (2 ^ 31) \<or> n \<ge> 2 ^ 31 then st\<lparr>sy_outcome := Overflow\<rparr>
         else if n < 0 then st1\<lparr>sy_outcome := Panic ''sync: negative WaitGroup counter''\<rparr>
         else goto_pc g op (ClearLocked h) (if n = 0 then broadcast h st1 else st1))"

definition goo_waitgroup_wait :: "gid \<Rightarrow> sop \<Rightarrow> handle \<Rightarrow> sync \<Rightarrow> sync" where
  "goo_waitgroup_wait g op h st =
     (if counter_at st h > 0 then goto_pc g op (Asleep h) (set_owner h None st)
      else goto_pc g op (ClearLocked h) (logged (Passed g (slot_of op)) st))"

fun op_step :: "gid \<Rightarrow> sop \<Rightarrow> pc \<Rightarrow> sync \<Rightarrow> sync option" where
  "op_step g op (Acquire h) st = (case owner_at st h of
     None \<Rightarrow> Some (goto_pc g op (SetLocked h) (set_owner h (Some g) st))
   | Some g' \<Rightarrow> if g' = g then Some (st\<lparr>sy_outcome := Misuse\<rparr>) else None)"
| "op_step g op (SetLocked h) st = Some (locked_next g op h (set_locked h True st))"
| "op_step g op (CheckLocked h) st =
     (if locked_at st h then Some (goto_pc g op (ClearLocked h) st)
      else Some (st\<lparr>sy_outcome := Panic ''sync: unlock of unlocked mutex''\<rparr>))"
| "op_step g op (AddCounter h) st = Some (goo_waitgroup_add g op h st)"
| "op_step g op (TestCounter h) st = Some (goo_waitgroup_wait g op h st)"
| "op_step g op (Asleep h) st = None"
| "op_step g op (Woken h) st = (if owner_at st h = None then Some (goto_pc g op (TestCounter h) (set_owner h (Some g) st)) else None)"
| "op_step g op (ClearLocked h) st = Some (goto_pc g op (Release h) (set_locked h False st))"
| "op_step g op (Release h) st =
     (if owner_at st h = Some g then Some (leave g (set_owner h None st)) else Some (st\<lparr>sy_outcome := Misuse\<rparr>))"
| "op_step g op pc st = sync_ensure g op pc st"

text \<open>\<open>None\<close>: the goroutine has nothing to do or has to wait.\<close>

definition sync_step :: "gid \<Rightarrow> sync \<Rightarrow> sync option" where
  "sync_step g st = (if sy_outcome st \<noteq> Running then None else
     (case sy_threads st g of Idle \<Rightarrow> None | At op pc \<Rightarrow> op_step g op pc st))"

fun call_event :: "gid \<Rightarrow> sop \<Rightarrow> sync \<Rightarrow> sync" where
  "call_event g (MLock s) st = logged (Locking g s) st"
| "call_event g (MUnlock s) st = logged (Unlocking g s) st"
| "call_event g op st = st"

definition sync_call :: "gid \<Rightarrow> sop \<Rightarrow> sync \<Rightarrow> sync" where
  "sync_call g op st = goto_pc g op Load (call_event g op st)"

text \<open>
  The runs: any goroutine may call any operation, on a variable of the right type, or make a step.
  A sleeping goroutine may also wake up for no reason.
\<close>

inductive reach :: "(slot \<Rightarrow> bool) \<Rightarrow> sync \<Rightarrow> bool" for mutex_slot where
  start: "reach mutex_slot sync_init"
| call: "reach mutex_slot st \<Longrightarrow> sy_outcome st = Running \<Longrightarrow> sy_threads st g = Idle \<Longrightarrow> on_mutex op = mutex_slot (slot_of op)
    \<Longrightarrow> reach mutex_slot (sync_call g op st)"
| move: "reach mutex_slot st \<Longrightarrow> sync_step g st = Some st' \<Longrightarrow> reach mutex_slot st'"
| wake: "reach mutex_slot st \<Longrightarrow> sy_outcome st = Running \<Longrightarrow> sy_threads st g = At op (Asleep h)
    \<Longrightarrow> reach mutex_slot (goto_pc g op (Woken h) st)"

end
