(* ===== verification/Sync_Inv.thy ===== *)
theory Sync_Inv
  imports Sync
begin

text \<open>
  The invariant behind the runs of mutexes and wait groups: who has the lock of the first use, which
  object a variable has, who owns a mutex, and what a counter and a sleeping goroutine stand for.
\<close>

section \<open>Reading a state\<close>

lemma obj_simps [simp]:
  "obj_mutex (with_mutex f x) = f (obj_mutex x)" "obj_counter (with_mutex f x) = obj_counter x"
  "obj_mutex (with_counter n x) = obj_mutex x"
  by (cases x; simp)+

definition wg_at :: "sync \<Rightarrow> handle \<Rightarrow> bool" where
  "wg_at st h = (case sy_objs st h of MutexObj m \<Rightarrow> False | WgObj w \<Rightarrow> True)"

lemma with_obj_kind [simp]:
  "(case with_mutex f x of MutexObj m \<Rightarrow> False | WgObj w \<Rightarrow> True) = (case x of MutexObj m \<Rightarrow> False | WgObj w \<Rightarrow> True)"
  "(case with_counter n x of MutexObj m \<Rightarrow> False | WgObj w \<Rightarrow> True) = (case x of MutexObj m \<Rightarrow> False | WgObj w \<Rightarrow> True)"
  by (cases x; simp)+

lemma counter_with_counter [simp]:
  "obj_counter (with_counter n x) = (case x of MutexObj m \<Rightarrow> 0 | WgObj w \<Rightarrow> n)"
  by (cases x) simp_all

lemmas reads = owner_at_def locked_at_def counter_at_def wg_at_def
lemmas writes = goto_pc_def leave_def logged_def upd_obj_def set_owner_def set_locked_def broadcast_def

lemma goto_reads [simp]:
  "sy_init_lock (goto_pc g op pc st) = sy_init_lock st" "sy_slots (goto_pc g op pc st) = sy_slots st"
  "sy_next (goto_pc g op pc st) = sy_next st" "sy_outcome (goto_pc g op pc st) = sy_outcome st" "sy_log (goto_pc g op pc st) = sy_log st"
  "sy_objs (goto_pc g op pc st) = sy_objs st" "sy_threads (goto_pc g op pc st) = (sy_threads st)(g := At op pc)"
  by (simp_all add: writes)

lemma leave_reads [simp]:
  "sy_init_lock (leave g st) = sy_init_lock st" "sy_slots (leave g st) = sy_slots st"
  "sy_next (leave g st) = sy_next st" "sy_outcome (leave g st) = sy_outcome st" "sy_log (leave g st) = sy_log st"
  "sy_objs (leave g st) = sy_objs st" "sy_threads (leave g st) = (sy_threads st)(g := Idle)"
  by (simp_all add: writes)

lemma logged_reads [simp]:
  "sy_init_lock (logged e st) = sy_init_lock st" "sy_slots (logged e st) = sy_slots st"
  "sy_next (logged e st) = sy_next st" "sy_outcome (logged e st) = sy_outcome st" "sy_log (logged e st) = e # sy_log st"
  "sy_objs (logged e st) = sy_objs st" "sy_threads (logged e st) = sy_threads st"
  by (simp_all add: writes)

lemma upd_obj_reads [simp]:
  "sy_init_lock (upd_obj h f st) = sy_init_lock st" "sy_slots (upd_obj h f st) = sy_slots st"
  "sy_next (upd_obj h f st) = sy_next st" "sy_outcome (upd_obj h f st) = sy_outcome st" "sy_log (upd_obj h f st) = sy_log st"
  "sy_objs (upd_obj h f st) = (sy_objs st)(h := f (sy_objs st h))" "sy_threads (upd_obj h f st) = sy_threads st"
  by (simp_all add: writes)

lemma broadcast_reads [simp]:
  "sy_init_lock (broadcast h st) = sy_init_lock st" "sy_slots (broadcast h st) = sy_slots st"
  "sy_next (broadcast h st) = sy_next st" "sy_outcome (broadcast h st) = sy_outcome st" "sy_log (broadcast h st) = sy_log st"
  "sy_objs (broadcast h st) = sy_objs st"
  by (simp_all add: writes)

lemma set_owner_reads [simp]:
  "sy_init_lock (set_owner h v st) = sy_init_lock st" "sy_slots (set_owner h v st) = sy_slots st"
  "sy_next (set_owner h v st) = sy_next st" "sy_outcome (set_owner h v st) = sy_outcome st" "sy_log (set_owner h v st) = sy_log st"
  "sy_threads (set_owner h v st) = sy_threads st"
  "owner_at (set_owner h v st) h' = (if h' = h then v else owner_at st h')" "locked_at (set_owner h v st) h' = locked_at st h'"
  "counter_at (set_owner h v st) h' = counter_at st h'" "wg_at (set_owner h v st) h' = wg_at st h'"
  by (simp_all add: set_owner_def reads)

lemma set_locked_reads [simp]:
  "sy_init_lock (set_locked h v st) = sy_init_lock st" "sy_slots (set_locked h v st) = sy_slots st"
  "sy_next (set_locked h v st) = sy_next st" "sy_outcome (set_locked h v st) = sy_outcome st" "sy_log (set_locked h v st) = sy_log st"
  "sy_threads (set_locked h v st) = sy_threads st"
  "owner_at (set_locked h v st) h' = owner_at st h'" "locked_at (set_locked h v st) h' = (if h' = h then v else locked_at st h')"
  "counter_at (set_locked h v st) h' = counter_at st h'" "wg_at (set_locked h v st) h' = wg_at st h'"
  by (simp_all add: set_locked_def reads)

lemma obj_reads_frame [simp]:
  "owner_at (goto_pc g op pc st) = owner_at st" "owner_at (leave g st) = owner_at st" "owner_at (logged e st) = owner_at st"
  "owner_at (broadcast h st) = owner_at st"
  "locked_at (goto_pc g op pc st) = locked_at st" "locked_at (leave g st) = locked_at st" "locked_at (logged e st) = locked_at st"
  "locked_at (broadcast h st) = locked_at st"
  "counter_at (goto_pc g op pc st) = counter_at st" "counter_at (leave g st) = counter_at st" "counter_at (logged e st) = counter_at st"
  "counter_at (broadcast h st) = counter_at st"
  "wg_at (goto_pc g op pc st) = wg_at st" "wg_at (leave g st) = wg_at st" "wg_at (logged e st) = wg_at st"
  "wg_at (broadcast h st) = wg_at st"
  by (auto simp: reads fun_eq_iff)

lemma add_reads [simp]:
  "owner_at (upd_obj h (with_counter n) st) h' = owner_at st h'" "locked_at (upd_obj h (with_counter n) st) h' = locked_at st h'"
  "counter_at (upd_obj h (with_counter n) st) h' = (if h' = h \<and> wg_at st h then n else counter_at st h')"
  "wg_at (upd_obj h (with_counter n) st) h' = wg_at st h'"
  by (cases "sy_objs st h"; simp add: reads)+

lemma new_reads [simp]:
  "owner_at (upd_obj h (\<lambda>_. new_obj op) st) h' = (if h' = h then None else owner_at st h')"
  "locked_at (upd_obj h (\<lambda>_. new_obj op) st) h' = (if h' = h then False else locked_at st h')"
  "counter_at (upd_obj h (\<lambda>_. new_obj op) st) h' = (if h' = h then 0 else counter_at st h')"
  "wg_at (upd_obj h (\<lambda>_. new_obj op) st) h' = (if h' = h then \<not> on_mutex op else wg_at st h')"
  by (simp_all add: reads new_obj_def goo_mutex_new_def goo_waitgroup_new_def)

lemma field_reads [simp]:
  "owner_at (st\<lparr>sy_init_lock := v\<rparr>) = owner_at st" "owner_at (st\<lparr>sy_slots := v2\<rparr>) = owner_at st" "owner_at (st\<lparr>sy_next := v3\<rparr>) = owner_at st"
  "owner_at (st\<lparr>sy_outcome := v4\<rparr>) = owner_at st"
  "locked_at (st\<lparr>sy_init_lock := v\<rparr>) = locked_at st" "locked_at (st\<lparr>sy_slots := v2\<rparr>) = locked_at st" "locked_at (st\<lparr>sy_next := v3\<rparr>) = locked_at st"
  "locked_at (st\<lparr>sy_outcome := v4\<rparr>) = locked_at st"
  "counter_at (st\<lparr>sy_init_lock := v\<rparr>) = counter_at st" "counter_at (st\<lparr>sy_slots := v2\<rparr>) = counter_at st" "counter_at (st\<lparr>sy_next := v3\<rparr>) = counter_at st"
  "counter_at (st\<lparr>sy_outcome := v4\<rparr>) = counter_at st"
  "wg_at (st\<lparr>sy_init_lock := v\<rparr>) = wg_at st" "wg_at (st\<lparr>sy_slots := v2\<rparr>) = wg_at st" "wg_at (st\<lparr>sy_next := v3\<rparr>) = wg_at st"
  "wg_at (st\<lparr>sy_outcome := v4\<rparr>) = wg_at st"
  by (auto simp: reads fun_eq_iff)

lemma broadcast_threads:
  "sy_threads (broadcast h st) g = (case sy_threads st g of
     At op (Asleep h') \<Rightarrow> if h' = h then At op (Woken h) else At op (Asleep h') | t \<Rightarrow> t)"
  by (simp add: writes)

lemma broadcast_At:
  "sy_threads (broadcast h st) g = At op pc \<longleftrightarrow>
     (if pc = Woken h then sy_threads st g = At op (Woken h) \<or> sy_threads st g = At op (Asleep h)
      else sy_threads st g = At op pc \<and> pc \<noteq> Asleep h)"
  by (auto simp: broadcast_threads split: goroutine.splits pc.splits)

lemma broadcast_Idle [simp]: "sy_threads (broadcast h st) g = Idle \<longleftrightarrow> sy_threads st g = Idle"
  by (auto simp: broadcast_threads split: goroutine.splits pc.splits if_splits)

section \<open>Reading the log\<close>

fun holds :: "event list \<Rightarrow> gid \<Rightarrow> slot \<Rightarrow> bool" where
  "holds [] g s = False"
| "holds (e # l) g s = (e = Locked g s \<or> e \<noteq> Unlocking g s \<and> holds l g s)"

fun adds :: "event list \<Rightarrow> slot \<Rightarrow> int" where
  "adds [] s = 0"
| "adds (e # l) s = (case e of Added s' d \<Rightarrow> if s' = s then d else 0 | _ \<Rightarrow> 0) + adds l s"

fun disciplined :: "event list \<Rightarrow> bool" where
  "disciplined [] = True"
| "disciplined (e # l) = ((case e of Locking g s \<Rightarrow> \<not> holds l g s | Unlocking g s \<Rightarrow> holds l g s | _ \<Rightarrow> True) \<and> disciplined l)"

fun passes_ok :: "event list \<Rightarrow> bool" where
  "passes_ok [] = True"
| "passes_ok (e # l) = ((case e of Passed g s \<Rightarrow> adds l s = 0 | _ \<Rightarrow> True) \<and> passes_ok l)"

section \<open>The invariant\<close>

fun in_init :: "pc \<Rightarrow> bool" where
  "in_init Recheck = True"
| "in_init New = True"
| "in_init (Store h) = True"
| "in_init (InitUnlock h) = True"
| "in_init _ = False"

text \<open>The object a goroutine found, and the one whose mutex it has taken in the operation it runs.\<close>

fun found :: "pc \<Rightarrow> handle option" where
  "found (InitUnlock h) = Some h"
| "found (Acquire h) = Some h"
| "found (SetLocked h) = Some h"
| "found (CheckLocked h) = Some h"
| "found (AddCounter h) = Some h"
| "found (TestCounter h) = Some h"
| "found (Asleep h) = Some h"
| "found (Woken h) = Some h"
| "found (ClearLocked h) = Some h"
| "found (Release h) = Some h"
| "found _ = None"

fun is_unlock :: "sop \<Rightarrow> bool" where
  "is_unlock (MUnlock s) = True"
| "is_unlock _ = False"

fun is_lock :: "sop \<Rightarrow> bool" where
  "is_lock (MLock s) = True"
| "is_lock _ = False"

fun is_wait :: "sop \<Rightarrow> bool" where
  "is_wait (WWait s) = True"
| "is_wait _ = False"

fun owns :: "sop \<Rightarrow> pc \<Rightarrow> bool" where
  "owns op (SetLocked h) = True"
| "owns op (AddCounter h) = True"
| "owns op (TestCounter h) = True"
| "owns op (ClearLocked h) = (\<not> is_unlock op)"
| "owns op (Release h) = (\<not> is_unlock op)"
| "owns op _ = False"

fun stage_ok :: "sop \<Rightarrow> pc \<Rightarrow> bool" where
  "stage_ok op (CheckLocked h) = is_unlock op"
| "stage_ok op (Acquire h) = (\<not> is_unlock op)"
| "stage_ok op (SetLocked h) = (\<not> is_unlock op)"
| "stage_ok op (AddCounter h) = (\<not> on_mutex op \<and> \<not> is_wait op)"
| "stage_ok op (TestCounter h) = is_wait op"
| "stage_ok op (Asleep h) = is_wait op"
| "stage_ok op (Woken h) = is_wait op"
| "stage_ok op (ClearLocked h) = (\<not> is_lock op)"
| "stage_ok op (Release h) = (\<not> is_lock op)"
| "stage_ok op _ = True"

definition threads_inv :: "(slot \<Rightarrow> bool) \<Rightarrow> sync \<Rightarrow> bool" where
  "threads_inv mutex_slot st \<longleftrightarrow> (\<forall>g op pc. sy_threads st g = At op pc \<longrightarrow>
     on_mutex op = mutex_slot (slot_of op) \<and> stage_ok op pc)"

fun busy :: "goroutine \<Rightarrow> bool" where
  "busy Idle = False"
| "busy (At op pc) = in_init pc"

definition init_inv :: "sync \<Rightarrow> bool" where
  "init_inv st \<longleftrightarrow> (\<forall>g. sy_init_lock st = Some g \<longleftrightarrow> busy (sy_threads st g))"

definition handles_inv :: "(slot \<Rightarrow> bool) \<Rightarrow> sync \<Rightarrow> bool" where
  "handles_inv mutex_slot st \<longleftrightarrow>
     (\<forall>s h. sy_slots st s = Some h \<longrightarrow> h < sy_next st \<and> wg_at st h = (\<not> mutex_slot s) \<and> (\<forall>s'. sy_slots st s' = Some h \<longrightarrow> s' = s))"

definition found_inv :: "sync \<Rightarrow> bool" where
  "found_inv st \<longleftrightarrow> (\<forall>g op pc h. sy_threads st g = At op pc \<longrightarrow> found pc = Some h \<longrightarrow> sy_slots st (slot_of op) = Some h)"

definition fresh_inv :: "sync \<Rightarrow> bool" where
  "fresh_inv st \<longleftrightarrow>
     (\<forall>g op. sy_threads st g = At op New \<longrightarrow> sy_slots st (slot_of op) = None)
   \<and> (\<forall>g op h. sy_threads st g = At op (Store h) \<longrightarrow> sy_slots st (slot_of op) = None \<and> h < sy_next st
        \<and> (\<forall>s. sy_slots st s \<noteq> Some h) \<and> owner_at st h = None \<and> counter_at st h = 0 \<and> wg_at st h = (\<not> on_mutex op))"

fun mine :: "goroutine \<Rightarrow> handle option" where
  "mine Idle = None"
| "mine (At op pc) = (if owns op pc then found pc else None)"

fun unlocking :: "goroutine \<Rightarrow> slot \<Rightarrow> bool" where
  "unlocking Idle s = False"
| "unlocking (At op pc) s = (op = MUnlock s)"

definition owns_inv :: "sync \<Rightarrow> bool" where
  "owns_inv st \<longleftrightarrow> (\<forall>g h. mine (sy_threads st g) = Some h \<longrightarrow> owner_at st h = Some g)"

definition holds_inv :: "(slot \<Rightarrow> bool) \<Rightarrow> sync \<Rightarrow> bool" where
  "holds_inv mutex_slot st \<longleftrightarrow> (\<forall>g s. holds (sy_log st) g s \<longrightarrow>
     mutex_slot s \<and> \<not> unlocking (sy_threads st g) s \<and> (\<exists>h. sy_slots st s = Some h \<and> owner_at st h = Some g))"

definition owned_inv :: "sync \<Rightarrow> bool" where
  "owned_inv st \<longleftrightarrow> (\<forall>g s h. sy_slots st s = Some h \<longrightarrow> owner_at st h = Some g \<longrightarrow>
     holds (sy_log st) g s \<or> mine (sy_threads st g) = Some h \<or> unlocking (sy_threads st g) s)"

definition counter_inv :: "sync \<Rightarrow> bool" where
  "counter_inv st \<longleftrightarrow>
     (\<forall>s. adds (sy_log st) s = (case sy_slots st s of None \<Rightarrow> 0 | Some h \<Rightarrow> counter_at st h)) \<and> (\<forall>s. adds (sy_log st) s \<ge> 0)
   \<and> passes_ok (sy_log st)"

definition asleep_inv :: "sync \<Rightarrow> bool" where
  "asleep_inv st \<longleftrightarrow> (\<forall>g op h. sy_threads st g = At op (Asleep h) \<longrightarrow> counter_at st h > 0)"

lemma op_cases [simp]:
  "is_wait op \<Longrightarrow> \<not> is_unlock op" "is_wait op \<Longrightarrow> \<not> is_lock op" "is_wait op \<Longrightarrow> \<not> on_mutex op"
  "is_unlock op \<Longrightarrow> \<not> is_lock op" "\<not> on_mutex op \<Longrightarrow> \<not> is_unlock op" "\<not> on_mutex op \<Longrightarrow> \<not> is_lock op"
  by (cases op; simp)+

lemma enter_stage [simp]:
  "stage_ok op (enter op h)" "found (enter op h) = Some h" "\<not> in_init (enter op h)" "\<not> owns op (enter op h)"
  "enter op h \<noteq> New" "enter op h \<noteq> Store h'" "enter op h \<noteq> Asleep h'"
  by (cases op; simp)+

lemma op_step_cases [consumes 1, case_names load_found load_missing init_lock recheck_found recheck_missing new store init_unlock
    acquire relock set_locked_mutex set_locked_unlock set_locked_add set_locked_wait check_locked check_panic add_overflow add_panic add_zero add_more
    test_sleep test_pass woken clear release misuse]:
  assumes "op_step g op pc st = Some st'"
  obtains
    h where "pc = Load" "sy_slots st (slot_of op) = Some h" "st' = goto_pc g op (enter op h) st"
  | "pc = Load" "sy_slots st (slot_of op) = None" "st' = goto_pc g op InitLock st"
  | "pc = InitLock" "sy_init_lock st = None" "st' = goto_pc g op Recheck (st\<lparr>sy_init_lock := Some g\<rparr>)"
  | h where "pc = Recheck" "sy_slots st (slot_of op) = Some h" "st' = goto_pc g op (InitUnlock h) st"
  | "pc = Recheck" "sy_slots st (slot_of op) = None" "st' = goto_pc g op New st"
  | "pc = New" "st' = goto_pc g op (Store (sy_next st)) (upd_obj (sy_next st) (\<lambda>_. new_obj op) (st\<lparr>sy_next := sy_next st + 1\<rparr>))"
  | h where "pc = Store h" "st' = goto_pc g op (InitUnlock h) (st\<lparr>sy_slots := (sy_slots st)(slot_of op \<mapsto> h)\<rparr>)"
  | h where "pc = InitUnlock h" "st' = goto_pc g op (enter op h) (st\<lparr>sy_init_lock := None\<rparr>)"
  | h where "pc = Acquire h" "owner_at st h = None" "st' = goto_pc g op (SetLocked h) (set_owner h (Some g) st)"
  | h where "pc = Acquire h" "owner_at st h = Some g" "st' = st\<lparr>sy_outcome := Misuse\<rparr>"
  | h s where "pc = SetLocked h" "op = MLock s" "st' = leave g (logged (Locked g s) (set_locked h True st))"
  | h where "pc = SetLocked h" "is_unlock op" "st' = leave g (set_locked h True st)"
  | h where "pc = SetLocked h" "\<not> on_mutex op" "\<not> is_wait op" "st' = goto_pc g op (AddCounter h) (set_locked h True st)"
  | h where "pc = SetLocked h" "is_wait op" "st' = goto_pc g op (TestCounter h) (set_locked h True st)"
  | h where "pc = CheckLocked h" "locked_at st h" "st' = goto_pc g op (ClearLocked h) st"
  | h where "pc = CheckLocked h" "\<not> locked_at st h" "st' = st\<lparr>sy_outcome := Panic ''sync: unlock of unlocked mutex''\<rparr>"
  | h where "pc = AddCounter h" "st' = st\<lparr>sy_outcome := Overflow\<rparr>"
  | h where "pc = AddCounter h" "sy_outcome st' = Panic ''sync: negative WaitGroup counter''"
  | h where "pc = AddCounter h" "counter_at st h + delta_of op = 0"
      "st' = goto_pc g op (ClearLocked h) (broadcast h (logged (Added (slot_of op) (delta_of op)) (upd_obj h (with_counter 0) st)))"
  | h where "pc = AddCounter h" "counter_at st h + delta_of op > 0"
      "st' = goto_pc g op (ClearLocked h) (logged (Added (slot_of op) (delta_of op)) (upd_obj h (with_counter (counter_at st h + delta_of op)) st))"
  | h where "pc = TestCounter h" "counter_at st h > 0" "st' = goto_pc g op (Asleep h) (set_owner h None st)"
  | h where "pc = TestCounter h" "counter_at st h \<le> 0" "st' = goto_pc g op (ClearLocked h) (logged (Passed g (slot_of op)) st)"
  | h where "pc = Woken h" "owner_at st h = None" "st' = goto_pc g op (TestCounter h) (set_owner h (Some g) st)"
  | h where "pc = ClearLocked h" "st' = goto_pc g op (Release h) (set_locked h False st)"
  | h where "pc = Release h" "owner_at st h = Some g" "st' = leave g (set_owner h None st)"
  | h where "pc = Release h" "owner_at st h \<noteq> Some g" "st' = st\<lparr>sy_outcome := Misuse\<rparr>"
proof (cases pc)
  case (SetLocked h)
  then have "st' = locked_next g op h (set_locked h True st)" using assms by simp
  then show ?thesis using SetLocked by (cases op) (auto intro: that(11-14))
next
  case (AddCounter h)
  then have "st' = goo_waitgroup_add g op h st" using assms by simp
  then show ?thesis using AddCounter by (auto simp: goo_waitgroup_add_def Let_def intro: that(17-20) split: if_splits)
next
  case (TestCounter h)
  then show ?thesis using assms by (auto simp: goo_waitgroup_wait_def intro: that(21,22) split: if_splits)
next
  case Load
  then show ?thesis using assms by (cases "sy_slots st (slot_of op)") (auto intro: that(1,2))
next
  case InitLock
  then show ?thesis using assms by (auto intro: that(3) split: if_splits)
next
  case Recheck
  then show ?thesis using assms by (cases "sy_slots st (slot_of op)") (auto intro: that(4,5))
next
  case New
  then show ?thesis using assms by (auto intro: that(6))
next
  case (Store h)
  then show ?thesis using assms by (auto intro: that(7))
next
  case (InitUnlock h)
  then show ?thesis using assms by (auto intro: that(8))
next
  case (Acquire h)
  then show ?thesis using assms by (auto intro: that(9,10) split: option.splits if_splits)
next
  case (CheckLocked h)
  then show ?thesis using assms by (auto intro: that(15,16) split: if_splits)
next
  case (Asleep h)
  then show ?thesis using assms by simp
next
  case (Woken h)
  then show ?thesis using assms by (auto intro: that(23) split: if_splits)
next
  case (ClearLocked h)
  then show ?thesis using assms by (auto intro: that(24))
next
  case (Release h)
  then show ?thesis using assms by (auto intro: that(25,26) split: if_splits)
qed

lemma step_cases:
  assumes "sync_step g st = Some st'"
  obtains op pc where "sy_outcome st = Running" "sy_threads st g = At op pc" "op_step g op pc st = Some st'"
  using assms by (auto simp: sync_step_def split: if_splits goroutine.splits)

text \<open>Each part is kept by the steps of a running state; a broadcast only wakes goroutines.\<close>

lemma threads_invD: "threads_inv ms st \<Longrightarrow> sy_threads st g = At op pc \<Longrightarrow> on_mutex op = ms (slot_of op) \<and> stage_ok op pc"
  by (auto simp: threads_inv_def)

lemma threads_inv_broadcast:
  assumes "threads_inv ms st"
  shows "threads_inv ms (broadcast h st)"
  unfolding threads_inv_def
proof (intro allI impI)
  fix g op pc
  assume "sy_threads (broadcast h st) g = At op pc"
  then have "sy_threads st g = At op pc \<or> pc = Woken h \<and> sy_threads st g = At op (Asleep h)" by (simp add: broadcast_At split: if_splits)
  then show "on_mutex op = ms (slot_of op) \<and> stage_ok op pc" using assms by (force simp: threads_inv_def)
qed

lemma threads_inv_goto: "threads_inv ms st \<Longrightarrow> on_mutex op = ms (slot_of op) \<Longrightarrow> stage_ok op pc \<Longrightarrow> threads_inv ms (goto_pc g op pc st)"
  by (simp add: threads_inv_def)

lemma threads_inv_leave: "threads_inv ms st \<Longrightarrow> threads_inv ms (leave g st)"
  by (simp add: threads_inv_def)

lemma threads_inv_frame [simp]:
  "threads_inv ms (logged e st) = threads_inv ms st" "threads_inv ms (upd_obj h f st) = threads_inv ms st"
  "threads_inv ms (set_owner h v st) = threads_inv ms st" "threads_inv ms (set_locked h w st) = threads_inv ms st"
  "threads_inv ms (st\<lparr>sy_init_lock := v\<rparr>) = threads_inv ms st" "threads_inv ms (st\<lparr>sy_slots := v2\<rparr>) = threads_inv ms st"
  "threads_inv ms (st\<lparr>sy_next := v3\<rparr>) = threads_inv ms st" "threads_inv ms (st\<lparr>sy_outcome := v4\<rparr>) = threads_inv ms st"
  by (simp_all add: threads_inv_def)

lemma threads_inv_step:
  assumes "op_step g op pc st = Some st'" "sy_threads st g = At op pc" "sy_outcome st' = Running" "threads_inv ms st"
  shows "threads_inv ms st'"
proof -
  have op: "on_mutex op = ms (slot_of op)" "stage_ok op pc" using assms(2,4) by (auto simp: threads_inv_def)
  from assms(1) show ?thesis
    by (cases rule: op_step_cases)
      (use assms(3,4) op in \<open>auto intro!: threads_inv_goto threads_inv_leave threads_inv_broadcast\<close>)
qed

lemma init_inv_frame:
  "init_inv st \<Longrightarrow> sy_init_lock st' = sy_init_lock st \<Longrightarrow> (\<And>g. busy (sy_threads st' g) = busy (sy_threads st g)) \<Longrightarrow> init_inv st'"
  by (simp add: init_inv_def)

lemma busy_broadcast [simp]: "busy (sy_threads (broadcast h st) g) = busy (sy_threads st g)"
  by (auto simp: broadcast_threads split: goroutine.splits pc.splits)

lemma init_inv_step:
  assumes "op_step g op pc st = Some st'" "sy_threads st g = At op pc" "sy_outcome st' = Running" "init_inv st"
  shows "init_inv st'"
  using assms(1)
proof (cases rule: op_step_cases)
  case init_lock
  then show ?thesis using assms(2,4) by (auto simp: init_inv_def)
next
  case (init_unlock h)
  have "sy_init_lock st = Some g" using assms(2,4) init_unlock by (simp add: init_inv_def)
  then show ?thesis using assms(2,4) init_unlock by (auto simp: init_inv_def)
qed (use assms(3) in \<open>simp_all\<close>, (rule init_inv_frame [OF assms(4)]; use assms(2) in \<open>auto split: if_splits\<close>)+)

lemma found_invD: "found_inv st \<Longrightarrow> sy_threads st g = At op pc \<Longrightarrow> found pc = Some h \<Longrightarrow> sy_slots st (slot_of op) = Some h"
  by (simp add: found_inv_def)

lemma init_holder_unique:
  "init_inv st \<Longrightarrow> busy (sy_threads st g) \<Longrightarrow> busy (sy_threads st g') \<Longrightarrow> g = g'"
  unfolding init_inv_def by (metis option.inject)

lemma handles_inv_step:
  assumes "op_step g op pc st = Some st'" "sy_threads st g = At op pc" "sy_outcome st' = Running" "threads_inv ms st" "fresh_inv st" "handles_inv ms st"
  shows "handles_inv ms st'"
  using assms(1)
proof (cases rule: op_step_cases)
  case new
  show ?thesis
    unfolding handles_inv_def
  proof (intro allI impI)
    fix s h
    assume "sy_slots st' s = Some h"
    then have "sy_slots st s = Some h" using new by simp
    then have "h < sy_next st" "wg_at st h = (\<not> ms s)" "\<forall>s'. sy_slots st s' = Some h \<longrightarrow> s' = s"
      using assms(6) by (auto simp: handles_inv_def)
    then show "h < sy_next st' \<and> wg_at st' h = (\<not> ms s) \<and> (\<forall>s'. sy_slots st' s' = Some h \<longrightarrow> s' = s)"
      using new by simp
  qed
next
  case (store h)
  then have "h < sy_next st" "\<forall>s. sy_slots st s \<noteq> Some h" "wg_at st h = (\<not> on_mutex op)" "on_mutex op = ms (slot_of op)"
    using assms(2,4,5) by (auto simp: fresh_inv_def threads_inv_def)
  then show ?thesis using assms(6) store by (auto simp: handles_inv_def)
qed (use assms(3,6) in \<open>auto simp: handles_inv_def\<close>)

lemma found_inv_goto:
  "found_inv st \<Longrightarrow> (\<And>h. found pc = Some h \<Longrightarrow> sy_slots st (slot_of op) = Some h) \<Longrightarrow> found_inv (goto_pc g op pc st)"
  by (auto simp: found_inv_def)

lemma found_inv_leave: "found_inv st \<Longrightarrow> found_inv (leave g st)"
  by (auto simp: found_inv_def)

lemma found_inv_frame:
  "found_inv st \<Longrightarrow> sy_threads st' = sy_threads st \<Longrightarrow> sy_slots st' = sy_slots st \<Longrightarrow> found_inv st'"
  by (simp add: found_inv_def)

lemma found_inv_broadcast: "found_inv st \<Longrightarrow> found_inv (broadcast h st)"
  unfolding found_inv_def broadcast_At by (force split: if_splits)

lemma found_inv_step:
  assumes "op_step g op pc st = Some st'" "sy_threads st g = At op pc" "sy_outcome st' = Running" "fresh_inv st" "found_inv st"
  shows "found_inv st'"
proof -
  have fd: "found pc = Some h \<Longrightarrow> sy_slots st (slot_of op) = Some h" for h using found_invD [OF assms(5,2)] .
  have frame: "found_inv x" if "sy_threads x = sy_threads st" "sy_slots x = sy_slots st" for x using found_inv_frame assms(5) that by blast
  from assms(1) show ?thesis
  proof (cases rule: op_step_cases)
    case (store h)
    then have "sy_slots st (slot_of op) = None" using assms(2,4) by (auto simp: fresh_inv_def)
    then have "found_inv (st\<lparr>sy_slots := (sy_slots st)(slot_of op \<mapsto> h)\<rparr>)" using assms(5) by (fastforce simp: found_inv_def)
    then show ?thesis using store by (auto intro: found_inv_goto)
  qed (use assms(3) fd frame in \<open>auto intro!: found_inv_goto found_inv_leave found_inv_broadcast\<close>)
qed

lemma fresh_inv_frame:
  assumes "fresh_inv st" "sy_slots st' = sy_slots st" "sy_next st' = sy_next st"
    and "\<And>h. (\<forall>s. sy_slots st s \<noteq> Some h) \<Longrightarrow> owner_at st' h = owner_at st h \<and> counter_at st' h = counter_at st h \<and> wg_at st' h = wg_at st h"
    and "\<And>g op pc. sy_threads st' g = At op pc \<Longrightarrow> pc = New \<or> (\<exists>h. pc = Store h) \<Longrightarrow> sy_threads st g = At op pc"
  shows "fresh_inv st'"
  using assms unfolding fresh_inv_def by metis

lemma fresh_inv_step:
  assumes "op_step g op pc st = Some st'" "sy_threads st g = At op pc" "sy_outcome st' = Running" "fresh_inv st" "found_inv st"
    and "init_inv st" "handles_inv ms st"
  shows "fresh_inv st'"
proof -
  have fd: "found pc = Some h \<Longrightarrow> sy_slots st (slot_of op) = Some h" for h using found_invD [OF assms(5,2)] .
  have alone: "busy (sy_threads st g') \<Longrightarrow> in_init pc \<Longrightarrow> g' = g" for g' using init_holder_unique [OF assms(6)] assms(2) by simp
  from assms(1) show ?thesis
  proof (cases rule: op_step_cases)
    case recheck_missing
    then show ?thesis using assms(4) by (auto simp: fresh_inv_def)
  next
    case new
    then have "sy_slots st (slot_of op) = None" using assms(2,4) by (auto simp: fresh_inv_def)
    moreover have "sy_slots st s \<noteq> Some (sy_next st)" for s using assms(7) by (auto simp: handles_inv_def)
    moreover have "sy_threads st g' \<noteq> At op' New" "sy_threads st g' \<noteq> At op' (Store h)" if "g' \<noteq> g" for g' op' h
      using alone [of g'] new that by auto
    ultimately show ?thesis using new by (auto simp: fresh_inv_def)
  next
    case (store h)
    have "sy_threads st g' \<noteq> At op' New" "sy_threads st g' \<noteq> At op' (Store h)" if "g' \<noteq> g" for g' op' h
      using alone [of g'] store that by auto
    then show ?thesis using store by (auto simp: fresh_inv_def)
  qed (rule fresh_inv_frame [OF assms(4)]; use assms(2,3) fd in \<open>auto simp: broadcast_At split: if_splits\<close>)+
qed

lemma broadcast_views [simp]:
  "mine (sy_threads (broadcast h st) g) = mine (sy_threads st g)"
  "unlocking (sy_threads (broadcast h st) g) s = unlocking (sy_threads st g) s"
  by (auto simp: broadcast_threads split: goroutine.splits pc.splits)

lemma enter_mine [simp]: "mine (At op (enter op h)) = None"
  by simp

lemma mine_found:
  "found_inv st \<Longrightarrow> mine (sy_threads st g) = Some h \<Longrightarrow> \<exists>s. sy_slots st s = Some h"
  by (cases "sy_threads st g") (auto dest: found_invD split: if_splits)

lemma owns_inv_change:
  assumes "owns_inv st" "\<And>g'. g' \<noteq> g \<Longrightarrow> mine (sy_threads st' g') = mine (sy_threads st g')"
    and "\<And>g' h. g' \<noteq> g \<Longrightarrow> mine (sy_threads st g') = Some h \<Longrightarrow> owner_at st' h = owner_at st h"
    and "\<And>h. mine (sy_threads st' g) = Some h \<Longrightarrow> owner_at st' h = Some g"
  shows "owns_inv st'"
  using assms unfolding owns_inv_def by metis

lemma owns_inv_step:
  assumes "op_step g op pc st = Some st'" "sy_threads st g = At op pc" "sy_outcome st' = Running" "found_inv st" "threads_inv ms st"
    and "handles_inv ms st" "owns_inv st"
  shows "owns_inv st'"
proof -
  have own: "mine (sy_threads st g') = Some h \<Longrightarrow> owner_at st h = Some g'" for g' h using assms(7) by (simp add: owns_inv_def)
  have old: "mine (sy_threads st g') = Some h \<Longrightarrow> h < sy_next st" for g' h
    using mine_found [OF assms(4)] assms(6) by (auto simp: handles_inv_def)
  have op: "stage_ok op pc" using assms(2,5) by (auto simp: threads_inv_def)
  from assms(1) show ?thesis
  proof (cases rule: op_step_cases; use assms(3) in simp_all)
    fix h
    assume h: "pc = TestCounter h"
    then have "owner_at st h = Some g" using own [of g h] assms(2) by simp
    then show "owns_inv (goto_pc g op (Asleep h) (set_owner h None st))"
      using own by (intro owns_inv_change [OF assms(7), of g]) auto
  next
    fix h
    assume "owner_at st h = Some g"
    then show "owns_inv (leave g (set_owner h None st))" using own by (intro owns_inv_change [OF assms(7), of g]) auto
  qed (rule owns_inv_change [OF assms(7), of g]; use assms(2) own op in \<open>auto dest: own old split: if_splits\<close>)+
qed

lemma holds_inv_change:
  assumes "holds_inv ms st" "\<And>g s. holds (sy_log st') g s \<Longrightarrow> holds (sy_log st) g s"
    and "\<And>g s. unlocking (sy_threads st' g) s \<Longrightarrow> unlocking (sy_threads st g) s"
    and "\<And>s h. sy_slots st s = Some h \<Longrightarrow> sy_slots st' s = Some h"
    and "\<And>g s h. holds (sy_log st) g s \<Longrightarrow> sy_slots st s = Some h \<Longrightarrow> owner_at st h = Some g \<Longrightarrow> owner_at st' h = Some g"
  shows "holds_inv ms st'"
  using assms unfolding holds_inv_def by metis

lemma holds_inv_step:
  assumes "op_step g op pc st = Some st'" "sy_threads st g = At op pc" "sy_outcome st' = Running" "found_inv st" "threads_inv ms st"
    and "handles_inv ms st" "owns_inv st" "fresh_inv st" "holds_inv ms st"
  shows "holds_inv ms st'"
proof -
  have fd: "found pc = Some h \<Longrightarrow> sy_slots st (slot_of op) = Some h" for h using found_invD [OF assms(4,2)] .
  have op: "stage_ok op pc" "on_mutex op = ms (slot_of op)" using assms(2,5) by (auto simp: threads_inv_def)
  have old: "sy_slots st s = Some h \<Longrightarrow> h < sy_next st" for s h using assms(6) by (auto simp: handles_inv_def)
  have own: "found pc = Some h \<Longrightarrow> owns op pc \<Longrightarrow> owner_at st h = Some g" for h using assms(2,7) by (simp add: owns_inv_def)
  have hd: "ms s" "\<not> unlocking (sy_threads st g') s" if "holds (sy_log st) g' s" for g' s using assms(9) that by (auto simp: holds_inv_def)
  have one: "s' = s" if "sy_slots st s = Some h" "sy_slots st s' = Some h" for s s' h using assms(6) that by (auto simp: handles_inv_def)
  from assms(1) show ?thesis
  proof (cases rule: op_step_cases; use assms(3) in simp_all)
    fix h
    assume pc: "pc = Store h"
    then have "sy_slots st (slot_of op) = None" using assms(2,8) by (auto simp: fresh_inv_def)
    then show "holds_inv ms (goto_pc g op (InitUnlock h) (st\<lparr>sy_slots := (sy_slots st)(slot_of op \<mapsto> h)\<rparr>))"
      by (intro holds_inv_change [OF assms(9)]) (use assms(2) in \<open>auto split: if_splits\<close>)
  next
    fix h s
    assume pc: "pc = SetLocked h" and s: "op = MLock s"
    then show "holds_inv ms (leave g (logged (Locked g s) (set_locked h True st)))"
      using assms(9) fd [of h] own [of h] op by (auto simp: holds_inv_def)
  next
    fix h
    assume pc: "pc = TestCounter h"
    then have "sy_slots st (slot_of op) = Some h" "\<not> ms (slot_of op)" using fd [of h] op by simp_all
    then have "h' \<noteq> h" if "holds (sy_log st) g' s" "sy_slots st s = Some h'" for g' s h' using that hd(1) [of g' s] one [of s h "slot_of op"] by auto
    then show "holds_inv ms (goto_pc g op (Asleep h) (set_owner h None st))"
      by (intro holds_inv_change [OF assms(9)]) (use assms(2) in \<open>auto split: if_splits\<close>)
  next
    fix h
    assume pc: "pc = Release h" and owner: "owner_at st h = Some g"
    have slot: "sy_slots st (slot_of op) = Some h" using fd [of h] pc by simp
    have "\<not> holds (sy_log st) g s" if "sy_slots st s = Some h" for s
    proof
      assume held: "holds (sy_log st) g s"
      have "s = slot_of op" using one [of s h "slot_of op"] that slot by simp
      then show False using hd [OF held] op pc assms(2) by (cases op) auto
    qed
    then show "holds_inv ms (leave g (set_owner h None st))"
      using owner by (intro holds_inv_change [OF assms(9)]) (auto split: if_splits)
  qed (rule holds_inv_change [OF assms(9)]; use assms(2) in \<open>auto dest: old split: if_splits\<close>)+
qed

lemma owned_inv_change:
  assumes "owned_inv st"
    and "\<And>g s h. sy_slots st' s = Some h \<Longrightarrow> owner_at st' h = Some g \<Longrightarrow> mine (sy_threads st' g) \<noteq> Some h \<Longrightarrow>
      sy_slots st s = Some h \<and> owner_at st h = Some g \<and> (holds (sy_log st) g s \<longrightarrow> holds (sy_log st') g s)
      \<and> (mine (sy_threads st g) = Some h \<longrightarrow> holds (sy_log st') g s) \<and> (unlocking (sy_threads st g) s \<longrightarrow> unlocking (sy_threads st' g) s)"
  shows "owned_inv st'"
  unfolding owned_inv_def
proof (intro allI impI)
  fix g s h
  assume h: "sy_slots st' s = Some h" "owner_at st' h = Some g"
  show "holds (sy_log st') g s \<or> mine (sy_threads st' g) = Some h \<or> unlocking (sy_threads st' g) s"
  proof (cases "mine (sy_threads st' g) = Some h")
    case False
    note old = assms(2) [OF h False]
    then have "holds (sy_log st) g s \<or> mine (sy_threads st g) = Some h \<or> unlocking (sy_threads st g) s"
      using assms(1) by (simp add: owned_inv_def)
    then show ?thesis using old by blast
  qed simp
qed

lemma owned_inv_step:
  assumes "op_step g op pc st = Some st'" "sy_threads st g = At op pc" "sy_outcome st' = Running" "found_inv st" "threads_inv ms st"
    and "handles_inv ms st" "owns_inv st" "fresh_inv st" "owned_inv st"
  shows "owned_inv st'"
proof -
  have fd: "found pc = Some h \<Longrightarrow> sy_slots st (slot_of op) = Some h" for h using found_invD [OF assms(4,2)] .
  have op: "stage_ok op pc" "on_mutex op = ms (slot_of op)" using assms(2,5) by (auto simp: threads_inv_def)
  have old: "sy_slots st s = Some h \<Longrightarrow> h < sy_next st" for s h using assms(6) by (auto simp: handles_inv_def)
  have own: "found pc = Some h \<Longrightarrow> owns op pc \<Longrightarrow> owner_at st h = Some g" for h using assms(2,7) by (simp add: owns_inv_def)
  have one: "s' = s" if "sy_slots st s = Some h" "sy_slots st s' = Some h" for s s' h using assms(6) that by (auto simp: handles_inv_def)
  from assms(1) show ?thesis
  proof (cases rule: op_step_cases; use assms(3) in simp_all)
    fix h
    assume pc: "pc = Store h"
    then have "owner_at st h = None" using assms(2,8) by (auto simp: fresh_inv_def)
    then show "owned_inv (goto_pc g op (InitUnlock h) (st\<lparr>sy_slots := (sy_slots st)(slot_of op \<mapsto> h)\<rparr>))"
      by (intro owned_inv_change [OF assms(9)]) (use assms(2) pc in \<open>auto split: if_splits\<close>)
  qed (rule owned_inv_change [OF assms(9)]; use assms(2) op fd in \<open>auto dest: old one split: if_splits\<close>)+
qed

lemma counter_inv_frame:
  assumes "counter_inv st" "sy_slots st' = sy_slots st" "\<And>s. adds (sy_log st') s = adds (sy_log st) s" "passes_ok (sy_log st')"
    and "\<And>s h. sy_slots st s = Some h \<Longrightarrow> counter_at st' h = counter_at st h"
  shows "counter_inv st'"
proof -
  have "adds (sy_log st') s = (case sy_slots st' s of None \<Rightarrow> 0 | Some h \<Rightarrow> counter_at st' h)" for s
    using assms(1-3,5) by (cases "sy_slots st s") (simp_all add: counter_inv_def)
  moreover have "adds (sy_log st') s \<ge> 0" for s using assms(1,3) by (metis counter_inv_def)
  ultimately show ?thesis using assms(4) unfolding counter_inv_def by blast
qed

lemma counter_inv_add:
  assumes "counter_inv st" "sy_slots st s0 = Some h" "\<And>s. sy_slots st s = Some h \<longleftrightarrow> s = s0" "sy_slots st' = sy_slots st"
    and "sy_log st' = Added s0 d # sy_log st" "\<And>h'. counter_at st' h' = (if h' = h then counter_at st h + d else counter_at st h')"
    and "counter_at st h + d \<ge> 0"
  shows "counter_inv st'"
proof -
  have inv: "adds (sy_log st) s = (case sy_slots st s of None \<Rightarrow> 0 | Some h \<Rightarrow> counter_at st h)" "adds (sy_log st) s \<ge> 0" "passes_ok (sy_log st)" for s
    using assms(1) unfolding counter_inv_def by blast+
  have "adds (sy_log st') s = (case sy_slots st' s of None \<Rightarrow> 0 | Some h \<Rightarrow> counter_at st' h) \<and> adds (sy_log st') s \<ge> 0" for s
  proof (cases "s = s0")
    case True
    then show ?thesis using inv(1) [of s] assms(2,4-7) by simp
  next
    case False
    then have "sy_slots st s \<noteq> Some h" using assms(3) by simp
    then show ?thesis using inv(1,2) [of s] False assms(4-6) by (cases "sy_slots st s") auto
  qed
  moreover have "passes_ok (sy_log st')" using inv(3) assms(5) by simp
  ultimately show ?thesis unfolding counter_inv_def by blast
qed

lemma counter_inv_step:
  assumes "op_step g op pc st = Some st'" "sy_threads st g = At op pc" "sy_outcome st' = Running" "found_inv st" "threads_inv ms st"
    and "handles_inv ms st" "fresh_inv st" "counter_inv st"
  shows "counter_inv st'"
proof -
  have fd: "found pc = Some h \<Longrightarrow> sy_slots st (slot_of op) = Some h" for h using found_invD [OF assms(4,2)] .
  have op: "stage_ok op pc" "on_mutex op = ms (slot_of op)" using assms(2,5) by (auto simp: threads_inv_def)
  have old: "sy_slots st s = Some h \<Longrightarrow> h < sy_next st" for s h using assms(6) by (auto simp: handles_inv_def)
  have one: "sy_slots st s = Some h \<longleftrightarrow> s = slot_of op" if "sy_slots st (slot_of op) = Some h" for s h
    using assms(6) that by (auto simp: handles_inv_def)
  have wg: "wg_at st h" if "sy_slots st (slot_of op) = Some h" "\<not> on_mutex op" for h using assms(6) that op(2) by (auto simp: handles_inv_def)
  have ok: "passes_ok (sy_log st)" and nonneg: "adds (sy_log st) s \<ge> 0" and now: "sy_slots st s = Some h \<Longrightarrow> adds (sy_log st) s = counter_at st h"
    for s h using assms(8) by (auto simp: counter_inv_def)
  from assms(1) show ?thesis
  proof (cases rule: op_step_cases; use assms(3) in simp_all)
    fix h
    assume pc: "pc = Store h"
    then have "counter_at st h = 0" "sy_slots st (slot_of op) = None" using assms(2,7) by (auto simp: fresh_inv_def)
    moreover have eq: "adds (sy_log st) s = (case sy_slots st s of None \<Rightarrow> 0 | Some h \<Rightarrow> counter_at st h)" for s
      using assms(8) unfolding counter_inv_def by blast
    ultimately have "adds (sy_log st) s = (case ((sy_slots st)(slot_of op \<mapsto> h)) s of None \<Rightarrow> 0 | Some h \<Rightarrow> counter_at st h)" for s
      using eq [of s] by simp
    then show "counter_inv (goto_pc g op (InitUnlock h) (st\<lparr>sy_slots := (sy_slots st)(slot_of op \<mapsto> h)\<rparr>))"
      using nonneg ok unfolding counter_inv_def by (simp cong: option.case_cong)
  next
    fix h
    assume pc: "pc = AddCounter h" and z: "counter_at st h + delta_of op = 0"
    have h: "sy_slots st (slot_of op) = Some h" "\<not> on_mutex op" using fd pc op(1) by auto
    show "counter_inv (goto_pc g op (ClearLocked h) (broadcast h (logged (Added (slot_of op) (delta_of op)) (upd_obj h (with_counter 0) st))))"
      by (rule counter_inv_add [OF assms(8) h(1) one [OF h(1)]]) (use z wg [OF h] in auto)
  next
    fix h
    assume pc: "pc = AddCounter h" and z: "counter_at st h + delta_of op > 0"
    have h: "sy_slots st (slot_of op) = Some h" "\<not> on_mutex op" using fd pc op(1) by auto
    show "counter_inv (goto_pc g op (ClearLocked h) (logged (Added (slot_of op) (delta_of op)) (upd_obj h (with_counter (counter_at st h + delta_of op)) st)))"
      by (rule counter_inv_add [OF assms(8) h(1) one [OF h(1)]]) (use z wg [OF h] in auto)
  next
    fix h
    assume pc: "pc = TestCounter h" and z: "counter_at st h \<le> 0"
    have "adds (sy_log st) (slot_of op) = 0" using now [OF fd [of h]] nonneg [of "slot_of op"] pc z by simp
    then show "counter_inv (goto_pc g op (ClearLocked h) (logged (Passed g (slot_of op)) st))"
      by (intro counter_inv_frame [OF assms(8)]) (simp_all add: ok)
  qed (rule counter_inv_frame [OF assms(8)]; use ok in \<open>auto dest: old\<close>)+
qed

lemma asleep_inv_frame:
  assumes "asleep_inv st" "\<And>g op h. sy_threads st' g = At op (Asleep h) \<Longrightarrow> sy_threads st g = At op (Asleep h) \<and> counter_at st' h = counter_at st h"
  shows "asleep_inv st'"
  using assms unfolding asleep_inv_def by metis

lemma asleep_inv_step:
  assumes "op_step g op pc st = Some st'" "sy_threads st g = At op pc" "sy_outcome st' = Running" "found_inv st"
    and "handles_inv ms st" "asleep_inv st"
  shows "asleep_inv st'"
proof -
  have old: "sy_threads st g' = At op' (Asleep h) \<Longrightarrow> h < sy_next st" for g' op' h
    using assms(5) found_invD [OF assms(4)] by (force simp: handles_inv_def)
  from assms(1) show ?thesis
  proof (cases rule: op_step_cases; use assms(3) in simp_all)
    fix h
    assume "counter_at st h + delta_of op > 0"
    then show "asleep_inv (goto_pc g op (ClearLocked h) (logged (Added (slot_of op) (delta_of op)) (upd_obj h (with_counter (counter_at st h + delta_of op)) st)))"
      using assms(6) by (auto simp: asleep_inv_def)
  next
    fix h
    assume "counter_at st h > 0"
    then show "asleep_inv (goto_pc g op (Asleep h) (set_owner h None st))" using assms(6) by (auto simp: asleep_inv_def)
  qed (rule asleep_inv_frame [OF assms(6)]; auto simp: broadcast_At dest: old split: if_splits)+
qed

definition sync_inv :: "(slot \<Rightarrow> bool) \<Rightarrow> sync \<Rightarrow> bool" where
  "sync_inv ms st \<longleftrightarrow> threads_inv ms st \<and> init_inv st \<and> handles_inv ms st \<and> found_inv st \<and> fresh_inv st \<and> owns_inv st
     \<and> holds_inv ms st \<and> owned_inv st \<and> counter_inv st \<and> asleep_inv st"

lemmas inv_defs = threads_inv_def init_inv_def handles_inv_def found_inv_def fresh_inv_def owns_inv_def holds_inv_def owned_inv_def
  counter_inv_def asleep_inv_def

lemma sync_inv_init: "sync_inv ms sync_init"
  by (simp add: sync_inv_def inv_defs sync_init_def)

lemma sync_inv_step:
  assumes "sync_inv ms st" "op_step g op pc st = Some st'" "sy_threads st g = At op pc" "sy_outcome st' = Running"
  shows "sync_inv ms st'"
  using assms(1) threads_inv_step [OF assms(2-4)] init_inv_step [OF assms(2-4)] handles_inv_step [OF assms(2-4)] found_inv_step [OF assms(2-4)]
    fresh_inv_step [OF assms(2-4)] owns_inv_step [OF assms(2-4)] holds_inv_step [OF assms(2-4)] owned_inv_step [OF assms(2-4)]
    counter_inv_step [OF assms(2-4)] asleep_inv_step [OF assms(2-4)]
  unfolding sync_inv_def by blast

lemma sync_inv_wake:
  assumes "sync_inv ms st" "sy_threads st g = At op (Asleep h)"
  shows "sync_inv ms (goto_pc g op (Woken h) st)"
proof -
  let ?st = "goto_pc g op (Woken h) st"
  have parts: "threads_inv ms st" "init_inv st" "handles_inv ms st" "found_inv st" "fresh_inv st" "owns_inv st" "holds_inv ms st" "owned_inv st"
    "counter_inv st" "asleep_inv st" using assms(1) by (simp_all add: sync_inv_def)
  have op: "on_mutex op = ms (slot_of op)" "is_wait op" using threads_invD [OF parts(1) assms(2)] by simp_all
  have view: "mine (sy_threads ?st g') = mine (sy_threads st g')" "unlocking (sy_threads ?st g') s = unlocking (sy_threads st g') s" for g' s
    using assms(2) by simp_all
  have "threads_inv ms ?st" using parts(1) op by (simp add: threads_inv_goto)
  moreover have "init_inv ?st" using assms(2) by (intro init_inv_frame [OF parts(2)]) auto
  moreover have "handles_inv ms ?st" using parts(3) by (simp add: handles_inv_def)
  moreover have "found_inv ?st" using found_invD [OF parts(4) assms(2)] by (intro found_inv_goto [OF parts(4)]) simp
  moreover have "fresh_inv ?st" by (rule fresh_inv_frame [OF parts(5)]) (auto split: if_splits)
  moreover have "owns_inv ?st" using parts(6) by (simp add: owns_inv_def view del: goto_reads(7))
  moreover have "holds_inv ms ?st" using parts(7) by (simp add: holds_inv_def view del: goto_reads(7))
  moreover have "owned_inv ?st" using parts(8) by (simp add: owned_inv_def view del: goto_reads(7))
  moreover have "counter_inv ?st" by (rule counter_inv_frame [OF parts(9)]) (use parts(9) in \<open>auto simp: counter_inv_def\<close>)
  moreover have "asleep_inv ?st" by (rule asleep_inv_frame [OF parts(10)]) (auto split: if_splits)
  ultimately show ?thesis by (simp add: sync_inv_def)
qed

lemma sync_inv_call:
  assumes "sync_inv ms st" "sy_threads st g = Idle" "on_mutex op = ms (slot_of op)"
  shows "sync_inv ms (sync_call g op st)"
proof -
  let ?st = "sync_call g op st"
  have same [simp]: "sy_slots ?st = sy_slots st" "sy_next ?st = sy_next st" "sy_init_lock ?st = sy_init_lock st" "owner_at ?st = owner_at st"
    "counter_at ?st = counter_at st" "wg_at ?st = wg_at st" "sy_threads ?st = (sy_threads st)(g := At op Load)"
    "adds (sy_log ?st) s = adds (sy_log st) s" "passes_ok (sy_log ?st) = passes_ok (sy_log st)" for s
    by (cases op; simp add: sync_call_def)+
  have held: "holds (sy_log ?st) g' s \<longleftrightarrow> holds (sy_log st) g' s \<and> \<not> (op = MUnlock s \<and> g' = g)" for g' s
    by (cases op) (auto simp: sync_call_def)
  have parts: "threads_inv ms st" "init_inv st" "handles_inv ms st" "found_inv st" "fresh_inv st" "owns_inv st" "holds_inv ms st" "owned_inv st"
    "counter_inv st" "asleep_inv st" using assms(1) by (simp_all add: sync_inv_def)
  have "threads_inv ms ?st" using parts(1) assms(3) by (simp add: threads_inv_def)
  moreover have "init_inv ?st" using parts(2) assms(2) by (intro init_inv_frame [OF parts(2)]) auto
  moreover have "handles_inv ms ?st" using parts(3) by (simp add: handles_inv_def)
  moreover have "found_inv ?st" using parts(4) by (simp add: found_inv_def)
  moreover have "fresh_inv ?st" by (rule fresh_inv_frame [OF parts(5)]) (auto split: if_splits)
  moreover have "owns_inv ?st" by (rule owns_inv_change [OF parts(6), of g]) auto
  moreover have "holds_inv ms ?st" using parts(7) assms(2) by (auto simp: holds_inv_def held)
  moreover have "owned_inv ?st" using parts(8) assms(2) by (fastforce simp: owned_inv_def held)
  moreover have "counter_inv ?st" by (rule counter_inv_frame [OF parts(9)]) (use parts(9) in \<open>auto simp: counter_inv_def\<close>)
  moreover have "asleep_inv ?st" by (rule asleep_inv_frame [OF parts(10)]) (auto split: if_splits)
  ultimately show ?thesis by (simp add: sync_inv_def)
qed

lemma reach_inv: "reach ms st \<Longrightarrow> sy_outcome st = Running \<Longrightarrow> sync_inv ms st"
proof (induction rule: reach.induct)
  case start
  show ?case by (rule sync_inv_init)
next
  case (call st g op)
  then show ?case by (intro sync_inv_call) auto
next
  case (move st g st')
  obtain op pc where "sy_outcome st = Running" "sy_threads st g = At op pc" "op_step g op pc st = Some st'"
    using move.hyps(2) by (rule step_cases)
  then show ?case using move.IH move.prems by (blast intro: sync_inv_step)
next
  case (wake st g op h)
  then show ?case by (intro sync_inv_wake) auto
qed

end
