(* ===== verification/Sync_Props.thy ===== *)
theory Sync_Props
  imports Sync_Inv
begin

text \<open>
  What the runs of mutexes and wait groups guarantee. However the first calls race, a variable gets
  one object: a mutex has at most one holder, a wait returns only when the counter is zero, no wake-up
  is lost, and goroutines wait for ever only where the program makes them wait.
\<close>

section \<open>Ends of runs\<close>

text \<open>A run that ended goes back to a running state with the same log, up to the addition that failed.\<close>

lemma reach_before_end:
  "reach ms st \<Longrightarrow> \<exists>st0. reach ms st0 \<and> sy_outcome st0 = Running \<and> (sy_log st = sy_log st0 \<or> (\<exists>s d. sy_log st = Added s d # sy_log st0))"
proof (induction rule: reach.induct)
  case start
  have "reach ms sync_init" by (rule reach.start)
  moreover have "sy_outcome sync_init = Running" by (simp add: sync_init_def)
  ultimately show ?case by blast
next
  case (call st g op)
  then have "reach ms (sync_call g op st)" by (auto intro: reach.call)
  moreover have "sy_outcome (sync_call g op st) = Running" using call.hyps(2) by (cases op) (simp_all add: sync_call_def)
  ultimately show ?case by blast
next
  case (move st g st')
  obtain op pc where run: "sy_outcome st = Running" "op_step g op pc st = Some st'" using move.hyps(2) by (rule step_cases)
  show ?case
  proof (cases "sy_outcome st' = Running")
    case True
    then show ?thesis using reach.move [OF move.hyps] by blast
  next
    case False
    have "sy_log st' = sy_log st \<or> (\<exists>s d. sy_log st' = Added s d # sy_log st)"
      using run(2)
    proof (cases rule: op_step_cases)
      case (add_panic h)
      then have "goo_waitgroup_add g op h st = st'" using run(2) by simp
      then show ?thesis using False run(1) by (auto simp: goo_waitgroup_add_def Let_def split: if_splits)
    qed (use False run(1) in simp_all)
    then show ?thesis using move.hyps(1) run(1) by blast
  qed
next
  case (wake st g op h)
  then have "reach ms (goto_pc g op (Woken h) st)" by (auto intro: reach.wake)
  moreover have "sy_outcome (goto_pc g op (Woken h) st) = Running" using wake.hyps(2) by simp
  ultimately show ?case by blast
qed

section \<open>Mutexes\<close>

text \<open>
  C19. In every run, first calls in a race included, at most one goroutine holds a mutex: of two that
  returned from \<open>Lock\<close> on a variable and did not call \<open>Unlock\<close> since, both are the same.
\<close>

theorem mutex_exclusive:
  assumes "reach ms st" "holds (sy_log st) g1 s" "holds (sy_log st) g2 s"
  shows "g1 = g2"
proof -
  obtain st0 where st0: "reach ms st0" "sy_outcome st0 = Running" "holds (sy_log st0) g1 s" "holds (sy_log st0) g2 s"
    using reach_before_end [OF assms(1)] assms(2,3) by auto
  have "holds_inv ms st0" using reach_inv [OF st0(1,2)] by (simp add: sync_inv_def)
  then show ?thesis using st0(3,4) unfolding holds_inv_def by (metis option.inject)
qed

section \<open>Wait groups\<close>

lemma passes_split: "passes_ok (l2 @ Passed g s # l1) \<Longrightarrow> adds l1 s = 0"
  by (induction l2) auto

lemma asleep_positive:
  assumes "reach ms st" "sy_outcome st = Running" "sy_threads st g = At op (Asleep h)"
  shows "adds (sy_log st) (slot_of op) > 0"
proof -
  have inv: "found_inv st" "counter_inv st" "asleep_inv st" using reach_inv [OF assms(1,2)] by (simp_all add: sync_inv_def)
  have "sy_slots st (slot_of op) = Some h" using found_invD [OF inv(1) assms(3)] by simp
  then have "adds (sy_log st) (slot_of op) = counter_at st h" using inv(2) by (simp add: counter_inv_def)
  then show ?thesis using inv(3) assms(3) by (simp add: asleep_inv_def)
qed


section \<open>Waiting for ever\<close>

lemma busy_moves:
  "sy_outcome st = Running \<Longrightarrow> busy (sy_threads st g) \<Longrightarrow> sync_step g st \<noteq> None"
proof -
  assume "sy_outcome st = Running" "busy (sy_threads st g)"
  then obtain op pc where "sy_threads st g = At op pc" "in_init pc" by (cases "sy_threads st g") auto
  then show ?thesis using \<open>sy_outcome st = Running\<close> by (cases pc) (auto simp: sync_step_def split: option.splits)
qed

lemma stuck_stages:
  assumes "sync_inv ms st" "sy_outcome st = Running" "\<forall>g. sync_step g st = None" "sy_threads st g = At op pc"
  shows "\<exists>h. pc = Acquire h \<and> (\<exists>g'. owner_at st h = Some g' \<and> g' \<noteq> g) \<or> pc = Asleep h \<or> pc = Woken h \<and> owner_at st h \<noteq> None"
proof -
  have none: "op_step g op pc st = None" using assms(2-4) by (auto simp: sync_step_def dest: spec [of _ g])
  have init: "sy_init_lock st = None"
  proof (rule ccontr)
    assume "sy_init_lock st \<noteq> None"
    then obtain g' where "busy (sy_threads st g')" using assms(1) by (auto simp: sync_inv_def init_inv_def)
    then show False using busy_moves assms(2,3) by blast
  qed
  show ?thesis using none init by (cases pc) (auto split: option.splits if_splits)
qed

lemma stuck_owner:
  assumes "sync_inv ms st" "sy_outcome st = Running" "\<forall>g. sync_step g st = None" "sy_slots st s = Some h" "owner_at st h = Some g"
  shows "holds (sy_log st) g s"
proof -
  have "owned_inv st" "threads_inv ms st" using assms(1) by (simp_all add: sync_inv_def)
  then have "holds (sy_log st) g s \<or> mine (sy_threads st g) = Some h \<or> unlocking (sy_threads st g) s" using assms(4,5) by (simp add: owned_inv_def)
  moreover have "mine (sy_threads st g) \<noteq> Some h \<and> \<not> unlocking (sy_threads st g) s"
  proof (cases "sy_threads st g")
    case (At op pc)
    have "stage_ok op pc" using threads_invD [OF \<open>threads_inv ms st\<close> At] by simp
    then show ?thesis using stuck_stages [OF assms(1-3) At] At by auto
  qed simp
  ultimately show ?thesis by simp
qed


section \<open>Programs that lock and unlock in turn\<close>

fun early :: "goroutine \<Rightarrow> bool" where
  "early Idle = True"
| "early (At op pc) = (\<forall>h. pc \<noteq> ClearLocked h \<and> pc \<noteq> Release h)"

definition unlock_inv :: "sync \<Rightarrow> bool" where
  "unlock_inv st \<longleftrightarrow> (\<forall>g s. unlocking (sy_threads st g) s \<longrightarrow>
     (\<exists>h. sy_slots st s = Some h \<and> owner_at st h = Some g \<and> (early (sy_threads st g) \<longrightarrow> locked_at st h)))"

definition flag_inv :: "sync \<Rightarrow> bool" where
  "flag_inv st \<longleftrightarrow> (\<forall>g s h. holds (sy_log st) g s \<longrightarrow> sy_slots st s = Some h \<longrightarrow> locked_at st h)"

definition relock_inv :: "sync \<Rightarrow> bool" where
  "relock_inv st \<longleftrightarrow> (\<forall>g s pc. sy_threads st g = At (MLock s) pc \<longrightarrow> \<not> holds (sy_log st) g s)"

lemma broadcast_early [simp]: "early (sy_threads (broadcast h st) g) = early (sy_threads st g)"
  by (auto simp: broadcast_threads split: goroutine.splits pc.splits)

lemma early_enter [simp]: "enter op h \<noteq> ClearLocked h'" "enter op h \<noteq> Release h'"
  by (cases op; simp)+

lemma clear_owner:
  assumes "sync_inv ms st" "unlock_inv st" "sy_threads st g = At op pc" "found pc = Some h" "owns op pc \<or> is_unlock op"
  shows "owner_at st h = Some g"
proof (cases "is_unlock op")
  case True
  then obtain s where s: "op = MUnlock s" by (cases op) auto
  have "sy_slots st s = Some h" using found_invD [of st g op pc h] assms(1,3,4) s by (simp add: sync_inv_def)
  moreover have "unlocking (sy_threads st g) s" using assms(3) s by simp
  ultimately show ?thesis using assms(2) unfolding unlock_inv_def by (metis option.inject)
next
  case False
  then have "mine (sy_threads st g) = Some h" using assms(3-5) by simp
  then show ?thesis using assms(1) by (simp add: sync_inv_def owns_inv_def)
qed

lemma unlock_inv_change:
  assumes "unlock_inv st" "\<And>g s. unlocking (sy_threads st' g) s \<Longrightarrow> unlocking (sy_threads st g) s"
    and "\<And>s h. sy_slots st s = Some h \<Longrightarrow> sy_slots st' s = Some h"
    and "\<And>g s h. unlocking (sy_threads st' g) s \<Longrightarrow> sy_slots st s = Some h \<Longrightarrow> owner_at st h = Some g \<Longrightarrow> owner_at st' h = Some g"
    and "\<And>g s h. unlocking (sy_threads st' g) s \<Longrightarrow> sy_slots st s = Some h \<Longrightarrow> owner_at st h = Some g \<Longrightarrow> early (sy_threads st' g) \<Longrightarrow>
      early (sy_threads st g) \<and> (locked_at st h \<longrightarrow> locked_at st' h)"
  shows "unlock_inv st'"
  unfolding unlock_inv_def
proof (intro allI impI)
  fix g s
  assume u: "unlocking (sy_threads st' g) s"
  obtain h where "sy_slots st s = Some h" "owner_at st h = Some g" "early (sy_threads st g) \<longrightarrow> locked_at st h"
    using assms(1) assms(2) [OF u] by (auto simp: unlock_inv_def)
  then show "\<exists>h. sy_slots st' s = Some h \<and> owner_at st' h = Some g \<and> (early (sy_threads st' g) \<longrightarrow> locked_at st' h)"
    using assms(3-5) u by metis
qed

lemma unlock_inv_step:
  assumes "op_step g op pc st = Some st'" "sy_threads st g = At op pc" "sy_outcome st' = Running" "sync_inv ms st" "unlock_inv st"
  shows "unlock_inv st'"
proof -
  have parts: "threads_inv ms st" "handles_inv ms st" "fresh_inv st" using assms(4) by (simp_all add: sync_inv_def)
  have old: "sy_slots st s = Some h \<Longrightarrow> h < sy_next st" for s h using parts(2) by (auto simp: handles_inv_def)
  have op: "stage_ok op pc" using threads_invD [OF parts(1) assms(2)] by simp
  have mine: "owner_at st h = Some g" if "found pc = Some h" "owns op pc \<or> is_unlock op" for h
    using clear_owner [OF assms(4,5,2) that] .
  from assms(1) show ?thesis
  proof (cases rule: op_step_cases; use assms(3) in simp_all)
    fix h
    assume "pc = Store h"
    then have "sy_slots st (slot_of op) = None" using assms(2) parts(3) by (auto simp: fresh_inv_def)
    then show "unlock_inv (goto_pc g op (InitUnlock h) (st\<lparr>sy_slots := (sy_slots st)(slot_of op \<mapsto> h)\<rparr>))"
      by (intro unlock_inv_change [OF assms(5)]) (use assms(2) \<open>pc = Store h\<close> in \<open>auto split: if_splits\<close>)
  next
    fix h
    assume pc: "pc = TestCounter h"
    then have "owner_at st h = Some g" "\<not> is_unlock op" using mine [of h] op by simp_all
    then show "unlock_inv (goto_pc g op (Asleep h) (set_owner h None st))"
      by (intro unlock_inv_change [OF assms(5)]) (use assms(2) pc in \<open>auto split: if_splits\<close>)
  next
    fix h
    assume pc: "pc = ClearLocked h"
    then have "owner_at st h = Some g" using mine [of h] by auto
    then show "unlock_inv (goto_pc g op (Release h) (set_locked h False st))"
      by (intro unlock_inv_change [OF assms(5)]) (use assms(2) pc in \<open>auto split: if_splits\<close>)
  qed (rule unlock_inv_change [OF assms(5)]; use assms(2) op in \<open>auto dest: old split: if_splits\<close>)+
qed

lemma flag_inv_change:
  assumes "flag_inv st" "\<And>g s. holds (sy_log st') g s \<Longrightarrow> holds (sy_log st) g s"
    and "\<And>g s h. holds (sy_log st) g s \<Longrightarrow> sy_slots st' s = Some h \<Longrightarrow> sy_slots st s = Some h \<and> (locked_at st h \<longrightarrow> locked_at st' h)"
  shows "flag_inv st'"
  using assms unfolding flag_inv_def by metis

lemma flag_inv_step:
  assumes "op_step g op pc st = Some st'" "sy_threads st g = At op pc" "sy_outcome st' = Running" "sync_inv ms st" "unlock_inv st" "flag_inv st"
  shows "flag_inv st'"
proof -
  have parts: "threads_inv ms st" "handles_inv ms st" "fresh_inv st" "holds_inv ms st" "found_inv st" using assms(4) by (simp_all add: sync_inv_def)
  have old: "sy_slots st s = Some h \<Longrightarrow> h < sy_next st" for s h using parts(2) by (auto simp: handles_inv_def)
  have op: "stage_ok op pc" "on_mutex op = ms (slot_of op)" using threads_invD [OF parts(1) assms(2)] by simp_all
  have fd: "found pc = Some h \<Longrightarrow> sy_slots st (slot_of op) = Some h" for h using found_invD [OF parts(5) assms(2)] .
  have one: "s' = s" if "sy_slots st s = Some h" "sy_slots st s' = Some h" for s s' h using parts(2) that by (auto simp: handles_inv_def)
  from assms(1) show ?thesis
  proof (cases rule: op_step_cases; use assms(3) in simp_all)
    fix h
    assume "pc = Store h"
    then have "sy_slots st (slot_of op) = None" using assms(2) parts(3) by (auto simp: fresh_inv_def)
    moreover have "\<exists>h. sy_slots st s = Some h" if "holds (sy_log st) g' s" for g' s using parts(4) that by (auto simp: holds_inv_def)
    ultimately show "flag_inv (goto_pc g op (InitUnlock h) (st\<lparr>sy_slots := (sy_slots st)(slot_of op \<mapsto> h)\<rparr>))"
      by (intro flag_inv_change [OF assms(6)]) (fastforce split: if_splits)+
  next
    fix h s
    assume pc: "pc = SetLocked h" and s: "op = MLock s"
    then have "sy_slots st s = Some h" using fd [of h] by simp
    then show "flag_inv (leave g (logged (Locked g s) (set_locked h True st)))" using assms(6) by (auto simp: flag_inv_def)
  next
    fix h
    assume pc: "pc = ClearLocked h"
    have slot: "sy_slots st (slot_of op) = Some h" using fd [of h] pc by simp
    have owner: "owner_at st h = Some g" using clear_owner [OF assms(4,5,2)] pc by simp
    have "\<not> holds (sy_log st) g' s" if "sy_slots st s = Some h" for g' s
    proof
      assume held: "holds (sy_log st) g' s"
      then have "ms s" "\<not> unlocking (sy_threads st g') s" "\<exists>h. sy_slots st s = Some h \<and> owner_at st h = Some g'"
        using parts(4) by (auto simp: holds_inv_def)
      then have "ms s" "\<not> unlocking (sy_threads st g') s" "owner_at st h = Some g'" using that by auto
      moreover have "s = slot_of op" using one that slot by blast
      ultimately show False using owner op pc assms(2) by (cases op) auto
    qed
    then show "flag_inv (goto_pc g op (Release h) (set_locked h False st))"
      by (intro flag_inv_change [OF assms(6)]) auto
  qed (rule flag_inv_change [OF assms(6)]; auto dest: old)+
qed

lemma relock_inv_step:
  assumes "op_step g op pc st = Some st'" "sy_threads st g = At op pc" "sy_outcome st' = Running" "relock_inv st"
  shows "relock_inv st'"
  using assms(1)
proof (cases rule: op_step_cases; use assms(3) in simp_all)
qed (use assms(2,4) in \<open>auto simp: relock_inv_def broadcast_At split: if_splits\<close>)

definition tidy :: "sync \<Rightarrow> bool" where
  "tidy st \<longleftrightarrow> unlock_inv st \<and> flag_inv st \<and> relock_inv st"

lemma tidy_call:
  assumes "sync_inv ms st" "tidy st" "sy_threads st g = Idle" "disciplined (sy_log (sync_call g op st))"
  shows "tidy (sync_call g op st)"
proof -
  let ?st = "sync_call g op st"
  have same [simp]: "sy_slots ?st = sy_slots st" "owner_at ?st = owner_at st" "locked_at ?st = locked_at st"
    "sy_threads ?st = (sy_threads st)(g := At op Load)" by (cases op; simp add: sync_call_def)+
  have held: "holds (sy_log ?st) g' s \<Longrightarrow> holds (sy_log st) g' s" for g' s by (cases op) (auto simp: sync_call_def)
  have "unlock_inv ?st"
    unfolding unlock_inv_def
  proof (intro allI impI)
    fix g' s
    assume u: "unlocking (sy_threads ?st g') s"
    show "\<exists>h. sy_slots ?st s = Some h \<and> owner_at ?st h = Some g' \<and> (early (sy_threads ?st g') \<longrightarrow> locked_at ?st h)"
    proof (cases "g' = g")
      case True
      then have "op = MUnlock s" using u by simp
      then have "holds (sy_log st) g s" using assms(4) by (simp add: sync_call_def)
      then show ?thesis using assms(1,2) True by (fastforce simp: sync_inv_def holds_inv_def tidy_def flag_inv_def)
    next
      case False
      then show ?thesis using u assms(2) by (simp add: tidy_def unlock_inv_def)
    qed
  qed
  moreover have "flag_inv ?st" using assms(2) held unfolding tidy_def flag_inv_def same by blast
  moreover have "relock_inv ?st"
    unfolding relock_inv_def
  proof (intro allI impI)
    fix g' s pc
    assume at: "sy_threads ?st g' = At (MLock s) pc"
    show "\<not> holds (sy_log ?st) g' s"
    proof (cases "g' = g")
      case True
      then have "op = MLock s" using at by simp
      then show ?thesis using assms(4) True by (simp add: sync_call_def)
    next
      case False
      then have "\<not> holds (sy_log st) g' s" using at assms(2) by (auto simp: tidy_def relock_inv_def)
      then show ?thesis using held by blast
    qed
  qed
  ultimately show ?thesis by (simp add: tidy_def)
qed

lemma disciplined_step:
  "op_step g op pc st = Some st' \<Longrightarrow> disciplined (sy_log st') \<Longrightarrow> disciplined (sy_log st)"
proof -
  assume step: "op_step g op pc st = Some st'" and d: "disciplined (sy_log st')"
  from step show ?thesis
  proof (cases rule: op_step_cases)
    case (add_panic h)
    then have "st' = goo_waitgroup_add g op h st" using step by simp
    then show ?thesis using d by (auto simp: goo_waitgroup_add_def Let_def split: if_splits)
  qed (use d in simp_all)
qed

lemma reach_tidy: "reach ms st \<Longrightarrow> sy_outcome st = Running \<Longrightarrow> disciplined (sy_log st) \<Longrightarrow> tidy st"
proof (induction rule: reach.induct)
  case start
  show ?case by (simp add: tidy_def unlock_inv_def flag_inv_def relock_inv_def sync_init_def)
next
  case (call st g op)
  have "disciplined (sy_log st)" using call.prems by (cases op) (auto simp: sync_call_def)
  then show ?case using call by (intro tidy_call [OF reach_inv]) auto
next
  case (move st g st')
  obtain op pc where run: "sy_outcome st = Running" "sy_threads st g = At op pc" "op_step g op pc st = Some st'"
    using move.hyps(2) by (rule step_cases)
  have inv: "sync_inv ms st" "tidy st" using reach_inv [OF move.hyps(1) run(1)] move.IH run disciplined_step move.prems(2) by blast+
  note step = run(3,2) move.prems(1)
  show ?case
    using inv unlock_inv_step [OF step inv(1)] flag_inv_step [OF step inv(1)] relock_inv_step [OF step] unfolding tidy_def by blast
next
  case (wake st g op h)
  then have "tidy st" by simp
  have "threads_inv ms st" using reach_inv [OF wake.hyps(1,2)] by (simp add: sync_inv_def)
  then have "is_wait op" using threads_invD wake.hyps(3) by fastforce
  have "unlock_inv (goto_pc g op (Woken h) st)"
    by (rule unlock_inv_change [of st]) (use \<open>tidy st\<close> \<open>is_wait op\<close> wake.hyps(3) in \<open>auto simp: tidy_def split: if_splits\<close>)
  then show ?case using \<open>tidy st\<close> wake.hyps(3) unfolding tidy_def flag_inv_def relock_inv_def by (auto split: if_splits)
qed

lemma call_outcome [simp]: "sy_outcome (call_event g op st) = sy_outcome st" "sy_threads (call_event g op st) = sy_threads st"
  by (cases op; simp)+

text \<open>
  C22. A program in which goroutines unlock only what they hold and do not lock what they hold is never
  stopped by its mutexes: the check for an unlock of an unlocked mutex does not fire, and no mutex is
  used in a way the thread library leaves undefined.
\<close>

theorem disciplined_runs:
  assumes "reach ms st" "disciplined (sy_log st)"
  shows "sy_outcome st \<noteq> Misuse \<and> sy_outcome st \<noteq> Panic ''sync: unlock of unlocked mutex''"
  using assms
proof (induction rule: reach.induct)
  case (move st g st')
  obtain op pc where run: "sy_outcome st = Running" "sy_threads st g = At op pc" "op_step g op pc st = Some st'"
    using move.hyps(2) by (rule step_cases)
  have inv: "sync_inv ms st" "tidy st"
    using reach_inv [OF move.hyps(1) run(1)] reach_tidy [OF move.hyps(1) run(1)] disciplined_step [OF run(3)] move.prems by blast+
  have parts: "threads_inv ms st" "found_inv st" "owned_inv st" "unlock_inv st" "relock_inv st" "holds_inv ms st"
    using inv by (simp_all add: sync_inv_def tidy_def)
  have op: "stage_ok op pc" "on_mutex op = ms (slot_of op)" using threads_invD [OF parts(1) run(2)] by simp_all
  have fd: "found pc = Some h \<Longrightarrow> sy_slots st (slot_of op) = Some h" for h using found_invD [OF parts(2) run(2)] .
  from run(3) show ?case
  proof (cases rule: op_step_cases)
    case (relock h)
    have "holds (sy_log st) g (slot_of op) \<or> mine (sy_threads st g) = Some h \<or> unlocking (sy_threads st g) (slot_of op)"
      using parts(3) fd [of h] relock by (simp add: owned_inv_def)
    then have "holds (sy_log st) g (slot_of op)" using relock run(2) op(1) by (cases op) auto
    then have "ms (slot_of op)" "op = MLock (slot_of op)" using parts(6) op relock by (cases op; auto simp: holds_inv_def)+
    then show ?thesis using parts(5) run(2) \<open>holds (sy_log st) g (slot_of op)\<close> by (metis relock_inv_def)
  next
    case (check_panic h)
    then obtain s where s: "op = MUnlock s" using op(1) by (cases op) auto
    have "unlocking (sy_threads st g) s" "early (sy_threads st g)" using run(2) s check_panic by simp_all
    then have "\<exists>h. sy_slots st s = Some h \<and> locked_at st h" using parts(4) by (auto simp: unlock_inv_def)
    then show ?thesis using fd [of h] s check_panic by auto
  next
    case (misuse h)
    then show ?thesis using clear_owner [OF inv(1) parts(4) run(2), of h] by auto
  qed (use run(1) in simp_all)
qed (auto simp: sync_init_def sync_call_def)

section \<open>Examples\<close>

text \<open>A schedule: who moves next, with the operation it calls or a step of the one it is in.\<close>

fun play :: "(slot \<Rightarrow> bool) \<Rightarrow> (gid \<times> sop option) list \<Rightarrow> sync \<Rightarrow> sync option" where
  "play ms [] st = Some st"
| "play ms ((g, Some op) # as) st =
     (if sy_outcome st = Running \<and> sy_threads st g = Idle \<and> on_mutex op = ms (slot_of op) then play ms as (sync_call g op st) else None)"
| "play ms ((g, None) # as) st = (case sync_step g st of None \<Rightarrow> None | Some st' \<Rightarrow> play ms as st')"

lemma play_reach: "reach ms st \<Longrightarrow> play ms as st = Some st' \<Longrightarrow> reach ms st'"
  by (induction ms as st rule: play.induct) (auto intro: reach.call reach.move split: if_splits option.splits)

lemma played: "play ms as sync_init \<noteq> None \<Longrightarrow> reach ms (the (play ms as sync_init))"
  using play_reach reach.start by fastforce

lemma step_others:
  assumes "sync_step g st = Some st'" "g' \<noteq> g" "sy_threads st g' = Idle"
  shows "sy_threads st' g' = Idle"
proof -
  obtain op pc where step: "op_step g op pc st = Some st'" using assms(1) by (rule step_cases)
  then show ?thesis
  proof (cases rule: op_step_cases)
    case (add_panic h)
    then have "st' = goo_waitgroup_add g op h st" using step by simp
    then show ?thesis using assms(2,3) by (auto simp: goo_waitgroup_add_def Let_def)
  qed (use assms(2,3) in auto)
qed

lemma play_others:
  "play ms as st = Some st' \<Longrightarrow> g \<notin> fst ` set as \<Longrightarrow> sy_threads st g = Idle \<Longrightarrow> sy_threads st' g = Idle"
  by (induction ms as st rule: play.induct) (auto simp: sync_call_def dest: step_others split: if_splits option.splits)

text \<open>Two goroutines race for the first \<open>Lock\<close> of a variable; the second waits for the first.\<close>

definition race_schedule :: "(gid \<times> sop option) list" where
  "race_schedule = [(0, Some (MLock 0)), (1, Some (MLock 0)), (0, None), (1, None)] @ replicate 7 (0, None) @ replicate 3 (1, None)"

definition race :: sync where
  "race = the (play (\<lambda>s. True) race_schedule sync_init)"

lemma race_facts:
  "reach (\<lambda>s. True) race" "holds (sy_log race) 0 0" "disciplined (sy_log race)" "sy_outcome race = Running"
  "sy_threads race 0 = Idle" "sy_threads race 1 = At (MLock 0) (Acquire 0)" "sync_step 1 race = None"
proof -
  show "reach (\<lambda>s. True) race" unfolding race_def by (rule played) code_simp
qed code_simp+

lemma race_stuck: "\<forall>g. sync_step g race = None"
proof
  fix g
  consider "g = 1" | "sy_threads race g = Idle"
  proof (cases "g \<in> {0, 1}")
    case False
    have "play (\<lambda>s. True) race_schedule sync_init = Some race" unfolding race_def by (rule option.collapse [symmetric]) code_simp
    moreover have "g \<notin> fst ` set race_schedule" using False by (auto simp: race_schedule_def)
    ultimately have "sy_threads race g = Idle" by (rule play_others) (simp add: sync_init_def)
    then show ?thesis using that by blast
  qed (use race_facts(5) that in auto)
  then show "sync_step g race = None" using race_facts(7) by cases (auto simp: sync_step_def)
qed


theorem mutex_exclusive_witness: "holds (sy_log race) 0 0 \<and> \<not> holds (sy_log race) 1 0"
  using mutex_exclusive [OF race_facts(1,2), of 1] race_facts(2) by auto

theorem disciplined_runs_witness: "sy_outcome race \<noteq> Misuse \<and> sy_outcome race \<noteq> Panic ''sync: unlock of unlocked mutex''"
  by (rule disciplined_runs [OF race_facts(1,3)])

text \<open>A goroutine sleeps in \<open>Wait\<close> until the work added before is done.\<close>

definition waited :: sync where
  "waited = the (play (\<lambda>s. False) ([(0, Some (WAdd 0 1))] @ replicate 11 (0, None) @ [(1, Some (WWait 0))] @ replicate 4 (1, None)
     @ [(0, Some (WDone 0))] @ replicate 6 (0, None) @ replicate 4 (1, None)) sync_init)"

lemma waited_facts:
  "reach (\<lambda>s. False) waited" "sy_log waited = [] @ Passed 1 0 # [Added 0 (-1), Added 0 1]"
proof -
  show "reach (\<lambda>s. False) waited" unfolding waited_def by (rule played) code_simp
qed code_simp


end
