(* ===== verification/Sched.thy ===== *)
theory Sched
  imports Strings
begin

text \<open>
  The scheduler of goroutines, \<open>src/runtime/concurrency.c\<close>: worker threads that take goroutines from a
  shared queue, switch to them, and free or queue them again when control comes back; spawning,
  yielding, exiting, the accounting of blocked goroutines, and the wait of the main thread with its
  deadlock detector. Sections under the scheduler's mutex are single steps. What a goroutine does is
  up to the program: a step of a running goroutine takes the action as an argument.
\<close>

section \<open>Size of the pool\<close>

definition GOO_MAX_OS_THREADS :: int where
  "GOO_MAX_OS_THREADS = 16"

text \<open>
  \<open>strtol\<close> in base 10, with the value before it is limited to the range of \<open>long\<close>, and the text after
  the number; \<open>None\<close> when there are no digits.
\<close>

definition strtol :: "bytes \<Rightarrow> (int \<times> bytes) option" where
  "strtol buf =
     (let s = dropWhile isspace buf;
          (neg, t) = (case s of c # cs \<Rightarrow> if c = 0x2D then (True, cs) else if c = 0x2B then (False, cs) else (False, s)
                      | [] \<Rightarrow> (False, []));
          ds = takeWhile isdigit t;
          v = foldl (\<lambda>n d. 10 * n + (uint d - 48)) 0 ds in
      if ds = [] then None
      else Some (max (- (2 ^ 63)) (min (2 ^ 63 - 1) (if neg then - v else v)), dropWhile isdigit t))"

text \<open>The value of \<open>GOMAXPROCS\<close>, if it is set, and the number of processors online.\<close>

definition goo_default_thread_count :: "bytes option \<Rightarrow> int \<Rightarrow> int" where
  "goo_default_thread_count env ncpu =
     (let cpus = (let n = (if ncpu < 1 then 1 else ncpu) in if n > GOO_MAX_OS_THREADS then GOO_MAX_OS_THREADS else n) in
      case env of None \<Rightarrow> cpus
      | Some s \<Rightarrow> if s = [] then cpus
          else (case strtol s of None \<Rightarrow> cpus
            | Some (n, rest) \<Rightarrow> if rest = [] \<and> n \<ge> 1 then (if n > GOO_MAX_OS_THREADS then GOO_MAX_OS_THREADS else n) else cpus))"

section \<open>State\<close>

datatype gstate = GOO_GOROUTINE_READY | GOO_GOROUTINE_RUNNING | GOO_GOROUTINE_BLOCKED | GOO_GOROUTINE_DONE

type_synonym gor = nat
type_synonym wid = nat

text \<open>\<open>go_saved\<close>: the context is complete, so that a worker may switch to it.\<close>

record goroutine =
  go_state :: gstate
  go_saved :: bool

text \<open>
  Where a worker is: in the loop, with a goroutine it has taken, running its code, on the way out of
  it, or back on its own stack with the contents of \<open>t_reap\<close> and \<open>t_requeue\<close>.
\<close>

datatype worker =
    Loop
  | Fetch
  | Picked gor
  | Switch gor
  | Run gor
  | Spawning gor gor
  | Blocked gor
  | Yielding gor
  | Exiting gor
  | After "gor option" "gor option"
  | Sleep
  | Cycle
  | Stopped

text \<open>The main thread: the body of the program, a goroutine it is creating, and the wait with its streak.\<close>

datatype main =
    Body
  | MainSpawning gor
  | Waiting nat
  | Returned
  | Joining
  | Ended
  | Aborted

text \<open>What must not happen: an access to a freed goroutine, a switch to an incomplete context.\<close>

datatype fault = UseAfterFree | BrokenContext

datatype sevent = Spawned gor | Finished gor

record sched =
  sc_heap :: "gor \<Rightarrow> goroutine option"
  sc_queue :: "gor list"
  sc_num :: nat
  sc_next :: gor
  sc_running :: bool
  sc_blocked :: int
  sc_main_in_wait :: bool
  sc_switches :: nat
  sc_cycles :: nat
  sc_threads :: nat
  sc_workers :: "wid \<Rightarrow> worker"
  sc_main :: main
  sc_fault :: "fault option"
  sc_log :: "sevent list"

definition goo_scheduler_init :: "int \<Rightarrow> sched" where
  "goo_scheduler_init num_threads =
     (let n = (if num_threads \<le> 0 then 1 else if num_threads > GOO_MAX_OS_THREADS then GOO_MAX_OS_THREADS else num_threads) in
      \<lparr>sc_heap = (\<lambda>k. None), sc_queue = [], sc_num = 0, sc_next = 1, sc_running = True, sc_blocked = 0, sc_main_in_wait = False,
       sc_switches = 0, sc_cycles = 0, sc_threads = nat n, sc_workers = (\<lambda>w. if w < nat n then Loop else Stopped),
       sc_main = Body, sc_fault = None, sc_log = []\<rparr>)"

definition put_worker :: "wid \<Rightarrow> worker \<Rightarrow> sched \<Rightarrow> sched" where
  "put_worker w p st = st\<lparr>sc_workers := (sc_workers st)(w := p)\<rparr>"

text \<open>An update of the fields of a goroutine faults when it has been freed.\<close>

definition touch :: "gor \<Rightarrow> (goroutine \<Rightarrow> goroutine) \<Rightarrow> sched \<Rightarrow> sched" where
  "touch k f st = (case sc_heap st k of None \<Rightarrow> st\<lparr>sc_fault := Some UseAfterFree\<rparr>
     | Some g \<Rightarrow> st\<lparr>sc_heap := (sc_heap st)(k \<mapsto> f g)\<rparr>)"

definition free_goroutine :: "gor \<Rightarrow> sched \<Rightarrow> sched" where
  "free_goroutine k st = (case sc_heap st k of None \<Rightarrow> st\<lparr>sc_fault := Some UseAfterFree\<rparr>
     | Some g \<Rightarrow> st\<lparr>sc_heap := (sc_heap st)(k := None)\<rparr>)"

section \<open>Operations\<close>

definition scheduler_add_goroutine :: "gor \<Rightarrow> sched \<Rightarrow> sched" where
  "scheduler_add_goroutine k st = (touch k id st)\<lparr>sc_queue := k # sc_queue st\<rparr>"

definition scheduler_get_next_goroutine :: "sched \<Rightarrow> gor option \<times> sched" where
  "scheduler_get_next_goroutine st = (case sc_queue st of [] \<Rightarrow> (None, st)
     | k # ks \<Rightarrow> (Some k, (touch k id st)\<lparr>sc_queue := ks\<rparr>))"

text \<open>\<open>goo_go\<close> up to the count of the new goroutine, and from there: the context is made, then published.\<close>

definition go_count :: "sched \<Rightarrow> gor \<times> sched" where
  "go_count st = (sc_next st,
     st\<lparr>sc_heap := (sc_heap st)(sc_next st \<mapsto> \<lparr>go_state = GOO_GOROUTINE_READY, go_saved = False\<rparr>),
        sc_next := sc_next st + 1, sc_num := sc_num st + 1, sc_log := Spawned (sc_next st) # sc_log st\<rparr>)"

definition go_publish :: "gor \<Rightarrow> sched \<Rightarrow> sched" where
  "go_publish k st = scheduler_add_goroutine k (touch k (\<lambda>g. g\<lparr>go_saved := True\<rparr>) st)"

definition goo_sched_block_begin :: "sched \<Rightarrow> sched" where
  "goo_sched_block_begin st = st\<lparr>sc_blocked := sc_blocked st + 1\<rparr>"

definition goo_sched_block_end :: "sched \<Rightarrow> sched" where
  "goo_sched_block_end st = (if sc_blocked st > 0 then st\<lparr>sc_blocked := sc_blocked st - 1\<rparr> else st)"

text \<open>The same on the main thread: it gives up when nobody is left that could wake it.\<close>

definition main_block_begin :: "sched \<Rightarrow> sched" where
  "main_block_begin st = (if sc_num st = 0 \<and> sc_queue st = [] then st\<lparr>sc_main := Aborted\<rparr> else st)"

text \<open>What a running goroutine does next. \<open>Wake\<close> is the return from the wait on a channel.\<close>

datatype action = Spawn | Yield | Block | Wake | Exit

definition goroutine_step :: "wid \<Rightarrow> gor \<Rightarrow> action \<Rightarrow> sched \<Rightarrow> sched option" where
  "goroutine_step w k a st = (case a of
     Spawn \<Rightarrow> (let (k', st1) = go_count st in Some (put_worker w (Spawning k k') st1))
   | Yield \<Rightarrow> Some (put_worker w (Yielding k) (touch k (\<lambda>g. g\<lparr>go_state := GOO_GOROUTINE_READY\<rparr>) st))
   | Block \<Rightarrow> Some (put_worker w (Blocked k) (goo_sched_block_begin st))
   | Wake \<Rightarrow> None
   | Exit \<Rightarrow> Some (put_worker w (Exiting k) (touch k (\<lambda>g. g\<lparr>go_state := GOO_GOROUTINE_DONE\<rparr>) st)))"

definition switch_to :: "wid \<Rightarrow> gor \<Rightarrow> sched \<Rightarrow> sched" where
  "switch_to w k st = (case sc_heap st k of
     None \<Rightarrow> st\<lparr>sc_fault := Some UseAfterFree\<rparr>
   | Some g \<Rightarrow> if go_saved g then put_worker w (Run k) (touch k (\<lambda>g. g\<lparr>go_saved := False\<rparr>) (st\<lparr>sc_switches := sc_switches st + 1\<rparr>))
       else st\<lparr>sc_fault := Some BrokenContext\<rparr>)"

definition goo_goroutine_exit :: "wid \<Rightarrow> gor \<Rightarrow> sched \<Rightarrow> sched" where
  "goo_goroutine_exit w k st = put_worker w (After (Some k) None) (st\<lparr>sc_num := sc_num st - 1, sc_log := Finished k # sc_log st\<rparr>)"

text \<open>One step of \<open>scheduler_main_loop\<close>, or of the goroutine it runs; \<open>None\<close> when the worker cannot move.\<close>

fun scheduler_main_loop :: "wid \<Rightarrow> action \<Rightarrow> worker \<Rightarrow> sched \<Rightarrow> sched option" where
  "scheduler_main_loop w a Loop st = Some (put_worker w (if sc_running st then Fetch else Stopped) st)"
| "scheduler_main_loop w a Fetch st = (case scheduler_get_next_goroutine st of
     (None, st1) \<Rightarrow> Some (put_worker w Sleep st1) | (Some k, st1) \<Rightarrow> Some (put_worker w (Picked k) st1))"
| "scheduler_main_loop w a (Picked k) st = Some (put_worker w (Switch k) (touch k (\<lambda>g. g\<lparr>go_state := GOO_GOROUTINE_RUNNING\<rparr>) st))"
| "scheduler_main_loop w a (Switch k) st = Some (switch_to w k st)"
| "scheduler_main_loop w a (Run k) st = goroutine_step w k a st"
| "scheduler_main_loop w a (Spawning k k') st = Some (put_worker w (Run k) (go_publish k' st))"
| "scheduler_main_loop w a (Blocked k) st = (if a = Wake then Some (put_worker w (Run k) (goo_sched_block_end st)) else None)"
| "scheduler_main_loop w a (Yielding k) st = Some (put_worker w (After None (Some k)) (touch k (\<lambda>g. g\<lparr>go_saved := True\<rparr>) st))"
| "scheduler_main_loop w a (Exiting k) st = Some (goo_goroutine_exit w k st)"
| "scheduler_main_loop w a (After (Some k) q) st = Some (put_worker w (After None q) (free_goroutine k st))"
| "scheduler_main_loop w a (After None (Some k)) st = Some (put_worker w (After None None) (scheduler_add_goroutine k st))"
| "scheduler_main_loop w a (After None None) st = Some (put_worker w Cycle st)"
| "scheduler_main_loop w a Sleep st = Some (put_worker w Cycle st)"
| "scheduler_main_loop w a Cycle st = Some (put_worker w Loop (st\<lparr>sc_cycles := sc_cycles st + 1\<rparr>))"
| "scheduler_main_loop w a Stopped st = None"

text \<open>One poll of \<open>goo_scheduler_wait\<close>.\<close>

definition all_asleep :: "sched \<Rightarrow> bool" where
  "all_asleep st = (sc_num st > 0 \<and> sc_blocked st = int (sc_num st) \<and> sc_queue st = [])"

definition goo_scheduler_wait :: "nat \<Rightarrow> sched \<Rightarrow> sched" where
  "goo_scheduler_wait streak st =
     (let streak' = (if all_asleep st then streak + 1 else 0) in
      st\<lparr>sc_main := (if streak' \<ge> 100 then Aborted
          else if (sc_num st = 0 \<and> sc_queue st = []) \<or> \<not> sc_running st then Returned
          else Waiting streak')\<rparr>)"

datatype main_action = MainSpawn | MainBlock | MainWait | MainShutdown | MainStep

fun main_step :: "main_action \<Rightarrow> main \<Rightarrow> sched \<Rightarrow> sched option" where
  "main_step MainSpawn Body st = (let (k, st1) = go_count st in Some (st1\<lparr>sc_main := MainSpawning k\<rparr>))"
| "main_step MainBlock Body st = Some (main_block_begin st)"
| "main_step MainWait Body st = Some (st\<lparr>sc_main_in_wait := True, sc_main := Waiting 0\<rparr>)"
| "main_step MainStep (MainSpawning k) st = Some ((go_publish k st)\<lparr>sc_main := Body\<rparr>)"
| "main_step MainStep (Waiting streak) st = Some (goo_scheduler_wait streak st)"
| "main_step MainShutdown Returned st = Some (st\<lparr>sc_running := False, sc_main := Joining\<rparr>)"
| "main_step MainStep Joining st = (if \<forall>w < sc_threads st. sc_workers st w = Stopped then Some (st\<lparr>sc_main := Ended\<rparr>) else None)"
| "main_step _ _ st = None"

definition main_gone :: "sched \<Rightarrow> bool" where
  "main_gone st = (sc_main st = Aborted \<or> sc_main st = Ended)"

inductive runs_to :: "int \<Rightarrow> sched \<Rightarrow> bool" for n where
  init: "runs_to n (goo_scheduler_init n)"
| work: "runs_to n st \<Longrightarrow> sc_fault st = None \<Longrightarrow> \<not> main_gone st \<Longrightarrow> w < sc_threads st
    \<Longrightarrow> scheduler_main_loop w a (sc_workers st w) st = Some st' \<Longrightarrow> runs_to n st'"
| main: "runs_to n st \<Longrightarrow> sc_fault st = None \<Longrightarrow> main_step a (sc_main st) st = Some st' \<Longrightarrow> runs_to n st'"

end
