(* ===== verification/Sched_Props.thy ===== *)
theory Sched_Props
  imports Sched
begin

text \<open>
  The runs of the scheduler. Every goroutine is in one place at a time, the queue, the hands of one
  worker or those of the main thread, so no worker touches a freed goroutine or switches to a context
  that is not complete; none is lost; and the counters the wait of the main thread polls mean what it
  takes them to mean.
\<close>

section \<open>Places\<close>

fun hands :: "worker \<Rightarrow> gor set" where
  "hands (Picked k) = {k}"
| "hands (Switch k) = {k}"
| "hands (Run k) = {k}"
| "hands (Spawning k k') = {k, k'}"
| "hands (Blocked k) = {k}"
| "hands (Yielding k) = {k}"
| "hands (Exiting k) = {k}"
| "hands (After r q) = set_option r \<union> set_option q"
| "hands _ = {}"

fun main_hands :: "main \<Rightarrow> gor set" where
  "main_hands (MainSpawning k) = {k}"
| "main_hands _ = {}"

definition places_inv :: "sched \<Rightarrow> bool" where
  "places_inv st \<longleftrightarrow> distinct (sc_queue st) \<and> main_hands (sc_main st) \<inter> set (sc_queue st) = {}
   \<and> (\<forall>w. hands (sc_workers st w) \<inter> (set (sc_queue st) \<union> main_hands (sc_main st)) = {})
   \<and> (\<forall>w w'. w \<noteq> w' \<longrightarrow> hands (sc_workers st w) \<inter> hands (sc_workers st w') = {})
   \<and> (\<forall>w k k'. sc_workers st w = Spawning k k' \<longrightarrow> k \<noteq> k')"

definition held :: "sched \<Rightarrow> gor set" where
  "held st = set (sc_queue st) \<union> main_hands (sc_main st) \<union> (\<Union>w. hands (sc_workers st w))"

definition alive_inv :: "sched \<Rightarrow> bool" where
  "alive_inv st \<longleftrightarrow> (\<forall>k \<in> held st. k < sc_next st \<and> sc_heap st k \<noteq> None)"

fun wants_saved :: "worker \<Rightarrow> gor set" where
  "wants_saved (Picked k) = {k}"
| "wants_saved (Switch k) = {k}"
| "wants_saved (After r q) = set_option q"
| "wants_saved _ = {}"

definition saved_inv :: "sched \<Rightarrow> bool" where
  "saved_inv st \<longleftrightarrow> (\<forall>k g. k \<in> set (sc_queue st) \<union> (\<Union>w. wants_saved (sc_workers st w)) \<longrightarrow> sc_heap st k = Some g \<longrightarrow> go_saved g)"

section \<open>Live goroutines\<close>

definition live :: "sevent list \<Rightarrow> gor set" where
  "live l = {k. Spawned k \<in> set l \<and> Finished k \<notin> set l}"

fun unfinished :: "worker \<Rightarrow> gor set" where
  "unfinished (After r q) = set_option q"
| "unfinished p = hands p"

definition live_inv :: "sched \<Rightarrow> bool" where
  "live_inv st \<longleftrightarrow> sc_num st = card (live (sc_log st))
   \<and> live (sc_log st) = set (sc_queue st) \<union> main_hands (sc_main st) \<union> (\<Union>w. unfinished (sc_workers st w))
   \<and> (\<forall>k. Spawned k \<in> set (sc_log st) \<or> Finished k \<in> set (sc_log st) \<longrightarrow> k < sc_next st)"

definition is_blocked :: "worker \<Rightarrow> bool" where
  "is_blocked p = (\<exists>k. p = Blocked k)"

definition pool_inv :: "sched \<Rightarrow> bool" where
  "pool_inv st \<longleftrightarrow> (\<forall>w \<ge> sc_threads st. sc_workers st w = Stopped)
   \<and> sc_blocked st = int (card {w. is_blocked (sc_workers st w)})
   \<and> (\<forall>w k q. sc_workers st w = After (Some k) q \<longrightarrow> q = None)"

section \<open>Effects of a step\<close>

lemma put_reads [simp]:
  "sc_heap (put_worker w p st) = sc_heap st" "sc_queue (put_worker w p st) = sc_queue st" "sc_num (put_worker w p st) = sc_num st"
  "sc_next (put_worker w p st) = sc_next st" "sc_blocked (put_worker w p st) = sc_blocked st" "sc_threads (put_worker w p st) = sc_threads st"
  "sc_main (put_worker w p st) = sc_main st" "sc_fault (put_worker w p st) = sc_fault st" "sc_log (put_worker w p st) = sc_log st"
  "sc_workers (put_worker w p st) = (sc_workers st)(w := p)" "sc_running (put_worker w p st) = sc_running st"
  by (simp_all add: put_worker_def)

lemma block_end_reads [simp]:
  "sc_heap (goo_sched_block_end st) = sc_heap st" "sc_queue (goo_sched_block_end st) = sc_queue st" "sc_num (goo_sched_block_end st) = sc_num st"
  "sc_next (goo_sched_block_end st) = sc_next st" "sc_threads (goo_sched_block_end st) = sc_threads st"
  "sc_main (goo_sched_block_end st) = sc_main st" "sc_fault (goo_sched_block_end st) = sc_fault st" "sc_log (goo_sched_block_end st) = sc_log st"
  "sc_workers (goo_sched_block_end st) = sc_workers st" "sc_running (goo_sched_block_end st) = sc_running st"
  by (simp_all add: goo_sched_block_end_def)

lemma touch_alive [simp]: "sc_heap st k = Some g \<Longrightarrow> touch k f st = st\<lparr>sc_heap := (sc_heap st)(k \<mapsto> f g)\<rparr>"
  by (simp add: touch_def)

lemma hands_alive:
  "alive_inv st \<Longrightarrow> k \<in> hands (sc_workers st w) \<Longrightarrow> \<exists>g. sc_heap st k = Some g"
  by (auto simp: alive_inv_def held_def)

lemma queue_alive: "alive_inv st \<Longrightarrow> k \<in> set (sc_queue st) \<Longrightarrow> \<exists>g. sc_heap st k = Some g"
  by (auto simp: alive_inv_def held_def)

text \<open>
  With every goroutine alive a step has one of eight effects: nothing but the place in the loop, a
  goroutine taken from the queue, its fields or the count of blocked ones changed, one created,
  published, finished, freed, or queued again.
\<close>

lemma step_effects [consumes 5, case_names idle taken changed blocks wakes created published finished freed requeued]:
  assumes "alive_inv st" "saved_inv st" "pool_inv st" "scheduler_main_loop w a (sc_workers st w) st = Some st'" "sc_fault st = None"
  obtains
    p c where "hands (sc_workers st w) = {}" "hands p = {}" "unfinished p = {}" "wants_saved p = {}" "\<not> is_blocked (sc_workers st w)" "\<not> is_blocked p"
      "\<forall>k q. p \<noteq> After (Some k) q" "\<forall>k k'. p \<noteq> Spawning k k'"
      "st' = put_worker w p (st\<lparr>sc_cycles := c\<rparr>)"
  | k ks g where "sc_workers st w = Fetch" "sc_queue st = k # ks" "sc_heap st k = Some g" "st' = put_worker w (Picked k) (st\<lparr>sc_heap := (sc_heap st)(k \<mapsto> g), sc_queue := ks\<rparr>)"
  | k p g g' n where "hands (sc_workers st w) = {k}" "unfinished (sc_workers st w) = {k}" "sc_heap st k = Some g"
      "hands p = {k}" "unfinished p = {k}" "wants_saved p = {k} \<and> go_saved g' \<or> wants_saved p = {}"
      "\<not> is_blocked (sc_workers st w)" "\<not> is_blocked p" "\<forall>k q. p \<noteq> After (Some k) q" "\<forall>k k'. p \<noteq> Spawning k k'"
      "st' = put_worker w p (st\<lparr>sc_switches := n, sc_heap := (sc_heap st)(k \<mapsto> g')\<rparr>)"
  | k where "sc_workers st w = Run k" "st' = put_worker w (Blocked k) (st\<lparr>sc_blocked := sc_blocked st + 1\<rparr>)"
  | k where "sc_workers st w = Blocked k" "st' = put_worker w (Run k) (goo_sched_block_end st)"
  | k where "sc_workers st w = Run k" "st' = put_worker w (Spawning k (sc_next st)) (snd (go_count st))"
  | k k' g where "sc_workers st w = Spawning k k'" "sc_heap st k' = Some g"
      "st' = put_worker w (Run k) (st\<lparr>sc_heap := (sc_heap st)(k' \<mapsto> g\<lparr>go_saved := True\<rparr>), sc_queue := k' # sc_queue st\<rparr>)"
  | k where "sc_workers st w = Exiting k" "st' = goo_goroutine_exit w k st"
  | k g where "sc_workers st w = After (Some k) None" "sc_heap st k = Some g" "st' = put_worker w (After None None) (st\<lparr>sc_heap := (sc_heap st)(k := None)\<rparr>)"
  | k g where "sc_workers st w = After None (Some k)" "sc_heap st k = Some g"
      "st' = put_worker w (After None None) (st\<lparr>sc_heap := (sc_heap st)(k \<mapsto> g), sc_queue := k # sc_queue st\<rparr>)"
proof -
  have ha: "\<exists>g. sc_heap st k = Some g" if "k \<in> hands (sc_workers st w)" for k using hands_alive [OF assms(1)] that .
  have qa: "\<exists>g. sc_heap st k = Some g" if "k \<in> set (sc_queue st)" for k using queue_alive [OF assms(1)] that .
  have sv: "go_saved g" if "k \<in> wants_saved (sc_workers st w)" "sc_heap st k = Some g" for k g using assms(2) that by (auto simp: saved_inv_def)
  show ?thesis
  proof (cases "sc_workers st w")
    case Loop
    then show ?thesis using assms(4) by (intro that(1) [of "if sc_running st then Fetch else Stopped" "sc_cycles st"]) (auto simp: is_blocked_def)
  next
    case Fetch
    show ?thesis
    proof (cases "sc_queue st")
      case Nil
      then show ?thesis using Fetch assms(4) by (intro that(1) [of Sleep "sc_cycles st"]) (auto simp: is_blocked_def scheduler_get_next_goroutine_def)
    next
      case (Cons k ks)
      then obtain g where g: "sc_heap st k = Some g" using qa by auto
      then show ?thesis using Fetch Cons assms(4) by (intro that(2) [OF Fetch Cons g]) (simp add: scheduler_get_next_goroutine_def)
    qed
  next
    case (Picked k)
    then obtain g where g: "sc_heap st k = Some g" using ha by auto
    show ?thesis
      by (rule that(3) [of k g "Switch k" "g\<lparr>go_state := GOO_GOROUTINE_RUNNING\<rparr>" "sc_switches st"])
        (use Picked g sv [of k g] assms(4) in \<open>auto simp: is_blocked_def\<close>)
  next
    case (Switch k)
    then obtain g where g: "sc_heap st k = Some g" using ha by auto
    then have "go_saved g" using sv Switch by simp
    then show ?thesis
      by (intro that(3) [of k g "Run k" "g\<lparr>go_saved := False\<rparr>" "sc_switches st + 1"]) (use Switch g assms(4) in \<open>auto simp: is_blocked_def switch_to_def\<close>)
  next
    case (Run k)
    then obtain g where g: "sc_heap st k = Some g" using ha by auto
    have step: "goroutine_step w k a st = Some st'" using assms(4) Run by simp
    show ?thesis
    proof (cases a)
      case Spawn
      then show ?thesis using step Run by (intro that(6)) (auto simp: goroutine_step_def go_count_def)
    next
      case Yield
      then show ?thesis
        by (intro that(3) [of k g "Yielding k" "g\<lparr>go_state := GOO_GOROUTINE_READY\<rparr>" "sc_switches st"])
          (use step Run g in \<open>auto simp: is_blocked_def goroutine_step_def\<close>)
    next
      case Block
      then show ?thesis using step Run by (intro that(4)) (auto simp: goroutine_step_def goo_sched_block_begin_def)
    next
      case Wake
      then show ?thesis using step by (simp add: goroutine_step_def)
    next
      case Exit
      then show ?thesis
        by (intro that(3) [of k g "Exiting k" "g\<lparr>go_state := GOO_GOROUTINE_DONE\<rparr>" "sc_switches st"])
          (use step Run g in \<open>auto simp: is_blocked_def goroutine_step_def\<close>)
    qed
  next
    case (Spawning k k')
    then obtain g where g: "sc_heap st k' = Some g" using ha by auto
    then show ?thesis using Spawning assms(4) by (intro that(7) [OF Spawning g]) (simp add: go_publish_def scheduler_add_goroutine_def)
  next
    case (Blocked k)
    then show ?thesis using assms(4) by (intro that(5)) (auto split: if_splits)
  next
    case (Yielding k)
    then obtain g where g: "sc_heap st k = Some g" using ha by auto
    show ?thesis
      by (rule that(3) [of k g "After None (Some k)" "g\<lparr>go_saved := True\<rparr>" "sc_switches st"]) (use Yielding g assms(4) in \<open>auto simp: is_blocked_def\<close>)
  next
    case (Exiting k)
    then show ?thesis using assms(4) by (intro that(8)) auto
  next
    case (After r q)
    show ?thesis
    proof (cases r)
      case None
      then show ?thesis
      proof (cases q)
        case None2: None
        then show ?thesis using After None assms(4) by (intro that(1) [of Cycle "sc_cycles st"]) (auto simp: is_blocked_def)
      next
        case (Some k)
        then have w: "sc_workers st w = After None (Some k)" using After None by simp
        then obtain g where g: "sc_heap st k = Some g" using ha by auto
        then show ?thesis using w assms(4) by (intro that(10) [OF w g]) (simp add: scheduler_add_goroutine_def)
      qed
    next
      case (Some k)
      then have w: "sc_workers st w = After (Some k) None" using After assms(3) by (auto simp: pool_inv_def)
      then obtain g where g: "sc_heap st k = Some g" using ha by auto
      then show ?thesis using w assms(4) by (intro that(9) [OF w g]) (simp add: free_goroutine_def)
    qed
  next
    case Sleep
    then show ?thesis using assms(4) by (intro that(1) [of Cycle "sc_cycles st"]) (auto simp: is_blocked_def)
  next
    case Cycle
    then show ?thesis using assms(4) by (intro that(1) [of Loop "sc_cycles st + 1"]) (auto simp: is_blocked_def)
  next
    case Stopped
    then show ?thesis using assms(4) by simp
  qed
qed

section \<open>The invariant is kept\<close>

lemma hands_held: "k \<in> hands (sc_workers st w) \<Longrightarrow> k \<in> held st"
  by (auto simp: held_def)

lemma places_only:
  "places_inv st \<Longrightarrow> k \<in> hands (sc_workers st w) \<Longrightarrow>
    k \<notin> set (sc_queue st) \<and> k \<notin> main_hands (sc_main st) \<and> (\<forall>w'. w' \<noteq> w \<longrightarrow> k \<notin> hands (sc_workers st w'))"
  unfolding places_inv_def disjoint_iff by blast

lemma places_put:
  assumes "places_inv st" "hands p \<subseteq> hands (sc_workers st w)" "\<forall>k k'. p \<noteq> Spawning k k'"
    and "sc_queue st' = sc_queue st" "sc_main st' = sc_main st" "sc_workers st' = (sc_workers st)(w := p)"
  shows "places_inv st'"
  using assms unfolding places_inv_def by (auto simp: disjoint_iff)

lemma places_queue:
  assumes "places_inv st" "insert k (hands p) = hands (sc_workers st w)" "k \<notin> hands p" "\<forall>k k'. p \<noteq> Spawning k k'"
    and "sc_queue st' = k # sc_queue st" "sc_main st' = sc_main st" "sc_workers st' = (sc_workers st)(w := p)"
  shows "places_inv st'"
proof -
  have k: "k \<in> hands (sc_workers st w)" and sub: "hands p \<subseteq> hands (sc_workers st w)" using assms(2) by auto
  obtain ws where ws: "ws = (sc_workers st)(w := p)" by simp
  have "places_inv (st\<lparr>sc_workers := ws\<rparr>)" using assms(4) sub by (intro places_put [OF assms(1), of p w]) (simp_all add: ws)
  moreover have "k \<notin> set (sc_queue st)" "k \<notin> main_hands (sc_main st)" "\<And>w'. k \<notin> hands (ws w')"
    using places_only [OF assms(1) k] assms(3) by (auto simp: ws)
  moreover have "sc_workers st' = ws" using assms(7) ws by simp
  ultimately show ?thesis unfolding places_inv_def assms(5,6) by simp
qed

lemma places_inv_step:
  assumes "places_inv st" "alive_inv st" "saved_inv st" "pool_inv st" "sc_fault st = None" "scheduler_main_loop w a (sc_workers st w) st = Some st'"
  shows "places_inv st'"
  using assms(2,3,4,6,5)
proof (cases rule: step_effects)
  case (idle p c)
  then show ?thesis by (intro places_put [OF assms(1), of p w]) simp_all
next
  case (taken k ks g)
  have "k \<notin> set ks" "\<forall>w. k \<notin> hands (sc_workers st w)" "k \<notin> main_hands (sc_main st)" using assms(1) taken by (auto simp: places_inv_def)
  then show ?thesis using assms(1) taken unfolding places_inv_def by (auto simp: disjoint_iff)
next
  case (changed k p g g' n)
  then show ?thesis by (intro places_put [OF assms(1), of p w]) simp_all
next
  case (blocks k)
  then show ?thesis by (intro places_put [OF assms(1), of "Blocked k" w]) simp_all
next
  case (wakes k)
  then show ?thesis by (intro places_put [OF assms(1), of "Run k" w]) simp_all
next
  case (created k)
  have new: "k' \<noteq> sc_next st" if "k' \<in> held st" for k' using assms(2) that by (auto simp: alive_inv_def)
  have "sc_next st \<notin> set (sc_queue st)" "\<forall>w. sc_next st \<notin> hands (sc_workers st w)" "sc_next st \<notin> main_hands (sc_main st)"
    using new [of "sc_next st"] by (auto simp: held_def)
  moreover have "k \<notin> set (sc_queue st)" "k \<notin> main_hands (sc_main st)" "\<forall>w'. w' \<noteq> w \<longrightarrow> k \<notin> hands (sc_workers st w')" "k \<noteq> sc_next st"
    using places_only [OF assms(1), of k w] created(1) new [OF hands_held, of k w] by auto
  ultimately show ?thesis using assms(1) created unfolding places_inv_def go_count_def by (auto simp: disjoint_iff)
next
  case (published k k' g)
  then have "k \<noteq> k'" using assms(1) by (auto simp: places_inv_def)
  then show ?thesis using published by (intro places_queue [OF assms(1), of k' "Run k" w]) auto
next
  case (finished k)
  then show ?thesis by (intro places_put [OF assms(1), of "After (Some k) None" w]) (simp_all add: goo_goroutine_exit_def)
next
  case (freed k g)
  then show ?thesis by (intro places_put [OF assms(1), of "After None None" w]) simp_all
next
  case (requeued k g)
  then show ?thesis by (intro places_queue [OF assms(1), of k "After None None" w]) auto
qed

lemma alive_put:
  assumes "alive_inv st" "held st' \<subseteq> held st" "sc_next st' = sc_next st" "\<And>k. k \<in> held st' \<Longrightarrow> sc_heap st k \<noteq> None \<Longrightarrow> sc_heap st' k \<noteq> None"
  shows "alive_inv st'"
  using assms unfolding alive_inv_def by (metis subsetD)

lemma held_put: "sc_queue st' = sc_queue st \<Longrightarrow> sc_main st' = sc_main st \<Longrightarrow> sc_workers st' = (sc_workers st)(w := p)
    \<Longrightarrow> hands p \<subseteq> hands (sc_workers st w) \<Longrightarrow> held st' \<subseteq> held st"
  by (auto simp: held_def split: if_splits)

lemma alive_inv_step:
  assumes "places_inv st" "alive_inv st" "saved_inv st" "pool_inv st" "sc_fault st = None" "scheduler_main_loop w a (sc_workers st w) st = Some st'"
  shows "alive_inv st'"
  using assms(2,3,4,6,5)
proof (cases rule: step_effects)
  case (idle p c)
  then show ?thesis by (intro alive_put [OF assms(2)] held_put [of _ _ w p]) auto
next
  case (taken k ks g)
  then have "held st' \<subseteq> held st" by (auto simp: held_def split: if_splits)
  then show ?thesis using taken by (intro alive_put [OF assms(2)]) auto
next
  case (changed k p g g' n)
  then show ?thesis by (intro alive_put [OF assms(2)] held_put [of _ _ w p]) auto
next
  case (blocks k)
  then show ?thesis by (intro alive_put [OF assms(2)] held_put [of _ _ w "Blocked k"]) auto
next
  case (wakes k)
  then show ?thesis by (intro alive_put [OF assms(2)] held_put [of _ _ w "Run k"]) auto
next
  case (created k)
  then have "held st' \<subseteq> insert (sc_next st) (held st)" by (auto simp: held_def go_count_def split: if_splits)
  then show ?thesis using assms(2) created by (auto simp: alive_inv_def go_count_def less_Suc_eq)
next
  case (published k k' g)
  then have "held st' \<subseteq> held st" using hands_held [of k' st w] hands_held [of k st w] by (auto simp: held_def split: if_splits)
  then show ?thesis using published by (intro alive_put [OF assms(2)]) auto
next
  case (finished k)
  then show ?thesis by (intro alive_put [OF assms(2)] held_put [of _ _ w "After (Some k) None"]) (auto simp: goo_goroutine_exit_def)
next
  case (freed k g)
  have "k \<notin> held st'" using places_only [OF assms(1), of k w] freed by (auto simp: held_def split: if_splits)
  moreover have "held st' \<subseteq> held st" using freed by (intro held_put [of _ _ w "After None None"]) auto
  ultimately show ?thesis using freed by (intro alive_put [OF assms(2)]) auto
next
  case (requeued k g)
  then have "held st' \<subseteq> held st" using hands_held [of k st w] by (auto simp: held_def split: if_splits)
  then show ?thesis using requeued by (intro alive_put [OF assms(2)]) auto
qed

lemma wants_hands: "wants_saved p \<subseteq> hands p"
  by (cases p) auto

lemma unfinished_hands: "unfinished p \<subseteq> hands p"
  by (cases p) auto

lemma UN_upd:
  "(\<Union>w'. f ((ws(w := p)) w')) = f p \<union> (\<Union>w' \<in> - {w}. f (ws w'))" "(\<Union>w'. f (ws w')) = f (ws w) \<union> (\<Union>w' \<in> - {w}. f (ws w'))"
  by (auto split: if_splits)

lemma saved_put:
  assumes "saved_inv st" "sc_workers st' = (sc_workers st)(w := p)"
    and "\<And>k g. k \<in> set (sc_queue st') \<union> wants_saved p \<Longrightarrow> k \<notin> set (sc_queue st) \<union> wants_saved (sc_workers st w) \<Longrightarrow> sc_heap st' k = Some g \<Longrightarrow> go_saved g"
    and "\<And>k g g'. k \<in> set (sc_queue st') \<union> wants_saved p \<or> (\<exists>w'. w' \<noteq> w \<and> k \<in> hands (sc_workers st w')) \<Longrightarrow>
      sc_heap st' k = Some g \<Longrightarrow> (\<And>g'. sc_heap st k = Some g' \<Longrightarrow> go_saved g') \<Longrightarrow> go_saved g"
  shows "saved_inv st'"
  unfolding saved_inv_def
proof (intro allI impI)
  fix k g
  assume k: "k \<in> set (sc_queue st') \<union> (\<Union>w. wants_saved (sc_workers st' w))" and g: "sc_heap st' k = Some g"
  have k: "k \<in> set (sc_queue st') \<union> wants_saved p \<or> (\<exists>w'. w' \<noteq> w \<and> k \<in> wants_saved (sc_workers st w'))"
    using k by (auto simp: assms(2) split: if_splits)
  have old: "go_saved g'" if "k \<in> set (sc_queue st) \<union> wants_saved (sc_workers st w'')" "sc_heap st k = Some g'" for g' w''
    using assms(1) that by (auto simp: saved_inv_def)
  show "go_saved g"
  proof (cases "k \<in> set (sc_queue st') \<union> wants_saved p")
    case True
    then show ?thesis using assms(3) [OF True _ g] assms(4) [OF _ g] old [of w] by blast
  next
    case False
    then obtain w' where w': "w' \<noteq> w" "k \<in> wants_saved (sc_workers st w')" using k by blast
    then have "k \<in> hands (sc_workers st w')" using wants_hands by blast
    then show ?thesis using assms(4) [OF _ g] w' old [of w'] by blast
  qed
qed

lemma saved_inv_step:
  assumes "places_inv st" "alive_inv st" "saved_inv st" "pool_inv st" "sc_fault st = None" "scheduler_main_loop w a (sc_workers st w) st = Some st'"
  shows "saved_inv st'"
proof -
  have only: "\<And>k w'. k \<in> hands (sc_workers st w) \<Longrightarrow> k \<notin> set (sc_queue st) \<and> (w' \<noteq> w \<longrightarrow> k \<notin> hands (sc_workers st w'))"
    using places_only [OF assms(1)] by blast
  from assms(2,3,4,6,5) show ?thesis
  proof (cases rule: step_effects)
    case (idle p c)
    show ?thesis by (rule saved_put [OF assms(3), of _ w p]) (use idle in auto)
  next
    case (taken k ks g)
    show ?thesis by (rule saved_put [OF assms(3), of _ w "Picked k"]) (use taken in \<open>auto split: if_splits\<close>)
  next
    case (changed k p g g' n)
    show ?thesis by (rule saved_put [OF assms(3), of _ w p]) (use changed only [of k] in \<open>auto split: if_splits\<close>)
  next
    case (blocks k)
    show ?thesis by (rule saved_put [OF assms(3), of _ w "Blocked k"]) (use blocks in auto)
  next
    case (wakes k)
    show ?thesis by (rule saved_put [OF assms(3), of _ w "Run k"]) (use wakes in auto)
  next
    case (created k)
    have "sc_next st \<notin> held st" using assms(2) by (auto simp: alive_inv_def)
    then have "sc_next st \<notin> set (sc_queue st)" "\<And>w'. sc_next st \<notin> hands (sc_workers st w')" using hands_held by (auto simp: held_def)
    then show ?thesis by (intro saved_put [OF assms(3), of _ w "Spawning k (sc_next st)"]) (use created in \<open>auto simp: go_count_def split: if_splits\<close>)
  next
    case (published k k' g)
    show ?thesis by (rule saved_put [OF assms(3), of _ w "Run k"]) (use published in \<open>auto split: if_splits\<close>)
  next
    case (finished k)
    show ?thesis by (rule saved_put [OF assms(3), of _ w "After (Some k) None"]) (use finished in \<open>auto simp: goo_goroutine_exit_def\<close>)
  next
    case (freed k g)
    show ?thesis by (rule saved_put [OF assms(3), of _ w "After None None"]) (use freed in \<open>auto split: if_splits\<close>)
  next
    case (requeued k g)
    have "k \<in> wants_saved (sc_workers st w)" using requeued(1) by simp
    then have "go_saved g" using assms(3) requeued(2) unfolding saved_inv_def by blast
    then show ?thesis by (intro saved_put [OF assms(3), of _ w "After None None"]) (use requeued in \<open>auto split: if_splits\<close>)
  qed
qed

lemma live_finite: "live_inv st \<Longrightarrow> finite (live (sc_log st))"
  by (rule finite_subset [of _ "{..<sc_next st}"]) (auto simp: live_inv_def live_def)

lemma live_put:
  assumes "live_inv st" "sc_workers st' = (sc_workers st)(w := p)" "sc_log st' = sc_log st" "sc_num st' = sc_num st" "sc_next st' = sc_next st"
    and "sc_main st' = sc_main st" "set (sc_queue st') \<union> unfinished p = set (sc_queue st) \<union> unfinished (sc_workers st w)"
  shows "live_inv st'"
proof -
  have "live (sc_log st) = set (sc_queue st) \<union> main_hands (sc_main st) \<union> (\<Union>w. unfinished (sc_workers st w))" using assms(1) by (simp add: live_inv_def)
  also have "\<dots> = (set (sc_queue st) \<union> unfinished (sc_workers st w)) \<union> main_hands (sc_main st) \<union> (\<Union>w' \<in> - {w}. unfinished (sc_workers st w'))"
    by (subst UN_upd(2) [of unfinished _ w]) blast
  also have "\<dots> = set (sc_queue st') \<union> main_hands (sc_main st') \<union> (\<Union>w. unfinished (sc_workers st' w))"
    unfolding assms(2,6) UN_upd(1) assms(7) [symmetric] by blast
  finally show ?thesis using assms(1,3-5) unfolding live_inv_def by simp
qed

lemma live_inv_step:
  assumes "places_inv st" "alive_inv st" "saved_inv st" "pool_inv st" "sc_fault st = None" "scheduler_main_loop w a (sc_workers st w) st = Some st'" "live_inv st"
  shows "live_inv st'"
  using assms(2,3,4,6,5)
proof (cases rule: step_effects)
  case (idle p c)
  have "unfinished (sc_workers st w) = {}" using unfinished_hands [of "sc_workers st w"] idle by simp
  then show ?thesis by (intro live_put [OF assms(7), of _ w p]) (use idle in auto)
next
  case (taken k ks g)
  show ?thesis by (rule live_put [OF assms(7), of _ w "Picked k"]) (use taken in auto)
next
  case (changed k p g g' n)
  show ?thesis by (rule live_put [OF assms(7), of _ w p]) (use changed in auto)
next
  case (blocks k)
  show ?thesis by (rule live_put [OF assms(7), of _ w "Blocked k"]) (use blocks in auto)
next
  case (wakes k)
  show ?thesis by (rule live_put [OF assms(7), of _ w "Run k"]) (use wakes in auto)
next
  case (created k)
  have new: "Spawned (sc_next st) \<notin> set (sc_log st)" "Finished (sc_next st) \<notin> set (sc_log st)" using assms(7) by (auto simp: live_inv_def)
  have live': "live (sc_log st') = insert (sc_next st) (live (sc_log st))" using created new by (auto simp: live_def go_count_def)
  have "sc_next st \<notin> live (sc_log st)" using new by (simp add: live_def)
  then have "sc_num st' = card (live (sc_log st'))" using live' live_finite [OF assms(7)] assms(7) created by (simp add: live_inv_def go_count_def)
  moreover have "live (sc_log st') = set (sc_queue st') \<union> main_hands (sc_main st') \<union> (\<Union>w. unfinished (sc_workers st' w))"
    using assms(7) created unfolding live' live_inv_def by (auto simp: go_count_def UN_upd [of unfinished _ w])
  moreover have "\<forall>k. Spawned k \<in> set (sc_log st') \<or> Finished k \<in> set (sc_log st') \<longrightarrow> k < sc_next st'"
    using assms(7) created by (auto simp: live_inv_def go_count_def less_Suc_eq)
  ultimately show ?thesis by (simp add: live_inv_def)
next
  case (published k k' g)
  show ?thesis by (rule live_put [OF assms(7), of _ w "Run k"]) (use published in auto)
next
  case (finished k)
  have live': "live (sc_log st') = live (sc_log st) - {k}" using finished by (auto simp: live_def goo_goroutine_exit_def)
  have only: "k \<notin> set (sc_queue st)" "k \<notin> main_hands (sc_main st)" "\<And>w'. w' \<noteq> w \<Longrightarrow> k \<notin> unfinished (sc_workers st w')"
    using places_only [OF assms(1), of k w] finished(1) unfinished_hands by auto
  have eq: "live (sc_log st) = insert k (set (sc_queue st) \<union> main_hands (sc_main st) \<union> (\<Union>w' \<in> - {w}. unfinished (sc_workers st w')))"
    using assms(7) finished(1) unfolding live_inv_def UN_upd(2) [of unfinished _ w] by auto
  have "k \<in> live (sc_log st)" using eq by blast
  then have "card (live (sc_log st')) = card (live (sc_log st)) - 1" unfolding live' by (rule card_Diff_singleton)
  moreover have "sc_num st' = sc_num st - 1" using finished by (simp add: goo_goroutine_exit_def)
  ultimately have "sc_num st' = card (live (sc_log st'))" using assms(7) unfolding live_inv_def by simp
  moreover have "live (sc_log st') = set (sc_queue st') \<union> main_hands (sc_main st') \<union> (\<Union>w. unfinished (sc_workers st' w))"
    using finished only unfolding live' eq by (auto simp: goo_goroutine_exit_def split: if_splits)
  moreover have "\<forall>k. Spawned k \<in> set (sc_log st') \<or> Finished k \<in> set (sc_log st') \<longrightarrow> k < sc_next st'"
    using assms(2,7) finished hands_held [of k st w] by (auto simp: live_inv_def goo_goroutine_exit_def alive_inv_def)
  ultimately show ?thesis by (simp add: live_inv_def)
next
  case (freed k g)
  show ?thesis by (rule live_put [OF assms(7), of _ w "After None None"]) (use freed in auto)
next
  case (requeued k g)
  show ?thesis by (rule live_put [OF assms(7), of _ w "After None None"]) (use requeued in auto)
qed

lemma pool_finite: "pool_inv st \<Longrightarrow> finite {w. is_blocked (sc_workers st w)}"
proof -
  assume "pool_inv st"
  then have "sc_workers st w = Stopped" if "w \<ge> sc_threads st" for w using that by (simp add: pool_inv_def)
  moreover have "\<not> is_blocked Stopped" by (simp add: is_blocked_def)
  ultimately have "w < sc_threads st" if "is_blocked (sc_workers st w)" for w using that by (metis not_less)
  then have "{w. is_blocked (sc_workers st w)} \<subseteq> {..<sc_threads st}" by blast
  then show ?thesis using finite_subset by blast
qed

lemma pool_put:
  assumes "pool_inv st" "w < sc_threads st" "sc_workers st' = (sc_workers st)(w := p)" "sc_threads st' = sc_threads st"
    and "sc_blocked st' = sc_blocked st + of_bool (is_blocked p) - of_bool (is_blocked (sc_workers st w))" "\<forall>k q. p = After (Some k) q \<longrightarrow> q = None"
  shows "pool_inv st'"
proof -
  let ?B = "{v. v \<noteq> w \<and> is_blocked (sc_workers st v)}"
  have fin: "finite ?B" using pool_finite [OF assms(1)] by (rule finite_subset [rotated]) auto
  have "{v. is_blocked (sc_workers st v)} = (if is_blocked (sc_workers st w) then insert w ?B else ?B)"
    and "{v. is_blocked (sc_workers st' v)} = (if is_blocked p then insert w ?B else ?B)" using assms(3) by auto
  then have "sc_blocked st' = int (card {v. is_blocked (sc_workers st' v)})" using assms(1,5) fin by (auto simp: pool_inv_def split: if_splits)
  then show ?thesis using assms(1-4,6) unfolding pool_inv_def by (auto split: if_splits)
qed

lemma pool_inv_step:
  assumes "alive_inv st" "saved_inv st" "pool_inv st" "sc_fault st = None" "scheduler_main_loop w a (sc_workers st w) st = Some st'" "w < sc_threads st"
  shows "pool_inv st'"
  using assms(1,2,3,5,4)
proof (cases rule: step_effects)
  case (idle p c)
  show ?thesis by (rule pool_put [OF assms(3,6), of _ p]) (use idle in auto)
next
  case (taken k ks g)
  show ?thesis by (rule pool_put [OF assms(3,6), of _ "Picked k"]) (use taken in \<open>auto simp: is_blocked_def\<close>)
next
  case (changed k p g g' n)
  show ?thesis by (rule pool_put [OF assms(3,6), of _ p]) (use changed in auto)
next
  case (blocks k)
  show ?thesis by (rule pool_put [OF assms(3,6), of _ "Blocked k"]) (use blocks in \<open>auto simp: is_blocked_def\<close>)
next
  case (wakes k)
  have "card {w. is_blocked (sc_workers st w)} > 0"
    using pool_finite [OF assms(3)] wakes(1) by (auto simp: card_gt_0_iff is_blocked_def)
  then have "sc_blocked st > 0" using assms(3) by (simp add: pool_inv_def)
  then show ?thesis by (intro pool_put [OF assms(3,6), of _ "Run k"]) (use wakes in \<open>auto simp: is_blocked_def goo_sched_block_end_def\<close>)
next
  case (created k)
  show ?thesis by (rule pool_put [OF assms(3,6), of _ "Spawning k (sc_next st)"]) (use created in \<open>auto simp: is_blocked_def go_count_def\<close>)
next
  case (published k k' g)
  show ?thesis by (rule pool_put [OF assms(3,6), of _ "Run k"]) (use published in \<open>auto simp: is_blocked_def\<close>)
next
  case (finished k)
  show ?thesis by (rule pool_put [OF assms(3,6), of _ "After (Some k) None"]) (use finished in \<open>auto simp: is_blocked_def goo_goroutine_exit_def\<close>)
next
  case (freed k g)
  show ?thesis by (rule pool_put [OF assms(3,6), of _ "After None None"]) (use freed in \<open>auto simp: is_blocked_def\<close>)
next
  case (requeued k g)
  show ?thesis by (rule pool_put [OF assms(3,6), of _ "After None None"]) (use requeued in \<open>auto simp: is_blocked_def\<close>)
qed

section \<open>The main thread\<close>

definition sched_inv :: "sched \<Rightarrow> bool" where
  "sched_inv st \<longleftrightarrow> places_inv st \<and> alive_inv st \<and> saved_inv st \<and> live_inv st \<and> pool_inv st"

lemma sched_inv_work:
  assumes "sched_inv st" "sc_fault st = None" "scheduler_main_loop w a (sc_workers st w) st = Some st'" "w < sc_threads st"
  shows "sched_inv st'"
proof -
  have parts: "places_inv st" "alive_inv st" "saved_inv st" "pool_inv st" "live_inv st" using assms(1) by (simp_all add: sched_inv_def)
  note step = parts(1-4) assms(2,3)
  show ?thesis unfolding sched_inv_def
    using places_inv_step [OF step] alive_inv_step [OF step] saved_inv_step [OF step] live_inv_step [OF step parts(5)]
      pool_inv_step [OF parts(2-4) assms(2-4)] by blast
qed

lemma work_no_fault:
  assumes "sched_inv st" "sc_fault st = None" "scheduler_main_loop w a (sc_workers st w) st = Some st'"
  shows "sc_fault st' = None"
proof -
  have parts: "alive_inv st" "saved_inv st" "pool_inv st" using assms(1) by (simp_all add: sched_inv_def)
  from parts assms(3,2) show ?thesis by (cases rule: step_effects) (use assms(2) in \<open>auto simp: go_count_def goo_goroutine_exit_def\<close>)
qed

lemma sched_inv_main_same:
  assumes "sched_inv st" "main_hands (sc_main st') = main_hands (sc_main st)"
    and "sc_heap st' = sc_heap st" "sc_queue st' = sc_queue st" "sc_num st' = sc_num st" "sc_next st' = sc_next st" "sc_blocked st' = sc_blocked st"
      "sc_threads st' = sc_threads st" "sc_workers st' = sc_workers st" "sc_log st' = sc_log st"
  shows "sched_inv st'"
  using assms unfolding sched_inv_def places_inv_def alive_inv_def saved_inv_def live_inv_def pool_inv_def held_def by simp

lemma sched_inv_main_spawn:
  assumes "sched_inv st" "sc_main st = Body"
  shows "sched_inv ((snd (go_count st))\<lparr>sc_main := MainSpawning (sc_next st)\<rparr>)"
proof -
  have parts: "places_inv st" "alive_inv st" "saved_inv st" "pool_inv st" "live_inv st" using assms(1) by (simp_all add: sched_inv_def)
  let ?k = "sc_next st" and ?st = "(snd (go_count st))\<lparr>sc_main := MainSpawning (sc_next st)\<rparr>"
  have new: "?k \<notin> held st" using parts(2) by (auto simp: alive_inv_def)
  then have out: "?k \<notin> set (sc_queue st)" "\<And>w. ?k \<notin> hands (sc_workers st w)" using hands_held by (auto simp: held_def)
  have same: "sc_queue ?st = sc_queue st" "sc_workers ?st = sc_workers st" "sc_main ?st = MainSpawning ?k" "sc_next ?st = ?k + 1"
    "sc_log ?st = Spawned ?k # sc_log st" "sc_num ?st = sc_num st + 1" by (simp_all add: go_count_def)
  have "places_inv ?st" using parts(1) out assms(2) unfolding places_inv_def same by auto
  moreover have held: "held ?st = insert ?k (held st)" unfolding held_def same using assms(2) by auto
  have "alive_inv ?st" using parts(2) unfolding alive_inv_def held same by (auto simp: go_count_def)
  moreover have "saved_inv ?st" using parts(3) out wants_hands unfolding saved_inv_def same by (fastforce simp: go_count_def split: if_splits)
  moreover have "live_inv ?st"
  proof -
    have log: "Spawned ?k \<notin> set (sc_log st)" "Finished ?k \<notin> set (sc_log st)" using parts(5) by (auto simp: live_inv_def)
    have live': "live (Spawned ?k # sc_log st) = insert ?k (live (sc_log st))" using log by (auto simp: live_def)
    have "card (insert ?k (live (sc_log st))) = card (live (sc_log st)) + 1"
      using live_finite [OF parts(5)] log by (simp add: live_def)
    then show ?thesis using parts(5) assms(2) unfolding live_inv_def same live' by (auto simp: less_Suc_eq)
  qed
  moreover have "pool_inv ?st" using parts(4) unfolding pool_inv_def same by (simp add: go_count_def)
  ultimately show ?thesis by (simp add: sched_inv_def)
qed

lemma sched_inv_main_publish:
  assumes "sched_inv st" "sc_main st = MainSpawning k" "sc_heap st k = Some g"
  shows "sched_inv (st\<lparr>sc_heap := (sc_heap st)(k \<mapsto> g\<lparr>go_saved := True\<rparr>), sc_queue := k # sc_queue st, sc_main := Body\<rparr>)"
proof -
  have parts: "places_inv st" "alive_inv st" "saved_inv st" "pool_inv st" "live_inv st" using assms(1) by (simp_all add: sched_inv_def)
  let ?st = "st\<lparr>sc_heap := (sc_heap st)(k \<mapsto> g\<lparr>go_saved := True\<rparr>), sc_queue := k # sc_queue st, sc_main := Body\<rparr>"
  have out: "k \<notin> set (sc_queue st)" "\<And>w. k \<notin> hands (sc_workers st w)" using parts(1) assms(2) by (auto simp: places_inv_def)
  have "places_inv ?st" using parts(1) out unfolding places_inv_def disjoint_iff by auto
  moreover have "held ?st = held st" using assms(2) by (auto simp: held_def)
  then have "alive_inv ?st" using parts(2) by (auto simp: alive_inv_def)
  moreover have "saved_inv ?st" using parts(3) unfolding saved_inv_def by auto
  moreover have "live_inv ?st" using parts(5) assms(2) unfolding live_inv_def by auto
  moreover have "pool_inv ?st" using parts(4) by (simp add: pool_inv_def)
  ultimately show ?thesis by (simp add: sched_inv_def)
qed

lemma sched_inv_main:
  assumes "sched_inv st" "sc_fault st = None" "main_step a (sc_main st) st = Some st'"
  shows "sched_inv st' \<and> sc_fault st' = None"
proof (cases "sc_main st")
  case Body
  show ?thesis
  proof (cases a)
    case MainSpawn
    then have "st' = (snd (go_count st))\<lparr>sc_main := MainSpawning (sc_next st)\<rparr>" using assms(3) Body by (auto simp: go_count_def)
    then show ?thesis using sched_inv_main_spawn [OF assms(1) Body] assms(2) by (simp add: go_count_def)
  next
    case MainBlock
    then have "st' = st \<or> st' = st\<lparr>sc_main := Aborted\<rparr>" using assms(3) Body by (auto simp: main_block_begin_def)
    moreover have "sched_inv (st\<lparr>sc_main := Aborted\<rparr>)" using Body by (intro sched_inv_main_same [OF assms(1)]) simp_all
    ultimately show ?thesis using assms(1,2) by auto
  next
    case MainWait
    then show ?thesis using assms Body by (auto intro!: sched_inv_main_same [OF assms(1)])
  qed (use assms(3) Body in auto)
next
  case (MainSpawning k)
  then obtain g where g: "sc_heap st k = Some g" using assms(1) by (auto simp: sched_inv_def alive_inv_def held_def)
  have "st' = st\<lparr>sc_heap := (sc_heap st)(k \<mapsto> g\<lparr>go_saved := True\<rparr>), sc_queue := k # sc_queue st, sc_main := Body\<rparr>"
    using assms(3) MainSpawning g by (cases a) (auto simp: go_publish_def scheduler_add_goroutine_def)
  then show ?thesis using sched_inv_main_publish [OF assms(1) MainSpawning g] assms(2) by simp
next
  case (Waiting streak)
  then show ?thesis using assms by (cases a) (auto simp: goo_scheduler_wait_def Let_def intro!: sched_inv_main_same [OF assms(1)] split: if_splits)
next
  case Returned
  then show ?thesis using assms by (cases a) (auto intro!: sched_inv_main_same [OF assms(1)])
next
  case Joining
  then show ?thesis using assms by (cases a) (auto intro!: sched_inv_main_same [OF assms(1)] split: if_splits)
qed (use assms in \<open>cases a; simp\<close>)+

lemma sched_inv_init: "sched_inv (goo_scheduler_init n)"
proof -
  have "hands (sc_workers (goo_scheduler_init n) w) = {}" "wants_saved (sc_workers (goo_scheduler_init n) w) = {}"
    "unfinished (sc_workers (goo_scheduler_init n) w) = {}" "\<not> is_blocked (sc_workers (goo_scheduler_init n) w)"
    "sc_workers (goo_scheduler_init n) w \<noteq> Spawning k k'" "sc_workers (goo_scheduler_init n) w \<noteq> After r q" for w k k' r q
    by (simp_all add: goo_scheduler_init_def Let_def is_blocked_def)
  note ws = this
  have rest: "sc_queue (goo_scheduler_init n) = []" "sc_main (goo_scheduler_init n) = Body" "sc_log (goo_scheduler_init n) = []"
    "sc_num (goo_scheduler_init n) = 0" "sc_blocked (goo_scheduler_init n) = 0" by (simp_all add: goo_scheduler_init_def Let_def)
  have "\<forall>w \<ge> sc_threads (goo_scheduler_init n). sc_workers (goo_scheduler_init n) w = Stopped" by (simp add: goo_scheduler_init_def Let_def)
  then show ?thesis
    unfolding sched_inv_def places_inv_def alive_inv_def saved_inv_def live_inv_def pool_inv_def held_def by (simp add: ws rest live_def)
qed

lemma runs_to_inv: "runs_to n st \<Longrightarrow> sched_inv st \<and> sc_fault st = None"
proof (induction rule: runs_to.induct)
  case init
  have "sc_fault (goo_scheduler_init n) = None" by (simp add: goo_scheduler_init_def Let_def)
  then show ?case using sched_inv_init by blast
next
  case (work st w a st')
  then show ?case using sched_inv_work work_no_fault by blast
next
  case (main st a st')
  then show ?case using sched_inv_main by blast
qed

section \<open>What the scheduler guarantees\<close>

lemma pool_size: "1 \<le> sc_threads (goo_scheduler_init n) \<and> sc_threads (goo_scheduler_init n) \<le> 16"
  by (auto simp: goo_scheduler_init_def Let_def GOO_MAX_OS_THREADS_def)

lemma default_pool_size: "1 \<le> goo_default_thread_count env ncpu \<and> goo_default_thread_count env ncpu \<le> 16"
  by (auto simp: goo_default_thread_count_def Let_def GOO_MAX_OS_THREADS_def split: option.split)

text \<open>
  C35. In every run, with any number of workers, no freed goroutine is touched and no worker switches
  to an incomplete context; a goroutine is unfinished exactly as long as it is in the queue, with the
  main thread or with a worker, and it is never in two of these places or with two workers.
\<close>

theorem scheduler_safe:
  assumes "runs_to n st"
  shows "sc_fault st = None \<and> distinct (sc_queue st) \<and> (\<forall>k.
     (Spawned k \<in> set (sc_log st) \<and> Finished k \<notin> set (sc_log st) \<longleftrightarrow>
        k \<in> set (sc_queue st) \<or> k \<in> main_hands (sc_main st) \<or> (\<exists>w. k \<in> unfinished (sc_workers st w)))
   \<and> (k \<in> main_hands (sc_main st) \<longrightarrow> k \<notin> set (sc_queue st))
   \<and> (\<forall>w. k \<in> hands (sc_workers st w) \<longrightarrow>
        k \<notin> set (sc_queue st) \<and> k \<notin> main_hands (sc_main st) \<and> (\<forall>w'. w' \<noteq> w \<longrightarrow> k \<notin> hands (sc_workers st w'))))"
proof -
  have inv: "places_inv st" "live_inv st" "sc_fault st = None" using runs_to_inv [OF assms] by (simp_all add: sched_inv_def)
  have "Spawned k \<in> set (sc_log st) \<and> Finished k \<notin> set (sc_log st) \<longleftrightarrow>
      k \<in> set (sc_queue st) \<or> k \<in> main_hands (sc_main st) \<or> (\<exists>w. k \<in> unfinished (sc_workers st w))" for k
    using inv(2) unfolding live_inv_def live_def by blast
  moreover have "distinct (sc_queue st)" "k \<in> main_hands (sc_main st) \<longrightarrow> k \<notin> set (sc_queue st)" for k
    using inv(1) unfolding places_inv_def by blast+
  ultimately show ?thesis using inv(3) places_only [OF inv(1)] by blast
qed

lemma no_live_all_finished:
  assumes "live_inv st" "sc_num st = 0" "Spawned k \<in> set (sc_log st)"
  shows "Finished k \<in> set (sc_log st)"
proof -
  have "card (live (sc_log st)) = 0" using assms(1,2) unfolding live_inv_def by metis
  then have "live (sc_log st) = {}" using live_finite [OF assms(1)] by simp
  then show ?thesis using assms(3) unfolding live_def by blast
qed

fun blocked_on :: "worker \<Rightarrow> gor" where
  "blocked_on (Blocked k) = k"
| "blocked_on p = 0"

lemma asleep_all_blocked:
  assumes "sched_inv st" "all_asleep st" "k \<in> live (sc_log st)"
  shows "\<exists>w. sc_workers st w = Blocked k"
proof -
  have inv: "places_inv st" "live_inv st" "pool_inv st" using assms(1) by (simp_all add: sched_inv_def)
  let ?B = "{w. is_blocked (sc_workers st w)}" and ?f = "\<lambda>w. blocked_on (sc_workers st w)"
  have blocked: "sc_workers st w = Blocked (?f w)" if "w \<in> ?B" for w using that by (auto simp: is_blocked_def)
  have "inj_on ?f ?B"
  proof (rule inj_onI)
    fix w w'
    assume w: "w \<in> ?B" "w' \<in> ?B" "?f w = ?f w'"
    have "?f w \<in> hands (sc_workers st w)" using blocked [OF w(1)] by (metis hands.simps(5) singletonI)
    moreover have "?f w \<in> hands (sc_workers st w')" using blocked [OF w(2)] w(3) by (metis hands.simps(5) singletonI)
    ultimately show "w = w'" using places_only [OF inv(1)] by blast
  qed
  then have "card (?f ` ?B) = card (live (sc_log st))"
    using assms(2) inv(2,3) by (simp add: card_image all_asleep_def live_inv_def pool_inv_def)
  moreover have "?f ` ?B \<subseteq> live (sc_log st)"
  proof
    fix x
    assume "x \<in> ?f ` ?B"
    then obtain w where "sc_workers st w = Blocked x" using blocked by blast
    then have "x \<in> unfinished (sc_workers st w)" by simp
    then show "x \<in> live (sc_log st)" using inv(2) unfolding live_inv_def by blast
  qed
  ultimately have "?f ` ?B = live (sc_log st)" using live_finite [OF inv(2)] by (simp add: card_subset_eq)
  then have "k \<in> ?f ` ?B" using assms(3) by simp
  then obtain w where "w \<in> ?B" "k = ?f w" by blast
  then show ?thesis using blocked [of w] by metis
qed

lemma main_decides:
  "main_step a (sc_main st) st = Some st' \<Longrightarrow> sc_main st' = Returned \<Longrightarrow> sc_running st \<Longrightarrow> sc_num st = 0"
  "main_step a (sc_main st) st = Some st' \<Longrightarrow> sc_main st' = Aborted \<Longrightarrow> sc_num st = 0 \<or> all_asleep st"
  by (cases a; cases "sc_main st"; simp add: go_count_def main_block_begin_def goo_scheduler_wait_def Let_def split: if_splits; fastforce)+

text \<open>
  C36. The main thread decides rightly: when a poll of \<open>goo_scheduler_wait\<close> ends the wait of a running
  scheduler, every goroutine ever spawned has finished, and when the poll or a blocking operation of
  the main thread reports a deadlock, every unfinished goroutine is blocked.
\<close>

theorem main_decisions:
  assumes "runs_to n st" "main_step a (sc_main st) st = Some st'"
  shows "(sc_main st' = Returned \<and> sc_running st \<longrightarrow> (\<forall>k. Spawned k \<in> set (sc_log st) \<longrightarrow> Finished k \<in> set (sc_log st)))
    \<and> (sc_main st' = Aborted \<longrightarrow> (\<forall>k. Spawned k \<in> set (sc_log st) \<longrightarrow> Finished k \<in> set (sc_log st) \<or> (\<exists>w. sc_workers st w = Blocked k)))"
proof -
  have inv: "sched_inv st" "live_inv st" using runs_to_inv [OF assms(1)] by (simp_all add: sched_inv_def)
  have returned: "sc_num st = 0" if "sc_main st' = Returned" "sc_running st"
    using assms(2) that main_decides(1) by blast
  have aborted: "sc_num st = 0 \<or> all_asleep st" if "sc_main st' = Aborted" using assms(2) that main_decides(2) by blast
  have "Finished k \<in> set (sc_log st) \<or> (\<exists>w. sc_workers st w = Blocked k)" if "sc_main st' = Aborted" "Spawned k \<in> set (sc_log st)" for k
    using aborted [OF that(1)] no_live_all_finished [OF inv(2) _ that(2)] asleep_all_blocked [OF inv(1), of k] that(2) unfolding live_def by blast
  then show ?thesis using returned no_live_all_finished [OF inv(2)] by blast
qed

section \<open>Fairness\<close>

fun steps :: "nat \<Rightarrow> wid \<Rightarrow> sched \<Rightarrow> sched option" where
  "steps 0 w st = Some st"
| "steps (Suc n) w st = (case scheduler_main_loop w Yield (sc_workers st w) st of None \<Rightarrow> None | Some st' \<Rightarrow> steps n w st')"



section \<open>Examples\<close>

text \<open>A schedule: an action of the main thread, or one of a worker.\<close>

fun drive :: "(main_action + wid \<times> action) list \<Rightarrow> sched \<Rightarrow> sched option" where
  "drive [] st = Some st"
| "drive (Inl a # xs) st = (case main_step a (sc_main st) st of None \<Rightarrow> None | Some st' \<Rightarrow> drive xs st')"
| "drive (Inr (w, a) # xs) st = (if main_gone st \<or> w \<ge> sc_threads st then None
     else case scheduler_main_loop w a (sc_workers st w) st of None \<Rightarrow> None | Some st' \<Rightarrow> drive xs st')"

lemma drive_runs: "runs_to n st \<Longrightarrow> drive xs st = Some st' \<Longrightarrow> runs_to n st'"
proof (induction xs st rule: drive.induct)
  case (2 a xs st)
  then show ?case using runs_to_inv [OF 2(2)] by (auto intro: runs_to.main split: option.splits)
next
  case (3 w a xs st)
  then obtain st1 where "scheduler_main_loop w a (sc_workers st w) st = Some st1" "drive xs st1 = Some st'" "\<not> main_gone st" "w < sc_threads st"
    by (auto split: option.splits if_splits)
  then show ?case using 3 runs_to_inv [OF 3(2)] runs_to.work [of n st w a st1] by simp
qed simp

lemma driven: "drive xs (goo_scheduler_init n) \<noteq> None \<Longrightarrow> runs_to n (the (drive xs (goo_scheduler_init n)))"
  using drive_runs runs_to.init by fastforce

text \<open>Two goroutines and one worker: the second one is taken first, then yields, exits or blocks.\<close>

definition two_spawned :: "(main_action + wid \<times> action) list" where
  "two_spawned = [Inl MainSpawn, Inl MainStep, Inl MainSpawn, Inl MainStep] @ replicate 4 (Inr (0, Exit))"

definition yielding :: sched where
  "yielding = the (drive (two_spawned @ [Inr (0, Yield)]) (goo_scheduler_init 1))"

definition exhausted :: sched where
  "exhausted = the (drive (two_spawned @ [Inr (0, Block)]) (goo_scheduler_init 1))"

definition all_done :: sched where
  "all_done = the (drive (two_spawned @ replicate 15 (Inr (0, Exit)) @ [Inl MainWait]) (goo_scheduler_init 1))"

lemma example_runs: "runs_to 1 yielding" "runs_to 1 exhausted" "runs_to 1 all_done"
  unfolding yielding_def exhausted_def all_done_def by (rule driven, code_simp)+

lemma yielding_facts: "sc_workers yielding 0 = Yielding 2" "sc_running yielding" "sc_queue yielding = [1]"
  by code_simp+

lemma exhausted_facts: "sc_workers exhausted 0 = Blocked 2" "sc_queue exhausted = [1]" "sc_running exhausted" "sc_threads exhausted = 1"
  by code_simp+

lemma all_done_facts:
  "sc_main all_done = Waiting 0" "sc_running all_done" "sc_log all_done = [Finished 1, Finished 2, Spawned 2, Spawned 1]"
  "map_option sc_main (main_step MainStep (Waiting 0) all_done) = Some Returned"
  by code_simp+

theorem scheduler_safe_witness: "sc_fault yielding = None \<and> distinct (sc_queue yielding)"
  using scheduler_safe [OF example_runs(1)] by blast



theorem main_decisions_witness:
  "\<exists>st'. main_step MainStep (sc_main all_done) all_done = Some st' \<and> sc_main st' = Returned
     \<and> Spawned 1 \<in> set (sc_log all_done) \<and> Finished 1 \<in> set (sc_log all_done)"
proof -
  obtain st' where st': "main_step MainStep (sc_main all_done) all_done = Some st'" "sc_main st' = Returned"
    using all_done_facts(1,4) by auto
  have "Spawned 1 \<in> set (sc_log all_done)" by (simp add: all_done_facts)
  then have "Finished 1 \<in> set (sc_log all_done)" using main_decisions [OF example_runs(3) st'(1)] st'(2) all_done_facts(2) by blast
  then show ?thesis using st' \<open>Spawned 1 \<in> set (sc_log all_done)\<close> by blast
qed

end
