(* ===== verification/Spec2Isabelle.thy ===== *)
theory Spec2Isabelle
  imports Lexer_Layout Terminating_Sound Types_Props Scope Channels_Props Memory Arena Maps Strings_Props Slices
    Embedding_Props Comptime_Fold ConstFold_Props Operators Release_Props Lanes_Views Bridge_Props Sync_Props
    Sched_Props
begin

text \<open>
  A verification development for the Goo compiler and its runtime, written in C: a lexer and a
  Bison parser produce an AST, the type checker (types, scopes, ownership, missing returns,
  escape analyses) accepts or rejects it, code generation lowers it to LLVM, and the compiled
  program links against a runtime with reference-counted objects, strings, slices, maps,
  arenas and channels. The definitions follow the C functions one by one and keep their names;
  the state a C function mutates is a record that the definition takes and returns.

  \<^bold>\<open>Theories and sources.\<close>

  \<^item> \<^theory_text>\<open>Prelude\<close>: C characters and strings, decimal printing, shared lemmas.

  \<^item> \<^theory_text>\<open>Token\<close>, \<^theory_text>\<open>Lexer\<close> (\<open>src/lexer/token.c\<close>, \<open>src/lexer/lexer.c\<close>): the
  token kinds with their enum values, the keyword table, and the whole scanner. The arms of
  the switch in \<open>lexer_next_token\<close> are the definitions \<open>lex_newline\<close> to \<open>lex_word\<close>; the loop around
  it is \<open>lexer_next_token\<close>, whose termination is the progress of the cursor. The global error
  counter is a field of the scanner. \<^theory_text>\<open>Lexer_Props\<close>: every call makes progress, token streams
  are finite with an exact error count, words and string literals scan back, decoding fits its buffer.
  \<^theory_text>\<open>Lexer_Layout\<close>: the text is the texts of its tokens with layout between them, each token
  at its place, and the semicolon rule over the tokens returned so far.

  \<^item> \<^theory_text>\<open>Bridge\<close> (\<open>src/parser/lexer_bridge.c\<close>): what stands between the scanner and the Bison
  parser. \<^theory_text>\<open>Bridge_Props\<close>: the parser sees every token once, in order and at its place, and the
  brace behind a control clause opens its body.

  \<^item> \<^theory_text>\<open>Terminating\<close> (\<open>src/types/terminating_stmt.c\<close>): the missing-return analysis.
  \<^theory_text>\<open>Terminating_Sound\<close> gives statements a nondeterministic big-step semantics with break,
  continue, goto and fallthrough outcomes, and shows that an accepted body never completes
  normally.

  \<^item> \<^theory_text>\<open>Types\<close> (\<open>src/types/types.c\<close>): type constructors with the names they build, the
  kind predicates, equality, substitution, unification, compatibility, mangling.
  \<^theory_text>\<open>Types_Props\<close>: equality is an equivalence, inference is sound, no implicit narrowing,
  buffer sizes, injectivity of mangling. A type is a finite tree.

  \<^item> \<^theory_text>\<open>Scope\<close> (\<open>src/types/types.c\<close>, \<open>type_checker.c\<close>, \<open>ownership_checker.c\<close>): the scope
  chain, declarations and lookups (locale \<open>environment\<close>), moves and the checks that follow
  them. \<open>type_check_expression\<close> is a parameter of \<open>is_expression_safe_to_use\<close>.

  \<^item> \<^theory_text>\<open>Embedding\<close> (\<open>src/types/embedding.c\<close>): the search for a promoted member over a heap
  of types, with its queue, visited set and bounds, and the lookup of methods.
  \<^theory_text>\<open>Embedding_Props\<close>: the search returns what the promotion rule over all embedding paths
  says, also for cyclic types, and where bare names break it.

  \<^item> \<^theory_text>\<open>ConstFold\<close>, \<^theory_text>\<open>ConstFold_Props\<close>, \<^theory_text>\<open>Operators\<close>
  (\<open>src/types/expression_helpers.c\<close>): constant folding against arbitrary-precision evaluation, and
  the operator rules with the types they give.

  \<^item> \<^theory_text>\<open>Shims\<close> (\<open>src/types/shim_signatures.c\<close>, \<open>nonretaining.c\<close>): the signatures of the
  standard-library shims and the callees that keep no argument.

  \<^item> \<^theory_text>\<open>EscapeCore\<close> (\<open>src/types/escape_core.c\<close>), \<^theory_text>\<open>Escape\<close> (\<open>param_escape.c\<close>,
  \<open>local_escape.c\<close>): the taint engine with its hooks, and the passes for parameters and locals with
  their fixpoints. \<^theory_text>\<open>Escape_Flow\<close> is a flow semantics of bodies: values carry slots, a run
  performs the actions of a body in any order and number, and a slot is lost once it may be reached
  from outside; a local container owns what is stored into it. \<^theory_text>\<open>Escape_Sound\<close>,
  \<^theory_text>\<open>Escape_Cover\<close>, \<^theory_text>\<open>Escape_Walk\<close>, \<^theory_text>\<open>Escape_Grow\<close> and
  \<^theory_text>\<open>Escape_Pass\<close>: under the contract of the hooks (locale \<open>escape_pass\<close>) the marks bound what
  every run loses. \<^theory_text>\<open>Escape_Params\<close> and \<^theory_text>\<open>Escape_Locals\<close> interpret the contract for the
  two passes: they are sound for calls of every depth, the rounds settle below their limit, and
  three shapes outside the flow semantics (a hidden global, an aliased container, the key of a
  range loop) escape without a mark.

  \<^item> \<^theory_text>\<open>BlockEscape\<close> (\<open>src/types/block_escape.c\<close>): the arena pass over the same engine, with
  allocation sites as sources. \<^theory_text>\<open>BlockEscape_Sound\<close>: discovery against a recursive description of
  the blocks and their sites, and soundness.

  \<^item> \<^theory_text>\<open>Release\<close> (\<open>src/types/release_decision.c\<close>): which locals are released.
  \<^theory_text>\<open>Release_Props\<close>: the walk records exactly the bindings of the source; a released local is
  contained in its function by the soundness of the local pass, holds fresh values only, and is no
  key that a map takes over.

  \<^item> \<^theory_text>\<open>Lanes\<close> (\<open>src/types/lane_ownership.c\<close>): the ownership rules of lanes.
  \<^theory_text>\<open>Lanes_Props\<close>: the walk decides exactly the four obligations over the events of a function
  in textual order, up to the 64 entries of its tables. \<^theory_text>\<open>Lanes_Sound\<close>: runs with branches and
  loops, for which an accepted function reads no moved slice, and three shapes where the pass misses
  a read. \<^theory_text>\<open>Lanes_Views\<close>: views stay in their goroutine.

  \<^item> \<^theory_text>\<open>Comptime\<close> (\<open>src/comptime/comptime_value.c\<close>, \<open>comptime.c\<close>, \<open>comptime_intrinsics.c\<close>): values,
  contexts and the evaluator of compile-time code. An evaluation is \<open>Done\<close>, \<open>Undefined\<close> where
  the C code has undefined behaviour, or \<open>NoReturn\<close> when the nesting bound is used up. The
  operations on \<open>double\<close> are a parameter. \<^theory_text>\<open>Comptime_Props\<close>: the bound never changes an
  answer, and type soundness. \<^theory_text>\<open>Comptime_Fold\<close>: folding agrees with evaluation, values round
  trip through syntax, and what the recursion limit, scoping and loops do.

  \<^item> \<^theory_text>\<open>Channels\<close> (\<open>src/runtime/channels.c\<close>): channels, patterns and select. The mutex
  makes the code between two waits one atomic section, so a blocking operation is a section
  that may report \<open>Blocked\<close> and is tried again. \<^theory_text>\<open>Channels_Props\<close>: the ring buffer is a bounded
  queue (locale \<open>bounded_fifo\<close>), buffered channels are first-in first-out under every
  interleaving, the rendezvous is a step relation over goroutines, and what close, select and
  the pattern channels do.

  \<^item> \<^theory_text>\<open>Sync\<close> (\<open>src/runtime/sync.c\<close>, \<open>sync_shim.c\<close>): mutexes and wait groups with their
  creation on first use, as an interleaving of small steps. \<^theory_text>\<open>Sync_Inv\<close>: the invariant of the
  runs. \<^theory_text>\<open>Sync_Props\<close>: mutual exclusion, waiting until zero, what can block for ever, and
  programs that never misuse a mutex.

  \<^item> \<^theory_text>\<open>Sched\<close> (\<open>src/runtime/concurrency.c\<close>): the pool of workers, the queue of ready goroutines, and
  the wait of the main thread. The sections under the mutex of the scheduler are single steps; what a
  goroutine does next is chosen freely. \<^theory_text>\<open>Sched_Props\<close>: no goroutine is used after it is
  freed or run in two places, what the main thread concludes is right, and two shapes in which ready
  goroutines are starved.

  \<^item> \<^theory_text>\<open>Memory\<close> (\<open>src/runtime/runtime.c\<close>): allocation with the object header, retain and
  release, and the protocol of the count as a step relation over goroutines. An access to a
  freed object is the outcome \<open>Stuck\<close>.

  \<^item> \<^theory_text>\<open>Slices\<close> (\<open>src/runtime/runtime.c\<close>): append, bulk append and copy on that store.

  \<^item> \<^theory_text>\<open>Maps\<close> (\<open>src/runtime/runtime.c\<close>): the list behind a map (locale \<open>keyed_map\<close>) and the
  ownership of its keys. The comparison function generated for struct keys is a parameter.

  \<^item> \<^theory_text>\<open>Strings\<close>, \<^theory_text>\<open>Strings_Props\<close> (\<open>src/runtime/runtime.c\<close>): UTF-8, string
  values, number conversions, split and join. \<open>strtoll\<close>, \<open>strstr\<close>, \<open>memcmp\<close>, \<open>isspace\<close> and the case
  mappings are modelled in the C locale.

  \<^item> \<^theory_text>\<open>Arena\<close> (\<open>src/runtime/arena.c\<close>): the bump allocator with machine-word arithmetic.

  \<^bold>\<open>Bounds and fuel.\<close> Reference counts, lengths and capacities of slices, runes and map slots are
  machine words; channel and string lengths and addresses are natural numbers, with the
  wrap-around written out in the arena. \<open>goo_chan_send\<close> has fuel for the one forwarding hop of
  a request channel (2 is enough); the fuel of \<open>goo_select\<close> counts polls; \<open>goo_arena_alloc\<close> has fuel
  for its self-call (2 is enough, which is proved). The evaluator of compile-time code has a
  bound on nested user calls, shown to be only a bound; the arrays of the promotion search keep
  their sizes (64 entries, depth 8). The capacity loop of slices is a
  \<open>while_option\<close>: where it ends is a theorem. \<open>malloc\<close> is taken to succeed.

  \<^bold>\<open>Not modelled.\<close> Code generation (calls into LLVM), the Bison grammar and its actions, the AST
  walks of the type and expression checkers, the intrinsics and type functions of comptime that the evaluator does not reach, contracts, the
  platform layer, I/O, the driver, and the retired sources under \<open>attic/\<close>. Next
  in line are the errors and defer stack of the runtime, and the adaptation of literals in
  the expression checker.
\<close>

end
